(* ===== verification/Prelude.thy ===== *)
theory Prelude
  imports Main "HOL-Library.Word" "HOL-Library.Char_ord" "HOL-Library.List_Lexorder"
begin

text \<open>
  Shared ground of the development: the type names of the model (machine integers, byte strings,
  results), the simp collections the components fill, and the generic lemmas on lists and
  results they all use.

  Rust's fallible functions return \<open>Result<T, E>\<close>; here they return \<open>'e + 'a\<close> with \<open>Inl\<close> for
  the error, and the question-mark operator is \<open>bind_res\<close>. The release profile of the crate
  leaves overflow checks off, so \<open>+\<close> on \<open>u32\<close> and \<open>u64\<close> is the wrapping \<open>+\<close> of the words below.
\<close>

section \<open>Types\<close>

type_synonym u32 = "32 word"
type_synonym u64 = "64 word"
type_synonym bytes = string

text \<open>A point of the system clock, in nanoseconds after (or, if negative, before) the Unix
  epoch.\<close>

type_synonym sys_time = int

section \<open>Collections of facts\<close>

named_theorems str_simps \<open>string scanners on their canonical inputs\<close>
named_theorems proj_simps \<open>one fold step of a projection, by event type\<close>
named_theorems wf_intros \<open>well-formedness kept by an operation\<close>

section \<open>Results\<close>

definition bind_res :: "'e + 'a \<Rightarrow> ('a \<Rightarrow> 'e + 'b) \<Rightarrow> 'e + 'b" where
  "bind_res r f = (case r of Inl e \<Rightarrow> Inl e | Inr a \<Rightarrow> f a)"

definition ok_or :: "'e \<Rightarrow> 'a option \<Rightarrow> 'e + 'a" where
  "ok_or e x = (case x of None \<Rightarrow> Inl e | Some a \<Rightarrow> Inr a)"

definition res_ok :: "'e + 'a \<Rightarrow> 'a option" where
  "res_ok r = (case r of Inl _ \<Rightarrow> None | Inr a \<Rightarrow> Some a)"

text \<open>A loop whose body ends in the question-mark operator: the first error ends it.\<close>

fun fold_res :: "('s \<Rightarrow> 'a \<Rightarrow> 'e + 's) \<Rightarrow> 's \<Rightarrow> 'a list \<Rightarrow> 'e + 's" where
  "fold_res f s [] = Inr s"
| "fold_res f s (x # xs) = (case f s x of Inl e \<Rightarrow> Inl e | Inr s' \<Rightarrow> fold_res f s' xs)"

text \<open>Collecting an iterator of results: the first error, or every value in order.\<close>

fun collect_res :: "('e + 'a) list \<Rightarrow> 'e + 'a list" where
  "collect_res [] = Inr []"
| "collect_res (r # rs) =
     (case r of Inl e \<Rightarrow> Inl e
      | Inr a \<Rightarrow> (case collect_res rs of Inl e \<Rightarrow> Inl e | Inr as \<Rightarrow> Inr (a # as)))"

text \<open>Collecting an iterator of options: every value, or none.\<close>

fun collect_opt :: "'a option list \<Rightarrow> 'a list option" where
  "collect_opt [] = Some []"
| "collect_opt (None # xs) = None"
| "collect_opt (Some x # xs) = map_option ((#) x) (collect_opt xs)"

text \<open>The first \<open>Some\<close> an iterator yields.\<close>

fun find_map :: "('a \<Rightarrow> 'b option) \<Rightarrow> 'a list \<Rightarrow> 'b option" where
  "find_map f [] = None"
| "find_map f (x # xs) = (case f x of Some y \<Rightarrow> Some y | None \<Rightarrow> find_map f xs)"

definition opt_filter :: "('a \<Rightarrow> bool) \<Rightarrow> 'a option \<Rightarrow> 'a option" where
  "opt_filter P x = (case x of Some a \<Rightarrow> if P a then Some a else None | None \<Rightarrow> None)"

definition unwrap_or :: "'a \<Rightarrow> 'a option \<Rightarrow> 'a" where
  "unwrap_or d x = (case x of Some a \<Rightarrow> a | None \<Rightarrow> d)"

text \<open>The last element a predicate holds of: a reversed iterator's \<open>find\<close>.\<close>

definition find_last :: "('a \<Rightarrow> bool) \<Rightarrow> 'a list \<Rightarrow> 'a option" where
  "find_last P xs = find P (rev xs)"

section \<open>Lemmas\<close>

lemma bind_res_simps [simp]:
  "bind_res (Inl e) f = Inl e" "bind_res (Inr a) f = f a"
  by (simp_all add: bind_res_def)

lemma ok_or_simps [simp]: "ok_or e None = Inl e" "ok_or e (Some a) = Inr a"
  by (simp_all add: ok_or_def)

lemma res_ok_simps [simp]: "res_ok (Inl e) = None" "res_ok (Inr a) = Some a"
  by (simp_all add: res_ok_def)

lemma opt_filter_simps [simp]:
  "opt_filter P None = None" "opt_filter P (Some a) = (if P a then Some a else None)"
  by (simp_all add: opt_filter_def)

lemma opt_filter_eq_Some [simp]: "opt_filter P x = Some a \<longleftrightarrow> x = Some a \<and> P a"
  by (cases x) auto

lemma unwrap_or_simps [simp]: "unwrap_or d None = d" "unwrap_or d (Some a) = a"
  by (simp_all add: unwrap_or_def)

lemma fold_res_append:
  "fold_res f s (xs @ ys) = bind_res (fold_res f s xs) (\<lambda>s'. fold_res f s' ys)"
  by (induction xs arbitrary: s) (auto split: sum.splits)

lemma snoc_split: "es @ [x] = pre @ e # post \<longleftrightarrow> pre = es \<and> e = x \<and> post = [] \<or> (\<exists>post'. post = post' @ [x] \<and> es = pre @ e # post')"
  by (cases post rule: rev_cases) auto

lemma collect_opt_eq: "collect_opt (map f xs) = Some ys \<longleftrightarrow> list_all2 (\<lambda>x y. f x = Some y) xs ys"
proof (induction xs arbitrary: ys)
  case (Cons x xs)
  then show ?case by (cases "f x") (auto simp: list_all2_Cons1)
qed auto

lemma fold_res_invariant:
  assumes "fold_res f s xs = Inr s'" and "I s"
    and "\<And>s x s'. x \<in> set xs \<Longrightarrow> I s \<Longrightarrow> f s x = Inr s' \<Longrightarrow> I s'"
  shows "I s'"
  using assms
proof (induction xs arbitrary: s)
  case Nil
  then show ?case by simp
next
  case (Cons x xs)
  then obtain t where t: "f s x = Inr t" "fold_res f t xs = Inr s'"
    by (auto split: sum.splits)
  with Cons.prems have "I t" by (meson list.set_intros(1))
  with t(2) show ?case by (rule Cons.IH) (use Cons.prems(3) in auto)
qed

lemma fold_res_cong_skip:
  assumes "\<And>s x. x \<in> set xs \<Longrightarrow> \<not> P x \<Longrightarrow> f s x = Inr s"
  shows "fold_res f s (filter P xs) = fold_res f s xs"
  using assms by (induction xs arbitrary: s) (auto split: sum.splits)

lemma collect_res_map_Inr [simp]: "collect_res (map (\<lambda>x. Inr (f x)) xs) = Inr (map f xs)"
  by (induction xs) auto

lemma collect_res_eq_Inr:
  "collect_res rs = Inr as \<longleftrightarrow> rs = map Inr as"
  by (induction rs arbitrary: as) (auto split: sum.splits)

lemma find_map_eq_None_iff: "find_map f xs = None \<longleftrightarrow> (\<forall>x \<in> set xs. f x = None)"
  by (induction xs) (auto split: option.splits)

lemma find_last_Nil [simp]: "find_last P [] = None"
  by (simp add: find_last_def)

lemma find_append: "find P (xs @ ys) = (case find P xs of Some x \<Rightarrow> Some x | None \<Rightarrow> find P ys)"
  by (induction xs) auto

lemma find_SomeD: "find P xs = Some x \<Longrightarrow> x \<in> set xs \<and> P x"
  by (induction xs) (auto split: if_splits)

lemma find_last_snoc [simp]:
  "find_last P (xs @ [x]) = (if P x then Some x else find_last P xs)"
  by (simp add: find_last_def)

lemma find_last_append:
  "find_last P (xs @ ys) = (case find_last P ys of Some x \<Rightarrow> Some x | None \<Rightarrow> find_last P xs)"
  by (simp add: find_last_def find_append split: option.splits)

lemma find_last_eq_None: "find_last P xs = None \<longleftrightarrow> (\<forall>x \<in> set xs. \<not> P x)"
  by (auto simp: find_last_def find_None_iff)

lemma find_last_SomeD: "find_last P xs = Some x \<Longrightarrow> x \<in> set xs \<and> P x"
  by (induction xs rule: rev_induct) (auto split: if_splits)

lemma find_last_filter:
  assumes "\<And>x. P x \<Longrightarrow> Q x"
  shows "find_last P (filter Q xs) = find_last P xs"
  using assms by (induction xs rule: rev_induct) auto

lemma find_last_Cons:
  "find_last P (x # xs) = (case find_last P xs of Some y \<Rightarrow> Some y | None \<Rightarrow> if P x then Some x else None)"
  by (simp add: find_last_def find_append split: option.splits)

text \<open>The last element that satisfies a predicate splits the list at it.\<close>

lemma find_last_split:
  "find_last P xs = Some x \<Longrightarrow> \<exists>pre post. xs = pre @ x # post \<and> P x \<and> (\<forall>y \<in> set post. \<not> P y)"
proof (induction xs rule: rev_induct)
  case Nil
  then show ?case by simp
next
  case (snoc z xs)
  show ?case
  proof (cases "P z")
    case True
    with snoc.prems show ?thesis by (intro exI [of _ xs] exI [of _ "[]"]) auto
  next
    case False
    with snoc obtain pre post where "xs = pre @ x # post" "P x" "\<forall>y \<in> set post. \<not> P y" by auto
    with False show ?thesis by (intro exI [of _ pre] exI [of _ "post @ [z]"]) auto
  qed
qed

text \<open>Ordered pairs of positions, and adjacent duplicates of a sorted list.\<close>

lemma ex_pair_Cons:
  "(\<exists>i j. i < j \<and> j < length (x # xs) \<and> P ((x # xs) ! i) ((x # xs) ! j)) \<longleftrightarrow>
     (\<exists>y \<in> set xs. P x y) \<or> (\<exists>i j. i < j \<and> j < length xs \<and> P (xs ! i) (xs ! j))"
  (is "?L \<longleftrightarrow> ?A \<or> ?B")
proof
  assume ?L
  then obtain i k where "i < Suc k" "k < length xs" "P ((x # xs) ! i) (xs ! k)" by (metis Suc_less_eq less_Suc_eq_0_disj length_Cons not_less_zero nth_Cons_Suc)
  then show "?A \<or> ?B" by (cases i) auto
next
  assume "?A \<or> ?B"
  then show ?L
  proof
    assume ?A
    then obtain j where "j < length xs" "P x (xs ! j)" by (auto simp: in_set_conv_nth)
    then show ?L by (intro exI [of _ 0] exI [of _ "Suc j"]) simp
  next
    assume ?B
    then obtain i j where "i < j" "j < length xs" "P (xs ! i) (xs ! j)" by blast
    then show ?L by (intro exI [of _ "Suc i"] exI [of _ "Suc j"]) simp
  qed
qed

lemma sorted_distinct_remdups_adj: "sorted xs \<Longrightarrow> distinct (remdups_adj xs)"
  by (induction xs rule: remdups_adj.induct) (auto simp: order.antisym)

section \<open>Words\<close>

text \<open>Pairs are distinct when each class of the first component has distinct second ones.\<close>

lemma distinct_by_class:
  assumes "\<And>s. distinct (map g (filter (\<lambda>x. f x = s) xs))"
  shows "distinct (map (\<lambda>x. (f x, g x)) xs)"
  using assms
proof (induction xs)
  case (Cons x xs)
  have "distinct (map g (filter (\<lambda>x. f x = s) xs))" for s using Cons.prems [of s] by (simp split: if_splits)
  moreover have "g x \<notin> g ` {y \<in> set xs. f y = f x}" using Cons.prems [of "f x"] by simp
  ultimately show ?case using Cons.IH by force
qed simp

lemma sorted_less_distinct_map: "sorted_wrt (\<lambda>a b. f a < f b) xs \<Longrightarrow> distinct (map f xs)" for f :: "'a \<Rightarrow> 'b::linorder"
  by (induction xs) force+

lemma unat_plus_one: "w \<noteq> - 1 \<Longrightarrow> unat (w + 1) = Suc (unat w)" for w :: "'a::len word"
proof -
  assume "w \<noteq> - 1"
  then have "1 + w \<noteq> 0" by (simp add: add_eq_0_iff)
  then show ?thesis using unatSuc [of w] by (simp add: add.commute)
qed

end
