(* ===== verification/Rust_String.thy ===== *)
theory Rust_String
  imports Prelude
begin

text \<open>
  The part of Rust's \<open>str\<close> the sources use. A string is its UTF-8 byte sequence (HOL's \<open>char\<close> is
  a byte), so byte-wise methods (\<open>strip_prefix\<close>, \<open>split_once\<close> on an ASCII separator, comparison)
  work on the list directly, and character-wise ones (\<open>chars().take\<close>, \<open>trim\<close>,
  \<open>split_whitespace\<close>) go through \<open>utf8_chars\<close>, which cuts a string into its encoded
  characters. Decimal printing and \<open>parse::<u32>()\<close> are here too, with their round trip.
\<close>

section \<open>Characters\<close>

definition byte_of :: "char \<Rightarrow> nat" where
  "byte_of c = of_char c"

definition is_cont :: "char \<Rightarrow> bool" where
  "is_cont c \<longleftrightarrow> 128 \<le> byte_of c \<and> byte_of c < 192"

function utf8_chars :: "string \<Rightarrow> string list" where
  "utf8_chars [] = []"
| "utf8_chars (c # cs) = (c # takeWhile is_cont cs) # utf8_chars (dropWhile is_cont cs)"
  by pat_completeness auto
termination
  by (relation "measure length") (auto simp: le_imp_less_Suc length_dropWhile_le)

text \<open>The characters with Unicode's \<open>White_Space\<close> property, which \<open>char::is_whitespace\<close>,
  \<open>trim\<close> and \<open>split_whitespace\<close> read.\<close>

definition white_space_chars :: "string list" where
  "white_space_chars =
     [[CHR 0x09], [CHR 0x0A], [CHR 0x0B], [CHR 0x0C], [CHR 0x0D], [CHR 0x20],
      [CHR 0xC2, CHR 0x85], [CHR 0xC2, CHR 0xA0], [CHR 0xE1, CHR 0x9A, CHR 0x80],
      [CHR 0xE2, CHR 0x80, CHR 0x80], [CHR 0xE2, CHR 0x80, CHR 0x81],
      [CHR 0xE2, CHR 0x80, CHR 0x82], [CHR 0xE2, CHR 0x80, CHR 0x83],
      [CHR 0xE2, CHR 0x80, CHR 0x84], [CHR 0xE2, CHR 0x80, CHR 0x85],
      [CHR 0xE2, CHR 0x80, CHR 0x86], [CHR 0xE2, CHR 0x80, CHR 0x87],
      [CHR 0xE2, CHR 0x80, CHR 0x88], [CHR 0xE2, CHR 0x80, CHR 0x89],
      [CHR 0xE2, CHR 0x80, CHR 0x8A], [CHR 0xE2, CHR 0x80, CHR 0xA8],
      [CHR 0xE2, CHR 0x80, CHR 0xA9], [CHR 0xE2, CHR 0x80, CHR 0xAF],
      [CHR 0xE2, CHR 0x81, CHR 0x9F], [CHR 0xE3, CHR 0x80, CHR 0x80]]"

definition is_ws :: "string \<Rightarrow> bool" where
  "is_ws c \<longleftrightarrow> c \<in> set white_space_chars"

definition is_ascii_digit :: "char \<Rightarrow> bool" where
  "is_ascii_digit c \<longleftrightarrow> 48 \<le> byte_of c \<and> byte_of c \<le> 57"

definition is_ascii_upper :: "char \<Rightarrow> bool" where
  "is_ascii_upper c \<longleftrightarrow> 65 \<le> byte_of c \<and> byte_of c \<le> 90"

definition is_ascii_lower :: "char \<Rightarrow> bool" where
  "is_ascii_lower c \<longleftrightarrow> 97 \<le> byte_of c \<and> byte_of c \<le> 122"

definition is_ascii_alphanumeric :: "char \<Rightarrow> bool" where
  "is_ascii_alphanumeric c \<longleftrightarrow> is_ascii_digit c \<or> is_ascii_upper c \<or> is_ascii_lower c"

definition to_ascii_lower :: "char \<Rightarrow> char" where
  "to_ascii_lower c = (if is_ascii_upper c then char_of (byte_of c + 32) else c)"

definition eq_ignore_ascii_case :: "string \<Rightarrow> string \<Rightarrow> bool" where
  "eq_ignore_ascii_case a b \<longleftrightarrow> map to_ascii_lower a = map to_ascii_lower b"

section \<open>Scanning\<close>

definition chars_take :: "nat \<Rightarrow> string \<Rightarrow> string" where
  "chars_take n s = concat (take n (utf8_chars s))"

definition trim :: "string \<Rightarrow> string" where
  "trim s = concat (rev (dropWhile is_ws (rev (dropWhile is_ws (utf8_chars s)))))"

fun words_from :: "string \<Rightarrow> string list \<Rightarrow> string list" where
  "words_from cur [] = (if cur = [] then [] else [cur])"
| "words_from cur (c # cs) =
     (if is_ws c then (if cur = [] then words_from [] cs else cur # words_from [] cs)
      else words_from (cur @ c) cs)"

definition split_whitespace :: "string \<Rightarrow> string list" where
  "split_whitespace s = words_from [] (utf8_chars s)"

fun join :: "string \<Rightarrow> string list \<Rightarrow> string" where
  "join sep [] = []"
| "join sep [x] = x"
| "join sep (x # y # ys) = x @ sep @ join sep (y # ys)"

definition trim_matches :: "(char \<Rightarrow> bool) \<Rightarrow> string \<Rightarrow> string" where
  "trim_matches P s = rev (dropWhile P (rev (dropWhile P s)))"

fun strip_prefix :: "string \<Rightarrow> string \<Rightarrow> string option" where
  "strip_prefix [] s = Some s"
| "strip_prefix (p # ps) [] = None"
| "strip_prefix (p # ps) (c # cs) = (if p = c then strip_prefix ps cs else None)"

definition starts_with :: "string \<Rightarrow> string \<Rightarrow> bool" where
  "starts_with s p \<longleftrightarrow> strip_prefix p s \<noteq> None"

fun split_once :: "char \<Rightarrow> string \<Rightarrow> (string \<times> string) option" where
  "split_once c [] = None"
| "split_once c (x # xs) =
     (if x = c then Some ([], xs)
      else (case split_once c xs of None \<Rightarrow> None | Some (a, b) \<Rightarrow> Some (x # a, b)))"

definition rsplit_once :: "char \<Rightarrow> string \<Rightarrow> (string \<times> string) option" where
  "rsplit_once c s = (case split_once c (rev s) of None \<Rightarrow> None | Some (a, b) \<Rightarrow> Some (rev b, rev a))"

fun rsplit_once_str :: "string \<Rightarrow> string \<Rightarrow> (string \<times> string) option" where
  "rsplit_once_str p [] = (if p = [] then Some ([], []) else None)"
| "rsplit_once_str p (x # xs) =
     (case rsplit_once_str p xs of Some (a, b) \<Rightarrow> Some (x # a, b)
      | None \<Rightarrow> (case strip_prefix p (x # xs) of Some r \<Rightarrow> Some ([], r) | None \<Rightarrow> None))"

text \<open>The first piece of \<open>split([..])\<close> and the first piece of \<open>rsplit(c)\<close>.\<close>

definition split_first :: "char list \<Rightarrow> string \<Rightarrow> string" where
  "split_first seps s = takeWhile (\<lambda>c. c \<notin> set seps) s"

definition rsplit_first :: "char \<Rightarrow> string \<Rightarrow> string" where
  "rsplit_first c s = rev (takeWhile (\<lambda>x. x \<noteq> c) (rev s))"

section \<open>Decimal numbers\<close>

definition digit_char :: "nat \<Rightarrow> char" where
  "digit_char d = char_of (48 + d)"

fun show_nat :: "nat \<Rightarrow> string" where
  "show_nat n = (if n < 10 then [digit_char n] else show_nat (n div 10) @ [digit_char (n mod 10)])"

declare show_nat.simps [simp del]

definition digits_value :: "string \<Rightarrow> nat" where
  "digits_value s = foldl (\<lambda>n c. 10 * n + (byte_of c - 48)) 0 s"

text \<open>\<open>str::parse\<close> at an unsigned type with greatest value \<open>bound\<close>: an optional plus sign, then at
  least one digit and nothing else, within the bound.\<close>

definition parse_uint :: "nat \<Rightarrow> string \<Rightarrow> nat option" where
  "parse_uint bound s =
     (let t = (case s of [] \<Rightarrow> [] | c # cs \<Rightarrow> if c = CHR ''+'' then cs else s)
      in if t = [] \<or> list_ex (\<lambda>c. \<not> is_ascii_digit c) t then None
         else if digits_value t \<le> bound then Some (digits_value t) else None)"

definition parse_u32 :: "string \<Rightarrow> u32 option" where
  "parse_u32 s = map_option of_nat (parse_uint (2 ^ 32 - 1) s)"

definition show_u32 :: "u32 \<Rightarrow> string" where
  "show_u32 w = show_nat (unat w)"

definition show_u64 :: "u64 \<Rightarrow> string" where
  "show_u64 w = show_nat (unat w)"

section \<open>Lemmas on scanners\<close>

lemma concat_utf8_chars [simp]: "concat (utf8_chars s) = s"
  by (induction s rule: utf8_chars.induct) auto

lemma utf8_chars_nonempty: "c \<in> set (utf8_chars s) \<Longrightarrow> c \<noteq> []"
  by (induction s rule: utf8_chars.induct) auto

lemma strip_prefix_eq_Some [simp]: "strip_prefix p s = Some r \<longleftrightarrow> s = p @ r"
  by (induction p s rule: strip_prefix.induct) auto

lemma strip_prefix_append [simp]: "strip_prefix p (p @ r) = Some r"
  by simp

lemma strip_prefix_eq_None: "strip_prefix p s = None \<longleftrightarrow> (\<nexists>r. s = p @ r)"
  by (cases "strip_prefix p s") auto

text \<open>\<open>s.strip_prefix(p).unwrap_or(s)\<close>.\<close>

lemma unwrap_strip_prefix:
  "unwrap_or s (strip_prefix p s) = b \<longleftrightarrow> b = s \<and> (\<nexists>r. s = p @ r) \<or> s = p @ b"
proof (cases "strip_prefix p s")
  case None
  then have "\<nexists>r. s = p @ r" by (simp add: strip_prefix_eq_None)
  with None show ?thesis by auto
qed auto

lemma starts_with_iff: "starts_with s p \<longleftrightarrow> (\<exists>r. s = p @ r)"
  by (auto simp: starts_with_def strip_prefix_eq_None)

lemma split_once_append [str_simps]:
  "c \<notin> set a \<Longrightarrow> split_once c (a @ c # b) = Some (a, b)"
  by (induction a) auto

lemma split_once_absent [str_simps]: "c \<notin> set s \<Longrightarrow> split_once c s = None"
  by (induction s) auto

lemma split_once_SomeD: "split_once c s = Some (a, b) \<Longrightarrow> s = a @ c # b \<and> c \<notin> set a"
  by (induction s arbitrary: a) (auto split: if_splits option.splits)

lemma split_once_eq_None: "split_once c s = None \<longleftrightarrow> c \<notin> set s"
  by (induction s) (auto split: option.splits)

lemma rsplit_once_append [str_simps]:
  "c \<notin> set b \<Longrightarrow> rsplit_once c (a @ c # b) = Some (a, b)"
  by (simp add: rsplit_once_def split_once_append)

lemma rsplit_once_absent [str_simps]: "c \<notin> set s \<Longrightarrow> rsplit_once c s = None"
  by (simp add: rsplit_once_def split_once_absent)

lemma split_first_append [str_simps]:
  "set a \<inter> set seps = {} \<Longrightarrow> c \<in> set seps \<Longrightarrow> split_first seps (a @ c # b) = a"
  unfolding split_first_def by (subst takeWhile_append2) auto

lemma split_first_absent [str_simps]:
  "set a \<inter> set seps = {} \<Longrightarrow> split_first seps a = a"
  unfolding split_first_def by (subst takeWhile_eq_all_conv) auto

lemma rsplit_first_append [str_simps]:
  "c \<notin> set b \<Longrightarrow> rsplit_first c (a @ c # b) = b"
  unfolding rsplit_first_def by (simp add: takeWhile_append)

lemma rsplit_once_str_absent:
  "\<nexists>a b. s = a @ p @ b \<Longrightarrow> p \<noteq> [] \<Longrightarrow> rsplit_once_str p s = None"
proof (induction s)
  case Nil
  then show ?case by simp
next
  case (Cons x xs)
  have "\<nexists>a b. xs = a @ p @ b" using Cons.prems(1) by (metis append_Cons)
  moreover have "strip_prefix p (x # xs) = None"
    using Cons.prems(1) by (metis append_Nil not_None_eq strip_prefix_eq_Some)
  ultimately show ?case using Cons by simp
qed

text \<open>The separator's last occurrence is the one where nothing after its first byte starts it
  again.\<close>

lemma rsplit_once_str_append [str_simps]:
  assumes "x \<notin> set p" and "x \<notin> set b"
  shows "rsplit_once_str (x # p) (a @ x # p @ b) = Some (a, b)"
proof (induction a)
  case Nil
  have "\<nexists>u v. p @ b = u @ (x # p) @ v"
    using assms by (metis Un_iff append_Cons in_set_conv_decomp set_append)
  then have "rsplit_once_str (x # p) (p @ b) = None"
    by (simp add: rsplit_once_str_absent)
  then show ?case by simp
next
  case (Cons y a)
  then show ?case by simp
qed

lemma rsplit_once_str_absent_char [str_simps]:
  "x \<notin> set s \<Longrightarrow> rsplit_once_str (x # p) s = None"
  by (rule rsplit_once_str_absent) auto

section \<open>Lemmas on decimal numbers\<close>

lemma byte_of_digit_char: "d < 10 \<Longrightarrow> byte_of (digit_char d) = 48 + d"
  by (simp add: byte_of_def digit_char_def)

lemma digit_char_is_digit: "d < 10 \<Longrightarrow> is_ascii_digit (digit_char d)"
  by (simp add: is_ascii_digit_def byte_of_digit_char)

lemma show_nat_nonempty [simp]: "show_nat n \<noteq> []"
  by (subst show_nat.simps) simp

lemma show_nat_digits: "c \<in> set (show_nat n) \<Longrightarrow> is_ascii_digit c"
proof (induction n rule: show_nat.induct)
  case (1 n)
  then show ?case
    by (subst (asm) (2) show_nat.simps) (auto simp: digit_char_is_digit split: if_splits)
qed

lemma digits_value_snoc:
  "digits_value (s @ [c]) = 10 * digits_value s + (byte_of c - 48)"
  by (simp add: digits_value_def)

lemma digits_value_show_nat [simp]: "digits_value (show_nat n) = n"
proof (induction n rule: show_nat.induct)
  case (1 n)
  show ?case
  proof (cases "n < 10")
    case True
    then show ?thesis
      by (subst show_nat.simps) (simp add: digits_value_def byte_of_digit_char)
  next
    case False
    with 1 have "digits_value (show_nat (n div 10)) = n div 10" by simp
    with False show ?thesis
      by (subst show_nat.simps) (simp add: digits_value_snoc byte_of_digit_char)
  qed
qed

lemma show_nat_inject [simp]: "show_nat m = show_nat n \<longleftrightarrow> m = n"
  by (metis digits_value_show_nat)

lemma plus_not_digit: "\<not> is_ascii_digit CHR ''+''"
  by (simp add: is_ascii_digit_def byte_of_def)

lemma not_digit_in_show_nat: "\<not> is_ascii_digit c \<Longrightarrow> c \<notin> set (show_nat n)"
  using show_nat_digits by blast

lemma parse_uint_show_nat: "n \<le> bound \<Longrightarrow> parse_uint bound (show_nat n) = Some n"
proof -
  assume b: "n \<le> bound"
  obtain c cs where s: "show_nat n = c # cs" by (cases "show_nat n") auto
  have "c \<noteq> CHR ''+''"
    using show_nat_digits[of c n] s plus_not_digit by auto
  moreover have "\<not> list_ex (\<lambda>c. \<not> is_ascii_digit c) (show_nat n)"
    using show_nat_digits by (auto simp: list_ex_iff)
  ultimately show ?thesis
    using b s by (simp add: parse_uint_def Let_def digits_value_show_nat[of n, unfolded s])
qed

lemma parse_u32_show_u32 [simp]: "parse_u32 (show_u32 w) = Some w"
proof -
  have "unat w < 2 ^ 32" using unsigned_less[of w] by simp
  then have "unat w \<le> 2 ^ 32 - 1" by simp
  then show ?thesis
    by (simp add: parse_u32_def show_u32_def parse_uint_show_nat)
qed

lemma show_u32_inject [simp]: "show_u32 v = show_u32 w \<longleftrightarrow> v = w"
  by (simp add: show_u32_def word_unat_eq_iff)

lemma show_u32_digits: "c \<in> set (show_u32 w) \<Longrightarrow> is_ascii_digit c"
  by (simp add: show_u32_def show_nat_digits)

text \<open>The separators of the spawn id grammar are no digits.\<close>

lemma separators_not_in_number [simp]:
  "CHR ''/'' \<notin> set (show_nat n)" "CHR ''#'' \<notin> set (show_nat n)"
  "CHR ''~'' \<notin> set (show_nat n)" "CHR ''@'' \<notin> set (show_nat n)" "CHR ''-'' \<notin> set (show_nat n)"
  by (rule not_digit_in_show_nat, simp add: is_ascii_digit_def byte_of_def)+

lemma separators_not_in_u32 [simp]:
  "CHR ''/'' \<notin> set (show_u32 w)" "CHR ''#'' \<notin> set (show_u32 w)"
  "CHR ''~'' \<notin> set (show_u32 w)" "CHR ''@'' \<notin> set (show_u32 w)" "CHR ''-'' \<notin> set (show_u32 w)"
  by (simp_all add: show_u32_def)

text \<open>Two numbers followed by a non-digit (or by nothing) that agree as strings agree.\<close>

lemma show_nat_append_cancel:
  assumes "show_nat m @ a = show_nat n @ b"
    and "a = [] \<or> \<not> is_ascii_digit (hd a)" and "b = [] \<or> \<not> is_ascii_digit (hd b)"
  shows "m = n \<and> a = b"
proof -
  have "takeWhile is_ascii_digit (show_nat k @ x) = show_nat k"
    if "x = [] \<or> \<not> is_ascii_digit (hd x)" for k x
    using that show_nat_digits[of _ k] by (cases x) (auto simp: takeWhile_append)
  with assms have "show_nat m = show_nat n" by metis
  with assms show ?thesis by simp
qed

end
