(* ===== verification/BTree.thy ===== *)
theory BTree
  imports Rust_String
begin

text \<open>
  Rust's \<open>BTreeMap\<close> and \<open>BTreeSet\<close>, which the sources use wherever iteration order reaches an
  output: a map is the list of its entries in strictly ascending key order, a set the list of its
  elements in that order. For keys of type \<open>String\<close> the order is the byte-wise lexicographic one,
  which is the order of HOL's \<open>char list\<close>. The locale \<open>ordered_map\<close> states what the components
  rely on; it is interpreted on these operations, and its facts about folding insertions are what
  the later-wins reads of the log use.
\<close>

section \<open>Operations\<close>

type_synonym ('k, 'v) btree = "('k \<times> 'v) list"
type_synonym 'k bset = "'k list"

fun bt_insert :: "'k::linorder \<Rightarrow> 'v \<Rightarrow> ('k, 'v) btree \<Rightarrow> ('k, 'v) btree" where
  "bt_insert k v [] = [(k, v)]"
| "bt_insert k v ((k', v') # m) =
     (if k = k' then (k, v) # m
      else if k < k' then (k, v) # (k', v') # m
      else (k', v') # bt_insert k v m)"

definition bt_get :: "('k, 'v) btree \<Rightarrow> 'k \<Rightarrow> 'v option" where
  "bt_get m k = map_of m k"

definition bt_remove :: "'k \<Rightarrow> ('k, 'v) btree \<Rightarrow> ('k, 'v) btree" where
  "bt_remove k m = filter (\<lambda>(k', _). k' \<noteq> k) m"

definition bt_keys :: "('k, 'v) btree \<Rightarrow> 'k list" where
  "bt_keys m = map fst m"

definition bt_values :: "('k, 'v) btree \<Rightarrow> 'v list" where
  "bt_values m = map snd m"

text \<open>\<open>extend\<close> and \<open>collect\<close>: insertions in iteration order, so a later entry of a key wins.\<close>

definition bt_extend :: "('k::linorder, 'v) btree \<Rightarrow> ('k \<times> 'v) list \<Rightarrow> ('k, 'v) btree" where
  "bt_extend m kvs = foldl (\<lambda>m (k, v). bt_insert k v m) m kvs"

definition bt_collect :: "('k::linorder \<times> 'v) list \<Rightarrow> ('k, 'v) btree" where
  "bt_collect kvs = bt_extend [] kvs"

definition bt_wf :: "('k::linorder, 'v) btree \<Rightarrow> bool" where
  "bt_wf m \<longleftrightarrow> sorted_wrt (<) (map fst m)"

fun bs_insert :: "'k::linorder \<Rightarrow> 'k bset \<Rightarrow> 'k bset" where
  "bs_insert x [] = [x]"
| "bs_insert x (y # ys) = (if x = y then y # ys else if x < y then x # y # ys else y # bs_insert x ys)"

definition bs_collect :: "'k::linorder list \<Rightarrow> 'k bset" where
  "bs_collect xs = foldl (\<lambda>s x. bs_insert x s) [] xs"

definition bs_difference :: "'k bset \<Rightarrow> 'k bset \<Rightarrow> 'k list" where
  "bs_difference a b = filter (\<lambda>x. x \<notin> set b) a"

section \<open>Sets\<close>

lemma set_bs_insert [simp]: "set (bs_insert x s) = insert x (set s)"
  by (induction s) auto

lemma sorted_bs_insert [wf_intros]: "sorted_wrt (<) s \<Longrightarrow> sorted_wrt (<) (bs_insert x s)"
  by (induction s) auto

lemma bs_collect_snoc: "bs_collect (xs @ [x]) = bs_insert x (bs_collect xs)"
  by (simp add: bs_collect_def)

lemma bs_collect_spec: "set (bs_collect xs) = set xs \<and> sorted_wrt (<) (bs_collect xs)"
  by (induction xs rule: rev_induct) (auto simp: bs_collect_snoc sorted_bs_insert bs_collect_def)

lemmas set_bs_collect [simp] = bs_collect_spec [THEN conjunct1]
lemmas sorted_bs_collect [simp] = bs_collect_spec [THEN conjunct2]

lemma sorted_less_distinct: "sorted_wrt (<) (xs :: 'a::linorder list) \<Longrightarrow> distinct xs"
  by (induction xs) auto

lemma sorted_less_unique:
  fixes xs ys :: "'a::linorder list"
  assumes "sorted_wrt (<) xs" "sorted_wrt (<) ys" "set xs = set ys"
  shows "xs = ys"
  using assms by (simp add: strict_sorted_equal)

section \<open>The ordered map interface\<close>

locale ordered_map =
  fixes get :: "'m \<Rightarrow> 'k::linorder \<Rightarrow> 'v option"
    and put :: "'k \<Rightarrow> 'v \<Rightarrow> 'm \<Rightarrow> 'm"
    and empty :: 'm
    and keys :: "'m \<Rightarrow> 'k list"
    and wf :: "'m \<Rightarrow> bool"
  assumes get_empty: "get empty k = None"
    and get_put: "get (put k v m) k' = (if k' = k then Some v else get m k')"
    and wf_empty: "wf empty"
    and wf_put: "wf m \<Longrightarrow> wf (put k v m)"
    and keys_get: "set (keys m) = {k. get m k \<noteq> None}"
    and keys_sorted: "wf m \<Longrightarrow> sorted_wrt (<) (keys m)"
begin

lemma wf_fold_put: "wf m \<Longrightarrow> wf (foldl (\<lambda>m (k, v). put k v m) m kvs)"
  by (induction kvs arbitrary: m) (auto simp: wf_put)

text \<open>Insertions fold later-wins: the value of a key is that of its last insertion.\<close>

lemma get_fold_put:
  "get (foldl (\<lambda>m (k, v). put k v m) m kvs) k =
     (case map_of (rev kvs) k of Some v \<Rightarrow> Some v | None \<Rightarrow> get m k)"
proof (induction kvs rule: rev_induct)
  case Nil
  then show ?case by simp
next
  case (snoc kv kvs)
  then show ?case by (cases kv) (simp add: get_put)
qed

lemma keys_put: "set (keys (put k v m)) = insert k (set (keys m))"
  by (auto simp: keys_get get_put split: if_splits)

lemma keys_fold_put:
  "set (keys (foldl (\<lambda>m (k, v). put k v m) m kvs)) = set (keys m) \<union> fst ` set kvs"
  by (induction kvs arbitrary: m) (auto simp: keys_put)

lemma keys_canonical:
  assumes "wf m" "wf n" "set (keys m) = set (keys n)"
  shows "keys m = keys n"
  using assms by (auto intro: strict_sorted_equal keys_sorted)

end

section \<open>The association list provides it\<close>

lemma bt_get_insert: "bt_get (bt_insert k v m) k' = (if k' = k then Some v else bt_get m k')"
  by (induction m) (auto simp: bt_get_def)

lemma set_fst_bt_insert: "fst ` set (bt_insert k v m) = insert k (fst ` set m)"
proof (induction m)
  case Nil
  then show ?case by simp
next
  case (Cons e m)
  obtain k' v' where "e = (k', v')" by (cases e)
  with Cons show ?case by (cases "k = k'"; cases "k < k'") auto
qed

lemma bt_wf_insert [wf_intros]: "bt_wf m \<Longrightarrow> bt_wf (bt_insert k v m)"
  unfolding bt_wf_def
proof (induction m)
  case Nil
  then show ?case by simp
next
  case (Cons e m)
  obtain k' v' where e: "e = (k', v')" by (cases e)
  show ?case
  proof (cases "k' < k")
    case True
    with Cons.prems e have "\<forall>x \<in> fst ` set (bt_insert k v m). k' < x"
      by (auto simp: set_fst_bt_insert)
    with True Cons e show ?thesis by auto
  next
    case False
    with Cons.prems e show ?thesis by (cases "k = k'") auto
  qed
qed

lemma bt_wf_Nil [simp, wf_intros]: "bt_wf []"
  by (simp add: bt_wf_def)

interpretation btm: ordered_map bt_get bt_insert "[]" bt_keys bt_wf
proof unfold_locales
  fix m :: "('a, 'b) btree"
  show "set (bt_keys m) = {k. bt_get m k \<noteq> None}"
    unfolding bt_keys_def bt_get_def map_of_eq_None_iff by auto
next
  fix m :: "('a, 'b) btree"
  assume "bt_wf m"
  then show "sorted_wrt (<) (bt_keys m)" by (simp add: bt_keys_def bt_wf_def)
qed (simp_all add: bt_get_insert bt_wf_insert, simp add: bt_get_def)

lemmas bt_extend_get = btm.get_fold_put [folded bt_extend_def]
lemmas bt_extend_wf [wf_intros] = btm.wf_fold_put [folded bt_extend_def]
lemmas bt_extend_keys = btm.keys_fold_put [folded bt_extend_def]

lemma bt_collect_wf [simp, wf_intros]: "bt_wf (bt_collect kvs)"
  by (simp add: bt_collect_def bt_extend_wf)

lemma bt_collect_get: "bt_get (bt_collect kvs) k = map_of (rev kvs) k"
  by (simp add: bt_collect_def bt_extend_get btm.get_empty split: option.splits)

lemma bt_collect_keys: "set (bt_keys (bt_collect kvs)) = fst ` set kvs"
  by (simp add: bt_collect_def bt_extend_keys) (simp add: bt_keys_def)

lemma bt_collect_snoc: "bt_collect (kvs @ [(k, v)]) = bt_insert k v (bt_collect kvs)"
  by (simp add: bt_collect_def bt_extend_def)

lemma bt_collect_Nil [simp]: "bt_collect [] = []"
  by (simp add: bt_collect_def bt_extend_def)

lemma bt_get_mem: "bt_wf m \<Longrightarrow> bt_get m k = Some v \<longleftrightarrow> (k, v) \<in> set m"
  unfolding bt_wf_def bt_get_def
  by (rule map_of_eq_Some_iff) (rule sorted_less_distinct)

lemma bt_get_remove: "bt_get (bt_remove k m) k' = (if k' = k then None else bt_get m k')"
  by (induction m) (auto simp: bt_get_def bt_remove_def)

lemma bt_wf_remove [wf_intros]: "bt_wf m \<Longrightarrow> bt_wf (bt_remove k m)"
  unfolding bt_wf_def bt_remove_def by (induction m) (auto simp: image_iff)

lemma bt_values_mem: "bt_wf m \<Longrightarrow> v \<in> set (bt_values m) \<longleftrightarrow> (\<exists>k. bt_get m k = Some v)"
  by (force simp: bt_values_def bt_get_mem)

lemma bt_wf_filter [wf_intros]: "bt_wf m \<Longrightarrow> bt_wf (filter P m)"
  unfolding bt_wf_def by (induction m) auto

section \<open>The first value a reader accepts\<close>

text \<open>A reader that takes the first value some function accepts depends only on what the function
  answers at each key.\<close>

fun bt_filter_map :: "('v \<Rightarrow> 'w option) \<Rightarrow> ('k \<times> 'v) list \<Rightarrow> ('k \<times> 'w) list" where
  "bt_filter_map f [] = []"
| "bt_filter_map f ((k, v) # m) =
     (case f v of None \<Rightarrow> bt_filter_map f m | Some w \<Rightarrow> (k, w) # bt_filter_map f m)"

lemma bt_filter_map_mem: "(k, w) \<in> set (bt_filter_map f m) \<longleftrightarrow> (\<exists>v. (k, v) \<in> set m \<and> f v = Some w)"
  by (induction f m rule: bt_filter_map.induct) (auto split: option.splits)

lemma bt_filter_map_wf: "bt_wf m \<Longrightarrow> bt_wf (bt_filter_map f m)"
  unfolding bt_wf_def
  by (induction f m rule: bt_filter_map.induct) (force simp: bt_filter_map_mem split: option.splits)+

lemma find_map_values:
  "find_map f (bt_values m) = (case bt_filter_map f m of [] \<Rightarrow> None | (_, w) # _ \<Rightarrow> Some w)"
  by (induction f m rule: bt_filter_map.induct) (auto simp: bt_values_def split: option.splits)

lemma bt_wf_unique:
  assumes "bt_wf m" "bt_wf n" "set m = set n" shows "m = n"
proof -
  have d: "sorted (map fst m)" "distinct (map fst m)" "sorted (map fst n)" "distinct (map fst n)"
    using assms by (auto simp: bt_wf_def sorted_less_distinct strict_sorted_iff)
  have "inj_on fst (set m \<union> set n)"
    using d(2) assms(3) by (simp add: distinct_map)
  then show ?thesis using d assms(3) by (rule map_sorted_distinct_set_unique)
qed

lemma find_map_values_cong:
  assumes "bt_wf m" "bt_wf n" "\<And>k. Option.bind (bt_get m k) f = Option.bind (bt_get n k) f"
  shows "find_map f (bt_values m) = find_map f (bt_values n)"
proof -
  have "(k, w) \<in> set (bt_filter_map f p) \<longleftrightarrow> Option.bind (bt_get p k) f = Some w" if "bt_wf p" for p k w
    using that by (auto simp: bt_filter_map_mem bt_get_mem Option.bind_eq_Some_conv)
  note mem = this [OF assms(1)] this [OF assms(2)]
  have "kw \<in> set (bt_filter_map f m) \<longleftrightarrow> kw \<in> set (bt_filter_map f n)" for kw
    by (cases kw) (simp add: mem assms(3))
  then have "set (bt_filter_map f m) = set (bt_filter_map f n)" by blast
  then have "bt_filter_map f m = bt_filter_map f n"
    using assms by (intro bt_wf_unique bt_filter_map_wf)
  then show ?thesis by (simp add: find_map_values)
qed

end
