(* ===== verification/Wire.thy ===== *)
theory Wire
  imports BTree
begin

text \<open>
  The event log's values: the \<open>Event\<close> of the domain crate's \<open>eventstore.rs\<close>, the event types, and
  the bodies the projections decode from an event's payload (\<open>run.rs\<close>, \<open>ledger.rs\<close>, \<open>spawn.rs\<close>).

  An event's payload is a byte string that \<open>serde_json\<close>, a third-party crate, decodes at the type a
  reader asks for and encodes from the type a writer holds. That crate is a parameter of the model:
  a \<open>codec\<close> holds one decoder per body type the sources decode at and one encoder per body type they
  write, and every definition that decodes takes the codec it decodes with. Nothing is assumed of
  it here; a theorem that needs a fact about it states it.
\<close>

section \<open>JSON values\<close>

text \<open>\<open>serde_json::Value\<close>, for the readers that decode at no type of their own. A float is its bits.\<close>

datatype json =
    JNull
  | JBool bool
  | JInt int
  | JFloat u64
  | JStr string
  | JArr "json list"
  | JObj "(string \<times> json) list"

fun value_get :: "json \<Rightarrow> string \<Rightarrow> json option" where
  "value_get (JObj fields) k = map_of fields k"
| "value_get _ k = None"

fun as_str :: "json \<Rightarrow> string option" where
  "as_str (JStr s) = Some s"
| "as_str _ = None"

fun as_array :: "json \<Rightarrow> json list option" where
  "as_array (JArr xs) = Some xs"
| "as_array _ = None"

datatype json_error = JsonError string

section \<open>Events\<close>

type_synonym position = nat
type_synonym revision = int

abbreviation NO_STREAM :: revision where
  "NO_STREAM \<equiv> -1"

record event =
  ev_id :: string
  ev_stream :: string
  ev_type :: string
  ev_data :: bytes
  ev_meta :: "(string, string) btree"
  valid_from :: sys_time
  recorded_at :: sys_time
  ev_position :: position
  ev_revision :: revision

text \<open>\<open>Event::new\<close>: the fresh id and the time it is stamped with come from the random source and the
  clock, so they are arguments.\<close>

definition event_new :: "string \<times> sys_time \<Rightarrow> string \<Rightarrow> bytes \<Rightarrow> event" where
  "event_new mint ty data =
     \<lparr>ev_id = fst mint, ev_stream = '''', ev_type = ty, ev_data = data, ev_meta = [],
      valid_from = snd mint, recorded_at = snd mint, ev_position = 0, ev_revision = NO_STREAM\<rparr>"

definition with_meta :: "string \<Rightarrow> string \<Rightarrow> event \<Rightarrow> event" where
  "with_meta k v e = e\<lparr>ev_meta := bt_insert k v (ev_meta e)\<rparr>"

definition with_valid_from :: "sys_time \<Rightarrow> event \<Rightarrow> event" where
  "with_valid_from t e = e\<lparr>valid_from := t\<rparr>"

definition appended_at :: "string \<Rightarrow> position \<Rightarrow> event \<Rightarrow> event" where
  "appended_at s p e = e\<lparr>ev_stream := s, ev_position := p\<rparr>"

text \<open>\<open>Event::decode\<close>: the payload at the type of decoder \<open>de\<close>, or \<open>None\<close> when it is not one.\<close>

definition decode :: "(bytes \<Rightarrow> json_error + 'a) \<Rightarrow> event \<Rightarrow> 'a option" where
  "decode de e = res_ok (de (ev_data e))"

text \<open>The nanosecond count a time is stored as: the clock's 128-bit count cut to a signed 64-bit
  one, zero before the epoch; and back, a negative count reading as the epoch.\<close>

definition to_nanos :: "sys_time \<Rightarrow> int" where
  "to_nanos t = (if 0 \<le> t then sint (word_of_int t :: u64) else 0)"

definition from_nanos :: "int \<Rightarrow> sys_time" where
  "from_nanos n = max n 0"

section \<open>Event types\<close>

abbreviation "STREAM \<equiv> ''run''"
abbreviation "TYPE_RUN_STARTED \<equiv> ''RunStarted''"
abbreviation "TYPE_RUN_HELD \<equiv> ''RunHeld''"
abbreviation "TYPE_RUN_RELEASED \<equiv> ''RunReleased''"
abbreviation "TYPE_UNIT_STARTED \<equiv> ''UnitStarted''"
abbreviation "TYPE_UNIT_STATUS \<equiv> ''UnitStatus''"
abbreviation "TYPE_UNIT_FAILED \<equiv> ''UnitFailed''"
abbreviation "TYPE_UNIT_ESCALATED \<equiv> ''UnitEscalated''"
abbreviation "TYPE_UNIT_RESUMED \<equiv> ''UnitResumed''"
abbreviation "TYPE_UNIT_INTEGRATED \<equiv> ''UnitIntegrated''"
abbreviation "TYPE_SPEC_DEFECT \<equiv> ''SpecDefect''"
abbreviation "TYPE_DEFERRED_GATE_FAILED \<equiv> ''DeferredGateFailed''"
abbreviation "TYPE_MANUAL_REVIEW \<equiv> ''ManualReview''"
abbreviation "TYPE_DECISION_MADE \<equiv> ''DecisionMade''"
abbreviation "TYPE_LESSON_LEARNED \<equiv> ''LessonLearned''"
abbreviation "TYPE_REVIEW_FINDING \<equiv> ''ReviewFinding''"
abbreviation "TYPE_SPAWN_REQUESTED \<equiv> ''SpawnRequested''"
abbreviation "TYPE_SPAWN_RESULT \<equiv> ''SpawnResult''"
abbreviation "TYPE_BUDGET_EXHAUSTED \<equiv> ''BudgetExhausted''"

abbreviation "HOLD_BY_OPERATOR \<equiv> ''operator''"
abbreviation "HOLD_BY_HOST \<equiv> ''host''"
abbreviation "HOLD_BY_PROBE \<equiv> ''probe''"

abbreviation "META_RUN_ID \<equiv> ''run_id''"
abbreviation "META_DEFINITION \<equiv> ''definition''"
abbreviation "META_BASE \<equiv> ''base''"
abbreviation "META_MARKER_ROOT \<equiv> ''marker_root''"
abbreviation "META_LIVENESS_CLASS \<equiv> ''liveness_class''"

section \<open>Bodies of the run events\<close>

record run_started =
  rs_run :: string
  rs_criteria :: "string list"
  rs_definition :: string
  rs_base :: string
  rs_base_tip :: string
  rs_spec :: string

record run_held =
  rh_cause :: string
  rh_detail :: string
  rh_action :: string
  rh_needs_person :: bool
  rh_by :: string
  rh_model :: string

record run_released =
  rr_by :: string
  rr_held_for_s :: u64

section \<open>Bodies of the unit events\<close>

record run_started_fold =
  rf_run :: string
  rf_spec :: string

record unit_started =
  us_id :: string
  us_spec_criterion :: string
  us_needs :: "string list"
  us_worktree :: string
  us_branch :: string

record unit_status =
  ust_id :: string
  ust_status :: string
  ust_evidence :: "(string, string) btree"

record required_item =
  ri_finding :: string
  ri_path :: string
  ri_correctness :: bool
  ri_pattern :: string

record unit_failed =
  uf_id :: string
  uf_attempts :: u32
  uf_cause :: string
  uf_gate_evidence :: "string list"
  uf_review_reason :: string
  uf_required :: "required_item list"

record unit_escalated =
  ue_id :: string
  ue_reason :: string

record unit_resumed =
  ur_unit :: string
  ur_attempts_granted :: u32
  ur_by :: string

record unit_integrated =
  ui_id :: string
  ui_commit :: string

record manual_review_body =
  mr_unit :: string
  mr_id :: string

section \<open>Bodies of the spawn events\<close>

record spawn_request =
  sq_id :: string
  sq_unit :: string
  sq_stage :: string
  sq_prompt :: string
  sq_system_prompt :: string
  sq_model :: string
  sq_tools :: "string list"
  sq_dir :: string
  sq_blast_radius :: "string list"
  sq_max_wall_clock :: "u64 option"
  sq_title :: string
  sq_reviews :: "string list"
  sq_cargo_target_dir :: string

record spawn_result =
  sr_id :: string
  sr_output :: string
  sr_error :: string
  sr_meta :: json

section \<open>Bodies of the other events\<close>

record budget_exhausted_body =
  be_budget :: u32
  be_spawns :: u32

record lesson_event =
  le_summary :: string
  le_about :: "string list"

section \<open>The codec\<close>

record codec =
  de_value :: "bytes \<Rightarrow> json_error + json"
  de_run_started :: "bytes \<Rightarrow> json_error + run_started"
  de_run_held :: "bytes \<Rightarrow> json_error + run_held"
  de_run_released :: "bytes \<Rightarrow> json_error + run_released"
  de_run_started_fold :: "bytes \<Rightarrow> json_error + run_started_fold"
  de_unit_started :: "bytes \<Rightarrow> json_error + unit_started"
  de_unit_status :: "bytes \<Rightarrow> json_error + unit_status"
  de_unit_failed :: "bytes \<Rightarrow> json_error + unit_failed"
  de_unit_escalated :: "bytes \<Rightarrow> json_error + unit_escalated"
  de_unit_resumed :: "bytes \<Rightarrow> json_error + unit_resumed"
  de_unit_integrated :: "bytes \<Rightarrow> json_error + unit_integrated"
  de_manual_review :: "bytes \<Rightarrow> json_error + manual_review_body"
  de_spawn_request :: "bytes \<Rightarrow> json_error + spawn_request"
  de_request_id :: "bytes \<Rightarrow> json_error + string"
  de_spawn_result :: "bytes \<Rightarrow> json_error + spawn_result"
  de_budget_exhausted :: "bytes \<Rightarrow> json_error + budget_exhausted_body"
  de_lesson :: "bytes \<Rightarrow> json_error + lesson_event"
  de_required :: "json \<Rightarrow> json_error + required_item list"
  en_run_started :: "run_started \<Rightarrow> json_error + bytes"
  en_run_held :: "run_held \<Rightarrow> json_error + bytes"
  en_run_released :: "run_released \<Rightarrow> json_error + bytes"
  en_spawn_request :: "spawn_request \<Rightarrow> json_error + bytes"
  en_spawn_result :: "spawn_result \<Rightarrow> json_error + bytes"

text \<open>A codec that reads and writes nothing: the base the concrete codecs of the witnesses extend.\<close>

definition null_codec :: codec where
  "null_codec =
      \<lparr>de_value = \<lambda>_. Inl (JsonError ''unread''), de_run_started = \<lambda>_. Inl (JsonError ''unread''),
       de_run_held = \<lambda>_. Inl (JsonError ''unread''), de_run_released = \<lambda>_. Inl (JsonError ''unread''),
       de_run_started_fold = \<lambda>_. Inl (JsonError ''unread''),
       de_unit_started = \<lambda>_. Inl (JsonError ''unread''),
       de_unit_status = \<lambda>_. Inl (JsonError ''unread''),
       de_unit_failed = \<lambda>_. Inl (JsonError ''unread''),
       de_unit_escalated = \<lambda>_. Inl (JsonError ''unread''),
       de_unit_resumed = \<lambda>_. Inl (JsonError ''unread''),
       de_unit_integrated = \<lambda>_. Inl (JsonError ''unread''),
       de_manual_review = \<lambda>_. Inl (JsonError ''unread''),
       de_spawn_request = \<lambda>_. Inl (JsonError ''unread''),
       de_request_id = \<lambda>_. Inl (JsonError ''unread''),
       de_spawn_result = \<lambda>_. Inl (JsonError ''unread''),
       de_budget_exhausted = \<lambda>_. Inl (JsonError ''unread''),
       de_lesson = \<lambda>_. Inl (JsonError ''unread''),
       de_required = \<lambda>_. Inl (JsonError ''unread''),
       en_run_started = \<lambda>_. Inl (JsonError ''unread''),
       en_run_held = \<lambda>_. Inl (JsonError ''unread''),
       en_run_released = \<lambda>_. Inl (JsonError ''unread''),
       en_spawn_request = \<lambda>_. Inl (JsonError ''unread''),
       en_spawn_result = \<lambda>_. Inl (JsonError ''unread'')\<rparr>"

section \<open>Building the run events\<close>

definition run_started_to_event ::
  "codec \<Rightarrow> string \<times> sys_time \<Rightarrow> run_started \<Rightarrow> json_error + event" where
  "run_started_to_event D mint rs =
     bind_res (en_run_started D rs) (\<lambda>data.
       let ev = with_meta META_RUN_ID (rs_run rs) (event_new mint TYPE_RUN_STARTED data)
       in Inr (if rs_base rs \<noteq> '''' then with_meta META_BASE (rs_base rs) ev else ev))"

definition run_held_to_event ::
  "codec \<Rightarrow> string \<times> sys_time \<Rightarrow> run_held \<Rightarrow> json_error + event" where
  "run_held_to_event D mint rh = bind_res (en_run_held D rh) (\<lambda>data. Inr (event_new mint TYPE_RUN_HELD data))"

definition run_released_to_event ::
  "codec \<Rightarrow> string \<times> sys_time \<Rightarrow> run_released \<Rightarrow> json_error + event" where
  "run_released_to_event D mint rr =
     bind_res (en_run_released D rr) (\<lambda>data. Inr (event_new mint TYPE_RUN_RELEASED data))"

section \<open>Lemmas\<close>

lemma event_new_simps [simp]:
  "ev_type (event_new m t d) = t" "ev_data (event_new m t d) = d" "ev_meta (event_new m t d) = []"
  "valid_from (event_new m t d) = snd m"
  by (simp_all add: event_new_def)

lemma with_meta_simps [simp]:
  "ev_type (with_meta k v e) = ev_type e" "ev_data (with_meta k v e) = ev_data e"
  "valid_from (with_meta k v e) = valid_from e"
  "bt_get (ev_meta (with_meta k v e)) k' = (if k' = k then Some v else bt_get (ev_meta e) k')"
  by (simp_all add: with_meta_def btm.get_put)

text \<open>A stored time survives the log within the signed 64-bit range.\<close>

lemma from_to_nanos: "0 \<le> t \<Longrightarrow> t < 2 ^ 63 \<Longrightarrow> from_nanos (to_nanos t) = t"
  by (simp add: from_nanos_def to_nanos_def signed_of_int signed_take_bit_int_eq_self)

end
