(* ===== verification/Demo.thy ===== *)
theory Demo
  imports Wire
begin

text \<open>
  A concrete codec and event maker the witnesses evaluate the model on. The codec reads every
  non-empty payload as a body whose identifying field is the payload itself, and refuses an empty
  one, as a decoder refuses a malformed payload.
\<close>

definition demo_de :: "(string \<Rightarrow> 'a) \<Rightarrow> bytes \<Rightarrow> json_error + 'a" where
  "demo_de mk b = (if b = '''' then Inl (JsonError ''empty'') else Inr (mk b))"

definition demo_codec :: codec where
  "demo_codec = null_codec
     \<lparr>de_value := demo_de (\<lambda>b. JObj [(''id'', JStr b)]),
      de_run_started := demo_de (\<lambda>b. \<lparr>rs_run = b, rs_criteria = [''c1''], rs_definition = ''d1'',
        rs_base = '''', rs_base_tip = ''tip'', rs_spec = ''specs/80-demo.md''\<rparr>),
      de_run_held := demo_de (\<lambda>b. \<lparr>rh_cause = b, rh_detail = '''', rh_action = ''log in'',
        rh_needs_person = True, rh_by = HOLD_BY_HOST, rh_model = ''''\<rparr>),
      de_run_released := demo_de (\<lambda>b. \<lparr>rr_by = b, rr_held_for_s = 5\<rparr>),
      de_run_started_fold := demo_de (\<lambda>b. \<lparr>rf_run = b, rf_spec = ''specs/80-demo.md''\<rparr>),
      de_unit_started := demo_de (\<lambda>b. \<lparr>us_id = b, us_spec_criterion = ''c1'', us_needs = [],
        us_worktree = '''', us_branch = ''''\<rparr>),
      de_unit_status := demo_de (\<lambda>b. \<lparr>ust_id = b, ust_status = ''green'', ust_evidence = []\<rparr>),
      de_unit_failed := demo_de (\<lambda>b. \<lparr>uf_id = b, uf_attempts = 1, uf_cause = ''reject'',
        uf_gate_evidence = [], uf_review_reason = ''no test'', uf_required = []\<rparr>),
      de_unit_escalated := demo_de (\<lambda>b. \<lparr>ue_id = b, ue_reason = ''amend the spec''\<rparr>),
      de_unit_resumed := demo_de (\<lambda>b. \<lparr>ur_unit = b, ur_attempts_granted = 2, ur_by = ''operator''\<rparr>),
      de_unit_integrated := demo_de (\<lambda>b. \<lparr>ui_id = b, ui_commit = ''c0ffee''\<rparr>),
      de_manual_review := demo_de (\<lambda>b. \<lparr>mr_unit = b, mr_id = ''''\<rparr>),
      de_spawn_request := demo_de (\<lambda>b. \<lparr>sq_id = b, sq_unit = ''u1'', sq_stage = ''implement'',
        sq_prompt = ''do it'', sq_system_prompt = '''', sq_model = '''', sq_tools = [], sq_dir = '''',
        sq_blast_radius = [], sq_max_wall_clock = None, sq_title = '''', sq_reviews = [],
        sq_cargo_target_dir = ''''\<rparr>),
      de_budget_exhausted := demo_de (\<lambda>b. \<lparr>be_budget = 200, be_spawns = 200\<rparr>),
      de_lesson := demo_de (\<lambda>b. \<lparr>le_summary = b, le_about = [''src/a.rs'']\<rparr>),
      de_request_id := demo_de (\<lambda>b. b),
      de_spawn_result := demo_de (\<lambda>b. \<lparr>sr_id = b, sr_output = ''ok'', sr_error = '''',
        sr_meta = JNull\<rparr>)\<rparr>"

definition demo_event :: "string \<Rightarrow> string \<Rightarrow> event" where
  "demo_event ty data = event_new (''e'', 7) ty data"

lemma demo_event_simps [simp]:
  "ev_type (demo_event t d) = t" "ev_data (demo_event t d) = d" "ev_meta (demo_event t d) = []"
  "valid_from (demo_event t d) = 7" "ev_revision (demo_event t d) = NO_STREAM"
  by (simp_all add: demo_event_def event_new_def)

lemma demo_de_eval [simp]:
  "demo_de mk '''' = Inl (JsonError ''empty'')" "b \<noteq> '''' \<Longrightarrow> demo_de mk b = Inr (mk b)"
  by (simp_all add: demo_de_def)

end
