(* ===== verification/Ledger.thy ===== *)
theory Ledger
  imports Demo
begin

text \<open>
  The run's durable state as a fold of the event log: \<open>crates/rigger-domain/src/ledger.rs\<close>. A
  \<open>run_state\<close> is the projected run, \<open>apply\<close> folds one event, \<open>project\<close> folds a slice and then the
  manual-review inbox; \<open>holds\<close> is the walk of a run's holds. The release handoff, the attention
  entries and the branch names derived from the state follow. The lemmas show what a fold keeps,
  what each branch does, the inbox a projection leaves, and that the two readers of a hold agree.
\<close>

section \<open>Units\<close>

datatype status =
  Pending | Grounding | Red | Green | Verified | Reviewed | Integrated | Failed | Escalated

definition status_parse :: "string \<Rightarrow> status option" where
  "status_parse s =
     (if s = ''pending'' then Some Pending
      else if s = ''grounding'' then Some Grounding
      else if s = ''red'' then Some Red
      else if s = ''green'' then Some Green
      else if s = ''verified'' then Some Verified
      else if s = ''reviewed'' then Some Reviewed
      else if s = ''integrated'' then Some Integrated
      else if s = ''failed'' then Some Failed
      else if s = ''escalated'' then Some Escalated
      else None)"

fun status_as_str :: "status \<Rightarrow> string" where
  "status_as_str Pending = ''pending''"
| "status_as_str Grounding = ''grounding''"
| "status_as_str Red = ''red''"
| "status_as_str Green = ''green''"
| "status_as_str Verified = ''verified''"
| "status_as_str Reviewed = ''reviewed''"
| "status_as_str Integrated = ''integrated''"
| "status_as_str Failed = ''failed''"
| "status_as_str Escalated = ''escalated''"

record resume_grant =
  rg_by :: string
  rg_attempts_granted :: u32

record ledger_unit =
  u_id :: string
  u_spec_criterion :: string
  u_depends_on :: "string list"
  u_status :: status
  u_worktree :: string
  u_branch :: string
  u_evidence :: "(string, string) btree"
  u_attempts :: u32
  u_commit :: string
  u_cause :: string
  u_gate_evidence :: "string list"
  u_review_reason :: string
  u_required :: "required_item list"
  u_resume_bound :: u32
  u_resumed :: "resume_grant option"
  u_escalation_reason :: string

definition unit_spec_defect_reason :: "ledger_unit \<Rightarrow> string option" where
  "unit_spec_defect_reason u =
     (if u_status u = Escalated \<and> u_escalation_reason u \<noteq> ''''
      then Some (u_escalation_reason u) else None)"

definition fresh_unit :: "string \<Rightarrow> ledger_unit" where
  "fresh_unit uid =
     \<lparr>u_id = uid, u_spec_criterion = '''', u_depends_on = [], u_status = Pending, u_worktree = '''',
      u_branch = '''', u_evidence = [], u_attempts = 0, u_commit = '''', u_cause = '''',
      u_gate_evidence = [], u_review_reason = '''', u_required = [], u_resume_bound = 0,
      u_resumed = None, u_escalation_reason = ''''\<rparr>"

section \<open>Holds\<close>

record hold =
  h_since :: sys_time
  h_operator :: bool
  h_latest :: run_held
  h_revision :: revision

definition on_held :: "codec \<Rightarrow> hold option \<Rightarrow> event \<Rightarrow> json_error + hold" where
  "on_held D opn e =
     bind_res (de_run_held D (ev_data e)) (\<lambda>latest. Inr
       \<lparr>h_since = (case opn of None \<Rightarrow> valid_from e | Some h \<Rightarrow> h_since h),
        h_operator = ((case opn of None \<Rightarrow> False | Some h \<Rightarrow> h_operator h)
                       \<or> rh_by latest = HOLD_BY_OPERATOR),
        h_latest = latest,
        h_revision = ev_revision e\<rparr>)"

definition moved_by :: "hold option \<Rightarrow> run_held \<Rightarrow> bool" where
  "moved_by opn body =
     (case opn of None \<Rightarrow> True
      | Some h \<Rightarrow> \<not> h_operator h \<and> rh_needs_person body \<and> rh_cause (h_latest h) \<noteq> rh_cause body)"

definition hold_reason :: "hold \<Rightarrow> string" where
  "hold_reason h =
     (let latest = h_latest h
      in if rh_action latest = '''' then rh_cause latest
         else rh_cause latest @ '' - '' @ rh_action latest)"

record hold_release =
  hr_at :: sys_time
  hr_revision :: revision
  hr_held_for_s :: "u64 option"

record hold_span =
  hs_hold :: "hold option"
  hs_since :: sys_time
  hs_first :: revision
  hs_latest_at :: sys_time
  hs_release :: "hold_release option"

text \<open>One iteration of the walk: \<open>open_span\<close> is the last span while it has no release.\<close>

definition open_span :: "hold_span list \<Rightarrow> hold_span option" where
  "open_span spans =
     (if spans \<noteq> [] \<and> hs_release (last spans) = None then Some (last spans) else None)"

definition holds_step :: "codec \<Rightarrow> hold_span list \<Rightarrow> event \<Rightarrow> hold_span list" where
  "holds_step D spans e =
     (if ev_type e = TYPE_RUN_HELD then
        (case open_span spans of
          Some sp \<Rightarrow> butlast spans @
            [sp\<lparr>hs_hold := (case hs_hold sp of None \<Rightarrow> None
                           | Some h \<Rightarrow> res_ok (on_held D (Some h) e)),
               hs_latest_at := valid_from e\<rparr>]
        | None \<Rightarrow> spans @
            [\<lparr>hs_hold = res_ok (on_held D None e), hs_since = valid_from e,
              hs_first = ev_revision e, hs_latest_at = valid_from e, hs_release = None\<rparr>])
      else if ev_type e = TYPE_RUN_RELEASED then
        (case open_span spans of
          Some sp \<Rightarrow> butlast spans @
            [sp\<lparr>hs_release := Some \<lparr>hr_at = valid_from e, hr_revision = ev_revision e,
               hr_held_for_s = map_option rr_held_for_s (decode (de_run_released D) e)\<rparr>\<rparr>]
        | None \<Rightarrow> spans)
      else spans)"

definition holds :: "codec \<Rightarrow> event list \<Rightarrow> hold_span list" where
  "holds D run_events = foldl (holds_step D) [] run_events"

section \<open>Attention\<close>

abbreviation "ATTENTION_ESCALATED \<equiv> ''escalated''"
abbreviation "ATTENTION_HELD \<equiv> ''held''"
abbreviation "ATTENTION_RELEASED \<equiv> ''released''"
abbreviation "ATTENTION_SPEC_DEFECT \<equiv> ''spec-defect''"
abbreviation "ATTENTION_HALTED \<equiv> ''halted''"
abbreviation "ATTENTION_REJECT_RECURRENCE \<equiv> ''reject-recurrence''"
abbreviation "ATTENTION_BUDGET_FINAL_TENTH \<equiv> ''budget-final-tenth''"
abbreviation "ATTENTION_STALLED_FRONTIER \<equiv> ''stalled-frontier''"

definition attention_order :: "string list" where
  "attention_order =
     [ATTENTION_HELD, ATTENTION_ESCALATED, ATTENTION_SPEC_DEFECT, ATTENTION_HALTED,
      ATTENTION_REJECT_RECURRENCE, ATTENTION_BUDGET_FINAL_TENTH, ATTENTION_STALLED_FRONTIER,
      ATTENTION_RELEASED]"

fun position_of :: "'a list \<Rightarrow> 'a \<Rightarrow> nat option" where
  "position_of [] x = None"
| "position_of (y # ys) x = (if y = x then Some 0 else map_option Suc (position_of ys x))"

definition attention_kind_rank :: "string \<Rightarrow> nat" where
  "attention_kind_rank kind = unwrap_or (2 ^ 64 - 1) (position_of attention_order kind)"

record attention_entry =
  ae_kind :: string
  ae_unit :: string
  ae_detail :: string

definition unit_scoped :: "string \<Rightarrow> string \<Rightarrow> string \<Rightarrow> attention_entry" where
  "unit_scoped kind u detail = \<lparr>ae_kind = kind, ae_unit = u, ae_detail = detail\<rparr>"

definition run_scoped :: "string \<Rightarrow> string \<Rightarrow> attention_entry" where
  "run_scoped kind detail = unit_scoped kind '''' detail"

definition escalation_entry :: "ledger_unit \<Rightarrow> attention_entry" where
  "escalation_entry u =
     (case unit_spec_defect_reason u of
       Some reason \<Rightarrow> unit_scoped ATTENTION_SPEC_DEFECT (u_id u) reason
     | None \<Rightarrow> unit_scoped ATTENTION_ESCALATED (u_id u) ''escalated after exhausting remediation'')"

definition reject_recurrence_entry :: "string \<Rightarrow> u32 \<Rightarrow> attention_entry" where
  "reject_recurrence_entry u attempts =
     unit_scoped ATTENTION_REJECT_RECURRENCE u
       (show_u32 attempts @ '' failed attempts, the loop is still remediating - audit the findings ''
         @ ''(rigger-diagnose-churn)'')"

definition attention_line :: "attention_entry \<Rightarrow> string" where
  "attention_line a = (if ae_unit a = '''' then ''run'' else ae_unit a) @ '': '' @ ae_detail a"

fun hold_attention :: "hold_span list \<Rightarrow> attention_entry list option" where
  "hold_attention [] = Some []"
| "hold_attention (sp # spans) =
     (case hs_hold sp of None \<Rightarrow> None
      | Some h \<Rightarrow>
         (let held = run_scoped ATTENTION_HELD (''held - '' @ hold_reason h)
          in case hs_release sp of
               None \<Rightarrow> map_option (\<lambda>es. held # es) (hold_attention spans)
             | Some rel \<Rightarrow>
                 (case hr_held_for_s rel of None \<Rightarrow> None
                  | Some n \<Rightarrow> map_option (\<lambda>es. held #
                      run_scoped ATTENTION_RELEASED (''released after '' @ show_u64 n @ ''s'') # es)
                      (hold_attention spans))))"

section \<open>The projected run\<close>

record run_state =
  st_units :: "(string, ledger_unit) btree"
  st_spec_defect :: bool
  st_deferred_gate_failed :: bool
  st_budget_halt :: "string option"
  st_parked :: bool
  st_manual_review :: "string list"
  st_attention :: "attention_entry list"
  st_run_id :: string
  st_spec_path :: string
  st_hold :: "hold option"

definition run_state_new :: run_state where
  "run_state_new =
     \<lparr>st_units = [], st_spec_defect = False, st_deferred_gate_failed = False,
      st_budget_halt = None, st_parked = False, st_manual_review = [], st_attention = [],
      st_run_id = '''', st_spec_path = '''', st_hold = None\<rparr>"

text \<open>\<open>RunState::unit\<close> followed by the assignments through the reference it returns.\<close>

definition upd_unit :: "string \<Rightarrow> (ledger_unit \<Rightarrow> ledger_unit) \<Rightarrow> run_state \<Rightarrow> run_state" where
  "upd_unit uid f s =
     s\<lparr>st_units := bt_insert uid (f (unwrap_or (fresh_unit uid) (bt_get (st_units s) uid)))
                    (st_units s)\<rparr>"

text \<open>The assignments of one arm to the unit it names.\<close>

definition start_unit :: "unit_started \<Rightarrow> ledger_unit \<Rightarrow> ledger_unit" where
  "start_unit p u = u\<lparr>u_spec_criterion := us_spec_criterion p, u_depends_on := us_needs p,
     u_worktree := us_worktree p, u_branch := us_branch p, u_status := Grounding\<rparr>"

definition status_unit :: "unit_status \<Rightarrow> ledger_unit \<Rightarrow> ledger_unit" where
  "status_unit p u =
     u\<lparr>u_status := (case status_parse (ust_status p) of Some st \<Rightarrow> st | None \<Rightarrow> u_status u),
       u_evidence := bt_extend (u_evidence u) (ust_evidence p)\<rparr>"

definition fail_unit :: "unit_failed \<Rightarrow> ledger_unit \<Rightarrow> ledger_unit" where
  "fail_unit p u = u\<lparr>u_status := Failed, u_attempts := uf_attempts p, u_cause := uf_cause p,
     u_gate_evidence := uf_gate_evidence p, u_review_reason := uf_review_reason p,
     u_required := uf_required p\<rparr>"

definition escalate_unit :: "unit_escalated \<Rightarrow> ledger_unit \<Rightarrow> ledger_unit" where
  "escalate_unit p u =
     u\<lparr>u_status := Escalated, u_escalation_reason := ue_reason p, u_resumed := None\<rparr>"

definition resume_unit :: "unit_resumed \<Rightarrow> ledger_unit \<Rightarrow> ledger_unit" where
  "resume_unit p u = u\<lparr>u_status := Failed,
     u_resume_bound := u_attempts u + ur_attempts_granted p,
     u_resumed := Some \<lparr>rg_by = ur_by p, rg_attempts_granted = ur_attempts_granted p\<rparr>\<rparr>"

definition integrate_unit :: "unit_integrated \<Rightarrow> ledger_unit \<Rightarrow> ledger_unit" where
  "integrate_unit p u = u\<lparr>u_status := Integrated, u_commit := ui_commit p\<rparr>"

definition apply_event :: "codec \<Rightarrow> run_state \<Rightarrow> event \<Rightarrow> json_error + run_state" where
  "apply_event D s e =
     (if ev_type e = TYPE_RUN_STARTED then
        bind_res (de_run_started_fold D (ev_data e)) (\<lambda>p.
          Inr (s\<lparr>st_run_id := rf_run p, st_spec_path := rf_spec p\<rparr>))
      else if ev_type e = TYPE_RUN_HELD then
        bind_res (on_held D (st_hold s) e) (\<lambda>h. Inr (s\<lparr>st_hold := Some h\<rparr>))
      else if ev_type e = TYPE_RUN_RELEASED then Inr (s\<lparr>st_hold := None\<rparr>)
      else if ev_type e = TYPE_UNIT_STARTED then
        bind_res (de_unit_started D (ev_data e)) (\<lambda>p. Inr (upd_unit (us_id p) (start_unit p) s))
      else if ev_type e = TYPE_UNIT_STATUS then
        bind_res (de_unit_status D (ev_data e)) (\<lambda>p. Inr (upd_unit (ust_id p) (status_unit p) s))
      else if ev_type e = TYPE_UNIT_FAILED then
        bind_res (de_unit_failed D (ev_data e)) (\<lambda>p. Inr (upd_unit (uf_id p) (fail_unit p) s))
      else if ev_type e = TYPE_UNIT_ESCALATED then
        bind_res (de_unit_escalated D (ev_data e)) (\<lambda>p.
          Inr (upd_unit (ue_id p) (escalate_unit p) s))
      else if ev_type e = TYPE_UNIT_RESUMED then
        bind_res (de_unit_resumed D (ev_data e)) (\<lambda>p. Inr (upd_unit (ur_unit p) (resume_unit p) s))
      else if ev_type e = TYPE_UNIT_INTEGRATED then
        bind_res (de_unit_integrated D (ev_data e)) (\<lambda>p.
          Inr (upd_unit (ui_id p) (integrate_unit p) s))
      else if ev_type e = TYPE_SPEC_DEFECT then Inr (s\<lparr>st_spec_defect := True\<rparr>)
      else if ev_type e = TYPE_DEFERRED_GATE_FAILED then Inr (s\<lparr>st_deferred_gate_failed := True\<rparr>)
      else Inr s)"

definition is_terminal :: "run_state \<Rightarrow> string \<Rightarrow> bool" where
  "is_terminal s uid =
     (case map_option u_status (bt_get (st_units s) uid) of
       Some Integrated \<Rightarrow> True | Some Escalated \<Rightarrow> True | _ \<Rightarrow> False)"

definition run_done :: "run_state \<Rightarrow> bool" where
  "run_done s \<longleftrightarrow> \<not> st_deferred_gate_failed s \<and> st_units s \<noteq> [] \<and>
     list_all (\<lambda>u. u_status u = Integrated) (bt_values (st_units s))"

definition escalated_units :: "run_state \<Rightarrow> string list" where
  "escalated_units s = map u_id (filter (\<lambda>u. u_status u = Escalated) (bt_values (st_units s)))"

definition spec_defect_reason :: "run_state \<Rightarrow> string option" where
  "spec_defect_reason s = find_map unit_spec_defect_reason (bt_values (st_units s))"

definition inbox_step :: "codec \<Rightarrow> run_state \<Rightarrow> string bset \<Rightarrow> event \<Rightarrow> string bset" where
  "inbox_step D s inbox e =
     (if ev_type e \<noteq> TYPE_MANUAL_REVIEW then inbox
      else (case de_manual_review D (ev_data e) of
              Inl _ \<Rightarrow> inbox
            | Inr p \<Rightarrow>
               (let uid = (if mr_unit p = '''' then mr_id p else mr_unit p)
                in if uid \<noteq> '''' \<and> \<not> is_terminal s uid then bs_insert uid inbox else inbox)))"

definition fold_manual_review_inbox :: "codec \<Rightarrow> event list \<Rightarrow> run_state \<Rightarrow> run_state" where
  "fold_manual_review_inbox D events s = s\<lparr>st_manual_review := foldl (inbox_step D s) [] events\<rparr>"

definition project :: "codec \<Rightarrow> event list \<Rightarrow> json_error + run_state" where
  "project D events =
     bind_res (fold_res (apply_event D) run_state_new events)
       (\<lambda>r. Inr (fold_manual_review_inbox D events r))"

section \<open>Names of branches and the release handoff\<close>

definition short_run_id :: "string \<Rightarrow> string" where
  "short_run_id run_id = chars_take 12 run_id"

fun split_on :: "char \<Rightarrow> string \<Rightarrow> string list" where
  "split_on c [] = [[]]"
| "split_on c (x # xs) =
     (if x = c then [] # split_on c xs
      else (case split_on c xs of [] \<Rightarrow> [[x]] | p # ps \<Rightarrow> (x # p) # ps))"

text \<open>\<open>Path::file_name\<close> and \<open>Path::file_stem\<close> on a Unix path.\<close>

definition file_name :: "string \<Rightarrow> string option" where
  "file_name p =
     (let comps = filter (\<lambda>c. c \<noteq> '''' \<and> c \<noteq> ''.'') (split_on CHR ''/'' p)
      in if comps = [] \<or> last comps = ''..'' then None else Some (last comps))"

definition file_stem :: "string \<Rightarrow> string option" where
  "file_stem p = map_option (\<lambda>name. case rsplit_once CHR ''.'' name of
       None \<Rightarrow> name | Some (before, _) \<Rightarrow> if before = '''' then name else before) (file_name p)"

fun stem_chars :: "bool \<Rightarrow> string \<Rightarrow> string" where
  "stem_chars last_dash [] = []"
| "stem_chars last_dash (c # cs) =
     (if is_ascii_alphanumeric c \<or> c = CHR ''-'' \<or> c = CHR ''_'' \<or> c = CHR ''.''
      then c # stem_chars False cs
      else if \<not> last_dash then CHR ''-'' # stem_chars True cs
      else stem_chars True cs)"

definition spec_stem :: "string \<Rightarrow> string" where
  "spec_stem spec_path =
     trim_matches (\<lambda>c. c = CHR ''-'' \<or> c = CHR ''.'')
       (stem_chars False (unwrap_or '''' (file_stem spec_path)))"

definition pr_head_branch :: "string \<Rightarrow> string \<Rightarrow> string" where
  "pr_head_branch spec_path run_id =
     (let stem = spec_stem spec_path; short = short_run_id run_id
      in ''pr/'' @ (if stem \<noteq> '''' \<and> short \<noteq> '''' then stem @ ''-'' @ short
                    else if stem \<noteq> '''' then stem
                    else if short \<noteq> '''' then short else ''''))"

record release_ready_t =
  rel_run_branch :: string
  rel_base :: string
  rel_integrated_units :: nat
  rel_pr_command :: string

definition release_ready :: "run_state \<Rightarrow> string \<Rightarrow> string \<Rightarrow> release_ready_t option" where
  "release_ready s run_branch base =
     (if \<not> run_done s \<or> st_spec_defect s then None
      else
       let integrated = length (filter (\<lambda>u. u_status u = Integrated) (bt_values (st_units s)));
           base = unwrap_or base (strip_prefix ''origin/'' base);
           head = pr_head_branch (st_spec_path s) (st_run_id s);
           pr_command = ''git push origin '' @ run_branch @ '':'' @ head @ [CHR 0x0A]
             @ ''gh pr create --base '' @ base @ '' --head '' @ head
       in Some \<lparr>rel_run_branch = run_branch, rel_base = base, rel_integrated_units = integrated,
                rel_pr_command = pr_command\<rparr>)"

section \<open>One fold step\<close>

lemma status_roundtrip [simp]: "status_parse (status_as_str st) = Some st"
  by (cases st) (simp_all add: status_parse_def)

lemma get_upd_unit [simp]:
  "bt_get (st_units (upd_unit uid f s)) k =
     (if k = uid then Some (f (unwrap_or (fresh_unit uid) (bt_get (st_units s) uid)))
      else bt_get (st_units s) k)"
  by (simp add: upd_unit_def btm.get_put)

lemma upd_unit_frame [simp]:
  "st_hold (upd_unit uid f s) = st_hold s" "st_run_id (upd_unit uid f s) = st_run_id s"
  "st_spec_path (upd_unit uid f s) = st_spec_path s"
  "st_spec_defect (upd_unit uid f s) = st_spec_defect s"
  "st_deferred_gate_failed (upd_unit uid f s) = st_deferred_gate_failed s"
  "st_manual_review (upd_unit uid f s) = st_manual_review s"
  by (simp_all add: upd_unit_def)

text \<open>The invariant of the projected run: the unit map is in key order, each unit sits under its own
  id, and its evidence is in key order.\<close>

definition ledger_wf :: "run_state \<Rightarrow> bool" where
  "ledger_wf s \<longleftrightarrow> bt_wf (st_units s) \<and>
     (\<forall>uid u. bt_get (st_units s) uid = Some u \<longrightarrow> u_id u = uid \<and> bt_wf (u_evidence u))"

definition keeps_unit :: "(ledger_unit \<Rightarrow> ledger_unit) \<Rightarrow> bool" where
  "keeps_unit f \<longleftrightarrow> (\<forall>u. u_id (f u) = u_id u \<and> (bt_wf (u_evidence u) \<longrightarrow> bt_wf (u_evidence (f u))))"

lemma ledger_wf_new [simp, wf_intros]: "ledger_wf run_state_new"
  by (simp add: ledger_wf_def run_state_new_def btm.get_empty)

lemma ledger_wf_upd_unit [wf_intros]:
  assumes "ledger_wf s" "keeps_unit f" shows "ledger_wf (upd_unit uid f s)"
proof -
  have "bt_wf (st_units (upd_unit uid f s))"
    using assms by (simp add: upd_unit_def ledger_wf_def bt_wf_insert)
  moreover have "u_id u = k \<and> bt_wf (u_evidence u)"
    if "bt_get (st_units (upd_unit uid f s)) k = Some u" for k u
  proof (cases "k = uid")
    case True
    let ?v = "unwrap_or (fresh_unit uid) (bt_get (st_units s) uid)"
    have "u_id ?v = uid \<and> bt_wf (u_evidence ?v)"
      using assms(1) by (cases "bt_get (st_units s) uid") (auto simp: ledger_wf_def fresh_unit_def)
    with that True assms(2) show ?thesis by (auto simp: keeps_unit_def)
  next
    case False
    with that assms(1) show ?thesis by (auto simp: ledger_wf_def)
  qed
  ultimately show ?thesis by (simp add: ledger_wf_def)
qed

lemmas unit_arm_defs =
  start_unit_def status_unit_def fail_unit_def escalate_unit_def resume_unit_def integrate_unit_def

lemma keeps_unit_arms [simp]:
  "keeps_unit (start_unit a)" "keeps_unit (status_unit b)" "keeps_unit (fail_unit c)"
  "keeps_unit (escalate_unit d)" "keeps_unit (resume_unit r)" "keeps_unit (integrate_unit i)"
  by (simp_all add: keeps_unit_def unit_arm_defs bt_extend_wf)

text \<open>The write an event makes to the units, if it makes one.\<close>

definition unit_write :: "codec \<Rightarrow> event \<Rightarrow> (string \<times> (ledger_unit \<Rightarrow> ledger_unit)) option" where
  "unit_write D e =
     (if ev_type e = TYPE_UNIT_STARTED then
        map_option (\<lambda>p. (us_id p, start_unit p)) (decode (de_unit_started D) e)
      else if ev_type e = TYPE_UNIT_STATUS then
        map_option (\<lambda>p. (ust_id p, status_unit p)) (decode (de_unit_status D) e)
      else if ev_type e = TYPE_UNIT_FAILED then
        map_option (\<lambda>p. (uf_id p, fail_unit p)) (decode (de_unit_failed D) e)
      else if ev_type e = TYPE_UNIT_ESCALATED then
        map_option (\<lambda>p. (ue_id p, escalate_unit p)) (decode (de_unit_escalated D) e)
      else if ev_type e = TYPE_UNIT_RESUMED then
        map_option (\<lambda>p. (ur_unit p, resume_unit p)) (decode (de_unit_resumed D) e)
      else if ev_type e = TYPE_UNIT_INTEGRATED then
        map_option (\<lambda>p. (ui_id p, integrate_unit p)) (decode (de_unit_integrated D) e)
      else None)"

lemma unit_write_keeps: "unit_write D e = Some (uid, f) \<Longrightarrow> keeps_unit f"
  by (auto simp: unit_write_def split: if_splits)

text \<open>Every event either leaves the units alone or rewrites one of them.\<close>

lemma apply_event_units:
  assumes "apply_event D s e = Inr s'"
  shows "st_units s' =
    (case unit_write D e of None \<Rightarrow> st_units s | Some (uid, f) \<Rightarrow> st_units (upd_unit uid f s))"
  using assms
  by (auto simp: apply_event_def unit_write_def bind_res_def decode_def split: sum.splits if_splits)

lemma ledger_wf_units_cong: "st_units s = st_units t \<Longrightarrow> ledger_wf s = ledger_wf t"
  by (simp add: ledger_wf_def)

lemma apply_event_wf [wf_intros]:
  assumes "ledger_wf s" "apply_event D s e = Inr s'" shows "ledger_wf s'"
proof (cases "unit_write D e")
  case None
  with apply_event_units [OF assms(2)] assms(1) show ?thesis
    using ledger_wf_units_cong[of s' s] by simp
next
  case (Some w)
  obtain uid f where w: "w = (uid, f)" by (cases w)
  with Some apply_event_units [OF assms(2)] have "st_units s' = st_units (upd_unit uid f s)" by simp
  moreover have "ledger_wf (upd_unit uid f s)"
    using assms(1) unit_write_keeps Some w by (blast intro: ledger_wf_upd_unit)
  ultimately show ?thesis using ledger_wf_units_cong by blast
qed

lemma fold_apply_wf: "fold_res (apply_event D) s es = Inr s' \<Longrightarrow> ledger_wf s \<Longrightarrow> ledger_wf s'"
  by (rule fold_res_invariant) (auto intro: apply_event_wf)

lemma is_terminal_inbox [simp]: "is_terminal (s\<lparr>st_manual_review := m\<rparr>) uid = is_terminal s uid"
  by (simp add: is_terminal_def)

lemma fold_inbox_inbox [simp]:
  "fold_manual_review_inbox D es (s\<lparr>st_manual_review := m\<rparr>) = fold_manual_review_inbox D es s"
proof -
  have "inbox_step D (s\<lparr>st_manual_review := m\<rparr>) = inbox_step D s"
    by (simp add: inbox_step_def fun_eq_iff Let_def cong: sum.case_cong)
  then show ?thesis by (simp add: fold_manual_review_inbox_def)
qed

section \<open>The inbox\<close>

text \<open>The unit a \<open>ManualReview\<close> event pauses, as the fold reads it.\<close>

definition reviewed_unit :: "codec \<Rightarrow> event \<Rightarrow> string option" where
  "reviewed_unit D e =
     (if ev_type e = TYPE_MANUAL_REVIEW
      then map_option (\<lambda>p. if mr_unit p = '''' then mr_id p else mr_unit p)
             (decode (de_manual_review D) e)
      else None)"

lemma inbox_step_eq:
  "inbox_step D s inbox e =
     (case reviewed_unit D e of
        Some uid \<Rightarrow> if uid \<noteq> '''' \<and> \<not> is_terminal s uid then bs_insert uid inbox else inbox
      | None \<Rightarrow> inbox)"
  by (auto simp: inbox_step_def reviewed_unit_def decode_def Let_def res_ok_def split: sum.splits)

lemma foldl_inbox:
  "sorted_wrt (<) acc \<Longrightarrow>
     sorted_wrt (<) (foldl (inbox_step D s) acc es) \<and>
     set (foldl (inbox_step D s) acc es) =
       set acc \<union> {uid. uid \<noteq> '''' \<and> \<not> is_terminal s uid \<and> Some uid \<in> reviewed_unit D ` set es}"
proof (induction es arbitrary: acc)
  case Nil
  then show ?case by simp
next
  case (Cons e es)
  have "sorted_wrt (<) (inbox_step D s acc e)"
    using Cons.prems by (auto simp: inbox_step_eq sorted_bs_insert split: option.splits)
  from Cons.IH [OF this] show ?case
    by (cases "reviewed_unit D e") (auto simp: inbox_step_eq split: if_splits)
qed

section \<open>The two readers of a hold\<close>

definition span_hold :: "hold_span list \<Rightarrow> hold option" where
  "span_hold spans = (case open_span spans of None \<Rightarrow> None | Some sp \<Rightarrow> hs_hold sp)"

definition spans_wf :: "hold_span list \<Rightarrow> bool" where
  "spans_wf spans \<longleftrightarrow> (\<forall>sp \<in> set (butlast spans). hs_release sp \<noteq> None)"

lemma open_span_snoc [simp]:
  "open_span (spans @ [sp]) = (if hs_release sp = None then Some sp else None)"
  by (simp add: open_span_def)

lemma open_span_Nil [simp]: "open_span [] = None"
  by (simp add: open_span_def)

lemma open_span_SomeD: "open_span spans = Some sp \<Longrightarrow> spans \<noteq> [] \<and> sp = last spans \<and> hs_release sp = None"
  by (auto simp: open_span_def split: if_splits)

lemma spans_wf_step: "spans_wf spans \<Longrightarrow> spans_wf (holds_step D spans e)"
  by (cases spans rule: rev_cases)
    (auto simp: spans_wf_def holds_step_def butlast_append split: option.splits if_splits
      dest: open_span_SomeD)

lemma spans_wf_holds: "spans_wf (holds D es)"
proof -
  have "spans_wf spans \<Longrightarrow> spans_wf (foldl (holds_step D) spans es)" for spans
    by (induction es arbitrary: spans) (auto intro: spans_wf_step)
  from this [of "[]"] show ?thesis by (simp add: holds_def) (simp add: spans_wf_def)
qed

lemma hold_step_agrees:
  assumes "apply_event D s e = Inr s'" "st_hold s = span_hold spans"
    "open_span spans \<noteq> None \<longrightarrow> span_hold spans \<noteq> None"
  shows "st_hold s' = span_hold (holds_step D spans e) \<and>
    (open_span (holds_step D spans e) \<noteq> None \<longrightarrow> span_hold (holds_step D spans e) \<noteq> None)"
proof (cases "ev_type e = TYPE_RUN_HELD \<or> ev_type e = TYPE_RUN_RELEASED")
  case True
  with assms show ?thesis
    by (auto simp: apply_event_def bind_res_def holds_step_def span_hold_def
        split: sum.splits option.splits dest: open_span_SomeD)
next
  case False
  with assms have "st_hold s' = st_hold s"
    by (auto simp: apply_event_def bind_res_def split: sum.splits if_splits)
  moreover from False have "holds_step D spans e = spans" by (simp add: holds_step_def)
  ultimately show ?thesis using assms by simp
qed

lemma fold_hold_agrees:
  assumes "fold_res (apply_event D) s es = Inr s'" "st_hold s = span_hold spans"
    "open_span spans \<noteq> None \<longrightarrow> span_hold spans \<noteq> None"
  shows "st_hold s' = span_hold (foldl (holds_step D) spans es) \<and>
    (open_span (foldl (holds_step D) spans es) \<noteq> None \<longrightarrow>
      span_hold (foldl (holds_step D) spans es) \<noteq> None)"
  using assms
proof (induction es arbitrary: s spans)
  case Nil
  then show ?case by simp
next
  case (Cons e es)
  then obtain t where t: "apply_event D s e = Inr t" "fold_res (apply_event D) t es = Inr s'"
    by (auto split: sum.splits)
  from hold_step_agrees [OF t(1) Cons.prems(2,3)] Cons.IH [OF t(2)] show ?case by simp
qed

section \<open>Properties of the projection\<close>

lemma ledger_wf_inbox [simp]: "ledger_wf (fold_manual_review_inbox D es r) = ledger_wf r"
  by (rule ledger_wf_units_cong) (simp add: fold_manual_review_inbox_def)

lemma project_ledger_wf: "project D es = Inr s \<Longrightarrow> ledger_wf s"
  using fold_apply_wf [OF _ ledger_wf_new]
  by (fastforce simp: project_def bind_res_def split: sum.splits)

lemma is_terminal_iff:
  "is_terminal s uid \<longleftrightarrow> (\<exists>u. bt_get (st_units s) uid = Some u \<and>
     (u_status u = Integrated \<or> u_status u = Escalated))"
  by (simp add: is_terminal_def split: option.split status.split)

text \<open>
  The manual-review inbox of a projected run holds exactly the non-empty ids some
  \<open>ManualReview\<close> event names (its \<open>unit\<close>, else its \<open>id\<close>) whose unit is not terminal in the final
  state, wherever the pause and the terminal transition sit in the log, in ascending order and
  without repetition.
\<close>

theorem manual_review_inbox_exact:
  assumes "project D es = Inr s"
  shows "sorted_wrt (<) (st_manual_review s) \<and>
    set (st_manual_review s) =
      {uid. uid \<noteq> '''' \<and> \<not> is_terminal s uid \<and> Some uid \<in> reviewed_unit D ` set es}"
proof -
  from assms obtain r where s: "s = fold_manual_review_inbox D es r"
    by (auto simp: project_def bind_res_def split: sum.splits)
  then have "is_terminal s uid = is_terminal r uid" for uid
    by (simp add: fold_manual_review_inbox_def)
  with s show ?thesis
    using foldl_inbox [of "[]" D r es] by (simp add: fold_manual_review_inbox_def)
qed

definition inbox_log :: "event list" where
  "inbox_log = [demo_event TYPE_MANUAL_REVIEW ''u2'', demo_event TYPE_MANUAL_REVIEW ''u1'',
     demo_event TYPE_UNIT_INTEGRATED ''u1'', demo_event TYPE_MANUAL_REVIEW ''u2'']"

theorem manual_review_inbox_exact_witness:
  "\<exists>s. project demo_codec inbox_log = Inr s \<and> st_manual_review s = [''u2''] \<and>
     set (st_manual_review s) =
       {uid. uid \<noteq> '''' \<and> \<not> is_terminal s uid \<and>
         Some uid \<in> reviewed_unit demo_codec ` set inbox_log}"
proof -
  obtain s where s: "project demo_codec inbox_log = Inr s" "st_manual_review s = [''u2'']"
  proof -
    have "case project demo_codec inbox_log of
        Inl _ \<Rightarrow> False | Inr s \<Rightarrow> st_manual_review s = [''u2'']"
      by code_simp
    then show thesis using that by (auto split: sum.splits)
  qed
  with manual_review_inbox_exact [OF s(1)] show ?thesis by blast
qed

text \<open>
  C37. The two readers of a run's hold agree: whenever the log projects, the hold the projection
  carries is the open hold of the walk over the same log, it is held exactly while the walk has an
  open span, and every span before the last is released, so at most one hold is open.
\<close>

theorem projected_hold_is_open_span:
  assumes "project D es = Inr s"
  shows "st_hold s = span_hold (holds D es) \<and>
    (st_hold s \<noteq> None \<longleftrightarrow> open_span (holds D es) \<noteq> None) \<and> spans_wf (holds D es)"
proof -
  from assms obtain r where r: "fold_res (apply_event D) run_state_new es = Inr r"
    and s: "s = fold_manual_review_inbox D es r"
    by (auto simp: project_def bind_res_def split: sum.splits)
  have "st_hold r = span_hold (holds D es) \<and>
    (open_span (holds D es) \<noteq> None \<longrightarrow> span_hold (holds D es) \<noteq> None)"
    using fold_hold_agrees [OF r, of "[]"] by (simp add: holds_def span_hold_def run_state_new_def)
  with s show ?thesis
    by (auto simp: fold_manual_review_inbox_def spans_wf_holds span_hold_def split: option.splits)
qed

definition hold_log :: "event list" where
  "hold_log = [demo_event TYPE_RUN_HELD ''api-unstable'', demo_event TYPE_RUN_RELEASED ''probe'',
     demo_event TYPE_RUN_HELD ''auth'', demo_event TYPE_RUN_HELD ''billing'']"

theorem projected_hold_is_open_span_witness:
  "\<exists>s. project demo_codec hold_log = Inr s \<and> st_hold s = span_hold (holds demo_codec hold_log) \<and>
     map_option (\<lambda>h. rh_cause (h_latest h)) (st_hold s) = Some ''billing'' \<and>
     length (holds demo_codec hold_log) = 2"
proof -
  obtain s where s: "project demo_codec hold_log = Inr s"
    "map_option (\<lambda>h. rh_cause (h_latest h)) (st_hold s) = Some ''billing''"
    by (simp add: project_def hold_log_def apply_event_def demo_codec_def on_held_def
        fold_manual_review_inbox_def run_state_new_def)
  moreover have "length (holds demo_codec hold_log) = 2"
    by (simp add: holds_def hold_log_def holds_step_def demo_codec_def on_held_def open_span_def)
  ultimately show ?thesis using projected_hold_is_open_span [OF s(1)] by blast
qed

definition ledger_types :: "string list" where
  "ledger_types = [TYPE_RUN_STARTED, TYPE_RUN_HELD, TYPE_RUN_RELEASED, TYPE_UNIT_STARTED,
     TYPE_UNIT_STATUS, TYPE_UNIT_FAILED, TYPE_UNIT_ESCALATED, TYPE_UNIT_RESUMED,
     TYPE_UNIT_INTEGRATED, TYPE_SPEC_DEFECT, TYPE_DEFERRED_GATE_FAILED, TYPE_MANUAL_REVIEW]"

text \<open>
  The projection ignores every event type it does not fold: projecting a log and projecting only
  its run, unit, gate, defect and manual-review events give the same result, errors included. The
  same stream can therefore carry the spawn protocol and the knowledge events.
\<close>

theorem project_ignores_other_types:
  "project D (filter (\<lambda>e. ev_type e \<in> set ledger_types) es) = project D es"
proof -
  have skip: "apply_event D s e = Inr s" "inbox_step D s acc e = acc"
    if "ev_type e \<notin> set ledger_types" for s e acc
    using that by (auto simp: apply_event_def inbox_step_def ledger_types_def)
  have "fold_res (apply_event D) run_state_new (filter (\<lambda>e. ev_type e \<in> set ledger_types) es) =
    fold_res (apply_event D) run_state_new es"
    by (rule fold_res_cong_skip) (auto simp: skip)
  moreover have "foldl (inbox_step D s) acc (filter (\<lambda>e. ev_type e \<in> set ledger_types) es) =
    foldl (inbox_step D s) acc es" for s acc
    by (induction es arbitrary: acc) (auto simp: skip)
  ultimately show ?thesis by (simp add: project_def fold_manual_review_inbox_def)
qed

section \<open>Escalation and resumption\<close>

text \<open>A unit no event of a slice writes reads after the slice as before it.\<close>

lemma fold_untouched_unit:
  assumes "fold_res (apply_event D) s es = Inr t"
    and "\<forall>m \<in> set es. map_option fst (unit_write D m) \<noteq> Some x"
  shows "bt_get (st_units t) x = bt_get (st_units s) x"
  using assms(1)
proof (rule fold_res_invariant [where I = "\<lambda>t. bt_get (st_units t) x = bt_get (st_units s) x"])
  fix s1 e s2
  assume "e \<in> set es" "bt_get (st_units s1) x = bt_get (st_units s) x" "apply_event D s1 e = Inr s2"
  with assms(2) apply_event_units [of D s1 e s2]
  show "bt_get (st_units s2) x = bt_get (st_units s) x"
    by (cases "unit_write D e") auto
qed simp

text \<open>
  An escalated unit is terminal until an operator resumes it: folding \<open>UnitEscalated\<close>, any
  events that write other units, and then \<open>UnitResumed\<close> makes exactly that unit non-terminal again,
  grants it its attempts so far plus the granted ones (as 32-bit words) and leaves every other unit
  as the events between left it; folding a further \<open>UnitEscalated\<close> makes it terminal again and
  clears the grant.
\<close>

theorem resume_reopens_escalated:
  assumes esc: "ev_type e1 = TYPE_UNIT_ESCALATED" "de_unit_escalated D (ev_data e1) = Inr p1"
    and res: "ev_type e2 = TYPE_UNIT_RESUMED" "de_unit_resumed D (ev_data e2) = Inr p2"
      "ur_unit p2 = ue_id p1"
    and mid: "fold_res (apply_event D) s (e1 # mids) = Inr t"
      "\<forall>m \<in> set mids. map_option fst (unit_write D m) \<noteq> Some (ue_id p1)"
    and u: "bt_get (st_units s) (ue_id p1) = Some u"
  shows "is_terminal t (ue_id p1) \<and>
    (\<exists>t2 u2. apply_event D t e2 = Inr t2 \<and> \<not> is_terminal t2 (ue_id p1) \<and>
       bt_get (st_units t2) (ue_id p1) = Some u2 \<and>
       u_resume_bound u2 = u_attempts u + ur_attempts_granted p2 \<and> u_resumed u2 \<noteq> None \<and>
       (\<forall>k. k \<noteq> ue_id p1 \<longrightarrow> bt_get (st_units t2) k = bt_get (st_units t) k) \<and>
       (\<exists>t3 u3. apply_event D t2 e1 = Inr t3 \<and> is_terminal t3 (ue_id p1) \<and>
          bt_get (st_units t3) (ue_id p1) = Some u3 \<and> u_resumed u3 = None))"
proof -
  let ?x = "ue_id p1"
  have e1: "apply_event D s' e1 = Inr (upd_unit ?x (escalate_unit p1) s')" for s'
    using esc by (simp add: apply_event_def)
  have e2: "apply_event D s' e2 = Inr (upd_unit ?x (resume_unit p2) s')" for s'
    using res by (simp add: apply_event_def)
  have "bt_get (st_units t) ?x = bt_get (st_units (upd_unit ?x (escalate_unit p1) s)) ?x"
    using mid by (intro fold_untouched_unit [of D _ mids]) (simp_all add: e1)
  then have t: "bt_get (st_units t) ?x = Some (escalate_unit p1 u)"
    using u by simp
  then have "is_terminal t ?x" by (simp add: is_terminal_iff escalate_unit_def)
  moreover have "\<not> is_terminal (upd_unit ?x (resume_unit p2) t) ?x"
    using t by (simp add: is_terminal_iff resume_unit_def)
  moreover have "is_terminal (upd_unit ?x (escalate_unit p1) (upd_unit ?x (resume_unit p2) t)) ?x"
    by (simp add: is_terminal_iff escalate_unit_def)
  ultimately show ?thesis
    using t by (simp add: e1 e2 resume_unit_def escalate_unit_def)
qed

theorem resume_reopens_escalated_witness:
  "\<exists>t. fold_res (apply_event demo_codec) (upd_unit ''u1'' id run_state_new)
      [demo_event TYPE_UNIT_ESCALATED ''u1'', demo_event TYPE_UNIT_INTEGRATED ''u2''] = Inr t \<and>
     is_terminal t ''u1'' \<and>
     (\<exists>t2. apply_event demo_codec t (demo_event TYPE_UNIT_RESUMED ''u1'') = Inr t2 \<and>
        \<not> is_terminal t2 ''u1'')"
proof -
  let ?s = "upd_unit ''u1'' id run_state_new"
  let ?e1 = "demo_event TYPE_UNIT_ESCALATED ''u1''"
  let ?m = "demo_event TYPE_UNIT_INTEGRATED ''u2''"
  let ?p1 = "\<lparr>ue_id = ''u1'', ue_reason = ''amend the spec''\<rparr>"
  let ?p2 = "\<lparr>ur_unit = ''u1'', ur_attempts_granted = 2, ur_by = ''operator''\<rparr>"
  obtain t where t: "fold_res (apply_event demo_codec) ?s [?e1, ?m] = Inr t"
    by (simp add: apply_event_def demo_codec_def)
  have w: "\<forall>m \<in> set [?m]. map_option fst (unit_write demo_codec m) \<noteq> Some (ue_id ?p1)"
    by (simp add: unit_write_def decode_def demo_codec_def)
  have u: "bt_get (st_units ?s) (ue_id ?p1) = Some (fresh_unit ''u1'')"
    by (simp add: run_state_new_def btm.get_empty)
  have "is_terminal t (ue_id ?p1) \<and>
    (\<exists>t2. apply_event demo_codec t (demo_event TYPE_UNIT_RESUMED ''u1'') = Inr t2 \<and>
       \<not> is_terminal t2 (ue_id ?p1))"
    using resume_reopens_escalated [OF _ _ _ _ _ t w u, of "demo_event TYPE_UNIT_RESUMED ''u1''" ?p2]
    by (auto simp: demo_codec_def)
  with t show ?thesis by auto
qed

section \<open>The release handoff\<close>

text \<open>
  The release handoff is surfaced exactly for a finished run: there is at least one unit, every
  unit is integrated, no deferred gate failed and no spec defect was flagged. Then it counts every
  unit, no unit is escalated, and its base is the release branch without the default remote's prefix.
\<close>

theorem release_ready_iff:
  assumes "ledger_wf s"
  shows "(release_ready s rb base = Some r) \<longleftrightarrow>
    (\<not> st_deferred_gate_failed s \<and> \<not> st_spec_defect s \<and> st_units s \<noteq> [] \<and>
     (\<forall>uid u. bt_get (st_units s) uid = Some u \<longrightarrow> u_status u = Integrated) \<and>
     escalated_units s = [] \<and> rel_run_branch r = rb \<and>
     (rel_base r = base \<and> (\<nexists>b. base = ''origin/'' @ b) \<or> base = ''origin/'' @ rel_base r) \<and>
     rel_integrated_units r = length (st_units s) \<and>
     rel_pr_command r = ''git push origin '' @ rb @ '':'' @ pr_head_branch (st_spec_path s) (st_run_id s)
       @ [CHR 0x0A] @ ''gh pr create --base '' @ rel_base r @ '' --head ''
       @ pr_head_branch (st_spec_path s) (st_run_id s))"
proof -
  have all: "list_all (\<lambda>u. u_status u = Integrated) (bt_values (st_units s)) \<longleftrightarrow>
    (\<forall>uid u. bt_get (st_units s) uid = Some u \<longrightarrow> u_status u = Integrated)"
    using assms by (auto simp: list_all_iff ledger_wf_def bt_values_mem)
  have esc: "escalated_units s = []" and
    cnt: "length (filter (\<lambda>u. u_status u = Integrated) (bt_values (st_units s))) = length (st_units s)"
    if "list_all (\<lambda>u. u_status u = Integrated) (bt_values (st_units s))"
  proof -
    from that have i: "\<forall>u \<in> set (bt_values (st_units s)). u_status u = Integrated"
      by (simp add: list_all_iff)
    then show "escalated_units s = []" by (auto simp: escalated_units_def filter_empty_conv)
    from i have "filter (\<lambda>u. u_status u = Integrated) (bt_values (st_units s)) = bt_values (st_units s)"
      by (simp add: filter_id_conv)
    then show "length (filter (\<lambda>u. u_status u = Integrated) (bt_values (st_units s))) =
      length (st_units s)" by (simp add: bt_values_def)
  qed
  show ?thesis
    unfolding release_ready_def run_done_def Let_def all [symmetric]
      unwrap_strip_prefix [symmetric]
    using esc cnt by (cases r) (auto simp del: strip_prefix.simps)
qed

theorem release_ready_iff_witness:
  "\<exists>r. release_ready (upd_unit ''u1'' (integrate_unit \<lparr>ui_id = ''u1'', ui_commit = ''c0ffee''\<rparr>)
        run_state_new) ''rigger/run'' ''origin/main'' = Some r \<and> rel_base r = ''main'' \<and>
     rel_integrated_units r = 1"
proof -
  let ?s = "upd_unit ''u1'' (integrate_unit \<lparr>ui_id = ''u1'', ui_commit = ''c0ffee''\<rparr>) run_state_new"
  have wf: "ledger_wf ?s" by (simp add: ledger_wf_upd_unit)
  have "case release_ready ?s ''rigger/run'' ''origin/main'' of
    None \<Rightarrow> False | Some r \<Rightarrow> rel_integrated_units r = 1"
    by code_simp
  then obtain r where r: "release_ready ?s ''rigger/run'' ''origin/main'' = Some r"
    "rel_integrated_units r = 1"
    by (auto split: option.splits)
  from release_ready_iff [OF wf, THEN iffD1, OF r(1)] have "rel_base r = ''main''" by auto
  with r show ?thesis by blast
qed

text \<open>
  The branch a release is pushed to names its run: for one spec path, two runs share a branch
  exactly when the first twelve characters of their ids agree, so a merged request's deleted branch
  is never another run's.
\<close>

theorem pr_head_branch_unique:
  "pr_head_branch sp r1 = pr_head_branch sp r2 \<longleftrightarrow> short_run_id r1 = short_run_id r2"
  by (auto simp: pr_head_branch_def Let_def)

end
