(* ===== verification/Spawn_Id.thy ===== *)
theory Spawn_Id
  imports BTree
begin

text \<open>
  The id grammar of \<open>spawn.rs\<close>: the deterministic spawn id \<open>unit/role#attempt~retryN\<close> with the
  readers that take it apart, the review role tokens with their step ordinals, and the sibling
  directories of a unit's worktree. The theorems are the round trips the conductor's replay and
  every fold over the log rely on: the readers give back the coordinates an id was minted from,
  two spawns never share an id, and the role parser accepts the minted tokens and no others.
\<close>

section \<open>Paths\<close>

text \<open>\<open>std::path::Path\<close> on Unix, as \<open>file_name\<close> and \<open>parent\<close> see it: the pieces between slashes, of
  which empty ones and every dot but a leading one are no components.\<close>

fun split_on :: "char \<Rightarrow> string \<Rightarrow> string list" where
  "split_on c [] = [[]]"
| "split_on c (x # xs) =
     (if x = c then [] # split_on c xs
      else (case split_on c xs of [] \<Rightarrow> [[x]] | s # ss \<Rightarrow> (x # s) # ss))"

definition is_component :: "bool \<Rightarrow> string \<Rightarrow> bool" where
  "is_component leading s \<longleftrightarrow> s \<noteq> '''' \<and> (s \<noteq> ''.'' \<or> leading)"

text \<open>The pieces up to and including the last component.\<close>

definition trim_pieces :: "string list \<Rightarrow> string list" where
  "trim_pieces ps =
     (case ps of [] \<Rightarrow> []
      | p # rest \<Rightarrow>
          (case rev (dropWhile (\<lambda>s. \<not> is_component False s) (rev rest)) of
             [] \<Rightarrow> if is_component True p then [p] else []
           | r \<Rightarrow> p # r))"

definition path_file_name :: "string \<Rightarrow> string option" where
  "path_file_name p =
     (case trim_pieces (split_on (CHR ''/'') p) of
        [] \<Rightarrow> None
      | ps \<Rightarrow> if last ps = ''..'' \<or> last ps = ''.'' then None else Some (last ps))"

definition path_parent :: "string \<Rightarrow> string option" where
  "path_parent p =
     (case trim_pieces (split_on (CHR ''/'') p) of
        [] \<Rightarrow> None
      | ps \<Rightarrow>
          Some (case trim_pieces (butlast ps) of
                  [] \<Rightarrow> if starts_with p ''/'' then ''/'' else ''''
                | qs \<Rightarrow> join ''/'' qs))"

section \<open>A unit's scratch directories\<close>

abbreviation "UNIT_WORKTREE_PREFIX \<equiv> ''rigger-wt-''"
abbreviation "UNIT_CACHE_PREFIX \<equiv> ''cargo-target-''"
abbreviation "UNIT_GATE_SCRATCH_PREFIX \<equiv> ''rigger-gate-''"
abbreviation "UNIT_REVIEW_CACHE_PREFIX \<equiv> ''review-target-''"

definition unit_sibling :: "string \<Rightarrow> string \<Rightarrow> string option" where
  "unit_sibling worktree_dir prefix =
     (case Option.bind (path_file_name worktree_dir) (strip_prefix UNIT_WORKTREE_PREFIX) of
        None \<Rightarrow> None
      | Some slug \<Rightarrow>
          (case path_parent worktree_dir of
             None \<Rightarrow> None
           | Some parent \<Rightarrow> Some (parent @ ''/'' @ prefix @ slug)))"

definition unit_cache_sibling :: "string \<Rightarrow> string option" where
  "unit_cache_sibling worktree_dir = unit_sibling worktree_dir UNIT_CACHE_PREFIX"

definition unit_scratch_slug :: "string \<Rightarrow> string option" where
  "unit_scratch_slug name =
     (case strip_prefix UNIT_CACHE_PREFIX name of Some s \<Rightarrow> Some s
      | None \<Rightarrow> (case strip_prefix UNIT_REVIEW_CACHE_PREFIX name of Some s \<Rightarrow> Some s
                 | None \<Rightarrow> strip_prefix UNIT_GATE_SCRATCH_PREFIX name))"

section \<open>Role tokens\<close>

abbreviation "ROLE_IMPLEMENTER \<equiv> ''implementer''"
abbreviation "ROLE_ADVERSARY \<equiv> ''adversary''"
abbreviation "ROLE_ADJUDICATOR \<equiv> ''adjudicator''"
abbreviation "ROLE_SDET_AUTHOR \<equiv> ''sdet-author''"
abbreviation "STEP_TOKEN_SEPARATOR \<equiv> CHR ''@''"
abbreviation "LENS_ROLE_PREFIX \<equiv> ''lens:''"

definition lens_role :: "string \<Rightarrow> string" where
  "lens_role agent_id = LENS_ROLE_PREFIX @ agent_id"

datatype review_kind = Lens | Adversary | Adjudicator

fun tier :: "review_kind \<Rightarrow> string" where
  "tier Lens = ''lens''"
| "tier Adversary = ROLE_ADVERSARY"
| "tier Adjudicator = ROLE_ADJUDICATOR"

definition is_later_step :: "u32 \<Rightarrow> bool" where
  "is_later_step k \<longleftrightarrow> k \<ge> 2"

definition stepped_token :: "string \<Rightarrow> u32 \<Rightarrow> string" where
  "stepped_token token k =
     (if is_later_step k then token @ STEP_TOKEN_SEPARATOR # show_u32 k else token)"

fun review_step_role :: "review_kind \<Rightarrow> string \<Rightarrow> u32 \<Rightarrow> string" where
  "review_step_role Lens agent k = stepped_token (lens_role agent) k"
| "review_step_role Adversary agent k = stepped_token ROLE_ADVERSARY k"
| "review_step_role Adjudicator agent k = ROLE_ADJUDICATOR"

definition step_suffix :: "string \<Rightarrow> u32 option" where
  "step_suffix suffix =
     (case suffix of
        [] \<Rightarrow> None
      | b # _ \<Rightarrow>
          if 49 \<le> byte_of b \<and> byte_of b \<le> 57
          then opt_filter is_later_step (parse_u32 suffix) else None)"

definition step_token :: "string \<Rightarrow> (string \<times> u32) option" where
  "step_token role =
     (case split_once STEP_TOKEN_SEPARATOR role of
        None \<Rightarrow> Some (role, 1)
      | Some (token, suffix) \<Rightarrow> map_option (Pair token) (step_suffix suffix))"

definition review_step_of :: "string \<Rightarrow> (review_kind \<times> u32) option" where
  "review_step_of role =
     (case step_token role of
        None \<Rightarrow> None
      | Some (token, k) \<Rightarrow>
          (case (if token = ROLE_ADVERSARY then Some Adversary
                 else if token = ROLE_ADJUDICATOR then Some Adjudicator
                 else if starts_with token LENS_ROLE_PREFIX then Some Lens
                 else None) of
             None \<Rightarrow> None
           | Some kind \<Rightarrow> if kind \<noteq> Adjudicator \<or> k = 1 then Some (kind, k) else None))"

definition lens_agent_of :: "string \<Rightarrow> string option" where
  "lens_agent_of role =
     (case step_token role of None \<Rightarrow> None
      | Some (token, _) \<Rightarrow> strip_prefix LENS_ROLE_PREFIX token)"

section \<open>Spawn ids\<close>

definition spawn_id :: "string \<Rightarrow> string \<Rightarrow> u32 \<Rightarrow> string" where
  "spawn_id unit role attempt = unit @ ''/'' @ role @ ''#'' @ show_u32 attempt"

definition with_retry :: "string \<Rightarrow> u32 \<Rightarrow> string" where
  "with_retry base retry = (if retry = 0 then base else base @ ''~retry'' @ show_u32 retry)"

definition spawn_retry_id :: "string \<Rightarrow> string \<Rightarrow> u32 \<Rightarrow> u32 \<Rightarrow> string" where
  "spawn_retry_id unit role attempt retry = with_retry (spawn_id unit role attempt) retry"

definition speculation_group_id :: "string \<Rightarrow> string" where
  "speculation_group_id unit = unit @ ''/spec-group''"

definition spawn_role :: "string \<Rightarrow> string" where
  "spawn_role sid =
     (let role = (case rsplit_once (CHR ''/'') sid of Some (_, r) \<Rightarrow> r | None \<Rightarrow> sid)
      in split_first [CHR ''#'', CHR ''~''] role)"

definition unit_of :: "string \<Rightarrow> string option" where
  "unit_of sid = map_option fst (rsplit_once (CHR ''/'') sid)"

definition unit_role_of :: "string \<Rightarrow> string" where
  "unit_role_of sid = split_first [CHR ''#'', CHR ''~''] sid"

definition attempt_of :: "string \<Rightarrow> u32" where
  "attempt_of sid = unwrap_or 0 (parse_u32 (split_first [CHR ''~''] (rsplit_first (CHR ''#'') sid)))"

definition retry_of :: "string \<Rightarrow> u32" where
  "retry_of sid =
     (case rsplit_once_str ''~retry'' sid of None \<Rightarrow> 0 | Some (_, n) \<Rightarrow> unwrap_or 0 (parse_u32 n))"

section \<open>The readers invert the minting\<close>

text \<open>A role token as the run structure draws it: no separator of the id grammar in it.\<close>

definition plain_token :: "string \<Rightarrow> bool" where
  "plain_token r \<longleftrightarrow> CHR ''/'' \<notin> set r \<and> CHR ''#'' \<notin> set r \<and> CHR ''~'' \<notin> set r"

definition retry_tail :: "u32 \<Rightarrow> string" where
  "retry_tail retry = (if retry = 0 then [] else ''~retry'' @ show_u32 retry)"

lemma retry_tail_separators [simp]:
  "CHR ''/'' \<notin> set (retry_tail n)" "CHR ''#'' \<notin> set (retry_tail n)"
  by (auto simp: retry_tail_def)

lemma spawn_retry_id_eq:
  "spawn_retry_id u r a n = u @ CHR ''/'' # (r @ CHR ''#'' # show_u32 a @ retry_tail n)"
  by (simp add: spawn_retry_id_def with_retry_def spawn_id_def retry_tail_def)

lemma split_first_Cons_sep [str_simps]: "c \<in> set seps \<Longrightarrow> split_first seps (c # s) = []"
  by (simp add: split_first_def)

lemma split_first_number_tail [str_simps]:
  "split_first [CHR ''~''] (show_u32 a @ retry_tail n) = show_u32 a"
  by (auto simp: retry_tail_def intro: split_first_append split_first_absent)

lemma parse_u32_none: "c \<in> set s \<Longrightarrow> \<not> is_ascii_digit c \<Longrightarrow> c \<noteq> CHR ''+'' \<Longrightarrow> parse_u32 s = None"
  by (cases s) (auto simp: parse_u32_def parse_uint_def Let_def list_ex_iff)

lemma hash_no_digit [simp]: "\<not> is_ascii_digit (CHR ''#'')"
  by (simp add: is_ascii_digit_def byte_of_def)

lemma rsplit_once_str_SomeD:
  "rsplit_once_str p s = Some (a, b) \<Longrightarrow> s = a @ p @ b"
  by (induction p s arbitrary: a rule: rsplit_once_str.induct) (auto split: if_splits option.splits)

text \<open>An original id carries no retry suffix, whatever its unit and role hold: the text after a
  stray separator still ends in the attempt's \<open>#\<close>.\<close>

lemma hash_survives_split:
  assumes "x @ CHR ''#'' # y = a @ p @ b" "CHR ''#'' \<notin> set p" "CHR ''~'' \<notin> set y"
    "p = CHR ''~'' # q"
  shows "CHR ''#'' \<in> set b"
proof (rule ccontr)
  assume "CHR ''#'' \<notin> set b"
  then have "CHR ''#'' \<notin> set (p @ b)" using assms(2) by simp
  with assms(1) obtain c where "y = c @ p @ b"
    by (auto simp: append_eq_append_conv2 append_eq_Cons_conv Cons_eq_append_conv)
  with assms(3,4) show False by simp
qed

lemma retry_of_original: "retry_of (spawn_id u r a) = 0"
proof (cases "rsplit_once_str ''~retry'' (spawn_id u r a)")
  case None
  then show ?thesis by (simp add: retry_of_def)
next
  case (Some ab)
  obtain x y where ab: "ab = (x, y)" by (cases ab)
  from Some ab have "spawn_id u r a = x @ ''~retry'' @ y" by (auto dest: rsplit_once_str_SomeD)
  then have "(u @ ''/'' @ r) @ CHR ''#'' # show_u32 a = x @ ''~retry'' @ y"
    by (simp add: spawn_id_def)
  then have "CHR ''#'' \<in> set y" by (rule hash_survives_split) auto
  then have "parse_u32 y = None" by (rule parse_u32_none) auto
  with Some ab show ?thesis by (simp add: retry_of_def)
qed

lemma retry_of_respawn: "n \<noteq> 0 \<Longrightarrow> retry_of (spawn_retry_id u r a n) = n"
  using rsplit_once_str_append [of "CHR ''~''" "''retry''" "show_u32 n" "spawn_id u r a"]
  by (simp add: retry_of_def spawn_retry_id_def with_retry_def)

lemma retry_of_spawn_retry_id [simp]: "retry_of (spawn_retry_id u r a n) = n"
  using retry_of_original [of u r a] retry_of_respawn [of n u r a]
  by (cases "n = 0") (auto simp: spawn_retry_id_def with_retry_def)

lemma attempt_of_spawn_retry_id [simp]: "attempt_of (spawn_retry_id u r a n) = a"
proof -
  have "rsplit_first (CHR ''#'') (spawn_retry_id u r a n) = show_u32 a @ retry_tail n"
    using rsplit_first_append [of "CHR ''#''" "show_u32 a @ retry_tail n" "u @ CHR ''/'' # r"]
    by (simp add: spawn_retry_id_eq)
  then show ?thesis by (simp add: attempt_of_def str_simps)
qed

lemma rsplit_spawn_retry_id:
  "plain_token r \<Longrightarrow> rsplit_once (CHR ''/'') (spawn_retry_id u r a n) =
    Some (u, r @ CHR ''#'' # show_u32 a @ retry_tail n)"
  unfolding spawn_retry_id_eq by (rule rsplit_once_append) (simp add: plain_token_def)

lemma spawn_role_spawn_retry_id [simp]: "plain_token r \<Longrightarrow> spawn_role (spawn_retry_id u r a n) = r"
  by (simp add: spawn_role_def rsplit_spawn_retry_id split_first_append plain_token_def)

lemma unit_of_spawn_retry_id [simp]: "plain_token r \<Longrightarrow> unit_of (spawn_retry_id u r a n) = Some u"
  by (simp add: unit_of_def rsplit_spawn_retry_id)

lemma unit_role_of_spawn_retry_id:
  assumes "plain_token r" "CHR ''#'' \<notin> set u" "CHR ''~'' \<notin> set u"
  shows "unit_role_of (spawn_retry_id u r a n) = u @ ''/'' @ r"
  using assms split_first_append [of "u @ ''/'' @ r" "[CHR ''#'', CHR ''~'']" "CHR ''#''"]
  by (simp add: unit_role_of_def spawn_retry_id_eq plain_token_def)

text \<open>
  C32. The id grammar round trips: from a spawn id minted for a unit, a plain role token, an attempt
  and a retry ordinal, \<open>unit_of\<close>, \<open>spawn_role\<close>, \<open>attempt_of\<close> and \<open>retry_of\<close> read back exactly the
  coordinates it was minted from; the attempt and the retry whatever the unit id holds.
\<close>

theorem spawn_id_round_trip:
  assumes "plain_token role"
  shows "unit_of (spawn_retry_id unit role attempt retry) = Some unit
    \<and> spawn_role (spawn_retry_id unit role attempt retry) = role
    \<and> attempt_of (spawn_retry_id unit role attempt retry) = attempt
    \<and> retry_of (spawn_retry_id unit role attempt retry) = retry"
  using assms by simp

theorem spawn_id_round_trip_witness:
  "unit_of (spawn_retry_id ''u43'' ''lens:sdet@2'' 1 2) = Some ''u43''
    \<and> spawn_role (spawn_retry_id ''u43'' ''lens:sdet@2'' 1 2) = ''lens:sdet@2''
    \<and> attempt_of (spawn_retry_id ''u43'' ''lens:sdet@2'' 1 2) = 1
    \<and> retry_of (spawn_retry_id ''u43'' ''lens:sdet@2'' 1 2) = 2"
  by (rule spawn_id_round_trip) (simp add: plain_token_def)

text \<open>
  A spawn id names a spawn: over plain role tokens, two spawns share an id exactly when they
  agree in unit, role, attempt and retry ordinal, so a recorded result is matched to the one call
  that produced it.
\<close>

theorem spawn_retry_id_inject:
  assumes "plain_token r" "plain_token r'"
  shows "spawn_retry_id u r a n = spawn_retry_id u' r' a' n' \<longleftrightarrow> u = u' \<and> r = r' \<and> a = a' \<and> n = n'"
proof
  assume eq: "spawn_retry_id u r a n = spawn_retry_id u' r' a' n'"
  have "Some u = Some u'" "r = r'" "a = a'" "n = n'"
    using assms arg_cong [OF eq, of unit_of] arg_cong [OF eq, of spawn_role]
      arg_cong [OF eq, of attempt_of] arg_cong [OF eq, of retry_of] by simp_all
  then show "u = u' \<and> r = r' \<and> a = a' \<and> n = n'" by simp
qed simp

theorem spawn_retry_id_inject_witness:
  "spawn_retry_id ''u'' ''adversary'' 1 0 \<noteq> spawn_retry_id ''u'' ''adversary'' 1 3"
proof -
  have "plain_token ''adversary''" by (simp add: plain_token_def)
  from spawn_retry_id_inject [OF this this, of "''u''" 1 0 "''u''" 1 3] show ?thesis by simp
qed

section \<open>The role parser accepts the minted tokens\<close>

lemma digit_char_byte [simp]: "is_ascii_digit c \<Longrightarrow> digit_char (byte_of c - 48) = c"
  by (simp add: is_ascii_digit_def byte_of_def digit_char_def)

text \<open>A decimal with no leading zero is the printing of its value.\<close>

lemma show_nat_digits_value:
  assumes "s \<noteq> []" "\<forall>c \<in> set s. is_ascii_digit c" "byte_of (hd s) \<noteq> 48"
  shows "show_nat (digits_value s) = s"
  using assms
proof (induction s rule: rev_induct)
  case Nil
  then show ?case by simp
next
  case (snoc c t)
  have c: "is_ascii_digit c" "byte_of c - 48 < 10"
    using snoc.prems(2) by (auto simp: is_ascii_digit_def)
  show ?case
  proof (cases "t = []")
    case True
    with c show ?thesis by (subst show_nat.simps) (simp add: digits_value_def)
  next
    case False
    with snoc have t: "show_nat (digits_value t) = t" "byte_of (hd t) \<noteq> 48" by auto
    have "digits_value t \<noteq> 0"
    proof
      assume "digits_value t = 0"
      with t(1) have "t = [digit_char 0]" by (simp add: show_nat.simps)
      with t(2) show False by (simp add: byte_of_digit_char)
    qed
    then show ?thesis using c t(1)
      by (subst show_nat.simps) (simp add: digits_value_snoc div_add1_eq [of "10 * x" for x])
  qed
qed

lemma hd_show_nat: "0 < n \<Longrightarrow> 49 \<le> byte_of (hd (show_nat n)) \<and> byte_of (hd (show_nat n)) \<le> 57"
proof (induction n rule: show_nat.induct)
  case (1 n)
  show ?case
  proof (cases "n < 10")
    case True
    with 1(2) show ?thesis by (subst (1 2) show_nat.simps) (simp add: byte_of_digit_char)
  next
    case False
    with 1 show ?thesis by (subst (1 2) show_nat.simps) simp
  qed
qed

lemma parse_u32_no_plus:
  assumes "parse_u32 s = Some k" "s \<noteq> []" "byte_of (hd s) \<ge> 49"
  shows "s = show_u32 k"
proof -
  obtain c cs where s: "s = c # cs" using assms(2) by (cases s) auto
  with assms(3) have "c \<noteq> CHR ''+''" by (auto simp: byte_of_def)
  with assms(1) s have d: "\<forall>x \<in> set s. is_ascii_digit x" "digits_value s \<le> 2 ^ 32 - 1"
    "k = of_nat (digits_value s)"
    by (auto simp: parse_u32_def parse_uint_def Let_def list_ex_iff split: if_splits)
  then have "unat k = digits_value s" by (simp add: unat_of_nat)
  with d(1) assms(2,3) show ?thesis by (simp add: show_u32_def show_nat_digits_value)
qed

lemma step_suffix_iff: "step_suffix suffix = Some k \<longleftrightarrow> is_later_step k \<and> suffix = show_u32 k"
proof
  assume "step_suffix suffix = Some k"
  then have "is_later_step k" "parse_u32 suffix = Some k" "suffix \<noteq> []" "byte_of (hd suffix) \<ge> 49"
    by (auto simp: step_suffix_def split: list.splits if_splits)
  then show "is_later_step k \<and> suffix = show_u32 k" by (simp add: parse_u32_no_plus)
next
  assume k: "is_later_step k \<and> suffix = show_u32 k"
  then have "0 < unat k" by (auto simp: is_later_step_def word_le_nat_alt)
  with hd_show_nat have h: "49 \<le> byte_of (hd suffix) \<and> byte_of (hd suffix) \<le> 57"
    using k by (simp add: show_u32_def)
  have "suffix \<noteq> []" using k by (simp add: show_u32_def)
  then obtain b bs where "suffix = b # bs" by (cases suffix) auto
  with h have "step_suffix suffix = opt_filter is_later_step (parse_u32 suffix)"
    by (simp add: step_suffix_def)
  then show "step_suffix suffix = Some k" using k by simp
qed

lemma not_later_step: "1 \<le> k \<Longrightarrow> \<not> is_later_step k \<Longrightarrow> k = 1"
  by (simp add: is_later_step_def word_le_nat_alt word_unat_eq_iff)

lemma later_step_ge_1: "is_later_step k \<Longrightarrow> 1 \<le> k"
  by (simp add: is_later_step_def word_le_nat_alt)

lemma not_later_1 [simp]: "\<not> is_later_step 1"
  by (simp add: is_later_step_def word_le_nat_alt)

lemma step_token_iff:
  "step_token role = Some (token, k) \<longleftrightarrow>
     STEP_TOKEN_SEPARATOR \<notin> set token \<and> 1 \<le> k \<and> role = stepped_token token k"
proof
  assume "step_token role = Some (token, k)"
  then show "STEP_TOKEN_SEPARATOR \<notin> set token \<and> 1 \<le> k \<and> role = stepped_token token k"
    by (auto simp: step_token_def stepped_token_def step_suffix_iff split_once_eq_None
        later_step_ge_1 split: option.splits dest!: split_once_SomeD)
next
  assume "STEP_TOKEN_SEPARATOR \<notin> set token \<and> 1 \<le> k \<and> role = stepped_token token k"
  then show "step_token role = Some (token, k)"
    using not_later_step [of k]
    by (auto simp: step_token_def stepped_token_def step_suffix_iff str_simps)
qed

lemma lens_role_neq [simp]:
  "lens_role a \<noteq> ROLE_ADVERSARY" "lens_role a \<noteq> ROLE_ADJUDICATOR"
  "starts_with (lens_role a) LENS_ROLE_PREFIX"
  by (simp_all add: lens_role_def starts_with_iff)

lemma review_step_of_token:
  "review_step_of role = Some (kind, k) \<longleftrightarrow>
     (\<exists>token. step_token role = Some (token, k) \<and>
       (case kind of Adversary \<Rightarrow> token = ROLE_ADVERSARY
        | Adjudicator \<Rightarrow> token = ROLE_ADJUDICATOR \<and> k = 1
        | Lens \<Rightarrow> \<exists>a. token = lens_role a))"
  by (cases kind) (auto simp: review_step_of_def starts_with_iff lens_role_def split: option.splits if_splits)

text \<open>
  \<open>review_step_of\<close> is the exact inverse of \<open>review_step_role\<close>: a role parses to a kind and a step
  ordinal exactly when it is the token minted for some agent without the separator at that ordinal,
  which is at least one, and one for an adjudicator. No other text reads as a review role.
\<close>

theorem review_step_of_iff:
  "review_step_of role = Some (kind, k) \<longleftrightarrow>
     (\<exists>agent. STEP_TOKEN_SEPARATOR \<notin> set agent \<and> role = review_step_role kind agent k) \<and>
     (if kind = Adjudicator then k = 1 else 1 \<le> k)"
proof (cases kind)
  case Lens
  then have "review_step_of role = Some (kind, k) \<longleftrightarrow> (\<exists>a. step_token role = Some (lens_role a, k))"
    by (auto simp: review_step_of_token)
  with Lens show ?thesis by (auto simp: step_token_iff lens_role_def)
next
  case Adversary
  then show ?thesis
    by (auto simp: review_step_of_token step_token_iff intro: exI [of _ "[]"])
next
  case Adjudicator
  then show ?thesis
    by (auto simp: review_step_of_token step_token_iff stepped_token_def intro: exI [of _ "[]"])
qed

lemma review_step_of_role:
  assumes "STEP_TOKEN_SEPARATOR \<notin> set agent" "1 \<le> k" "kind = Adjudicator \<Longrightarrow> k = 1"
  shows "review_step_of (review_step_role kind agent k) = Some (kind, k)"
  using assms
  by (cases kind) (auto simp: review_step_of_token step_token_iff lens_role_def stepped_token_def
      intro!: exI [of _ "lens_role agent"])

lemma lens_agent_of_iff:
  "lens_agent_of role = Some agent \<longleftrightarrow>
     (\<exists>k. 1 \<le> k \<and> STEP_TOKEN_SEPARATOR \<notin> set agent \<and> role = review_step_role Lens agent k)"
proof -
  have "lens_agent_of role = Some agent \<longleftrightarrow> (\<exists>k. step_token role = Some (lens_role agent, k))"
    by (auto simp: lens_agent_of_def lens_role_def split: option.splits)
  then show ?thesis by (auto simp: step_token_iff lens_role_def)
qed

section \<open>The sibling directories of a worktree\<close>

lemma split_on_append: "CHR ''/'' \<notin> set b \<Longrightarrow> split_on (CHR ''/'') (a @ CHR ''/'' # b) = split_on (CHR ''/'') a @ [b]"
proof (induction a)
  case Nil
  have "split_on (CHR ''/'') b = [b]" using Nil by (induction b) auto
  then show ?case by simp
next
  case (Cons x a)
  have "split_on (CHR ''/'') a \<noteq> []" by (cases a) (auto split: list.splits)
  with Cons show ?case by (cases "split_on (CHR ''/'') a") auto
qed

lemma split_on_nonempty [simp]: "split_on c s \<noteq> []"
  by (cases s) (auto split: list.splits)

lemma join_split_on [simp]: "join [c] (split_on c s) = s"
proof (induction s)
  case Nil
  then show ?case by simp
next
  case (Cons x xs)
  obtain p ps where p: "split_on c xs = p # ps" using split_on_nonempty by (cases "split_on c xs") blast
  with Cons show ?case by (cases ps) auto
qed

lemma trim_pieces_snoc:
  "ps \<noteq> [] \<Longrightarrow> is_component False b \<Longrightarrow> trim_pieces (ps @ [b]) = ps @ [b]"
  by (cases ps) (auto simp: trim_pieces_def split: list.splits)

lemma trim_pieces_id:
  assumes "ps \<noteq> []" "is_component False (last ps)" shows "trim_pieces ps = ps"
proof (cases "butlast ps")
  case Nil
  then obtain p where "ps = [p]" using assms(1) by (cases ps) (auto split: if_splits)
  with assms(2) show ?thesis by (simp add: trim_pieces_def is_component_def)
next
  case (Cons q qs)
  then have "trim_pieces (butlast ps @ [last ps]) = butlast ps @ [last ps]"
    by (intro trim_pieces_snoc) (simp_all add: assms(2))
  then show ?thesis using assms(1) by simp
qed

lemma path_file_name_snoc:
  assumes "trim_pieces (split_on (CHR ''/'') p) = ps @ [b]"
  shows "path_file_name p = (if b = ''..'' \<or> b = ''.'' then None else Some b)"
  unfolding path_file_name_def assms by (cases ps) auto

lemma path_parent_snoc:
  assumes "trim_pieces (split_on (CHR ''/'') p) = ps @ [b]" "ps \<noteq> []" "trim_pieces ps = ps"
  shows "path_parent p = Some (join ''/'' ps)"
proof -
  obtain q qs where "ps = q # qs" using assms(2) by (cases ps) auto
  with assms(3) show ?thesis unfolding path_parent_def assms(1) by simp
qed

text \<open>
  The per-unit directories are siblings of the worktree under one slug: from a worktree
  \<open>root/rigger-wt-slug\<close> whose root is a path with a proper last component, \<open>unit_sibling\<close> answers
  \<open>root/prefix slug\<close> for every prefix, and the scratch walk reads the same slug back from that
  directory's name for each of the three per-unit caches.
\<close>

theorem unit_sibling_round_trip:
  assumes "CHR ''/'' \<notin> set slug" "is_component False (last (split_on (CHR ''/'') root))"
    and "prefix \<in> {UNIT_CACHE_PREFIX, UNIT_REVIEW_CACHE_PREFIX, UNIT_GATE_SCRATCH_PREFIX}"
  shows "unit_sibling (root @ ''/'' @ UNIT_WORKTREE_PREFIX @ slug) prefix =
      Some (root @ ''/'' @ prefix @ slug)
    \<and> Option.bind (path_file_name (root @ ''/'' @ prefix @ slug)) unit_scratch_slug = Some slug"
proof -
  have pieces: "trim_pieces (split_on (CHR ''/'') (root @ ''/'' @ x @ slug)) =
      split_on (CHR ''/'') root @ [x @ slug]"
    if "CHR ''/'' \<notin> set x" "x \<noteq> []" "hd x \<noteq> CHR ''.''" for x
  proof -
    have "is_component False (x @ slug)" using that by (cases x) (auto simp: is_component_def)
    then show ?thesis
      using split_on_append [of "x @ slug" root] that assms(1) by (simp add: trim_pieces_snoc)
  qed
  have fname: "path_file_name (root @ ''/'' @ x @ slug) = Some (x @ slug)"
    if "CHR ''/'' \<notin> set x" "x \<noteq> []" "hd x \<noteq> CHR ''.''" for x
    using path_file_name_snoc [OF pieces [OF that]] that by (cases x) auto
  have root: "trim_pieces (split_on (CHR ''/'') root) = split_on (CHR ''/'') root"
    by (rule trim_pieces_id) (use assms(2) in auto)
  have "path_parent (root @ ''/'' @ UNIT_WORKTREE_PREFIX @ slug) = Some root"
    using path_parent_snoc [OF pieces [of UNIT_WORKTREE_PREFIX] _ root] by simp
  then have "unit_sibling (root @ ''/'' @ UNIT_WORKTREE_PREFIX @ slug) prefix =
      Some (root @ ''/'' @ prefix @ slug)"
    using fname [of UNIT_WORKTREE_PREFIX] by (simp add: unit_sibling_def)
  moreover have "Option.bind (path_file_name (root @ ''/'' @ prefix @ slug)) unit_scratch_slug = Some slug"
    using assms(3) fname [of prefix] by (auto simp: unit_scratch_slug_def)
  ultimately show ?thesis by simp
qed

theorem unit_sibling_round_trip_witness:
  "unit_sibling ''/cache/r/rigger-wt-u1'' ''cargo-target-'' = Some ''/cache/r/cargo-target-u1''"
proof -
  have "is_component False (last (split_on (CHR ''/'') ''/cache/r''))" by code_simp
  with unit_sibling_round_trip [of "''u1''" "''/cache/r''" UNIT_CACHE_PREFIX] show ?thesis by simp
qed

end
