(* ===== verification/Spawn.thy ===== *)
theory Spawn
  imports Ledger Spawn_Id
begin

text \<open>
  The request and result half of \<open>spawn.rs\<close>: the adjudicator's verdict line, the recorded result
  and its constructors, the wave item, the later-wins reads of the run stream, and the step a
  \<open>rigger step\<close> process prints. The theorems characterise the pending frontier exactly, show that
  re-running a step is idempotent and that recording results drains the wave to the fixpoint, and
  that a spawn's result is its last recorded one.
\<close>

section \<open>Adjudications\<close>

text \<open>\<open>str::lines\<close>: the pieces between line feeds, a carriage return before the line feed dropped,
  nothing after a final line feed.\<close>

definition strip_cr :: "string \<Rightarrow> string" where
  "strip_cr s = (if s \<noteq> [] \<and> last s = CHR 0x0D then butlast s else s)"

function lines :: "string \<Rightarrow> string list" where
  "lines s =
     (if s = [] then []
      else (case split_once (CHR 0x0A) s of None \<Rightarrow> [s] | Some (a, b) \<Rightarrow> strip_cr a # lines b))"
  by pat_completeness auto
termination
  by (relation "measure length") (auto dest: split_once_SomeD)

declare lines.simps [simp del]

record adjudication =
  ad_upheld :: "string list"
  ad_discarded :: "string list"
  ad_cause :: "string option"
  ad_verdict :: "string option"
  ad_required :: "required_item list"

abbreviation "CAUSE_INFRA_FAULT \<equiv> ''infra-fault''"
abbreviation "CAUSE_SPEC_AMBIGUITY \<equiv> ''spec-ambiguity''"

definition str_array :: "json \<Rightarrow> string \<Rightarrow> string list" where
  "str_array v key =
     (case Option.bind (value_get v key) as_array of
        None \<Rightarrow> [] | Some a \<Rightarrow> List.map_filter as_str a)"

definition verdict_of_value :: "codec \<Rightarrow> json \<Rightarrow> adjudication option" where
  "verdict_of_value D v =
     (if value_get v ''verdict'' = None \<and> value_get v ''upheld'' = None
         \<and> value_get v ''discarded'' = None
      then None
      else Some
        \<lparr>ad_upheld = str_array v ''upheld'',
         ad_discarded = str_array v ''discarded'',
         ad_cause = opt_filter (\<lambda>s. s \<noteq> '''') (Option.bind (value_get v ''cause'') as_str),
         ad_verdict = Option.bind (value_get v ''verdict'') as_str,
         ad_required = unwrap_or [] (Option.bind (value_get v ''required'') (\<lambda>r. res_ok (de_required D r)))\<rparr>)"

definition adjudication_parse :: "codec \<Rightarrow> string \<Rightarrow> adjudication option" where
  "adjudication_parse D output =
     find_map (\<lambda>line. Option.bind (res_ok (de_value D (trim line))) (verdict_of_value D))
       (rev (lines output))"

definition has_cause :: "adjudication \<Rightarrow> string \<Rightarrow> bool" where
  "has_cause a cause \<longleftrightarrow> ad_cause a = Some cause"

definition is_infra_fault :: "adjudication \<Rightarrow> bool" where
  "is_infra_fault a \<longleftrightarrow> has_cause a CAUSE_INFRA_FAULT"

definition is_spec_ambiguity :: "adjudication \<Rightarrow> bool" where
  "is_spec_ambiguity a \<longleftrightarrow> has_cause a CAUSE_SPEC_AMBIGUITY"

section \<open>Results\<close>

definition result_outcome :: "string \<Rightarrow> string \<Rightarrow> string \<Rightarrow> spawn_result" where
  "result_outcome sid output error =
     \<lparr>sr_id = sid, sr_output = output, sr_error = error, sr_meta = JNull\<rparr>"

definition result_ok :: "string \<Rightarrow> string \<Rightarrow> spawn_result" where
  "result_ok sid output = result_outcome sid output ''''"

definition result_failed :: "string \<Rightarrow> string \<Rightarrow> spawn_result" where
  "result_failed sid error = result_outcome sid '''' error"

definition result_with_meta :: "json \<Rightarrow> spawn_result \<Rightarrow> spawn_result" where
  "result_with_meta m r = r\<lparr>sr_meta := m\<rparr>"

definition liveness_fault :: "string \<Rightarrow> string \<Rightarrow> string \<Rightarrow> spawn_result" where
  "liveness_fault sid error cls =
     result_with_meta (JObj [(META_LIVENESS_CLASS, JStr cls)]) (result_failed sid error)"

definition is_error :: "spawn_result \<Rightarrow> bool" where
  "is_error r \<longleftrightarrow> sr_error r \<noteq> ''''"

definition is_liveness_fault :: "spawn_result \<Rightarrow> bool" where
  "is_liveness_fault r \<longleftrightarrow> value_get (sr_meta r) META_LIVENESS_CLASS \<noteq> None"

definition meta_str :: "spawn_result \<Rightarrow> string \<Rightarrow> string" where
  "meta_str r key = unwrap_or '''' (Option.bind (value_get (sr_meta r) key) as_str)"

definition is_adjudicator :: "spawn_result \<Rightarrow> bool" where
  "is_adjudicator r \<longleftrightarrow>
     (case review_step_of (spawn_role (sr_id r)) of Some (Adjudicator, _) \<Rightarrow> True | _ \<Rightarrow> False)"

definition result_adjudication :: "codec \<Rightarrow> spawn_result \<Rightarrow> adjudication option" where
  "result_adjudication D r =
     (if \<not> is_adjudicator r then None else adjudication_parse D (sr_output r))"

section \<open>Wave items\<close>

record wave_item =
  wi_id :: string
  wi_unit :: string
  wi_stage :: string
  wi_model :: string
  wi_tools :: "string list"
  wi_dir :: string
  wi_blast_radius :: "string list"
  wi_max_wall_clock :: "u64 option"
  wi_marker_path :: "string option"
  wi_cargo_target_dir :: "string option"
  wi_title :: string
  wi_reviews :: "string list"

definition wave_item_from :: "spawn_request \<Rightarrow> wave_item" where
  "wave_item_from req =
     \<lparr>wi_id = sq_id req, wi_unit = sq_unit req, wi_stage = sq_stage req, wi_model = sq_model req,
      wi_tools = sq_tools req, wi_dir = sq_dir req, wi_blast_radius = sq_blast_radius req,
      wi_max_wall_clock = sq_max_wall_clock req, wi_marker_path = None,
      wi_cargo_target_dir =
        (if sq_cargo_target_dir req = '''' then unit_cache_sibling (sq_dir req)
         else Some (sq_cargo_target_dir req)),
      wi_title = sq_title req, wi_reviews = sq_reviews req\<rparr>"

section \<open>Events\<close>

definition spawn_request_to_event :: "codec \<Rightarrow> string \<times> sys_time \<Rightarrow> spawn_request \<Rightarrow> json_error + event" where
  "spawn_request_to_event D mint req =
     bind_res (en_spawn_request D req) (\<lambda>data. Inr (event_new mint TYPE_SPAWN_REQUESTED data))"

definition spawn_result_to_event :: "codec \<Rightarrow> string \<times> sys_time \<Rightarrow> spawn_result \<Rightarrow> json_error + event" where
  "spawn_result_to_event D mint res =
     bind_res (en_spawn_result D res) (\<lambda>data. Inr (event_new mint TYPE_SPAWN_RESULT data))"

definition request_from_event :: "codec \<Rightarrow> event \<Rightarrow> json_error + spawn_request" where
  "request_from_event D e = de_spawn_request D (ev_data e)"

definition result_from_event :: "codec \<Rightarrow> event \<Rightarrow> json_error + spawn_result" where
  "result_from_event D e = de_spawn_result D (ev_data e)"

section \<open>Reads of the run stream\<close>

definition spawn_requested_events :: "event list \<Rightarrow> event list" where
  "spawn_requested_events es = filter (\<lambda>e. ev_type e = TYPE_SPAWN_REQUESTED) es"

definition marker_step ::
  "codec \<Rightarrow> (string, string) btree \<Rightarrow> event \<Rightarrow> json_error + (string, string) btree" where
  "marker_step D out e =
     bind_res (de_request_id D (ev_data e)) (\<lambda>sid.
       Inr (case bt_get (ev_meta e) META_MARKER_ROOT of
              Some root \<Rightarrow> bt_insert sid root out
            | None \<Rightarrow> bt_remove sid out))"

definition marker_roots :: "codec \<Rightarrow> event list \<Rightarrow> json_error + (string, string) btree" where
  "marker_roots D es = fold_res (marker_step D) [] (spawn_requested_events es)"

definition requests :: "codec \<Rightarrow> event list \<Rightarrow> json_error + spawn_request list" where
  "requests D es = collect_res (map (request_from_event D) (spawn_requested_events es))"

definition recorded :: "codec \<Rightarrow> event list \<Rightarrow> json_error + (string, spawn_request) btree" where
  "recorded D es =
     bind_res (requests D es) (\<lambda>rs. Inr (bt_collect (map (\<lambda>req. (sq_id req, req)) rs)))"

definition is_recorded :: "codec \<Rightarrow> event list \<Rightarrow> string \<Rightarrow> bool" where
  "is_recorded D es sid \<longleftrightarrow>
     list_ex (\<lambda>e. case request_from_event D e of Inr r \<Rightarrow> sq_id r = sid | Inl _ \<Rightarrow> False)
       (spawn_requested_events es)"

definition recorded_lenient :: "codec \<Rightarrow> event list \<Rightarrow> (string, spawn_request) btree" where
  "recorded_lenient D es =
     foldl (\<lambda>out e. case request_from_event D e of
                      Inr req \<Rightarrow> bt_insert (sq_id req) req out | Inl _ \<Rightarrow> out)
       [] (spawn_requested_events es)"

definition latest_results_step ::
  "codec \<Rightarrow> (string, event) btree \<times> json_error option \<Rightarrow> event \<Rightarrow>
    (string, event) btree \<times> json_error option" where
  "latest_results_step D acc e =
     (case result_from_event D e of
        Inr result \<Rightarrow> (bt_insert (sr_id result) e (fst acc), snd acc)
      | Inl err \<Rightarrow> (fst acc, case snd acc of None \<Rightarrow> Some err | Some x \<Rightarrow> Some x))"

definition latest_results :: "codec \<Rightarrow> event list \<Rightarrow> (string, event) btree \<times> json_error option" where
  "latest_results D es =
     foldl (latest_results_step D) ([], None) (filter (\<lambda>e. ev_type e = TYPE_SPAWN_RESULT) es)"

definition latest_result_event :: "codec \<Rightarrow> event list \<Rightarrow> string \<Rightarrow> json_error + event option" where
  "latest_result_event D es sid =
     (case latest_results D es of
        (_, Some unreadable) \<Rightarrow> Inl unreadable
      | (latest, None) \<Rightarrow> Inr (bt_get latest sid))"

definition result_of :: "codec \<Rightarrow> event list \<Rightarrow> string \<Rightarrow> json_error + spawn_result option" where
  "result_of D es sid =
     bind_res (latest_result_event D es sid) (\<lambda>found.
       case found of None \<Rightarrow> Inr None
       | Some e \<Rightarrow> bind_res (result_from_event D e) (\<lambda>r. Inr (Some r)))"

definition latest_results_lenient :: "codec \<Rightarrow> event list \<Rightarrow> (string, event) btree" where
  "latest_results_lenient D es = fst (latest_results D es)"

definition ended_by :: "codec \<Rightarrow> event list \<Rightarrow> string \<Rightarrow> json_error + spawn_result option" where
  "ended_by D es sid =
     bind_res (result_of D es sid) (\<lambda>res. Inr (opt_filter (\<lambda>r. \<not> is_liveness_fault r) res))"

section \<open>The step\<close>

record step =
  wave :: "wave_item list"
  step_done :: bool
  halted :: "string option"
  escalated :: "string list"
  attention :: "attention_entry list"

definition step_default :: step where
  "step_default = \<lparr>wave = [], step_done = False, halted = None, escalated = [], attention = []\<rparr>"

definition answered_step :: "codec \<Rightarrow> string bset \<Rightarrow> event \<Rightarrow> json_error + string bset" where
  "answered_step D answered e =
     (if ev_type e = TYPE_SPAWN_RESULT
      then bind_res (result_from_event D e) (\<lambda>r. Inr (bs_insert (sr_id r) answered))
      else Inr answered)"

definition step_result :: "codec \<Rightarrow> event list \<Rightarrow> json_error + step" where
  "step_result D es =
     bind_res (recorded D es) (\<lambda>rec.
       bind_res (fold_res (answered_step D) [] es) (\<lambda>answered.
         Inr \<lparr>wave = map wave_item_from (filter (\<lambda>req. sq_id req \<notin> set answered) (bt_values rec)),
              step_done = list_all (\<lambda>sid. sid \<in> set answered) (bt_keys rec),
              halted = None, escalated = [], attention = []\<rparr>))"

definition step_of_pass :: "codec \<Rightarrow> event list \<Rightarrow> run_state \<Rightarrow> json_error + step" where
  "step_of_pass D es rs =
     bind_res (step_result D es) (\<lambda>s. Inr
       (s\<lparr>step_done := step_done s \<and> \<not> st_parked rs, escalated := escalated_units rs,
          attention := st_attention rs, halted := st_budget_halt rs\<rparr>))"

definition step_of_hold :: "hold \<Rightarrow> step" where
  "step_of_hold h = step_default\<lparr>halted := Some (''run held - '' @ hold_reason h)\<rparr>"

definition prompt_for :: "codec \<Rightarrow> event list \<Rightarrow> string \<Rightarrow> json_error + string option" where
  "prompt_for D es sid =
     bind_res (recorded D es) (\<lambda>rec. Inr (map_option (\<lambda>req.
       if sq_system_prompt req = '''' then sq_prompt req
       else sq_system_prompt req @ [CHR 0x0A, CHR 0x0A] @ ''---'' @ [CHR 0x0A, CHR 0x0A] @ sq_prompt req)
       (bt_get rec sid)))"

section \<open>Collecting decoded events\<close>

definition decoded :: "('a \<Rightarrow> 'e + 'b) \<Rightarrow> 'a list \<Rightarrow> 'b list" where
  "decoded f xs = List.map_filter (\<lambda>x. res_ok (f x)) xs"

lemma decoded_simps [simp]:
  "decoded f [] = []" "decoded f (x # xs) = (case f x of Inl _ \<Rightarrow> decoded f xs | Inr y \<Rightarrow> y # decoded f xs)"
  "decoded f (xs @ ys) = decoded f xs @ decoded f ys"
  by (simp_all add: decoded_def map_filter_simps split: sum.splits)
    (induction xs, simp_all add: map_filter_simps split: option.splits)

lemma collect_res_map:
  "collect_res (map f xs) =
     (case find (\<lambda>x. isl (f x)) xs of Some x \<Rightarrow> Inl (projl (f x)) | None \<Rightarrow> Inr (decoded f xs))"
  by (induction xs) (auto split: sum.splits option.splits)

lemma map_of_rev_keyed: "map_of (rev (map (\<lambda>r. (f r, r)) rs)) k = find_last (\<lambda>r. f r = k) rs"
  by (induction rs rule: rev_induct) auto

lemma bt_collect_keyed:
  "bt_get (bt_collect (map (\<lambda>r. (f r, r)) rs)) k = find_last (\<lambda>r. f r = k) rs"
  "set (bt_keys (bt_collect (map (\<lambda>r. (f r, r)) rs))) = f ` set rs"
  by (simp_all add: bt_collect_get map_of_rev_keyed bt_collect_keys image_image)

lemma keyed_values:
  assumes "bt_wf m" "\<And>k v. bt_get m k = Some v \<Longrightarrow> f v = k"
  shows "map f (bt_values m) = bt_keys m"
proof -
  have "f v = k" if "(k, v) \<in> set m" for k v
    using assms(2) bt_get_mem [OF assms(1)] that by blast
  then show ?thesis by (auto simp: bt_values_def bt_keys_def)
qed

text \<open>The requests and the results a stream holds, in log order.\<close>

definition request_events :: "codec \<Rightarrow> event list \<Rightarrow> spawn_request list" where
  "request_events D es = decoded (request_from_event D) (spawn_requested_events es)"

definition result_events :: "codec \<Rightarrow> event list \<Rightarrow> spawn_result list" where
  "result_events D es = decoded (result_from_event D) (filter (\<lambda>e. ev_type e = TYPE_SPAWN_RESULT) es)"

definition unreadable_request :: "codec \<Rightarrow> event list \<Rightarrow> event option" where
  "unreadable_request D es = find (\<lambda>e. isl (request_from_event D e)) (spawn_requested_events es)"

definition unreadable_result :: "codec \<Rightarrow> event list \<Rightarrow> event option" where
  "unreadable_result D es =
     find (\<lambda>e. isl (result_from_event D e)) (filter (\<lambda>e. ev_type e = TYPE_SPAWN_RESULT) es)"

lemma recorded_eq:
  "recorded D es =
     (case unreadable_request D es of
        Some e \<Rightarrow> Inl (projl (request_from_event D e))
      | None \<Rightarrow> Inr (bt_collect (map (\<lambda>r. (sq_id r, r)) (request_events D es))))"
  by (simp add: recorded_def requests_def collect_res_map unreadable_request_def request_events_def
      split: option.splits)

lemma recorded_OkD:
  assumes "recorded D es = Inr m"
  shows "unreadable_request D es = None" "bt_wf m"
    "bt_get m k = find_last (\<lambda>r. sq_id r = k) (request_events D es)"
    "set (bt_keys m) = sq_id ` set (request_events D es)"
    "map sq_id (bt_values m) = bt_keys m"
proof -
  show none: "unreadable_request D es = None"
    using assms by (simp add: recorded_eq split: option.splits)
  then have m: "m = bt_collect (map (\<lambda>r. (sq_id r, r)) (request_events D es))"
    using assms by (simp add: recorded_eq)
  then show wf: "bt_wf m" by simp
  show "bt_get m k = find_last (\<lambda>r. sq_id r = k) (request_events D es)"
    by (simp add: m bt_collect_keyed)
  show "set (bt_keys m) = sq_id ` set (request_events D es)" by (simp add: m bt_collect_keyed)
  show "map sq_id (bt_values m) = bt_keys m"
    by (rule keyed_values [OF wf]) (auto simp: m bt_collect_keyed dest: find_last_SomeD)
qed

lemma answered_fold:
  "fold_res (answered_step D) a es =
     (case unreadable_result D es of
        Some e \<Rightarrow> Inl (projl (result_from_event D e))
      | None \<Rightarrow> Inr (foldl (\<lambda>s r. bs_insert (sr_id r) s) a (result_events D es)))"
  by (induction es arbitrary: a)
    (auto simp: answered_step_def unreadable_result_def result_events_def bind_res_def
      split: sum.splits option.splits)

lemma set_foldl_insert: "set (foldl (\<lambda>s r. bs_insert (f r) s) a rs) = set a \<union> f ` set rs"
  by (induction rs arbitrary: a) auto

lemma unreadable_append:
  "unreadable_request D (es @ fs) =
     (case unreadable_request D es of Some e \<Rightarrow> Some e | None \<Rightarrow> unreadable_request D fs)"
  "unreadable_result D (es @ fs) =
     (case unreadable_result D es of Some e \<Rightarrow> Some e | None \<Rightarrow> unreadable_result D fs)"
  by (simp_all add: unreadable_request_def unreadable_result_def spawn_requested_events_def find_append
      cong: option.case_cong)

lemma events_append [simp]:
  "request_events D (es @ fs) = request_events D es @ request_events D fs"
  "result_events D (es @ fs) = result_events D es @ result_events D fs"
  by (simp_all add: request_events_def result_events_def spawn_requested_events_def)

section \<open>The pending frontier\<close>

lemma step_result_OkD:
  assumes "step_result D es = Inr s"
  obtains rec where "recorded D es = Inr rec" "unreadable_result D es = None"
    "wave s = map wave_item_from (filter (\<lambda>req. sq_id req \<notin> sr_id ` set (result_events D es)) (bt_values rec))"
    "step_done s \<longleftrightarrow> set (bt_keys rec) \<subseteq> sr_id ` set (result_events D es)"
  using assms
  by (auto simp: step_result_def answered_fold bind_res_def set_foldl_insert list_all_iff subset_eq
      split: sum.splits option.splits)

lemma wi_id_from [simp]: "wi_id (wave_item_from req) = sq_id req"
  by (simp add: wave_item_from_def)

lemma map_filter_ids:
  "map wi_id (map wave_item_from (filter (\<lambda>req. P (sq_id req)) rs)) = filter P (map sq_id rs)"
  by (induction rs) auto

lemma step_done_iff:
  assumes "step_result D es = Inr s" shows "step_done s \<longleftrightarrow> wave s = []"
  using assms
proof (rule step_result_OkD)
  fix rec
  assume rec: "recorded D es = Inr rec"
    and w: "wave s = map wave_item_from
      (filter (\<lambda>req. sq_id req \<notin> sr_id ` set (result_events D es)) (bt_values rec))"
    and d: "step_done s \<longleftrightarrow> set (bt_keys rec) \<subseteq> sr_id ` set (result_events D es)"
  have "set (bt_keys rec) = sq_id ` set (bt_values rec)"
    using recorded_OkD(5) [OF rec] by (metis list.set_map)
  with w d show ?thesis by (auto simp: filter_empty_conv)
qed

text \<open>
  C13. The wave a step prints is the pending frontier, exactly: one item per requested spawn that has
  no recorded result, in the order of the ids, each the item of the last request written under its
  id; and the step is done exactly when the wave is empty.
\<close>

theorem step_result_frontier:
  assumes "step_result D es = Inr s"
  shows "sorted_wrt (<) (map wi_id (wave s)) \<and>
    set (map wi_id (wave s)) = sq_id ` set (request_events D es) - sr_id ` set (result_events D es) \<and>
    (\<forall>w \<in> set (wave s). \<exists>req. w = wave_item_from req \<and>
       find_last (\<lambda>r. sq_id r = wi_id w) (request_events D es) = Some req) \<and>
    (step_done s \<longleftrightarrow> wave s = [])"
  using assms
proof (rule step_result_OkD)
  fix rec
  assume rec: "recorded D es = Inr rec"
    and w: "wave s = map wave_item_from
      (filter (\<lambda>req. sq_id req \<notin> sr_id ` set (result_events D es)) (bt_values rec))"
    and d: "step_done s \<longleftrightarrow> set (bt_keys rec) \<subseteq> sr_id ` set (result_events D es)"
  note r = recorded_OkD [OF rec]
  have ids: "map wi_id (wave s) = filter (\<lambda>i. i \<notin> sr_id ` set (result_events D es)) (bt_keys rec)"
    unfolding w r(5) [symmetric] by (rule map_filter_ids)
  have "sorted_wrt (<) (map wi_id (wave s))"
    unfolding ids by (intro sorted_wrt_filter btm.keys_sorted r(2))
  moreover have s: "set (map wi_id (wave s)) =
      sq_id ` set (request_events D es) - sr_id ` set (result_events D es)"
    unfolding ids by (auto simp: r(4))
  moreover have "\<exists>req. v = wave_item_from req \<and>
       find_last (\<lambda>r. sq_id r = wi_id v) (request_events D es) = Some req" if v: "v \<in> set (wave s)" for v
  proof -
    from v w obtain req where req: "req \<in> set (bt_values rec)" "v = wave_item_from req" by auto
    then obtain k where k: "bt_get rec k = Some req" using bt_values_mem [OF r(2)] by blast
    then have "sq_id req = k" using r(3) by (auto dest: find_last_SomeD)
    with k req(2) show ?thesis using r(3) by auto
  qed
  moreover have "step_done s \<longleftrightarrow> wave s = []"
    using assms by (rule step_done_iff)
  ultimately show ?thesis by blast
qed

definition frontier_log :: "event list" where
  "frontier_log = [demo_event TYPE_RUN_STARTED ''r1'', demo_event TYPE_SPAWN_REQUESTED ''u2/implementer#0'',
     demo_event TYPE_SPAWN_REQUESTED ''u1/implementer#0'', demo_event TYPE_SPAWN_RESULT ''u2/implementer#0'']"

theorem step_result_frontier_witness:
  "\<exists>s. step_result demo_codec frontier_log = Inr s \<and> map wi_id (wave s) = [''u1/implementer#0''] \<and>
     (step_done s \<longleftrightarrow> wave s = [])"
proof -
  have "map_sum id (\<lambda>s. map wi_id (wave s)) (step_result demo_codec frontier_log) = Inr [''u1/implementer#0'']"
    by code_simp
  then obtain s where s: "step_result demo_codec frontier_log = Inr s" "map wi_id (wave s) = [''u1/implementer#0'']"
    by (cases "step_result demo_codec frontier_log") auto
  have "step_done s \<longleftrightarrow> wave s = []" using step_result_frontier [OF s(1)] by (elim conjE)
  with s show ?thesis by (intro exI [of _ s] conjI)
qed

text \<open>The frontier as a function of the requests and results a stream holds.\<close>

lemma step_result_ok_iff:
  "(\<exists>s. step_result D es = Inr s) \<longleftrightarrow> unreadable_request D es = None \<and> unreadable_result D es = None"
  by (auto simp: step_result_def recorded_eq answered_fold split: option.splits)

text \<open>
  A step fails exactly when the stream holds a spawn request or a spawn result whose body does
  not decode: an unreadable record is never skipped, and nothing else makes the step fail.
\<close>

theorem step_result_fails_iff:
  "isl (step_result D es) \<longleftrightarrow>
     (\<exists>e \<in> set es. (ev_type e = TYPE_SPAWN_REQUESTED \<and> isl (request_from_event D e)) \<or>
        (ev_type e = TYPE_SPAWN_RESULT \<and> isl (result_from_event D e)))"
proof -
  have "isl (step_result D es) \<longleftrightarrow> \<not> (unreadable_request D es = None \<and> unreadable_result D es = None)"
    by (cases "step_result D es") (use step_result_ok_iff [of D es] in auto)
  then show ?thesis
    by (auto simp: unreadable_request_def unreadable_result_def spawn_requested_events_def find_None_iff)
qed

lemma only_results:
  assumes "\<forall>e \<in> set rs. ev_type e = TYPE_SPAWN_RESULT \<and> \<not> isl (result_from_event D e)"
  shows "unreadable_request D rs = None" "unreadable_result D rs = None" "request_events D rs = []"
  using assms
  by (auto simp: unreadable_request_def unreadable_result_def request_events_def find_None_iff
      spawn_requested_events_def filter_empty_conv)

text \<open>
  C14. Recording results drains the wave: after any sequence of readable results, the step's wave is
  the earlier wave without the spawns those results answer, in the same order, and once they answer
  every spawn of it the step is done. A spawn once answered never reappears.
\<close>

theorem step_result_drains:
  assumes "step_result D es = Inr s"
    and "\<forall>e \<in> set rs. ev_type e = TYPE_SPAWN_RESULT \<and> \<not> isl (result_from_event D e)"
  shows "\<exists>s'. step_result D (es @ rs) = Inr s' \<and>
    wave s' = filter (\<lambda>w. wi_id w \<notin> sr_id ` set (result_events D rs)) (wave s) \<and>
    (wi_id ` set (wave s) \<subseteq> sr_id ` set (result_events D rs) \<longrightarrow> step_done s')"
  using assms(1)
proof (rule step_result_OkD)
  fix rec
  assume rec: "recorded D es = Inr rec" and u: "unreadable_result D es = None"
    and w: "wave s = map wave_item_from
      (filter (\<lambda>req. sq_id req \<notin> sr_id ` set (result_events D es)) (bt_values rec))"
    and d: "step_done s \<longleftrightarrow> set (bt_keys rec) \<subseteq> sr_id ` set (result_events D es)"
  note rs = only_results [OF assms(2)]
  have "recorded D (es @ rs) = Inr rec"
    using rec rs by (auto simp: recorded_eq unreadable_append split: option.splits)
  then obtain s' where s': "step_result D (es @ rs) = Inr s'"
    using step_result_ok_iff [of D "es @ rs"] u rs recorded_OkD(1) [OF rec]
    by (auto simp: unreadable_append)
  from s' show ?thesis
  proof (rule step_result_OkD)
    fix rec'
    assume rec': "recorded D (es @ rs) = Inr rec'"
      and w': "wave s' = map wave_item_from
        (filter (\<lambda>req. sq_id req \<notin> sr_id ` set (result_events D (es @ rs))) (bt_values rec'))"
    have eq: "rec' = rec" using \<open>recorded D (es @ rs) = Inr rec\<close> rec' by simp
    have fw: "wave s' = filter (\<lambda>w. wi_id w \<notin> sr_id ` set (result_events D rs)) (wave s)"
      unfolding w w' eq by (simp add: filter_map comp_def image_Un conj_commute)
    have "step_done s' \<longleftrightarrow> wave s' = []" using s' by (rule step_done_iff)
    with fw s' show ?thesis by (auto simp: filter_empty_conv subset_iff)
  qed
qed

theorem step_result_drains_witness:
  "\<exists>s'. step_result demo_codec (frontier_log @ [demo_event TYPE_SPAWN_RESULT ''u1/implementer#0'']) = Inr s' \<and>
     wave s' = []"
proof -
  let ?rs = "[demo_event TYPE_SPAWN_RESULT ''u1/implementer#0'']"
  have "map_sum id (\<lambda>s. map wi_id (wave s)) (step_result demo_codec frontier_log) = Inr [''u1/implementer#0'']"
    by code_simp
  then obtain s where s: "step_result demo_codec frontier_log = Inr s" "map wi_id (wave s) = [''u1/implementer#0'']"
    by (cases "step_result demo_codec frontier_log") auto
  have rs: "\<forall>e \<in> set ?rs. ev_type e = TYPE_SPAWN_RESULT \<and> \<not> isl (result_from_event demo_codec e)"
    by (simp add: result_from_event_def demo_codec_def)
  have r: "map sr_id (result_events demo_codec ?rs) = [''u1/implementer#0'']" by code_simp
  from step_result_drains [OF s(1) rs] obtain s' where s': "step_result demo_codec (frontier_log @ ?rs) = Inr s'"
    "wave s' = filter (\<lambda>w. wi_id w \<notin> set (map sr_id (result_events demo_codec ?rs))) (wave s)"
    unfolding set_map by blast
  have "wi_id ` set (wave s) = set [''u1/implementer#0'']" unfolding s(2) [symmetric] by simp
  then have "wave s' = []" unfolding s'(2) r by (auto simp: filter_empty_conv)
  with s'(1) show ?thesis by blast
qed

section \<open>A spawn's result\<close>

lemma latest_results_fold:
  "foldl (latest_results_step D) acc es =
     (foldl (\<lambda>m e. case result_from_event D e of Inr r \<Rightarrow> bt_insert (sr_id r) e m | Inl _ \<Rightarrow> m) (fst acc) es,
      case snd acc of Some x \<Rightarrow> Some x
      | None \<Rightarrow> map_option (\<lambda>e. projl (result_from_event D e)) (find (\<lambda>e. isl (result_from_event D e)) es))"
  by (induction es arbitrary: acc)
    (auto simp: latest_results_step_def split: sum.splits option.splits)

lemma latest_fold_get:
  assumes "bt_get (foldl (\<lambda>m e. case result_from_event D e of Inr r \<Rightarrow> bt_insert (sr_id r) e m | Inl _ \<Rightarrow> m)
    [] es) sid = found"
  shows "found = find_last (\<lambda>e. case result_from_event D e of Inr r \<Rightarrow> sr_id r = sid | Inl _ \<Rightarrow> False) es"
  using assms
  by (induction es arbitrary: found rule: rev_induct)
    (auto simp: btm.get_empty btm.get_put split: sum.splits)

lemma find_last_decoded:
  "Option.bind (find_last (\<lambda>e. case f e of Inr r \<Rightarrow> P r | Inl _ \<Rightarrow> False) es) (\<lambda>e. res_ok (f e)) =
     find_last P (decoded f es)"
  by (induction es rule: rev_induct) (auto split: sum.splits)

lemma result_of_eq:
  "result_of D es sid =
     (case unreadable_result D es of
        Some e \<Rightarrow> Inl (projl (result_from_event D e))
      | None \<Rightarrow> Inr (find_last (\<lambda>r. sr_id r = sid) (result_events D es)))"
proof (cases "unreadable_result D es")
  case (Some e)
  then show ?thesis
    by (simp add: result_of_def latest_result_event_def latest_results_def latest_results_fold
        unreadable_result_def)
next
  case None
  let ?es = "filter (\<lambda>e. ev_type e = TYPE_SPAWN_RESULT) es"
  let ?found = "find_last (\<lambda>e. case result_from_event D e of Inr r \<Rightarrow> sr_id r = sid | Inl _ \<Rightarrow> False) ?es"
  have ev: "latest_result_event D es sid = Inr ?found"
    using None latest_fold_get [OF refl, of D ?es sid]
    by (simp add: latest_result_event_def latest_results_def latest_results_fold unreadable_result_def)
  have "result_of D es sid = Inr (Option.bind ?found (\<lambda>e. res_ok (result_from_event D e)))"
  proof (cases ?found)
    case None
    then show ?thesis by (simp add: result_of_def ev)
  next
    case (Some e)
    then obtain r where "result_from_event D e = Inr r"
      by (cases "result_from_event D e") (auto dest!: find_last_SomeD)
    with Some show ?thesis by (simp add: result_of_def ev)
  qed
  then show ?thesis using None by (simp add: find_last_decoded result_events_def)
qed

text \<open>
  C36. \<open>result_of\<close> is the last recorded result of its spawn: over a stream whose results all decode it
  answers the last one written under the id, or that there is none, and otherwise it fails with the
  error of the first result that does not decode.
\<close>

theorem result_of_exact:
  "result_of D es sid =
     (case unreadable_result D es of
        Some e \<Rightarrow> Inl (projl (result_from_event D e))
      | None \<Rightarrow> Inr (find_last (\<lambda>r. sr_id r = sid) (result_events D es)))"
  by (rule result_of_eq)

text \<open>
  A spawn is ended by a real result only: recording a result for a spawn ends it with that
  result, unless the result is a liveness fault, which leaves it not ended until a later real result
  supersedes the fault; and no other spawn's end changes.
\<close>

theorem ended_by_append:
  assumes "ended_by D es sid = Inr x" "ev_type e = TYPE_SPAWN_RESULT" "result_from_event D e = Inr r"
  shows "ended_by D (es @ [e]) sid =
    Inr (if sr_id r = sid then (if is_liveness_fault r then None else Some r) else x)"
proof -
  have u: "unreadable_result D [e] = None" "result_events D [e] = [r]"
    using assms(2,3) by (simp_all add: unreadable_result_def result_events_def)
  from assms(1) have "unreadable_result D es = None"
    by (auto simp: ended_by_def result_of_eq split: option.splits)
  with assms(1) u show ?thesis
    by (auto simp: ended_by_def result_of_eq unreadable_append)
qed

theorem ended_by_append_witness:
  "ended_by demo_codec (frontier_log @ [demo_event TYPE_SPAWN_RESULT ''u1/implementer#0'']) ''u1/implementer#0''
    = Inr (Some (result_ok ''u1/implementer#0'' ''ok''))"
proof -
  have "ended_by demo_codec frontier_log ''u1/implementer#0'' = Inr None" by code_simp
  from ended_by_append [OF this, of "demo_event TYPE_SPAWN_RESULT ''u1/implementer#0''"
    "result_ok ''u1/implementer#0'' ''ok''"]
  show ?thesis
    by (simp add: result_from_event_def demo_codec_def result_ok_def result_outcome_def is_liveness_fault_def)
qed

section \<open>The strict and the lenient reads agree\<close>

lemma recorded_lenient_eq:
  "recorded_lenient D es = bt_collect (map (\<lambda>r. (sq_id r, r)) (request_events D es))"
proof -
  have "foldl (\<lambda>out e. case request_from_event D e of
      Inr req \<Rightarrow> bt_insert (sq_id req) req out | Inl _ \<Rightarrow> out) m xs =
    bt_extend m (map (\<lambda>r. (sq_id r, r)) (decoded (request_from_event D) xs))" for m xs
    by (induction xs arbitrary: m) (auto simp: bt_extend_def split: sum.splits)
  then show ?thesis by (simp add: recorded_lenient_def request_events_def bt_collect_def)
qed

text \<open>
  The degrade-tolerant read extends the strict one: \<open>recorded\<close> answers the map of
  \<open>recorded_lenient\<close> unless some request does not decode, when it fails with the first such
  request's error; and on every stream \<open>is_recorded\<close> holds of an id exactly when the tolerant map
  has an entry for it.
\<close>

theorem recorded_lenient_agrees:
  "recorded D es =
     (case unreadable_request D es of
        Some e \<Rightarrow> Inl (projl (request_from_event D e))
      | None \<Rightarrow> Inr (recorded_lenient D es)) \<and>
   is_recorded D es sid = (bt_get (recorded_lenient D es) sid \<noteq> None)"
proof -
  have "is_recorded D es sid \<longleftrightarrow> (\<exists>r \<in> set (request_events D es). sq_id r = sid)"
    by (induction es)
      (auto simp: is_recorded_def request_events_def spawn_requested_events_def split: sum.splits)
  then have "is_recorded D es sid \<longleftrightarrow> bt_get (recorded_lenient D es) sid \<noteq> None"
    by (auto simp: recorded_lenient_eq bt_collect_keyed find_last_eq_None)
  then show ?thesis unfolding recorded_eq recorded_lenient_eq [symmetric] by blast
qed

end
