(* ===== verification/Gate.thy ===== *)
theory Gate
  imports BTree
begin

text \<open>
  The gate ratchet and the rails of a failing unit: \<open>gate.rs\<close> and \<open>failure.rs\<close> and \<open>safety.rs\<close> of
  the domain crate, and the conductor's \<open>run_gate_with_taxonomy\<close>, \<open>classify_gate_failure\<close> and
  \<open>record_gate\<close>, which compose them. The regular-expression engine and the command a gate runs are
  not part of the program: \<open>re_match\<close> says whether a pattern matches a text, and \<open>run\<close> gives the
  result of the n-th invocation of a gate's command. The theorems bound the reruns, say which runs
  move the ratchet and which propose a promotion, and show that remediation ends.
\<close>

section \<open>Gates\<close>

datatype gate_kind = Core | Elevated | Deferred

datatype autonomy = Manual | AutoNotify | Silent

text \<open>\<open>Keyword::KEYWORDS\<close> and \<open>parse\<close>: the variant a word names, else the default.\<close>

definition parse_keyword :: "(string \<times> 'a) list \<Rightarrow> 'a \<Rightarrow> string \<Rightarrow> 'a" where
  "parse_keyword words dflt s =
     (case find (\<lambda>(word, _). word = s) words of None \<Rightarrow> dflt | Some (_, v) \<Rightarrow> v)"

definition parse_gate_kind :: "string \<Rightarrow> gate_kind" where
  "parse_gate_kind = parse_keyword [(''elevated'', Elevated), (''deferred'', Deferred)] Core"

definition parse_autonomy :: "string \<Rightarrow> autonomy" where
  "parse_autonomy = parse_keyword [(''manual'', Manual), (''silent'', Silent)] AutoNotify"

fun ceiling :: "gate_kind \<Rightarrow> autonomy" where
  "ceiling Elevated = AutoNotify"
| "ceiling Core = Silent"
| "ceiling Deferred = Silent"

fun runs_inline :: "gate_kind \<Rightarrow> bool" where
  "runs_inline Deferred = False"
| "runs_inline Core = True"
| "runs_inline Elevated = True"

fun autonomy_str :: "autonomy \<Rightarrow> string" where
  "autonomy_str Manual = ''manual''"
| "autonomy_str AutoNotify = ''auto_notify''"
| "autonomy_str Silent = ''silent''"

fun rank :: "autonomy \<Rightarrow> nat" where
  "rank Manual = 0"
| "rank AutoNotify = 1"
| "rank Silent = 2"

abbreviation "PROMOTE_THRESHOLD \<equiv> (3 :: nat)"

record gate_result =
  res_pass :: bool
  res_evidence :: string

record history_entry =
  he_pass :: bool

record gate =
  g_id :: string
  g_run :: string
  g_kind :: gate_kind
  g_autonomy :: autonomy
  g_history :: "history_entry list"

datatype action = RunSilent | RunNotify | Pause

definition decide :: "gate \<Rightarrow> action" where
  "decide g = (case g_autonomy g of Silent \<Rightarrow> RunSilent | AutoNotify \<Rightarrow> RunNotify | Manual \<Rightarrow> Pause)"

definition propose_promotion :: "gate \<Rightarrow> bool" where
  "propose_promotion g \<longleftrightarrow>
     \<not> (rank (ceiling (g_kind g)) \<le> rank (g_autonomy g) \<or> length (g_history g) < PROMOTE_THRESHOLD) \<and>
     list_all he_pass (drop (length (g_history g) - PROMOTE_THRESHOLD) (g_history g))"

definition next_autonomy :: "gate \<Rightarrow> autonomy" where
  "next_autonomy g =
     (let stepped = (case g_autonomy g of Manual \<Rightarrow> AutoNotify | _ \<Rightarrow> Silent);
          top = ceiling (g_kind g)
      in if rank stepped > rank top then top else stepped)"

definition auto_demote :: "gate \<Rightarrow> bool \<Rightarrow> autonomy \<times> bool" where
  "auto_demote g pass =
     (if \<not> pass \<and> g_autonomy g \<noteq> Manual then (Manual, True) else (g_autonomy g, False))"

section \<open>The failure taxonomy\<close>

datatype failure_class = Infra | Product | Flaky

fun class_str :: "failure_class \<Rightarrow> string" where
  "class_str Infra = ''infra''"
| "class_str Product = ''product''"
| "class_str Flaky = ''flaky''"

definition class_parse :: "string \<Rightarrow> failure_class option" where
  "class_parse s =
     (if s = ''infra'' then Some Infra else if s = ''product'' then Some Product
      else if s = ''flaky'' then Some Flaky else None)"

definition reruns :: "failure_class \<Rightarrow> bool" where
  "reruns c \<longleftrightarrow> c \<noteq> Product"

definition demotes_on_persistent_failure :: "failure_class \<Rightarrow> bool" where
  "demotes_on_persistent_failure c \<longleftrightarrow> c \<noteq> Infra"

text \<open>A backoff's durations are in milliseconds and its factor is the bits of an \<open>f64\<close>: the delay it
  computes is only slept, so no outcome depends on it.\<close>

record backoff =
  bo_duration :: nat
  bo_factor :: u64
  bo_max :: nat

abbreviation "F64_ONE \<equiv> (0x3FF0000000000000 :: u64)"
abbreviation "F64_TWO \<equiv> (0x4000000000000000 :: u64)"

definition backoff_default :: backoff where
  "backoff_default = \<lparr>bo_duration = 0, bo_factor = F64_ONE, bo_max = 0\<rparr>"

record fault_signal =
  sig_exit_status :: "int option"
  sig_signal :: "int option"
  sig_output :: string

definition signal_from_output :: "string \<Rightarrow> fault_signal" where
  "signal_from_output out = \<lparr>sig_exit_status = None, sig_signal = None, sig_output = out\<rparr>"

record matcher =
  m_exit_status :: "int option"
  m_signal :: "int option"
  m_output_regex :: "string option"

definition matcher_any :: matcher where
  "matcher_any = \<lparr>m_exit_status = None, m_signal = None, m_output_regex = None\<rparr>"

definition is_any :: "matcher \<Rightarrow> bool" where
  "is_any m \<longleftrightarrow> m_exit_status m = None \<and> m_signal m = None \<and> m_output_regex m = None"

definition matches :: "(string \<Rightarrow> string \<Rightarrow> bool) \<Rightarrow> matcher \<Rightarrow> fault_signal \<Rightarrow> bool" where
  "matches re_match m s \<longleftrightarrow>
     (case m_exit_status m of None \<Rightarrow> True | Some code \<Rightarrow> sig_exit_status s = Some code) \<and>
     (case m_signal m of None \<Rightarrow> True | Some n \<Rightarrow> sig_signal s = Some n) \<and>
     (case m_output_regex m of None \<Rightarrow> True | Some re \<Rightarrow> re_match re (sig_output s))"

record failure_rule =
  fr_matcher :: matcher
  fr_class :: failure_class
  fr_limit :: u32
  fr_backoff :: backoff

type_synonym taxonomy = "failure_rule list"

definition classify_signal ::
  "(string \<Rightarrow> string \<Rightarrow> bool) \<Rightarrow> taxonomy \<Rightarrow> fault_signal \<Rightarrow> failure_rule option" where
  "classify_signal re_match rules s = find (\<lambda>r. matches re_match (fr_matcher r) s) rules"

definition infra_limit :: "taxonomy \<Rightarrow> u32" where
  "infra_limit rules =
     (case find (\<lambda>r. fr_class r = Infra) rules of None \<Rightarrow> 0 | Some r \<Rightarrow> fr_limit r)"

definition default_infra_regex :: string where
  "default_infra_regex =
     ''(?i)(no space left on device'' @ ''|resource temporarily unavailable'' @
     ''|connection refused'' @ ''|connection reset by peer'' @ ''|could not resolve host'' @
     ''|temporary failure in name resolution'' @ ''|econnreset'' @ ''|etimedout)''"

definition taxonomy_default :: taxonomy where
  "taxonomy_default =
     [\<lparr>fr_matcher = \<lparr>m_exit_status = None, m_signal = None, m_output_regex = Some default_infra_regex\<rparr>,
       fr_class = Infra, fr_limit = 2,
       fr_backoff = \<lparr>bo_duration = 1000, bo_factor = F64_TWO, bo_max = 30000\<rparr>\<rparr>,
      \<lparr>fr_matcher = matcher_any, fr_class = Product, fr_limit = 0, fr_backoff = backoff_default\<rparr>]"

section \<open>Running a gate\<close>

datatype gate_ratchet = CleanPass | FlakyPass | FailDemote | FailNoDemote

definition for_persistent_failure :: "failure_class \<Rightarrow> gate_ratchet" where
  "for_persistent_failure c = (if demotes_on_persistent_failure c then FailDemote else FailNoDemote)"

definition classify_gate_failure ::
  "(string \<Rightarrow> string \<Rightarrow> bool) \<Rightarrow> taxonomy \<Rightarrow> string \<Rightarrow> failure_class \<times> u32 \<times> backoff" where
  "classify_gate_failure re_match tax evidence =
     (case classify_signal re_match tax (signal_from_output evidence) of
        Some rule \<Rightarrow> (fr_class rule, fr_limit rule, fr_backoff rule)
      | None \<Rightarrow> (Product, 0, backoff_default))"

text \<open>The evidence a gate run reports: the command's own, or the note that it failed and then passed
  on a rerun, with the gate, the rerun, the limit and the first failure's evidence.\<close>

datatype gate_evidence = Evidence string | FlakyEvidence string u32 u32 string

text \<open>The rerun loop from rerun \<open>n\<close> on: the first rerun that passes, or that every one failed.\<close>

function rerun_from :: "(nat \<Rightarrow> gate_result) \<Rightarrow> u32 \<Rightarrow> u32 \<Rightarrow> u32 option" where
  "rerun_from run limit n =
     (if n < limit then (if res_pass (run (Suc (unat n))) then Some n else rerun_from run limit (n + 1))
      else None)"
  by pat_completeness auto
termination
proof (relation "measure (\<lambda>(_, limit, n). unat limit - unat n)")
  fix run :: "nat \<Rightarrow> gate_result" and limit n :: u32
  assume lt: "n < limit"
  then have "n \<noteq> - 1" by auto
  then have "unat (n + 1) = Suc (unat n)" by (rule unat_plus_one)
  with lt show "((run, limit, n + 1), run, limit, n) \<in> measure (\<lambda>(_, limit, n). unat limit - unat n)"
    by (auto simp: word_less_nat_alt)
qed auto

declare rerun_from.simps [simp del]

definition run_gate_with_taxonomy ::
  "(string \<Rightarrow> string \<Rightarrow> bool) \<Rightarrow> taxonomy \<Rightarrow> gate \<Rightarrow> (nat \<Rightarrow> gate_result) \<Rightarrow>
    bool \<times> bool \<times> gate_ratchet \<times> gate_evidence" where
  "run_gate_with_taxonomy re_match tax g run =
     (let res = run 0 in
      if res_pass res then (True, False, CleanPass, Evidence (res_evidence res))
      else
        (case classify_gate_failure re_match tax (res_evidence res) of (cls, limit, _) \<Rightarrow>
          if \<not> reruns cls \<or> limit = 0
          then (False, False, for_persistent_failure cls, Evidence (res_evidence res))
          else
            (case rerun_from run limit 0 of
               Some n \<Rightarrow> (True, True, FlakyPass, FlakyEvidence (g_id g) (n + 1) limit (res_evidence res))
             | None \<Rightarrow> (False, False, for_persistent_failure cls, Evidence (res_evidence res)))))"

section \<open>Recording a run on the ratchet\<close>

definition seed_autonomy :: "string \<Rightarrow> string \<Rightarrow> autonomy" where
  "seed_autonomy defaults_autonomy stage_autonomy =
     parse_autonomy (if stage_autonomy = '''' then defaults_autonomy else stage_autonomy)"

definition ratchet_pass :: "gate_ratchet \<Rightarrow> bool" where
  "ratchet_pass r \<longleftrightarrow> r = CleanPass \<or> r = FlakyPass"

text \<open>The body of \<open>record_gate\<close> on the tracked gate: the gate as left and the answer
  \<open>(promoted, demoted, autonomy)\<close>.\<close>

definition ratchet_gate :: "gate_ratchet \<Rightarrow> gate \<Rightarrow> gate \<times> bool \<times> bool \<times> autonomy" where
  "ratchet_gate r g0 =
     (let g = g0\<lparr>g_history := g_history g0 @ [\<lparr>he_pass = ratchet_pass r\<rparr>]\<rparr> in
      case r of
        CleanPass \<Rightarrow>
          if propose_promotion g then (g\<lparr>g_history := []\<rparr>, True, False, next_autonomy g)
          else (g, False, False, g_autonomy g)
      | FlakyPass \<Rightarrow> (g\<lparr>g_history := []\<rparr>, False, False, g_autonomy g)
      | FailDemote \<Rightarrow>
          (case auto_demote g False of (new_a, demoted) \<Rightarrow>
             if demoted then (g\<lparr>g_autonomy := new_a, g_history := []\<rparr>, False, True, new_a)
             else (g, False, False, g_autonomy g))
      | FailNoDemote \<Rightarrow> (g, False, False, g_autonomy g))"

definition record_gate ::
  "string \<Rightarrow> (string, gate) btree \<Rightarrow> string \<Rightarrow> gate_kind \<Rightarrow> gate_ratchet \<Rightarrow> string \<Rightarrow>
    (string, gate) btree \<times> bool \<times> bool \<times> autonomy" where
  "record_gate defaults_autonomy tracker gid kind r stage_autonomy =
     (let g = unwrap_or \<lparr>g_id = gid, g_run = '''', g_kind = kind,
                g_autonomy = seed_autonomy defaults_autonomy stage_autonomy, g_history = []\<rparr>
                (bt_get tracker gid)
      in case ratchet_gate r g of (g', out) \<Rightarrow> (bt_insert gid g' tracker, out))"

definition stage_paused_for_review :: "string \<Rightarrow> string list \<Rightarrow> string \<Rightarrow> bool" where
  "stage_paused_for_review defaults_autonomy gates stage_autonomy \<longleftrightarrow>
     gates \<noteq> [] \<and>
     decide \<lparr>g_id = '''', g_run = '''', g_kind = Core,
             g_autonomy = seed_autonomy defaults_autonomy stage_autonomy, g_history = []\<rparr> = Pause"

section \<open>Remediation and the budget\<close>

abbreviation "MAX_RETRIES \<equiv> (3 :: u32)"

definition budget_exhausted :: "int \<Rightarrow> int \<Rightarrow> bool" where
  "budget_exhausted threshold spent \<longleftrightarrow> threshold > 0 \<and> spent \<ge> threshold"

datatype decision = Retry | Escalate

record remediation =
  rem_decision :: decision
  rem_attempts :: u32

definition remediate :: "u32 \<Rightarrow> u32 \<Rightarrow> remediation" where
  "remediate prior_attempts mx =
     (let attempts = prior_attempts + 1
      in \<lparr>rem_decision = (if attempts \<ge> mx then Escalate else Retry), rem_attempts = attempts\<rparr>)"

text \<open>A unit whose every attempt fails: the attempt count recorded at each failure, up to the one that
  escalates it.\<close>

function failing_attempts :: "u32 \<Rightarrow> u32 \<Rightarrow> u32 list" where
  "failing_attempts prior mx =
     (let r = remediate prior mx
      in if rem_decision r = Escalate then [rem_attempts r]
         else rem_attempts r # failing_attempts (rem_attempts r) mx)"
  by pat_completeness auto
termination
proof (relation "measure (\<lambda>(prior, mx). if prior = - 1 then Suc (unat mx) else unat mx - unat prior)")
  fix prior mx :: u32 and r
  assume r: "r = remediate prior mx" and retry: "rem_decision r \<noteq> Escalate"
  then have lt: "prior + 1 < mx" and a: "rem_attempts r = prior + 1"
    by (auto simp: remediate_def Let_def split: if_splits)
  show "((rem_attempts r, mx), prior, mx) \<in>
      measure (\<lambda>(prior, mx). if prior = - 1 then Suc (unat mx) else unat mx - unat prior)"
  proof (cases "prior = - 1")
    case True
    then show ?thesis using a lt by auto
  next
    case False
    then have "unat (prior + 1) = Suc (unat prior)" by (rule unat_plus_one)
    moreover have "x < mx \<Longrightarrow> x \<noteq> - 1" for x :: u32 by auto
    with lt have "prior + 1 \<noteq> - 1" by blast
    ultimately show ?thesis using a lt False by (simp add: word_less_nat_alt)
  qed
qed auto

declare failing_attempts.simps [simp del]

section \<open>A gate's outcome\<close>

lemma word_less_max: "x < y \<Longrightarrow> x \<noteq> - 1" for x y :: "'a::len word"
  by auto

text \<open>The rerun loop answers the first rerun that passes.\<close>

lemma rerun_from_Some:
  "rerun_from run limit n = Some m \<Longrightarrow> n \<le> m \<and> m < limit \<and> res_pass (run (Suc (unat m)))"
proof (induction run limit n rule: rerun_from.induct)
  case (1 run limit n)
  show ?case
  proof (cases "n < limit \<and> \<not> res_pass (run (Suc (unat n)))")
    case True
    then have "rerun_from run limit (n + 1) = Some m" using "1.prems" by (simp add: rerun_from.simps [of run limit n])
    with "1.IH" True have ih: "n + 1 \<le> m" "m < limit" "res_pass (run (Suc (unat m)))" by auto
    have "unat (n + 1) = Suc (unat n)" using True by (intro unat_plus_one) (auto dest: word_less_max)
    with ih show ?thesis by (simp add: word_le_nat_alt)
  next
    case False
    with "1.prems" show ?thesis by (auto simp: rerun_from.simps [of run limit n] split: if_splits)
  qed
qed

lemma rerun_from_None:
  "rerun_from run limit n = None \<Longrightarrow> unat n \<le> i \<Longrightarrow> i < unat limit \<Longrightarrow> \<not> res_pass (run (Suc i))"
proof (induction run limit n rule: rerun_from.induct)
  case (1 run limit n)
  have lt: "n < limit" using "1.prems" by (simp add: word_less_nat_alt)
  with "1.prems" have np: "\<not> res_pass (run (Suc (unat n)))" and rest: "rerun_from run limit (n + 1) = None"
    by (auto simp: rerun_from.simps [of run limit n] split: if_splits)
  have "unat (n + 1) = Suc (unat n)" using lt by (intro unat_plus_one) (auto dest: word_less_max)
  then show ?case using "1.IH" [OF lt np rest] "1.prems" np by (cases "i = unat n") auto
qed

lemma rerun_iff:
  "(\<exists>n. rerun_from run limit 0 = Some n) \<longleftrightarrow> (\<exists>i < unat limit. res_pass (run (Suc i)))"
proof
  assume "\<exists>n. rerun_from run limit 0 = Some n"
  then obtain n where "n < limit" "res_pass (run (Suc (unat n)))" by (auto dest: rerun_from_Some)
  then show "\<exists>i < unat limit. res_pass (run (Suc i))" by (auto simp: word_less_nat_alt)
next
  assume "\<exists>i < unat limit. res_pass (run (Suc i))"
  then show "\<exists>n. rerun_from run limit 0 = Some n"
    using rerun_from_None [of run limit 0] by (cases "rerun_from run limit 0") auto
qed

text \<open>
  C34. What a gate run reports follows from the command's results and the taxonomy alone: it passes
  when the first run passes or the failure's class is rerun and one of the first \<open>limit\<close> reruns
  passes; the ratchet effect is a clean pass exactly when the first run passes, a flaky pass exactly
  when only a rerun does, and otherwise a demotion unless the class is infra; and the run is marked
  flaky exactly with the flaky pass.
\<close>

theorem run_gate_with_taxonomy_outcome:
  "run_gate_with_taxonomy re_match tax g run = (pass, flaky, r, ev) \<longrightarrow>
   (let (cls, limit, _) = classify_gate_failure re_match tax (res_evidence (run 0));
        rerun = (reruns cls \<and> (\<exists>i < unat limit. res_pass (run (Suc i))))
    in pass = (res_pass (run 0) \<or> rerun) \<and>
       r = (if res_pass (run 0) then CleanPass else if rerun then FlakyPass
            else if cls = Infra then FailNoDemote else FailDemote) \<and>
       flaky = (r = FlakyPass))"
proof (cases "res_pass (run 0)")
  case True
  then show ?thesis
    by (auto simp: run_gate_with_taxonomy_def Let_def split: prod.splits)
next
  case False
  obtain cls limit b where c: "classify_gate_failure re_match tax (res_evidence (run 0)) = (cls, limit, b)"
    by (metis prod_cases3)
  have zero: "limit = 0 \<Longrightarrow> \<not> (\<exists>i < unat limit. res_pass (run (Suc i)))" by simp
  show ?thesis
  proof (cases "rerun_from run limit 0")
    case None
    then have "\<not> (\<exists>i < unat limit. res_pass (run (Suc i)))" using rerun_iff [of run limit] by simp
    with False c None show ?thesis
      by (auto simp: run_gate_with_taxonomy_def Let_def for_persistent_failure_def
          demotes_on_persistent_failure_def)
  next
    case (Some n)
    then have "\<exists>i < unat limit. res_pass (run (Suc i))" using rerun_iff [of run limit] by blast
    with False c Some zero show ?thesis
      by (auto simp: run_gate_with_taxonomy_def Let_def for_persistent_failure_def
          demotes_on_persistent_failure_def)
  qed
qed

theorem run_gate_with_taxonomy_outcome_witness:
  "(case run_gate_with_taxonomy (\<lambda>_ _. True) taxonomy_default
      \<lparr>g_id = ''t'', g_run = ''cargo test'', g_kind = Core, g_autonomy = Silent, g_history = []\<rparr>
      (\<lambda>n. \<lparr>res_pass = (n = 2), res_evidence = ''ECONNRESET''\<rparr>)
    of (pass, flaky, r, ev) \<Rightarrow> pass \<and> flaky \<and> r = FlakyPass)"
proof -
  let ?run = "\<lambda>n. \<lparr>res_pass = (n = (2::nat)), res_evidence = ''ECONNRESET''\<rparr>"
  let ?g = "\<lparr>g_id = ''t'', g_run = ''cargo test'', g_kind = Core, g_autonomy = Silent, g_history = []\<rparr>"
  obtain pass flaky r ev where o: "run_gate_with_taxonomy (\<lambda>_ _. True) taxonomy_default ?g ?run = (pass, flaky, r, ev)"
    by (metis prod_cases4)
  have "classify_gate_failure (\<lambda>_ _. True) taxonomy_default ''ECONNRESET'' =
      (Infra, 2, \<lparr>bo_duration = 1000, bo_factor = F64_TWO, bo_max = 30000\<rparr>)"
    by (simp add: classify_gate_failure_def classify_signal_def taxonomy_default_def matches_def)
  then show ?thesis
    using run_gate_with_taxonomy_outcome [of "\<lambda>_ _. True" taxonomy_default ?g ?run pass flaky r ev] o
    by (auto simp: reruns_def intro: exI [of _ 1])
qed

section \<open>The ratchet over a run\<close>

text \<open>The trackers a conductor process reaches by recording gate runs, with the log of those runs: the
  gate, the outcome and the stage's autonomy override. A gate's kind comes from the workflow.\<close>

inductive ratchet_reach ::
  "string \<Rightarrow> (string \<Rightarrow> gate_kind) \<Rightarrow> (string \<times> gate_ratchet \<times> string) list \<Rightarrow> (string, gate) btree \<Rightarrow> bool"
  for da :: string and kinds :: "string \<Rightarrow> gate_kind" where
  start: "ratchet_reach da kinds [] []"
| run: "ratchet_reach da kinds runs tr \<Longrightarrow> record_gate da tr gid (kinds gid) r st = (tr', out) \<Longrightarrow>
    ratchet_reach da kinds (runs @ [(gid, r, st)]) tr'"

inductive_cases ratchet_reach_snocE: "ratchet_reach da kinds (runs @ [x]) tr"

definition gate_outcomes :: "string \<Rightarrow> (string \<times> gate_ratchet \<times> string) list \<Rightarrow> gate_ratchet list" where
  "gate_outcomes gid runs = map (\<lambda>(_, r, _). r) (filter (\<lambda>(g, _). g = gid) runs)"

definition gate_seed :: "string \<Rightarrow> string \<Rightarrow> (string \<times> gate_ratchet \<times> string) list \<Rightarrow> autonomy option" where
  "gate_seed da gid runs =
     map_option (\<lambda>(_, _, st). seed_autonomy da st) (find (\<lambda>(g, _). g = gid) runs)"

lemma gate_outcomes_snoc [simp]:
  "gate_outcomes gid (runs @ [(g, r, st)]) =
     (if g = gid then gate_outcomes gid runs @ [r] else gate_outcomes gid runs)"
  by (simp add: gate_outcomes_def)

lemma gate_seed_snoc [simp]:
  "gate_seed da gid (runs @ [(g, r, st)]) =
     (case gate_seed da gid runs of Some a \<Rightarrow> Some a
      | None \<Rightarrow> if g = gid then Some (seed_autonomy da st) else None)"
  by (simp add: gate_seed_def find_append split: option.splits)

text \<open>What a tracked gate holds: its kind, an autonomy that is its seed or manual, and a history that
  is a tail of its outcomes with no flaky pass in it.\<close>

definition gate_inv :: "string \<Rightarrow> (string \<Rightarrow> gate_kind) \<Rightarrow> (string \<times> gate_ratchet \<times> string) list \<Rightarrow> string \<Rightarrow> gate \<Rightarrow> bool" where
  "gate_inv da kinds runs gid g \<longleftrightarrow>
     g_kind g = kinds gid \<and>
     (g_autonomy g = Manual \<or> gate_seed da gid runs = Some (g_autonomy g)) \<and>
     (\<exists>k. g_history g = map (\<lambda>r. \<lparr>he_pass = ratchet_pass r\<rparr>) (drop k (gate_outcomes gid runs)) \<and>
          FlakyPass \<notin> set (drop k (gate_outcomes gid runs)))"

lemma ratchet_gate_frame:
  assumes "ratchet_gate r g = (g', out)"
  shows "g_kind g' = g_kind g" "g_autonomy g' = (if r = FailDemote then Manual else g_autonomy g)"
    "g_history g' = [] \<or> g_history g' = g_history g @ [\<lparr>he_pass = ratchet_pass r\<rparr>] \<and> r \<noteq> FlakyPass"
  using assms
  by (auto simp: ratchet_gate_def Let_def auto_demote_def split: gate_ratchet.splits if_splits)

lemma gate_inv_history:
  assumes "g_history g = map (\<lambda>r. \<lparr>he_pass = ratchet_pass r\<rparr>) (drop k os)" "FlakyPass \<notin> set (drop k os)"
    and "h = [] \<or> h = g_history g @ [\<lparr>he_pass = ratchet_pass r\<rparr>] \<and> r \<noteq> FlakyPass"
  shows "\<exists>k'. h = map (\<lambda>r. \<lparr>he_pass = ratchet_pass r\<rparr>) (drop k' (os @ [r])) \<and>
    FlakyPass \<notin> set (drop k' (os @ [r]))"
proof (cases "h = []")
  case True
  then show ?thesis by (intro exI [of _ "Suc (length os)"]) simp
next
  case False
  let ?k = "min k (length os)"
  have "drop ?k os = drop k os" by (simp add: min_def)
  moreover have "drop ?k (os @ [r]) = drop ?k os @ [r]" by simp
  ultimately show ?thesis using assms False by (intro exI [of _ ?k]) auto
qed

lemma record_gate_inv:
  assumes "\<And>gid g. bt_get tr gid = Some g \<Longrightarrow> gate_inv da kinds runs gid g"
    and dom: "\<And>gid. bt_get tr gid = None \<Longrightarrow> gate_outcomes gid runs = [] \<and> gate_seed da gid runs = None"
    and rec: "record_gate da tr gid (kinds gid) r st = (tr', out)" and get: "bt_get tr' hid = Some h"
  shows "gate_inv da kinds (runs @ [(gid, r, st)]) hid h"
proof (cases "hid = gid")
  case False
  with rec get have "bt_get tr hid = Some h"
    by (auto simp: record_gate_def Let_def btm.get_put split: prod.splits)
  with assms(1) False show ?thesis by (fastforce simp: gate_inv_def split: option.splits)
next
  case True
  define g where "g = unwrap_or \<lparr>g_id = gid, g_run = '''', g_kind = kinds gid,
    g_autonomy = seed_autonomy da st, g_history = []\<rparr> (bt_get tr gid)"
  from rec get True have step: "ratchet_gate r g = (h, out)"
    by (auto simp: record_gate_def Let_def btm.get_put g_def split: prod.splits)
  have g: "g_kind g = kinds gid"
    "g_autonomy g = Manual \<or> gate_seed da gid (runs @ [(gid, r, st)]) = Some (g_autonomy g)"
    "\<exists>k. g_history g = map (\<lambda>r. \<lparr>he_pass = ratchet_pass r\<rparr>) (drop k (gate_outcomes gid runs)) \<and>
      FlakyPass \<notin> set (drop k (gate_outcomes gid runs))"
    using assms(1) [of gid] dom [of gid] by (cases "bt_get tr gid"; auto simp: g_def gate_inv_def)+
  note fr = ratchet_gate_frame [OF step]
  from g(3) fr(3) have "\<exists>k. g_history h = map (\<lambda>r. \<lparr>he_pass = ratchet_pass r\<rparr>) (drop k (gate_outcomes gid runs @ [r])) \<and>
      FlakyPass \<notin> set (drop k (gate_outcomes gid runs @ [r]))"
    using gate_inv_history by blast
  with g(1,2) fr(1,2) True show ?thesis by (auto simp: gate_inv_def)
qed

lemma record_gate_dom:
  "record_gate da tr gid k r st = (tr', out) \<Longrightarrow> bt_get tr' hid = None \<longleftrightarrow> hid \<noteq> gid \<and> bt_get tr hid = None"
  by (auto simp: record_gate_def Let_def btm.get_put split: prod.splits if_splits)

lemma ratchet_reach_inv:
  assumes "ratchet_reach da kinds runs tr"
  shows "(\<forall>gid g. bt_get tr gid = Some g \<longrightarrow> gate_inv da kinds runs gid g) \<and>
    (\<forall>gid. bt_get tr gid = None \<longrightarrow> gate_outcomes gid runs = [] \<and> gate_seed da gid runs = None)"
  using assms
proof induction
  case start
  then show ?case by (simp add: btm.get_empty gate_outcomes_def gate_seed_def)
next
  case (run runs tr gid r st tr' out)
  have "gate_inv da kinds (runs @ [(gid, r, st)]) hid h" if "bt_get tr' hid = Some h" for hid h
    using record_gate_inv [where da = da and kinds = kinds and runs = runs, OF _ _ run.hyps(2) that] run.IH
    by blast
  moreover have "gate_outcomes hid (runs @ [(gid, r, st)]) = [] \<and> gate_seed da hid (runs @ [(gid, r, st)]) = None"
    if "bt_get tr' hid = None" for hid
    using that run.IH record_gate_dom [OF run.hyps(2)] by auto
  ultimately show ?case by blast
qed

text \<open>
  C35. The ratchet only ever lowers: after any sequence of gate runs in a process, a tracked gate's
  autonomy is the one it was seeded with at its first run or manual, so no run of any gate raises an
  autonomy by itself.
\<close>

theorem ratchet_never_raises:
  assumes "ratchet_reach da kinds runs tr" "bt_get tr gid = Some g"
  shows "g_autonomy g = Manual \<or> gate_seed da gid runs = Some (g_autonomy g)"
  using ratchet_reach_inv [OF assms(1)] assms(2) by (auto simp: gate_inv_def)

lemma reach_record:
  "ratchet_reach da kinds runs tr \<Longrightarrow>
   ratchet_reach da kinds (runs @ [(gid, r, st)]) (fst (record_gate da tr gid (kinds gid) r st))"
  by (metis prod.collapse ratchet_reach.run)

theorem ratchet_never_raises_witness:
  "\<exists>tr g. ratchet_reach ''silent'' (\<lambda>_. Core) [(''t'', FailNoDemote, '''')] tr \<and>
     bt_get tr ''t'' = Some g \<and> g_autonomy g = Silent \<and>
     (g_autonomy g = Manual \<or> gate_seed ''silent'' ''t'' [(''t'', FailNoDemote, '''')] = Some (g_autonomy g))"
proof -
  let ?tr = "fst (record_gate ''silent'' [] ''t'' Core FailNoDemote '''')"
  have r: "ratchet_reach ''silent'' (\<lambda>_. Core) [(''t'', FailNoDemote, '''')] ?tr"
    using reach_record [OF ratchet_reach.start [of "''silent''" "\<lambda>_. Core"], of "''t''" FailNoDemote "''''"] by simp
  have "map_option g_autonomy (bt_get ?tr ''t'') = Some Silent" by code_simp
  then obtain g where g: "bt_get ?tr ''t'' = Some g" "g_autonomy g = Silent" by auto
  from ratchet_never_raises [OF r g(1)] r g show ?thesis by blast
qed

lemma drop_suffix_take:
  assumes "3 \<le> length (drop k os)"
  shows "drop (length (drop k os) - 3) (drop k os) = drop (length os - 3) os"
  using assms by (simp add: add.commute)

text \<open>
  C25. A promotion is proposed only on three clean passes in a row: when recording a run proposes one,
  the gate's last three outcomes in the process, this run's included, are clean first-run passes; the
  proposed autonomy is one notch above the gate's current one and within the ceiling of its kind, so
  an elevated gate is never proposed silent; and the gate keeps its current autonomy.
\<close>

theorem promotion_needs_clean_streak:
  assumes reach: "ratchet_reach da kinds runs tr"
    and rec: "record_gate da tr gid (kinds gid) r st = (tr', True, demoted, a)"
  shows "(let os = gate_outcomes gid (runs @ [(gid, r, st)])
          in 3 \<le> length os \<and> drop (length os - 3) os = [CleanPass, CleanPass, CleanPass]) \<and>
    (\<exists>g. bt_get tr' gid = Some g \<and> rank a = Suc (rank (g_autonomy g)) \<and> rank a \<le> rank (ceiling (kinds gid)))
    \<and> \<not> demoted"
proof -
  define g where "g = unwrap_or \<lparr>g_id = gid, g_run = '''', g_kind = kinds gid,
    g_autonomy = seed_autonomy da st, g_history = []\<rparr> (bt_get tr gid)"
  from rec obtain h where h: "ratchet_gate r g = (h, True, demoted, a)" "bt_get tr' gid = Some h"
    by (auto simp: record_gate_def Let_def btm.get_put g_def split: prod.splits)
  let ?g = "g\<lparr>g_history := g_history g @ [\<lparr>he_pass = ratchet_pass r\<rparr>]\<rparr>"
  from h(1) have p: "r = CleanPass" "propose_promotion ?g" "a = next_autonomy ?g" "\<not> demoted"
    "g_autonomy h = g_autonomy g"
    by (auto simp: ratchet_gate_def Let_def auto_demote_def split: gate_ratchet.splits if_splits)
  have kind: "g_kind g = kinds gid"
    and "\<exists>k. g_history g = map (\<lambda>r. \<lparr>he_pass = ratchet_pass r\<rparr>) (drop k (gate_outcomes gid runs)) \<and>
      FlakyPass \<notin> set (drop k (gate_outcomes gid runs))"
    using ratchet_reach_inv [OF reach] by (cases "bt_get tr gid"; auto simp: g_def gate_inv_def)+
  then obtain k0 where k0: "g_history g = map (\<lambda>r. \<lparr>he_pass = ratchet_pass r\<rparr>) (drop k0 (gate_outcomes gid runs))"
    "FlakyPass \<notin> set (drop k0 (gate_outcomes gid runs))" by blast
  have "g_history ?g = [] \<or> g_history ?g = g_history g @ [\<lparr>he_pass = ratchet_pass r\<rparr>] \<and> r \<noteq> FlakyPass"
    using p(1) by simp
  from gate_inv_history [OF k0 this] obtain k where "g_history ?g = map (\<lambda>r. \<lparr>he_pass = ratchet_pass r\<rparr>) (drop k (gate_outcomes gid runs @ [r]))"
    "FlakyPass \<notin> set (drop k (gate_outcomes gid runs @ [r]))"
    by blast
  note hist = this
  let ?os = "gate_outcomes gid runs @ [r]"
  have len: "3 \<le> length (drop k ?os)" and pass: "\<forall>x \<in> set (drop (length (drop k ?os) - 3) (drop k ?os)). ratchet_pass x"
    using p(2) unfolding propose_promotion_def hist(1)
    by (auto simp: list_all_iff drop_map simp del: drop_drop drop_append)
  then have "\<forall>x \<in> set (drop (length ?os - 3) ?os). x = CleanPass"
    using hist(2) drop_suffix_take [OF len] by (metis in_set_dropD ratchet_pass_def)
  moreover have "length (drop (length ?os - 3) ?os) = 3" using len by simp
  ultimately have "drop (length ?os - 3) ?os = replicate 3 CleanPass"
    by (metis replicate_length_same)
  moreover have "3 \<le> length ?os" using len by simp
  ultimately have streak: "3 \<le> length ?os \<and> drop (length ?os - 3) ?os = [CleanPass, CleanPass, CleanPass]"
    by (simp add: numeral_3_eq_3)
  have "rank a = Suc (rank (g_autonomy h)) \<and> rank a \<le> rank (ceiling (kinds gid))"
    using p kind by (cases "g_autonomy g"; cases "g_kind g")
      (auto simp: next_autonomy_def propose_promotion_def Let_def)
  with streak h(2) p(4) show ?thesis by (simp add: Let_def)
qed

theorem promotion_needs_clean_streak_witness:
  "\<exists>tr tr'. ratchet_reach ''manual'' (\<lambda>_. Elevated) [(''t'', CleanPass, ''''), (''t'', CleanPass, '''')] tr \<and>
     record_gate ''manual'' tr ''t'' Elevated CleanPass '''' = (tr', True, False, AutoNotify) \<and>
     (\<exists>g. bt_get tr' ''t'' = Some g \<and> rank AutoNotify = Suc (rank (g_autonomy g)))"
proof -
  let ?t1 = "fst (record_gate ''manual'' [] ''t'' Elevated CleanPass '''')"
  let ?t2 = "fst (record_gate ''manual'' ?t1 ''t'' Elevated CleanPass '''')"
  have r1: "ratchet_reach ''manual'' (\<lambda>_. Elevated) [(''t'', CleanPass, '''')] ?t1"
    using reach_record [OF ratchet_reach.start [of "''manual''" "\<lambda>_. Elevated"], of "''t''" CleanPass "''''"] by simp
  have r2: "ratchet_reach ''manual'' (\<lambda>_. Elevated) [(''t'', CleanPass, ''''), (''t'', CleanPass, '''')] ?t2"
    using reach_record [OF r1, of "''t''" CleanPass "''''"] by simp
  have "snd (record_gate ''manual'' ?t2 ''t'' Elevated CleanPass '''') = (True, False, AutoNotify)" by code_simp
  then obtain tr' where tr': "record_gate ''manual'' ?t2 ''t'' Elevated CleanPass '''' = (tr', True, False, AutoNotify)"
    by (cases "record_gate ''manual'' ?t2 ''t'' Elevated CleanPass ''''") auto
  from promotion_needs_clean_streak [OF r2 tr'] r2 tr' show ?thesis by blast
qed

text \<open>
  A gate is demoted exactly by a believed failure: recording a run after running the gate demotes
  it to manual when the command failed its first run and every rerun and the failure's class is not
  infra, and otherwise leaves its autonomy as it was; so an outage, whatever its reruns give, never
  costs a gate its autonomy.
\<close>

theorem demotion_exactly_on_believed_failure:
  "(case run_gate_with_taxonomy re_match tax g run of (pass, _, r, _) \<Rightarrow>
     g_autonomy (fst (ratchet_gate r h)) =
       (if \<not> pass \<and> fst (classify_gate_failure re_match tax (res_evidence (run 0))) \<noteq> Infra
        then Manual else g_autonomy h))"
proof -
  obtain cls limit b where c: "classify_gate_failure re_match tax (res_evidence (run 0)) = (cls, limit, b)"
    by (metis prod_cases3)
  have "g_autonomy (fst (ratchet_gate r h)) = (if r = FailDemote then Manual else g_autonomy h)" for r
    using ratchet_gate_frame(2) [of r h] by (cases "ratchet_gate r h") auto
  then show ?thesis
    using c by (auto simp: run_gate_with_taxonomy_def Let_def for_persistent_failure_def
        demotes_on_persistent_failure_def reruns_def split: option.splits)
qed

text \<open>
  The seed of a gate is not capped at the ceiling of its kind: an elevated gate first run under the
  default autonomy \<open>silent\<close> is tracked as silent and stays so through every pass, although its kind's
  ceiling is a notifying autonomy.
\<close>

theorem elevated_gate_seeded_silent:
  "\<exists>tr g. ratchet_reach ''silent'' (\<lambda>_. Elevated) [(''t'', CleanPass, '''')] tr \<and>
     bt_get tr ''t'' = Some g \<and> g_kind g = Elevated \<and> g_autonomy g = Silent \<and>
     rank (ceiling (g_kind g)) < rank (g_autonomy g) \<and> decide g = RunSilent"
proof -
  let ?tr = "fst (record_gate ''silent'' [] ''t'' Elevated CleanPass '''')"
  have r: "ratchet_reach ''silent'' (\<lambda>_. Elevated) [(''t'', CleanPass, '''')] ?tr"
    using reach_record [OF ratchet_reach.start [of "''silent''" "\<lambda>_. Elevated"], of "''t''" CleanPass "''''"] by simp
  have "map_option (\<lambda>g. (g_kind g, g_autonomy g)) (bt_get ?tr ''t'') = Some (Elevated, Silent)" by code_simp
  then obtain g where g: "bt_get ?tr ''t'' = Some g" "g_kind g = Elevated" "g_autonomy g = Silent" by auto
  then have "rank (ceiling (g_kind g)) < rank (g_autonomy g) \<and> decide g = RunSilent" by (simp add: decide_def)
  with r g show ?thesis by blast
qed

section \<open>Remediation ends\<close>

lemma failing_attempts_step:
  "a + 1 < mx \<Longrightarrow> failing_attempts a mx = (a + 1) # failing_attempts (a + 1) mx"
  "mx \<le> a + 1 \<Longrightarrow> failing_attempts a mx = [a + 1]"
  by (auto simp: failing_attempts.simps [of a mx] remediate_def Let_def not_le)

text \<open>
  Bounded remediation: a unit that keeps failing is retried on every attempt below its bound and
  escalated at the bound itself, never past it and never later. From \<open>prior\<close> recorded attempts
  below the bound \<open>mx\<close> the recorded counts are \<open>prior + 1\<close> up to \<open>mx\<close>, each once.
\<close>

theorem remediation_escalates_at_bound:
  assumes "prior < mx"
  shows "map unat (failing_attempts prior mx) = [unat prior + 1 ..< unat mx + 1]"
  using assms
proof (induction prior mx rule: failing_attempts.induct)
  case (1 prior mx)
  have s: "unat (prior + 1) = Suc (unat prior)"
    using "1.prems" by (intro unat_plus_one) (auto dest: word_less_max)
  show ?case
  proof (cases "prior + 1 < mx")
    case True
    then have "map unat (failing_attempts (prior + 1) mx) = [unat (prior + 1) + 1 ..< unat mx + 1]"
      using "1.IH" by (simp add: remediate_def Let_def)
    moreover have "Suc (unat prior) < unat mx" using True s by (simp add: word_less_nat_alt)
    ultimately show ?thesis using True s by (simp add: failing_attempts_step upt_rec [of "Suc (unat prior)"])
  next
    case False
    then have "unat mx = Suc (unat prior)" using "1.prems" s by (simp add: word_less_nat_alt)
    with False s show ?thesis by (simp add: failing_attempts_step not_less)
  qed
qed

theorem remediation_escalates_at_bound_witness:
  "map unat (failing_attempts 0 MAX_RETRIES) = [1, 2, 3]"
  using remediation_escalates_at_bound [of 0 MAX_RETRIES] by (simp add: upt_rec)

end
