(* ===== verification/Config.thy ===== *)
theory Config
  imports Spawn_Id Gate
begin

text \<open>
  The declarative surface of the domain crate's \<open>config.rs\<close>: agents, review panels with their
  validation, stages, the workflow and its defaults. The YAML parser is not part of the program, so
  the model starts at the parsed values. A validation message is a value of \<open>panel_error\<close>, one
  constructor per refusal, holding what the text names. The lemmas say what a validated panel
  guarantees: at most one adjudicator step, the last, each agent once per lens step and no step
  separator in an id. The cycle search over the stages is in \<open>Stage_Graph\<close>.
\<close>

section \<open>Agents\<close>

record agent_def =
  ag_id :: string
  ag_model :: string
  ag_model_ladder :: "string list"
  ag_fallback_model :: string
  ag_tools :: "string list"
  ag_isolation :: string
  ag_recurse :: bool
  ag_max_wall_clock :: "u64 option"
  ag_prompt :: string

definition isolated :: "agent_def \<Rightarrow> bool" where
  "isolated a \<longleftrightarrow> \<not> eq_ignore_ascii_case (ag_isolation a) ''none''"

definition model_for_attempt :: "agent_def \<Rightarrow> u32 \<Rightarrow> string" where
  "model_for_attempt a attempt =
     (if ag_model_ladder a = [] then ag_model a
      else ag_model_ladder a ! min (unat attempt) (length (ag_model_ladder a) - 1))"

definition is_fan_out_tool :: "string \<Rightarrow> bool" where
  "is_fan_out_tool tool \<longleftrightarrow> eq_ignore_ascii_case tool ''Agent'' \<or> eq_ignore_ascii_case tool ''Task''"

definition allowed_tools :: "agent_def \<Rightarrow> string list" where
  "allowed_tools a = (if ag_recurse a then ag_tools a else filter (\<lambda>t. \<not> is_fan_out_tool t) (ag_tools a))"

datatype index_error = MissingId string | DuplicateId string

definition index_step ::
  "(string, agent_def) btree \<Rightarrow> string \<times> agent_def \<Rightarrow> index_error + (string, agent_def) btree" where
  "index_step m na =
     (if ag_id (snd na) = '''' then Inl (MissingId (fst na))
      else if bt_get m (ag_id (snd na)) \<noteq> None then Inl (DuplicateId (ag_id (snd na)))
      else Inr (bt_insert (ag_id (snd na)) (snd na) m))"

definition index_agents :: "(string \<times> agent_def) list \<Rightarrow> index_error + (string, agent_def) btree" where
  "index_agents agents = fold_res index_step [] agents"

section \<open>Review steps\<close>

datatype review_step = StepLenses "string list" | StepAdversary string | StepAdjudicator string

fun step_agents :: "review_step \<Rightarrow> string list" where
  "step_agents (StepLenses ids) = ids"
| "step_agents (StepAdversary i) = [i]"
| "step_agents (StepAdjudicator i) = [i]"

fun adjudicator_of :: "review_step \<Rightarrow> string option" where
  "adjudicator_of (StepAdjudicator i) = Some i"
| "adjudicator_of (StepLenses ids) = None"
| "adjudicator_of (StepAdversary i) = None"

fun step_kind :: "review_step \<Rightarrow> review_kind" where
  "step_kind (StepLenses _) = Lens"
| "step_kind (StepAdversary _) = Adversary"
| "step_kind (StepAdjudicator _) = Adjudicator"

fun step_key :: "review_step \<Rightarrow> string" where
  "step_key (StepLenses _) = ''lenses''"
| "step_key (StepAdversary _) = ''adversary''"
| "step_key (StepAdjudicator _) = ''adjudicator''"

definition keyed_steps :: "string list \<Rightarrow> string \<Rightarrow> string \<Rightarrow> review_step list" where
  "keyed_steps lenses adversary adjudicator =
     (if lenses \<noteq> [] then [StepLenses lenses] else []) @
     (if adversary \<noteq> '''' then [StepAdversary adversary] else []) @
     (if adjudicator \<noteq> '''' then [StepAdjudicator adjudicator] else [])"

text \<open>The positions of the adjudicator steps, counted from \<open>i\<close>.\<close>

fun adjudicator_positions :: "nat \<Rightarrow> review_step list \<Rightarrow> nat list" where
  "adjudicator_positions i [] = []"
| "adjudicator_positions i (s # ss) =
     (if adjudicator_of s \<noteq> None then i # adjudicator_positions (Suc i) ss
      else adjudicator_positions (Suc i) ss)"

definition step_keys :: "string list" where
  "step_keys = map step_key (keyed_steps [''''] ''set'' ''set'')"

fun first_seen_from :: "string set \<Rightarrow> string list \<Rightarrow> string list" where
  "first_seen_from seen [] = []"
| "first_seen_from seen (x # xs) =
     (if x \<in> seen then first_seen_from seen xs else x # first_seen_from (insert x seen) xs)"

definition first_seen :: "string list \<Rightarrow> string list" where
  "first_seen ids = first_seen_from {} ids"

definition check_agent_id :: "string \<Rightarrow> bool" where
  "check_agent_id i \<longleftrightarrow> STEP_TOKEN_SEPARATOR \<notin> set i"

record review_step_decl =
  sd_lenses :: "string list"
  sd_adversary :: string
  sd_adjudicator :: string

definition decl_steps :: "review_step_decl \<Rightarrow> review_step list" where
  "decl_steps d = keyed_steps (sd_lenses d) (sd_adversary d) (sd_adjudicator d)"

section \<open>Review panels\<close>

datatype 'p review_depth =
    ReviewDepth (rd_light: 'p) (rd_threshold: nat) (rd_high_risk_paths: "string list")

datatype review_panel =
    ReviewPanel (rp_lenses: "string list") (rp_adversary: string) (rp_adjudicator: string)
      (rp_steps: "review_step_decl list option") (rp_tiers: "review_panel review_depth option")

definition panel_default :: review_panel where
  "panel_default = ReviewPanel [] '''' '''' None None"

definition panel_steps :: "review_panel \<Rightarrow> review_step list" where
  "panel_steps p =
     (case rp_steps p of
        Some entries \<Rightarrow> concat (map decl_steps entries)
      | None \<Rightarrow> keyed_steps (rp_lenses p) (rp_adversary p) (rp_adjudicator p))"

definition panel_is_empty :: "review_panel \<Rightarrow> bool" where
  "panel_is_empty p \<longleftrightarrow> panel_steps p = []"

definition panel_depth :: "review_panel \<Rightarrow> review_panel review_depth option" where
  "panel_depth p = rp_tiers p"

definition has_adjudicator_step :: "review_panel \<Rightarrow> bool" where
  "has_adjudicator_step p \<longleftrightarrow> adjudicator_positions 0 (panel_steps p) \<noteq> []"

definition full_roster :: "review_panel \<Rightarrow> string list" where
  "full_roster p = first_seen (concat (map step_agents (panel_steps p)))"

fun panel_agent_ids :: "review_panel \<Rightarrow> string list" where
  "panel_agent_ids (ReviewPanel l a j s None) = first_seen (full_roster (ReviewPanel l a j s None))"
| "panel_agent_ids (ReviewPanel l a j s (Some (ReviewDepth light t h))) =
     first_seen (full_roster (ReviewPanel l a j s (Some (ReviewDepth light t h))) @ panel_agent_ids light)"

fun gating_agent_ids :: "review_panel \<Rightarrow> string list" where
  "gating_agent_ids (ReviewPanel l a j s None) =
     first_seen (List.map_filter adjudicator_of (panel_steps (ReviewPanel l a j s None)))"
| "gating_agent_ids (ReviewPanel l a j s (Some (ReviewDepth light t h))) =
     first_seen (List.map_filter adjudicator_of
       (panel_steps (ReviewPanel l a j s (Some (ReviewDepth light t h)))) @ gating_agent_ids light)"

datatype panel_error =
    BothForms string "string list"
  | EntryKeys string nat nat
  | NamedTwice string string string
  | SeparatorInId string string string
  | SecondAdjudicator string nat
  | AdjudicatorNotLast string nat

text \<open>The first element that already occurred before it.\<close>

fun first_repeat :: "string set \<Rightarrow> string list \<Rightarrow> string option" where
  "first_repeat seen [] = None"
| "first_repeat seen (x # xs) = (if x \<in> seen then Some x else first_repeat (insert x seen) xs)"

fun bad_entry :: "nat \<Rightarrow> review_step_decl list \<Rightarrow> (nat \<times> nat) option" where
  "bad_entry i [] = None"
| "bad_entry i (d # ds) =
     (if length (decl_steps d) \<noteq> 1 then Some (i, length (decl_steps d)) else bad_entry (Suc i) ds)"

definition step_label :: "review_step_decl list option \<Rightarrow> nat \<Rightarrow> review_step \<Rightarrow> string" where
  "step_label decl i s =
     (case decl of Some _ \<Rightarrow> ''steps['' @ show_nat i @ '']'' | None \<Rightarrow> step_key s)"

fun check_step_agents ::
  "string \<Rightarrow> review_step_decl list option \<Rightarrow> nat \<Rightarrow> review_step list \<Rightarrow> panel_error option" where
  "check_step_agents scope decl i [] = None"
| "check_step_agents scope decl i (s # ss) =
     (case first_repeat {} (step_agents s) of
        Some a \<Rightarrow> Some (NamedTwice scope (step_label decl i s) a)
      | None \<Rightarrow>
          (case find (\<lambda>a. \<not> check_agent_id a) (step_agents s) of
             Some a \<Rightarrow> Some (SeparatorInId scope (step_label decl i s) a)
           | None \<Rightarrow> check_step_agents scope decl (Suc i) ss))"

definition check_adjudicators :: "string \<Rightarrow> review_step list \<Rightarrow> panel_error option" where
  "check_adjudicators scope steps =
     (case adjudicator_positions 0 steps of
        [] \<Rightarrow> None
      | first # second # _ \<Rightarrow> Some (SecondAdjudicator scope second)
      | [first] \<Rightarrow> if first + 1 \<noteq> length steps then Some (AdjudicatorNotLast scope first) else None)"

definition validate_own_steps :: "string \<Rightarrow> review_panel \<Rightarrow> panel_error option" where
  "validate_own_steps scope p =
     (let map_form = keyed_steps (rp_lenses p) (rp_adversary p) (rp_adjudicator p) in
      if rp_steps p \<noteq> None \<and> map_form \<noteq> [] then Some (BothForms scope (map step_key map_form))
      else
        (case (case rp_steps p of None \<Rightarrow> None | Some ds \<Rightarrow> bad_entry 0 ds) of
           Some (i, keys) \<Rightarrow> Some (EntryKeys scope i keys)
         | None \<Rightarrow>
             (case check_step_agents scope (rp_steps p) 0 (panel_steps p) of
                Some e \<Rightarrow> Some e
              | None \<Rightarrow> check_adjudicators scope (panel_steps p))))"

fun validate_steps_under :: "string \<Rightarrow> review_panel \<Rightarrow> panel_error option" where
  "validate_steps_under scope (ReviewPanel l a j s None) = validate_own_steps scope (ReviewPanel l a j s None)"
| "validate_steps_under scope (ReviewPanel l a j s (Some (ReviewDepth light t h))) =
     (case validate_own_steps scope (ReviewPanel l a j s (Some (ReviewDepth light t h))) of
        Some e \<Rightarrow> Some e
      | None \<Rightarrow> validate_steps_under (scope @ ''.tiers.light'') light)"

definition validate_steps :: "review_panel \<Rightarrow> panel_error option" where
  "validate_steps p = validate_steps_under ''review'' p"

datatype depth_error = FullWithoutAdjudicator | LightWithoutAdjudicator

definition validate_depth :: "review_panel \<Rightarrow> depth_error option" where
  "validate_depth p =
     (case panel_depth p of
        None \<Rightarrow> None
      | Some depth \<Rightarrow>
          if \<not> has_adjudicator_step p then Some FullWithoutAdjudicator
          else if \<not> has_adjudicator_step (rd_light depth) then Some LightWithoutAdjudicator
          else None)"

section \<open>Stages and the workflow\<close>

record stage =
  s_name :: string
  s_agent :: string
  s_agents :: "string list"
  s_needs :: "string list"
  s_strategy :: string
  s_partition :: string
  s_gates :: "string list"
  s_adversary :: string
  s_adjudicator :: string
  s_review :: review_panel
  s_autonomy :: string
  s_produces :: string
  s_coverage :: string
  s_on_pass :: string
  s_speculation_width :: u32
  s_max_retries :: u32
  s_baseline :: bool
  s_criterion_id :: string
  s_episode :: string
  s_unmatched_fanout_proposal :: bool

definition stage_default :: stage where
  "stage_default =
     \<lparr>s_name = '''', s_agent = '''', s_agents = [], s_needs = [], s_strategy = '''', s_partition = '''',
      s_gates = [], s_adversary = '''', s_adjudicator = '''', s_review = panel_default, s_autonomy = '''',
      s_produces = '''', s_coverage = '''', s_on_pass = '''', s_speculation_width = 0, s_max_retries = 0,
      s_baseline = False, s_criterion_id = '''', s_episode = '''', s_unmatched_fanout_proposal = False\<rparr>"

definition own_agents :: "stage \<Rightarrow> (string \<times> string) list" where
  "own_agents st =
     (if s_agent st \<noteq> '''' then [(''agent'', s_agent st)] else []) @
     map (\<lambda>i. (''agents'', i)) (s_agents st) @
     (if s_adversary st \<noteq> '''' then [(''adversary'', s_adversary st)] else []) @
     (if s_adjudicator st \<noteq> '''' then [(''adjudicator'', s_adjudicator st)] else [])"

definition stage_agent_ids :: "stage \<Rightarrow> string list" where
  "stage_agent_ids st = map snd (own_agents st) @ panel_agent_ids (s_review st)"

definition validate_agent_ids :: "stage \<Rightarrow> (string \<times> string) option" where
  "validate_agent_ids st = find (\<lambda>(_, i). \<not> check_agent_id i) (own_agents st)"

definition push_reviewers :: "string list \<Rightarrow> string \<Rightarrow> string \<Rightarrow> string list" where
  "push_reviewers ids adversary adjudicator =
     ids @ concat (map step_agents (keyed_steps [] adversary adjudicator))"

record match_def =
  md_exit_status :: "int option"
  md_signal :: "int option"
  md_output_regex :: "string option"

record failure_rule_def =
  frd_match :: match_def
  frd_class :: string
  frd_limit :: u32
  frd_backoff :: backoff

record defaults =
  d_autonomy :: string
  d_grounder :: string
  d_review :: review_panel
  d_budget :: u32
  d_max_retries :: u32
  d_speculation_width :: u32
  d_max_parallel_units :: u32
  d_max_wall_clock :: u64
  d_partition :: string
  d_workdir :: string
  d_failure_rules :: "failure_rule_def list"

record workflow =
  w_dash :: string
  w_defaults :: defaults
  w_stages :: "(string, stage) btree"

definition effective_review_panel :: "workflow \<Rightarrow> stage \<Rightarrow> review_panel" where
  "effective_review_panel w st =
     (if panel_is_empty (s_review st) then d_review (w_defaults w) else s_review st)"

definition dash_enabled :: "workflow \<Rightarrow> bool" where
  "dash_enabled w \<longleftrightarrow> map to_ascii_lower (trim (w_dash w)) \<notin> {''off'', ''false'', ''no''}"

datatype rule_error = UnknownClass string | BadRegex string

text \<open>\<open>FailureRuleDef::to_rule\<close>: whether a pattern compiles is the regular-expression crate's to say,
  and whether the factor is a positive \<open>f64\<close> is the argument \<open>positive\<close>.\<close>

definition to_rule :: "(string \<Rightarrow> bool) \<Rightarrow> (u64 \<Rightarrow> bool) \<Rightarrow> failure_rule_def \<Rightarrow> rule_error + failure_rule" where
  "to_rule compiles positive d =
     bind_res (ok_or (UnknownClass (frd_class d)) (class_parse (frd_class d))) (\<lambda>cls.
       bind_res (case md_output_regex (frd_match d) of
                   Some pat \<Rightarrow> if compiles pat then Inr (Some pat) else Inl (BadRegex pat)
                 | None \<Rightarrow> Inr None) (\<lambda>re. Inr
         \<lparr>fr_matcher = \<lparr>m_exit_status = md_exit_status (frd_match d), m_signal = md_signal (frd_match d),
             m_output_regex = re\<rparr>,
          fr_class = cls, fr_limit = frd_limit d,
          fr_backoff = (if positive (bo_factor (frd_backoff d)) then frd_backoff d
                        else (frd_backoff d)\<lparr>bo_factor := F64_ONE\<rparr>)\<rparr>))"

definition failure_taxonomy :: "(string \<Rightarrow> bool) \<Rightarrow> (u64 \<Rightarrow> bool) \<Rightarrow> workflow \<Rightarrow> rule_error + taxonomy" where
  "failure_taxonomy compiles positive w =
     (if d_failure_rules (w_defaults w) = [] then Inr taxonomy_default
      else collect_res (map (to_rule compiles positive) (d_failure_rules (w_defaults w))))"

definition resolve_wall_clocks :: "defaults \<Rightarrow> (string, agent_def) btree \<Rightarrow> (string, agent_def) btree" where
  "resolve_wall_clocks d agents =
     (if d_max_wall_clock d = 0 then agents
      else map (\<lambda>(k, a). (k, if ag_max_wall_clock a = None
                              then a\<lparr>ag_max_wall_clock := Some (d_max_wall_clock d)\<rparr> else a)) agents)"

section \<open>Frontmatter\<close>

datatype frontmatter_error = MissingFrontmatter | UnterminatedFrontmatter

text \<open>\<open>str::find\<close> at the first occurrence, with the text around it.\<close>

fun find_split :: "string \<Rightarrow> string \<Rightarrow> (string \<times> string) option" where
  "find_split p [] = (if p = [] then Some ([], []) else None)"
| "find_split p (x # xs) =
     (case strip_prefix p (x # xs) of Some r \<Rightarrow> Some ([], r)
      | None \<Rightarrow> (case find_split p xs of None \<Rightarrow> None | Some (a, b) \<Rightarrow> Some (x # a, b)))"

definition strip_newline :: "string \<Rightarrow> string" where
  "strip_newline s = unwrap_or s (strip_prefix [CHR 0x0A] s)"

definition split_frontmatter :: "string \<Rightarrow> frontmatter_error + string \<times> string" where
  "split_frontmatter s =
     bind_res (ok_or MissingFrontmatter (strip_prefix ''---'' s)) (\<lambda>rest.
       bind_res (ok_or UnterminatedFrontmatter (find_split (CHR 0x0A # ''---'') (strip_newline rest)))
         (\<lambda>(front, after). Inr (front, strip_newline after)))"

end
