(* ===== verification/Playbooks.thy ===== *)
theory Playbooks
  imports Demo
begin

text \<open>
  The stable hash of \<open>playbooks.rs\<close> with its hexadecimal printing, the readers of a record's reference
  in \<open>contextgraph/query.rs\<close> (\<open>split_id\<close>, \<open>file_of\<close>, \<open>sans_line_span\<close>, \<open>referenced_id\<close>), and the
  playbook distiller, which folds the lessons of a log into one playbook per lesson text. The
  theorems: citing lines of a file is a reference to the file, and the pool has exactly one playbook
  per recorded text with the union of its lessons' files and their count.
\<close>

unbundle bit_operations_syntax

section \<open>The hash\<close>

abbreviation "FNV_OFFSET \<equiv> (0xcbf29ce484222325 :: u64)"
abbreviation "FNV_PRIME \<equiv> (0x00000100000001b3 :: u64)"

definition fnv1a_64 :: "bytes \<Rightarrow> u64" where
  "fnv1a_64 bs = foldl (\<lambda>hash b. (hash XOR of_nat (byte_of b)) * FNV_PRIME) FNV_OFFSET bs"

definition hex_digit :: "nat \<Rightarrow> char" where
  "hex_digit d = (if d < 10 then char_of (48 + d) else char_of (87 + d))"

text \<open>The format \<open>{:016x}\<close>.\<close>

definition hex16 :: "u64 \<Rightarrow> string" where
  "hex16 w = map (\<lambda>i. hex_digit (unat w div 16 ^ i mod 16)) (rev [0..<16])"

section \<open>References\<close>

text \<open>\<open>split_once\<close> at a string.\<close>

fun split_once_str :: "string \<Rightarrow> string \<Rightarrow> (string \<times> string) option" where
  "split_once_str p [] = (if p = [] then Some ([], []) else None)"
| "split_once_str p (x # xs) =
     (case strip_prefix p (x # xs) of Some r \<Rightarrow> Some ([], r)
      | None \<Rightarrow> (case split_once_str p xs of None \<Rightarrow> None | Some (a, b) \<Rightarrow> Some (x # a, b)))"

definition split_id :: "string \<Rightarrow> string \<times> string option" where
  "split_id i = (case split_once_str ''::'' i of Some (file, rest) \<Rightarrow> (file, Some rest) | None \<Rightarrow> (i, None))"

definition file_of :: "string \<Rightarrow> string option" where
  "file_of i =
     (let file0 = fst (split_id i);
          file = (case split_once (CHR ''#'') file0 of None \<Rightarrow> file0 | Some (f, _) \<Rightarrow> f);
          last_segment = (case rsplit_once (CHR ''/'') file of None \<Rightarrow> file | Some (_, seg) \<Rightarrow> seg);
          names_a_file = (case rsplit_once (CHR ''.'') last_segment of None \<Rightarrow> False
                          | Some (stem, ext) \<Rightarrow> stem \<noteq> [] \<and> ext \<noteq> [])
      in if names_a_file then Some file else None)"

definition is_line_number :: "string \<Rightarrow> bool" where
  "is_line_number n \<longleftrightarrow> n \<noteq> [] \<and> list_all is_ascii_digit n"

definition is_line_span :: "string \<Rightarrow> bool" where
  "is_line_span s =
     (case split_once (CHR ''-'') s of
        None \<Rightarrow> is_line_number s | Some (from, to) \<Rightarrow> is_line_number from \<and> is_line_number to)"

definition sans_line_span :: "string \<Rightarrow> string" where
  "sans_line_span path =
     (case rsplit_once (CHR '':'') path of
        Some (file, span) \<Rightarrow> if is_line_span span then file else path
      | None \<Rightarrow> path)"

definition referenced_id :: "string \<Rightarrow> string" where
  "referenced_id reference =
     (let path = sans_line_span reference
      in if file_of path = Some path \<and> CHR '':'' \<notin> set path then path else reference)"

section \<open>The distiller\<close>

record playbook =
  pb_id :: string
  pb_summary :: string
  pb_triggers :: "string list"
  pb_lessons :: nat

definition lesson_files :: "lesson_event \<Rightarrow> string list" where
  "lesson_files l = filter (\<lambda>f. f \<noteq> []) (map (\<lambda>f. referenced_id (trim f)) (le_about l))"

definition distill_step ::
  "codec \<Rightarrow> (string, string bset \<times> nat) btree \<Rightarrow> event \<Rightarrow> (string, string bset \<times> nat) btree" where
  "distill_step D folded e =
     (if ev_type e \<noteq> TYPE_LESSON_LEARNED then folded
      else
        (case de_lesson D (ev_data e) of
           Inl _ \<Rightarrow> folded
         | Inr l \<Rightarrow>
             let summary = trim (le_summary l) in
             if summary = [] then folded
             else
               (let entry = unwrap_or ([], 0) (bt_get folded summary)
                in bt_insert summary
                     (foldl (\<lambda>s f. bs_insert f s) (fst entry) (lesson_files l), snd entry + 1) folded)))"

definition distill :: "codec \<Rightarrow> event list \<Rightarrow> playbook list" where
  "distill D es =
     map (\<lambda>(summary, (triggers, lessons)).
            \<lparr>pb_id = ''playbook-'' @ hex16 (fnv1a_64 summary), pb_summary = summary,
             pb_triggers = triggers, pb_lessons = lessons\<rparr>)
       (foldl (distill_step D) [] es)"

section \<open>A line citation names its file\<close>

lemma digits_no_dash: "list_all is_ascii_digit n \<Longrightarrow> CHR ''-'' \<notin> set n \<and> CHR '':'' \<notin> set n"
  by (auto simp: list_all_iff is_ascii_digit_def byte_of_def)

lemma sans_line_span_citation:
  assumes "is_line_span span" shows "sans_line_span (path @ CHR '':'' # span) = path"
proof -
  have "CHR '':'' \<notin> set span"
    using assms
    by (auto simp: is_line_span_def is_line_number_def dest: digits_no_dash dest!: split_once_SomeD
        split: option.splits)
  then show ?thesis using assms by (simp add: sans_line_span_def rsplit_once_append)
qed

lemma line_span_number: "is_line_number n \<Longrightarrow> is_line_span n"
  using digits_no_dash [of n] by (simp add: is_line_span_def is_line_number_def split_once_absent)

lemma line_span_range: "is_line_number a \<Longrightarrow> is_line_number b \<Longrightarrow> is_line_span (a @ CHR ''-'' # b)"
  using digits_no_dash [of a] by (simp add: is_line_span_def is_line_number_def split_once_append)

lemma show_nat_line_number: "is_line_number (show_nat n)"
  by (auto simp: is_line_number_def list_all_iff show_nat_digits)

text \<open>
  Citing a file names the file: a reference to a line or to a span of lines of a plain file path
  reads as the path, and so does the path itself.
\<close>

theorem referenced_id_citation:
  assumes "file_of path = Some path" "CHR '':'' \<notin> set path"
  shows "referenced_id path = path
    \<and> referenced_id (path @ '':'' @ show_nat line) = path
    \<and> referenced_id (path @ '':'' @ show_nat line @ ''-'' @ show_nat to_line) = path"
proof -
  have "sans_line_span path = path" using assms(2) by (simp add: sans_line_span_def rsplit_once_absent)
  moreover have "sans_line_span (path @ CHR '':'' # show_nat line) = path"
    by (rule sans_line_span_citation) (rule line_span_number [OF show_nat_line_number])
  moreover have "sans_line_span (path @ CHR '':'' # (show_nat line @ CHR ''-'' # show_nat to_line)) = path"
    by (rule sans_line_span_citation) (intro line_span_range show_nat_line_number)
  ultimately show ?thesis using assms by (simp add: referenced_id_def Let_def)
qed

theorem referenced_id_citation_witness:
  "referenced_id (''tests/x.rs'' @ '':'' @ show_nat 12 @ ''-'' @ show_nat 20) = ''tests/x.rs''"
proof -
  have f: "file_of ''tests/x.rs'' = Some ''tests/x.rs''" by code_simp
  have "CHR '':'' \<notin> set ''tests/x.rs''" by simp
  from referenced_id_citation [OF f this, of 12 20] show ?thesis by (elim conjE)
qed

section \<open>The pool\<close>

text \<open>The lessons a log holds that fold into a playbook, with their trimmed text.\<close>

definition lessons_of :: "codec \<Rightarrow> event list \<Rightarrow> (string \<times> lesson_event) list" where
  "lessons_of D es =
     filter (\<lambda>(s, _). s \<noteq> [])
       (map (\<lambda>l. (trim (le_summary l), l))
         (List.map_filter (\<lambda>e. res_ok (de_lesson D (ev_data e)))
           (filter (\<lambda>e. ev_type e = TYPE_LESSON_LEARNED) es)))"

definition pool_entry :: "(string \<times> lesson_event) list \<Rightarrow> string \<Rightarrow> (string bset \<times> nat) option" where
  "pool_entry ls s =
     (let mine = map snd (filter (\<lambda>(t, _). t = s) ls)
      in if mine = [] then None else Some (bs_collect (concat (map lesson_files mine)), length mine))"

lemma bs_collect_append: "bs_collect (xs @ ys) = foldl (\<lambda>s x. bs_insert x s) (bs_collect xs) ys"
  by (simp add: bs_collect_def)

lemma lessons_of_snoc:
  "lessons_of D (es @ [e]) = lessons_of D es @
     (if ev_type e = TYPE_LESSON_LEARNED then
        (case de_lesson D (ev_data e) of Inl _ \<Rightarrow> []
         | Inr l \<Rightarrow> if trim (le_summary l) = [] then [] else [(trim (le_summary l), l)]) else [])"
  by (auto simp: lessons_of_def map_filter_simps map_filter_def split: sum.splits)

lemma distill_fold:
  "bt_wf (foldl (distill_step D) [] es) \<and>
   (\<forall>s. bt_get (foldl (distill_step D) [] es) s = pool_entry (lessons_of D es) s)"
proof (induction es rule: rev_induct)
  case Nil
  then show ?case by (simp add: btm.get_empty pool_entry_def lessons_of_def map_filter_simps)
next
  case (snoc e es)
  let ?m = "foldl (distill_step D) [] es"
  have same: "distill_step D ?m e = ?m \<and> lessons_of D (es @ [e]) = lessons_of D es \<or>
    (\<exists>l. distill_step D ?m e = bt_insert (trim (le_summary l))
        (foldl (\<lambda>s f. bs_insert f s) (fst (unwrap_or ([], 0) (bt_get ?m (trim (le_summary l))))) (lesson_files l),
         snd (unwrap_or ([], 0) (bt_get ?m (trim (le_summary l)))) + 1) ?m \<and>
       lessons_of D (es @ [e]) = lessons_of D es @ [(trim (le_summary l), l)])"
    (is "_ \<or> (\<exists>l. ?new l)")
    by (auto simp: distill_step_def lessons_of_snoc Let_def split: sum.splits)
  then show ?case
  proof
    assume "distill_step D ?m e = ?m \<and> lessons_of D (es @ [e]) = lessons_of D es"
    with snoc show ?thesis by simp
  next
    assume "\<exists>l. ?new l"
    then obtain l where l: "?new l" ..
    have "pool_entry (lessons_of D es @ [(t, l)]) s =
      (if s = t then Some (foldl (\<lambda>s f. bs_insert f s) (fst (unwrap_or ([], 0) (pool_entry (lessons_of D es) t)))
          (lesson_files l), snd (unwrap_or ([], 0) (pool_entry (lessons_of D es) t)) + 1)
       else pool_entry (lessons_of D es) s)" for s t
      by (auto simp: pool_entry_def Let_def bs_collect_append bs_collect_def)
    with l snoc show ?thesis by (simp add: btm.get_put bt_wf_insert)
  qed
qed

text \<open>
  The playbook pool is the log's lessons, deduplicated: the pool is in ascending order of the
  lesson text, holds exactly the non-empty trimmed texts the log's readable lessons carry, each once,
  with as many lessons as carry it and the ordered set of the files those lessons are about.
\<close>

theorem distill_pool:
  "sorted_wrt (<) (map pb_summary (distill D es)) \<and>
   set (map pb_summary (distill D es)) = fst ` set (lessons_of D es) \<and>
   list_all (\<lambda>p. pool_entry (lessons_of D es) (pb_summary p) = Some (pb_triggers p, pb_lessons p)
       \<and> pb_id p = ''playbook-'' @ hex16 (fnv1a_64 (pb_summary p))) (distill D es)"
proof -
  let ?m = "foldl (distill_step D) [] es"
  note wf = distill_fold [THEN conjunct1, of D es] and get = distill_fold [THEN conjunct2, rule_format, of D es]
  have keys: "map pb_summary (distill D es) = bt_keys ?m"
    by (auto simp: distill_def bt_keys_def split: prod.splits)
  have "sorted_wrt (<) (bt_keys ?m)" using wf by (rule btm.keys_sorted)
  moreover have "set (bt_keys ?m) = fst ` set (lessons_of D es)"
    unfolding btm.keys_get get by (force simp: pool_entry_def Let_def filter_empty_conv)
  moreover have "list_all (\<lambda>p. pool_entry (lessons_of D es) (pb_summary p) = Some (pb_triggers p, pb_lessons p)
       \<and> pb_id p = ''playbook-'' @ hex16 (fnv1a_64 (pb_summary p))) (distill D es)"
    using bt_get_mem [OF wf] get by (auto simp: distill_def list_all_iff)
  ultimately show ?thesis unfolding keys by blast
qed

end
