(* ===== verification/Review.thy ===== *)
theory Review
  imports Spawn Config Playbooks
begin

text \<open>
  The review logic of \<open>review.rs\<close>: the glob translation and the risk-tiered routing, the fail-closed
  reading of a verdict line, the review rosters, and the spec critique with its record, the union of
  every pass. The regular-expression engine is the argument \<open>re_match\<close> (a pattern that does not
  compile matches nothing). The theorems: a validated policy routes every unit to a panel with a
  gating step, and to the light one only below every risk signal; a validated panel's reviewers have
  pairwise distinct role tokens; and a critique's finding ids are pairwise distinct.
\<close>

section \<open>Routing\<close>

fun glob_body :: "string \<Rightarrow> string" where
  "glob_body [] = []"
| "glob_body (c # cs) =
     (if c = CHR ''*'' then
        (case cs of
           (d # ds) \<Rightarrow>
             if d = CHR ''*'' then
               ''.*'' @ (case ds of (e # es) \<Rightarrow> if e = CHR ''/'' then glob_body es else glob_body ds | [] \<Rightarrow> [])
             else ''[^/]*'' @ glob_body cs
         | [] \<Rightarrow> ''[^/]*'')
      else if c = CHR ''?'' then ''[^/]'' @ glob_body cs
      else if c \<in> set (''.+()|[]{}^$'' @ [CHR 0x5C]) then CHR 0x5C # c # glob_body cs
      else c # glob_body cs)"

definition glob_regex :: "string \<Rightarrow> string" where
  "glob_regex pattern = ''^'' @ glob_body pattern @ ''$''"

definition glob_matches :: "(string \<Rightarrow> string \<Rightarrow> bool) \<Rightarrow> string \<Rightarrow> string \<Rightarrow> bool" where
  "glob_matches re_match pattern path \<longleftrightarrow> re_match (glob_regex pattern) path"

definition path_is_high_risk :: "(string \<Rightarrow> string \<Rightarrow> bool) \<Rightarrow> string \<Rightarrow> string \<Rightarrow> bool" where
  "path_is_high_risk re_match pattern file \<longleftrightarrow> starts_with file pattern \<or> glob_matches re_match pattern file"

abbreviation "TIER_LIGHT \<equiv> ''light''"
abbreviation "TIER_FULL \<equiv> ''full''"

record tier_routing =
  tr_panel :: review_panel
  tr_tier :: string
  tr_blast_radius :: nat
  tr_threshold :: nat
  tr_high_risk_hit :: "string option"
  tr_empty_radius :: bool
  tr_flapped :: bool
  tr_policy :: bool

definition route_review_tier ::
  "(string \<Rightarrow> string \<Rightarrow> bool) \<Rightarrow> review_panel \<Rightarrow> string list \<Rightarrow> bool \<Rightarrow> tier_routing" where
  "route_review_tier re_match full blast_radius flapped =
     (case panel_depth full of
        None \<Rightarrow>
          \<lparr>tr_panel = full, tr_tier = TIER_FULL, tr_blast_radius = length blast_radius, tr_threshold = 0,
           tr_high_risk_hit = None, tr_empty_radius = (blast_radius = []), tr_flapped = flapped,
           tr_policy = False\<rparr>
      | Some depth \<Rightarrow>
          let high_risk_hit = find (\<lambda>f. list_ex (\<lambda>p. path_is_high_risk re_match p f) (rd_high_risk_paths depth)) blast_radius;
              over_threshold = length blast_radius > rd_threshold depth;
              empty_radius = (blast_radius = []);
              full_panel = (empty_radius \<or> high_risk_hit \<noteq> None \<or> over_threshold \<or> flapped)
          in \<lparr>tr_panel = (if full_panel then full else rd_light depth),
              tr_tier = (if full_panel then TIER_FULL else TIER_LIGHT),
              tr_blast_radius = length blast_radius, tr_threshold = rd_threshold depth,
              tr_high_risk_hit = high_risk_hit, tr_empty_radius = empty_radius, tr_flapped = flapped,
              tr_policy = True\<rparr>)"

section \<open>Verdicts\<close>

abbreviation "VERDICT_APPROVE \<equiv> ''approve''"
abbreviation "VERDICT_REJECT \<equiv> ''reject''"

definition line_field :: "codec \<Rightarrow> string \<Rightarrow> string \<Rightarrow> string option" where
  "line_field D key line =
     Option.bind (res_ok (de_value D (trim line))) (\<lambda>v. Option.bind (value_get v key) as_str)"

definition last_verdict :: "codec \<Rightarrow> string \<Rightarrow> string option" where
  "last_verdict D output = find_map (line_field D ''verdict'') (rev (lines output))"

definition verdict_approves :: "codec \<Rightarrow> string \<Rightarrow> bool" where
  "verdict_approves D output \<longleftrightarrow>
     (case last_verdict D output of None \<Rightarrow> False | Some v \<Rightarrow> eq_ignore_ascii_case v VERDICT_APPROVE)"

definition has_verdict_line :: "codec \<Rightarrow> string \<Rightarrow> bool" where
  "has_verdict_line D output \<longleftrightarrow> last_verdict D output \<noteq> None"

definition verdict_compensates :: "codec \<Rightarrow> string \<Rightarrow> string option" where
  "verdict_compensates D output =
     find_map (\<lambda>line. opt_filter (\<lambda>t. t \<noteq> []) (map_option trim (line_field D ''compensate'' line)))
       (rev (lines output))"

section \<open>Rosters\<close>

definition step_ordinal :: "review_step list \<Rightarrow> nat \<Rightarrow> u32" where
  "step_ordinal steps index =
     of_nat (length (filter (\<lambda>s. step_kind s = step_kind (steps ! index)) (take index steps))) + 1"

definition step_tokens :: "(review_kind \<Rightarrow> string \<Rightarrow> u32 \<Rightarrow> string) \<Rightarrow> review_step list \<Rightarrow> nat \<Rightarrow> string list" where
  "step_tokens mint steps i =
     map (\<lambda>agent. mint (step_kind (steps ! i)) agent (step_ordinal steps i)) (step_agents (steps ! i))"

definition step_roster ::
  "review_step list \<Rightarrow> nat \<Rightarrow> (review_kind \<Rightarrow> string \<Rightarrow> u32 \<Rightarrow> string) \<Rightarrow> string list" where
  "step_roster steps index mint =
     (if index < length steps \<and> step_kind (steps ! index) = Lens then []
      else concat (map (step_tokens mint steps) [0..<min index (length steps)]))"

definition step_adjudicator :: "review_step list \<Rightarrow> string option" where
  "step_adjudicator steps = find_map adjudicator_of steps"

definition adjudicator_roster :: "string list \<Rightarrow> string \<Rightarrow> string list" where
  "adjudicator_roster lenses adversary_id =
     (let steps = panel_steps (ReviewPanel lenses adversary_id '''' None None)
      in step_roster steps (length steps) review_step_role)"

definition review_roster :: "string list \<Rightarrow> string list" where
  "review_roster lenses = adjudicator_roster lenses ''''"

section \<open>The spec critique\<close>

definition critique_hash :: "string \<Rightarrow> string" where
  "critique_hash text = hex16 (fnv1a_64 text)"

definition critique_unit :: "string \<Rightarrow> string" where
  "critique_unit hash = ''critique-'' @ hash"

definition critique_spawn_id :: "string \<Rightarrow> u32 \<Rightarrow> string" where
  "critique_spawn_id hash attempt = spawn_id (critique_unit hash) ROLE_ADVERSARY attempt"

definition is_critique_run :: "string \<Rightarrow> bool" where
  "is_critique_run name \<longleftrightarrow>
     (case strip_prefix ''critique-'' name of
        None \<Rightarrow> False
      | Some hash \<Rightarrow> length hash = 16 \<and>
          list_all (\<lambda>b. is_ascii_digit b \<or> (97 \<le> byte_of b \<and> byte_of b \<le> 102)) hash)"

definition critique_attempt :: "string \<Rightarrow> string \<Rightarrow> u32 option" where
  "critique_attempt sid hash =
     (let attempt = attempt_of sid
      in if critique_spawn_id hash attempt = sid then Some attempt else None)"

record critique_finding =
  cf_id :: string
  cf_blocking :: bool
  cf_critic :: string
  cf_location :: string
  cf_reading :: string
  cf_fix :: string

definition finding_summary :: "critique_finding \<Rightarrow> string" where
  "finding_summary f =
     (if cf_blocking f then ''BLOCKING'' else ''NON-BLOCKING'') @ '' | '' @ cf_location f @ '' | '' @
     cf_reading f @ '' | '' @ cf_fix f"

definition strip_last :: "char \<Rightarrow> string \<Rightarrow> string" where
  "strip_last c s = (if s \<noteq> [] \<and> last s = c then butlast s else s)"

definition finding_id :: "string \<Rightarrow> u32 \<Rightarrow> nat \<Rightarrow> string" where
  "finding_id hash attempt k = ''sc-'' @ hash @ ''-'' @ show_u32 attempt @ ''-'' @ show_nat k"

text \<open>One line of a critic's output, at the position its finding takes in the record.\<close>

definition finding_line :: "string \<Rightarrow> u32 \<Rightarrow> nat \<Rightarrow> string \<Rightarrow> critique_finding option" where
  "finding_line hash attempt k line0 =
     (let line1 = trim line0;
          line = strip_last (CHR ''|'') (unwrap_or line1 (strip_prefix ''|'' line1));
          fields = split_on (CHR ''|'') line
      in if length fields < 5 then None
         else if trim (fields ! 1) \<noteq> ''BLOCKING'' \<and> trim (fields ! 1) \<noteq> ''NON-BLOCKING'' then None
         else Some
           \<lparr>cf_id = finding_id hash attempt k, cf_blocking = (trim (fields ! 1) = ''BLOCKING''),
            cf_critic = trim (fields ! 0), cf_location = trim (fields ! 2), cf_reading = trim (fields ! 3),
            cf_fix = trim (join ''|'' (drop 4 fields))\<rparr>)"

fun findings_from :: "string \<Rightarrow> u32 \<Rightarrow> critique_finding list \<Rightarrow> string list \<Rightarrow> critique_finding list" where
  "findings_from hash attempt found [] = found"
| "findings_from hash attempt found (l # ls) =
     (case finding_line hash attempt (length found + 1) l of
        None \<Rightarrow> findings_from hash attempt found ls
      | Some f \<Rightarrow> findings_from hash attempt (found @ [f]) ls)"

definition critique_findings :: "string \<Rightarrow> string \<Rightarrow> u32 \<Rightarrow> critique_finding list" where
  "critique_findings output hash attempt = findings_from hash attempt [] (lines output)"

record critique_pass =
  cp_position :: position
  cp_attempt :: u32
  cp_verdict :: string
  cp_findings :: "critique_finding list"

record critique =
  cr_passes :: "critique_pass list"

definition cr_findings :: "critique \<Rightarrow> critique_finding list" where
  "cr_findings c = concat (map cp_findings (cr_passes c))"

definition holds_blocking :: "critique_finding list \<Rightarrow> bool" where
  "holds_blocking fs \<longleftrightarrow> list_ex cf_blocking fs"

definition critique_verdict :: "critique \<Rightarrow> string" where
  "critique_verdict c = (if holds_blocking (cr_findings c) then VERDICT_REJECT else VERDICT_APPROVE)"

definition exhausted :: "critique \<Rightarrow> bool" where
  "exhausted c \<longleftrightarrow> list_ex (\<lambda>p. cp_findings p = []) (cr_passes c)"

datatype critique_refusal =
    UnreadableResult json_error
  | NotACritiqueSpawn string string
  | SpawnFailed string
  | NoVerdictLine
  | RejectWithoutBlocking string

definition judged ::
  "codec \<Rightarrow> spawn_result \<Rightarrow> string \<Rightarrow> critique_refusal + u32 \<times> string \<times> critique_finding list" where
  "judged D result hash =
     bind_res (ok_or (NotACritiqueSpawn (sr_id result) hash) (critique_attempt (sr_id result) hash)) (\<lambda>attempt.
       if sr_error result \<noteq> [] then Inl (SpawnFailed (sr_error result))
       else
         bind_res (ok_or NoVerdictLine (last_verdict D (sr_output result))) (\<lambda>verdict.
           let findings = critique_findings (sr_output result) hash attempt
           in if \<not> verdict_approves D (sr_output result) \<and> \<not> holds_blocking findings
              then Inl (RejectWithoutBlocking verdict)
              else Inr (attempt, verdict, findings)))"

definition critique_of :: "codec \<Rightarrow> event \<Rightarrow> string \<Rightarrow> critique_refusal + critique_pass" where
  "critique_of D e hash =
     (case result_from_event D e of
        Inl err \<Rightarrow> Inl (UnreadableResult err)
      | Inr result \<Rightarrow>
          bind_res (judged D result hash) (\<lambda>(attempt, verdict, findings). Inr
            \<lparr>cp_position = ev_position e, cp_attempt = attempt, cp_verdict = verdict, cp_findings = findings\<rparr>))"

definition passes :: "codec \<Rightarrow> event list \<Rightarrow> string \<Rightarrow> (u32, critique_pass) btree" where
  "passes D results hash =
     bt_collect (map (\<lambda>p. (cp_attempt p, p))
       (List.map_filter (\<lambda>e. res_ok (critique_of D e hash)) (bt_values (latest_results_lenient D results))))"

text \<open>What the critique's store answers: \<open>results\<close> is its typed read of the \<open>SpawnResult\<close> events of the
  run stream, or the store's error.\<close>

definition read_critique :: "codec \<Rightarrow> 'e + event list \<Rightarrow> string \<Rightarrow> 'e + critique option" where
  "read_critique D results hash =
     bind_res results (\<lambda>es.
       let recorded = bt_values (passes D es hash)
       in Inr (if recorded \<noteq> [] then Some \<lparr>cr_passes = recorded\<rparr> else None))"

datatype no_critique = RefusedBy critique_refusal | UnreadableStream json_error

definition why_no_critique :: "codec \<Rightarrow> event list \<Rightarrow> string \<Rightarrow> u32 \<Rightarrow> no_critique option" where
  "why_no_critique D results hash attempt =
     (case result_of D results (critique_spawn_id hash attempt) of
        Inr result \<Rightarrow>
          Option.bind result (\<lambda>r. case judged D r hash of Inl e \<Rightarrow> Some (RefusedBy e) | Inr _ \<Rightarrow> None)
      | Inl e \<Rightarrow> Some (UnreadableStream e))"

definition read_spawned_critique ::
  "codec \<Rightarrow> 'e + event list \<Rightarrow> string \<Rightarrow> u32 \<Rightarrow> 'e + (no_critique option + critique_pass)" where
  "read_spawned_critique D results hash attempt =
     bind_res results (\<lambda>es. Inr (ok_or (why_no_critique D es hash attempt) (bt_get (passes D es hash) attempt)))"

definition critique_requests :: "codec \<Rightarrow> event list \<Rightarrow> string \<Rightarrow> json_error + u32" where
  "critique_requests D es hash =
     bind_res (requests D es) (\<lambda>rs. Inr
       (foldl (\<lambda>n r. if critique_attempt (sq_id r) hash \<noteq> None then n + 1 else n) 0 rs))"

section \<open>Spec paths and open findings\<close>

text \<open>The components of a path that \<open>lexical_parts\<close> reads: the pieces between slashes without the empty
  and the dot ones.\<close>

fun lexical_from :: "string list \<Rightarrow> string list \<Rightarrow> string list option" where
  "lexical_from parts [] = Some parts"
| "lexical_from parts (c # cs) =
     (if c = [] \<or> c = ''.'' then lexical_from parts cs
      else if c = ''..'' then (if parts = [] then None else lexical_from (butlast parts) cs)
      else lexical_from (parts @ [c]) cs)"

definition lexical_parts :: "string \<Rightarrow> string list option" where
  "lexical_parts path = lexical_from [] (split_on (CHR ''/'') path)"

fun strip_parts :: "string list \<Rightarrow> string list \<Rightarrow> string list option" where
  "strip_parts [] ps = Some ps"
| "strip_parts (r # rs) [] = None"
| "strip_parts (r # rs) (p # ps) = (if r = p then strip_parts rs ps else None)"

definition normalize_spec_path :: "string \<Rightarrow> string \<Rightarrow> string option" where
  "normalize_spec_path root path =
     Option.bind (lexical_parts path) (\<lambda>parts.
       Option.bind (if starts_with path ''/''
                    then Option.bind (lexical_parts root) (\<lambda>rs. strip_parts rs parts)
                    else Some parts) (\<lambda>relative. Some (join ''/'' relative)))"

definition string_entries :: "json option \<Rightarrow> string list" where
  "string_entries v = (case Option.bind v as_array of None \<Rightarrow> [] | Some xs \<Rightarrow> List.map_filter as_str xs)"

definition resolutions :: "codec \<Rightarrow> event list \<Rightarrow> string \<Rightarrow> string \<Rightarrow> (position \<times> string) list" where
  "resolutions D decisions spec root =
     concat (map (\<lambda>e.
         case decode (de_value D) e of
           None \<Rightarrow> []
         | Some d \<Rightarrow>
             if list_ex (\<lambda>g. normalize_spec_path root (referenced_id g) = Some spec)
                  (string_entries (value_get d ''governs''))
             then map (Pair (ev_position e)) (string_entries (value_get d ''resolves'')) else [])
       (filter (\<lambda>e. ev_type e = TYPE_DECISION_MADE) decisions))"

definition open_findings :: "codec \<Rightarrow> critique \<Rightarrow> event list \<Rightarrow> string \<Rightarrow> string \<Rightarrow> string list" where
  "open_findings D c decisions spec root =
     concat (map (\<lambda>p.
         map cf_id (filter (\<lambda>f. cf_blocking f \<and>
             \<not> list_ex (\<lambda>(pos, i). pos > cp_position p \<and> i = cf_id f) (resolutions D decisions spec root))
           (cp_findings p)))
       (cr_passes c))"

section \<open>The notes of a check-in stage\<close>

record run_note =
  rn_id :: string
  rn_about :: "string list"
  rn_summary :: string

definition get_str :: "json \<Rightarrow> string \<Rightarrow> string" where
  "get_str v key = unwrap_or [] (Option.bind (value_get v key) as_str)"

definition note_step ::
  "codec \<Rightarrow> (string \<Rightarrow> bool) \<Rightarrow> (string, run_note) btree \<times> string bset \<Rightarrow> event \<Rightarrow>
    (string, run_note) btree \<times> string bset" where
  "note_step D integrated acc e =
     (case decode (de_value D) e of
        None \<Rightarrow> acc
      | Some body \<Rightarrow>
          let i = get_str body ''id'' in
          if ev_type e = TYPE_REVIEW_FINDING
          then (bt_insert i \<lparr>rn_id = i, rn_about = string_entries (value_get body ''about''),
                  rn_summary = get_str body ''summary''\<rparr> (fst acc), snd acc)
          else
            (let verdict =
               (if ev_type e = TYPE_UNIT_STATUS \<and> value_get body ''status'' = Some (JStr ''reviewed'')
                then Option.bind (value_get body ''evidence'') (\<lambda>ev. Option.bind (value_get ev ''review'') as_str)
                else if ev_type e = TYPE_UNIT_FAILED
                then Option.bind (value_get body ''review_reason'') as_str else None)
             in case Option.bind verdict (adjudication_parse D) of
                  None \<Rightarrow> acc
                | Some a \<Rightarrow>
                    if integrated i then (fst acc, foldl (\<lambda>s x. bs_insert x s) (snd acc) (ad_upheld a)) else acc))"

definition run_notes :: "codec \<Rightarrow> event list \<Rightarrow> json_error + run_note list" where
  "run_notes D es =
     bind_res (project D es) (\<lambda>state.
       let integrated = (\<lambda>u. case bt_get (st_units state) u of
                               None \<Rightarrow> False | Some x \<Rightarrow> u_status x = Integrated);
           (findings, upheld) = foldl (note_step D integrated) ([], []) es
       in Inr (List.map_filter (bt_get findings) upheld))"

section \<open>Every route gates\<close>

text \<open>
  Risk routing fails safe and every route gates: under a validated depth policy a unit is routed to
  the light panel exactly when its blast radius is known, within the threshold and free of high-risk
  paths and its gates did not flap, and whichever panel it is routed to names an adjudicator step.
\<close>

theorem route_review_tier_safe:
  assumes "panel_depth full = Some depth" "validate_depth full = None"
  shows "(tr_panel (route_review_tier re_match full radius flapped) = full \<or>
      tr_panel (route_review_tier re_match full radius flapped) = rd_light depth) \<and>
    has_adjudicator_step (tr_panel (route_review_tier re_match full radius flapped)) \<and>
    (tr_tier (route_review_tier re_match full radius flapped) = TIER_LIGHT \<longleftrightarrow>
      radius \<noteq> [] \<and> length radius \<le> rd_threshold depth \<and> \<not> flapped \<and>
      \<not> list_ex (\<lambda>f. list_ex (\<lambda>p. path_is_high_risk re_match p f) (rd_high_risk_paths depth)) radius)"
proof -
  have adj: "has_adjudicator_step full" "has_adjudicator_step (rd_light depth)"
    using assms by (auto simp: validate_depth_def split: if_splits)
  have hit: "find (\<lambda>f. list_ex (\<lambda>p. path_is_high_risk re_match p f) (rd_high_risk_paths depth)) radius = None
      \<longleftrightarrow> \<not> list_ex (\<lambda>f. list_ex (\<lambda>p. path_is_high_risk re_match p f) (rd_high_risk_paths depth)) radius"
    by (auto simp: find_None_iff list_ex_iff)
  show ?thesis using assms(1) adj by (auto simp: route_review_tier_def Let_def hit simp del: not_None_eq)
qed

definition tiered_panel :: review_panel where
  "tiered_panel = ReviewPanel [''arch'', ''sdet''] ''red'' ''judge'' None
     (Some (ReviewDepth (ReviewPanel [''arch''] '''' ''judge'' None None) 2 [''src/core'']))"

theorem route_review_tier_safe_witness:
  "tr_tier (route_review_tier (\<lambda>_ _. False) tiered_panel [''src/core.rs''] False) = TIER_FULL \<and>
   has_adjudicator_step (tr_panel (route_review_tier (\<lambda>_ _. False) tiered_panel [''src/core.rs''] False))"
proof -
  have d: "panel_depth tiered_panel =
      Some (ReviewDepth (ReviewPanel [''arch''] '''' ''judge'' None None) 2 [''src/core''])"
    by (simp add: tiered_panel_def panel_depth_def)
  have v: "validate_depth tiered_panel = None" by code_simp
  have "tr_tier (route_review_tier (\<lambda>_ _. False) tiered_panel [''src/core.rs''] False) = TIER_FULL" by code_simp
  with route_review_tier_safe [OF d v, of "\<lambda>_ _. False" "[''src/core.rs'']" False] show ?thesis by blast
qed

section \<open>Reviewers have distinct roles\<close>

lemma first_repeat_None: "first_repeat seen xs = None \<longleftrightarrow> distinct xs \<and> set xs \<inter> seen = {}"
  by (induction xs arbitrary: seen) auto

lemma check_step_agents_None:
  "check_step_agents scope decl i ss = None \<longleftrightarrow>
     (\<forall>s \<in> set ss. distinct (step_agents s) \<and> (\<forall>a \<in> set (step_agents s). STEP_TOKEN_SEPARATOR \<notin> set a))"
proof (induction ss arbitrary: i)
  case Nil
  then show ?case by simp
next
  case (Cons s ss)
  have r: "first_repeat {} (step_agents s) = None \<longleftrightarrow> distinct (step_agents s)" by (simp add: first_repeat_None)
  have f: "find (\<lambda>a. \<not> check_agent_id a) (step_agents s) = None \<longleftrightarrow>
      (\<forall>a \<in> set (step_agents s). STEP_TOKEN_SEPARATOR \<notin> set a)"
    by (auto simp: find_None_iff check_agent_id_def)
  show ?case
  proof (cases "first_repeat {} (step_agents s) = None \<and> find (\<lambda>a. \<not> check_agent_id a) (step_agents s) = None")
    case True
    then have "check_step_agents scope decl i (s # ss) = check_step_agents scope decl (Suc i) ss" by simp
    with True r f Cons.IH [of "Suc i"] show ?thesis by simp
  next
    case False
    then have "check_step_agents scope decl i (s # ss) \<noteq> None" by (auto split: option.splits)
    moreover have "\<not> (distinct (step_agents s) \<and> (\<forall>a \<in> set (step_agents s). STEP_TOKEN_SEPARATOR \<notin> set a))"
      using False unfolding r f .
    ultimately show ?thesis by (meson list.set_intros(1))
  qed
qed

lemma adjudicator_positions_count:
  "length (adjudicator_positions i ss) = length (filter (\<lambda>s. step_kind s = Adjudicator) ss)"
proof (induction ss arbitrary: i)
  case Nil
  then show ?case by simp
next
  case (Cons s ss)
  then show ?case by (cases s) auto
qed

lemma adjudicator_positions_mem:
  "k < length ss \<Longrightarrow> step_kind (ss ! k) = Adjudicator \<Longrightarrow> i + k \<in> set (adjudicator_positions i ss)"
proof (induction ss arbitrary: i k)
  case Nil
  then show ?case by simp
next
  case (Cons s ss)
  show ?case
  proof (cases k)
    case 0
    with Cons.prems show ?thesis by (cases s) auto
  next
    case (Suc m)
    with Cons.IH [of m "Suc i"] Cons.prems show ?thesis by auto
  qed
qed

lemma validate_own_steps_None:
  assumes "validate_own_steps scope p = None"
  shows "\<forall>s \<in> set (panel_steps p). distinct (step_agents s) \<and> (\<forall>a \<in> set (step_agents s). STEP_TOKEN_SEPARATOR \<notin> set a)"
    "length (filter (\<lambda>s. step_kind s = Adjudicator) (panel_steps p)) \<le> 1"
    "\<forall>i < length (panel_steps p). step_kind (panel_steps p ! i) = Adjudicator \<longrightarrow> Suc i = length (panel_steps p)"
proof -
  have c: "check_step_agents scope (rp_steps p) 0 (panel_steps p) = None"
    "check_adjudicators scope (panel_steps p) = None"
    using assms by (auto simp: validate_own_steps_def Let_def split: if_splits option.splits)
  from c(1) show "\<forall>s \<in> set (panel_steps p). distinct (step_agents s) \<and> (\<forall>a \<in> set (step_agents s). STEP_TOKEN_SEPARATOR \<notin> set a)"
    by (simp add: check_step_agents_None)
  from c(2) have pos: "adjudicator_positions 0 (panel_steps p) = [] \<or>
      adjudicator_positions 0 (panel_steps p) = [length (panel_steps p) - 1] \<and> panel_steps p \<noteq> []"
    by (auto simp: check_adjudicators_def split: list.splits if_splits)
  then show "length (filter (\<lambda>s. step_kind s = Adjudicator) (panel_steps p)) \<le> 1"
    using adjudicator_positions_count [of 0 "panel_steps p"] by auto
  show "\<forall>i < length (panel_steps p). step_kind (panel_steps p ! i) = Adjudicator \<longrightarrow> Suc i = length (panel_steps p)"
    using pos adjudicator_positions_mem [where i = 0 and ss = "panel_steps p"] by fastforce
qed

lemma filter_take_less:
  assumes "i < j" "j \<le> length xs" "P (xs ! i)"
  shows "length (filter P (take i xs)) < length (filter P (take j xs))"
proof -
  have "take j xs = take i (take j xs) @ take j xs ! i # drop (Suc i) (take j xs)"
    using assms by (intro id_take_nth_drop) simp
  then have "take j xs = take i xs @ xs ! i # drop (Suc i) (take j xs)"
    using assms by (simp add: min_def)
  then have "filter P (take j xs) = filter P (take i xs) @ xs ! i # filter P (drop (Suc i) (take j xs))"
    using assms(3) by (metis filter.simps(2) filter_append)
  then show ?thesis by simp
qed

lemma step_ordinal_unat:
  assumes "i < length steps" "length steps < 2 ^ 32"
  shows "unat (step_ordinal steps i) =
    Suc (length (filter (\<lambda>s. step_kind s = step_kind (steps ! i)) (take i steps)))" (is "_ = Suc ?n")
proof -
  have "?n \<le> i" using length_filter_le [of _ "take i steps"] by (metis assms(1) length_take less_imp_le_nat min.absorb2)
  with assms have lt: "Suc ?n < 2 ^ 32" by simp
  have "step_ordinal steps i = of_nat (Suc ?n)" by (simp add: step_ordinal_def)
  with lt show ?thesis by (simp add: unat_of_nat del: of_nat_Suc)
qed

lemma distinct_concat_upt:
  assumes "\<And>i. i < n \<Longrightarrow> distinct (f i)" "\<And>i j. i < j \<Longrightarrow> j < n \<Longrightarrow> set (f i) \<inter> set (f j) = {}"
  shows "distinct (concat (map f [0..<n]))"
  using assms
proof (induction n)
  case 0
  then show ?case by simp
next
  case (Suc n)
  then have "distinct (concat (map f [0..<n]))" by simp
  moreover have "set (f i) \<inter> set (f n) = {}" if "i < n" for i using Suc.prems(2) that by simp
  ultimately show ?case using Suc.prems(1) [of n] by fastforce
qed

text \<open>
  A validated panel's reviewers never share a spawn id: over a panel whose own steps pass
  \<open>validate_steps\<close>, the role tokens minted for all the agents of all its steps are pairwise distinct,
  so each reviewer of a unit's attempt parks and answers a spawn of its own.
\<close>

theorem validated_panel_roles_distinct:
  assumes "validate_own_steps scope p = None" "length (panel_steps p) < 2 ^ 32"
  shows "distinct (step_roster (panel_steps p) (length (panel_steps p)) review_step_role)"
proof -
  let ?S = "panel_steps p"
  note v = validate_own_steps_None [OF assms(1)]
  let ?cnt = "\<lambda>i. length (filter (\<lambda>s. step_kind s = step_kind (?S ! i)) (take i ?S))"
  have ord: "unat (step_ordinal ?S i) = Suc (?cnt i)" if "i < length ?S" for i
    using that assms(2) by (rule step_ordinal_unat)
  have one: "step_ordinal ?S i = 1" if "i < length ?S" "step_kind (?S ! i) = Adjudicator" for i
  proof -
    have "length (filter (\<lambda>s. step_kind s = Adjudicator) (take i ?S)) < length (filter (\<lambda>s. step_kind s = Adjudicator) ?S)"
      using filter_take_less [of i "length ?S" ?S "\<lambda>s. step_kind s = Adjudicator"] that by simp
    then have "length (filter (\<lambda>s. step_kind s = Adjudicator) (take i ?S)) = 0" using v(2) by linarith
    with ord [OF that(1)] that(2) show ?thesis by (simp add: word_unat_eq_iff)
  qed
  have parse: "review_step_of t = Some (step_kind (?S ! i), step_ordinal ?S i)"
    if "i < length ?S" "t \<in> set (step_tokens review_step_role ?S i)" for i t
  proof -
    from that(2) obtain a where a: "a \<in> set (step_agents (?S ! i))"
      "t = review_step_role (step_kind (?S ! i)) a (step_ordinal ?S i)"
      by (auto simp: step_tokens_def)
    moreover have "STEP_TOKEN_SEPARATOR \<notin> set a" using v(1) a(1) nth_mem [OF that(1)] by blast
    moreover have "1 \<le> step_ordinal ?S i" using ord [OF that(1)] by (simp add: word_le_nat_alt)
    ultimately show ?thesis using one [OF that(1)] by (simp add: review_step_of_role)
  qed
  have "distinct (step_tokens review_step_role ?S i)" if "i < length ?S" for i
  proof -
    have "distinct (step_agents (?S ! i))" using v(1) that by simp
    then show ?thesis
      by (cases "?S ! i") (auto simp: step_tokens_def distinct_map inj_on_def stepped_token_def lens_role_def)
  qed
  moreover have "set (step_tokens review_step_role ?S i) \<inter> set (step_tokens review_step_role ?S j) = {}"
    if "i < j" "j < length ?S" for i j
  proof (rule ccontr)
    assume "\<not> ?thesis"
    then obtain t where t: "t \<in> set (step_tokens review_step_role ?S i)" "t \<in> set (step_tokens review_step_role ?S j)" by blast
    have i: "i < length ?S" using that by simp
    have eq: "step_kind (?S ! i) = step_kind (?S ! j)" "step_ordinal ?S i = step_ordinal ?S j"
      using parse [OF i t(1)] parse [OF that(2) t(2)] by simp_all
    have "?cnt i = ?cnt j" using ord [OF i] ord [OF that(2)] eq(2) by simp
    moreover have "?cnt i < ?cnt j"
      using filter_take_less [of i j ?S "\<lambda>s. step_kind s = step_kind (?S ! j)"] that eq(1) by simp
    ultimately show False by simp
  qed
  ultimately have "distinct (concat (map (step_tokens review_step_role ?S) [0..<length ?S]))"
    by (intro distinct_concat_upt) auto
  then show ?thesis by (simp add: step_roster_def)
qed

theorem validated_panel_roles_distinct_witness:
  "distinct (step_roster (panel_steps tiered_panel) (length (panel_steps tiered_panel)) review_step_role)
   \<and> length (panel_steps tiered_panel) = 3"
proof -
  have "validate_own_steps ''review'' tiered_panel = None" by code_simp
  moreover have "length (panel_steps tiered_panel) = 3" by code_simp
  ultimately show ?thesis using validated_panel_roles_distinct [of "''review''" tiered_panel] by simp
qed

section \<open>The critique record\<close>

lemma finding_line_id: "finding_line hash attempt k l = Some f \<Longrightarrow> cf_id f = finding_id hash attempt k"
  by (auto simp: finding_line_def Let_def split: if_splits)

lemma findings_from_ids:
  assumes "map cf_id found = map (finding_id hash attempt) [1..<Suc (length found)]"
  shows "map cf_id (findings_from hash attempt found ls) =
    map (finding_id hash attempt) [1..<Suc (length (findings_from hash attempt found ls))]"
  using assms
proof (induction ls arbitrary: found)
  case Nil
  then show ?case by simp
next
  case (Cons l ls)
  show ?case
  proof (cases "finding_line hash attempt (length found + 1) l")
    case None
    with Cons show ?thesis by simp
  next
    case (Some f)
    have "map cf_id (found @ [f]) = map (finding_id hash attempt) [1..<Suc (length (found @ [f]))]"
      using Cons.prems finding_line_id [OF Some] by simp
    with Cons.IH Some show ?thesis by simp
  qed
qed

lemma critique_findings_ids:
  "map cf_id (critique_findings output hash attempt) =
     map (finding_id hash attempt) [1..<Suc (length (critique_findings output hash attempt))]"
  unfolding critique_findings_def by (rule findings_from_ids) simp

lemma finding_id_inject: "finding_id hash a k = finding_id hash b m \<longleftrightarrow> a = b \<and> k = m"
proof
  assume "finding_id hash a k = finding_id hash b m"
  then have "show_nat (unat a) @ ''-'' @ show_nat k = show_nat (unat b) @ ''-'' @ show_nat m"
    by (simp add: finding_id_def show_u32_def)
  moreover have "\<not> is_ascii_digit (CHR ''-'')" by (simp add: is_ascii_digit_def byte_of_def)
  ultimately have "unat a = unat b \<and> ''-'' @ show_nat k = ''-'' @ show_nat m"
    by (intro show_nat_append_cancel) auto
  then show "a = b \<and> k = m" by (simp add: word_unat_eq_iff)
qed simp

lemma critique_of_pass:
  assumes "critique_of D e hash = Inr p"
  shows "\<exists>out. cp_findings p = critique_findings out hash (cp_attempt p)"
  using assms
  by (auto simp: critique_of_def judged_def bind_res_def ok_or_def Let_def
      split: sum.splits option.splits if_splits)

lemma passes_entry:
  assumes "(a, p) \<in> set (passes D es hash)"
  shows "cp_attempt p = a" "map cf_id (cp_findings p) = map (finding_id hash a) [1..<Suc (length (cp_findings p))]"
proof -
  have "bt_get (passes D es hash) a = Some p" using assms bt_get_mem [of "passes D es hash"] by (simp add: passes_def)
  then have f: "find_last (\<lambda>q. cp_attempt q = a)
      (List.map_filter (\<lambda>e. res_ok (critique_of D e hash)) (bt_values (latest_results_lenient D es))) = Some p"
    by (simp add: passes_def bt_collect_keyed)
  then show a: "cp_attempt p = a" by (auto dest: find_last_SomeD)
  from f obtain e where "critique_of D e hash = Inr p"
    by (auto simp: map_filter_def res_ok_def dest!: find_last_SomeD split: sum.splits)
  then show "map cf_id (cp_findings p) = map (finding_id hash a) [1..<Suc (length (cp_findings p))]"
    using critique_of_pass [of D e hash p] critique_findings_ids a by metis
qed

lemma distinct_pass_ids:
  assumes "distinct (map fst m)"
    and "\<And>a p. (a, p) \<in> set m \<Longrightarrow> map cf_id (cp_findings p) = map (finding_id hash a) [1..<Suc (length (cp_findings p))]"
  shows "distinct (map cf_id (concat (map cp_findings (map snd m))))"
  using assms
proof (induction m)
  case Nil
  then show ?case by simp
next
  case (Cons ap m)
  obtain a p where ap: "ap = (a, p)" by (cases ap)
  have ids: "map cf_id (cp_findings p) = map (finding_id hash a) [1..<Suc (length (cp_findings p))]"
    using Cons.prems(2) ap by simp
  have "distinct (map cf_id (cp_findings p))"
    unfolding ids by (simp add: distinct_map inj_on_def finding_id_inject)
  moreover have "cf_id ` set (cp_findings q) \<inter> cf_id ` set (cp_findings p) = {}" if q: "(b, q) \<in> set m" for b q
  proof -
    have "b \<noteq> a" using Cons.prems(1) ap q by force
    moreover have "cf_id ` set (cp_findings q) = finding_id hash b ` set [1..<Suc (length (cp_findings q))]"
      using Cons.prems(2) [of b q] q by (metis list.set_map list.set_intros(2))
    moreover have "cf_id ` set (cp_findings p) = finding_id hash a ` set [1..<Suc (length (cp_findings p))]"
      using ids by (metis list.set_map)
    ultimately show ?thesis by (auto simp: finding_id_inject)
  qed
  moreover have "distinct (map cf_id (concat (map cp_findings (map snd m))))"
    using Cons.IH Cons.prems by simp
  ultimately show ?case using ap by fastforce
qed

lemma critique_attempt_iff: "critique_attempt sid hash = Some a \<longleftrightarrow> sid = critique_spawn_id hash a"
proof -
  have "attempt_of (critique_spawn_id hash a) = a"
    using attempt_of_spawn_retry_id [of "critique_unit hash" ROLE_ADVERSARY a 0]
    by (simp add: critique_spawn_id_def spawn_retry_id_def with_retry_def)
  then show ?thesis by (auto simp: critique_attempt_def Let_def)
qed

text \<open>
  The critique record is unambiguous: the critique read for a hash holds its passes in ascending
  order of attempt, one per attempt, and the ids of all its findings are pairwise distinct, so a
  resolution that names an id names one finding.
\<close>

theorem critique_finding_ids_distinct:
  assumes "read_critique D (Inr es) hash = Inr (Some c)"
  shows "sorted_wrt (<) (map cp_attempt (cr_passes c)) \<and> distinct (map cf_id (cr_findings c))"
proof -
  let ?m = "passes D es hash"
  have wf: "bt_wf ?m" by (simp add: passes_def)
  have c: "cr_passes c = map snd ?m"
    using assms by (auto simp: read_critique_def Let_def bt_values_def split: if_splits)
  have "map cp_attempt (map snd ?m) = map fst ?m" using passes_entry(1) by force
  then have "sorted_wrt (<) (map cp_attempt (cr_passes c))" using wf unfolding c bt_wf_def by (simp only:)
  moreover have "distinct (map cf_id (concat (map cp_findings (map snd ?m))))"
    using wf passes_entry(2) by (intro distinct_pass_ids) (auto simp: bt_wf_def sorted_less_distinct)
  then have "distinct (map cf_id (cr_findings c))" unfolding cr_findings_def c .
  ultimately show ?thesis by blast
qed

definition critique_output :: string where
  "critique_output = ''a | BLOCKING | 1 | x | y'' @ [CHR 0x0A] @ ''b | NON-BLOCKING | 2 | z | w''"

definition critique_codec :: codec where
  "critique_codec = demo_codec
     \<lparr>de_value := \<lambda>b. Inr (JObj [(''verdict'', JStr ''approve'')]),
      de_spawn_result := demo_de (\<lambda>b. \<lparr>sr_id = b, sr_output = critique_output, sr_error = '''', sr_meta = JNull\<rparr>)\<rparr>"

definition critique_event :: event where
  "critique_event = demo_event TYPE_SPAWN_RESULT (critique_spawn_id ''h'' 0)"

lemma critique_event_judged:
  "critique_of critique_codec critique_event ''h'' = Inr
     \<lparr>cp_position = ev_position critique_event, cp_attempt = 0, cp_verdict = ''approve'',
      cp_findings = critique_findings critique_output ''h'' 0\<rparr>"
proof -
  have "critique_spawn_id ''h'' 0 \<noteq> ''''" by (simp add: critique_spawn_id_def critique_unit_def spawn_id_def)
  then have r: "result_from_event critique_codec critique_event =
      Inr \<lparr>sr_id = critique_spawn_id ''h'' 0, sr_output = critique_output, sr_error = '''', sr_meta = JNull\<rparr>"
    by (simp add: result_from_event_def critique_codec_def critique_event_def)
  have "critique_attempt (critique_spawn_id ''h'' 0) ''h'' = Some 0" by (simp add: critique_attempt_iff)
  moreover have "last_verdict critique_codec critique_output = Some ''approve''" by code_simp
  moreover have "verdict_approves critique_codec critique_output" by code_simp
  ultimately show ?thesis by (simp add: critique_of_def r judged_def bind_res_def ok_or_def)
qed

lemma critique_event_read:
  "read_critique critique_codec (Inr [critique_event] :: unit + event list) ''h'' =
     Inr (Some \<lparr>cr_passes = [\<lparr>cp_position = ev_position critique_event, cp_attempt = 0, cp_verdict = ''approve'',
       cp_findings = critique_findings critique_output ''h'' 0\<rparr>]\<rparr>)"
proof -
  have "critique_spawn_id ''h'' 0 \<noteq> ''''" by (simp add: critique_spawn_id_def critique_unit_def spawn_id_def)
  then have "bt_values (latest_results_lenient critique_codec [critique_event]) = [critique_event]"
    by (simp add: latest_results_lenient_def latest_results_def latest_results_step_def result_from_event_def critique_codec_def critique_event_def
        bt_values_def)
  then show ?thesis
    by (simp add: read_critique_def passes_def critique_event_judged map_filter_def res_ok_def bt_collect_def bt_extend_def bt_values_def
        bind_res_def)
qed

theorem critique_finding_ids_distinct_witness:
  "\<exists>c. read_critique critique_codec (Inr [critique_event] :: unit + event list) ''h'' = Inr (Some c)
     \<and> length (cr_findings c) = 2 \<and> distinct (map cf_id (cr_findings c))"
proof -
  have "length (critique_findings critique_output ''h'' 0) = 2" by code_simp
  then show ?thesis
    using critique_finding_ids_distinct [OF critique_event_read] critique_event_read
    by (simp add: cr_findings_def)
qed

section \<open>Two readers of a verdict line\<close>

text \<open>
  The gate's reader of a verdict and the adjudication reader are not the same reading: there is an
  output whose last verdict approves, while the adjudication parsed from it carries no verdict at all,
  because a later line without a verdict but with an \<open>upheld\<close> list displaces it.
\<close>

theorem verdict_readers_differ:
  "\<exists>D output a. verdict_approves D output \<and> adjudication_parse D output = Some a \<and> ad_verdict a = None"
proof -
  let ?D = "demo_codec\<lparr>de_value := \<lambda>b. Inr (if b = ''v'' then JObj [(''verdict'', JStr ''approve'')]
    else JObj [(''upheld'', JArr [])])\<rparr>"
  let ?out = "''v'' @ [CHR 0x0A] @ ''u''"
  have "verdict_approves ?D ?out" by code_simp
  moreover have "map_option ad_verdict (adjudication_parse ?D ?out) = Some None" by code_simp
  then obtain a where "adjudication_parse ?D ?out = Some a" "ad_verdict a = None" by auto
  ultimately show ?thesis by blast
qed

end
