(* ===== verification/Blocker.thy ===== *)
theory Blocker
  imports Ledger Config
begin

text \<open>
  The current-blocker classifier of \<open>blocker.rs\<close>: one line per unfinished unit of the projected run,
  the run-level budget halt, and the effective remediation bound of a stage. The theorems say that
  the lines cover exactly the units that have not integrated, in order, and that a budget halt is
  reported exactly while no unit event follows it in the log.
\<close>

abbreviation "REJECT_RECURRENCE_DIAGNOSE_THRESHOLD \<equiv> (3 :: u32)"
abbreviation "CAUSE_UNKNOWN \<equiv> ''unknown''"

definition awaits_finding_audit :: "ledger_unit \<Rightarrow> bool" where
  "awaits_finding_audit u \<longleftrightarrow>
     u_status u = Failed \<and> u_attempts u \<ge> REJECT_RECURRENCE_DIAGNOSE_THRESHOLD \<and> u_resumed u = None"

record budget =
  b_spent :: u32
  b_cap :: u32

datatype blocker_kind =
    KBuilding u32
  | KReviewing
  | KRejectRecurrence u32 u32 string
  | KApprovedNotIntegrated
  | KEscalated
  | KResumed string u32
  | KBudget budget

record blocker =
  bl_subject :: string
  bl_kind :: blocker_kind

definition blocker_subject :: "blocker \<Rightarrow> string" where
  "blocker_subject b = (if bl_subject b = '''' then ''run'' else bl_subject b)"

fun kind_line :: "blocker_kind \<Rightarrow> string" where
  "kind_line (KBuilding attempt) = ''building (attempt '' @ show_u32 attempt @ '')''"
| "kind_line KReviewing = ''reviewing (gates green, awaiting adjudication)''"
| "kind_line (KRejectRecurrence n mx cause) =
     ''reject-recurrence #'' @ show_u32 n @ ''/'' @ show_u32 mx @ '' ('' @ cause @ '')''"
| "kind_line KApprovedNotIntegrated = ''approved, not yet integrated (review passed; integration pending)''"
| "kind_line KEscalated = ''escalated (awaiting a human)''"
| "kind_line (KResumed who granted) =
     ''resumed by '' @ who @ '' ('' @ show_u32 granted @ '' attempt(s) granted)''"
| "kind_line (KBudget b) =
     ''budget spent '' @ show_u32 (b_spent b) @ ''/'' @ show_u32 (b_cap b) @
     '' (raise defaults.budget and resume)''"

definition full_line :: "blocker \<Rightarrow> string" where
  "full_line b = blocker_subject b @ '': '' @ kind_line (bl_kind b)"

fun kind_tag :: "blocker_kind \<Rightarrow> string" where
  "kind_tag (KBuilding _) = ''building''"
| "kind_tag KReviewing = ''reviewing''"
| "kind_tag (KRejectRecurrence _ _ _) = ''reject-recurrence''"
| "kind_tag KApprovedNotIntegrated = ''approved-not-integrated''"
| "kind_tag KEscalated = ''escalated''"
| "kind_tag (KResumed _ _) = ''resumed''"
| "kind_tag (KBudget _) = ''budget''"

section \<open>The remediation bound\<close>

datatype retries_source = FromStage | FromDefaults | BuiltIn

definition set_key :: "u32 \<Rightarrow> u32 option" where
  "set_key max_retries = (if max_retries \<noteq> 0 then Some max_retries else None)"

definition defaults_max_retries :: "u32 \<Rightarrow> u32 \<times> retries_source" where
  "defaults_max_retries configured =
     (case set_key configured of Some d \<Rightarrow> (d, FromDefaults) | None \<Rightarrow> (MAX_RETRIES, BuiltIn))"

definition effective_max_retries :: "u32 \<Rightarrow> u32" where
  "effective_max_retries configured = fst (defaults_max_retries configured)"

definition stage_max_retries :: "stage option \<Rightarrow> defaults \<Rightarrow> u32 \<times> retries_source" where
  "stage_max_retries st d =
     (case Option.bind st (\<lambda>s. set_key (s_max_retries s)) of
        Some own \<Rightarrow> (own, FromStage)
      | None \<Rightarrow> defaults_max_retries (d_max_retries d))"

text \<open>The conductor's per-unit bound: the stage's, widened to the ceiling a resume grant raised.\<close>

definition max_retries_for :: "defaults \<Rightarrow> (string, u32) btree \<Rightarrow> string \<Rightarrow> stage \<Rightarrow> u32" where
  "max_retries_for d resume_bound u st =
     max (unwrap_or 0 (bt_get resume_bound u)) (fst (stage_max_retries (Some st) d))"

section \<open>The budget halt\<close>

definition LIFECYCLE_TYPES :: "string list" where
  "LIFECYCLE_TYPES =
     [TYPE_UNIT_STARTED, TYPE_UNIT_STATUS, TYPE_UNIT_FAILED, TYPE_UNIT_ESCALATED, TYPE_UNIT_INTEGRATED]"

definition budget_step ::
  "codec \<Rightarrow> (position \<times> budget) option \<times> position \<Rightarrow> event \<Rightarrow> (position \<times> budget) option \<times> position" where
  "budget_step D acc e =
     (if ev_type e = TYPE_BUDGET_EXHAUSTED then
        (case de_budget_exhausted D (ev_data e) of
           Inr p \<Rightarrow> (Some (ev_position e, \<lparr>b_spent = be_spawns p, b_cap = be_budget p\<rparr>), snd acc)
         | Inl _ \<Rightarrow> acc)
      else if ev_type e \<in> set LIFECYCLE_TYPES then (fst acc, max (snd acc) (ev_position e))
      else acc)"

definition budget_halt :: "codec \<Rightarrow> event list \<Rightarrow> budget option" where
  "budget_halt D es =
     (case foldl (budget_step D) (None, 0) es of
        (Some (pos, b), last_pos) \<Rightarrow> if pos \<ge> last_pos then Some b else None
      | (None, _) \<Rightarrow> None)"

section \<open>Classification\<close>

definition status_kind :: "u32 \<Rightarrow> ledger_unit \<Rightarrow> blocker_kind" where
  "status_kind max_retries u =
     (case u_status u of
        Escalated \<Rightarrow> KEscalated
      | Failed \<Rightarrow> KRejectRecurrence (u_attempts u) max_retries
          (if u_cause u = '''' then CAUSE_UNKNOWN else u_cause u)
      | Reviewed \<Rightarrow> KApprovedNotIntegrated
      | Verified \<Rightarrow> KReviewing
      | _ \<Rightarrow> KBuilding (u_attempts u + 1))"

definition unit_kind :: "u32 \<Rightarrow> ledger_unit \<Rightarrow> blocker_kind" where
  "unit_kind max_retries u =
     (case u_resumed u of
        Some grant \<Rightarrow> KResumed (rg_by grant) (rg_attempts_granted grant)
      | None \<Rightarrow> status_kind max_retries u)"

fun classify_units :: "u32 \<Rightarrow> (string \<times> ledger_unit) list \<Rightarrow> blocker list" where
  "classify_units mx [] = []"
| "classify_units mx ((i, u) # us) =
     (if u_status u = Integrated then classify_units mx us
      else \<lparr>bl_subject = i, bl_kind = unit_kind mx u\<rparr> # classify_units mx us)"

definition classify :: "run_state \<Rightarrow> budget option \<Rightarrow> u32 \<Rightarrow> blocker list" where
  "classify run b max_retries =
     (case b of None \<Rightarrow> [] | Some x \<Rightarrow> [\<lparr>bl_subject = '''', bl_kind = KBudget x\<rparr>]) @
     classify_units max_retries (st_units run)"

definition from_events :: "codec \<Rightarrow> event list \<Rightarrow> u32 \<Rightarrow> json_error + blocker list" where
  "from_events D es configured_max_retries =
     bind_res (project D es) (\<lambda>run.
       Inr (classify run (budget_halt D es) (effective_max_retries configured_max_retries)))"

definition from_state :: "codec \<Rightarrow> run_state \<Rightarrow> event list \<Rightarrow> u32 \<Rightarrow> blocker list" where
  "from_state D run es configured_max_retries =
     classify run (budget_halt D es) (effective_max_retries configured_max_retries)"

definition blocker_lines :: "blocker list \<Rightarrow> string list" where
  "blocker_lines bs = map full_line bs"

section \<open>The lines cover the unfinished units\<close>

lemma classify_units_eq:
  "classify_units mx us =
     map (\<lambda>(i, u). \<lparr>bl_subject = i, bl_kind = unit_kind mx u\<rparr>) (filter (\<lambda>(_, u). u_status u \<noteq> Integrated) us)"
  by (induction mx us rule: classify_units.induct) auto

text \<open>
  The status surfaces list exactly the unfinished work: over a projected log the blocker lines are
  the budget halt, if any, followed by one line per unit that has not integrated, in ascending order
  of unit id, and there is no line exactly when no halt stands and every unit integrated.
\<close>

theorem from_events_covers:
  assumes "from_events D es mx = Inr bs" and "project D es = Inr s"
  shows "\<exists>us. map bl_subject bs = (if budget_halt D es = None then [] else ['''']) @ us \<and>
      sorted_wrt (<) us \<and>
      set us = {i. \<exists>u. bt_get (st_units s) i = Some u \<and> u_status u \<noteq> Integrated} \<and>
      (bs = [] \<longleftrightarrow> budget_halt D es = None \<and> list_all (\<lambda>u. u_status u = Integrated) (bt_values (st_units s)))"
proof -
  have wf: "bt_wf (st_units s)" using project_ledger_wf [OF assms(2)] by (simp add: ledger_wf_def)
  let ?open = "filter (\<lambda>(_, u). u_status u \<noteq> Integrated) (st_units s)"
  have bs: "bs = (case budget_halt D es of None \<Rightarrow> [] | Some x \<Rightarrow> [\<lparr>bl_subject = '''', bl_kind = KBudget x\<rparr>]) @
      classify_units (effective_max_retries mx) (st_units s)"
    using assms by (simp add: from_events_def classify_def)
  have subj: "map bl_subject bs = (if budget_halt D es = None then [] else ['''']) @ map fst ?open"
    by (auto simp: bs classify_units_eq split: option.splits)
  have "sorted_wrt (<) (map fst ?open)"
    using bt_wf_filter [OF wf] by (simp add: bt_wf_def)
  moreover have "set (map fst ?open) = {i. \<exists>u. bt_get (st_units s) i = Some u \<and> u_status u \<noteq> Integrated}"
    using bt_get_mem [OF wf] by force
  moreover have "bs = [] \<longleftrightarrow> budget_halt D es = None \<and>
      list_all (\<lambda>u. u_status u = Integrated) (bt_values (st_units s))"
    by (auto simp: bs classify_units_eq bt_values_def list_all_iff filter_empty_conv split: option.splits)
  ultimately show ?thesis using subj by blast
qed

definition blocked_log :: "event list" where
  "blocked_log = [demo_event TYPE_UNIT_STARTED ''u1'', demo_event TYPE_UNIT_STARTED ''u2'',
     demo_event TYPE_UNIT_INTEGRATED ''u1'']"

theorem from_events_covers_witness:
  "\<exists>bs s. from_events demo_codec blocked_log 0 = Inr bs \<and> project demo_codec blocked_log = Inr s \<and>
     map bl_subject bs = [''u2''] \<and> budget_halt demo_codec blocked_log = None \<and> bs \<noteq> []"
proof -
  have p: "map_sum id (map bl_subject) (from_events demo_codec blocked_log 0) = Inr [''u2'']" by code_simp
  then obtain bs where bs: "from_events demo_codec blocked_log 0 = Inr bs" "map bl_subject bs = [''u2'']"
    by (cases "from_events demo_codec blocked_log 0") auto
  then obtain s where s: "project demo_codec blocked_log = Inr s"
    by (cases "project demo_codec blocked_log") (auto simp: from_events_def)
  have "budget_halt demo_codec blocked_log = None" by code_simp
  moreover have "bs \<noteq> []" using bs(2) by auto
  moreover have "bs = [] \<longleftrightarrow> budget_halt demo_codec blocked_log = None \<and>
      list_all (\<lambda>u. u_status u = Integrated) (bt_values (st_units s))"
    using from_events_covers [OF bs(1) s] by (elim exE conjE)
  ultimately show ?thesis using bs s by (intro exI [of _ bs] exI [of _ s]) simp
qed

section \<open>When the budget halt stands\<close>

definition is_halt :: "codec \<Rightarrow> event \<Rightarrow> bool" where
  "is_halt D e \<longleftrightarrow> ev_type e = TYPE_BUDGET_EXHAUSTED \<and> \<not> isl (de_budget_exhausted D (ev_data e))"

definition is_lifecycle :: "event \<Rightarrow> bool" where
  "is_lifecycle e \<longleftrightarrow> ev_type e \<in> set LIFECYCLE_TYPES"

definition halt_of :: "codec \<Rightarrow> event \<Rightarrow> budget" where
  "halt_of D e = (let p = projr (de_budget_exhausted D (ev_data e)) in \<lparr>b_spent = be_spawns p, b_cap = be_budget p\<rparr>)"

lemma budget_step_eq:
  "budget_step D (b, p) e =
     (if is_halt D e then (Some (ev_position e, halt_of D e), p)
      else if is_lifecycle e then (b, max p (ev_position e)) else (b, p))"
  by (cases "de_budget_exhausted D (ev_data e)")
    (simp_all add: budget_step_def is_halt_def is_lifecycle_def halt_of_def Let_def LIFECYCLE_TYPES_def)

lemma halt_not_lifecycle: "is_halt D e \<Longrightarrow> \<not> is_lifecycle e"
  by (simp add: is_halt_def is_lifecycle_def LIFECYCLE_TYPES_def)

lemma budget_fold:
  "foldl (budget_step D) (None, 0) es =
     (map_option (\<lambda>e. (ev_position e, halt_of D e)) (find_last (is_halt D) es),
      Max (insert 0 (ev_position ` {e \<in> set es. is_lifecycle e})))"
proof (induction es rule: rev_induct)
  case Nil
  then show ?case by simp
next
  case (snoc e es)
  have "{x \<in> set (es @ [e]). is_lifecycle x} =
      (if is_lifecycle e then insert e {x \<in> set es. is_lifecycle x} else {x \<in> set es. is_lifecycle x})" by auto
  then have "Max (insert 0 (ev_position ` {x \<in> set (es @ [e]). is_lifecycle x})) =
      (if is_lifecycle e then max (Max (insert 0 (ev_position ` {x \<in> set es. is_lifecycle x}))) (ev_position e)
       else Max (insert 0 (ev_position ` {x \<in> set es. is_lifecycle x})))"
    by (simp add: insert_commute [of 0] max.commute)
  with snoc halt_not_lifecycle [of D e] show ?case by (simp add: budget_step_eq)
qed

text \<open>
  The budget halt is the current condition, not a stale one: over a log whose positions ascend, a
  halt is reported exactly when some readable \<open>BudgetExhausted\<close> is followed by no unit event, and then
  it is the last one's.
\<close>

theorem budget_halt_current:
  assumes "sorted_wrt (<) (map ev_position es)"
  shows "budget_halt D es = Some b \<longleftrightarrow>
    (\<exists>pre e post. es = pre @ e # post \<and> is_halt D e \<and> halt_of D e = b \<and>
       list_all (\<lambda>x. \<not> is_halt D x \<and> \<not> is_lifecycle x) post)"
proof -
  have "budget_halt D es = Some b \<longleftrightarrow> (\<exists>e. find_last (is_halt D) es = Some e \<and> halt_of D e = b \<and>
      (\<forall>x \<in> set es. is_lifecycle x \<longrightarrow> ev_position x \<le> ev_position e))"
    by (auto simp: budget_halt_def budget_fold split: option.splits)
  also have "\<dots> \<longleftrightarrow> (\<exists>pre e post. es = pre @ e # post \<and> is_halt D e \<and> halt_of D e = b \<and>
       list_all (\<lambda>x. \<not> is_halt D x \<and> \<not> is_lifecycle x) post)" (is "?l \<longleftrightarrow> ?r")
  proof
    assume ?l
    then obtain e where e: "find_last (is_halt D) es = Some e" "halt_of D e = b"
      "\<forall>x \<in> set es. is_lifecycle x \<longrightarrow> ev_position x \<le> ev_position e" by blast
    then obtain pre post where s: "es = pre @ e # post" "is_halt D e" "\<forall>x \<in> set post. \<not> is_halt D x"
      using find_last_split by metis
    have "\<not> is_lifecycle x" if "x \<in> set post" for x
      using that assms e(3) s(1) by (fastforce simp: sorted_wrt_append)
    with s(3) have "list_all (\<lambda>x. \<not> is_halt D x \<and> \<not> is_lifecycle x) post" by (simp add: list_all_iff)
    with s(1,2) e(2) show ?r by blast
  next
    assume ?r
    then obtain pre e post where s: "es = pre @ e # post" "is_halt D e" "halt_of D e = b"
      "\<forall>x \<in> set post. \<not> is_halt D x \<and> \<not> is_lifecycle x" by (auto simp: list_all_iff)
    have "find_last (is_halt D) post = None" using s(4) by (simp add: find_last_eq_None)
    then have "find_last (is_halt D) es = Some e"
      using s(1,2) by (simp add: find_last_append find_last_Cons)
    moreover have "\<forall>x \<in> set es. is_lifecycle x \<longrightarrow> ev_position x \<le> ev_position e"
      using assms s by (auto simp: sorted_wrt_append)
    ultimately show ?l using s(3) by blast
  qed
  finally show ?thesis .
qed

definition halted_log :: "event list" where
  "halted_log = [(demo_event TYPE_UNIT_STARTED ''u1'')\<lparr>ev_position := 1\<rparr>,
     (demo_event TYPE_BUDGET_EXHAUSTED ''x'')\<lparr>ev_position := 2\<rparr>]"

theorem budget_halt_current_witness:
  "budget_halt demo_codec halted_log = Some \<lparr>b_spent = 200, b_cap = 200\<rparr>"
proof -
  have s: "sorted_wrt (<) (map ev_position halted_log)" by (simp add: halted_log_def)
  have "\<exists>pre e post. halted_log = pre @ e # post \<and> is_halt demo_codec e \<and>
      halt_of demo_codec e = \<lparr>b_spent = 200, b_cap = 200\<rparr> \<and>
      list_all (\<lambda>x. \<not> is_halt demo_codec x \<and> \<not> is_lifecycle x) post"
    by (intro exI [of _ "[(demo_event TYPE_UNIT_STARTED ''u1'')\<lparr>ev_position := 1\<rparr>]"]
        exI [of _ "(demo_event TYPE_BUDGET_EXHAUSTED ''x'')\<lparr>ev_position := 2\<rparr>"] exI [of _ "[]"])
      (simp add: halted_log_def is_halt_def halt_of_def demo_codec_def)
  then show ?thesis using budget_halt_current [OF s, of demo_codec] by blast
qed

end
