(* ===== verification/Stage_Graph.thy ===== *)
theory Stage_Graph
  imports Config
begin

text \<open>
  The cycle search \<open>find_cycle\<close> of \<open>config.rs\<close> over the stage graph. The colour map is a function
  whose default is white, as the source reads it. The recursion follows the needs of a stage; the
  model bounds its depth by an explicit amount of fuel, and a search that runs out of it is \<open>None\<close>,
  apart from the two answers \<open>Some None\<close> and \<open>Some (Some bad)\<close> of the source. The depth is bounded
  by the number of white nodes: with fuel for every name of the workflow the search ends, more fuel
  changes nothing, and it answers a stage on a cycle exactly when there is one.
\<close>

section \<open>The search\<close>

datatype color = White | Gray | Black

type_synonym stages = "(string, stage) btree"

function visit :: "nat \<Rightarrow> stages \<Rightarrow> string \<Rightarrow> (string \<Rightarrow> color) \<Rightarrow> (string option \<times> (string \<Rightarrow> color)) option"
  and visit_needs ::
    "nat \<Rightarrow> stages \<Rightarrow> string list \<Rightarrow> (string \<Rightarrow> color) \<Rightarrow> (string option \<times> (string \<Rightarrow> color)) option" where
  "visit 0 stages n color = None"
| "visit (Suc f) stages n color =
     (case (case bt_get stages n of
              None \<Rightarrow> Some (None, color(n := Gray))
            | Some st \<Rightarrow> visit_needs f stages (s_needs st) (color(n := Gray))) of
        None \<Rightarrow> None
      | Some (Some bad, color') \<Rightarrow> Some (Some bad, color')
      | Some (None, color') \<Rightarrow> Some (None, color'(n := Black)))"
| "visit_needs f stages [] color = Some (None, color)"
| "visit_needs f stages (m # ms) color =
     (case color m of
        Gray \<Rightarrow> Some (Some m, color)
      | White \<Rightarrow>
          (case visit f stages m color of
             None \<Rightarrow> None
           | Some (Some bad, color') \<Rightarrow> Some (Some bad, color')
           | Some (None, color') \<Rightarrow> visit_needs f stages ms color')
      | Black \<Rightarrow> visit_needs f stages ms color)"
  by pat_completeness auto
termination
  by (relation "inv_image (less_than <*lex*> less_than)
    (\<lambda>x. case x of Inl (f, _, _, _) \<Rightarrow> (f, 0) | Inr (f, _, ms, _) \<Rightarrow> (f, Suc (length ms)))") auto

fun find_from :: "nat \<Rightarrow> stages \<Rightarrow> string list \<Rightarrow> (string \<Rightarrow> color) \<Rightarrow> string option option" where
  "find_from f stages [] color = Some None"
| "find_from f stages (n # ns) color =
     (if color n = White then
        (case visit f stages n color of
           None \<Rightarrow> None
         | Some (Some bad, _) \<Rightarrow> Some (Some bad)
         | Some (None, color') \<Rightarrow> find_from f stages ns color')
      else find_from f stages ns color)"

text \<open>Every name the search can meet: a stage or a need of one.\<close>

definition stage_names :: "stages \<Rightarrow> string list" where
  "stage_names stages = bt_keys stages @ concat (map s_needs (bt_values stages))"

definition find_cycle :: "nat \<Rightarrow> stages \<Rightarrow> string option option" where
  "find_cycle fuel stages = find_from fuel stages (bt_keys stages) (\<lambda>_. White)"

section \<open>The graph\<close>

definition need_edges :: "stages \<Rightarrow> (string \<times> string) set" where
  "need_edges stages = {(n, m). \<exists>st. bt_get stages n = Some st \<and> m \<in> set (s_needs st)}"

lemma acyclic_rank:
  fixes rank :: "'a \<Rightarrow> nat"
  assumes "\<And>n m. (n, m) \<in> R \<Longrightarrow> rank m < rank n"
  shows "acyclic R"
proof -
  have "R\<inverse> \<subseteq> measure rank" using assms by auto
  then have "wf (R\<inverse>)" using wf_measure wf_subset by blast
  then show ?thesis using wf_acyclic acyclic_converse by blast
qed

definition black_ok :: "stages \<Rightarrow> (string \<Rightarrow> color) \<Rightarrow> bool" where
  "black_ok stages c \<longleftrightarrow>
     (\<forall>b m. c b = Black \<longrightarrow> (b, m) \<in> need_edges stages \<longrightarrow> c m = Black) \<and>
     (\<forall>b. c b = Black \<longrightarrow> (b, b) \<notin> (need_edges stages)\<^sup>+)"

definition keeps_colors :: "(string \<Rightarrow> color) \<Rightarrow> (string \<Rightarrow> color) \<Rightarrow> bool" where
  "keeps_colors c c' \<longleftrightarrow> (\<forall>x. (c x \<noteq> White \<longrightarrow> c' x = c x) \<and> (c' x = Gray \<longrightarrow> c x = Gray))"

lemma keeps_colors_refl [simp]: "keeps_colors c c"
  by (simp add: keeps_colors_def)

lemma keeps_colors_trans: "keeps_colors a b \<Longrightarrow> keeps_colors b c \<Longrightarrow> keeps_colors a c"
  by (metis keeps_colors_def color.distinct(1))

lemma black_reach:
  assumes "black_ok stages c" "(b, m) \<in> (need_edges stages)\<^sup>*" "c b = Black" shows "c m = Black"
  using assms(2,3)
proof (induction rule: rtrancl_induct)
  case base
  then show ?case .
next
  case (step y z)
  with assms(1) show ?case unfolding black_ok_def by blast
qed

text \<open>Blackening a node whose needs are all black keeps the black part closed and free of cycles.\<close>

lemma blacken_ok:
  assumes ok: "black_ok stages c" and succ: "\<And>m. (n, m) \<in> need_edges stages \<Longrightarrow> c m = Black"
    and n: "c n \<noteq> Black"
  shows "black_ok stages (c(n := Black))"
proof -
  have "(n, n) \<notin> (need_edges stages)\<^sup>+"
  proof
    assume "(n, n) \<in> (need_edges stages)\<^sup>+"
    then obtain m where "(n, m) \<in> need_edges stages" "(m, n) \<in> (need_edges stages)\<^sup>*"
      by (meson tranclD)
    with succ black_reach [OF ok] n show False by blast
  qed
  with ok succ show ?thesis by (auto simp: black_ok_def)
qed

lemma visit_sound:
  "visit f stages n c = Some (r, c') \<Longrightarrow> black_ok stages c \<Longrightarrow> c n = White \<Longrightarrow>
     (\<forall>g. c g = Gray \<longrightarrow> (g, n) \<in> (need_edges stages)\<^sup>*) \<Longrightarrow>
     (case r of Some bad \<Rightarrow> (bad, bad) \<in> (need_edges stages)\<^sup>+
      | None \<Rightarrow> c' n = Black \<and> black_ok stages c' \<and> keeps_colors c c')"
  "visit_needs f stages ms c = Some (r, c') \<Longrightarrow> black_ok stages c \<Longrightarrow> (\<forall>m \<in> set ms. (cur, m) \<in> need_edges stages) \<Longrightarrow>
     (\<forall>g. c g = Gray \<longrightarrow> (g, cur) \<in> (need_edges stages)\<^sup>*) \<Longrightarrow>
     (case r of Some bad \<Rightarrow> (bad, bad) \<in> (need_edges stages)\<^sup>+
      | None \<Rightarrow> (\<forall>m \<in> set ms. c' m = Black) \<and> black_ok stages c' \<and> keeps_colors c c')"
proof (induction f stages n c and f stages ms c arbitrary: r c' and r c' cur rule: visit_visit_needs.induct)
  case (1 stages n color)
  then show ?case by simp
next
  case (2 f stages n color)
  have ok: "black_ok stages (color(n := Gray))"
    using "2.prems"(2,3) by (auto simp: black_ok_def)
  show ?case
  proof (cases "bt_get stages n")
    case None
    then have "(n, m) \<notin> need_edges stages" for m by (simp add: need_edges_def)
    then have "black_ok stages (color(n := Black))" using "2.prems"(2,3) by (intro blacken_ok) auto
    with None "2.prems"(1,3) show ?thesis by (auto simp: keeps_colors_def split: if_splits)
  next
    case (Some st)
    then obtain r2 c2 where v: "visit_needs f stages (s_needs st) (color(n := Gray)) = Some (r2, c2)"
      using "2.prems"(1) by (auto split: option.splits)
    have ih: "case r2 of Some bad \<Rightarrow> (bad, bad) \<in> (need_edges stages)\<^sup>+
      | None \<Rightarrow> (\<forall>m \<in> set (s_needs st). c2 m = Black) \<and> black_ok stages c2 \<and> keeps_colors (color(n := Gray)) c2"
      using "2.IH" [OF Some v ok, of n] "2.prems"(4) Some by (auto simp: need_edges_def)
    show ?thesis
    proof (cases r2)
      case None
      with ih have k: "\<forall>m \<in> set (s_needs st). c2 m = Black" "black_ok stages c2"
        "keeps_colors (color(n := Gray)) c2" by auto
      then have "c2 n = Gray" by (simp add: keeps_colors_def)
      have "black_ok stages (c2(n := Black))"
        by (rule blacken_ok [OF k(2)]) (use k(1) Some \<open>c2 n = Gray\<close> in \<open>auto simp: need_edges_def\<close>)
      moreover have "keeps_colors color (c2(n := Black))"
        using k(3) "2.prems"(3) by (auto simp: keeps_colors_def split: if_splits)
      ultimately show ?thesis using "2.prems"(1) Some v None by auto
    next
      case (Some bad)
      with ih "2.prems"(1) \<open>bt_get stages n = Some st\<close> v show ?thesis by auto
    qed
  qed
next
  case (3 f stages color)
  then show ?case by simp
next
  case (4 f stages m ms color)
  have edge: "(cur, m) \<in> need_edges stages" using "4.prems"(3) by simp
  show ?case
  proof (cases "color m")
    case Gray
    with "4.prems"(4) edge have "(m, m) \<in> (need_edges stages)\<^sup>+" by (blast intro: rtrancl_into_trancl1)
    with Gray "4.prems"(1) show ?thesis by auto
  next
    case Black
    with "4.prems"(1) have v: "visit_needs f stages ms color = Some (r, c')" by simp
    have ih: "case r of Some bad \<Rightarrow> (bad, bad) \<in> (need_edges stages)\<^sup>+
      | None \<Rightarrow> (\<forall>m \<in> set ms. c' m = Black) \<and> black_ok stages c' \<and> keeps_colors color c'"
      using "4.prems"(3) by (intro "4.IH"(3) [OF Black v "4.prems"(2) _ "4.prems"(4)]) simp
    have "c' m = Black" if "r = None" using ih that Black by (simp add: keeps_colors_def)
    with ih show ?thesis by (cases r) auto
  next
    case White
    with "4.prems"(1) obtain r2 c2 where v: "visit f stages m color = Some (r2, c2)"
      by (auto split: option.splits)
    have gray: "\<forall>g. color g = Gray \<longrightarrow> (g, m) \<in> (need_edges stages)\<^sup>*"
      using "4.prems"(4) edge by (blast intro: rtrancl_into_rtrancl)
    note ih = "4.IH"(1) [OF White v "4.prems"(2) White gray]
    show ?thesis
    proof (cases r2)
      case None
      with ih have k: "c2 m = Black" "black_ok stages c2" "keeps_colors color c2" by auto
      from None White v "4.prems"(1) have v2: "visit_needs f stages ms c2 = Some (r, c')" by simp
      have "\<forall>g. c2 g = Gray \<longrightarrow> (g, cur) \<in> (need_edges stages)\<^sup>*"
        using k(3) "4.prems"(4) by (simp add: keeps_colors_def)
      then have ih2: "case r of Some bad \<Rightarrow> (bad, bad) \<in> (need_edges stages)\<^sup>+
        | None \<Rightarrow> (\<forall>m \<in> set ms. c' m = Black) \<and> black_ok stages c' \<and> keeps_colors c2 c'"
        using "4.prems"(3) by (intro "4.IH"(2) [OF White v _ None v2 k(2)]) simp_all
      have "c' m = Black" if "r = None" using ih2 that k(1) by (simp add: keeps_colors_def)
      with ih2 show ?thesis by (cases r) (auto intro: keeps_colors_trans [OF k(3)])
    next
      case (Some bad)
      with ih White v "4.prems"(1) show ?thesis by auto
    qed
  qed
qed

section \<open>The fuel is enough\<close>

definition white_count :: "stages \<Rightarrow> (string \<Rightarrow> color) \<Rightarrow> nat" where
  "white_count stages c = card {x \<in> set (stage_names stages). c x = White}"

lemma white_count_mono:
  "(\<And>x. c' x = White \<Longrightarrow> c x = White) \<Longrightarrow> white_count stages c' \<le> white_count stages c"
  unfolding white_count_def by (intro card_mono) auto

lemma white_count_gray:
  assumes "n \<in> set (stage_names stages)" "c n = White"
  shows "Suc (white_count stages (c(n := Gray))) = white_count stages c"
proof -
  have "{x \<in> set (stage_names stages). c x = White} =
      insert n {x \<in> set (stage_names stages). (c(n := Gray)) x = White}"
    using assms by auto
  then show ?thesis unfolding white_count_def by simp
qed

text \<open>No node turns white again.\<close>

lemma visit_white:
  "visit f stages n c = Some (r, c') \<Longrightarrow> c' x = White \<Longrightarrow> c x = White"
  "visit_needs f stages ms c = Some (r, c') \<Longrightarrow> c' x = White \<Longrightarrow> c x = White"
  by (induction f stages n c and f stages ms c arbitrary: r c' and r c' rule: visit_visit_needs.induct)
    (force split: option.splits color.splits if_splits)+

lemma needs_are_names: "bt_get stages n = Some st \<Longrightarrow> set (s_needs st) \<subseteq> set (stage_names stages)"
  unfolding stage_names_def bt_values_def bt_get_def by (force dest: map_of_SomeD)

lemma visit_enough:
  "white_count stages c \<le> f \<Longrightarrow> n \<in> set (stage_names stages) \<Longrightarrow> c n = White \<Longrightarrow>
     visit f stages n c \<noteq> None"
  "white_count stages c \<le> f \<Longrightarrow> set ms \<subseteq> set (stage_names stages) \<Longrightarrow> visit_needs f stages ms c \<noteq> None"
proof (induction f stages n c and f stages ms c rule: visit_visit_needs.induct)
  case (1 stages n color)
  then show ?case using white_count_gray [of n stages color] by simp
next
  case (2 f stages n color)
  have "white_count stages (color(n := Gray)) \<le> f"
    using white_count_gray [of n stages color] "2.prems" by simp
  then have "visit_needs f stages (s_needs st) (color(n := Gray)) \<noteq> None" if "bt_get stages n = Some st" for st
    using "2.IH" [OF that] needs_are_names [OF that] by blast
  then show ?case by (cases "bt_get stages n") (auto split: option.splits)
next
  case (3 f stages color)
  then show ?case by simp
next
  case (4 f stages m ms color)
  show ?case
  proof (cases "color m")
    case White
    with "4.IH"(1) "4.prems" obtain r c where v: "visit f stages m color = Some (r, c)" by auto
    have "white_count stages c \<le> f"
      using "4.prems"(1) white_count_mono [of c color stages] visit_white(1) [OF v] by force
    with "4.IH"(2) [OF White v] White v "4.prems" show ?thesis by (auto split: option.splits)
  qed (use "4.IH"(3) "4.prems" in auto)
qed

lemma white_count_bound: "white_count stages c \<le> length (stage_names stages)"
proof -
  have "white_count stages c \<le> card (set (stage_names stages))"
    unfolding white_count_def by (intro card_mono) auto
  then show ?thesis using card_length le_trans by blast
qed

lemma find_from_enough:
  "length (stage_names stages) \<le> f \<Longrightarrow> set ns \<subseteq> set (stage_names stages) \<Longrightarrow> find_from f stages ns c \<noteq> None"
proof (induction ns arbitrary: c)
  case Nil
  then show ?case by simp
next
  case (Cons n ns)
  then show ?case
    using visit_enough(1) [OF order_trans [OF white_count_bound Cons.prems(1)], of n c] by (auto split: option.splits)
qed

text \<open>An answer stands whatever fuel is added.\<close>

lemma visit_fuel_mono:
  "visit f stages n c = Some r \<Longrightarrow> visit (f + k) stages n c = Some r"
  "visit_needs f stages ms c = Some r \<Longrightarrow> visit_needs (f + k) stages ms c = Some r"
  by (induction f stages n c and f stages ms c arbitrary: r and r rule: visit_visit_needs.induct)
    (force split: option.splits color.splits)+

lemma find_from_fuel_mono: "find_from f stages ns c = Some r \<Longrightarrow> find_from (f + k) stages ns c = Some r"
  by (induction ns arbitrary: c) (auto simp: visit_fuel_mono split: option.splits if_splits)

section \<open>The search is exact\<close>

lemma find_from_sound:
  assumes "find_from f stages ns c = Some r" "black_ok stages c" "\<forall>x. c x \<noteq> Gray"
  shows "case r of Some bad \<Rightarrow> (bad, bad) \<in> (need_edges stages)\<^sup>+
    | None \<Rightarrow> \<forall>n \<in> set ns. (n, n) \<notin> (need_edges stages)\<^sup>+"
  using assms
proof (induction ns arbitrary: c)
  case Nil
  then show ?case by simp
next
  case (Cons n ns)
  show ?case
  proof (cases "c n = White")
    case False
    with Cons.prems(3) have "c n = Black" by (cases "c n") auto
    with Cons.prems(2) have "(n, n) \<notin> (need_edges stages)\<^sup>+" by (simp add: black_ok_def)
    with Cons False show ?thesis by (auto split: option.splits)
  next
    case True
    with Cons.prems(1) obtain r2 c2 where v: "visit f stages n c = Some (r2, c2)"
      by (auto split: option.splits)
    have s: "case r2 of Some bad \<Rightarrow> (bad, bad) \<in> (need_edges stages)\<^sup>+
        | None \<Rightarrow> c2 n = Black \<and> black_ok stages c2 \<and> keeps_colors c c2"
      using visit_sound(1) [OF v Cons.prems(2) True] Cons.prems(3) by blast
    show ?thesis
    proof (cases r2)
      case (Some bad)
      with s v True Cons.prems(1) show ?thesis by auto
    next
      case None
      with s have k: "c2 n = Black" "black_ok stages c2" "keeps_colors c c2" by auto
      then have "(n, n) \<notin> (need_edges stages)\<^sup>+" "\<forall>x. c2 x \<noteq> Gray"
        using Cons.prems(3) by (auto simp: black_ok_def keeps_colors_def)
      moreover have "find_from f stages ns c2 = Some r" using Cons.prems(1) True v None by simp
      ultimately show ?thesis using Cons.IH [OF _ k(2)] by (auto split: option.splits)
    qed
  qed
qed

lemma find_cycle_cases:
  assumes "find_cycle fuel stages = Some r"
  shows "case r of Some bad \<Rightarrow> (bad, bad) \<in> (need_edges stages)\<^sup>+ | None \<Rightarrow> acyclic (need_edges stages)"
proof -
  have s: "case r of Some bad \<Rightarrow> (bad, bad) \<in> (need_edges stages)\<^sup>+
      | None \<Rightarrow> \<forall>n \<in> set (bt_keys stages). (n, n) \<notin> (need_edges stages)\<^sup>+"
    by (rule find_from_sound [OF assms [unfolded find_cycle_def]]) (auto simp: black_ok_def)
  have "n \<in> set (bt_keys stages)" if "(n, n) \<in> (need_edges stages)\<^sup>+" for n
    using that by (auto simp: need_edges_def btm.keys_get dest!: tranclD)
  with s show ?thesis by (auto simp: acyclic_def split: option.splits)
qed

text \<open>
  C24. The cycle check of a workflow ends and is exact: with fuel for every name of the workflow the
  search answers, the answer is the same with any more fuel, it is no stage exactly when the needs
  of the stages form no cycle, and a stage it answers does lie on a cycle of needs.
\<close>

theorem find_cycle_exact:
  "\<exists>r. (\<forall>k. find_cycle (length (stage_names stages) + k) stages = Some r) \<and>
     (r = None) = acyclic (need_edges stages) \<and>
     (case r of None \<Rightarrow> True | Some bad \<Rightarrow> (bad, bad) \<in> (need_edges stages)\<^sup>+)"
proof -
  have "set (bt_keys stages) \<subseteq> set (stage_names stages)" by (simp add: stage_names_def)
  then obtain r where r: "find_cycle (length (stage_names stages)) stages = Some r"
    unfolding find_cycle_def using find_from_enough by blast
  then have "find_cycle (length (stage_names stages) + k) stages = Some r" for k
    unfolding find_cycle_def by (rule find_from_fuel_mono)
  then show ?thesis using find_cycle_cases [OF r] by (auto simp: acyclic_def split: option.splits)
qed

end
