(* ===== verification/Agent.thy ===== *)
theory Agent
  imports Config
begin

text \<open>
  The driver port's error vocabulary of \<open>agent.rs\<close>: the marker idiom (a control-character sentinel
  inside the error text that survives wrapping), the failure classes of a session with their
  disposition table, and the readers of both. An \<open>Error\<close> is its text. The theorem is the round trip
  of the class and the message through the error a driver returns.
\<close>

section \<open>Text\<close>

text \<open>\<open>str::contains\<close> and \<open>str::replace\<close> with the empty string.\<close>

definition contains :: "string \<Rightarrow> string \<Rightarrow> bool" where
  "contains s p \<longleftrightarrow> find_split p s \<noteq> None"

lemma find_split_append: "find_split p s = Some (a, b) \<Longrightarrow> s = a @ p @ b"
proof (induction s arbitrary: a b)
  case Nil
  then show ?case by (auto split: if_splits)
next
  case (Cons x s)
  then show ?case by (cases "strip_prefix p (x # s)") (auto split: option.splits)
qed

function replace_all :: "string \<Rightarrow> string \<Rightarrow> string" where
  "replace_all p s =
     (if p = [] then s
      else case find_split p s of None \<Rightarrow> s | Some (a, b) \<Rightarrow> a @ replace_all p b)"
  by auto
termination
proof (relation "measure (\<lambda>(p, s). length s)")
  fix p s :: string and x a b
  assume "p \<noteq> []" "find_split p s = Some x" "(a, b) = x"
  then have "s = a @ p @ b" using find_split_append by metis
  then show "((p, b), p, s) \<in> measure (\<lambda>(p, s). length s)" using \<open>p \<noteq> []\<close> by simp
qed simp

declare replace_all.simps [simp del]

section \<open>Markers\<close>

definition marker :: "string \<Rightarrow> string" where
  "marker name = [CHR 0x01] @ ''rigger:'' @ name @ [CHR 0x01]"

definition PARKED_MARKER :: string where "PARKED_MARKER = marker ''spawn-parked''"
definition EMIT_REFUSED_MARKER :: string where "EMIT_REFUSED_MARKER = marker ''emit-refused''"
definition INTERRUPTED_MARKER :: string where "INTERRUPTED_MARKER = marker ''launch-interrupted''"
definition STORE_FAULT_MARKER :: string where "STORE_FAULT_MARKER = marker ''store-fault''"

abbreviation "FAILURE_MARKER \<equiv> CHR 0x02"

definition carries_marker :: "string \<Rightarrow> string \<Rightarrow> bool" where
  "carries_marker e m \<longleftrightarrow> contains e m"

definition is_parked :: "string \<Rightarrow> bool" where
  "is_parked e \<longleftrightarrow> carries_marker e PARKED_MARKER"

definition store_fault :: "string \<Rightarrow> string" where
  "store_fault e = STORE_FAULT_MARKER @ e"

section \<open>Failure classes\<close>

datatype agent_failure =
    RateLimit | Overloaded | ServerError | AuthenticationFailed | OauthOrgNotAllowed | CloudCredentialError
  | BillingError | AccountOnHold | VerificationRequired | ModelNotFound | InvalidRequest | MaxOutputTokens
  | UnknownFailure

datatype disposition = DHold | DWait | DFault

record disposition_row =
  dr_disposition :: disposition
  dr_action :: string
  dr_needs_person :: bool
  dr_credential :: bool

definition row_waits :: "disposition_row \<Rightarrow> bool" where
  "row_waits r \<longleftrightarrow> dr_disposition r \<noteq> DFault"

abbreviation "API_UNSTABLE \<equiv> ''api-unstable''"
abbreviation "OPERATOR \<equiv> ''operator''"
abbreviation "RETRIES_BY_ITSELF \<equiv> ''none, the run retries by itself''"

definition WAITS :: disposition_row where
  "WAITS = \<lparr>dr_disposition = DWait, dr_action = RETRIES_BY_ITSELF, dr_needs_person = False, dr_credential = False\<rparr>"

definition FAULTS :: disposition_row where
  "FAULTS = \<lparr>dr_disposition = DFault, dr_action = '''', dr_needs_person = False, dr_credential = False\<rparr>"

definition holds_row :: "string \<Rightarrow> disposition_row" where
  "holds_row action = \<lparr>dr_disposition = DHold, dr_action = action, dr_needs_person = True, dr_credential = False\<rparr>"

definition CATEGORIES :: "agent_failure list" where
  "CATEGORIES =
     [RateLimit, Overloaded, ServerError, AuthenticationFailed, OauthOrgNotAllowed, CloudCredentialError,
      BillingError, AccountOnHold, VerificationRequired, ModelNotFound, InvalidRequest, MaxOutputTokens,
      UnknownFailure]"

fun failure_str :: "agent_failure \<Rightarrow> string" where
  "failure_str RateLimit = ''rate_limit''"
| "failure_str Overloaded = ''overloaded''"
| "failure_str ServerError = ''server_error''"
| "failure_str AuthenticationFailed = ''authentication_failed''"
| "failure_str OauthOrgNotAllowed = ''oauth_org_not_allowed''"
| "failure_str CloudCredentialError = ''cloud_credential_error''"
| "failure_str BillingError = ''billing_error''"
| "failure_str AccountOnHold = ''account_on_hold''"
| "failure_str VerificationRequired = ''verification_required''"
| "failure_str ModelNotFound = ''model_not_found''"
| "failure_str InvalidRequest = ''invalid_request''"
| "failure_str MaxOutputTokens = ''max_output_tokens''"
| "failure_str UnknownFailure = ''unknown''"

definition from_category :: "string \<Rightarrow> agent_failure" where
  "from_category category = unwrap_or UnknownFailure (find (\<lambda>c. failure_str c = category) CATEGORIES)"

fun failure_row :: "agent_failure \<Rightarrow> disposition_row" where
  "failure_row AuthenticationFailed = (holds_row ''run claude auth login'')\<lparr>dr_credential := True\<rparr>"
| "failure_row OauthOrgNotAllowed = (holds_row ''run claude auth login'')\<lparr>dr_credential := True\<rparr>"
| "failure_row CloudCredentialError = holds_row ''refresh the cloud provider's credentials''"
| "failure_row BillingError = holds_row ''fix the account's billing''"
| "failure_row AccountOnHold = holds_row ''resolve the account's hold''"
| "failure_row VerificationRequired = holds_row ''complete the account's verification''"
| "failure_row ModelNotFound = holds_row
     ''fix the agent's configured model, restart rigger run with --rebase-definition, then run rigger release''"
| "failure_row RateLimit = WAITS"
| "failure_row Overloaded = WAITS"
| "failure_row ServerError = WAITS"
| "failure_row InvalidRequest = FAULTS"
| "failure_row MaxOutputTokens = FAULTS"
| "failure_row UnknownFailure = FAULTS"

definition cause_row :: "string \<Rightarrow> disposition_row" where
  "cause_row cause =
     (if cause = API_UNSTABLE then
        \<lparr>dr_disposition = DHold, dr_action = RETRIES_BY_ITSELF, dr_needs_person = False, dr_credential = False\<rparr>
      else if cause = OPERATOR then holds_row ''''
      else failure_row (from_category cause))"

definition classify_failure :: "string option \<Rightarrow> string option \<Rightarrow> agent_failure" where
  "classify_failure reported_class last_api_retry_category =
     unwrap_or UnknownFailure (map_option from_category
       (case reported_class of Some c \<Rightarrow> Some c | None \<Rightarrow> last_api_retry_category))"

definition no_result_error :: "agent_failure \<Rightarrow> string \<Rightarrow> string" where
  "no_result_error cls message = [FAILURE_MARKER] @ failure_str cls @ [FAILURE_MARKER] @ message"

definition launch_interrupted :: "agent_failure \<Rightarrow> string \<Rightarrow> string" where
  "launch_interrupted cls message = no_result_error cls (INTERRUPTED_MARKER @ message)"

definition failure_parts :: "string \<Rightarrow> (string \<times> string) option" where
  "failure_parts e = Option.bind (strip_prefix [FAILURE_MARKER] e) (split_once FAILURE_MARKER)"

definition failure_class_of :: "string \<Rightarrow> agent_failure option" where
  "failure_class_of e = map_option (\<lambda>(cls, _). from_category cls) (failure_parts e)"

definition strip_failure_marker :: "string \<Rightarrow> string" where
  "strip_failure_marker e =
     (case find_map (\<lambda>m. strip_prefix m e) [EMIT_REFUSED_MARKER, STORE_FAULT_MARKER] of
        Some text \<Rightarrow> text
      | None \<Rightarrow>
          (case failure_parts e of
             Some (_, message) \<Rightarrow> unwrap_or message (strip_prefix INTERRUPTED_MARKER message)
           | None \<Rightarrow> e))"

section \<open>The class and the message come back\<close>

lemma contains_append: "contains (a @ p @ b) p"
proof (induction a)
  case Nil
  have "contains s p" if "strip_prefix p s = Some b" for s
    using that by (cases s; cases p) (auto simp: contains_def simp del: strip_prefix_eq_Some)
  from this [OF strip_prefix_append] show ?case by simp
next
  case (Cons x a)
  then show ?case by (cases "strip_prefix p (x # a @ p @ b)") (auto simp: contains_def simp del: strip_prefix_eq_Some split: option.splits)
qed

lemma failure_str_clean: "FAILURE_MARKER \<notin> set (failure_str c)"
  by (cases c) simp_all

lemma from_category_str: "from_category (failure_str c) = c"
  by (cases c) (simp_all add: from_category_def CATEGORIES_def)

lemma failure_parts_no_result: "failure_parts (no_result_error c m) = Some (failure_str c, m)"
  using failure_str_clean [of c] by (simp add: failure_parts_def no_result_error_def split_once_append)

lemma marker_first: "marker n \<noteq> FAILURE_MARKER # r" "strip_prefix (marker n) (FAILURE_MARKER # r) = None"
  by (simp_all add: marker_def)

lemma no_result_unmarked:
  "find_map (\<lambda>m. strip_prefix m (no_result_error c t)) [EMIT_REFUSED_MARKER, STORE_FAULT_MARKER] = None"
  by (simp add: EMIT_REFUSED_MARKER_def STORE_FAULT_MARKER_def no_result_error_def marker_first)

text \<open>
  The class and the message of a session's failure survive the driver port: the error a driver
  returns for a session without a result, or for a launch the host interrupted, reads back as its
  class, strips to its message, and an interrupted launch stays recognizable by its marker; a store
  fault strips to the error it marks. A park wrapped in any text is still a park.
\<close>

theorem failure_round_trip:
  "failure_class_of (no_result_error c m) = Some c \<and>
   failure_class_of (launch_interrupted c m) = Some c \<and>
   strip_failure_marker (launch_interrupted c m) = m \<and>
   strip_failure_marker (no_result_error c m) = unwrap_or m (strip_prefix INTERRUPTED_MARKER m) \<and>
   carries_marker (launch_interrupted c m) INTERRUPTED_MARKER \<and>
   strip_failure_marker (store_fault e) = e \<and>
   is_parked (before @ PARKED_MARKER @ after)"
proof -
  have "carries_marker (launch_interrupted c m) INTERRUPTED_MARKER"
    using contains_append [of "[FAILURE_MARKER] @ failure_str c @ [FAILURE_MARKER]" INTERRUPTED_MARKER m]
    by (simp add: carries_marker_def launch_interrupted_def no_result_error_def)
  moreover have "strip_prefix EMIT_REFUSED_MARKER (STORE_FAULT_MARKER @ e) = None"
    by (simp add: EMIT_REFUSED_MARKER_def STORE_FAULT_MARKER_def marker_def)
  ultimately show ?thesis
    using contains_append [of before PARKED_MARKER after] no_result_unmarked [of c]
    by (simp add: failure_class_of_def launch_interrupted_def strip_failure_marker_def failure_parts_no_result
        from_category_str store_fault_def is_parked_def carries_marker_def)
qed

end
