(* ===== verification/Scheduler.thy ===== *)
theory Scheduler
  imports Wave Agent
begin

text \<open>
  The conductor's wave scheduler (\<open>conductor.rs\<close>): the admission rule, the frontier and its guard
  against ungated fan-out units, and \<open>run_wave\<close>, whose threads make it a state machine. One turn of
  its loop admits every waiting stage the rule allows, then takes the report of some running stage
  (which one, and what it reports, is not the scheduler's to choose) and settles it; a landing may
  widen the wave. The relation \<open>wave_turns\<close> counts the turns. A stage's report is its
  \<open>Result<bool, Error>\<close>; a \<open>HashMap\<close> that is iterated is an association list.

  The theorems: units in flight never conflict and never exceed the width, a wave ends after at most
  one turn per stage of the workflow and then leaves no admissible stage waiting, and a wave with
  work and nothing in flight starts some of it.
\<close>

section \<open>Radii\<close>

abbreviation "TYPE_BLAST_RADIUS_COMPUTED \<equiv> ''BlastRadiusComputed''"

definition field_str :: "codec \<Rightarrow> event \<Rightarrow> string \<Rightarrow> string option" where
  "field_str D e key = Option.bind (decode (de_value D) e) (\<lambda>v. Option.bind (value_get v key) as_str)"

definition field_str_vec :: "codec \<Rightarrow> event \<Rightarrow> string \<Rightarrow> string list" where
  "field_str_vec D e key =
     (case decode (de_value D) e of None \<Rightarrow> [] | Some v \<Rightarrow> string_entries (value_get v key))"

definition recorded_radius :: "codec \<Rightarrow> event \<Rightarrow> (string \<times> string list) option" where
  "recorded_radius D e =
     (if ev_type e \<noteq> TYPE_BLAST_RADIUS_COMPUTED then None
      else map_option (\<lambda>i. (i, field_str_vec D e ''safe'')) (field_str D e ''id''))"

definition recorded_radii :: "codec \<Rightarrow> event list \<Rightarrow> string \<Rightarrow> string list option" where
  "recorded_radii D es = map_of (rev (List.map_filter (recorded_radius D) es))"

type_synonym radii = "string \<Rightarrow> string list option"

definition by_blast :: "string \<Rightarrow> bool" where
  "by_blast p \<longleftrightarrow> eq_ignore_ascii_case p ''by-blast-radius''"

definition partition_requested :: "string \<Rightarrow> stages \<Rightarrow> string list \<Rightarrow> bool" where
  "partition_requested default_partition stages ready \<longleftrightarrow>
     list_ex (\<lambda>name. case bt_get stages name of
         None \<Rightarrow> False
       | Some st \<Rightarrow> by_blast (if s_partition st \<noteq> [] then s_partition st else default_partition)) ready"

text \<open>What the scheduler reads around it when it computes radii: whether there is a grounder, the
  grounder's safe radius of a stage (a port of the program), the run's events or the store's error,
  and whether a landing may join (no: the budget is spent or a rollback is queued). Recording a
  computed radius is an audit event and leaves the scheduler's state alone.\<close>

record wave_env =
  we_grounder :: bool
  we_grounded :: "stage \<Rightarrow> string list"
  we_events :: "string + event list"
  we_no_join :: bool

definition safe_radius :: "codec \<Rightarrow> (stage \<Rightarrow> string list) \<Rightarrow> event list \<Rightarrow> stages \<Rightarrow> string \<Rightarrow> string list" where
  "safe_radius D grounded es stages name =
     (case recorded_radii D es name of
        Some safe \<Rightarrow> safe
      | None \<Rightarrow> (case bt_get stages name of Some st \<Rightarrow> grounded st | None \<Rightarrow> []))"

definition wave_radii ::
  "codec \<Rightarrow> string \<Rightarrow> wave_env \<Rightarrow> stages \<Rightarrow> string list \<Rightarrow> string set \<Rightarrow> string + radii option" where
  "wave_radii D default_partition env stages ready in_flight =
     (if \<not> we_grounder env \<or> \<not> partition_requested default_partition stages ready then Inr None
      else bind_res (we_events env) (\<lambda>es.
        Inr (Some (\<lambda>name. if name \<in> set ready \<or> name \<in> in_flight
                          then Some (safe_radius D (we_grounded env) es stages name) else None))))"

section \<open>Admission\<close>

abbreviation "MAX_CONCURRENCY \<equiv> (4 :: nat)"

text \<open>\<open>radii[name]\<close> indexes the map: \<open>wave_radii\<close> holds an entry for every ready stage, so the
  lookup does not panic; where it would, the model reads the empty radius, which admits nothing
  beside a unit in flight.\<close>

definition admissible :: "string \<Rightarrow> nat \<Rightarrow> string set \<Rightarrow> string set \<Rightarrow> radii option \<Rightarrow> bool" where
  "admissible name width running in_flight radii =
     (if card running \<ge> MAX_CONCURRENCY then False
      else if name \<in> in_flight then True
      else if width \<noteq> 0 \<and> card in_flight \<ge> width then False
      else case radii of
        None \<Rightarrow> True
      | Some r \<Rightarrow> \<forall>other \<in> in_flight.
          (case r other of None \<Rightarrow> False | Some files \<Rightarrow> \<not> radii_conflict (unwrap_or [] (r name)) files))"

section \<open>The frontier\<close>

record frontier =
  fr_critique_gate :: "string option"
  fr_fanout_criteria :: "(string \<times> string set) list"
  fr_template_gates :: "(string \<times> string list) list"

definition frontier_ready :: "frontier \<Rightarrow> stages \<Rightarrow> string set \<Rightarrow> string set \<Rightarrow> string list" where
  "frontier_ready fr stages integrated terminal =
     wave_ready stages integrated terminal (fr_critique_gate fr) (map_of (fr_fanout_criteria fr))"

text \<open>Whether the guard refuses a unit. The refusal's text names a template the hash map's iteration
  picks; the unit it names is the first one refused.\<close>

definition ungated_fanout_unit :: "frontier \<Rightarrow> stages \<Rightarrow> string \<Rightarrow> bool" where
  "ungated_fanout_unit fr stages name =
     (case bt_get stages name of
        None \<Rightarrow> False
      | Some st \<Rightarrow>
          s_gates st = [] \<and>
          (list_ex (\<lambda>(template, criteria). s_criterion_id st \<in> criteria \<and>
               unwrap_or [] (map_of (fr_template_gates fr) template) \<noteq> []) (fr_fanout_criteria fr) \<or>
           s_unmatched_fanout_proposal st \<and> list_ex (\<lambda>(_, gates). gates \<noteq> []) (fr_template_gates fr)))"

definition assert_no_ungated_fanout_unit :: "frontier \<Rightarrow> stages \<Rightarrow> string list \<Rightarrow> string option" where
  "assert_no_ungated_fanout_unit fr stages ready = find (ungated_fanout_unit fr stages) ready"

section \<open>The wave\<close>

definition BUDGET_MARKER :: string where "BUDGET_MARKER = marker ''spawn-budget-exhausted''"
definition DEGENERATE_MARKER :: string where "DEGENERATE_MARKER = marker ''reviewer-degenerate''"
definition MISMATCH_MARKER :: string where "MISMATCH_MARKER = marker ''verdict-channel-mismatch''"
definition PLAN_LANDING_MARKER :: string where "PLAN_LANDING_MARKER = marker ''plan-landing-failed''"
definition LAND_REFUSED_MARKER :: string where "LAND_REFUSED_MARKER = marker ''land-refused''"
definition INFRA_MARKER :: string where "INFRA_MARKER = marker ''infra-halt''"
definition SPAWN_CRASH_MARKER :: string where "SPAWN_CRASH_MARKER = marker ''spawn-crashed''"

definition HALT_MARKERS :: "string list" where
  "HALT_MARKERS = [DEGENERATE_MARKER, MISMATCH_MARKER, PLAN_LANDING_MARKER, LAND_REFUSED_MARKER, INFRA_MARKER]"

record wave_state =
  ws_waiting :: "string list"
  ws_running :: "string set"
  ws_in_flight :: "string set"
  ws_integrated :: "string set"
  ws_terminal :: "string set"
  ws_offered :: "string set"
  ws_radii :: "radii option"
  ws_admitted_any :: bool
  ws_parked :: bool
  ws_lessons :: "(string \<times> string) list"
  ws_first_err :: "string option"

definition wave_init :: "radii option \<Rightarrow> string list \<Rightarrow> string set \<Rightarrow> string set \<Rightarrow> string set \<Rightarrow> wave_state" where
  "wave_init radii ready integrated terminal in_flight =
     \<lparr>ws_waiting = ready, ws_running = {}, ws_in_flight = in_flight, ws_integrated = integrated,
      ws_terminal = terminal, ws_offered = set ready, ws_radii = radii, ws_admitted_any = False,
      ws_parked = False, ws_lessons = [], ws_first_err = None\<rparr>"

text \<open>The admission scan over the waiting list: what it keeps waiting, and the state after it.\<close>

fun admit_scan :: "nat \<Rightarrow> string list \<Rightarrow> wave_state \<Rightarrow> string list \<times> wave_state" where
  "admit_scan width [] s = ([], s)"
| "admit_scan width (name # rest) s =
     (if admissible name width (ws_running s) (ws_in_flight s) (ws_radii s)
      then admit_scan width rest (s\<lparr>ws_running := insert name (ws_running s),
             ws_in_flight := insert name (ws_in_flight s), ws_admitted_any := True\<rparr>)
      else case admit_scan width rest s of (kept, s') \<Rightarrow> (name # kept, s'))"

definition admit_pass :: "nat \<Rightarrow> wave_state \<Rightarrow> wave_state" where
  "admit_pass width s = (case admit_scan width (ws_waiting s) s of (kept, s') \<Rightarrow> s'\<lparr>ws_waiting := kept\<rparr>)"

definition note_err :: "string \<Rightarrow> wave_state \<Rightarrow> wave_state" where
  "note_err msg s = (if ws_first_err s = None then s\<lparr>ws_first_err := Some msg\<rparr> else s)"

definition settle_stage :: "string \<Rightarrow> string + bool \<Rightarrow> wave_state \<Rightarrow> wave_state" where
  "settle_stage name r s0 =
     (let s = s0\<lparr>ws_terminal := insert name (ws_terminal s0), ws_in_flight := ws_in_flight s0 - {name}\<rparr> in
      case r of
        Inr True \<Rightarrow> s\<lparr>ws_integrated := insert name (ws_integrated s)\<rparr>
      | Inr False \<Rightarrow> s
      | Inl e \<Rightarrow>
          if is_parked e then s\<lparr>ws_in_flight := insert name (ws_in_flight s), ws_parked := True\<rparr>
          else if carries_marker e BUDGET_MARKER then s
          else if list_ex (carries_marker e) HALT_MARKERS
            then note_err (foldl (\<lambda>msg m. replace_all m msg) e HALT_MARKERS) s
          else
            (let msg = replace_all SPAWN_CRASH_MARKER (strip_failure_marker e)
             in note_err msg (s\<lparr>ws_lessons := ws_lessons s @ [(name, msg)]\<rparr>)))"

record wave_cfg =
  wc_codec :: codec
  wc_stages :: stages
  wc_width :: nat
  wc_partition :: string
  wc_frontier :: "frontier option"

definition landing_joins ::
  "wave_cfg \<Rightarrow> wave_env \<Rightarrow> frontier \<Rightarrow> wave_state \<Rightarrow> string + (string list \<times> radii option) option" where
  "landing_joins c env fr s =
     (if we_no_join env then Inr None
      else
        (let ready = frontier_ready fr (wc_stages c) (ws_integrated s) (ws_terminal s);
             joined = filter (\<lambda>n. n \<notin> ws_offered s) ready
         in if joined = [] then Inr None
            else case assert_no_ungated_fanout_unit fr (wc_stages c) joined of
              Some name \<Rightarrow> Inl (''conductor invariant violated: fan-out unit '' @ name)
            | None \<Rightarrow>
                bind_res (wave_radii (wc_codec c) (wc_partition c) env (wc_stages c) ready (ws_in_flight s))
                  (\<lambda>radii. Inr (Some (joined, radii)))))"

definition wave_join :: "wave_cfg \<Rightarrow> wave_env \<Rightarrow> wave_state \<Rightarrow> wave_state" where
  "wave_join c env s =
     (case wc_frontier c of
        None \<Rightarrow> s
      | Some fr \<Rightarrow>
          (case landing_joins c env fr s of
             Inl e \<Rightarrow> s\<lparr>ws_first_err := Some e\<rparr>
           | Inr None \<Rightarrow> s
           | Inr (Some (joined, radii)) \<Rightarrow>
               s\<lparr>ws_radii := radii, ws_offered := ws_offered s \<union> set joined, ws_waiting := ws_waiting s @ joined\<rparr>))"

definition wave_report :: "wave_cfg \<Rightarrow> wave_env \<Rightarrow> string \<Rightarrow> string + bool \<Rightarrow> wave_state \<Rightarrow> wave_state" where
  "wave_report c env name r s0 =
     (let s = settle_stage name r (s0\<lparr>ws_running := ws_running s0 - {name}\<rparr>)
      in if r \<noteq> Inr True \<or> ws_first_err s \<noteq> None then s else wave_join c env s)"

text \<open>\<open>n\<close> turns of the wave's loop, under environments \<open>E\<close> allows.\<close>

inductive wave_turns :: "wave_cfg \<Rightarrow> (wave_env \<Rightarrow> bool) \<Rightarrow> nat \<Rightarrow> wave_state \<Rightarrow> wave_state \<Rightarrow> bool"
  for c :: wave_cfg and E :: "wave_env \<Rightarrow> bool" where
  start: "wave_turns c E 0 s s"
| turn: "wave_turns c E n s t \<Longrightarrow> name \<in> ws_running (admit_pass (wc_width c) t) \<Longrightarrow> E env \<Longrightarrow>
    wave_turns c E (Suc n) s (wave_report c env name r (admit_pass (wc_width c) t))"

inductive_cases wave_turns_SucE: "wave_turns c E (Suc n) s t"

text \<open>The wave ends at the first turn with nothing running after its admission scan; \<open>run_wave\<close> then
  answers the first error, or whether it admitted anything.\<close>

definition wave_over :: "wave_cfg \<Rightarrow> wave_state \<Rightarrow> bool" where
  "wave_over c s \<longleftrightarrow> ws_running (admit_pass (wc_width c) s) = {}"

definition wave_answer :: "wave_cfg \<Rightarrow> wave_state \<Rightarrow> string + bool" where
  "wave_answer c s =
     (let s' = admit_pass (wc_width c) s
      in case ws_first_err s' of Some e \<Rightarrow> Inl e | None \<Rightarrow> Inr (ws_admitted_any s'))"

section \<open>Admission keeps the bounds\<close>

lemma admit_scan_frame:
  "ws_waiting (snd (admit_scan w ns s)) = ws_waiting s" "ws_integrated (snd (admit_scan w ns s)) = ws_integrated s"
  "ws_terminal (snd (admit_scan w ns s)) = ws_terminal s" "ws_offered (snd (admit_scan w ns s)) = ws_offered s"
  "ws_radii (snd (admit_scan w ns s)) = ws_radii s" "ws_first_err (snd (admit_scan w ns s)) = ws_first_err s"
  by (induction w ns s rule: admit_scan.induct) (auto split: prod.splits)

lemma admit_scan_invariant:
  assumes "P (ws_running s) (ws_in_flight s)"
    and "\<And>name R F. P R F \<Longrightarrow> name \<in> set ns \<Longrightarrow> admissible name w R F (ws_radii s) \<Longrightarrow> P (insert name R) (insert name F)"
  shows "P (ws_running (snd (admit_scan w ns s))) (ws_in_flight (snd (admit_scan w ns s)))"
  using assms by (induction w ns s rule: admit_scan.induct) (auto split: prod.splits)

lemma admit_scan_sets:
  assumes "distinct ns" "set ns \<inter> ws_running s = {}"
  shows "distinct (fst (admit_scan w ns s)) \<and> set (fst (admit_scan w ns s)) \<subseteq> set ns \<and>
    ws_running (snd (admit_scan w ns s)) = ws_running s \<union> (set ns - set (fst (admit_scan w ns s))) \<and>
    ws_in_flight (snd (admit_scan w ns s)) = ws_in_flight s \<union> (set ns - set (fst (admit_scan w ns s)))"
  using assms
proof (induction ns arbitrary: s)
  case (Cons n ns)
  show ?case
  proof (cases "admissible n w (ws_running s) (ws_in_flight s) (ws_radii s)")
    case True
    let ?s = "s\<lparr>ws_running := insert n (ws_running s), ws_in_flight := insert n (ws_in_flight s), ws_admitted_any := True\<rparr>"
    have "set ns \<inter> ws_running ?s = {}" using Cons.prems by auto
    with Cons.IH [of ?s] Cons.prems True show ?thesis by auto
  next
    case False
    have "set ns \<inter> ws_running s = {}" using Cons.prems by auto
    with Cons.IH [of s] Cons.prems False show ?thesis by (auto split: prod.splits)
  qed
qed simp

lemma admit_scan_running: "ws_running s \<subseteq> ws_running (snd (admit_scan w ns s))"
  by (induction w ns s rule: admit_scan.induct) (auto split: prod.splits)

lemma admit_scan_idle:
  "ws_running (snd (admit_scan w ns s)) = {} \<longleftrightarrow>
     ws_running s = {} \<and> (\<forall>n \<in> set ns. \<not> admissible n w (ws_running s) (ws_in_flight s) (ws_radii s))"
proof (induction ns)
  case (Cons n ns)
  show ?case
  proof (cases "admissible n w (ws_running s) (ws_in_flight s) (ws_radii s)")
    case True
    then have "n \<in> ws_running (snd (admit_scan w (n # ns) s))"
      using admit_scan_running [of _ w ns] by fastforce
    with True show ?thesis by auto
  next
    case False
    with Cons show ?thesis by (auto split: prod.splits)
  qed
qed simp

text \<open>
  A wave is over exactly when nothing is running and the admission rule allows no waiting stage:
  the scan never ends a wave while some waiting stage could start, and never leaves one running
  behind.
\<close>

theorem wave_over_exact:
  "wave_over c s \<longleftrightarrow> ws_running s = {} \<and>
     (\<forall>n \<in> set (ws_waiting s). \<not> admissible n (wc_width c) {} (ws_in_flight s) (ws_radii s))"
  using admit_scan_idle [of "wc_width c" "ws_waiting s" s]
  by (auto simp: wave_over_def admit_pass_def split: prod.splits)

text \<open>The state invariant of a wave over the stages \<open>K\<close>.\<close>

definition wave_wf :: "string set \<Rightarrow> wave_state \<Rightarrow> bool" where
  "wave_wf K s \<longleftrightarrow> distinct (ws_waiting s) \<and> set (ws_waiting s) \<inter> ws_running s = {} \<and>
     ws_running s \<subseteq> ws_in_flight s \<and> set (ws_waiting s) \<union> ws_running s \<subseteq> ws_offered s \<and>
     ws_offered s \<subseteq> K \<and> finite (ws_in_flight s) \<and>
     ws_offered s \<subseteq> set (ws_waiting s) \<union> ws_running s \<union> ws_terminal s"

lemma wave_wf_admit:
  assumes "wave_wf K s"
  shows "wave_wf K (admit_pass w s)"
    "card (ws_running (admit_pass w s)) + length (ws_waiting (admit_pass w s)) = card (ws_running s) + length (ws_waiting s)"
proof -
  obtain kept t where k: "admit_scan w (ws_waiting s) s = (kept, t)" by force
  have wf: "distinct (ws_waiting s)" "set (ws_waiting s) \<inter> ws_running s = {}" "finite (ws_running s)"
    using assms by (auto simp: wave_wf_def intro: finite_subset)
  have sets: "distinct kept" "set kept \<subseteq> set (ws_waiting s)" "ws_running t = ws_running s \<union> (set (ws_waiting s) - set kept)"
    "ws_in_flight t = ws_in_flight s \<union> (set (ws_waiting s) - set kept)"
    using admit_scan_sets [OF wf(1,2), of w] by (simp_all add: k)
  note frame = admit_scan_frame [of w "ws_waiting s" s, unfolded k, simplified]
  have pass: "admit_pass w s = t\<lparr>ws_waiting := kept\<rparr>" by (simp add: admit_pass_def k)
  show "wave_wf K (admit_pass w s)"
    using assms sets frame unfolding pass wave_wf_def by auto
  have "card (ws_running t) = card (ws_running s) + card (set (ws_waiting s) - set kept)"
    unfolding sets(3) using wf by (intro card_Un_disjoint) auto
  moreover have "card (set (ws_waiting s) - set kept) = length (ws_waiting s) - length kept"
    using sets(1,2) wf(1) by (simp add: card_Diff_subset distinct_card)
  moreover have "length kept \<le> length (ws_waiting s)"
    using sets(1,2) wf(1) card_mono [of "set (ws_waiting s)" "set kept"] by (simp add: distinct_card)
  ultimately show "card (ws_running (admit_pass w s)) + length (ws_waiting (admit_pass w s)) =
      card (ws_running s) + length (ws_waiting s)"
    by (simp add: pass)
qed

lemma note_err_frame [simp]:
  "ws_waiting (note_err m s) = ws_waiting s" "ws_running (note_err m s) = ws_running s"
  "ws_offered (note_err m s) = ws_offered s" "ws_radii (note_err m s) = ws_radii s"
  "ws_terminal (note_err m s) = ws_terminal s" "ws_in_flight (note_err m s) = ws_in_flight s"
  by (simp_all add: note_err_def)

lemma settle_stage_frame:
  "ws_waiting (settle_stage n r s) = ws_waiting s" "ws_running (settle_stage n r s) = ws_running s"
  "ws_offered (settle_stage n r s) = ws_offered s" "ws_radii (settle_stage n r s) = ws_radii s"
  "ws_terminal (settle_stage n r s) = insert n (ws_terminal s)"
  "ws_in_flight (settle_stage n r s) \<subseteq> insert n (ws_in_flight s)"
  "ws_in_flight s - {n} \<subseteq> ws_in_flight (settle_stage n r s)"
  by (auto simp: settle_stage_def Let_def split: sum.splits bool.splits)

lemma wave_join_cases:
  obtains (same) e where "wave_join c env s = s\<lparr>ws_first_err := e\<rparr>"
  | (joined) fr js rr where "wc_frontier c = Some fr" "js \<noteq> []"
      "js = filter (\<lambda>n. n \<notin> ws_offered s) (frontier_ready fr (wc_stages c) (ws_integrated s) (ws_terminal s))"
      "wave_radii (wc_codec c) (wc_partition c) env (wc_stages c)
         (frontier_ready fr (wc_stages c) (ws_integrated s) (ws_terminal s)) (ws_in_flight s) = Inr rr"
      "wave_join c env s = s\<lparr>ws_radii := rr, ws_offered := ws_offered s \<union> set js, ws_waiting := ws_waiting s @ js\<rparr>"
proof (cases "wc_frontier c")
  case None
  then show thesis using same [of "ws_first_err s"] by (simp add: wave_join_def)
next
  case (Some fr)
  let ?ready = "frontier_ready fr (wc_stages c) (ws_integrated s) (ws_terminal s)"
  show thesis
  proof (cases "landing_joins c env fr s")
    case (Inl e)
    then show thesis using same [of "Some e"] Some by (simp add: wave_join_def)
  next
    case (Inr b)
    show thesis
    proof (cases b)
      case None
      then show thesis using same [of "ws_first_err s"] Some Inr by (simp add: wave_join_def)
    next
      case (Some p)
      obtain js rr where p: "p = (js, rr)" by (cases p)
      have j: "js \<noteq> [] \<and> js = filter (\<lambda>n. n \<notin> ws_offered s) ?ready \<and>
          wave_radii (wc_codec c) (wc_partition c) env (wc_stages c) ?ready (ws_in_flight s) = Inr rr"
        using Inr [unfolded Some p]
        by (auto simp: landing_joins_def Let_def bind_res_def split: if_splits option.splits sum.splits)
      have "wave_join c env s = s\<lparr>ws_radii := rr, ws_offered := ws_offered s \<union> set js, ws_waiting := ws_waiting s @ js\<rparr>"
        using \<open>wc_frontier c = Some fr\<close> Inr [unfolded Some p] by (simp add: wave_join_def)
      with j show thesis by (intro joined [of fr js rr] \<open>wc_frontier c = Some fr\<close>) blast+
    qed
  qed
qed

abbreviation stage_keys :: "wave_cfg \<Rightarrow> string set" where
  "stage_keys c \<equiv> set (bt_keys (wc_stages c))"

definition wave_work :: "wave_cfg \<Rightarrow> wave_state \<Rightarrow> nat" where
  "wave_work c s = card (stage_keys c - ws_offered s) + length (ws_waiting s) + card (ws_running s)"

lemma wave_join_wf:
  assumes "bt_wf (wc_stages c)" "wave_wf (stage_keys c) s"
  shows "wave_wf (stage_keys c) (wave_join c env s) \<and> wave_work c (wave_join c env s) = wave_work c s"
proof (cases rule: wave_join_cases [of c env s])
  case (same e)
  with assms(2) show ?thesis by (simp add: wave_wf_def wave_work_def)
next
  case (joined fr js rr)
  let ?ready = "frontier_ready fr (wc_stages c) (ws_integrated s) (ws_terminal s)"
  have "distinct ?ready" "set ?ready \<subseteq> stage_keys c"
    using ready_stages_distinct [OF assms(1)] ready_stages_mem [OF assms(1)]
    by (auto simp: frontier_ready_def wave_ready_def)
  then have js: "distinct js" "set js \<subseteq> stage_keys c" "set js \<inter> ws_offered s = {}" unfolding joined(3) by auto
  have "card (stage_keys c - (ws_offered s \<union> set js)) + card (set js) = card (stage_keys c - ws_offered s)"
  proof -
    have "stage_keys c - (ws_offered s \<union> set js) = (stage_keys c - ws_offered s) - set js" by auto
    moreover have "set js \<subseteq> stage_keys c - ws_offered s" using js by auto
    ultimately show ?thesis
      using card_Diff_subset [of "set js" "stage_keys c - ws_offered s"] card_mono [of "stage_keys c - ws_offered s" "set js"]
      by simp
  qed
  then have "wave_work c (wave_join c env s) = wave_work c s"
    using js(1) by (simp add: wave_work_def joined(5) distinct_card)
  moreover have "wave_wf (stage_keys c) (wave_join c env s)"
    using assms(2) js by (auto simp: wave_wf_def joined(5))
  ultimately show ?thesis by blast
qed

lemma wave_report_wf:
  assumes "bt_wf (wc_stages c)" "wave_wf (stage_keys c) s" "name \<in> ws_running s"
  shows "wave_wf (stage_keys c) (wave_report c env name r s) \<and> Suc (wave_work c (wave_report c env name r s)) = wave_work c s"
proof -
  let ?t = "settle_stage name r (s\<lparr>ws_running := ws_running s - {name}\<rparr>)"
  have fin: "finite (ws_running s)" using assms(2) by (auto simp: wave_wf_def intro: finite_subset)
  have "wave_wf (stage_keys c) ?t"
    using assms(2,3) settle_stage_frame(6) [of name r "s\<lparr>ws_running := ws_running s - {name}\<rparr>"]
      settle_stage_frame(7) [of "s\<lparr>ws_running := ws_running s - {name}\<rparr>" name r]
    by (auto simp: wave_wf_def settle_stage_frame intro: finite_subset)
  moreover have "Suc (wave_work c ?t) = wave_work c s"
    using assms(3) fin card_Suc_Diff1 [of "ws_running s" name] by (simp add: wave_work_def settle_stage_frame)
  ultimately have both: "wave_wf (stage_keys c) u \<and> Suc (wave_work c u) = wave_work c s" if "u = ?t \<or> u = wave_join c env ?t" for u
    using wave_join_wf [OF assms(1), of ?t env] that by auto
  show ?thesis by (rule both) (simp add: wave_report_def Let_def)
qed

lemma wave_turns_wf:
  assumes "wave_turns c E n s t" "bt_wf (wc_stages c)" "wave_wf (stage_keys c) s"
  shows "wave_wf (stage_keys c) t \<and> n + wave_work c t = wave_work c s"
  using assms
proof (induction rule: wave_turns.induct)
  case (turn n s t name env r)
  let ?u = "admit_pass (wc_width c) t"
  have t: "wave_wf (stage_keys c) t" "n + wave_work c t = wave_work c s" using turn by auto
  obtain kept u where "admit_scan (wc_width c) (ws_waiting t) t = (kept, u)" by force
  then have "ws_offered ?u = ws_offered t"
    using admit_scan_frame(4) [of "wc_width c" "ws_waiting t" t] by (simp add: admit_pass_def)
  then have "wave_work c ?u = wave_work c t"
    using wave_wf_admit(2) [OF t(1), of "wc_width c"] by (simp add: wave_work_def)
  with wave_report_wf [OF turn.prems(1) wave_wf_admit(1) [OF t(1)] turn.hyps(2), of env r] t(2)
  show ?case by auto
qed simp

lemma wave_init_wf:
  assumes "distinct ready" "set ready \<subseteq> stage_keys c" "finite F"
  shows "wave_wf (stage_keys c) (wave_init radii ready I T F)" "wave_work c (wave_init radii ready I T F) = card (stage_keys c)"
proof -
  show "wave_wf (stage_keys c) (wave_init radii ready I T F)" using assms by (simp add: wave_wf_def wave_init_def)
  have "card (stage_keys c - set ready) + card (set ready) = card (stage_keys c)"
    using assms(2) card_Diff_subset [of "set ready" "stage_keys c"] card_mono [OF _ assms(2)] by simp
  then show "wave_work c (wave_init radii ready I T F) = card (stage_keys c)"
    using assms(1) by (simp add: wave_work_def wave_init_def distinct_card)
qed

text \<open>
  C30. A wave ends: over a workflow's stages, a wave that took \<open>n\<close> turns has at most as many stages
  still waiting or running as the workflow has stages beyond those \<open>n\<close>, whatever its stages report and
  whatever joins it, so no wave takes more turns than the workflow has stages; and every stage it
  offered is waiting, running or settled.
\<close>

theorem wave_turns_bounded:
  assumes "wave_turns c E n (wave_init radii ready I T F) s"
    and "bt_wf (wc_stages c)" "distinct ready" "set ready \<subseteq> set (bt_keys (wc_stages c))" "finite F"
  shows "n + length (ws_waiting s) + card (ws_running s) \<le> card (set (bt_keys (wc_stages c))) \<and>
    ws_offered s \<subseteq> set (ws_waiting s) \<union> ws_running s \<union> ws_terminal s"
  using wave_turns_wf [OF assms(1,2) wave_init_wf(1) [OF assms(3-5)]] wave_init_wf(2) [OF assms(3-5)]
  by (auto simp: wave_work_def wave_wf_def)

section \<open>What is in flight\<close>

text \<open>Every radius a map of the wave holds is the unit's safe radius.\<close>

definition radii_agree :: "(string \<Rightarrow> string list) \<Rightarrow> radii option \<Rightarrow> bool" where
  "radii_agree safe radii \<longleftrightarrow> (\<exists>r. radii = Some r \<and> (\<forall>x files. r x = Some files \<longrightarrow> files = safe x))"

definition flight_ok :: "(string \<Rightarrow> string list) \<Rightarrow> nat \<Rightarrow> nat \<Rightarrow> string set \<Rightarrow> string set \<Rightarrow> bool" where
  "flight_ok safe width bound running in_flight \<longleftrightarrow>
     finite in_flight \<and> running \<subseteq> in_flight \<and> card running \<le> MAX_CONCURRENCY \<and>
     (width \<noteq> 0 \<longrightarrow> card in_flight \<le> max width bound) \<and>
     (\<forall>x \<in> in_flight. \<forall>y \<in> in_flight. x \<noteq> y \<longrightarrow> \<not> radii_conflict (safe x) (safe y))"

lemma flight_ok_admit:
  assumes "flight_ok safe w b R F" "radii_agree safe radii" "admissible name w R F radii"
  shows "flight_ok safe w b (insert name R) (insert name F)"
proof -
  obtain r where r: "radii = Some r" "\<And>x files. r x = Some files \<Longrightarrow> files = safe x"
    using assms(2) by (auto simp: radii_agree_def)
  have R: "card R < MAX_CONCURRENCY" using assms(3) by (auto simp: admissible_def split: if_splits)
  have fin: "finite F" "finite R" using assms(1) by (auto simp: flight_ok_def intro: finite_subset)
  have "card (insert name R) \<le> MAX_CONCURRENCY" using R fin(2) by (simp add: card_insert_if)
  moreover have "w \<noteq> 0 \<longrightarrow> card (insert name F) \<le> max w b"
    using assms(1,3) fin(1) by (auto simp: flight_ok_def admissible_def card_insert_if split: if_splits)
  moreover have "\<forall>x \<in> insert name F. \<forall>y \<in> insert name F. x \<noteq> y \<longrightarrow> \<not> radii_conflict (safe x) (safe y)"
  proof (cases "name \<in> F")
    case True
    with assms(1) show ?thesis by (simp add: flight_ok_def insert_absorb)
  next
    case False
    have "\<not> radii_conflict (safe name) (safe other)" if other: "other \<in> F" for other
    proof -
      from assms(3) False other r(1) obtain files where f: "r other = Some files"
        "\<not> radii_conflict (unwrap_or [] (r name)) files"
        by (auto simp: admissible_def split: if_splits option.splits)
      then obtain own where own: "r name = Some own" by (cases "r name") (auto simp: radii_conflict_def)
      from f r(2) [OF f(1)] r(2) [OF own] own show ?thesis by simp
    qed
    with assms(1) show ?thesis unfolding flight_ok_def by (intro blast.insert_free) auto
  qed
  ultimately show ?thesis using assms(1) by (auto simp: flight_ok_def)
qed

lemma flight_ok_mono:
  assumes "flight_ok safe w b R F" "R' \<subseteq> R" "R' \<subseteq> F'" "F' \<subseteq> F"
  shows "flight_ok safe w b R' F'"
proof -
  have fin: "finite F" "finite R" using assms(1) by (auto simp: flight_ok_def intro: finite_subset)
  have "card R' \<le> card R" "card F' \<le> card F" using assms fin by (auto intro: card_mono)
  moreover have "\<forall>x \<in> F'. \<forall>y \<in> F'. x \<noteq> y \<longrightarrow> \<not> radii_conflict (safe x) (safe y)"
    using assms(1,4) unfolding flight_ok_def by blast
  ultimately show ?thesis using assms fin unfolding flight_ok_def by (auto intro: finite_subset)
qed

lemma flight_ok_pass:
  assumes "flight_ok safe w b (ws_running s) (ws_in_flight s)" "radii_agree safe (ws_radii s)"
  shows "flight_ok safe w b (ws_running (admit_pass w s)) (ws_in_flight (admit_pass w s))"
    "ws_radii (admit_pass w s) = ws_radii s"
proof -
  have "flight_ok safe w b (ws_running (snd (admit_scan w (ws_waiting s) s))) (ws_in_flight (snd (admit_scan w (ws_waiting s) s)))"
    by (rule admit_scan_invariant [where P = "flight_ok safe w b"]) (use assms flight_ok_admit in auto)
  then show "flight_ok safe w b (ws_running (admit_pass w s)) (ws_in_flight (admit_pass w s))"
    by (simp add: admit_pass_def split_beta)
  show "ws_radii (admit_pass w s) = ws_radii s"
    using admit_scan_frame(5) [of w "ws_waiting s" s] by (simp add: admit_pass_def split_beta)
qed

text \<open>The environments under which the co-scheduling rule applies with the safe radii \<open>safe\<close>: there is
  a grounder, and the run's records and the grounder give every unit that radius.\<close>

definition env_safe :: "wave_cfg \<Rightarrow> (string \<Rightarrow> string list) \<Rightarrow> wave_env \<Rightarrow> bool" where
  "env_safe c safe env \<longleftrightarrow> we_grounder env \<and>
     (case we_events env of Inl _ \<Rightarrow> True
      | Inr es \<Rightarrow> \<forall>x. safe_radius (wc_codec c) (we_grounded env) es (wc_stages c) x = safe x)"

lemma wave_radii_agree:
  assumes "env_safe c safe env" "wave_radii (wc_codec c) (wc_partition c) env (wc_stages c) ready F = Inr rr"
    and "partition_requested (wc_partition c) (wc_stages c) ready"
  shows "radii_agree safe rr"
  using assms by (auto simp: env_safe_def wave_radii_def radii_agree_def bind_res_def split: sum.splits if_splits)

lemma partition_requested_any:
  assumes "\<And>n. n \<in> stage_keys c \<Longrightarrow> partition_requested (wc_partition c) (wc_stages c) [n]"
    and "set ready \<subseteq> stage_keys c" "ready \<noteq> []"
  shows "partition_requested (wc_partition c) (wc_stages c) ready"
  using assms by (cases ready) (auto simp: partition_requested_def)

lemma flight_ok_report:
  assumes "bt_wf (wc_stages c)" "env_safe c safe env" "\<And>n. n \<in> stage_keys c \<Longrightarrow> partition_requested (wc_partition c) (wc_stages c) [n]"
    and "flight_ok safe w b (ws_running s) (ws_in_flight s)" "radii_agree safe (ws_radii s)" "name \<in> ws_running s"
  shows "flight_ok safe w b (ws_running (wave_report c env name r s)) (ws_in_flight (wave_report c env name r s)) \<and>
    radii_agree safe (ws_radii (wave_report c env name r s))"
proof -
  let ?s = "s\<lparr>ws_running := ws_running s - {name}\<rparr>"
  let ?t = "settle_stage name r ?s"
  have "ws_in_flight ?t \<subseteq> ws_in_flight s" "ws_in_flight s - {name} \<subseteq> ws_in_flight ?t"
    using settle_stage_frame(6) [of name r ?s] settle_stage_frame(7) [of ?s name r] assms(4,6) by (auto simp: flight_ok_def)
  moreover have "ws_running ?t = ws_running s - {name}" "ws_running s \<subseteq> ws_in_flight s"
    using assms(4) by (auto simp: settle_stage_frame flight_ok_def)
  ultimately have "flight_ok safe w b (ws_running ?t) (ws_in_flight ?t)" by (intro flight_ok_mono [OF assms(4)]) auto
  moreover have "radii_agree safe (ws_radii ?t)" using assms(5) by (simp add: settle_stage_frame)
  ultimately have t: "flight_ok safe w b (ws_running ?t) (ws_in_flight ?t)" "radii_agree safe (ws_radii ?t)" by blast+
  have "flight_ok safe w b (ws_running (wave_join c env ?t)) (ws_in_flight (wave_join c env ?t)) \<and>
      radii_agree safe (ws_radii (wave_join c env ?t))"
  proof (cases rule: wave_join_cases [of c env ?t])
    case (same e)
    with t show ?thesis by simp
  next
    case (joined fr js rr)
    let ?ready = "frontier_ready fr (wc_stages c) (ws_integrated ?t) (ws_terminal ?t)"
    have "set ?ready \<subseteq> stage_keys c"
      using ready_stages_mem [OF assms(1)] by (auto simp: frontier_ready_def wave_ready_def)
    moreover have "?ready \<noteq> []" using joined(2,3) by (metis filter.simps(1))
    ultimately have "radii_agree safe rr"
      using wave_radii_agree [OF assms(2) joined(4)] partition_requested_any [OF assms(3)] by blast
    with t joined(5) show ?thesis by simp
  qed
  then have "\<And>u. u = ?t \<or> u = wave_join c env ?t \<Longrightarrow> flight_ok safe w b (ws_running u) (ws_in_flight u) \<and> radii_agree safe (ws_radii u)"
    using t by auto
  then show ?thesis by (rule meta_spec) (simp add: wave_report_def Let_def)
qed

text \<open>
  C15. A wave partitioned by blast radius never co-schedules conflicting units: when every stage
  requests the by-blast-radius rule, the records give each unit one fixed safe radius at every turn,
  and the wave starts with no two conflicting units in flight, then after any number of turns no two
  units in flight have conflicting radii, at most four stages run in this process, and the width bound
  holds (or, after a resume that found more in flight, never more than it found), whatever the stages
  report, in whatever order, and whatever joins. Without the partition no such promise is made.
\<close>

theorem wave_coscheduling_safe:
  assumes "wave_turns c E n (wave_init radii ready I T F) s"
    and "bt_wf (wc_stages c)" "\<And>env. E env \<Longrightarrow> env_safe c safe env"
    and "\<And>x. x \<in> set (bt_keys (wc_stages c)) \<Longrightarrow> partition_requested (wc_partition c) (wc_stages c) [x]"
    and "radii_agree safe radii" "finite F" "\<And>x y. x \<in> F \<Longrightarrow> y \<in> F \<Longrightarrow> x \<noteq> y \<Longrightarrow> \<not> radii_conflict (safe x) (safe y)"
  shows "flight_ok safe (wc_width c) (card F) (ws_running s) (ws_in_flight s)"
proof -
  have "flight_ok safe (wc_width c) (card F) (ws_running t) (ws_in_flight t) \<and> radii_agree safe (ws_radii t)"
    if "wave_turns c E n s0 t" "flight_ok safe (wc_width c) (card F) (ws_running s0) (ws_in_flight s0)"
      "radii_agree safe (ws_radii s0)" for n s0 t
    using that
  proof (induction rule: wave_turns.induct)
    case (turn n s0 t name env r)
    let ?u = "admit_pass (wc_width c) t"
    from turn have t: "flight_ok safe (wc_width c) (card F) (ws_running t) (ws_in_flight t)" "radii_agree safe (ws_radii t)"
      by auto
    have u: "flight_ok safe (wc_width c) (card F) (ws_running ?u) (ws_in_flight ?u)" "radii_agree safe (ws_radii ?u)"
      using flight_ok_pass [OF t] t(2) by simp_all
    show ?case
      using assms(2) assms(3) [OF turn.hyps(3)] assms(4) u turn.hyps(2) by (rule flight_ok_report)
  qed simp
  from this [OF assms(1)] show ?thesis using assms(5-7) by (simp add: wave_init_def flight_ok_def)
qed

text \<open>A wave of two stages that share a file: the first lands, then the second starts.\<close>

definition demo_cfg :: wave_cfg where
  "demo_cfg = \<lparr>wc_codec = demo_codec,
     wc_stages = [(''a'', stage_default\<lparr>s_agent := ''w''\<rparr>), (''b'', stage_default\<lparr>s_agent := ''w''\<rparr>)],
     wc_width = 0, wc_partition = ''by-blast-radius'', wc_frontier = None\<rparr>"

definition demo_safe :: "string \<Rightarrow> string list" where
  "demo_safe x = (if x = ''a'' \<or> x = ''b'' then [''shared.rs''] else [])"

definition demo_env :: wave_env where
  "demo_env = \<lparr>we_grounder = True, we_grounded = \<lambda>_. [''shared.rs''], we_events = Inr [], we_no_join = False\<rparr>"

definition demo_wave :: wave_state where
  "demo_wave = wave_init (Some (\<lambda>x. if x = ''a'' \<or> x = ''b'' then Some [''shared.rs''] else None)) [''a'', ''b''] {} {} {}"

lemma demo_wave_pass:
  "admit_pass 0 demo_wave = demo_wave\<lparr>ws_waiting := [''b''], ws_running := {''a''}, ws_in_flight := {''a''}, ws_admitted_any := True\<rparr>"
  by (simp add: admit_pass_def demo_wave_def wave_init_def admissible_def radii_conflict_def)

lemma demo_turn:
  "wave_turns demo_cfg (\<lambda>env. env = demo_env) 1 demo_wave
     (wave_report demo_cfg demo_env ''a'' (Inr True) (admit_pass 0 demo_wave))"
proof -
  have "wave_turns demo_cfg (\<lambda>env. env = demo_env) (Suc 0) demo_wave
      (wave_report demo_cfg demo_env ''a'' (Inr True) (admit_pass (wc_width demo_cfg) demo_wave))"
    by (rule wave_turns.turn [OF wave_turns.start]) (simp_all add: demo_cfg_def demo_wave_pass)
  then show ?thesis by (simp add: demo_cfg_def)
qed

lemma demo_cfg_wf: "bt_wf (wc_stages demo_cfg)"
  by code_simp

theorem wave_coscheduling_safe_witness:
  "\<exists>n s. wave_turns demo_cfg (\<lambda>env. env = demo_env) n demo_wave s \<and> ws_integrated s = {''a''} \<and>
     flight_ok demo_safe 0 0 (ws_running s) (ws_in_flight s)"
proof -
  let ?s = "wave_report demo_cfg demo_env ''a'' (Inr True) (admit_pass 0 demo_wave)"
  have "flight_ok demo_safe (wc_width demo_cfg) (card ({} :: string set)) (ws_running ?s) (ws_in_flight ?s)"
  proof (rule wave_coscheduling_safe)
    show "wave_turns demo_cfg (\<lambda>env. env = demo_env) 1
        (wave_init (Some (\<lambda>x. if x = ''a'' \<or> x = ''b'' then Some [''shared.rs''] else None)) [''a'', ''b''] {} {} {}) ?s"
      using demo_turn unfolding demo_wave_def .
    show "env_safe demo_cfg demo_safe env" if "env = demo_env" for env
      using that by (auto simp: env_safe_def demo_env_def demo_cfg_def safe_radius_def recorded_radii_def demo_safe_def
          map_filter_def bt_get_def)
    show "partition_requested (wc_partition demo_cfg) (wc_stages demo_cfg) [x]" if "x \<in> set (bt_keys (wc_stages demo_cfg))" for x
      using that by (auto simp: demo_cfg_def bt_keys_def partition_requested_def bt_get_def stage_default_def by_blast_def
          eq_ignore_ascii_case_def)
  qed (auto simp: radii_agree_def demo_safe_def demo_cfg_wf)
  moreover have "ws_integrated ?s = {''a''}"
    unfolding demo_wave_pass
    by (simp add: wave_report_def settle_stage_def wave_join_def demo_cfg_def demo_wave_def wave_init_def Let_def)
  ultimately show ?thesis using demo_turn by (auto simp: demo_cfg_def)
qed

theorem wave_turns_bounded_witness:
  "\<exists>s. wave_turns demo_cfg (\<lambda>env. env = demo_env) 1 demo_wave s \<and>
     1 + length (ws_waiting s) + card (ws_running s) \<le> card (set (bt_keys (wc_stages demo_cfg)))"
proof -
  have "set [''a'', ''b''] \<subseteq> set (bt_keys (wc_stages demo_cfg))" by (simp add: demo_cfg_def bt_keys_def)
  with wave_turns_bounded [OF demo_turn [unfolded demo_wave_def] demo_cfg_wf] demo_turn
  show ?thesis unfolding demo_wave_def by (intro exI conjI) auto
qed

text \<open>
  A wave offered work while no unit is in flight starts some of it: it is not over at its first
  admission scan, whatever the width and the radii.
\<close>

theorem wave_starts_work:
  assumes "ready \<noteq> []"
  shows "\<not> wave_over c (wave_init radii ready I T {})"
proof -
  obtain n ns where "ready = n # ns" using assms by (cases ready) auto
  then show ?thesis
    using admit_scan_idle [of "wc_width c" ready "wave_init radii ready I T {}"]
    by (auto simp: wave_over_def admit_pass_def wave_init_def admissible_def split_beta split: option.splits)
qed

theorem wave_starts_work_witness: "\<not> wave_over demo_cfg demo_wave"
  unfolding demo_wave_def by (rule wave_starts_work) simp

end
