(* ===== verification/RunScope.thy ===== *)
theory RunScope
  imports Ledger
begin

text \<open>
  Run scoping: \<open>crates/rigger-domain/src/run.rs\<close>. A run is the slice of the log from its
  \<open>RunStarted\<close>; \<open>current_run\<close> is the last such slice, \<open>adopted_run\<close> decides whether a command resumes
  it, \<open>run_attribution\<close> places every decision, finding and lesson in its run, and
  \<open>superseded_graph_nodes\<close> is the prune a run reset makes of the knowledge graph.
\<close>

section \<open>The current run\<close>

definition is_run_start :: "event \<Rightarrow> bool" where
  "is_run_start e \<longleftrightarrow> ev_type e = TYPE_RUN_STARTED"

definition latest :: "codec \<Rightarrow> event list \<Rightarrow> run_started option" where
  "latest D events =
     (case find_last is_run_start events of None \<Rightarrow> None | Some e \<Rightarrow> decode (de_run_started D) e)"

text \<open>\<open>Iterator::rposition\<close>: the index of the last element the predicate holds of.\<close>

fun rposition :: "('a \<Rightarrow> bool) \<Rightarrow> 'a list \<Rightarrow> nat option" where
  "rposition P [] = None"
| "rposition P (x # xs) =
     (case rposition P xs of Some i \<Rightarrow> Some (Suc i) | None \<Rightarrow> if P x then Some 0 else None)"

definition current_run :: "event list \<Rightarrow> event list" where
  "current_run events =
     (case rposition is_run_start events of Some i \<Rightarrow> drop i events | None \<Rightarrow> events)"

definition MINT_DECISION_TYPES :: "string list" where
  "MINT_DECISION_TYPES = [TYPE_RUN_STARTED, TYPE_UNIT_ESCALATED, TYPE_UNIT_RESUMED]"

definition run_stopped :: "codec \<Rightarrow> event list \<Rightarrow> bool" where
  "run_stopped D events =
     (case project D (current_run events) of
        Inl _ \<Rightarrow> False | Inr run \<Rightarrow> spec_defect_reason run \<noteq> None)"

definition adopted_run ::
  "codec \<Rightarrow> event list \<Rightarrow> string list \<Rightarrow> bool \<Rightarrow> bool \<Rightarrow> run_started option" where
  "adopted_run D events criteria fresh by_spec =
     (if fresh then None
      else opt_filter (\<lambda>run. rs_criteria run = criteria \<and> \<not> (by_spec \<and> run_stopped D events))
             (latest D events))"

definition current_run_id :: "codec \<Rightarrow> event list \<Rightarrow> string option" where
  "current_run_id D events = map_option rs_run (latest D events)"

definition current_run_spec_path :: "codec \<Rightarrow> event list \<Rightarrow> string" where
  "current_run_spec_path D events = unwrap_or '''' (map_option rs_spec (latest D events))"

definition current_run_base :: "event list \<Rightarrow> string option" where
  "current_run_base events =
     opt_filter (\<lambda>b. b \<noteq> '''')
       (case find_last is_run_start events of None \<Rightarrow> None | Some e \<Rightarrow> bt_get (ev_meta e) META_BASE)"

definition current_run_base_tip :: "codec \<Rightarrow> event list \<Rightarrow> string option" where
  "current_run_base_tip D events =
     opt_filter (\<lambda>b. b \<noteq> '''') (map_option rs_base_tip (latest D events))"

section \<open>Attribution\<close>

datatype run_of = OfRun string | PreBoundary | Lesson

fun is_live :: "run_of \<Rightarrow> string option \<Rightarrow> bool" where
  "is_live (OfRun run) active = (active = Some run)"
| "is_live PreBoundary active = (active = None)"
| "is_live Lesson active = False"

text \<open>The forward fold from index \<open>i\<close> with the window's run \<open>current\<close>; its entries come in index
  order, the iteration order of the map the source builds.\<close>

fun attribute_from :: "codec \<Rightarrow> nat \<Rightarrow> string option \<Rightarrow> event list \<Rightarrow> (nat, run_of) btree" where
  "attribute_from D i current [] = []"
| "attribute_from D i current (e # es) =
     (if ev_type e = TYPE_RUN_STARTED then
        attribute_from D (Suc i)
          (case decode (de_run_started D) e of Some rs \<Rightarrow> Some (rs_run rs) | None \<Rightarrow> current) es
      else if ev_type e = TYPE_LESSON_LEARNED then (i, Lesson) # attribute_from D (Suc i) current es
      else if ev_type e = TYPE_DECISION_MADE \<or> ev_type e = TYPE_REVIEW_FINDING then
        (i, case current of Some run \<Rightarrow> OfRun run | None \<Rightarrow> PreBoundary)
          # attribute_from D (Suc i) current es
      else attribute_from D (Suc i) current es)"

definition run_attribution :: "codec \<Rightarrow> event list \<Rightarrow> (nat, run_of) btree" where
  "run_attribution D events = attribute_from D 0 None events"

definition effective_step :: "codec \<Rightarrow> string \<Rightarrow> event \<Rightarrow> string" where
  "effective_step D pinned e =
     (if ev_type e = TYPE_RUN_STARTED then
        (case decode (de_run_started D) e of Some rs \<Rightarrow> rs_definition rs | None \<Rightarrow> pinned)
      else (case bt_get (ev_meta e) META_DEFINITION of Some rebased \<Rightarrow> rebased | None \<Rightarrow> pinned))"

definition effective_definition :: "codec \<Rightarrow> event list \<Rightarrow> string" where
  "effective_definition D run_slice = foldl (effective_step D) '''' run_slice"

datatype run_start =
    Ready string
  | Drifted string string string
  | Rebased string string string

fun run_start_run :: "run_start \<Rightarrow> string" where
  "run_start_run (Ready run) = run"
| "run_start_run (Drifted run pinned current) = run"
| "run_start_run (Rebased run pinned current) = run"

section \<open>The prune of a run reset\<close>

definition RUN_CLOSURE_TYPES :: "string list" where
  "RUN_CLOSURE_TYPES = [TYPE_RUN_STARTED, TYPE_DECISION_MADE, TYPE_REVIEW_FINDING]"

definition superseded_edge_boundary :: "event list \<Rightarrow> int option" where
  "superseded_edge_boundary events =
     (case current_run events of
        [] \<Rightarrow> None
      | e # _ \<Rightarrow> if ev_type e = TYPE_RUN_STARTED then Some (to_nanos (valid_from e)) else None)"

definition graph_node_id :: "codec \<Rightarrow> event \<Rightarrow> string option" where
  "graph_node_id D e =
     (case de_value D (ev_data e) of
        Inl _ \<Rightarrow> None
      | Inr body \<Rightarrow>
         (case value_get body ''id'' of
            None \<Rightarrow> None
          | Some v \<Rightarrow> opt_filter (\<lambda>s. s \<noteq> '''') (as_str v)))"

definition superseded_step ::
  "codec \<Rightarrow> event list \<Rightarrow> string option \<Rightarrow> string bset \<times> string bset \<Rightarrow> nat \<times> run_of
    \<Rightarrow> string bset \<times> string bset" where
  "superseded_step D events active acc entry =
     (case acc of (drops, keep) \<Rightarrow> (case entry of (i, run_of) \<Rightarrow>
        if run_of = Lesson then (drops, keep)
        else (case graph_node_id D (events ! i) of
                None \<Rightarrow> (drops, keep)
              | Some nid \<Rightarrow> if is_live run_of active then (drops, bs_insert nid keep)
                           else (bs_insert nid drops, keep))))"

definition superseded_graph_nodes :: "codec \<Rightarrow> event list \<Rightarrow> string list" where
  "superseded_graph_nodes D events =
     (let active = current_run_id D events;
          (drops, keep) = foldl (superseded_step D events active) ([], []) (run_attribution D events)
      in bs_difference drops keep)"

definition kept_holder :: "codec \<Rightarrow> event list \<Rightarrow> string \<Rightarrow> event option" where
  "kept_holder D events nid =
     (let active = current_run_id D events
      in find (\<lambda>e. graph_node_id D e = Some nid)
           (map (\<lambda>(i, _). events ! i)
             (filter (\<lambda>(_, run_of). is_live run_of active \<or> run_of = Lesson)
               (rev (run_attribution D events)))))"

section \<open>Lemmas on the current run\<close>

lemma rposition_None: "rposition P xs = None \<longleftrightarrow> (\<forall>x \<in> set xs. \<not> P x)"
  by (induction xs) (auto split: option.splits)

lemma rposition_Some:
  "rposition P xs = Some i \<Longrightarrow>
     i < length xs \<and> P (xs ! i) \<and> (\<forall>x \<in> set (drop (Suc i) xs). \<not> P x)"
  by (induction xs arbitrary: i) (auto simp: rposition_None split: option.splits if_splits)

lemma current_run_cases:
  obtains (none) "\<forall>e \<in> set es. \<not> is_run_start e" "current_run es = es"
  | (run) pre e post where "es = pre @ e # post" "is_run_start e"
      "\<forall>x \<in> set post. \<not> is_run_start x" "current_run es = e # post"
proof (cases "rposition is_run_start es")
  case None
  then have "current_run es = es" by (simp add: current_run_def)
  with None show thesis using none by (simp add: rposition_None)
next
  case (Some i)
  note i = rposition_Some [OF Some]
  then have "es = take i es @ es ! i # drop (Suc i) es" by (simp add: id_take_nth_drop)
  moreover have "current_run es = es ! i # drop (Suc i) es"
    using Some i by (simp add: current_run_def Cons_nth_drop_Suc)
  ultimately show thesis using run i by blast
qed

lemma current_run_unique:
  assumes "is_run_start e" "\<forall>x \<in> set post. \<not> is_run_start x"
  shows "current_run (pre @ e # post) = e # post"
proof (cases "pre @ e # post" rule: current_run_cases)
  case none
  with assms show ?thesis by auto
next
  case (run pre' e' post')
  have "dropWhile (\<lambda>x. \<not> is_run_start x) (rev (pre @ e # post)) = e # rev pre"
    using assms by (simp add: dropWhile_append)
  moreover have "dropWhile (\<lambda>x. \<not> is_run_start x) (rev (pre' @ e' # post')) = e' # rev pre'"
    using run by (simp add: dropWhile_append)
  ultimately show ?thesis using run by simp
qed

lemma find_last_start: "is_run_start e \<Longrightarrow> \<forall>x \<in> set post. \<not> is_run_start x \<Longrightarrow>
    find_last is_run_start (pre @ e # post) = Some e"
  by (simp add: find_last_append [of _ "pre @ [e]" post, simplified] find_last_eq_None [THEN iffD2])

lemma latest_current_run: "latest D (current_run es) = latest D es"
proof (cases es rule: current_run_cases)
  case (run pre e post)
  then show ?thesis
    using find_last_start [of e post "[]"] find_last_start [of e post pre] by (simp add: latest_def)
qed simp

section \<open>Lemmas on attribution\<close>

text \<open>Attribution without the indices: each provenance event with the run it belongs to.\<close>

fun attributed :: "codec \<Rightarrow> string option \<Rightarrow> event list \<Rightarrow> (event \<times> run_of) list" where
  "attributed D current [] = []"
| "attributed D current (e # es) =
     (if ev_type e = TYPE_RUN_STARTED then
        attributed D
          (case decode (de_run_started D) e of Some rs \<Rightarrow> Some (rs_run rs) | None \<Rightarrow> current) es
      else if ev_type e = TYPE_LESSON_LEARNED then (e, Lesson) # attributed D current es
      else if ev_type e = TYPE_DECISION_MADE \<or> ev_type e = TYPE_REVIEW_FINDING then
        (e, case current of Some run \<Rightarrow> OfRun run | None \<Rightarrow> PreBoundary) # attributed D current es
      else attributed D current es)"

lemma attribute_from_attributed:
  "map (\<lambda>(i, r). ((pre @ es) ! i, r)) (attribute_from D (length pre) current es) =
     attributed D current es"
proof (induction es arbitrary: pre current)
  case Nil
  then show ?case by simp
next
  case (Cons e es)
  from Cons.IH [of "pre @ [e]"] show ?case by (auto simp: nth_append)
qed

lemma run_attribution_attributed:
  "map (\<lambda>(i, r). (es ! i, r)) (run_attribution D es) = attributed D None es"
  using attribute_from_attributed [of "[]"] by (simp add: run_attribution_def)

lemma attribute_from_index:
  "(i, r) \<in> set (attribute_from D n current es) \<Longrightarrow> n \<le> i \<and> i < n + length es"
  by (induction es arbitrary: n current)
    (fastforce split: if_splits option.splits)+

lemma attributed_closure_types:
  "attributed D current (filter (\<lambda>e. ev_type e \<in> set RUN_CLOSURE_TYPES) es) =
     filter (\<lambda>(e, r). r \<noteq> Lesson) (attributed D current es)"
  by (induction es arbitrary: current) (auto simp: RUN_CLOSURE_TYPES_def split: option.splits)

lemma latest_filter:
  assumes "TYPE_RUN_STARTED \<in> T"
  shows "latest D (filter (\<lambda>e. ev_type e \<in> T) es) = latest D es"
proof -
  have "find_last is_run_start (filter (\<lambda>e. ev_type e \<in> T) es) = find_last is_run_start es"
    using assms by (intro find_last_filter) (simp add: is_run_start_def)
  then show ?thesis by (simp add: latest_def)
qed

text \<open>The two sets a reset gathers: the ids of dead records and the ids of live ones.\<close>

definition recorded_ids :: "codec \<Rightarrow> event list \<Rightarrow> bool \<Rightarrow> string set" where
  "recorded_ids D es live =
     {nid. \<exists>e r. (e, r) \<in> set (attributed D None es) \<and> r \<noteq> Lesson \<and>
        is_live r (current_run_id D es) = live \<and> graph_node_id D e = Some nid}"

lemma foldl_superseded:
  assumes "sorted_wrt (<) a"
  shows "let (d, k) = foldl (superseded_step D es act) (a, b) entries
    in sorted_wrt (<) d \<and>
       set d = set a \<union> {nid. \<exists>(i, r) \<in> set entries. r \<noteq> Lesson \<and> \<not> is_live r act \<and>
         graph_node_id D (es ! i) = Some nid} \<and>
       set k = set b \<union> {nid. \<exists>(i, r) \<in> set entries. r \<noteq> Lesson \<and> is_live r act \<and>
         graph_node_id D (es ! i) = Some nid}"
  using assms
proof (induction entries arbitrary: a b)
  case Nil
  then show ?case by simp
next
  case (Cons x entries)
  obtain i r where x: "x = (i, r)" by (cases x)
  obtain a' b' where ab: "superseded_step D es act (a, b) x = (a', b')" by fastforce
  have s: "sorted_wrt (<) a'"
    using ab Cons.prems by (auto simp: superseded_step_def x sorted_bs_insert split: if_splits option.splits)
  have a': "set a' = set a \<union> {nid. r \<noteq> Lesson \<and> \<not> is_live r act \<and> graph_node_id D (es ! i) = Some nid}"
    "set b' = set b \<union> {nid. r \<noteq> Lesson \<and> is_live r act \<and> graph_node_id D (es ! i) = Some nid}"
    using ab by (auto simp: superseded_step_def x split: if_splits option.splits)
  show ?case using Cons.IH [OF s, of b'] ab a' by (auto simp: x Let_def split: prod.splits)
qed

lemma superseded_set:
  "sorted_wrt (<) (superseded_graph_nodes D es) \<and>
   set (superseded_graph_nodes D es) = recorded_ids D es False - recorded_ids D es True"
proof -
  let ?act = "current_run_id D es"
  obtain d k where dk: "foldl (superseded_step D es ?act) ([], []) (run_attribution D es) = (d, k)"
    by fastforce
  have mem: "(\<exists>(i, r) \<in> set (run_attribution D es). P r \<and> graph_node_id D (es ! i) = Some nid) \<longleftrightarrow>
    (\<exists>e r. (e, r) \<in> set (attributed D None es) \<and> P r \<and> graph_node_id D e = Some nid)" for P nid
    by (subst run_attribution_attributed [symmetric]) force
  from foldl_superseded [of "[]" D es ?act "[]" "run_attribution D es"] dk
  have s: "sorted_wrt (<) d"
    and d: "set d = {nid. \<exists>(i, r) \<in> set (run_attribution D es). (r \<noteq> Lesson \<and> \<not> is_live r ?act) \<and>
      graph_node_id D (es ! i) = Some nid}"
    and k: "set k = {nid. \<exists>(i, r) \<in> set (run_attribution D es). (r \<noteq> Lesson \<and> is_live r ?act) \<and>
      graph_node_id D (es ! i) = Some nid}"
    by auto
  have "set d = recorded_ids D es False" "set k = recorded_ids D es True"
    unfolding d k mem recorded_ids_def by auto
  then show ?thesis
    using dk s by (auto simp: superseded_graph_nodes_def bs_difference_def sorted_wrt_filter)
qed

section \<open>Windows\<close>

text \<open>The run whose window an event after \<open>pre\<close> falls in: that of the last \<open>RunStarted\<close> of \<open>pre\<close>
  whose body decodes.\<close>

definition window :: "codec \<Rightarrow> event list \<Rightarrow> run_of" where
  "window D pre =
     (case find_map (decode (de_run_started D)) (rev (filter is_run_start pre)) of
        Some rs \<Rightarrow> OfRun (rs_run rs) | None \<Rightarrow> PreBoundary)"

definition window_run :: "codec \<Rightarrow> string option \<Rightarrow> event list \<Rightarrow> string option" where
  "window_run D current pre =
     (case find_map (decode (de_run_started D)) (rev (filter is_run_start pre)) of
        Some rs \<Rightarrow> Some (rs_run rs) | None \<Rightarrow> current)"

lemma find_map_append:
  "find_map f (xs @ ys) = (case find_map f xs of Some y \<Rightarrow> Some y | None \<Rightarrow> find_map f ys)"
  by (induction xs) (auto split: option.splits)

lemma window_run_Cons:
  "window_run D current (e # pre) =
     window_run D (if is_run_start e
        then (case decode (de_run_started D) e of Some rs \<Rightarrow> Some (rs_run rs) | None \<Rightarrow> current)
        else current) pre"
  by (simp add: window_run_def find_map_append split: option.splits)

lemma attributed_mem:
  "(e, r) \<in> set (attributed D current es) \<longleftrightarrow>
     (\<exists>pre post. es = pre @ e # post \<and>
        (ev_type e = TYPE_LESSON_LEARNED \<and> r = Lesson \<or>
         (ev_type e = TYPE_DECISION_MADE \<or> ev_type e = TYPE_REVIEW_FINDING) \<and>
           r = (case window_run D current pre of Some run \<Rightarrow> OfRun run | None \<Rightarrow> PreBoundary)))"
  (is "_ \<longleftrightarrow> (\<exists>pre post. es = pre @ e # post \<and> ?K current pre)")
proof (induction es arbitrary: current)
  case Nil
  then show ?case by simp
next
  case (Cons x es)
  let ?next = "if is_run_start x
    then (case decode (de_run_started D) x of Some rs \<Rightarrow> Some (rs_run rs) | None \<Rightarrow> current) else current"
  have "(\<exists>pre post. x # es = pre @ e # post \<and> ?K current pre) \<longleftrightarrow>
    (e = x \<and> ?K current []) \<or> (\<exists>pre post. es = pre @ e # post \<and> ?K current (x # pre))"
    by (auto simp: Cons_eq_append_conv)
  also have "\<dots> \<longleftrightarrow> (e = x \<and> ?K current []) \<or> (e, r) \<in> set (attributed D ?next es)"
    by (simp only: Cons.IH window_run_Cons)
  also have "\<dots> \<longleftrightarrow> (e, r) \<in> set (attributed D current (x # es))"
    by (auto simp: is_run_start_def window_run_def)
  finally show ?case by simp
qed

lemma attributed_mem_window:
  "(e, r) \<in> set (attributed D None es) \<and> r \<noteq> Lesson \<longleftrightarrow>
     (\<exists>pre post. es = pre @ e # post \<and>
        (ev_type e = TYPE_DECISION_MADE \<or> ev_type e = TYPE_REVIEW_FINDING) \<and> r = window D pre)"
proof -
  have "(case window_run D None pre of Some run \<Rightarrow> OfRun run | None \<Rightarrow> PreBoundary) = window D pre"
    for pre by (simp add: window_run_def window_def split: option.splits)
  moreover have "window D pre \<noteq> Lesson" for pre by (simp add: window_def split: option.splits)
  ultimately show ?thesis unfolding attributed_mem by auto
qed

section \<open>Properties\<close>

text \<open>
  The current run's slice is a suffix of the log: with no \<open>RunStarted\<close> it is the whole log, and
  otherwise it opens with the last one and holds no other, so no event of an earlier run is in it,
  and the latest run read from the slice is the latest run of the log.
\<close>

theorem current_run_slice:
  "\<exists>pre. es = pre @ current_run es \<and>
     (case find_last is_run_start es of
        None \<Rightarrow> pre = [] \<and> filter is_run_start es = []
      | Some e \<Rightarrow> \<exists>post. current_run es = e # post \<and> filter is_run_start post = []) \<and>
     latest D (current_run es) = latest D es"
proof (cases es rule: current_run_cases)
  case none
  then have "find_last is_run_start es = None" by (simp add: find_last_eq_None)
  with none show ?thesis by (auto simp: filter_empty_conv)
next
  case (run pre e post)
  then have "find_last is_run_start es = Some e" by (simp add: find_last_start)
  with run latest_current_run [of D es] show ?thesis by (auto simp: filter_empty_conv)
qed

text \<open>
  A run reset prunes exactly the dead nodes: an id is dropped when some decision or finding
  recorded it in a window that is not live against the latest run and no decision or finding
  recorded it in a live window, so an id the active run reuses is kept; the list is sorted without
  repetition. A window is that of the last decodable \<open>RunStarted\<close> before the record.
\<close>

theorem superseded_graph_nodes_exact:
  "sorted_wrt (<) (superseded_graph_nodes D es) \<and>
   (nid \<in> set (superseded_graph_nodes D es) \<longleftrightarrow>
     (\<exists>pre e post. es = pre @ e # post \<and>
        (ev_type e = TYPE_DECISION_MADE \<or> ev_type e = TYPE_REVIEW_FINDING) \<and>
        graph_node_id D e = Some nid \<and> \<not> is_live (window D pre) (current_run_id D es)) \<and>
     (\<nexists>pre e post. es = pre @ e # post \<and>
        (ev_type e = TYPE_DECISION_MADE \<or> ev_type e = TYPE_REVIEW_FINDING) \<and>
        graph_node_id D e = Some nid \<and> is_live (window D pre) (current_run_id D es)))"
proof -
  have "nid \<in> recorded_ids D es live \<longleftrightarrow>
    (\<exists>pre e post. es = pre @ e # post \<and>
        (ev_type e = TYPE_DECISION_MADE \<or> ev_type e = TYPE_REVIEW_FINDING) \<and>
        graph_node_id D e = Some nid \<and> is_live (window D pre) (current_run_id D es) = live)" for live
  proof -
    have "nid \<in> recorded_ids D es live \<longleftrightarrow>
      (\<exists>e r. ((e, r) \<in> set (attributed D None es) \<and> r \<noteq> Lesson) \<and>
        is_live r (current_run_id D es) = live \<and> graph_node_id D e = Some nid)"
      by (simp add: recorded_ids_def)
    then show ?thesis unfolding attributed_mem_window by auto
  qed
  with superseded_set [of D es] show ?thesis by simp
qed

text \<open>
  The prune reads only the types of the run-closure rule: over a log and over that log's
  \<open>RunStarted\<close>, \<open>DecisionMade\<close> and \<open>ReviewFinding\<close> events alone, the dropped nodes and the edge
  boundary are the same, so a rebuild that keeps only those re-derives the prune.
\<close>

theorem run_closure_types_suffice:
  "superseded_graph_nodes D (filter (\<lambda>e. ev_type e \<in> set RUN_CLOSURE_TYPES) es) =
     superseded_graph_nodes D es \<and>
   superseded_edge_boundary (filter (\<lambda>e. ev_type e \<in> set RUN_CLOSURE_TYPES) es) =
     superseded_edge_boundary es"
proof -
  let ?f = "filter (\<lambda>e. ev_type e \<in> set RUN_CLOSURE_TYPES)"
  have started: "ev_type e \<in> set RUN_CLOSURE_TYPES" if "is_run_start e" for e
    using that by (simp add: is_run_start_def RUN_CLOSURE_TYPES_def)
  have "current_run_id D (?f es) = current_run_id D es"
    by (subst (1 2) current_run_id_def, subst latest_filter) (simp_all add: RUN_CLOSURE_TYPES_def)
  then have "recorded_ids D (?f es) live = recorded_ids D es live" for live
    by (auto simp: recorded_ids_def attributed_closure_types)
  then have nodes: "superseded_graph_nodes D (?f es) = superseded_graph_nodes D es"
    using superseded_set [of D "?f es"] superseded_set [of D es] by (intro sorted_less_unique) auto
  have "superseded_edge_boundary (?f es) = superseded_edge_boundary es"
  proof (cases es rule: current_run_cases)
    case none
    then have n: "\<forall>e \<in> set (?f es). \<not> is_run_start e" by simp
    then have "current_run (?f es) = ?f es" by (cases "?f es" rule: current_run_cases) auto
    with n none show ?thesis
      by (cases "?f es"; cases es) (auto simp: superseded_edge_boundary_def is_run_start_def)
  next
    case (run pre e post)
    then have "current_run (?f es) = e # ?f post"
      using current_run_unique [of e "?f post" "?f pre"] started by simp
    with run show ?thesis by (simp add: superseded_edge_boundary_def)
  qed
  with nodes show ?thesis by simp
qed

text \<open>
  The record a reader of a node meets and the prune agree: if a kept record holds an id that a
  reset drops, that record is a lesson, which is exempt from attribution; no decision or finding
  the reset leaves readable is pruned.
\<close>

theorem dropped_node_holder_is_lesson:
  assumes "nid \<in> set (superseded_graph_nodes D es)" "kept_holder D es nid = Some e"
  shows "ev_type e = TYPE_LESSON_LEARNED \<and> e \<in> set es \<and> graph_node_id D e = Some nid"
proof -
  let ?act = "current_run_id D es"
  let ?kept = "filter (\<lambda>(_, r). is_live r ?act \<or> r = Lesson) (rev (run_attribution D es))"
  from assms(2) have e: "e \<in> set (map (\<lambda>(i, _). es ! i) ?kept)" "graph_node_id D e = Some nid"
    unfolding kept_holder_def Let_def by (auto dest: find_SomeD)
  then obtain i r where ir: "(i, r) \<in> set (run_attribution D es)" "is_live r ?act \<or> r = Lesson"
    "e = es ! i" by auto
  then have at: "(e, r) \<in> set (attributed D None es)"
    by (subst run_attribution_attributed [symmetric]) force
  have "r = Lesson"
  proof (rule ccontr)
    assume "r \<noteq> Lesson"
    with ir at e(2) have "nid \<in> recorded_ids D es True" by (auto simp: recorded_ids_def)
    with assms(1) superseded_set [of D es] show False by blast
  qed
  with at e(2) show ?thesis unfolding attributed_mem by (auto split: option.splits)
qed

definition closure_log :: "event list" where
  "closure_log = [demo_event TYPE_RUN_STARTED ''r1'', demo_event TYPE_DECISION_MADE ''d1'',
     demo_event TYPE_LESSON_LEARNED ''d1'', demo_event TYPE_REVIEW_FINDING ''f1'',
     demo_event TYPE_RUN_STARTED ''r2'', demo_event TYPE_REVIEW_FINDING ''f1'']"

theorem dropped_node_holder_is_lesson_witness:
  "superseded_graph_nodes demo_codec closure_log = [''d1''] \<and>
   (\<exists>e. kept_holder demo_codec closure_log ''d1'' = Some e \<and> ev_type e = TYPE_LESSON_LEARNED)"
proof -
  have s: "superseded_graph_nodes demo_codec closure_log = [''d1'']" by code_simp
  have "kept_holder demo_codec closure_log ''d1'' \<noteq> None" by code_simp
  then obtain e where "kept_holder demo_codec closure_log ''d1'' = Some e" by auto
  with s dropped_node_holder_is_lesson [of "''d1''" demo_codec closure_log e] show ?thesis by simp
qed

section \<open>The mint decision\<close>

text \<open>
  What the mint decision relies on of the log's writers: an event that writes a unit and is neither
  its escalation nor its resumption finds the unit not escalated and leaves it so.
\<close>

fun escalation_final :: "codec \<Rightarrow> run_state \<Rightarrow> event list \<Rightarrow> bool" where
  "escalation_final D s [] = True"
| "escalation_final D s (e # es) =
     ((case unit_write D e of
         None \<Rightarrow> True
       | Some (uid, f) \<Rightarrow> ev_type e \<in> set MINT_DECISION_TYPES \<or>
           (let u = unwrap_or (fresh_unit uid) (bt_get (st_units s) uid)
            in u_status u \<noteq> Escalated \<and> u_status (f u) \<noteq> Escalated)) \<and>
      (case apply_event D s e of Inl _ \<Rightarrow> True | Inr s' \<Rightarrow> escalation_final D s' es))"

definition reason_at :: "run_state \<Rightarrow> string \<Rightarrow> string option" where
  "reason_at s uid = Option.bind (bt_get (st_units s) uid) unit_spec_defect_reason"

lemma spec_defect_reason_cong:
  assumes "ledger_wf s" "ledger_wf t" "reason_at s = reason_at t"
  shows "spec_defect_reason s = spec_defect_reason t"
  unfolding spec_defect_reason_def
  using assms by (intro find_map_values_cong) (auto simp: ledger_wf_def reason_at_def fun_eq_iff)

text \<open>Whether an event folds does not depend on the state it is folded onto.\<close>

lemma isl_bind: "isl (bind_res r (\<lambda>p. Inr (h p))) = isl r"
  by (cases r) (auto simp: bind_res_def)

lemma isl_on_held: "isl (on_held D h e) = isl (on_held D h' e)"
  by (simp add: on_held_def isl_bind Let_def)

lemma apply_event_ok_any_state:
  assumes "apply_event D s e = Inr s'" shows "\<exists>t'. apply_event D t e = Inr t'"
proof -
  have "isl (apply_event D s e) = isl (apply_event D t e)"
    by (simp add: apply_event_def if_distrib [of isl] isl_bind isl_on_held [of D "st_hold s" e "st_hold t"])
  with assms show ?thesis by (cases "apply_event D t e") auto
qed

lemma reason_at_units_cong: "st_units s = st_units t \<Longrightarrow> reason_at s = reason_at t"
  by (simp add: reason_at_def fun_eq_iff)

lemma reason_at_upd:
  "reason_at (upd_unit uid f s) =
     (reason_at s)(uid := unit_spec_defect_reason (f (unwrap_or (fresh_unit uid) (bt_get (st_units s) uid))))"
  by (auto simp: reason_at_def fun_eq_iff)

lemma reason_at_apply:
  assumes "apply_event D s e = Inr s'"
  shows "reason_at s' = (case unit_write D e of None \<Rightarrow> reason_at s
    | Some (uid, f) \<Rightarrow> reason_at (upd_unit uid f s))"
  using apply_event_units [OF assms]
  by (auto split: option.splits intro: reason_at_units_cong)

lemma mint_write:
  assumes "unit_write D e = Some (uid, f)" "ev_type e \<in> set MINT_DECISION_TYPES"
  shows "unit_spec_defect_reason (f u) = unit_spec_defect_reason (f v)"
  using assms
  by (auto simp: unit_write_def MINT_DECISION_TYPES_def escalate_unit_def resume_unit_def
      unit_spec_defect_reason_def split: if_splits)

lemma mint_fold:
  assumes "fold_res (apply_event D) s es = Inr s'" "escalation_final D s es"
    "reason_at s = reason_at t"
  shows "\<exists>t'. fold_res (apply_event D) t (filter (\<lambda>e. ev_type e \<in> set MINT_DECISION_TYPES) es) = Inr t'
    \<and> reason_at s' = reason_at t'"
  using assms
proof (induction es arbitrary: s t)
  case Nil
  then show ?case by simp
next
  case (Cons e es)
  from Cons.prems(1) obtain s1 where s1: "apply_event D s e = Inr s1"
    "fold_res (apply_event D) s1 es = Inr s'" by (auto split: sum.splits)
  with Cons.prems(2) have fin: "escalation_final D s1 es" by simp
  show ?case
  proof (cases "ev_type e \<in> set MINT_DECISION_TYPES")
    case True
    obtain t1 where t1: "apply_event D t e = Inr t1" using apply_event_ok_any_state [OF s1(1)] by blast
    have "reason_at s1 = reason_at t1"
      unfolding reason_at_apply [OF s1(1)] reason_at_apply [OF t1]
      using Cons.prems(3) mint_write [OF _ True] by (auto simp: reason_at_upd split: option.splits)
    with Cons.IH [OF s1(2) fin] t1 True show ?thesis by simp
  next
    case False
    have "reason_at s1 = reason_at s"
    proof (cases "unit_write D e")
      case None
      then show ?thesis by (simp add: reason_at_apply [OF s1(1)])
    next
      case (Some w)
      obtain uid f where w: "w = (uid, f)" by (cases w)
      let ?u = "unwrap_or (fresh_unit uid) (bt_get (st_units s) uid)"
      have "u_status ?u \<noteq> Escalated" "u_status (f ?u) \<noteq> Escalated"
        using Cons.prems(2) Some w False by (auto simp: Let_def)
      then have "reason_at s uid = unit_spec_defect_reason (f ?u)"
        by (cases "bt_get (st_units s) uid") (auto simp: reason_at_def unit_spec_defect_reason_def)
      then show ?thesis using Some w by (simp add: reason_at_apply [OF s1(1)] reason_at_upd fun_upd_idem)
    qed
    with Cons.IH [OF s1(2) fin] Cons.prems(3) False show ?thesis by simp
  qed
qed

lemma current_run_of_filtered:
  assumes "\<And>e. is_run_start e \<Longrightarrow> P e"
  shows "current_run (filter P es) = filter P (current_run es)"
proof (cases es rule: current_run_cases)
  case none
  then have "\<forall>e \<in> set (filter P es). \<not> is_run_start e" by simp
  then have "current_run (filter P es) = filter P es" by (simp add: current_run_def rposition_None [THEN iffD2])
  then show ?thesis using none by simp
next
  case (run pre e post)
  then have "current_run (filter P es) = e # filter P post" using assms current_run_unique [of e "filter P post" "filter P pre"] by simp
  then show ?thesis using run assms by simp
qed

text \<open>
  The mint decision answers the same over the whole run stream and over its run starts,
  escalations and resumes alone, whenever the current run's slice projects and no event other than
  an escalation or a resume writes an escalated unit or escalates one.
\<close>

theorem adopted_run_mint_types:
  assumes "project D (current_run es) = Inr s"
    and "escalation_final D run_state_new (current_run es)"
  shows "adopted_run D (filter (\<lambda>e. ev_type e \<in> set MINT_DECISION_TYPES) es) criteria fresh by_spec =
    adopted_run D es criteria fresh by_spec"
proof -
  let ?f = "filter (\<lambda>e. ev_type e \<in> set MINT_DECISION_TYPES)"
  have started: "TYPE_RUN_STARTED \<in> set MINT_DECISION_TYPES" by (simp add: MINT_DECISION_TYPES_def)
  have kept: "current_run (?f es) = ?f (current_run es)"
    by (rule current_run_of_filtered) (use started in \<open>simp add: is_run_start_def\<close>)
  from assms(1) obtain r where r: "fold_res (apply_event D) run_state_new (current_run es) = Inr r"
    and s: "s = fold_manual_review_inbox D (current_run es) r"
    by (auto simp: project_def bind_res_def split: sum.splits)
  from mint_fold [OF r assms(2) refl] obtain t where
    t: "fold_res (apply_event D) run_state_new (?f (current_run es)) = Inr t"
      "reason_at r = reason_at t" by blast
  have inbox: "spec_defect_reason (fold_manual_review_inbox D ev q) = spec_defect_reason q" for ev q
    by (simp add: fold_manual_review_inbox_def spec_defect_reason_def)
  have "spec_defect_reason r = spec_defect_reason t"
    by (rule spec_defect_reason_cong [OF _ _ t(2)]) (auto intro: fold_apply_wf [OF r] fold_apply_wf [OF t(1)])
  then have "run_stopped D (?f es) = run_stopped D es"
    using r t(1) by (simp add: run_stopped_def kept project_def inbox)
  then show ?thesis by (simp add: adopted_run_def latest_filter [OF started])
qed

definition mint_log :: "event list" where
  "mint_log = [demo_event TYPE_RUN_STARTED ''r1'', demo_event TYPE_UNIT_STARTED ''u1'',
     demo_event TYPE_UNIT_FAILED ''u1'', demo_event TYPE_UNIT_ESCALATED ''u1'',
     demo_event TYPE_UNIT_INTEGRATED ''u2'']"

theorem adopted_run_mint_types_witness:
  "adopted_run demo_codec mint_log [''c1''] False True = None \<and>
   adopted_run demo_codec (filter (\<lambda>e. ev_type e \<in> set MINT_DECISION_TYPES) mint_log)
     [''c1''] False True = None"
proof -
  have "case project demo_codec (current_run mint_log) of Inl _ \<Rightarrow> False | Inr _ \<Rightarrow> True" by code_simp
  then obtain s where s: "project demo_codec (current_run mint_log) = Inr s"
    by (auto split: sum.splits)
  have f: "escalation_final demo_codec run_state_new (current_run mint_log)" by code_simp
  have n: "adopted_run demo_codec mint_log [''c1''] False True = None" by code_simp
  show ?thesis using adopted_run_mint_types [OF s f, of "[''c1'']" False True] n by simp
qed

text \<open>
  Without that discipline the two reads differ: on a log where a unit escalates with a reason
  and a later event integrates it, the whole stream adopts the run while its run starts, escalations
  and resumes alone read a run stopped on a spec defect.
\<close>

theorem adopted_run_mint_types_differ:
  "\<exists>D es criteria. adopted_run D es criteria False True \<noteq> None \<and>
     adopted_run D (filter (\<lambda>e. ev_type e \<in> set MINT_DECISION_TYPES) es) criteria False True = None"
proof -
  let ?es = "[demo_event TYPE_RUN_STARTED ''r1'', demo_event TYPE_UNIT_ESCALATED ''u1'',
     demo_event TYPE_UNIT_INTEGRATED ''u1'']"
  have "adopted_run demo_codec ?es [''c1''] False True \<noteq> None" by code_simp
  moreover have "adopted_run demo_codec (filter (\<lambda>e. ev_type e \<in> set MINT_DECISION_TYPES) ?es)
    [''c1''] False True = None" by code_simp
  ultimately show ?thesis by blast
qed

end
