(* ===== verification/Adoption.thy ===== *)
theory Adoption
  imports RunScope Spawn_Id
begin

text \<open>
  What earlier runs left of a criterion (\<open>conductor.rs\<close>): the one fold over every run's lifecycle
  events, the abandoned attempt a fresh unit adopts, the landing that makes a rebuild unnecessary,
  who a unit's branch belongs to, and the per-unit marks the log carries (review-round starts,
  sessions, recorded adoptions and quarantines). The git question whether a commit is in the history
  of the checked-out branch is a parameter.

  The theorems: which units the fold holds integrated, traced back to the events that decide it; that
  a landing rests on an attempt every unit of which stands; that adopting and landing are never both
  answered; that a branch is called foreign only against a recorded start of another criterion or
  spec; and which mark a round's base is read from.
\<close>

section \<open>Names\<close>

fun sanitize_from :: "string \<Rightarrow> string list \<Rightarrow> string" where
  "sanitize_from out [] = out"
| "sanitize_from out (ch # chs) =
     (case ch of
        [c] \<Rightarrow> if is_ascii_alphanumeric c then sanitize_from (out @ [c]) chs
               else if out \<noteq> [] \<and> last out = CHR ''-'' then sanitize_from out chs else sanitize_from (out @ ''-'') chs
      | _ \<Rightarrow> if out \<noteq> [] \<and> last out = CHR ''-'' then sanitize_from out chs else sanitize_from (out @ ''-'') chs)"

definition sanitize_for_path :: "string \<Rightarrow> string" where
  "sanitize_for_path uid =
     (let trimmed = trim_matches (\<lambda>c. c = CHR ''-'') (sanitize_from [] (utf8_chars uid))
      in if trimmed = [] then ''unit'' else trimmed)"

definition unit_branch :: "string \<Rightarrow> string" where
  "unit_branch unit_id = ''rigger/u/'' @ sanitize_for_path unit_id"

definition unit_worktree_dir :: "string \<Rightarrow> string \<Rightarrow> string" where
  "unit_worktree_dir scratch_root unit_id = scratch_root @ ''/'' @ UNIT_WORKTREE_PREFIX @ sanitize_for_path unit_id"

definition quarantine_branch_name :: "string \<Rightarrow> string \<Rightarrow> string" where
  "quarantine_branch_name unit_id tip = ''rigger/orphaned/'' @ sanitize_for_path unit_id @ ''-'' @ take 12 tip"

section \<open>Probes\<close>

abbreviation "REVIEW_ONLY_NO_ARTIFACT \<equiv> ''(review-only: no integrated artifact)''"
abbreviation "META_COMPENSATED \<equiv> ''compensated_commits''"
abbreviation "META_WORKTREE_SHA \<equiv> ''worktree_sha''"
abbreviation "META_SESSION_ID \<equiv> ''session_id''"
abbreviation "STATUS_REVIEW_ROUND_START \<equiv> ''review-round-start''"
abbreviation "STATUS_SPAWN_SESSION \<equiv> ''spawn-session''"
abbreviation "STATUS_ADOPTION_RECORDED \<equiv> ''adoption-recorded''"
abbreviation "STATUS_BRANCH_QUARANTINED \<equiv> ''branch-quarantined''"

record started_probe =
  sp_id :: string
  sp_criterion_id :: string

record integrated_probe =
  ip_id :: string
  ip_commit :: string
  ip_landed_from :: "string option"

text \<open>\<open>IntegratedProbe::branch_commit\<close>.\<close>

definition branch_commit :: "integrated_probe \<Rightarrow> string" where
  "branch_commit u = (if ip_commit u = REVIEW_ONLY_NO_ARTIFACT then unwrap_or '''' (ip_landed_from u) else ip_commit u)"

text \<open>The decoders of the lifecycle reads, beside the run's codec.\<close>

record probes =
  pr_codec :: codec
  pr_started :: "bytes \<Rightarrow> json_error + started_probe"
  pr_integrated :: "bytes \<Rightarrow> json_error + integrated_probe"

definition current_run_spec :: "probes \<Rightarrow> event list \<Rightarrow> string" where
  "current_run_spec P events = spec_stem (current_run_spec_path (pr_codec P) events)"

section \<open>The history of a criterion\<close>

record criterion_history =
  ch_starts :: "(string \<times> string) list"
  ch_standing :: "string \<rightharpoonup> string"

text \<open>The variables of the walk: the open window's spec and run, and what each id's latest start
  served.\<close>

record history_walk =
  hw_history :: criterion_history
  hw_spec :: string
  hw_run :: string
  hw_serves :: "string \<rightharpoonup> bool"

definition started_unit :: "probes \<Rightarrow> event \<Rightarrow> started_probe option" where
  "started_unit P e = opt_filter (\<lambda>u. sp_id u \<noteq> '''') (res_ok (pr_started P (ev_data e)))"

definition compensates :: "event \<Rightarrow> bool" where
  "compensates e \<longleftrightarrow> (case bt_get (ev_meta e) META_COMPENSATED of None \<Rightarrow> False | Some c \<Rightarrow> c \<noteq> '''')"

definition history_step :: "probes \<Rightarrow> string \<Rightarrow> string \<Rightarrow> history_walk \<Rightarrow> event \<Rightarrow> history_walk" where
  "history_step P criterion_id target_spec w e =
     (if ev_type e = TYPE_RUN_STARTED then
        (case de_run_started (pr_codec P) (ev_data e) of
           Inl _ \<Rightarrow> w
         | Inr rs \<Rightarrow> w\<lparr>hw_spec := spec_stem (rs_spec rs), hw_run := rs_run rs\<rparr>)
      else if ev_type e = TYPE_UNIT_STARTED then
        (case started_unit P e of
           None \<Rightarrow> w
         | Some u \<Rightarrow>
             (let served = (sp_criterion_id u = criterion_id \<and> hw_spec w = target_spec);
                  h = hw_history w
              in w\<lparr>hw_history := (if served then h\<lparr>ch_starts := ch_starts h @ [(sp_id u, hw_run w)]\<rparr> else h),
                   hw_serves := (hw_serves w)(sp_id u \<mapsto> served)\<rparr>))
      else if ev_type e = TYPE_UNIT_INTEGRATED then
        (case opt_filter (\<lambda>u. hw_serves w (ip_id u) = Some True) (res_ok (pr_integrated P (ev_data e))) of
           None \<Rightarrow> w
         | Some u \<Rightarrow> w\<lparr>hw_history := (hw_history w)\<lparr>ch_standing := (ch_standing (hw_history w))(ip_id u \<mapsto> branch_commit u)\<rparr>\<rparr>)
      else if ev_type e = TYPE_UNIT_FAILED \<and> compensates e then
        (case opt_filter (\<lambda>u. hw_serves w (sp_id u) = Some True) (started_unit P e) of
           None \<Rightarrow> w
         | Some u \<Rightarrow> w\<lparr>hw_history := (hw_history w)\<lparr>ch_standing := (ch_standing (hw_history w))(sp_id u := None)\<rparr>\<rparr>)
      else w)"

definition history_start :: history_walk where
  "history_start = \<lparr>hw_history = \<lparr>ch_starts = [], ch_standing = Map.empty\<rparr>, hw_spec = '''', hw_run = '''', hw_serves = Map.empty\<rparr>"

definition history_walk :: "probes \<Rightarrow> string \<Rightarrow> string \<Rightarrow> event list \<Rightarrow> history_walk" where
  "history_walk P criterion_id target_spec events = foldl (history_step P criterion_id target_spec) history_start events"

definition criterion_history :: "probes \<Rightarrow> event list \<Rightarrow> string \<Rightarrow> string \<Rightarrow> criterion_history" where
  "criterion_history P events criterion_id target_spec = hw_history (history_walk P criterion_id target_spec events)"

section \<open>Adopting and landing\<close>

definition prior_criterion_unit :: "probes \<Rightarrow> event list \<Rightarrow> string \<Rightarrow> string \<Rightarrow> string option" where
  "prior_criterion_unit P events criterion_id this_unit =
     (if criterion_id = '''' then None
      else (let history = criterion_history P events criterion_id (current_run_spec P events)
            in case find_last (\<lambda>(uid, _). uid \<noteq> this_unit) (ch_starts history) of
                 None \<Rightarrow> None
               | Some (candidate, _) \<Rightarrow> if ch_standing history candidate = None then Some candidate else None))"

record landed_criterion =
  lc_unit :: string
  lc_run :: string
  lc_commits :: "string list"

definition landed_criterion_unit :: "probes \<Rightarrow> event list \<Rightarrow> string \<Rightarrow> string \<Rightarrow> landed_criterion option" where
  "landed_criterion_unit P events criterion_id this_unit =
     (let spec = current_run_spec P events; this_run = current_run events
      in if criterion_id = '''' \<or> spec = '''' then None
         else if list_ex (\<lambda>e. ev_type e = TYPE_UNIT_STARTED \<and>
                   (case pr_started P (ev_data e) of Inr u \<Rightarrow> sp_id u = this_unit | Inl _ \<Rightarrow> False)) this_run then None
         else (let history = criterion_history P (take (length events - length this_run) events) criterion_id spec
               in if ch_starts history = [] then None
                  else (case last (ch_starts history) of (uid, run) \<Rightarrow>
                    map_option (\<lambda>commits. \<lparr>lc_unit = uid, lc_run = run, lc_commits = commits\<rparr>)
                      (collect_opt (map (\<lambda>(u, _). ch_standing history u) (filter (\<lambda>(_, r). r = run) (ch_starts history)))))))"

definition on_run_branch :: "(string \<Rightarrow> string \<Rightarrow> string \<Rightarrow> bool) \<Rightarrow> string \<Rightarrow> string list \<Rightarrow> bool" where
  "on_run_branch is_ancestor repo commits \<longleftrightarrow>
     repo \<noteq> '''' \<and> commits \<noteq> [] \<and> list_all (\<lambda>c. c \<noteq> '''' \<and> is_ancestor repo c ''HEAD'') commits"

section \<open>Whose branch\<close>

definition owner_step :: "probes \<Rightarrow> string \<Rightarrow> string \<times> (string \<times> string) option \<Rightarrow> event \<Rightarrow> string \<times> (string \<times> string) option" where
  "owner_step P unit_id s e =
     (if ev_type e = TYPE_RUN_STARTED then
        (case de_run_started (pr_codec P) (ev_data e) of Inr rs \<Rightarrow> (spec_stem (rs_spec rs), snd s) | Inl _ \<Rightarrow> s)
      else if ev_type e = TYPE_UNIT_STARTED then
        (case pr_started P (ev_data e) of
           Inr u \<Rightarrow> if sp_id u = unit_id then (fst s, Some (sp_criterion_id u, fst s)) else s
         | Inl _ \<Rightarrow> s)
      else s)"

definition branch_owner :: "probes \<Rightarrow> event list \<Rightarrow> string \<Rightarrow> (string \<times> string) option" where
  "branch_owner P events unit_id = snd (foldl (owner_step P unit_id) ('''', None) events)"

definition branch_is_foreign :: "(string \<times> string) option \<Rightarrow> string \<Rightarrow> string \<Rightarrow> bool" where
  "branch_is_foreign owner criterion_id spec =
     (case owner of
        Some (owner_criterion, owner_spec) \<Rightarrow>
          if criterion_id = '''' then owner_spec \<noteq> spec
          else if owner_criterion = '''' then False
          else owner_criterion \<noteq> criterion_id \<or> owner_spec \<noteq> spec
      | None \<Rightarrow> False)"

section \<open>Marks of a unit\<close>

definition as_u64 :: "json \<Rightarrow> nat option" where
  "as_u64 v = (case v of JInt i \<Rightarrow> if 0 \<le> i \<and> i < 2 ^ 64 then Some (nat i) else None | _ \<Rightarrow> None)"

definition get_str :: "json \<Rightarrow> string \<Rightarrow> string option" where
  "get_str v k = Option.bind (value_get v k) as_str"

definition status_mark :: "probes \<Rightarrow> string \<Rightarrow> string list \<Rightarrow> event \<Rightarrow> (string \<times> nat \<times> event) option" where
  "status_mark P uid statuses e =
     (if ev_type e \<noteq> TYPE_UNIT_STATUS then None
      else Option.bind (res_ok (de_value (pr_codec P) (ev_data e))) (\<lambda>v.
        if get_str v ''id'' \<noteq> Some uid then None
        else Option.bind (get_str v ''status'') (\<lambda>recorded.
             Option.bind (find (\<lambda>s. s = recorded) statuses) (\<lambda>status.
             Option.bind (Option.bind (value_get v ''attempt'') as_u64) (\<lambda>attempt.
               Some (status, attempt, e))))))"

definition unit_status_marks :: "probes \<Rightarrow> event list \<Rightarrow> string \<Rightarrow> string list \<Rightarrow> (string \<times> nat \<times> event) list" where
  "unit_status_marks P events uid statuses = List.map_filter (status_mark P uid statuses) events"

definition review_round_starts :: "probes \<Rightarrow> event list \<Rightarrow> string \<Rightarrow> (nat \<times> string) list" where
  "review_round_starts P events uid =
     List.map_filter (\<lambda>(_, attempt, e). map_option (Pair attempt) (bt_get (ev_meta e) META_WORKTREE_SHA))
       (unit_status_marks P events uid [STATUS_REVIEW_ROUND_START])"

definition recorded_review_round_start_sha :: "probes \<Rightarrow> event list \<Rightarrow> string \<Rightarrow> u32 \<Rightarrow> string option" where
  "recorded_review_round_start_sha P events uid attempt =
     find_map (\<lambda>(stamped, sha). if stamped = unat attempt then Some sha else None) (review_round_starts P events uid)"

text \<open>\<open>max_by_key\<close> keeps the last of equal keys.\<close>

definition max_by_key :: "('a \<Rightarrow> 'b::linorder) \<Rightarrow> 'a list \<Rightarrow> 'a option" where
  "max_by_key f xs =
     foldl (\<lambda>best x. case best of None \<Rightarrow> Some x | Some b \<Rightarrow> if f x < f b then Some b else Some x) None xs"

definition recorded_session :: "probes \<Rightarrow> event list \<Rightarrow> string \<Rightarrow> string \<Rightarrow> u32 \<Rightarrow> string \<Rightarrow> string option" where
  "recorded_session P events uid role attempt dir =
     Option.bind
       (max_by_key (\<lambda>(_, stamped, _). stamped)
         (filter (\<lambda>(_, stamped, e). stamped < unat attempt \<and>
             (case de_value (pr_codec P) (ev_data e) of Inr v \<Rightarrow> get_str v ''dir'' = Some dir | Inl _ \<Rightarrow> False) \<and>
             (case bt_get (ev_meta e) ''spawn'' of Some sid \<Rightarrow> spawn_role sid = role | None \<Rightarrow> False))
           (unit_status_marks P events uid [STATUS_SPAWN_SESSION])))
       (\<lambda>(_, _, e). bt_get (ev_meta e) META_SESSION_ID)"

definition round_delta_base :: "probes \<Rightarrow> event list \<Rightarrow> string \<Rightarrow> u32 \<Rightarrow> string option" where
  "round_delta_base P events uid attempt =
     opt_filter (\<lambda>sha. sha \<noteq> '''')
       (map_option snd (max_by_key fst (filter (\<lambda>(stamped, _). stamped < unat attempt) (review_round_starts P events uid))))"

definition ends_with :: "string \<Rightarrow> string \<Rightarrow> bool" where
  "ends_with s suffix \<longleftrightarrow> strip_prefix (rev suffix) (rev s) \<noteq> None"

definition is_documentation_only :: "string list \<Rightarrow> bool" where
  "is_documentation_only paths \<longleftrightarrow>
     paths \<noteq> [] \<and> list_all (\<lambda>p. ends_with p ''.md'' \<or> starts_with p ''docs/'') paths"

definition later_attempt_block :: "(string \<times> string list) option \<Rightarrow> string list \<Rightarrow> string" where
  "later_attempt_block delta gate_evidence =
     (let causes =
        (case delta of None \<Rightarrow> []
         | Some (base, paths) \<Rightarrow>
             [''review sent this unit back at '' @ base @ '' - `git diff '' @ base @ ''..HEAD` since changed '' @
              (if paths = [] then ''nothing'' else join '', '' paths)]) @
        map (\<lambda>ev. ''the previous attempt failed these gates: '' @ ev) gate_evidence
      in if causes = [] then ''''
         else ''LATER ATTEMPT: the implementer has revised this unit since '' @ join ''; and '' causes @
              ''. Bring the periphery tests in line with that change.'' @ [CHR 0x0A])"

text \<open>The marks that record a decision under the deciding unit's own criterion and spec.\<close>

definition own_mark :: "probes \<Rightarrow> string \<Rightarrow> string \<Rightarrow> string \<Rightarrow> string \<Rightarrow> event \<Rightarrow> json option" where
  "own_mark P uid criterion_id spec status e =
     (if ev_type e \<noteq> TYPE_UNIT_STATUS then None
      else Option.bind (res_ok (de_value (pr_codec P) (ev_data e))) (\<lambda>v.
        if get_str v ''id'' \<noteq> Some uid \<or> get_str v ''status'' \<noteq> Some status \<or>
           unwrap_or '''' (get_str v ''criterion_id'') \<noteq> criterion_id \<or> unwrap_or '''' (get_str v ''spec'') \<noteq> spec
        then None else Some v))"

definition recorded_adoption :: "probes \<Rightarrow> event list \<Rightarrow> string \<Rightarrow> string \<Rightarrow> string \<Rightarrow> (string \<times> string \<times> string) option" where
  "recorded_adoption P events uid criterion_id spec =
     find_map (\<lambda>e.
       Option.bind (own_mark P uid criterion_id spec STATUS_ADOPTION_RECORDED e) (\<lambda>v.
       Option.bind (value_get v ''adopted_from'') (\<lambda>from.
       Option.bind (get_str from ''unit'') (\<lambda>u.
       Option.bind (get_str from ''tip'') (\<lambda>tip.
         Some (u, tip, unwrap_or '''' (get_str from ''spec''))))))) events"

definition quarantined_branch :: "probes \<Rightarrow> event list \<Rightarrow> string \<Rightarrow> string \<Rightarrow> string \<Rightarrow> string option" where
  "quarantined_branch P events uid criterion_id spec =
     find_map (\<lambda>e.
       Option.bind (own_mark P uid criterion_id spec STATUS_BRANCH_QUARANTINED e) (\<lambda>v.
       Option.bind (value_get v ''quarantined_to'') (\<lambda>q. get_str q ''branch''))) events"

section \<open>The fold read back from the log\<close>

text \<open>What the events say: which one opens a run's window, starts, integrates or reverts a unit.\<close>

definition opens_run :: "probes \<Rightarrow> event \<Rightarrow> run_started option" where
  "opens_run P e = (if ev_type e = TYPE_RUN_STARTED then res_ok (de_run_started (pr_codec P) (ev_data e)) else None)"

definition spec_at :: "probes \<Rightarrow> event list \<Rightarrow> string" where
  "spec_at P pre = (case find_last (\<lambda>e. opens_run P e \<noteq> None) pre of None \<Rightarrow> '''' | Some e \<Rightarrow> spec_stem (rs_spec (the (opens_run P e))))"

definition starts_as :: "probes \<Rightarrow> event \<Rightarrow> started_probe option" where
  "starts_as P e = (if ev_type e = TYPE_UNIT_STARTED then started_unit P e else None)"

definition integrates_as :: "probes \<Rightarrow> event \<Rightarrow> integrated_probe option" where
  "integrates_as P e = (if ev_type e = TYPE_UNIT_INTEGRATED then res_ok (pr_integrated P (ev_data e)) else None)"

definition reverts :: "probes \<Rightarrow> event \<Rightarrow> string \<Rightarrow> bool" where
  "reverts P e u \<longleftrightarrow> ev_type e = TYPE_UNIT_FAILED \<and> compensates e \<and> map_option sp_id (started_unit P e) = Some u"

text \<open>The unit's latest start in the log served the criterion under the spec.\<close>

definition serving :: "probes \<Rightarrow> string \<Rightarrow> string \<Rightarrow> event list \<Rightarrow> string \<Rightarrow> bool" where
  "serving P cid spec pre u \<longleftrightarrow>
     (\<exists>a e b p. pre = a @ e # b \<and> starts_as P e = Some p \<and> sp_id p = u \<and> sp_criterion_id p = cid \<and> spec_at P a = spec \<and>
        (\<forall>x \<in> set b. map_option sp_id (starts_as P x) \<noteq> Some u))"

text \<open>The unit stands integrated with a commit: some event integrated it while it served the
  criterion, and no later event reverted it or integrated it again while it did.\<close>

definition stands :: "probes \<Rightarrow> string \<Rightarrow> string \<Rightarrow> event list \<Rightarrow> string \<Rightarrow> string \<Rightarrow> bool" where
  "stands P cid spec es u c \<longleftrightarrow>
     (\<exists>pre e post p. es = pre @ e # post \<and> integrates_as P e = Some p \<and> ip_id p = u \<and> branch_commit p = c \<and>
        serving P cid spec pre u \<and>
        (\<forall>a f b. post = a @ f # b \<and> (reverts P f u \<or> map_option ip_id (integrates_as P f) = Some u) \<longrightarrow>
           \<not> serving P cid spec (pre @ e # a) u))"

lemma spec_at_snoc: "spec_at P (es @ [x]) = (case opens_run P x of None \<Rightarrow> spec_at P es | Some rs \<Rightarrow> spec_stem (rs_spec rs))"
  by (auto simp: spec_at_def split: option.split)

lemma serving_snoc:
  "serving P cid spec (es @ [x]) u \<longleftrightarrow>
     (case starts_as P x of
        Some p \<Rightarrow> if sp_id p = u then sp_criterion_id p = cid \<and> spec_at P es = spec else serving P cid spec es u
      | None \<Rightarrow> serving P cid spec es u)"
proof -
  let ?ok = "\<lambda>a e. \<exists>p. starts_as P e = Some p \<and> sp_id p = u \<and> sp_criterion_id p = cid \<and> spec_at P a = spec"
  let ?no = "\<lambda>b. \<forall>x \<in> set b. map_option sp_id (starts_as P x) \<noteq> Some u"
  have sv: "serving P cid spec xs u \<longleftrightarrow> (\<exists>a e b. xs = a @ e # b \<and> ?ok a e \<and> ?no b)" for xs
    unfolding serving_def by blast
  have "(\<exists>a e b. es @ [x] = a @ e # b \<and> ?ok a e \<and> ?no b) \<longleftrightarrow>
      ?ok es x \<or> (\<exists>a e b. es = a @ e # b \<and> ?ok a e \<and> ?no b) \<and> ?no [x]" (is "?l \<longleftrightarrow> ?r")
  proof
    assume ?l
    then obtain a e b where s: "es @ [x] = a @ e # b" "?ok a e" "?no b" by blast
    from s(1)[unfolded snoc_split] show ?r using s(2,3) by (elim disjE exE conjE) (simp, force)
  next
    assume ?r
    then show ?l
    proof
      assume "?ok es x"
      then show ?l by (intro exI [of _ es] exI [of _ x] exI [of _ "[]"]) simp
    next
      assume "(\<exists>a e b. es = a @ e # b \<and> ?ok a e \<and> ?no b) \<and> ?no [x]"
      then obtain a e b where "es = a @ e # b" "?ok a e" "?no b" "?no [x]" by blast
      then show ?l by (intro exI [of _ a] exI [of _ e] exI [of _ "b @ [x]"]) simp
    qed
  qed
  then have "serving P cid spec (es @ [x]) u \<longleftrightarrow> ?ok es x \<or> serving P cid spec es u \<and> ?no [x]"
    by (simp only: sv)
  then show ?thesis by (auto split: option.split)
qed

lemma stands_snoc:
  "stands P cid spec (es @ [x]) u c \<longleftrightarrow>
     (if serving P cid spec es u then
        (\<exists>p. integrates_as P x = Some p \<and> ip_id p = u \<and> branch_commit p = c) \<or>
        stands P cid spec es u c \<and> \<not> reverts P x u \<and> map_option ip_id (integrates_as P x) \<noteq> Some u
      else stands P cid spec es u c)"
    (is "_ = ?r")
proof -
  let ?hit = "\<lambda>f. reverts P f u \<or> map_option ip_id (integrates_as P f) = Some u"
  have "stands P cid spec (es @ [x]) u c \<longleftrightarrow>
      (\<exists>p. integrates_as P x = Some p \<and> ip_id p = u \<and> branch_commit p = c) \<and> serving P cid spec es u \<or>
      stands P cid spec es u c \<and> \<not> (?hit x \<and> serving P cid spec es u)"
  proof
    assume "stands P cid spec (es @ [x]) u c"
    then obtain pre e post p where s: "es @ [x] = pre @ e # post" "integrates_as P e = Some p" "ip_id p = u" "branch_commit p = c"
        "serving P cid spec pre u" "\<forall>a f b. post = a @ f # b \<and> ?hit f \<longrightarrow> \<not> serving P cid spec (pre @ e # a) u"
      unfolding stands_def by blast
    from s(1)[unfolded snoc_split]
    show "(\<exists>p. integrates_as P x = Some p \<and> ip_id p = u \<and> branch_commit p = c) \<and> serving P cid spec es u \<or>
      stands P cid spec es u c \<and> \<not> (?hit x \<and> serving P cid spec es u)"
    proof (elim disjE exE conjE)
      fix post' assume p': "post = post' @ [x]" "es = pre @ e # post'"
      have "\<forall>a f b. post' = a @ f # b \<and> ?hit f \<longrightarrow> \<not> serving P cid spec (pre @ e # a) u"
        using s(6) unfolding p'(1) by (metis append.assoc append_Cons)
      then have "stands P cid spec es u c" unfolding stands_def p'(2) using s(2-5) by blast
      moreover have "\<not> (?hit x \<and> serving P cid spec es u)" using s(6) unfolding p' by blast
      ultimately show ?thesis by blast
    qed (use s in auto)
  next
    assume r: "(\<exists>p. integrates_as P x = Some p \<and> ip_id p = u \<and> branch_commit p = c) \<and> serving P cid spec es u \<or>
      stands P cid spec es u c \<and> \<not> (?hit x \<and> serving P cid spec es u)"
    show "stands P cid spec (es @ [x]) u c"
    proof (cases "(\<exists>p. integrates_as P x = Some p \<and> ip_id p = u \<and> branch_commit p = c) \<and> serving P cid spec es u")
      case True
      then show ?thesis unfolding stands_def by (intro exI [of _ es] exI [of _ x] exI [of _ "[]"]) auto
    next
      case False
      with r have r': "stands P cid spec es u c" "\<not> (?hit x \<and> serving P cid spec es u)" by blast+
      from r'(1) obtain pre e post p where s: "es = pre @ e # post" "integrates_as P e = Some p" "ip_id p = u" "branch_commit p = c"
          "serving P cid spec pre u" "\<forall>a f b. post = a @ f # b \<and> ?hit f \<longrightarrow> \<not> serving P cid spec (pre @ e # a) u"
        unfolding stands_def by blast
      have "\<forall>a f b. post @ [x] = a @ f # b \<and> ?hit f \<longrightarrow> \<not> serving P cid spec (pre @ e # a) u"
        using s(6) r'(2) unfolding snoc_split s(1) by blast
      then show ?thesis unfolding stands_def using s by (intro exI [of _ pre] exI [of _ e] exI [of _ "post @ [x]"] exI [of _ p]) simp
    qed
  qed
  then show ?thesis by auto
qed

lemma history_walk_snoc: "history_walk P cid spec (es @ [e]) = history_step P cid spec (history_walk P cid spec es) e"
  by (simp add: history_walk_def)

text \<open>The walk's state after a log, as the log itself says it.\<close>

lemma history_walk_is:
  "hw_spec (history_walk P cid spec es) = spec_at P es \<and>
   (\<forall>u. hw_serves (history_walk P cid spec es) u = Some True \<longleftrightarrow> serving P cid spec es u) \<and>
   (\<forall>u c. ch_standing (criterion_history P es cid spec) u = Some c \<longleftrightarrow> stands P cid spec es u c)"
proof (induction es rule: rev_induct)
  case Nil
  show ?case by (simp add: history_walk_def history_start_def spec_at_def serving_def stands_def criterion_history_def)
next
  case (snoc e es)
  let ?w = "history_walk P cid spec es"
  have IH: "hw_spec ?w = spec_at P es" "\<And>u. hw_serves ?w u = Some True \<longleftrightarrow> serving P cid spec es u"
      "\<And>u c. ch_standing (hw_history ?w) u = Some c \<longleftrightarrow> stands P cid spec es u c"
    using snoc unfolding criterion_history_def by blast+
  consider (run) "ev_type e = TYPE_RUN_STARTED" | (start) "ev_type e = TYPE_UNIT_STARTED" | (integ) "ev_type e = TYPE_UNIT_INTEGRATED"
    | (fail) "ev_type e = TYPE_UNIT_FAILED" "compensates e" | (other) "ev_type e \<noteq> TYPE_RUN_STARTED" "ev_type e \<noteq> TYPE_UNIT_STARTED"
      "ev_type e \<noteq> TYPE_UNIT_INTEGRATED" "\<not> (ev_type e = TYPE_UNIT_FAILED \<and> compensates e)" by blast
  then show ?case
  proof cases
    case run
    then show ?thesis
      by (auto simp: criterion_history_def history_walk_snoc history_step_def spec_at_snoc serving_snoc stands_snoc opens_run_def
          starts_as_def integrates_as_def reverts_def IH split: sum.split)
  next
    case start
    then show ?thesis
      by (auto simp: criterion_history_def history_walk_snoc history_step_def spec_at_snoc serving_snoc stands_snoc opens_run_def
          starts_as_def integrates_as_def reverts_def IH Let_def split: option.split)
  next
    case integ
    then show ?thesis
      by (cases "pr_integrated P (ev_data e)")
        (auto simp: criterion_history_def history_walk_snoc history_step_def spec_at_snoc serving_snoc stands_snoc opens_run_def
          starts_as_def integrates_as_def reverts_def IH opt_filter_def)
  next
    case fail
    then show ?thesis
      by (cases "started_unit P e")
        (auto simp: criterion_history_def history_walk_snoc history_step_def spec_at_snoc serving_snoc stands_snoc opens_run_def
          starts_as_def integrates_as_def reverts_def IH opt_filter_def)
  next
    case other
    then show ?thesis
      by (auto simp: criterion_history_def history_walk_snoc history_step_def spec_at_snoc serving_snoc stands_snoc opens_run_def
          starts_as_def integrates_as_def reverts_def IH)
  qed
qed

text \<open>
  C26. The one fold adoption and landing read holds a unit integrated, with a commit, exactly when the
  log says so: some event integrated the unit with that commit while its latest start served the
  criterion under the spec, and since then no compensation reverted it and no other integration
  replaced it while its latest start still did; an integration or a revert of the same id for
  another criterion or spec changes nothing.
\<close>

theorem criterion_history_standing_exact:
  "ch_standing (criterion_history P es cid spec) u = Some c \<longleftrightarrow> stands P cid spec es u c"
  using history_walk_is by blast

section \<open>Landing and adoption\<close>

lemma landed_effect:
  assumes "landed_criterion_unit P es cid this_unit = Some l"
  shows "cid \<noteq> '''' \<and> current_run_spec P es \<noteq> '''' \<and>
     (\<forall>e u. e \<in> set (current_run es) \<and> ev_type e = TYPE_UNIT_STARTED \<and> pr_started P (ev_data e) = Inr u \<longrightarrow> sp_id u \<noteq> this_unit) \<and>
     (let before = take (length es - length (current_run es)) es; spec = current_run_spec P es;
          starts = ch_starts (criterion_history P before cid spec)
      in starts \<noteq> [] \<and> last starts = (lc_unit l, lc_run l) \<and> lc_commits l \<noteq> [] \<and>
         list_all2 (\<lambda>(u, _) c. stands P cid spec before u c) (filter (\<lambda>(_, r). r = lc_run l) starts) (lc_commits l))"
proof -
  let ?spec = "current_run_spec P es" and ?before = "take (length es - length (current_run es)) es"
  let ?h = "criterion_history P ?before cid ?spec"
  obtain uid run where lst: "last (ch_starts ?h) = (uid, run)" by fastforce
  have g: "cid \<noteq> ''''" "?spec \<noteq> ''''" "ch_starts ?h \<noteq> []"
      "\<not> list_ex (\<lambda>e. ev_type e = TYPE_UNIT_STARTED \<and>
         (case pr_started P (ev_data e) of Inr u \<Rightarrow> sp_id u = this_unit | Inl _ \<Rightarrow> False)) (current_run es)"
      and l: "map_option (\<lambda>commits. \<lparr>lc_unit = uid, lc_run = run, lc_commits = commits\<rparr>)
         (collect_opt (map (\<lambda>(u, _). ch_standing ?h u) (filter (\<lambda>(_, r). r = run) (ch_starts ?h)))) = Some l"
    using assms by (simp_all add: landed_criterion_unit_def Let_def lst split: if_splits)
  from l obtain commits where c: "collect_opt (map (\<lambda>(u, _). ch_standing ?h u) (filter (\<lambda>(_, r). r = run) (ch_starts ?h))) = Some commits"
      "l = \<lparr>lc_unit = uid, lc_run = run, lc_commits = commits\<rparr>" by auto
  have "list_all2 (\<lambda>(u, _) c. stands P cid ?spec ?before u c) (filter (\<lambda>(_, r). r = run) (ch_starts ?h)) commits"
    using c(1) unfolding collect_opt_eq by (rule list_all2_mono) (use history_walk_is in \<open>auto split: prod.splits\<close>)
  moreover have "(uid, run) \<in> set (filter (\<lambda>(_, r). r = run) (ch_starts ?h))" using last_in_set [OF g(3)] lst by simp
  moreover have "length (filter (\<lambda>(_, r). r = run) (ch_starts ?h)) = length commits" using calculation(1) by (rule list_all2_lengthD)
  ultimately have "commits \<noteq> []" by (metis length_0_conv list.set(1) empty_iff)
  then show ?thesis using g c(2) lst \<open>list_all2 _ _ commits\<close> by (auto simp: Let_def list_ex_iff)
qed

text \<open>
  C27. A criterion is landed only by a whole attempt: the spec and the criterion are named, the unit
  has not started in the current run, the attempt is the run of the latest earlier start that served
  the criterion under this spec, and every unit of that attempt stands integrated before this run
  with exactly the commit reported for it, so one reverted or unfinished part keeps it open.
\<close>

theorem landed_rests_on_standing:
  assumes "landed_criterion_unit P es cid this_unit = Some l"
  shows "cid \<noteq> '''' \<and> current_run_spec P es \<noteq> '''' \<and>
     (\<forall>e u. e \<in> set (current_run es) \<and> ev_type e = TYPE_UNIT_STARTED \<and> pr_started P (ev_data e) = Inr u \<longrightarrow> sp_id u \<noteq> this_unit) \<and>
     (let before = take (length es - length (current_run es)) es; spec = current_run_spec P es;
          starts = ch_starts (criterion_history P before cid spec)
      in starts \<noteq> [] \<and> last starts = (lc_unit l, lc_run l) \<and> lc_commits l \<noteq> [] \<and>
         list_all2 (\<lambda>(u, _) c. stands P cid spec before u c) (filter (\<lambda>(_, r). r = lc_run l) starts) (lc_commits l))"
  using assms by (rule landed_effect)

lemma landed_nothing: "landed_criterion_unit P [] cid this_unit = None"
  by (simp add: landed_criterion_unit_def criterion_history_def history_walk_def history_start_def Let_def)

lemma history_walk_skip:
  "list_all (\<lambda>e. ev_type e \<notin> {TYPE_UNIT_STARTED, TYPE_UNIT_INTEGRATED, TYPE_UNIT_FAILED}) post \<Longrightarrow>
     criterion_history P (pre @ post) cid spec = criterion_history P pre cid spec"
proof (induction post rule: rev_induct)
  case (snoc e post)
  then have "criterion_history P (pre @ post @ [e]) cid spec = criterion_history P (pre @ post) cid spec"
    unfolding criterion_history_def append_assoc [symmetric] history_walk_snoc
    by (auto simp: history_step_def split: sum.split)
  then show ?case using snoc by simp
qed simp

lemma current_run_suffix_take: "es = take (length es - length (current_run es)) es @ current_run es"
proof (cases es rule: current_run_cases)
  case (run pre e post)
  then show ?thesis by simp
qed simp

text \<open>
  Before a run has started any unit, adopting and landing exclude each other: as long as the
  criterion's latest attempt was not made under this unit's own id, a unit that an abandoned
  attempt is adopted for has no landing to rest on.
\<close>

theorem adopting_excludes_landing:
  assumes "prior_criterion_unit P es cid this_unit = Some u"
    and "list_all (\<lambda>e. ev_type e \<notin> {TYPE_UNIT_STARTED, TYPE_UNIT_INTEGRATED, TYPE_UNIT_FAILED}) (current_run es)"
    and "fst (last (ch_starts (criterion_history P es cid (current_run_spec P es)))) \<noteq> this_unit"
  shows "landed_criterion_unit P es cid this_unit = None"
proof (rule ccontr)
  assume "landed_criterion_unit P es cid this_unit \<noteq> None"
  then obtain l where "landed_criterion_unit P es cid this_unit = Some l" by blast
  note land = landed_effect [OF this]
  let ?h = "criterion_history P es cid (current_run_spec P es)"
  have "criterion_history P (take (length es - length (current_run es)) es @ current_run es) cid (current_run_spec P es) =
      criterion_history P (take (length es - length (current_run es)) es) cid (current_run_spec P es)"
    by (rule history_walk_skip) (rule assms(2))
  then have h: "criterion_history P (take (length es - length (current_run es)) es) cid (current_run_spec P es) = ?h"
    by (simp only: current_run_suffix_take [symmetric])
  obtain ss uid run where starts: "ch_starts ?h = ss @ [(uid, run)]" "uid = lc_unit l" "run = lc_run l"
    using land unfolding h Let_def by (cases "ch_starts ?h" rule: rev_cases) auto
  have "find_last (\<lambda>(uid, _). uid \<noteq> this_unit) (ch_starts ?h) = Some (uid, run)" using assms(3) by (simp add: starts)
  then have "ch_standing ?h uid = None" using assms(1) by (simp add: prior_criterion_unit_def Let_def split: if_splits)
  moreover have "\<exists>c. stands P cid (current_run_spec P es) (take (length es - length (current_run es)) es) uid c"
  proof -
    have "list_all2 (\<lambda>(u, _) c. stands P cid (current_run_spec P es) (take (length es - length (current_run es)) es) u c)
        (filter (\<lambda>(_, r). r = lc_run l) ss @ [(uid, run)]) (lc_commits l)"
      using land unfolding h Let_def starts(1) using starts(2,3) by simp
    then show ?thesis by (auto simp: list_all2_append1 list_all2_Cons1)
  qed
  then have "\<exists>c. ch_standing ?h uid = Some c"
    using history_walk_is [of P cid "current_run_spec P es" "take (length es - length (current_run es)) es"] unfolding h by blast
  ultimately show False by simp
qed

section \<open>Foreign branches\<close>

lemma owner_walk:
  "fst (foldl (owner_step P u) ('''', None) es) = spec_at P es \<and>
   (case branch_owner P es u of
      None \<Rightarrow> True
    | Some (cid, spec) \<Rightarrow> \<exists>pre e post p. es = pre @ e # post \<and> ev_type e = TYPE_UNIT_STARTED \<and> pr_started P (ev_data e) = Inr p \<and>
        sp_id p = u \<and> sp_criterion_id p = cid \<and> spec_at P pre = spec \<and>
        (\<forall>x q. x \<in> set post \<and> ev_type x = TYPE_UNIT_STARTED \<and> pr_started P (ev_data x) = Inr q \<longrightarrow> sp_id q \<noteq> u))"
proof (induction es rule: rev_induct)
  case Nil
  show ?case by (simp add: branch_owner_def spec_at_def)
next
  case (snoc e es)
  let ?s = "foldl (owner_step P u) ('''', None) es"
  have st: "foldl (owner_step P u) ('''', None) (es @ [e]) = owner_step P u ?s e" by simp
  have "fst s = spec_at P es \<Longrightarrow> fst (owner_step P u s e) = spec_at P (es @ [e])" for s
    by (auto simp: owner_step_def spec_at_snoc opens_run_def split: sum.split)
  then have spec: "fst (owner_step P u ?s e) = spec_at P (es @ [e])" using snoc by blast
  show ?case
  proof (cases "\<exists>p. ev_type e = TYPE_UNIT_STARTED \<and> pr_started P (ev_data e) = Inr p \<and> sp_id p = u")
    case True
    then obtain p where p: "ev_type e = TYPE_UNIT_STARTED" "pr_started P (ev_data e) = Inr p" "sp_id p = u" by blast
    have "snd (owner_step P u s e) = Some (sp_criterion_id p, fst s)" for s using p by (simp add: owner_step_def)
    then have "branch_owner P (es @ [e]) u = Some (sp_criterion_id p, spec_at P es)"
      unfolding branch_owner_def st using snoc by (simp only:)
    moreover have "\<exists>pre x post q. es @ [e] = pre @ x # post \<and> ev_type x = TYPE_UNIT_STARTED \<and> pr_started P (ev_data x) = Inr q \<and>
        sp_id q = u \<and> sp_criterion_id q = sp_criterion_id p \<and> spec_at P pre = spec_at P es \<and>
        (\<forall>x q. x \<in> set post \<and> ev_type x = TYPE_UNIT_STARTED \<and> pr_started P (ev_data x) = Inr q \<longrightarrow> sp_id q \<noteq> u)"
      by (intro exI [of _ es] exI [of _ e] exI [of _ "[]"] exI [of _ p]) (simp add: p)
    ultimately show ?thesis using spec st by simp
  next
    case False
    then have same: "branch_owner P (es @ [e]) u = branch_owner P es u"
      unfolding branch_owner_def st by (auto simp: owner_step_def split: sum.split)
    show ?thesis
    proof (cases "branch_owner P es u")
      case (Some o')
      then obtain cid sp where o': "branch_owner P es u = Some (cid, sp)" by (cases o') auto
      with snoc obtain pre x post p where x: "es = pre @ x # post" "ev_type x = TYPE_UNIT_STARTED" "pr_started P (ev_data x) = Inr p"
        "sp_id p = u" "sp_criterion_id p = cid" "spec_at P pre = sp"
        "\<forall>x q. x \<in> set post \<and> ev_type x = TYPE_UNIT_STARTED \<and> pr_started P (ev_data x) = Inr q \<longrightarrow> sp_id q \<noteq> u" by auto
      have "\<forall>y q. y \<in> set (post @ [e]) \<and> ev_type y = TYPE_UNIT_STARTED \<and> pr_started P (ev_data y) = Inr q \<longrightarrow> sp_id q \<noteq> u"
        using x(7) False by auto
      then have "\<exists>pre x post p. es @ [e] = pre @ x # post \<and> ev_type x = TYPE_UNIT_STARTED \<and> pr_started P (ev_data x) = Inr p \<and>
        sp_id p = u \<and> sp_criterion_id p = cid \<and> spec_at P pre = sp \<and>
        (\<forall>x q. x \<in> set post \<and> ev_type x = TYPE_UNIT_STARTED \<and> pr_started P (ev_data x) = Inr q \<longrightarrow> sp_id q \<noteq> u)"
        using x by (intro exI [of _ pre] exI [of _ x] exI [of _ "post @ [e]"] exI [of _ p]) simp
      then show ?thesis using spec st same o' by simp
    qed (use spec st same in simp)
  qed
qed

text \<open>
  A branch is quarantined only on proof: it reads as foreign only when the unit's most recent
  recorded start ran under another spec or, both criteria being named, served another criterion; a
  branch with no recorded start, or one recorded before criteria were, is never foreign.
\<close>

theorem foreign_branch_has_proof:
  assumes "branch_is_foreign (branch_owner P es u) cid spec"
  shows "\<exists>pre e post p. es = pre @ e # post \<and> ev_type e = TYPE_UNIT_STARTED \<and> pr_started P (ev_data e) = Inr p \<and> sp_id p = u \<and>
     (\<forall>x q. x \<in> set post \<and> ev_type x = TYPE_UNIT_STARTED \<and> pr_started P (ev_data x) = Inr q \<longrightarrow> sp_id q \<noteq> u) \<and>
     (spec_at P pre \<noteq> spec \<or> cid \<noteq> '''' \<and> sp_criterion_id p \<noteq> '''' \<and> sp_criterion_id p \<noteq> cid) \<and>
     (cid = '''' \<or> sp_criterion_id p \<noteq> '''')"
proof -
  from assms obtain c s where o: "branch_owner P es u = Some (c, s)" and f: "s \<noteq> spec \<or> cid \<noteq> '''' \<and> c \<noteq> '''' \<and> c \<noteq> cid" "cid = '''' \<or> c \<noteq> ''''"
    by (auto simp: branch_is_foreign_def split: option.splits if_splits)
  from owner_walk [of P u es] o obtain pre e post p where "es = pre @ e # post" "ev_type e = TYPE_UNIT_STARTED" "pr_started P (ev_data e) = Inr p"
      "sp_id p = u" "sp_criterion_id p = c" "spec_at P pre = s"
      "\<forall>x q. x \<in> set post \<and> ev_type x = TYPE_UNIT_STARTED \<and> pr_started P (ev_data x) = Inr q \<longrightarrow> sp_id q \<noteq> u" by auto
  then show ?thesis using f by (intro exI [of _ pre] exI [of _ e] exI [of _ post] exI [of _ p]) simp
qed

section \<open>Concrete logs\<close>

definition demo_probes :: probes where
  "demo_probes =
     \<lparr>pr_codec = demo_codec\<lparr>de_run_started := \<lambda>b. Inr \<lparr>rs_run = b, rs_criteria = [], rs_definition = '''', rs_base = '''', rs_base_tip = '''', rs_spec = ''a.md''\<rparr>\<rparr>,
      pr_started = \<lambda>b. Inr \<lparr>sp_id = b, sp_criterion_id = ''c''\<rparr>,
      pr_integrated = \<lambda>b. Inr \<lparr>ip_id = b, ip_commit = ''k'', ip_landed_from = None\<rparr>\<rparr>"

definition abandoned_log :: "event list" where
  "abandoned_log = [demo_event TYPE_RUN_STARTED ''r1'', demo_event TYPE_UNIT_STARTED ''u-b'', demo_event TYPE_RUN_STARTED ''r2'']"

definition landed_log :: "event list" where
  "landed_log = [demo_event TYPE_RUN_STARTED ''r1'', demo_event TYPE_UNIT_STARTED ''u-b'', demo_event TYPE_RUN_STARTED ''r2'',
     demo_event TYPE_UNIT_STARTED ''u-a'', demo_event TYPE_UNIT_INTEGRATED ''u-a'', demo_event TYPE_RUN_STARTED ''r3'']"

lemma demo_stem: "spec_stem ''a.md'' = ''a''"
  by code_simp

lemma demo_run_spec: "current_run_spec demo_probes landed_log = ''a''" "current_run_spec demo_probes abandoned_log = ''a''"
  by (simp_all add: current_run_spec_def current_run_spec_path_def latest_def landed_log_def abandoned_log_def demo_event_def
      find_last_def is_run_start_def demo_probes_def decode_def demo_stem)

lemma demo_current_run: "current_run landed_log = [demo_event TYPE_RUN_STARTED ''r3'']" "current_run abandoned_log = [demo_event TYPE_RUN_STARTED ''r2'']"
  by (simp_all add: current_run_def landed_log_def abandoned_log_def is_run_start_def demo_event_def)

lemma demo_history:
  "criterion_history demo_probes landed_log ''c'' ''a'' = \<lparr>ch_starts = [(''u-b'', ''r1''), (''u-a'', ''r2'')], ch_standing = [''u-a'' \<mapsto> ''k'']\<rparr>"
  "criterion_history demo_probes (take 5 landed_log) ''c'' ''a'' = \<lparr>ch_starts = [(''u-b'', ''r1''), (''u-a'', ''r2'')], ch_standing = [''u-a'' \<mapsto> ''k'']\<rparr>"
  "criterion_history demo_probes abandoned_log ''c'' ''a'' = \<lparr>ch_starts = [(''u-b'', ''r1'')], ch_standing = Map.empty\<rparr>"
  by (simp_all add: criterion_history_def history_walk_def history_start_def landed_log_def abandoned_log_def history_step_def demo_event_def
      demo_probes_def started_unit_def demo_stem branch_commit_def)

lemma demo_landed:
  "landed_criterion_unit demo_probes landed_log ''c'' this_unit = Some \<lparr>lc_unit = ''u-a'', lc_run = ''r2'', lc_commits = [''k'']\<rparr>"
proof -
  have "length landed_log = 6" by (simp add: landed_log_def)
  then show ?thesis by (simp add: landed_criterion_unit_def demo_run_spec demo_current_run demo_history Let_def demo_event_def)
qed

lemma demo_prior: "prior_criterion_unit demo_probes landed_log ''c'' ''u-a'' = Some ''u-b''" "prior_criterion_unit demo_probes abandoned_log ''c'' ''u-c'' = Some ''u-b''"
  by (simp_all add: prior_criterion_unit_def demo_run_spec demo_history find_last_def)

theorem landed_rests_on_standing_witness:
  "stands demo_probes ''c'' ''a'' (take 5 landed_log) ''u-a'' ''k''"
proof -
  have "length landed_log = 6" by (simp add: landed_log_def)
  then show ?thesis using landed_rests_on_standing [OF demo_landed]
    by (simp add: demo_run_spec demo_current_run demo_history Let_def)
qed

theorem adopting_excludes_landing_witness:
  "landed_criterion_unit demo_probes abandoned_log ''c'' ''u-c'' = None"
  by (rule adopting_excludes_landing [OF demo_prior(2)]) (simp_all add: demo_current_run demo_run_spec demo_history demo_event_def)

text \<open>
  The exclusion needs its premise: a unit id is only unique within its run, and the search for an
  abandoned attempt passes over every start under the unit's own id, earlier runs' included. When the
  criterion's latest attempt was made, and integrated, under that same id, an older abandoned attempt
  is answered for adoption beside the landing.
\<close>

theorem own_id_hides_latest_attempt:
  "prior_criterion_unit demo_probes landed_log ''c'' ''u-a'' = Some ''u-b'' \<and>
   landed_criterion_unit demo_probes landed_log ''c'' ''u-a'' = Some \<lparr>lc_unit = ''u-a'', lc_run = ''r2'', lc_commits = [''k'']\<rparr>"
  by (simp add: demo_prior demo_landed)

theorem foreign_branch_has_proof_witness:
  "\<exists>pre e post p. landed_log = pre @ e # post \<and> ev_type e = TYPE_UNIT_STARTED \<and> pr_started demo_probes (ev_data e) = Inr p \<and> sp_id p = ''u-a''"
proof -
  have "branch_is_foreign (branch_owner demo_probes landed_log ''u-a'') ''d'' ''a''"
    by (simp add: branch_is_foreign_def branch_owner_def landed_log_def owner_step_def demo_event_def demo_probes_def)
  from foreign_branch_has_proof [OF this] show ?thesis by (elim exE conjE) (intro exI conjI)
qed

end
