(* ===== verification/Harvest.thy ===== *)
theory Harvest
  imports Scheduler Adoption
begin

text \<open>
  How the conductor grows the stage graph (\<open>conductor.rs\<close>): the expansion of the fan-out template
  into the decomposition baseline at the start of \<open>run\<close>, and \<open>harvest_proposed\<close>, which folds the
  planner's \<open>UnitProposed\<close> events into the live stages. The decoders, the outcome of an
  append to the log, the lifecycle events read for the landing check and git's ancestry answer are
  parameters. A keyed append that replays a recorded key writes nothing; the model lists the signals a
  pass asks for.

  The theorems: a harvest keeps every criterion owned, adds no stage without the template's gates
  (so the guard against ungated fan-out units never fires), holds every proposed unit behind the
  plan-critique gate, never touches a stage that has started or belongs to the workflow itself, and
  leaves no unstarted owner of an earlier planning episode beside a new one.
\<close>

section \<open>Proposals\<close>

abbreviation "TYPE_UNIT_PROPOSED \<equiv> ''UnitProposed''"
abbreviation "META_SPAWN \<equiv> ''spawn''"

record unit_proposed =
  up_id :: string
  up_agent :: string
  up_needs :: "string list"
  up_coverage :: string
  up_gates :: "string list"
  up_criterion_id :: string
  up_episode :: string

definition proposal :: "(bytes \<Rightarrow> json_error + unit_proposed) \<Rightarrow> event \<Rightarrow> unit_proposed option" where
  "proposal de e =
     (if ev_type e \<noteq> TYPE_UNIT_PROPOSED then None
      else map_option (\<lambda>u.
        case opt_filter (\<lambda>s. s \<noteq> []) (bt_get (ev_meta e) META_SPAWN) of
          Some spawn \<Rightarrow> u\<lparr>up_episode := spawn\<rparr>
        | None \<Rightarrow> u) (res_ok (de (ev_data e))))"

definition proposals :: "(bytes \<Rightarrow> json_error + unit_proposed) \<Rightarrow> event list \<Rightarrow> (position \<times> unit_proposed) list" where
  "proposals de es = List.map_filter (\<lambda>e. map_option (\<lambda>u. (ev_position e, u)) (proposal de e)) es"

definition final_episode :: "(position \<times> unit_proposed) list \<Rightarrow> string \<Rightarrow> string option" where
  "final_episode ps = map_of (rev (map (\<lambda>(_, u). (up_id u, up_episode u)) (filter (\<lambda>(_, u). up_id u \<noteq> []) ps)))"

section \<open>Resolution\<close>

definition part_coverage :: "string \<Rightarrow> string \<Rightarrow> string" where
  "part_coverage criterion proposed =
     (case criterion_remainder criterion proposed of
        Some rest \<Rightarrow> if rest \<noteq> [] then criterion @ [CHR 0x0A, CHR 0x0A] @ rest else criterion
      | None \<Rightarrow> criterion)"

definition with_gate_hold :: "string list \<Rightarrow> string \<Rightarrow> string option \<Rightarrow> string list" where
  "with_gate_hold needs i gate =
     (case gate of Some g \<Rightarrow> if i \<noteq> g \<and> g \<notin> set needs then needs @ [g] else needs | None \<Rightarrow> needs)"

definition union_gates :: "string list \<Rightarrow> string list \<Rightarrow> string list" where
  "union_gates base additional = foldl (\<lambda>gates g. if g \<in> set gates then gates else gates @ [g]) base additional"

definition normalize_criterion_id :: "string \<Rightarrow> string" where
  "normalize_criterion_id i = trim (trim_matches (\<lambda>c. c = CHR ''['' \<or> c = CHR '']'') (trim i))"

text \<open>\<open>min_by_key\<close> with the reversed length: the first of the longest.\<close>

definition first_longest :: "(nat \<times> string) list \<Rightarrow> (nat \<times> string) option" where
  "first_longest cs =
     foldl (\<lambda>best ic. case best of
         None \<Rightarrow> Some ic
       | Some b \<Rightarrow> if length (normalize_ws (snd b)) < length (normalize_ws (snd ic)) then Some ic else Some b) None cs"

definition resolve_served_criterion :: "string list \<Rightarrow> string \<Rightarrow> string \<Rightarrow> (string \<times> string) option" where
  "resolve_served_criterion criteria coverage criterion_id =
     (if trim coverage = [] then None
      else
        (let echoed = normalize_criterion_id criterion_id; cs = List.enumerate 0 criteria
         in map_option (\<lambda>(i, c). (criterion_stable_id (i + 1) c, part_coverage c coverage))
              (case find (\<lambda>(i, c). echoed \<noteq> [] \<and> echoed = criterion_stable_id (i + 1) c) cs of
                 Some ic \<Rightarrow> Some ic
               | None \<Rightarrow> first_longest (filter (\<lambda>(_, c). criterion_remainder c coverage \<noteq> None) cs))))"

section \<open>The baseline expansion\<close>

text \<open>\<open>entry(name).or_insert(unit)\<close>: a stage that is there stays.\<close>

definition or_insert :: "stages \<Rightarrow> string \<times> stage \<Rightarrow> stages" where
  "or_insert stages nu = (if bt_get stages (fst nu) = None then bt_insert (fst nu) (snd nu) stages else stages)"

record expansion =
  ex_stages :: stages
  ex_fanout_criteria :: "(string \<times> string set) list"
  ex_template_gates :: "(string \<times> string list) list"

definition expand_baseline :: "stages \<Rightarrow> string list \<Rightarrow> expansion" where
  "expand_baseline stages criteria =
     (let none = \<lparr>ex_stages = stages, ex_fanout_criteria = [], ex_template_gates = []\<rparr>
      in if criteria = [] then none
         else case first_stage_named stages is_fan_out_template of
           None \<Rightarrow> none
         | Some template_name \<Rightarrow>
             (case bt_get stages template_name of
                None \<Rightarrow> none
              | Some template \<Rightarrow>
                  (let rest = bt_remove template_name stages;
                       units = baseline_units template criteria (first_stage_named rest is_producer)
                   in \<lparr>ex_stages = foldl or_insert rest units,
                       ex_fanout_criteria = [(template_name, set (map (s_criterion_id \<circ> snd) units))],
                       ex_template_gates = [(template_name, s_gates template)]\<rparr>)))"

definition template_gates :: "stages \<Rightarrow> string list" where
  "template_gates workflow_stages =
     unwrap_or [] (Option.bind (first_stage_named workflow_stages is_fan_out_template) (\<lambda>name.
       map_option s_gates (bt_get workflow_stages name)))"

section \<open>Harvesting\<close>

datatype harvest_signal =
    RefineRetarget string position
  | NoCriterion string
  | UnmatchedProposal string
  | Landed string landed_criterion string

record harvest_cfg =
  hc_criteria :: "string list"
  hc_template_gates :: "string list"
  hc_gate :: "string option"
  hc_final :: "string \<Rightarrow> string option"
  hc_append :: "harvest_signal \<Rightarrow> string option"
  hc_probes :: probes
  hc_lifecycle :: "string + event list"
  hc_repo :: string
  hc_is_ancestor :: "string \<Rightarrow> string \<Rightarrow> string \<Rightarrow> bool"

record harvest_state =
  h_stages :: stages
  h_proposed :: "string set"
  h_integrated :: "string set"
  h_terminal :: "string set"
  h_order :: "(string \<times> nat) list"
  h_signals :: "harvest_signal list"

definition emit :: "harvest_cfg \<Rightarrow> harvest_signal \<Rightarrow> harvest_state \<Rightarrow> string + harvest_state" where
  "emit c sig s =
     (case hc_append c sig of Some err \<Rightarrow> Inl err | None \<Rightarrow> Inr (s\<lparr>h_signals := h_signals s @ [sig]\<rparr>))"

definition land_if_landed :: "harvest_cfg \<Rightarrow> stage \<Rightarrow> harvest_state \<Rightarrow> string + (bool \<times> harvest_state)" where
  "land_if_landed c st s =
     (if s_criterion_id st = [] then Inr (False, s)
      else bind_res (hc_lifecycle c) (\<lambda>events.
        case landed_criterion_unit (hc_probes c) events (s_criterion_id st) (s_name st) of
          None \<Rightarrow> Inr (False, s)
        | Some landed \<Rightarrow>
            if \<not> on_run_branch (hc_is_ancestor c) (hc_repo c) (lc_commits landed) then Inr (False, s)
            else bind_res (emit c (Landed (s_name st) landed (current_run_spec_path (pr_codec (hc_probes c)) events)) s)
                   (\<lambda>s'. Inr (True, s'))))"

text \<open>\<open>episode_order.entry(..).or_insert(next)\<close>.\<close>

definition register_episode :: "string \<Rightarrow> (string \<times> nat) list \<Rightarrow> nat \<times> (string \<times> nat) list" where
  "register_episode episode order =
     (case map_of order episode of
        Some r \<Rightarrow> (r, order)
      | None \<Rightarrow> (length order, order @ [(episode, length order)]))"

text \<open>Whether the owner's episode is earlier than a proposal's, the baseline and the legacy tier
  first. \<open>usize::MAX\<close>, the rk of an owner whose episode was never registered, is no rk a proposal
  has, so it is never earlier.\<close>

definition episode_earlier :: "(string \<times> nat) list \<Rightarrow> string \<Rightarrow> string \<Rightarrow> nat \<Rightarrow> bool" where
  "episode_earlier order owner_episode episode rk =
     (if owner_episode = [] then episode \<noteq> []
      else if episode = [] then False
      else case map_of order owner_episode of None \<Rightarrow> False | Some r \<Rightarrow> r < rk)"

definition prior_owner ::
  "harvest_cfg \<Rightarrow> harvest_state \<Rightarrow> string \<Rightarrow> string \<Rightarrow> nat \<Rightarrow> string \<times> stage \<Rightarrow> bool" where
  "prior_owner c s criterion_id episode rk nst =
     (if fst nst \<in> h_integrated s \<or> fst nst \<in> h_terminal s \<or> s_criterion_id (snd nst) \<noteq> criterion_id then False
      else if s_baseline (snd nst) then True
      else episode_earlier (h_order s) (unwrap_or (s_episode (snd nst)) (hc_final c (fst nst))) episode rk)"

definition refine_stage ::
  "harvest_cfg \<Rightarrow> position \<Rightarrow> unit_proposed \<Rightarrow> stage \<Rightarrow> stage \<times> harvest_signal option" where
  "refine_stage c pos u st =
     (let st1 = st\<lparr>s_needs := with_gate_hold (up_needs u) (up_id u) (hc_gate c)\<rparr>;
          refined = (if trim (up_coverage u) = [] then None
                     else Some (unwrap_or ([], up_coverage u)
                       (resolve_served_criterion (hc_criteria c) (up_coverage u) (up_criterion_id u))));
          st2 = (case refined of
                   Some (served, text) \<Rightarrow> if served = s_criterion_id st1 then st1\<lparr>s_coverage := text\<rparr> else st1
                 | None \<Rightarrow> st1);
          sig = (case refined of
                   Some (served, _) \<Rightarrow> if served = s_criterion_id st1 then None else Some (RefineRetarget (up_id u) pos)
                 | None \<Rightarrow> None);
          st3 = st2\<lparr>s_gates := union_gates (s_gates st2) (up_gates u)\<rparr>
      in (if s_baseline st3 then st3 else st3\<lparr>s_episode := up_episode u\<rparr>, sig))"

definition harvest_refine ::
  "harvest_cfg \<Rightarrow> position \<Rightarrow> unit_proposed \<Rightarrow> stage \<Rightarrow> harvest_state \<Rightarrow> string + harvest_state" where
  "harvest_refine c pos u st s =
     (if up_id u \<in> h_proposed s \<and> up_id u \<notin> h_integrated s \<and> up_id u \<notin> h_terminal s then
        (case refine_stage c pos u st of (st', sig) \<Rightarrow>
           bind_res (case sig of Some x \<Rightarrow> emit c x s | None \<Rightarrow> Inr s) (\<lambda>s'.
             Inr (s'\<lparr>h_stages := bt_insert (up_id u) st' (h_stages s')\<rparr>)))
      else Inr s)"

definition added_stage :: "harvest_cfg \<Rightarrow> unit_proposed \<Rightarrow> string \<Rightarrow> string \<Rightarrow> bool \<Rightarrow> stage" where
  "added_stage c u coverage criterion_id unmatched =
     stage_default\<lparr>s_name := up_id u, s_agent := up_agent u,
       s_needs := with_gate_hold (up_needs u) (up_id u) (hc_gate c), s_coverage := coverage,
       s_gates := union_gates (hc_template_gates c) (up_gates u), s_criterion_id := criterion_id,
       s_episode := up_episode u, s_unmatched_fanout_proposal := unmatched\<rparr>"

definition harvest_insert :: "harvest_cfg \<Rightarrow> stage \<Rightarrow> harvest_state \<Rightarrow> string + harvest_state" where
  "harvest_insert c st s0 =
     (let s = s0\<lparr>h_stages := bt_insert (s_name st) st (h_stages s0)\<rparr>
      in if s_name st \<in> h_terminal s then Inr s
         else bind_res (land_if_landed c st s) (\<lambda>(landed, s').
           if landed then
             Inr (s'\<lparr>h_integrated := insert (s_name st) (h_integrated s'), h_terminal := insert (s_name st) (h_terminal s')\<rparr>)
           else Inr s'))"

definition harvest_add ::
  "harvest_cfg \<Rightarrow> unit_proposed \<Rightarrow> nat \<Rightarrow> harvest_state \<Rightarrow> string + harvest_state" where
  "harvest_add c u rk s0 =
     (let s = s0\<lparr>h_proposed := insert (up_id u) (h_proposed s0)\<rparr> in
      if hc_criteria c \<noteq> [] \<and> trim (up_coverage u) = [] then emit c (NoCriterion (up_id u)) s
      else if trim (up_coverage u) = [] then harvest_insert c (added_stage c u (up_coverage u) [] False) s
      else case resolve_served_criterion (hc_criteria c) (up_coverage u) (up_criterion_id u) of
        Some (criterion_id, coverage) \<Rightarrow>
          harvest_insert c (added_stage c u coverage criterion_id False)
            (s\<lparr>h_stages := filter (\<lambda>nst. \<not> prior_owner c s criterion_id (up_episode u) rk nst) (h_stages s)\<rparr>)
      | None \<Rightarrow>
          if hc_criteria c \<noteq> [] then
            bind_res (emit c (UnmatchedProposal (up_id u)) s) (\<lambda>s'.
              harvest_insert c (added_stage c u (up_coverage u) [] True) s')
          else harvest_insert c (added_stage c u (up_coverage u) [] False) s)"

definition harvest_step ::
  "harvest_cfg \<Rightarrow> harvest_state \<Rightarrow> position \<times> unit_proposed \<Rightarrow> string + harvest_state" where
  "harvest_step c s pu =
     (let u = snd pu; (rk, order) = register_episode (up_episode u) (h_order s); s1 = s\<lparr>h_order := order\<rparr> in
      if up_id u = [] then Inr s1
      else case bt_get (h_stages s1) (up_id u) of
        Some st \<Rightarrow> harvest_refine c (fst pu) u st s1
      | None \<Rightarrow> if up_id u \<in> h_proposed s1 then Inr s1 else harvest_add c u rk s1)"

text \<open>One call: the proposals of the run's slice, the gate and the final episodes read once.\<close>

definition harvest_proposed ::
  "(bytes \<Rightarrow> json_error + unit_proposed) \<Rightarrow> harvest_cfg \<Rightarrow> event list \<Rightarrow> harvest_state \<Rightarrow> string + harvest_state" where
  "harvest_proposed de c es s =
     (let ps = proposals de es
      in fold_res (harvest_step (c\<lparr>hc_gate := critique_gate_name (h_stages s), hc_final := final_episode ps\<rparr>))
           (s\<lparr>h_order := []\<rparr>) ps)"

section \<open>What one proposal does\<close>

text \<open>The three ways a proposal changes the live stages: not at all, refining the stage it names, or
  adding a stage in place of the owners \<open>P\<close> picks.\<close>

definition harvest_idle :: "unit_proposed \<Rightarrow> harvest_state \<Rightarrow> harvest_state \<Rightarrow> bool" where
  "harvest_idle u s s' \<longleftrightarrow> h_stages s' = h_stages s \<and> h_integrated s' = h_integrated s \<and> h_terminal s' = h_terminal s \<and>
     (h_proposed s' = h_proposed s \<or> bt_get (h_stages s) (up_id u) = None \<and> h_proposed s' = insert (up_id u) (h_proposed s))"

definition harvest_refined :: "harvest_cfg \<Rightarrow> position \<Rightarrow> unit_proposed \<Rightarrow> harvest_state \<Rightarrow> harvest_state \<Rightarrow> bool" where
  "harvest_refined c pos u s s' \<longleftrightarrow>
     (\<exists>st. bt_get (h_stages s) (up_id u) = Some st \<and> up_id u \<in> h_proposed s \<and> up_id u \<notin> h_integrated s \<and>
        up_id u \<notin> h_terminal s \<and> h_stages s' = bt_insert (up_id u) (fst (refine_stage c pos u st)) (h_stages s) \<and>
        h_proposed s' = h_proposed s \<and> h_integrated s' = h_integrated s \<and> h_terminal s' = h_terminal s)"

definition harvest_added ::
  "harvest_cfg \<Rightarrow> unit_proposed \<Rightarrow> string \<Rightarrow> (string \<times> stage \<Rightarrow> bool) \<Rightarrow> harvest_state \<Rightarrow> harvest_state \<Rightarrow> bool" where
  "harvest_added c u cid P s s' \<longleftrightarrow>
     (\<exists>coverage unmatched.
        bt_get (h_stages s) (up_id u) = None \<and> up_id u \<notin> h_proposed s \<and>
        h_stages s' = bt_insert (up_id u) (added_stage c u coverage cid unmatched) (filter (\<lambda>nst. \<not> P nst) (h_stages s)) \<and>
        h_proposed s' = insert (up_id u) (h_proposed s) \<and>
        (h_integrated s' = h_integrated s \<and> h_terminal s' = h_terminal s \<or>
         h_integrated s' = insert (up_id u) (h_integrated s) \<and> h_terminal s' = insert (up_id u) (h_terminal s)))"

lemma emit_frame:
  assumes "emit c sig s = Inr s'"
  shows "h_stages s' = h_stages s" "h_proposed s' = h_proposed s" "h_integrated s' = h_integrated s"
    "h_terminal s' = h_terminal s" "h_order s' = h_order s"
  using assms by (auto simp: emit_def split: option.splits)

lemma added_stage_sel [simp]:
  "s_name (added_stage c u cov cid unm) = up_id u" "s_criterion_id (added_stage c u cov cid unm) = cid"
  "s_gates (added_stage c u cov cid unm) = union_gates (hc_template_gates c) (up_gates u)"
  "s_needs (added_stage c u cov cid unm) = with_gate_hold (up_needs u) (up_id u) (hc_gate c)"
  "s_agent (added_stage c u cov cid unm) = up_agent u" "s_baseline (added_stage c u cov cid unm) = False"
  "s_produces (added_stage c u cov cid unm) = []" "s_adjudicator (added_stage c u cov cid unm) = []"
  by (simp_all add: added_stage_def stage_default_def)

lemma land_frame:
  assumes "land_if_landed c st s = Inr (b, s')"
  shows "h_stages s' = h_stages s \<and> h_proposed s' = h_proposed s \<and> h_integrated s' = h_integrated s \<and>
    h_terminal s' = h_terminal s \<and> h_order s' = h_order s"
  using assms by (auto simp: land_if_landed_def bind_res_def split: if_splits sum.splits option.splits dest: emit_frame)

lemma harvest_insert_frame:
  assumes "harvest_insert c st s = Inr s'"
  shows "h_stages s' = bt_insert (s_name st) st (h_stages s)" "h_proposed s' = h_proposed s"
    "h_integrated s' = h_integrated s \<and> h_terminal s' = h_terminal s \<or>
     h_integrated s' = insert (s_name st) (h_integrated s) \<and> h_terminal s' = insert (s_name st) (h_terminal s)"
  using assms by (auto simp: harvest_insert_def Let_def bind_res_def split: sum.splits if_splits prod.splits dest!: land_frame)

lemma resolve_served_id:
  assumes "resolve_served_criterion criteria coverage ecid = Some (cid, cov)"
  shows "\<exists>i c. cid = criterion_stable_id (i + 1) c"
  using assms by (auto simp: resolve_served_criterion_def Let_def split: if_splits)

lemma criterion_stable_id_nonempty [simp]: "criterion_stable_id i c \<noteq> []" "[] \<noteq> criterion_stable_id i c"
  by (simp_all add: criterion_stable_id_def)

text \<open>The state a step works on: the proposal's episode registered.\<close>

definition ranked :: "unit_proposed \<Rightarrow> harvest_state \<Rightarrow> harvest_state" where
  "ranked u s = s\<lparr>h_order := snd (register_episode (up_episode u) (h_order s))\<rparr>"

abbreviation rank_of :: "unit_proposed \<Rightarrow> harvest_state \<Rightarrow> nat" where
  "rank_of u s \<equiv> fst (register_episode (up_episode u) (h_order s))"

definition harvest_effect :: "harvest_cfg \<Rightarrow> position \<Rightarrow> unit_proposed \<Rightarrow> harvest_state \<Rightarrow> harvest_state \<Rightarrow> bool" where
  "harvest_effect c pos u s s' \<longleftrightarrow>
     harvest_idle u s s' \<or> harvest_refined c pos u s s' \<or>
     harvest_added c u [] (\<lambda>_. False) s s' \<or>
     (\<exists>cid. cid \<noteq> [] \<and>
        harvest_added c u cid (prior_owner c (ranked u s\<lparr>h_proposed := insert (up_id u) (h_proposed s)\<rparr>) cid (up_episode u) (rank_of u s)) s s')"

lemma harvest_add_effect:
  assumes "harvest_add c u (rank_of u s) (ranked u s) = Inr s'"
    and "bt_get (h_stages s) (up_id u) = None" "up_id u \<notin> h_proposed s"
  shows "harvest_effect c pos u s s'"
proof -
  let ?s = "ranked u s\<lparr>h_proposed := insert (up_id u) (h_proposed s)\<rparr>"
  have r: "h_stages ?s = h_stages s" "h_integrated ?s = h_integrated s" "h_terminal ?s = h_terminal s"
    "h_proposed (ranked u s) = h_proposed s" by (simp_all add: ranked_def)
  have plain: "harvest_effect c pos u s s'" if "harvest_insert c (added_stage c u cov [] unm) t = Inr s'"
    "h_stages t = h_stages ?s" "h_proposed t = h_proposed ?s" "h_integrated t = h_integrated ?s" "h_terminal t = h_terminal ?s"
    for cov unm t
    using harvest_insert_frame [OF that(1)] that(2-5) assms(2,3) r by (auto simp: harvest_effect_def harvest_added_def)
  consider (creep) "hc_criteria c \<noteq> []" "trim (up_coverage u) = []" | (bare) "hc_criteria c = []" "trim (up_coverage u) = []"
    | (words) "trim (up_coverage u) \<noteq> []" by blast
  then show ?thesis
  proof cases
    case creep
    then have "emit c (NoCriterion (up_id u)) ?s = Inr s'" using assms(1) r by (simp add: harvest_add_def)
    from emit_frame [OF this] r assms(2) show ?thesis by (simp add: harvest_effect_def harvest_idle_def)
  next
    case bare
    then show ?thesis using assms(1) r plain [of _ _ ?s] by (simp add: harvest_add_def)
  next
    case words
    show ?thesis
    proof (cases "resolve_served_criterion (hc_criteria c) (up_coverage u) (up_criterion_id u)")
      case None
      show ?thesis
      proof (cases "hc_criteria c = []")
        case True
        then show ?thesis using assms(1) r plain [of _ _ ?s] words None by (simp add: harvest_add_def)
      next
        case False
        then obtain t where t: "emit c (UnmatchedProposal (up_id u)) ?s = Inr t"
          "harvest_insert c (added_stage c u (up_coverage u) [] True) t = Inr s'"
          using assms(1) r words None by (auto simp: harvest_add_def bind_res_def split: sum.splits)
        from plain [OF t(2)] emit_frame [OF t(1)] show ?thesis by simp
      qed
    next
      case (Some cc)
      obtain cid cov where cc: "cc = (cid, cov)" by (cases cc)
      let ?P = "prior_owner c ?s cid (up_episode u) (rank_of u s)"
      have "harvest_insert c (added_stage c u cov cid False) (?s\<lparr>h_stages := filter (\<lambda>nst. \<not> ?P nst) (h_stages ?s)\<rparr>) = Inr s'"
        using assms(1) r words Some cc by (simp add: harvest_add_def Let_def)
      from harvest_insert_frame [OF this] have "harvest_added c u cid ?P s s'"
        using assms(2,3) r by (auto simp: harvest_added_def)
      moreover have "cid \<noteq> []" using resolve_served_id [OF Some [unfolded cc]] criterion_stable_id_nonempty by auto
      ultimately show ?thesis unfolding harvest_effect_def by blast
    qed
  qed
qed

lemma harvest_step_effect:
  assumes "harvest_step c s (pos, u) = Inr s'"
  shows "harvest_effect c pos u s s'"
proof (cases "up_id u = []")
  case True
  then have "s' = ranked u s" using assms by (simp add: harvest_step_def ranked_def split_beta)
  then show ?thesis by (simp add: harvest_effect_def harvest_idle_def ranked_def)
next
  case id: False
  show ?thesis
  proof (cases "bt_get (h_stages s) (up_id u)")
    case None
    show ?thesis
    proof (cases "up_id u \<in> h_proposed s")
      case True
      then have "s' = ranked u s" using assms id None by (simp add: harvest_step_def ranked_def split_beta)
      then show ?thesis by (simp add: harvest_effect_def harvest_idle_def ranked_def)
    next
      case False
      then show ?thesis using assms id None
        by (intro harvest_add_effect) (simp_all add: harvest_step_def ranked_def split_beta)
    qed
  next
    case (Some st)
    then have r: "harvest_refine c pos u st (ranked u s) = Inr s'"
      using assms id by (simp add: harvest_step_def ranked_def split_beta)
    have rs: "h_stages (ranked u s) = h_stages s" "h_proposed (ranked u s) = h_proposed s"
      "h_integrated (ranked u s) = h_integrated s" "h_terminal (ranked u s) = h_terminal s" by (simp_all add: ranked_def)
    show ?thesis
    proof (cases "up_id u \<in> h_proposed s \<and> up_id u \<notin> h_integrated s \<and> up_id u \<notin> h_terminal s")
      case True
      then obtain t where t: "(case snd (refine_stage c pos u st) of Some x \<Rightarrow> emit c x (ranked u s) | None \<Rightarrow> Inr (ranked u s)) = Inr t"
        "s' = t\<lparr>h_stages := bt_insert (up_id u) (fst (refine_stage c pos u st)) (h_stages t)\<rparr>"
        using r rs by (auto simp: harvest_refine_def bind_res_def split_beta split: sum.splits)
      have "h_stages t = h_stages s \<and> h_proposed t = h_proposed s \<and> h_integrated t = h_integrated s \<and> h_terminal t = h_terminal s"
        using t(1) rs emit_frame by (cases "snd (refine_stage c pos u st)") fastforce+
      with True Some t(2) show ?thesis by (auto simp: harvest_effect_def harvest_refined_def)
    next
      case False
      then have "s' = ranked u s" using r rs by (auto simp: harvest_refine_def)
      with rs show ?thesis by (simp add: harvest_effect_def harvest_idle_def)
    qed
  qed
qed

section \<open>What a harvest keeps\<close>

lemma bt_get_filter: "bt_wf m \<Longrightarrow> bt_get (filter P m) k = Some v \<longleftrightarrow> bt_get m k = Some v \<and> P (k, v)"
  by (simp add: bt_get_mem bt_wf_filter)

lemma set_union_gates [simp]: "set (union_gates base add) = set base \<union> set add"
  by (induction "add" rule: rev_induct) (auto simp: union_gates_def)

lemma with_gate_hold_mem: "gate = Some g \<Longrightarrow> i \<noteq> g \<Longrightarrow> g \<in> set (with_gate_hold needs i gate)"
  by (simp add: with_gate_hold_def)

lemma refine_stage_sel [simp]:
  "s_criterion_id (fst (refine_stage c pos u st)) = s_criterion_id st"
  "s_baseline (fst (refine_stage c pos u st)) = s_baseline st"
  "s_gates (fst (refine_stage c pos u st)) = union_gates (s_gates st) (up_gates u)"
  "s_needs (fst (refine_stage c pos u st)) = with_gate_hold (up_needs u) (up_id u) (hc_gate c)"
  "s_agent (fst (refine_stage c pos u st)) = s_agent st" "s_agents (fst (refine_stage c pos u st)) = s_agents st"
  "s_produces (fst (refine_stage c pos u st)) = s_produces st"
  "s_adjudicator (fst (refine_stage c pos u st)) = s_adjudicator st"
  "s_unmatched_fanout_proposal (fst (refine_stage c pos u st)) = s_unmatched_fanout_proposal st"
  by (simp_all add: refine_stage_def Let_def split: option.splits prod.splits)

text \<open>What holds of a stage graph between harvests: keys in order, the template's gates on every
  fan-out unit, none of which is a producer or a plan-critique gate itself, and the plan-critique
  gate among the needs of every proposed unit.\<close>

definition unit_ok :: "harvest_cfg \<Rightarrow> bool \<Rightarrow> string \<Rightarrow> stage \<Rightarrow> bool" where
  "unit_ok c proposed n st \<longleftrightarrow>
     (proposed \<or> s_criterion_id st \<noteq> [] \<or> s_unmatched_fanout_proposal st \<longrightarrow>
        set (hc_template_gates c) \<subseteq> set (s_gates st) \<and> s_produces st = [] \<and> s_adjudicator st = []) \<and>
     (\<forall>g. proposed \<and> hc_gate c = Some g \<and> n \<noteq> g \<longrightarrow> g \<in> set (s_needs st))"

definition harvest_inv :: "harvest_cfg \<Rightarrow> harvest_state \<Rightarrow> bool" where
  "harvest_inv c s \<longleftrightarrow> bt_wf (h_stages s) \<and>
     (\<forall>n st. bt_get (h_stages s) n = Some st \<longrightarrow> unit_ok c (n \<in> h_proposed s) n st)"

lemma unit_ok_added: "unit_ok c p (up_id u) (added_stage c u cov cid unm)"
  by (auto simp: unit_ok_def with_gate_hold_mem)

lemma unit_ok_refined: "unit_ok c True (up_id u) st \<Longrightarrow> unit_ok c p (up_id u) (fst (refine_stage c pos u st))"
  by (auto simp: unit_ok_def with_gate_hold_mem)

lemma harvest_added_get:
  assumes "bt_wf (h_stages s)" "harvest_added c u cid P s s'" "bt_get (h_stages s') n = Some st"
  obtains (new) cov unm where "n = up_id u" "st = added_stage c u cov cid unm"
  | (old) "n \<noteq> up_id u" "bt_get (h_stages s) n = Some st" "\<not> P (n, st)"
  using assms by (auto simp: harvest_added_def bt_get_insert bt_get_filter split: if_splits)

lemma harvest_effect_wf:
  assumes "harvest_effect c pos u s s'" "bt_wf (h_stages s)"
  shows "bt_wf (h_stages s')"
  using assms
  by (auto simp: harvest_effect_def harvest_idle_def harvest_refined_def harvest_added_def bt_wf_insert bt_wf_filter)

lemma harvest_inv_added:
  assumes "harvest_inv c s" "harvest_added c u cid P s s'"
  shows "harvest_inv c s'"
proof -
  have wf: "bt_wf (h_stages s)" using assms(1) by (simp add: harvest_inv_def)
  have p: "h_proposed s' = insert (up_id u) (h_proposed s)" using assms(2) by (auto simp: harvest_added_def)
  have "unit_ok c (n \<in> h_proposed s') n st" if "bt_get (h_stages s') n = Some st" for n st
  proof (cases rule: harvest_added_get [OF wf assms(2) that])
    case (1 cov unm)
    then show ?thesis by (simp add: unit_ok_added)
  next
    case 2
    with assms(1) p show ?thesis by (simp add: harvest_inv_def)
  qed
  moreover have "bt_wf (h_stages s')" using assms(2) wf by (auto simp: harvest_added_def bt_wf_insert bt_wf_filter)
  ultimately show ?thesis by (simp add: harvest_inv_def)
qed

lemma harvest_inv_effect:
  assumes "harvest_inv c s" "harvest_effect c pos u s s'"
  shows "harvest_inv c s'"
  using assms(2) unfolding harvest_effect_def
proof (elim disjE exE conjE)
  assume idle: "harvest_idle u s s'"
  have "n \<in> h_proposed s' \<longleftrightarrow> n \<in> h_proposed s" if "bt_get (h_stages s) n = Some st" for n st
    using idle that by (auto simp: harvest_idle_def)
  with assms(1) idle show ?thesis by (simp add: harvest_inv_def harvest_idle_def)
next
  assume refined: "harvest_refined c pos u s s'"
  then obtain st where st: "bt_get (h_stages s) (up_id u) = Some st" "up_id u \<in> h_proposed s" "h_proposed s' = h_proposed s"
    "h_stages s' = bt_insert (up_id u) (fst (refine_stage c pos u st)) (h_stages s)" by (auto simp: harvest_refined_def)
  have "unit_ok c (up_id u \<in> h_proposed s) (up_id u) st" using assms(1) st(1) unfolding harvest_inv_def by blast
  then have "unit_ok c True (up_id u) st" using st(2) by simp
  with assms(1) st show ?thesis by (auto simp: harvest_inv_def bt_get_insert bt_wf_insert unit_ok_refined)
qed (auto intro: harvest_inv_added [OF assms(1)])

lemma harvest_fold:
  assumes "fold_res (harvest_step c) s ps = Inr s'" "I s"
    and "\<And>s s' pos u. I s \<Longrightarrow> harvest_effect c pos u s s' \<Longrightarrow> I s'"
  shows "I s'"
  by (rule fold_res_invariant [where I = I, OF assms(1)]) (use assms(2,3) harvest_step_effect in force)+

section \<open>Properties\<close>

definition harvest_gate :: "harvest_cfg \<Rightarrow> harvest_state \<Rightarrow> harvest_cfg" where
  "harvest_gate c s = c\<lparr>hc_gate := critique_gate_name (h_stages s)\<rparr>"

lemma harvest_proposed_fold:
  assumes "harvest_proposed de c es s = Inr s'"
  shows "\<exists>final. fold_res (harvest_step (harvest_gate c s\<lparr>hc_final := final\<rparr>)) (s\<lparr>h_order := []\<rparr>) (proposals de es) = Inr s'"
  using assms by (auto simp: harvest_proposed_def harvest_gate_def Let_def)

lemma harvest_inv_cong: "harvest_inv (c\<lparr>hc_final := f\<rparr>) s \<longleftrightarrow> harvest_inv c s" "harvest_inv c (s\<lparr>h_order := o1\<rparr>) \<longleftrightarrow> harvest_inv c s"
  by (simp_all add: harvest_inv_def unit_ok_def)

lemma harvest_proposed_inv:
  assumes "harvest_proposed de c es s = Inr s'" "harvest_inv (harvest_gate c s) s"
  shows "harvest_inv (harvest_gate c s) s'"
proof -
  obtain final where f: "fold_res (harvest_step (harvest_gate c s\<lparr>hc_final := final\<rparr>)) (s\<lparr>h_order := []\<rparr>) (proposals de es) = Inr s'"
    using harvest_proposed_fold [OF assms(1)] by blast
  have "harvest_inv (harvest_gate c s\<lparr>hc_final := final\<rparr>) s'"
  proof (rule harvest_fold [OF f])
    show "harvest_inv (harvest_gate c s\<lparr>hc_final := final\<rparr>) (s\<lparr>h_order := []\<rparr>)" using assms(2) by (simp add: harvest_inv_cong)
  qed (rule harvest_inv_effect)
  then show ?thesis by (simp add: harvest_inv_cong)
qed

section \<open>The gate is stable\<close>

lemma find_filter: "find P xs = (case filter P xs of [] \<Rightarrow> None | x # _ \<Rightarrow> Some x)"
  by (induction xs) auto

lemma first_stage_named_cong:
  assumes "bt_wf m" "bt_wf n" "\<And>k v. shape v \<Longrightarrow> bt_get m k = Some v \<longleftrightarrow> bt_get n k = Some v"
  shows "first_stage_named m shape = first_stage_named n shape"
proof -
  let ?P = "\<lambda>(_, st). shape st"
  have "set (filter ?P m) = set (filter ?P n)" using assms by (auto simp: bt_get_mem)
  then have "filter ?P m = filter ?P n" using assms by (intro bt_wf_unique bt_wf_filter)
  then show ?thesis by (simp add: first_stage_named_def find_filter)
qed

text \<open>A stage a harvest changes is no producer and no gate, before and after.\<close>

lemma harvest_effect_infrastructure:
  assumes "harvest_inv c s" "harvest_effect c pos u s s'" "s_produces st \<noteq> [] \<or> s_adjudicator st \<noteq> []"
  shows "bt_get (h_stages s') n = Some st \<longleftrightarrow> bt_get (h_stages s) n = Some st"
proof -
  have wf: "bt_wf (h_stages s)" using assms(1) by (simp add: harvest_inv_def)
  have ok: "unit_ok c (k \<in> h_proposed s) k v" if "bt_get (h_stages s) k = Some v" for k v
    using assms(1) that unfolding harvest_inv_def by blast
  have added: ?thesis if a: "harvest_added c u cid P s s'" and P: "\<And>k v. P (k, v) \<Longrightarrow> s_criterion_id v \<noteq> []" for cid P
  proof -
    obtain cov unm where st': "h_stages s' = bt_insert (up_id u) (added_stage c u cov cid unm) (filter (\<lambda>x. \<not> P x) (h_stages s))"
      "bt_get (h_stages s) (up_id u) = None" using a by (auto simp: harvest_added_def)
    have "\<not> P (n, st)" if "bt_get (h_stages s) n = Some st"
      using ok [OF that] assms(3) P [of n st] by (auto simp: unit_ok_def)
    moreover have "st \<noteq> added_stage c u cov cid unm" using assms(3) by auto
    ultimately show ?thesis using st' wf by (auto simp: bt_get_insert bt_get_filter)
  qed
  from assms(2) show ?thesis unfolding harvest_effect_def
  proof (elim disjE exE conjE)
    assume "harvest_refined c pos u s s'"
    then obtain v where v: "bt_get (h_stages s) (up_id u) = Some v" "up_id u \<in> h_proposed s"
      "h_stages s' = bt_insert (up_id u) (fst (refine_stage c pos u v)) (h_stages s)" by (auto simp: harvest_refined_def)
    have "s_produces v = [] \<and> s_adjudicator v = []" using ok [OF v(1)] v(2) by (simp add: unit_ok_def)
    then have "st \<noteq> v" "st \<noteq> fst (refine_stage c pos u v)" using assms(3) by auto
    with v show ?thesis by (auto simp: bt_get_insert)
  next
    fix cid assume a: "harvest_added c u cid (prior_owner c (ranked u s\<lparr>h_proposed := insert (up_id u) (h_proposed s)\<rparr>) cid
        (up_episode u) (rank_of u s)) s s'" and b: "cid \<noteq> []"
    show ?thesis by (rule added [OF a]) (use b in \<open>auto simp: prior_owner_def split: if_splits\<close>)
  next
    assume a: "harvest_added c u [] (\<lambda>_. False) s s'"
    show ?thesis by (rule added [OF a]) simp
  qed (simp add: harvest_idle_def)
qed

lemma harvest_effect_gate:
  assumes "harvest_inv c s" "harvest_effect c pos u s s'"
  shows "critique_gate_name (h_stages s') = critique_gate_name (h_stages s)"
proof -
  have wf: "bt_wf (h_stages s)" "bt_wf (h_stages s')"
    using assms harvest_effect_wf by (auto simp: harvest_inv_def)
  note same = harvest_effect_infrastructure [OF assms]
  have "first_stage_named (h_stages s') is_producer = first_stage_named (h_stages s) is_producer"
    by (rule first_stage_named_cong [OF wf(2,1)]) (auto simp: is_producer_def intro!: same)
  moreover have "first_stage_named (h_stages s') (\<lambda>st. s_agent st = [] \<and> s_adjudicator st \<noteq> [] \<and> p \<in> set (s_needs st)) =
      first_stage_named (h_stages s) (\<lambda>st. s_agent st = [] \<and> s_adjudicator st \<noteq> [] \<and> p \<in> set (s_needs st))" for p
    by (rule first_stage_named_cong [OF wf(2,1)]) (auto intro!: same)
  ultimately show ?thesis by (simp add: critique_gate_name_def)
qed

lemma harvest_proposed_gate:
  assumes "harvest_proposed de c es s = Inr s'" "harvest_inv (harvest_gate c s) s"
  shows "critique_gate_name (h_stages s') = critique_gate_name (h_stages s)"
proof -
  obtain final where f: "fold_res (harvest_step (harvest_gate c s\<lparr>hc_final := final\<rparr>)) (s\<lparr>h_order := []\<rparr>) (proposals de es) = Inr s'"
    using harvest_proposed_fold [OF assms(1)] by blast
  let ?c = "harvest_gate c s\<lparr>hc_final := final\<rparr>"
  have "harvest_inv ?c s' \<and> critique_gate_name (h_stages s') = critique_gate_name (h_stages s)"
  proof (rule harvest_fold [OF f, where I = "\<lambda>t. harvest_inv ?c t \<and> critique_gate_name (h_stages t) = critique_gate_name (h_stages s)"])
    show "harvest_inv ?c (s\<lparr>h_order := []\<rparr>) \<and> critique_gate_name (h_stages (s\<lparr>h_order := []\<rparr>)) = critique_gate_name (h_stages s)"
      using assms(2) by (simp add: harvest_inv_cong)
    fix t t' pos u
    assume t: "harvest_inv ?c t \<and> critique_gate_name (h_stages t) = critique_gate_name (h_stages s)" "harvest_effect ?c pos u t t'"
    then show "harvest_inv ?c t' \<and> critique_gate_name (h_stages t') = critique_gate_name (h_stages s)"
      using harvest_inv_effect [of ?c t] harvest_effect_gate [of ?c t] by auto
  qed
  then show ?thesis by blast
qed

section \<open>The stage graph of a run\<close>

text \<open>The stage graph over a run: it starts as the expansion of the authored workflow, harvests fold
  proposals into it, and waves in between change which stages have integrated or are terminal.\<close>

definition graph_start :: "stages \<Rightarrow> string list \<Rightarrow> string set \<Rightarrow> string set \<Rightarrow> harvest_state" where
  "graph_start workflow_stages criteria integrated terminal =
     \<lparr>h_stages = ex_stages (expand_baseline workflow_stages criteria), h_proposed = {}, h_integrated = integrated,
      h_terminal = terminal, h_order = [], h_signals = []\<rparr>"

inductive graph_reach ::
  "(bytes \<Rightarrow> json_error + unit_proposed) \<Rightarrow> harvest_cfg \<Rightarrow> stages \<Rightarrow> harvest_state \<Rightarrow> bool"
  for de :: "bytes \<Rightarrow> json_error + unit_proposed" and c :: harvest_cfg and W :: stages where
  start: "graph_reach de c W (graph_start W (hc_criteria c) I T)"
| harvest: "graph_reach de c W s \<Longrightarrow> harvest_proposed de c es s = Inr s' \<Longrightarrow> graph_reach de c W s'"
| wave: "graph_reach de c W s \<Longrightarrow> graph_reach de c W (s\<lparr>h_integrated := I, h_terminal := T\<rparr>)"

text \<open>A workflow as authored: its keys are in order, no stage carries a criterion id or the mark of
  an unmatched proposal, which no workflow file can set.\<close>

definition authored :: "stages \<Rightarrow> bool" where
  "authored W \<longleftrightarrow> bt_wf W \<and>
     list_all (\<lambda>(_, st). s_criterion_id st = [] \<and> \<not> s_unmatched_fanout_proposal st \<and> \<not> s_baseline st) W"

definition run_frontier :: "stages \<Rightarrow> string list \<Rightarrow> string option \<Rightarrow> frontier" where
  "run_frontier W criteria gate =
     \<lparr>fr_critique_gate = gate, fr_fanout_criteria = ex_fanout_criteria (expand_baseline W criteria),
      fr_template_gates = ex_template_gates (expand_baseline W criteria)\<rparr>"

lemma authored_get: "authored W \<Longrightarrow> bt_get W n = Some st \<Longrightarrow> s_criterion_id st = [] \<and> \<not> s_unmatched_fanout_proposal st \<and> \<not> s_baseline st"
  by (auto simp: authored_def list_all_iff bt_get_mem)

lemma or_insert_get: "bt_get (or_insert m nu) k = (case bt_get m k of Some v \<Rightarrow> Some v | None \<Rightarrow> if k = fst nu then Some (snd nu) else None)"
  by (auto simp: or_insert_def bt_get_insert split: option.splits)

lemma or_insert_wf: "bt_wf m \<Longrightarrow> bt_wf (or_insert m nu)"
  by (simp add: or_insert_def bt_wf_insert)

lemma foldl_or_insert_wf: "bt_wf m \<Longrightarrow> bt_wf (foldl or_insert m us)"
  by (induction us arbitrary: m) (simp_all add: or_insert_wf)

lemma foldl_or_insert_get:
  "bt_get (foldl or_insert m us) k = (case bt_get m k of Some v \<Rightarrow> Some v | None \<Rightarrow> map_of us k)"
  by (induction us arbitrary: m) (auto simp: or_insert_get split: option.splits)

lemma first_stage_named_get:
  assumes "bt_wf m" "first_stage_named m shape = Some n"
  obtains st where "bt_get m n = Some st" "shape st"
  using assms by (auto simp: first_stage_named_def bt_get_mem dest: find_SomeD)

text \<open>The expansion either leaves the workflow as it is, or replaces its template by the baseline.\<close>

lemma expand_baseline_cases:
  assumes "bt_wf W"
  obtains (none) "expand_baseline W criteria = \<lparr>ex_stages = W, ex_fanout_criteria = [], ex_template_gates = []\<rparr>"
      "criteria = [] \<or> first_stage_named W is_fan_out_template = None"
  | (units) name template producer where
      "criteria \<noteq> []" "first_stage_named W is_fan_out_template = Some name" "bt_get W name = Some template"
      "is_fan_out_template template"
      "expand_baseline W criteria =
         \<lparr>ex_stages = foldl or_insert (bt_remove name W) (baseline_units template criteria producer),
          ex_fanout_criteria = [(name, set (map (s_criterion_id \<circ> snd) (baseline_units template criteria producer)))],
          ex_template_gates = [(name, s_gates template)]\<rparr>"
      "template_gates W = s_gates template"
proof (cases "criteria = [] \<or> first_stage_named W is_fan_out_template = None")
  case True
  then show thesis by (intro none) (auto simp: expand_baseline_def Let_def)
next
  case False
  then obtain name where n: "criteria \<noteq> []" "first_stage_named W is_fan_out_template = Some name" by blast
  then obtain template where t: "bt_get W name = Some template" "is_fan_out_template template"
    using first_stage_named_get [OF assms] by blast
  with n show thesis
    by (intro units [of name template "first_stage_named (bt_remove name W) is_producer"])
      (auto simp: expand_baseline_def template_gates_def Let_def)
qed

lemma expanded_get:
  assumes "authored W" "bt_get (ex_stages (expand_baseline W criteria)) n = Some st"
  obtains (authored) "bt_get W n = Some st"
  | (baseline) name template producer i where "first_stage_named W is_fan_out_template = Some name" "bt_get W name = Some template"
      "i < length criteria" "template_gates W = s_gates template"
      "(n, st) = baseline_unit template (baseline_needs template producer) (i + 1) (criteria ! i)"
proof -
  have wf: "bt_wf W" using assms(1) by (simp add: authored_def)
  show thesis
  proof (cases rule: expand_baseline_cases [OF wf, of criteria])
    case 1
    with assms(2) show thesis by (intro that(1)) simp
  next
    case (2 name template producer)
    show thesis
    proof (cases "bt_get (bt_remove name W) n")
      case None
      with assms(2) 2 have "map_of (baseline_units template criteria producer) n = Some st"
        by (simp add: foldl_or_insert_get)
      then have "(n, st) \<in> set (baseline_units template criteria producer)" by (rule map_of_SomeD)
      then obtain i where "i < length criteria" "(n, st) = baseline_unit template (baseline_needs template producer) (i + 1) (criteria ! i)"
        by (auto simp: baseline_units_nth)
      with 2 show thesis by (intro that(2)) auto
    next
      case (Some v)
      with assms(2) 2 have "v = st" by (simp add: foldl_or_insert_get)
      with Some show thesis by (intro that(1)) (simp add: bt_get_remove split: if_splits)
    qed
  qed
qed

lemma baseline_unit_sel [simp]:
  "s_criterion_id (snd (baseline_unit t ns i c)) = criterion_stable_id i c" "s_gates (snd (baseline_unit t ns i c)) = s_gates t"
  "s_produces (snd (baseline_unit t ns i c)) = []" "s_adjudicator (snd (baseline_unit t ns i c)) = []"
  "s_agent (snd (baseline_unit t ns i c)) = s_agent t" "s_baseline (snd (baseline_unit t ns i c))"
  "fst (baseline_unit t ns i c) = unit_slug i c"
  by (simp_all add: baseline_unit_def stage_default_def)

lemma graph_start_inv:
  assumes "authored W" "hc_template_gates c = template_gates W"
  shows "harvest_inv c (graph_start W criteria I T)"
proof -
  have wf: "bt_wf W" using assms(1) by (simp add: authored_def)
  have "bt_wf (ex_stages (expand_baseline W criteria))"
    by (cases rule: expand_baseline_cases [OF wf, of criteria]) (auto simp: wf foldl_or_insert_wf bt_wf_remove)
  moreover have "unit_ok c False n st" if g: "bt_get (ex_stages (expand_baseline W criteria)) n = Some st" for n st
  proof (cases rule: expanded_get [OF assms(1) g])
    case 1
    with authored_get [OF assms(1)] show ?thesis by (auto simp: unit_ok_def)
  next
    case (2 name template producer i)
    have "st = snd (baseline_unit template (baseline_needs template producer) (i + 1) (criteria ! i))"
      using 2(5) by (metis snd_conv)
    with 2(4) assms(2) show ?thesis by (simp add: unit_ok_def)
  qed
  ultimately show ?thesis by (simp add: harvest_inv_def graph_start_def)
qed

lemma graph_reach_inv:
  assumes "graph_reach de c W s" "authored W" "hc_template_gates c = template_gates W"
  shows "harvest_inv (harvest_gate c s) s \<and>
    critique_gate_name (h_stages s) = critique_gate_name (ex_stages (expand_baseline W (hc_criteria c)))"
  using assms
proof (induction rule: graph_reach.induct)
  case (start I T)
  then show ?case by (simp add: graph_start_inv harvest_gate_def) (simp add: graph_start_def)
next
  case (harvest s es s')
  then have s: "harvest_inv (harvest_gate c s) s"
    "critique_gate_name (h_stages s) = critique_gate_name (ex_stages (expand_baseline W (hc_criteria c)))" by auto
  have g: "critique_gate_name (h_stages s') = critique_gate_name (h_stages s)"
    by (rule harvest_proposed_gate [OF harvest.hyps(2) s(1)])
  then have "harvest_gate c s' = harvest_gate c s" by (simp add: harvest_gate_def)
  with harvest_proposed_inv [OF harvest.hyps(2) s(1)] g s(2) show ?case by simp
next
  case (wave s I T)
  then have "harvest_inv (harvest_gate c s) s"
    "critique_gate_name (h_stages s) = critique_gate_name (ex_stages (expand_baseline W (hc_criteria c)))" by auto
  moreover have "harvest_gate c (s\<lparr>h_integrated := A, h_terminal := B\<rparr>) = harvest_gate c s" for A B
    by (simp add: harvest_gate_def)
  ultimately show ?case by (simp add: harvest_inv_def)
qed

text \<open>
  C11. No fan-out unit ever runs ungated: in every stage graph a run reaches from a workflow as
  authored, however the planner proposes and refines, each stage that serves a criterion, was
  proposed, or stands for an unmatched proposal carries all the gates of the workflow's template,
  whatever gates the proposals name; so the conductor's guard before a wave accepts every set of
  stages.
\<close>

theorem no_ungated_fanout_unit:
  assumes "graph_reach de c W s" "authored W" "hc_template_gates c = template_gates W"
  shows "(\<forall>n st. bt_get (h_stages s) n = Some st \<and>
        (s_criterion_id st \<noteq> [] \<or> s_unmatched_fanout_proposal st \<or> n \<in> h_proposed s) \<longrightarrow>
        set (template_gates W) \<subseteq> set (s_gates st)) \<and>
    assert_no_ungated_fanout_unit (run_frontier W (hc_criteria c) gate) (h_stages s) ready = None"
proof -
  have wf: "bt_wf W" using assms(2) by (simp add: authored_def)
  have inv: "harvest_inv (harvest_gate c s) s" using graph_reach_inv [OF assms] by blast
  have carried: "set (template_gates W) \<subseteq> set (s_gates st)"
    if "bt_get (h_stages s) n = Some st" "s_criterion_id st \<noteq> [] \<or> s_unmatched_fanout_proposal st \<or> n \<in> h_proposed s" for n st
  proof -
    have "unit_ok (harvest_gate c s) (n \<in> h_proposed s) n st" using inv that(1) unfolding harvest_inv_def by blast
    then show ?thesis using that(2) assms(3) by (auto simp: unit_ok_def harvest_gate_def)
  qed
  have "\<not> ungated_fanout_unit (run_frontier W (hc_criteria c) gate) (h_stages s) n" for n
  proof (cases "bt_get (h_stages s) n")
    case (Some st)
    then have "unit_ok (harvest_gate c s) (n \<in> h_proposed s) n st" using inv unfolding harvest_inv_def by blast
    then have ok: "s_criterion_id st \<noteq> [] \<or> s_unmatched_fanout_proposal st \<Longrightarrow> s_gates st = [] \<Longrightarrow> template_gates W = []"
      using assms(3) by (auto simp: unit_ok_def harvest_gate_def)
    show ?thesis
    proof (cases rule: expand_baseline_cases [OF wf, of "hc_criteria c"])
      case 1
      then show ?thesis by (simp add: ungated_fanout_unit_def run_frontier_def split: option.splits)
    next
      case (2 name template producer)
      have "s_criterion_id st \<noteq> []" if "s_criterion_id st \<in> set (map (s_criterion_id \<circ> snd) (baseline_units template (hc_criteria c) producer))"
        using that by (auto simp: baseline_units_nth)
      with ok 2 Some show ?thesis by (auto simp: ungated_fanout_unit_def run_frontier_def)
    qed
  qed (simp add: ungated_fanout_unit_def)
  then have "assert_no_ungated_fanout_unit (run_frontier W (hc_criteria c) gate) (h_stages s) ready = None"
    by (simp add: assert_no_ungated_fanout_unit_def find_None_iff)
  with carried show ?thesis by blast
qed

text \<open>
  C12. Only an approved plan fans out: over every stage graph a run reaches, while the plan-critique
  gate has not integrated, no unit the planner proposed is among the stages a wave may run.
\<close>

theorem proposed_units_wait_for_gate:
  assumes "graph_reach de c W s" "authored W" "hc_template_gates c = template_gates W"
    and "critique_gate_name (ex_stages (expand_baseline W (hc_criteria c))) = Some g"
    and "g \<notin> h_integrated s" "map_of (ex_fanout_criteria (expand_baseline W (hc_criteria c))) g = None"
  shows "set (frontier_ready (run_frontier W (hc_criteria c) (Some g)) (h_stages s) (h_integrated s) (h_terminal s))
    \<inter> h_proposed s = {}"
proof -
  have inv: "harvest_inv (harvest_gate c s) s" "critique_gate_name (h_stages s) = Some g"
    using graph_reach_inv [OF assms(1-3)] assms(4) by auto
  have wf: "bt_wf (h_stages s)" using inv(1) by (simp add: harvest_inv_def)
  let ?F = "map_of (ex_fanout_criteria (expand_baseline W (hc_criteria c)))"
  have "n \<notin> h_proposed s" if n: "n \<in> set (ready_stages (h_stages s) (h_integrated s) (h_terminal s) ?F)" "n \<noteq> g" for n
  proof
    assume p: "n \<in> h_proposed s"
    from n(1) ready_stages_mem [OF wf] have r: "n \<in> set (bt_keys (h_stages s))"
      "\<And>m. (n, m) \<in> resolved_edges (h_stages s) ?F \<Longrightarrow> m \<in> h_integrated s" by blast+
    then obtain st where st: "bt_get (h_stages s) n = Some st" by (auto simp: btm.keys_get)
    then have "unit_ok (harvest_gate c s) (n \<in> h_proposed s) n st" using inv(1) unfolding harvest_inv_def by blast
    then have "g \<in> set (s_needs st)" using p n(2) inv(2) by (simp add: unit_ok_def harvest_gate_def)
    then have "(n, g) \<in> resolved_edges (h_stages s) ?F" using st assms(6) by (auto simp: resolved_edges_def need_targets_def)
    with r(2) assms(5) show False by blast
  qed
  then show ?thesis by (auto simp: frontier_ready_def run_frontier_def wave_ready_def)
qed

definition owned :: "stages \<Rightarrow> string \<Rightarrow> bool" where
  "owned stages cid \<longleftrightarrow> (\<exists>n st. bt_get stages n = Some st \<and> s_criterion_id st = cid)"

lemma harvest_effect_owned:
  assumes "harvest_effect c pos u s s'" "bt_wf (h_stages s)" "owned (h_stages s) cid"
  shows "owned (h_stages s') cid"
proof -
  obtain n st where n: "bt_get (h_stages s) n = Some st" "s_criterion_id st = cid" using assms(3) by (auto simp: owned_def)
  have added: ?thesis if a: "harvest_added c u cid' P s s'" and P: "\<And>k v. P (k, v) \<Longrightarrow> s_criterion_id v = cid'" for cid' P
  proof -
    obtain cov unm where s': "h_stages s' = bt_insert (up_id u) (added_stage c u cov cid' unm) (filter (\<lambda>x. \<not> P x) (h_stages s))"
      "bt_get (h_stages s) (up_id u) = None" using a by (auto simp: harvest_added_def)
    have new: "bt_get (h_stages s') (up_id u) = Some (added_stage c u cov cid' unm)" by (simp add: s' bt_get_insert)
    show ?thesis
    proof (cases "P (n, st)")
      case True
      with P n(2) new show ?thesis by (auto simp: owned_def intro: exI [of _ "up_id u"])
    next
      case False
      then have "bt_get (h_stages s') n = Some st" using n(1) s' assms(2) by (auto simp: bt_get_insert bt_get_filter)
      with n(2) show ?thesis by (auto simp: owned_def)
    qed
  qed
  from assms(1) show ?thesis unfolding harvest_effect_def
  proof (elim disjE exE conjE)
    assume "harvest_refined c pos u s s'"
    then obtain v where v: "bt_get (h_stages s) (up_id u) = Some v"
      "h_stages s' = bt_insert (up_id u) (fst (refine_stage c pos u v)) (h_stages s)" by (auto simp: harvest_refined_def)
    have "bt_get (h_stages s') n = (if n = up_id u then Some (fst (refine_stage c pos u v)) else Some st)"
      using v n(1) by (simp add: bt_get_insert)
    moreover have "n = up_id u \<Longrightarrow> v = st" using v n(1) by simp
    ultimately have "\<exists>x. bt_get (h_stages s') n = Some x \<and> s_criterion_id x = cid"
      using n(2) by (cases "n = up_id u") simp_all
    then show ?thesis unfolding owned_def by blast
  next
    fix cid' assume a: "harvest_added c u cid' (prior_owner c (ranked u s\<lparr>h_proposed := insert (up_id u) (h_proposed s)\<rparr>) cid'
        (up_episode u) (rank_of u s)) s s'"
    show ?thesis by (rule added [OF a]) (auto simp: prior_owner_def split: if_splits)
  next
    assume a: "harvest_added c u [] (\<lambda>_. False) s s'"
    show ?thesis by (rule added [OF a]) simp
  qed (use assms(3) in \<open>simp add: harvest_idle_def\<close>)
qed

lemma harvest_proposed_effects:
  assumes "harvest_proposed de c es s = Inr s'" "I (s\<lparr>h_order := []\<rparr>)"
    and "\<And>c t t' pos u. I t \<Longrightarrow> harvest_effect c pos u t t' \<Longrightarrow> I t'"
  shows "I s'"
  using harvest_proposed_fold [OF assms(1)] harvest_fold [where I = I] assms(2,3) by blast

lemma expanded_owned:
  assumes "bt_wf W" "first_stage_named W is_fan_out_template \<noteq> None" "i < length criteria"
    and "\<And>i. i < length criteria \<Longrightarrow> bt_get W (unit_slug (i + 1) (criteria ! i)) = None"
  shows "owned (ex_stages (expand_baseline W criteria)) (criterion_stable_id (i + 1) (criteria ! i))"
proof (cases rule: expand_baseline_cases [OF assms(1), of criteria])
  case 1
  with assms(2,3) show ?thesis by auto
next
  case (2 name template producer)
  let ?us = "baseline_units template criteria producer"
  let ?u = "baseline_unit template (baseline_needs template producer) (i + 1) (criteria ! i)"
  have "distinct (map fst ?us)"
    unfolding baseline_units_nth by (auto simp: distinct_map inj_on_def dest!: unit_slug_inject)
  moreover have "?u \<in> set ?us" using assms(3) by (simp add: baseline_units_nth)
  ultimately have "map_of ?us (fst ?u) = Some (snd ?u)" by (metis map_of_eq_Some_iff prod.collapse)
  moreover have "bt_get (bt_remove name W) (fst ?u) = None" using assms(3,4) by (simp add: bt_get_remove)
  ultimately have "bt_get (ex_stages (expand_baseline W criteria)) (fst ?u) = Some (snd ?u)"
    using 2 by (simp add: foldl_or_insert_get)
  then show ?thesis unfolding owned_def by (intro exI [of _ "fst ?u"] exI [of _ "snd ?u"]) simp
qed

text \<open>
  C16. No criterion is orphaned: over every stage graph a run reaches from a workflow with a fan-out
  template, where no authored stage bears a baseline unit's name, every acceptance criterion has a
  live stage that carries its stable id, however often the planner supersedes its owner. A need
  that names the template therefore never holds vacuously.
\<close>

theorem criteria_stay_owned:
  assumes "graph_reach de c W s" "authored W" "hc_template_gates c = template_gates W"
    and "first_stage_named W is_fan_out_template \<noteq> None"
    and "\<And>i. i < length (hc_criteria c) \<Longrightarrow> bt_get W (unit_slug (i + 1) (hc_criteria c ! i)) = None"
    and "i < length (hc_criteria c)"
  shows "owned (h_stages s) (criterion_stable_id (i + 1) (hc_criteria c ! i))"
  using assms(1)
proof (induction rule: graph_reach.induct)
  case (start I T)
  then show ?case using expanded_owned [of W i "hc_criteria c"] assms(2,4-6) by (simp add: graph_start_def authored_def)
next
  case (harvest s es s')
  let ?cid = "criterion_stable_id (i + 1) (hc_criteria c ! i)"
  have "bt_wf (h_stages s') \<and> owned (h_stages s') ?cid"
  proof (rule harvest_proposed_effects [OF harvest.hyps(2), where I = "\<lambda>t. bt_wf (h_stages t) \<and> owned (h_stages t) ?cid"])
    show "bt_wf (h_stages (s\<lparr>h_order := []\<rparr>)) \<and> owned (h_stages (s\<lparr>h_order := []\<rparr>)) ?cid"
      using graph_reach_inv [OF harvest.hyps(1) assms(2,3)] harvest.IH by (simp add: harvest_inv_def)
  qed (blast intro: harvest_effect_wf harvest_effect_owned)
  then show ?case by blast
next
  case (wave s I T)
  then show ?case by simp
qed

text \<open>
  C29. A harvest never disturbs work in progress or the workflow's own stages: a stage that is terminal
  or has integrated, or that serves no criterion and was not proposed (the planner, the plan-critique
  gate, any authored stage), is the same stage after a harvest as before it.
\<close>

theorem harvest_leaves_started_stages:
  assumes "harvest_proposed de c es s = Inr s'" "bt_wf (h_stages s)" "bt_get (h_stages s) n = Some st"
    and "n \<in> h_integrated s \<or> n \<in> h_terminal s \<or> s_criterion_id st = [] \<and> n \<notin> h_proposed s"
  shows "bt_get (h_stages s') n = Some st"
proof -
  let ?I = "\<lambda>t. bt_wf (h_stages t) \<and> bt_get (h_stages t) n = Some st \<and>
      (n \<in> h_integrated t \<or> n \<in> h_terminal t \<or> s_criterion_id st = [] \<and> n \<notin> h_proposed t)"
  have "?I s'"
  proof (rule harvest_proposed_effects [OF assms(1), where I = ?I])
    show "?I (s\<lparr>h_order := []\<rparr>)" using assms(2-4) by simp
    fix c t t' pos u assume t: "?I t" and e: "harvest_effect c pos u t t'"
    have "bt_wf (h_stages t')" using harvest_effect_wf e t by blast
    moreover have "bt_get (h_stages t') n = Some st \<and> (n \<in> h_integrated t' \<or> n \<in> h_terminal t' \<or> s_criterion_id st = [] \<and> n \<notin> h_proposed t')"
      using e unfolding harvest_effect_def
    proof (elim disjE exE conjE)
      assume "harvest_idle u t t'"
      with t show ?thesis by (auto simp: harvest_idle_def)
    next
      assume "harvest_refined c pos u t t'"
      with t show ?thesis by (auto simp: harvest_refined_def bt_get_insert)
    next
      assume "harvest_added c u [] (\<lambda>_. False) t t'"
      with t show ?thesis by (auto simp: harvest_added_def bt_get_insert)
    next
      fix cid assume "harvest_added c u cid (prior_owner c (ranked u t\<lparr>h_proposed := insert (up_id u) (h_proposed t)\<rparr>) cid
          (up_episode u) (rank_of u t)) t t'" "cid \<noteq> []"
      with t show ?thesis
        by (auto simp: harvest_added_def bt_get_insert bt_get_filter prior_owner_def ranked_def)
    qed
    ultimately show "?I t'" by blast
  qed
  then show ?thesis by blast
qed

text \<open>
  The supersede rule: a new unit that serves a criterion takes it over. Right after the step that
  adds it, the unit carries the criterion's id, and every other live owner of that criterion has
  started, or is a planner unit of an episode that is not earlier than the unit's own (its siblings in
  the same planning pass), never a baseline.
\<close>

theorem harvest_supersedes_earlier_owners:
  assumes "harvest_step c s (pos, u) = Inr s'" "bt_wf (h_stages s)"
    and "up_id u \<noteq> []" "bt_get (h_stages s) (up_id u) = None" "up_id u \<notin> h_proposed s"
    and "resolve_served_criterion (hc_criteria c) (up_coverage u) (up_criterion_id u) = Some (cid, coverage)"
  shows "(\<exists>st. bt_get (h_stages s') (up_id u) = Some st \<and> s_criterion_id st = cid) \<and>
    (\<forall>n st. bt_get (h_stages s') n = Some st \<and> n \<noteq> up_id u \<and> s_criterion_id st = cid \<longrightarrow>
       n \<in> h_integrated s \<or> n \<in> h_terminal s \<or>
       \<not> s_baseline st \<and>
       \<not> episode_earlier (h_order s') (unwrap_or (s_episode st) (hc_final c n)) (up_episode u) (rank_of u s))"
proof -
  have cov: "trim (up_coverage u) \<noteq> []" using assms(6) by (auto simp: resolve_served_criterion_def)
  let ?s = "ranked u s\<lparr>h_proposed := insert (up_id u) (h_proposed s)\<rparr>"
  let ?P = "prior_owner c ?s cid (up_episode u) (rank_of u s)"
  have "harvest_add c u (rank_of u s) (ranked u s) = Inr s'"
    using assms(1,3-5) by (simp add: harvest_step_def ranked_def split_beta)
  then have ins: "harvest_insert c (added_stage c u coverage cid False) (?s\<lparr>h_stages := filter (\<lambda>x. \<not> ?P x) (h_stages ?s)\<rparr>) = Inr s'"
    using assms(6) cov by (simp add: harvest_add_def Let_def ranked_def)
  have stages: "h_stages s' = bt_insert (up_id u) (added_stage c u coverage cid False) (filter (\<lambda>x. \<not> ?P x) (h_stages s))"
    using harvest_insert_frame(1) [OF ins] by (simp add: ranked_def)
  have order: "h_order s' = h_order ?s"
    using ins by (auto simp: harvest_insert_def Let_def bind_res_def split: if_splits sum.splits dest!: land_frame)
  have "\<exists>st. bt_get (h_stages s') (up_id u) = Some st \<and> s_criterion_id st = cid"
    by (simp add: stages bt_get_insert)
  moreover have "n \<in> h_integrated s \<or> n \<in> h_terminal s \<or> \<not> s_baseline st \<and>
      \<not> episode_earlier (h_order s') (unwrap_or (s_episode st) (hc_final c n)) (up_episode u) (rank_of u s)"
    if "bt_get (h_stages s') n = Some st" "n \<noteq> up_id u" "s_criterion_id st = cid" for n st
  proof -
    have "\<not> ?P (n, st)" using that assms(2) by (simp add: stages bt_get_insert bt_get_filter)
    with that(3) show ?thesis unfolding order by (auto simp: prior_owner_def ranked_def split: if_splits)
  qed
  ultimately show ?thesis by blast
qed

section \<open>A concrete run\<close>

definition demo_workflow :: stages where
  "demo_workflow =
     [(''critique'', stage_default\<lparr>s_name := ''critique'', s_adjudicator := ''judge'', s_needs := [''plan'']\<rparr>),
      (''implement'', stage_default\<lparr>s_name := ''implement'', s_agent := ''worker'', s_strategy := ''fan-out'',
         s_gates := [''test''], s_needs := [''critique'']\<rparr>),
      (''plan'', stage_default\<lparr>s_name := ''plan'', s_agent := ''planner'', s_produces := ''dag''\<rparr>)]"

definition demo_harvest :: "string list \<Rightarrow> harvest_cfg" where
  "demo_harvest criteria = \<lparr>hc_criteria = criteria, hc_template_gates = template_gates demo_workflow, hc_gate = None,
     hc_final = \<lambda>_. None, hc_append = \<lambda>_. None, hc_probes = demo_probes,
     hc_lifecycle = Inr [], hc_repo = '''', hc_is_ancestor = \<lambda>_ _ _. False\<rparr>"

definition demo_de_proposed :: "bytes \<Rightarrow> json_error + unit_proposed" where
  "demo_de_proposed = demo_de (\<lambda>b. \<lparr>up_id = b, up_agent = ''worker'', up_needs = [], up_coverage = ''part one'', up_gates = [],
     up_criterion_id = '''', up_episode = ''plan/implementer#0''\<rparr>)"

lemma demo_workflow_authored: "authored demo_workflow"
  by code_simp

lemma demo_start:
  "graph_reach demo_de_proposed (demo_harvest criteria) demo_workflow (graph_start demo_workflow criteria I T)"
  using graph_reach.start [of demo_de_proposed "demo_harvest criteria" demo_workflow I T] by (simp add: demo_harvest_def)

theorem criteria_stay_owned_witness:
  "owned (ex_stages (expand_baseline demo_workflow [''a b''])) (criterion_stable_id 1 ''a b'')"
proof -
  have "first_stage_named demo_workflow is_fan_out_template \<noteq> None" by code_simp
  moreover have "bt_get demo_workflow (unit_slug 1 ''a b'') = None" by code_simp
  ultimately show ?thesis
    using criteria_stay_owned [OF demo_start demo_workflow_authored, where criteria1 = "[''a b'']" and i = 0 and I1 = "{}" and T1 = "{}"]
    by (simp add: demo_harvest_def graph_start_def)
qed

text \<open>A run with no criteria whose planner proposed the unit \<open>u1\<close>.\<close>

definition demo_graph :: harvest_state where
  "demo_graph = graph_start demo_workflow [] {''plan''} {''plan''}"

definition demo_proposal :: event where
  "demo_proposal = demo_event TYPE_UNIT_PROPOSED ''u1''"

definition demo_unit :: unit_proposed where
  "demo_unit = \<lparr>up_id = ''u1'', up_agent = ''worker'', up_needs = [], up_coverage = ''part one'', up_gates = [],
     up_criterion_id = '''', up_episode = ''plan/implementer#0''\<rparr>"

lemma demo_facts:
  "critique_gate_name demo_workflow = Some ''critique''" "template_gates demo_workflow = [''test'']"
  "trim ''part one'' \<noteq> []" "expand_baseline demo_workflow [] = \<lparr>ex_stages = demo_workflow, ex_fanout_criteria = [], ex_template_gates = []\<rparr>"
  "bt_get demo_workflow ''u1'' = None" "bt_wf demo_workflow"
  by (code_simp, code_simp, code_simp, simp add: expand_baseline_def, code_simp, code_simp)

lemma demo_proposals: "proposals demo_de_proposed [demo_proposal] = [(ev_position demo_proposal, demo_unit)]"
  by (simp add: proposals_def proposal_def demo_proposal_def demo_de_proposed_def demo_unit_def map_filter_def bt_get_def)

lemma demo_harvested:
  obtains s where "harvest_proposed demo_de_proposed (demo_harvest []) [demo_proposal] demo_graph = Inr s"
    "''u1'' \<in> h_proposed s" "h_integrated s = {''plan''}" "''u1'' \<in> set (bt_keys (h_stages s))"
proof -
  have "\<exists>s. harvest_proposed demo_de_proposed (demo_harvest []) [demo_proposal] demo_graph = Inr s \<and>
      ''u1'' \<in> h_proposed s \<and> h_integrated s = {''plan''} \<and> ''u1'' \<in> set (bt_keys (h_stages s))"
    by (simp add: harvest_proposed_def demo_proposals demo_graph_def graph_start_def demo_facts harvest_step_def demo_unit_def
        register_episode_def harvest_add_def demo_harvest_def resolve_served_criterion_def first_longest_def
        harvest_insert_def land_if_landed_def btm.keys_get bt_get_insert Let_def)
  with that show thesis by blast
qed

theorem no_ungated_fanout_unit_witness:
  "\<exists>s st. harvest_proposed demo_de_proposed (demo_harvest []) [demo_proposal] demo_graph = Inr s \<and>
     bt_get (h_stages s) ''u1'' = Some st \<and> ''test'' \<in> set (s_gates st) \<and>
     assert_no_ungated_fanout_unit (run_frontier demo_workflow [] None) (h_stages s) [''u1''] = None"
proof -
  obtain s where s: "harvest_proposed demo_de_proposed (demo_harvest []) [demo_proposal] demo_graph = Inr s"
    "''u1'' \<in> h_proposed s" "''u1'' \<in> set (bt_keys (h_stages s))" by (rule demo_harvested)
  have r: "graph_reach demo_de_proposed (demo_harvest []) demo_workflow s"
    using graph_reach.harvest [OF demo_start] s(1) unfolding demo_graph_def by blast
  obtain st where st: "bt_get (h_stages s) ''u1'' = Some st" using s(3) by (auto simp: btm.keys_get)
  have "hc_template_gates (demo_harvest []) = template_gates demo_workflow" by (simp add: demo_harvest_def)
  note safe = no_ungated_fanout_unit [OF r demo_workflow_authored this, of None "[''u1'']"]
  have "''test'' \<in> set (s_gates st)" using safe st s(2) demo_facts(2) by auto
  then show ?thesis using s(1) st safe by (auto simp: demo_harvest_def)
qed

theorem proposed_units_wait_for_gate_witness:
  "\<exists>s. harvest_proposed demo_de_proposed (demo_harvest []) [demo_proposal] demo_graph = Inr s \<and> ''u1'' \<in> h_proposed s \<and>
     ''u1'' \<notin> set (frontier_ready (run_frontier demo_workflow [] (Some ''critique'')) (h_stages s) (h_integrated s) (h_terminal s))"
proof -
  obtain s where s: "harvest_proposed demo_de_proposed (demo_harvest []) [demo_proposal] demo_graph = Inr s"
    "''u1'' \<in> h_proposed s" "h_integrated s = {''plan''}" by (rule demo_harvested)
  have "graph_reach demo_de_proposed (demo_harvest []) demo_workflow s"
    using graph_reach.harvest [OF demo_start] s(1) unfolding demo_graph_def by blast
  then have "set (frontier_ready (run_frontier demo_workflow (hc_criteria (demo_harvest [])) (Some ''critique'')) (h_stages s)
      (h_integrated s) (h_terminal s)) \<inter> h_proposed s = {}"
    by (rule proposed_units_wait_for_gate [OF _ demo_workflow_authored]) (simp_all add: demo_harvest_def demo_facts s(3))
  with s show ?thesis by (auto simp: demo_harvest_def)
qed

theorem harvest_leaves_started_stages_witness:
  "\<exists>s st. harvest_proposed demo_de_proposed (demo_harvest []) [demo_proposal] demo_graph = Inr s \<and>
     bt_get demo_workflow ''critique'' = Some st \<and> bt_get (h_stages s) ''critique'' = Some st"
proof -
  obtain s where s: "harvest_proposed demo_de_proposed (demo_harvest []) [demo_proposal] demo_graph = Inr s"
    by (rule demo_harvested)
  obtain st where st: "bt_get demo_workflow ''critique'' = Some st" "s_criterion_id st = []"
    by (simp add: demo_workflow_def bt_get_def stage_default_def)
  have "bt_get (h_stages s) ''critique'' = Some st"
    by (rule harvest_leaves_started_stages [OF s]) (use st in \<open>simp_all add: demo_graph_def graph_start_def demo_facts\<close>)
  with s st show ?thesis by blast
qed

text \<open>A baseline unit of the one criterion, superseded by the proposal.\<close>

definition demo_owned :: harvest_state where
  "demo_owned = \<lparr>h_stages = [(''unit-1'', stage_default\<lparr>s_baseline := True, s_criterion_id := criterion_stable_id 1 ''part one''\<rparr>)],
     h_proposed = {}, h_integrated = {}, h_terminal = {}, h_order = [], h_signals = []\<rparr>"

lemma demo_resolved:
  "resolve_served_criterion [''part one''] ''part one'' '''' = Some (criterion_stable_id 1 ''part one'', ''part one'')"
proof -
  have "normalize_criterion_id '''' = []" "criterion_remainder ''part one'' ''part one'' = Some []" "trim ''part one'' \<noteq> []"
    by (code_simp, code_simp, code_simp)
  then show ?thesis by (simp add: resolve_served_criterion_def first_longest_def part_coverage_def)
qed

theorem harvest_supersedes_earlier_owners_witness:
  "\<exists>s. harvest_step (demo_harvest [''part one'']) demo_owned (1, demo_unit) = Inr s \<and>
     (\<forall>n st. bt_get (h_stages s) n = Some st \<and> n \<noteq> ''u1'' \<and> s_criterion_id st = criterion_stable_id 1 ''part one'' \<longrightarrow> \<not> s_baseline st)"
proof -
  have "\<exists>s. harvest_step (demo_harvest [''part one'']) demo_owned (1, demo_unit) = Inr s"
    using demo_facts(3) demo_resolved
    by (simp add: harvest_step_def demo_owned_def demo_unit_def register_episode_def harvest_add_def demo_harvest_def
        harvest_insert_def land_if_landed_def landed_nothing bt_get_def Let_def)
  then obtain s where s: "harvest_step (demo_harvest [''part one'']) demo_owned (1, demo_unit) = Inr s" by blast
  have "bt_wf (h_stages demo_owned)" "up_id demo_unit = ''u1''" "bt_get (h_stages demo_owned) ''u1'' = None"
    "h_proposed demo_owned = {}" "h_integrated demo_owned = {}" "h_terminal demo_owned = {}"
    by (simp_all add: demo_owned_def demo_unit_def bt_wf_def bt_get_def)
  then have "\<forall>n st. bt_get (h_stages s) n = Some st \<and> n \<noteq> ''u1'' \<and> s_criterion_id st = criterion_stable_id 1 ''part one'' \<longrightarrow>
      \<not> s_baseline st"
    using harvest_supersedes_earlier_owners [OF s, of "criterion_stable_id 1 ''part one''" "''part one''"] demo_resolved
    by (auto simp: demo_harvest_def demo_unit_def)
  with s show ?thesis by blast
qed

end
