(* ===== verification/Retention.thy ===== *)
theory Retention
  imports Wire Rust_String
begin

text \<open>
  Which events the log keeps (the domain crate's \<open>retention.rs\<close>) and the content keys of the derived
  index (\<open>ingest.rs\<close>): the class table, the ledger entry that stands for one generation of a file's
  derived batch, the cut of a content key into batch identity and generation, and the reads of the
  generations a log records.

  The theorems: an entry's event carries the key of its own identity and generation, and the scan
  of recorded generations answers each identity's last one.
\<close>

section \<open>Classes\<close>

abbreviation "TYPE_CODE_ENTITY_EXTRACTED \<equiv> ''CodeEntityExtracted''"
abbreviation "TYPE_EDGE_INFERRED \<equiv> ''EdgeInferred''"
abbreviation "TYPE_DOC_CONCEPT_EXTRACTED \<equiv> ''DocConceptExtracted''"
abbreviation "TYPE_DOC_LINK_EXTRACTED \<equiv> ''DocLinkExtracted''"
abbreviation "TYPE_GENERATION_INGESTED \<equiv> ''GenerationIngested''"
abbreviation "META_REPLAY_KEY \<equiv> ''replay_key''"
abbreviation "META_GROUP \<equiv> ''group''"

definition DERIVED_INDEX_TYPES :: "string list" where
  "DERIVED_INDEX_TYPES =
     [TYPE_CODE_ENTITY_EXTRACTED, TYPE_EDGE_INFERRED, TYPE_DOC_CONCEPT_EXTRACTED, TYPE_DOC_LINK_EXTRACTED]"

definition is_derived_index_type :: "string \<Rightarrow> bool" where
  "is_derived_index_type ty \<longleftrightarrow> ty \<in> set DERIVED_INDEX_TYPES"

definition is_ledger_entry :: "string \<Rightarrow> bool" where
  "is_ledger_entry ty \<longleftrightarrow> ty = TYPE_GENERATION_INGESTED"

definition PERCEPTION_TYPES :: "string list" where
  "PERCEPTION_TYPES = DERIVED_INDEX_TYPES @ [TYPE_GENERATION_INGESTED]"

definition EPISODIC_TYPES :: "string list" where
  "EPISODIC_TYPES =
     [TYPE_SPAWN_REQUESTED, ''GateVerdict'', ''GatePromoted'', ''GateDemoted'', ''UnitProposed'',
      ''BlastRadiusComputed'', ''ScopeCreep'', ''FileTouched'', TYPE_SPEC_DEFECT, TYPE_MANUAL_REVIEW,
      TYPE_DEFERRED_GATE_FAILED, ''TaskAborted'', TYPE_BUDGET_EXHAUSTED, ''AgentProgress'',
      ''SpawnLaunched'', ''StopFailure'', TYPE_RUN_HELD, TYPE_RUN_RELEASED, ''ApiRetry'', ''SupervisorBeat'']"

datatype event_class = Derived | Kept

definition class_of :: "string \<Rightarrow> event_class" where
  "class_of ty = (if is_derived_index_type ty then Derived else Kept)"

section \<open>Ledger entries\<close>

record generation_ingested =
  gi_prefix :: string
  gi_file :: string
  gi_generation :: string
  gi_blob :: string
  gi_excluded :: bool

text \<open>\<open>GenerationIngested::parse\<close>: the decoder's message behind the type's name.\<close>

definition entry_parse :: "(bytes \<Rightarrow> json_error + generation_ingested) \<Rightarrow> bytes \<Rightarrow> string + generation_ingested" where
  "entry_parse de data =
     (case de data of Inl (JsonError m) \<Rightarrow> Inl (TYPE_GENERATION_INGESTED @ '' payload: '' @ m) | Inr g \<Rightarrow> Inr g)"

definition entry_identity :: "generation_ingested \<Rightarrow> string" where
  "entry_identity g = gi_prefix g @ ''/'' @ gi_file g"

definition entry_event :: "string \<times> sys_time \<Rightarrow> (generation_ingested \<Rightarrow> bytes) \<Rightarrow> generation_ingested \<Rightarrow> nat \<Rightarrow> event" where
  "entry_event mint en g n =
     with_meta META_GROUP (entry_identity g)
       (with_meta META_REPLAY_KEY (entry_identity g @ ''@'' @ gi_generation g @ ''#'' @ show_nat n)
         (event_new mint TYPE_GENERATION_INGESTED (en g)))"

definition identity_parts :: "string \<Rightarrow> (string \<times> string) option" where
  "identity_parts identity = opt_filter (\<lambda>(prefix, _). prefix \<noteq> []) (split_once CHR ''/'' identity)"

section \<open>Content keys\<close>

text \<open>Ranges are pairs of a start and an end, in bytes.\<close>

definition derived_key_spans :: "string \<Rightarrow> ((nat \<times> nat) \<times> (nat \<times> nat)) option" where
  "derived_key_spans key =
     (case identity_parts key of None \<Rightarrow> None
      | Some (prefix, remainder) \<Rightarrow>
     (case rsplit_once CHR ''#'' remainder of None \<Rightarrow> None
      | Some (head, index) \<Rightarrow>
        if index = [] \<or> \<not> list_all is_ascii_digit index then None
        else (case rsplit_once CHR ''@'' head of None \<Rightarrow> None
      | Some (file, hash) \<Rightarrow>
        if file = [] \<or> hash = [] then None
        else (let identity = length prefix + 1 + length file
              in Some ((0, identity), (identity + 1, identity + 1 + length hash))))))"

definition str_range :: "nat \<times> nat \<Rightarrow> string \<Rightarrow> string" where
  "str_range r s = take (snd r - fst r) (drop (fst r) s)"

definition derived_key_parts :: "string \<Rightarrow> (string \<times> string) option" where
  "derived_key_parts key = map_option (\<lambda>(identity, generation). (str_range identity key, str_range generation key)) (derived_key_spans key)"

definition derived_generation :: "event \<Rightarrow> (string \<times> string) option" where
  "derived_generation e =
     (if \<not> is_derived_index_type (ev_type e) then None
      else Option.bind (bt_get (ev_meta e) META_REPLAY_KEY) derived_key_parts)"

datatype graph_side = Owed | Holds "string option"

definition batch_is_current :: "string option \<Rightarrow> graph_side \<Rightarrow> string \<Rightarrow> bool" where
  "batch_is_current logged graph generation \<longleftrightarrow>
     logged = Some generation \<and>
     (case graph of Owed \<Rightarrow> True | Holds current \<Rightarrow> current = Some generation)"

text \<open>\<open>sink_walked_batches\<close>: every batch is handed on, and the first error is the answer. The walk is
  the list of batches it yields; the sink's own state is threaded.\<close>

definition sink_walked_batches :: "('b \<Rightarrow> 's \<Rightarrow> 'e option \<times> 's) \<Rightarrow> 'b list \<Rightarrow> 's \<Rightarrow> ('e + unit) \<times> 's" where
  "sink_walked_batches sink batches s =
     (case foldl (\<lambda>(first, s). \<lambda>b. case sink b s of (err, s') \<Rightarrow>
             (case first of Some e \<Rightarrow> Some e | None \<Rightarrow> err, s')) (None, s) batches of
        (first, s') \<Rightarrow> (case first of None \<Rightarrow> Inr () | Some e \<Rightarrow> Inl e, s'))"

text \<open>The map a stream's perception events collect to: a later pair of an identity replaces an
  earlier one.\<close>

definition perceived_pair :: "event \<Rightarrow> (string \<times> string) option" where
  "perceived_pair e =
     (if ev_type e \<in> set PERCEPTION_TYPES then Option.bind (bt_get (ev_meta e) META_REPLAY_KEY) derived_key_parts
      else None)"

definition project_scoped_latest_generations :: "event list \<Rightarrow> string \<Rightarrow> string option" where
  "project_scoped_latest_generations prior = map_of (rev (List.map_filter perceived_pair prior))"

section \<open>Keys and identities\<close>

lemma rsplit_once_SomeD: "rsplit_once c s = Some (a, b) \<Longrightarrow> s = a @ c # b \<and> c \<notin> set b"
  by (auto simp: rsplit_once_def split: option.splits prod.splits dest!: split_once_SomeD)
     (metis append.assoc append_Cons append_Nil rev.simps(2) rev_append rev_rev_ident)

lemma identity_parts_eq: "identity_parts s = Some (p, f) \<longleftrightarrow> p \<noteq> [] \<and> CHR ''/'' \<notin> set p \<and> s = p @ CHR ''/'' # f"
  by (auto simp: identity_parts_def str_simps dest: split_once_SomeD)

text \<open>What the cut of a key answers.\<close>

lemma derived_key_parts_eq:
  "derived_key_parts key = Some (identity, generation) \<longleftrightarrow>
     (\<exists>prefix fl index. key = prefix @ ''/'' @ fl @ ''@'' @ generation @ ''#'' @ index \<and>
        identity = prefix @ ''/'' @ fl \<and> prefix \<noteq> [] \<and> CHR ''/'' \<notin> set prefix \<and> fl \<noteq> [] \<and>
        generation \<noteq> [] \<and> CHR ''@'' \<notin> set generation \<and> index \<noteq> [] \<and> list_all is_ascii_digit index)"
    (is "?l \<longleftrightarrow> ?r")
proof
  assume ?l
  then obtain spans where sp: "derived_key_spans key = Some spans"
      and ig: "identity = str_range (fst spans) key" "generation = str_range (snd spans) key"
    by (auto simp: derived_key_parts_def)
  from sp obtain prefix remainder head index fl hash where k:
      "identity_parts key = Some (prefix, remainder)" "rsplit_once CHR ''#'' remainder = Some (head, index)"
      "index \<noteq> []" "list_all is_ascii_digit index" "rsplit_once CHR ''@'' head = Some (fl, hash)"
      "fl \<noteq> []" "hash \<noteq> []"
      "spans = ((0, length prefix + 1 + length fl), (length prefix + 1 + length fl + 1, length prefix + 1 + length fl + 1 + length hash))"
    by (auto simp: derived_key_spans_def Let_def split: option.splits if_splits)
  note k' = k(1)[unfolded identity_parts_eq] rsplit_once_SomeD [OF k(2)] rsplit_once_SomeD [OF k(5)]
  then have key: "key = prefix @ ''/'' @ fl @ ''@'' @ hash @ ''#'' @ index" by simp
  show ?r
    using k' k(3,4,6,7) by (intro exI [of _ prefix] exI [of _ fl] exI [of _ index])
      (simp add: ig key k(8) str_range_def)
next
  assume ?r
  then obtain prefix fl index where k: "key = prefix @ ''/'' @ fl @ ''@'' @ generation @ ''#'' @ index"
      "identity = prefix @ ''/'' @ fl" "prefix \<noteq> []" "CHR ''/'' \<notin> set prefix" "fl \<noteq> []"
      "generation \<noteq> []" "CHR ''@'' \<notin> set generation" "index \<noteq> []" "list_all is_ascii_digit index" by blast
  have no: "CHR ''#'' \<notin> set index" using k(9) by (auto simp: list_all_iff is_ascii_digit_def byte_of_def)
  have 1: "identity_parts key = Some (prefix, fl @ ''@'' @ generation @ ''#'' @ index)"
    using k by (simp add: identity_parts_eq)
  have 2: "rsplit_once CHR ''#'' (fl @ ''@'' @ generation @ ''#'' @ index) = Some (fl @ ''@'' @ generation, index)"
    using rsplit_once_append [of "CHR ''#''" index "fl @ ''@'' @ generation"] no by simp
  have 3: "rsplit_once CHR ''@'' (fl @ ''@'' @ generation) = Some (fl, generation)"
    using rsplit_once_append [of "CHR ''@''" generation fl] k(7) by simp
  have "derived_key_spans key = Some ((0, length prefix + 1 + length fl),
      (length prefix + 1 + length fl + 1, length prefix + 1 + length fl + 1 + length generation))"
    unfolding derived_key_spans_def 1 option.case prod.case 2 3 using k(5,6,8,9) by (simp add: Let_def)
  then show ?l by (simp add: derived_key_parts_def str_range_def k(1,2))
qed

lemma show_nat_all_digits: "list_all is_ascii_digit (show_nat n)"
  by (simp add: list_all_iff show_nat_digits)

text \<open>
  C38. The event of a ledger entry names its entry: its group is the identity the entry is for, its
  content key is cut back into exactly that identity and generation, whatever the index, and the
  identity is cut back into the entry's prefix and file.
\<close>

theorem entry_event_round_trip:
  assumes "gi_prefix g \<noteq> []" "CHR ''/'' \<notin> set (gi_prefix g)" "gi_file g \<noteq> []"
    and "gi_generation g \<noteq> []" "CHR ''@'' \<notin> set (gi_generation g)"
  shows "perceived_pair (entry_event mint en g n) = Some (entry_identity g, gi_generation g) \<and>
    bt_get (ev_meta (entry_event mint en g n)) META_GROUP = Some (entry_identity g) \<and>
    identity_parts (entry_identity g) = Some (gi_prefix g, gi_file g) \<and>
    class_of (ev_type (entry_event mint en g n)) = Kept"
proof (intro conjI)
  have "derived_key_parts (entry_identity g @ ''@'' @ gi_generation g @ ''#'' @ show_nat n) = Some (entry_identity g, gi_generation g)"
    unfolding derived_key_parts_eq entry_identity_def
    by (intro exI [of _ "gi_prefix g"] exI [of _ "gi_file g"] exI [of _ "show_nat n"]) (simp add: assms show_nat_all_digits)
  then show "perceived_pair (entry_event mint en g n) = Some (entry_identity g, gi_generation g)"
    by (simp add: perceived_pair_def entry_event_def with_meta_def event_new_def bt_get_def PERCEPTION_TYPES_def)
  show "bt_get (ev_meta (entry_event mint en g n)) META_GROUP = Some (entry_identity g)"
    by (simp add: entry_event_def with_meta_def event_new_def bt_get_def)
  show "identity_parts (entry_identity g) = Some (gi_prefix g, gi_file g)"
    using assms by (simp add: entry_identity_def identity_parts_eq)
  show "class_of (ev_type (entry_event mint en g n)) = Kept"
    by (simp add: entry_event_def with_meta_def event_new_def class_of_def is_derived_index_type_def DERIVED_INDEX_TYPES_def)
qed

theorem entry_event_round_trip_witness:
  "let g = \<lparr>gi_prefix = ''gc'', gi_file = ''src/a@2.rs'', gi_generation = ''h1'', gi_blob = ''b'', gi_excluded = False\<rparr>
   in perceived_pair (entry_event (''id'', 0) (\<lambda>_. []) g 7) = Some (''gc/src/a@2.rs'', ''h1'')"
  using entry_event_round_trip [THEN conjunct1, of "\<lparr>gi_prefix = ''gc'', gi_file = ''src/a@2.rs'', gi_generation = ''h1'', gi_blob = ''b'', gi_excluded = False\<rparr>"]
  by (simp add: entry_identity_def)

text \<open>The scan of recorded generations: appending one event moves only the identity it names.\<close>

lemma latest_generations_snoc:
  "project_scoped_latest_generations (es @ [e]) =
     (case perceived_pair e of None \<Rightarrow> project_scoped_latest_generations es
      | Some (i, g) \<Rightarrow> (project_scoped_latest_generations es)(i \<mapsto> g))"
  by (auto simp: project_scoped_latest_generations_def map_filter_def split: option.splits)

lemma latest_generations_find_last:
  "project_scoped_latest_generations es i =
     Option.bind (find_last (\<lambda>e. map_option fst (perceived_pair e) = Some i) es) (map_option snd \<circ> perceived_pair)"
  by (induction es rule: rev_induct)
     (auto simp: latest_generations_snoc split: option.splits simp: project_scoped_latest_generations_def map_filter_def)

text \<open>Handing batches on stops at no error: every batch reaches the sink.\<close>

lemma sink_walked_batches_state:
  "snd (sink_walked_batches sink bs s) = foldl (\<lambda>s b. snd (sink b s)) s bs"
proof -
  have "snd (foldl (\<lambda>(first, s). \<lambda>b. case sink b s of (err, s') \<Rightarrow>
             (case first of Some e \<Rightarrow> Some e | None \<Rightarrow> err, s')) (f, s) bs) = foldl (\<lambda>s b. snd (sink b s)) s bs" for f
    by (induction bs arbitrary: s f) (auto split: prod.splits)
  then show ?thesis by (auto simp: sink_walked_batches_def split: prod.splits) (metis snd_conv)
qed

end
