(* ===== verification/Event_Store.thy ===== *)
theory Event_Store
  imports Retention
begin

text \<open>
  The event log: the values of the port (\<open>ExpectedRevision\<close>, \<open>Appended\<close>, \<open>TypeSelection\<close>,
  \<open>AliasHistory\<close> of the domain crate's \<open>eventstore.rs\<close>) and the SQLite adapter that implements it
  (\<open>rigger-store-sqlite\<close>, \<open>eventstore/mod.rs\<close> and \<open>eventstore/sqlite.rs\<close>).

  The table \<open>events\<close> is the list of its rows in primary key order beside the AUTOINCREMENT
  sequence; an SQL query is the list function its text denotes: a \<open>WHERE\<close> a filter, \<open>ORDER BY
  position\<close> the rows' own order, \<open>ORDER BY revision\<close> a stable sort, \<open>LIMIT\<close> a cut. The one
  constraint a statement can fail on, \<open>UNIQUE(stream, revision)\<close>, and the end of the AUTOINCREMENT
  range are results; a fault of the database file is not modelled, and a transaction that fails
  leaves the table as it was. The metadata is stored as JSON text that \<open>serde_json\<close> writes and reads
  and SQLite's JSON functions look into; both are parameters.
\<close>

section \<open>Port values\<close>

datatype direction = Forward | Backward

datatype expected_revision = AnyRevision | NoStream | Exact revision

definition admits :: "expected_revision \<Rightarrow> revision \<Rightarrow> bool" where
  "admits expected last_revision =
     (case expected of AnyRevision \<Rightarrow> True
      | NoStream \<Rightarrow> last_revision = NO_STREAM
      | Exact v \<Rightarrow> last_revision = v)"

datatype type_selection = Only "string list" | Except "string list"

definition selects :: "type_selection \<Rightarrow> string \<Rightarrow> bool" where
  "selects selection ty = (case selection of Only types \<Rightarrow> ty \<in> set types | Except types \<Rightarrow> ty \<notin> set types)"

record group_head =
  gh_position :: position
  gh_type :: string
  gh_meta :: "(string, string) btree"

datatype store_error =
    Conflict string expected_revision revision
  | OutOfOrder string revision revision
  | DerivedAppend string
  | Backend string

type_synonym appended = "position option list"

definition placed :: "appended \<Rightarrow> (nat \<times> position) list" where
  "placed a = List.map_filter (\<lambda>(i, p). map_option (Pair i) p) (List.enumerate 0 a)"

definition written :: "appended \<Rightarrow> nat" where
  "written a = length (filter (\<lambda>p. p \<noteq> None) a)"

definition last_placed :: "appended \<Rightarrow> position option" where
  "last_placed a = find_map (\<lambda>p. p) (rev a)"

definition one_placed :: "string \<Rightarrow> appended \<Rightarrow> store_error + position" where
  "one_placed what a =
     (case a of
        [Some p] \<Rightarrow> Inr p
      | [] \<Rightarrow> Inl (Backend (''reported writing nothing for '' @ what))
      | [None] \<Rightarrow> Inl (Backend (''reported writing nothing for '' @ what))
      | many \<Rightarrow> Inl (Backend (''answered a single-event append for '' @ what @ '' with '' @ show_nat (length many) @ '' slots'')))"

section \<open>Alias history\<close>

type_synonym alias_history = "(string, (position \<times> string) list) btree"

definition define_alias :: "position \<Rightarrow> string \<Rightarrow> string \<Rightarrow> alias_history \<Rightarrow> alias_history" where
  "define_alias at alias canonical h =
     bt_insert alias (unwrap_or [] (bt_get h alias) @ [(at, canonical)]) h"

text \<open>\<open>partition_point\<close> finds the end of the prefix that satisfies its predicate.\<close>

definition resolve_alias :: "alias_history \<Rightarrow> string \<Rightarrow> position \<Rightarrow> string" where
  "resolve_alias h mention at =
     unwrap_or mention (Option.bind (bt_get h mention) (\<lambda>defs.
       let n = length (takeWhile (\<lambda>(p, _). p < at) defs)
       in if n = 0 then None else Some (snd (defs ! (n - 1)))))"

section \<open>The table\<close>

record 't log_row =
  lr_position :: position
  lr_stream :: string
  lr_type :: string
  lr_id :: string
  lr_data :: bytes
  lr_meta :: 't
  lr_valid_from :: int
  lr_recorded_at :: int
  lr_revision :: revision

record 't log_db =
  db_rows :: "'t log_row list"
  db_seq :: "position option"

definition empty_db :: "'t log_db" where
  "empty_db = \<lparr>db_rows = [], db_seq = None\<rparr>"

text \<open>The JSON text of a metadata map: \<open>serde_json\<close>'s writer and reader, the text \<open>{}\<close> a failed write
  stores, and \<open>CASE WHEN json_valid(meta) THEN json_extract(meta, '$."group"') END\<close>.\<close>

record 't meta_text =
  mt_write :: "(string, string) btree \<Rightarrow> json_error + 't"
  mt_braces :: 't
  mt_read :: "'t \<Rightarrow> json_error + (string, string) btree"
  mt_group :: "'t \<Rightarrow> string option"

definition meta_json :: "'t meta_text \<Rightarrow> (string, string) btree \<Rightarrow> 't" where
  "meta_json mt m = unwrap_or (mt_braces mt) (res_ok (mt_write mt m))"

definition parse_meta :: "'t meta_text \<Rightarrow> 't \<Rightarrow> (string, string) btree" where
  "parse_meta mt t = unwrap_or [] (res_ok (mt_read mt t))"

definition row_to_event :: "'t meta_text \<Rightarrow> 't log_row \<Rightarrow> event" where
  "row_to_event mt r =
     \<lparr>ev_id = lr_id r, ev_stream = lr_stream r, ev_type = lr_type r, ev_data = lr_data r,
      ev_meta = parse_meta mt (lr_meta r), valid_from = from_nanos (lr_valid_from r),
      recorded_at = from_nanos (lr_recorded_at r), ev_position = lr_position r, ev_revision = lr_revision r\<rparr>"

abbreviation stream_rows :: "'t log_db \<Rightarrow> string \<Rightarrow> 't log_row list" where
  "stream_rows db stream \<equiv> filter (\<lambda>r. lr_stream r = stream) (db_rows db)"

section \<open>Appending\<close>

definition refuse_derived :: "event list \<Rightarrow> store_error + unit" where
  "refuse_derived es =
     (case find (\<lambda>e. class_of (ev_type e) = Derived) es of
        Some derived \<Rightarrow> Inl (DerivedAppend (ev_type derived))
      | None \<Rightarrow> Inr ())"

text \<open>The revision of the stream's newest row, and the highest revision the stream records.\<close>

definition newest_revision :: "'t log_db \<Rightarrow> string \<Rightarrow> revision" where
  "newest_revision db stream =
     unwrap_or NO_STREAM (map_option lr_revision (find_last (\<lambda>r. lr_stream r = stream) (db_rows db)))"

definition recorded_max :: "'t log_db \<Rightarrow> string \<Rightarrow> revision" where
  "recorded_max db stream =
     (case map lr_revision (stream_rows db stream) of [] \<Rightarrow> NO_STREAM | r # rs \<Rightarrow> foldl max r rs)"

abbreviation "unique_failed \<equiv> Backend ''UNIQUE constraint failed: events.stream, events.revision''"
abbreviation "table_full \<equiv> Backend ''database or disk is full''"

definition insert_row :: "'t log_row \<Rightarrow> 't log_db \<Rightarrow> store_error + (position \<times> 't log_db)" where
  "insert_row r db =
     (let p = unwrap_or 0 (db_seq db) + 1
      in if list_ex (\<lambda>r'. lr_stream r' = lr_stream r \<and> lr_revision r' = lr_revision r) (db_rows db) then Inl unique_failed
         else if 2 ^ 63 \<le> p then Inl table_full
         else Inr (p, \<lparr>db_rows = db_rows db @ [r\<lparr>lr_position := p\<rparr>], db_seq = Some p\<rparr>))"

definition event_row :: "'t meta_text \<Rightarrow> int \<Rightarrow> string \<Rightarrow> revision \<Rightarrow> event \<Rightarrow> 't log_row" where
  "event_row mt now stream rv e =
     \<lparr>lr_position = 0, lr_stream = stream, lr_type = ev_type e, lr_id = ev_id e, lr_data = ev_data e,
      lr_meta = meta_json mt (ev_meta e), lr_valid_from = to_nanos (valid_from e), lr_recorded_at = now,
      lr_revision = rv\<rparr>"

text \<open>A revision is an \<open>i64\<close>; its successor wraps at the end of the range.\<close>

definition i64_next :: "revision \<Rightarrow> revision" where
  "i64_next rv = (if rv = 2 ^ 63 - 1 then - (2 ^ 63) else rv + 1)"

fun insert_events ::
  "'t meta_text \<Rightarrow> int \<Rightarrow> string \<Rightarrow> revision \<Rightarrow> event list \<Rightarrow> 't log_db \<Rightarrow> store_error + (appended \<times> 't log_db)" where
  "insert_events mt now stream rv [] db = Inr ([], db)"
| "insert_events mt now stream rv (e # es) db =
     bind_res (insert_row (event_row mt now stream rv e) db) (\<lambda>(p, db1).
       bind_res (insert_events mt now stream (i64_next rv) es db1) (\<lambda>(ps, db2). Inr (Some p # ps, db2)))"

definition append ::
  "'t meta_text \<Rightarrow> sys_time \<Rightarrow> string \<Rightarrow> expected_revision \<Rightarrow> event list \<Rightarrow> 't log_db \<Rightarrow> store_error + (appended \<times> 't log_db)" where
  "append mt now stream expected es db =
     bind_res (refuse_derived es) (\<lambda>_.
       let last_revision = newest_revision db stream; highest = recorded_max db stream
       in if \<not> admits expected last_revision then Inl (Conflict stream expected last_revision)
          else if last_revision < highest then Inl (OutOfOrder stream (i64_next last_revision) highest)
          else insert_events mt (to_nanos now) stream (i64_next last_revision) es db)"

section \<open>Reading one stream\<close>

definition read_forward :: "'t meta_text \<Rightarrow> 't log_db \<Rightarrow> string \<Rightarrow> revision \<Rightarrow> event list" where
  "read_forward mt db stream from =
     map (row_to_event mt) (sort_key lr_revision (filter (\<lambda>r. lr_stream r = stream \<and> from \<le> lr_revision r) (db_rows db)))"

definition read_stream :: "'t meta_text \<Rightarrow> 't log_db \<Rightarrow> string \<Rightarrow> revision \<Rightarrow> direction \<Rightarrow> event list" where
  "read_stream mt db stream from dir =
     (let es = read_forward mt db stream from in case dir of Forward \<Rightarrow> es | Backward \<Rightarrow> rev es)"

definition last_position :: "'t log_db \<Rightarrow> string \<Rightarrow> string \<Rightarrow> revision option" where
  "last_position db stream ty =
     map_option lr_revision (find_last (\<lambda>r. lr_stream r = stream \<and> lr_type r = ty) (db_rows db))"

text \<open>The position of the stream's first event, in revision order, at or above \<open>from\<close>.\<close>

definition typed_read_start :: "'t log_db \<Rightarrow> string \<Rightarrow> revision \<Rightarrow> position option" where
  "typed_read_start db stream from =
     (case sort_key lr_revision (filter (\<lambda>r. lr_stream r = stream \<and> from \<le> lr_revision r) (db_rows db)) of
        [] \<Rightarrow> None | r # _ \<Rightarrow> Some (lr_position r))"

definition read_stream_typed :: "'t meta_text \<Rightarrow> 't log_db \<Rightarrow> string \<Rightarrow> revision \<Rightarrow> type_selection \<Rightarrow> event list" where
  "read_stream_typed mt db stream from selection =
     (case (if 0 < from then typed_read_start db stream from else Some 0) of
        None \<Rightarrow> []
      | Some start \<Rightarrow>
          map (row_to_event mt)
            (filter (\<lambda>r. lr_stream r = stream \<and> start \<le> lr_position r \<and> selects selection (lr_type r)) (db_rows db)))"

fun in_batches :: "nat \<Rightarrow> ('a list \<Rightarrow> 's \<Rightarrow> ('e + unit) \<times> 's) \<Rightarrow> 'a list \<Rightarrow> ('e + 'a) list \<Rightarrow> 's \<Rightarrow> ('e + unit) \<times> 's" where
  "in_batches batch sink held [] s = (if held = [] then (Inr (), s) else sink held s)"
| "in_batches batch sink held (Inl e # items) s = (Inl e, s)"
| "in_batches batch sink held (Inr x # items) s =
     (let held' = held @ [x]
      in if length held' = batch
         then (case sink held' s of
                 (Inl e, s') \<Rightarrow> (Inl e, s')
               | (Inr _, s') \<Rightarrow> in_batches batch sink [] items s')
         else in_batches batch sink held' items s)"

definition read_stream_positions ::
  "'t log_db \<Rightarrow> string \<Rightarrow> nat \<Rightarrow> (position list \<Rightarrow> 's \<Rightarrow> (store_error + unit) \<times> 's) \<Rightarrow> 's \<Rightarrow> (store_error + unit) \<times> 's" where
  "read_stream_positions db stream batch sink s =
     in_batches batch sink [] (map (Inr \<circ> lr_position) (stream_rows db stream)) s"

definition stream_head :: "'t log_db \<Rightarrow> string \<Rightarrow> position option" where
  "stream_head db stream =
     (case map lr_position (stream_rows db stream) of [] \<Rightarrow> None | p # ps \<Rightarrow> Some (foldl max p ps))"

definition read_stream_batched ::
  "'t meta_text \<Rightarrow> 't log_db \<Rightarrow> string \<Rightarrow> revision \<Rightarrow> nat \<Rightarrow>
   (event list \<Rightarrow> position \<Rightarrow> 's \<Rightarrow> (store_error + unit) \<times> 's) \<Rightarrow> 's \<Rightarrow> (store_error + unit) \<times> 's" where
  "read_stream_batched mt db stream from batch sink s =
     (case stream_head db stream of
        None \<Rightarrow> (Inr (), s)
      | Some head \<Rightarrow> in_batches batch (\<lambda>es. sink es head) [] (map Inr (read_forward mt db stream from)) s)"

definition latest_in_group :: "'t meta_text \<Rightarrow> 't log_db \<Rightarrow> string \<Rightarrow> string \<Rightarrow> group_head option" where
  "latest_in_group mt db stream grp =
     map_option (\<lambda>r. \<lparr>gh_position = lr_position r, gh_type = lr_type r, gh_meta = parse_meta mt (lr_meta r)\<rparr>)
       (find_last (\<lambda>r. lr_stream r = stream \<and> mt_group mt (lr_meta r) = Some grp) (db_rows db))"

section \<open>Reading the whole log\<close>

text \<open>A cursor or a count is handed to SQLite as a signed 64-bit integer.\<close>

definition as_i64 :: "nat \<Rightarrow> int" where
  "as_i64 n = sint (word_of_nat n :: u64)"

text \<open>SQLite's \<open>LIKE\<close> without an escape character, over the characters of pattern and text.\<close>

fun sql_like :: "string list \<Rightarrow> string list \<Rightarrow> bool" where
  "sql_like [] cs = (cs = [])"
| "sql_like (p # ps) [] = (p = ''%'' \<and> sql_like ps [])"
| "sql_like (p # ps) (c # cs) =
     (if p = ''%'' then sql_like ps (c # cs) \<or> sql_like (p # ps) cs
      else (p = ''_'' \<or> map to_ascii_lower p = map to_ascii_lower c) \<and> sql_like ps cs)"

definition like_of :: "string option \<Rightarrow> string" where
  "like_of stream_prefix = unwrap_or ''%'' (map_option (\<lambda>p. p @ ''%'') stream_prefix)"

definition global_rows :: "'t log_db \<Rightarrow> position \<Rightarrow> string \<Rightarrow> 't log_row list" where
  "global_rows db from like =
     filter (\<lambda>r. as_i64 from < int (lr_position r) \<and> sql_like (utf8_chars like) (utf8_chars (lr_stream r))) (db_rows db)"

definition read_all :: "'t meta_text \<Rightarrow> 't log_db \<Rightarrow> position \<Rightarrow> direction \<Rightarrow> string option \<Rightarrow> event list" where
  "read_all mt db from dir stream_prefix =
     (let rows = global_rows db from (like_of stream_prefix)
      in map (row_to_event mt) (case dir of Forward \<Rightarrow> rows | Backward \<Rightarrow> rev rows))"

text \<open>SQLite reads a negative \<open>LIMIT\<close> as no limit.\<close>

definition sql_limit :: "int \<Rightarrow> 'a list \<Rightarrow> 'a list" where
  "sql_limit n xs = (if n < 0 then xs else take (nat n) xs)"

definition read_all_page :: "'t meta_text \<Rightarrow> 't log_db \<Rightarrow> position \<Rightarrow> string option \<Rightarrow> nat \<Rightarrow> event list" where
  "read_all_page mt db from stream_prefix max_rows =
     map (row_to_event mt) (sql_limit (as_i64 max_rows) (global_rows db from (like_of stream_prefix)))"

definition log_head :: "'t log_db \<Rightarrow> position option" where
  "log_head db = db_seq db"

section \<open>Maintenance\<close>

definition has_stream_prefix :: "'t log_db \<Rightarrow> string \<Rightarrow> bool" where
  "has_stream_prefix db prefix = list_ex (\<lambda>r. starts_with (lr_stream r) prefix) (db_rows db)"

definition renamed :: "string \<Rightarrow> string \<Rightarrow> string \<Rightarrow> string" where
  "renamed old new stream = (case strip_prefix old stream of Some rest \<Rightarrow> new @ rest | None \<Rightarrow> stream)"

definition rename_stream_prefix :: "string \<Rightarrow> string \<Rightarrow> 't log_db \<Rightarrow> store_error + (nat \<times> 't log_db)" where
  "rename_stream_prefix old new db =
     (let moved = remdups (map lr_stream (filter (\<lambda>r. starts_with (lr_stream r) old) (db_rows db)));
          rows = map (\<lambda>r. r\<lparr>lr_stream := renamed old new (lr_stream r)\<rparr>) (db_rows db)
      in if distinct (map (\<lambda>r. (lr_stream r, lr_revision r)) rows) then Inr (length moved, db\<lparr>db_rows := rows\<rparr>)
         else Inl unique_failed)"

section \<open>Subscriptions\<close>

text \<open>The polling thread: each turn polls past the watermark and delivers what the poll answered.\<close>

record watermark =
  wm_position :: position
  wm_revision :: revision

definition poll_all :: "'t meta_text \<Rightarrow> 't log_db \<Rightarrow> string \<Rightarrow> watermark \<Rightarrow> event list" where
  "poll_all mt db like wm = map (row_to_event mt) (global_rows db (wm_position wm) like)"

definition poll_stream :: "'t meta_text \<Rightarrow> 't log_db \<Rightarrow> string \<Rightarrow> watermark \<Rightarrow> event list" where
  "poll_stream mt db stream wm = read_forward mt db stream (wm_revision wm + 1)"

definition advance :: "event \<Rightarrow> watermark" where
  "advance e = \<lparr>wm_position = ev_position e, wm_revision = ev_revision e\<rparr>"

definition subscribe_all_start :: "position \<Rightarrow> watermark" where
  "subscribe_all_start from = \<lparr>wm_position = from, wm_revision = NO_STREAM\<rparr>"

definition subscribe_stream_start :: "revision \<Rightarrow> watermark" where
  "subscribe_stream_start from = \<lparr>wm_position = 0, wm_revision = from - 1\<rparr>"

section \<open>Well-formed logs\<close>

text \<open>What a store keeps of an event it is handed, and the stamps it adds.\<close>

definition stored :: "'t meta_text \<Rightarrow> event \<Rightarrow> event" where
  "stored mt e = e\<lparr>ev_meta := parse_meta mt (meta_json mt (ev_meta e)), valid_from := from_nanos (to_nanos (valid_from e))\<rparr>"

fun stamped :: "sys_time \<Rightarrow> string \<Rightarrow> position \<Rightarrow> revision \<Rightarrow> event list \<Rightarrow> event list" where
  "stamped now stream p rv [] = []"
| "stamped now stream p rv (e # es) =
     e\<lparr>ev_stream := stream, recorded_at := from_nanos (to_nanos now), ev_position := p, ev_revision := rv\<rparr>
       # stamped now stream (p + 1) (rv + 1) es"

definition stream_log :: "'t meta_text \<Rightarrow> 't log_db \<Rightarrow> string \<Rightarrow> event list" where
  "stream_log mt db stream = map (row_to_event mt) (stream_rows db stream)"

definition log_before :: "event \<Rightarrow> event \<Rightarrow> bool" where
  "log_before a b \<longleftrightarrow> ev_position a < ev_position b \<and> ev_revision a < ev_revision b"

definition head_revision :: "event list \<Rightarrow> revision" where
  "head_revision es = (if es = [] then NO_STREAM else ev_revision (last es))"

text \<open>The order of the rows' positions, which AUTOINCREMENT keeps whatever writes the table, and the
  order of one stream's revisions and their bound by the positions, which hold as long as every
  write went through \<open>append\<close>.\<close>

definition db_ok :: "'t log_db \<Rightarrow> bool" where
  "db_ok db \<longleftrightarrow> sorted_wrt (\<lambda>a b. lr_position a < lr_position b) (db_rows db) \<and>
     (\<forall>r \<in> set (db_rows db). 0 < lr_position r \<and> lr_position r \<le> unwrap_or 0 (db_seq db)) \<and>
     unwrap_or 0 (db_seq db) < 2 ^ 63"

definition in_order :: "'t log_db \<Rightarrow> bool" where
  "in_order db \<longleftrightarrow> (\<forall>s. sorted_wrt (\<lambda>a b. lr_revision a < lr_revision b) (stream_rows db s)) \<and>
     (\<forall>r \<in> set (db_rows db). 0 \<le> lr_revision r \<and> lr_revision r < int (lr_position r))"

definition log_ok :: "'t log_db \<Rightarrow> bool" where
  "log_ok db \<longleftrightarrow> db_ok db \<and> in_order db"

fun placed_rows :: "'t meta_text \<Rightarrow> int \<Rightarrow> string \<Rightarrow> position \<Rightarrow> revision \<Rightarrow> event list \<Rightarrow> 't log_row list" where
  "placed_rows mt now stream p rv [] = []"
| "placed_rows mt now stream p rv (e # es) =
     (event_row mt now stream rv e)\<lparr>lr_position := p\<rparr> # placed_rows mt now stream (p + 1) (rv + 1) es"

lemma log_ok_empty [simp]: "log_ok empty_db"
  by (simp add: log_ok_def db_ok_def in_order_def empty_db_def)

lemma row_to_event_sel [simp]:
  "ev_stream (row_to_event mt r) = lr_stream r" "ev_type (row_to_event mt r) = lr_type r"
  "ev_position (row_to_event mt r) = lr_position r" "ev_revision (row_to_event mt r) = lr_revision r"
  by (simp_all add: row_to_event_def)

lemma event_row_sel [simp]:
  "lr_stream (event_row mt now s rv e) = s" "lr_type (event_row mt now s rv e) = ev_type e"
  "lr_revision (event_row mt now s rv e) = rv"
  by (simp_all add: event_row_def)

lemma placed_rows_mem:
  "r \<in> set (placed_rows mt now s p rv es) \<Longrightarrow>
     lr_stream r = s \<and> p \<le> lr_position r \<and> lr_position r < p + length es \<and> rv \<le> lr_revision r"
  by (induction es arbitrary: p rv) (fastforce simp: event_row_def)+

lemma placed_rows_pace:
  "r \<in> set (placed_rows mt now s p rv es) \<Longrightarrow>
     rv \<le> lr_revision r \<and> lr_revision r - rv = int (lr_position r) - int p"
  by (induction es arbitrary: p rv) fastforce+

lemma placed_rows_sorted:
  "sorted_wrt (\<lambda>a b. lr_position a < lr_position b) (placed_rows mt now s p rv es)"
  "sorted_wrt (\<lambda>a b. lr_revision a < lr_revision b) (placed_rows mt now s p rv es)"
  by (induction es arbitrary: p rv) (auto dest: placed_rows_mem)

lemma placed_rows_events: "map (row_to_event mt) (placed_rows mt (to_nanos now) s p rv es) = stamped now s p rv (map (stored mt) es)"
  by (induction es arbitrary: p rv) (auto simp: row_to_event_def event_row_def stored_def)

lemma length_stamped [simp]: "length (stamped now s p rv es) = length es"
  by (induction es arbitrary: p rv) auto

lemma stamped_eq_Nil [simp]: "stamped now s p rv es = [] \<longleftrightarrow> es = []"
  by (cases es) auto

lemma head_revision_stamped: "es \<noteq> [] \<Longrightarrow> head_revision (xs @ stamped now s p rv es) = rv + int (length es) - 1"
proof (induction es arbitrary: p rv xs)
  case (Cons e es)
  show ?case
  proof (cases "es = []")
    case False
    then show ?thesis using Cons.IH [OF False, of "xs @ [e\<lparr>ev_stream := s, recorded_at := from_nanos (to_nanos now), ev_position := p, ev_revision := rv\<rparr>]" "p + 1" "rv + 1"] by simp
  qed (simp add: head_revision_def)
qed simp

text \<open>Inserting a batch above every revision the stream holds never meets the unique index, as long
  as the batch ends before the revisions or the positions do.\<close>

lemma insert_events_eq:
  assumes "\<forall>r \<in> set (stream_rows db s). lr_revision r < rv"
    and "rv + int (length es) \<le> 2 ^ 63 \<or> rv \<le> int (unwrap_or 0 (db_seq db))"
  shows "insert_events mt now s rv es db =
     (if es = [] then Inr ([], db)
      else if 2 ^ 63 \<le> unwrap_or 0 (db_seq db) + length es then Inl table_full
      else Inr (map Some [unwrap_or 0 (db_seq db) + 1 ..< unwrap_or 0 (db_seq db) + 1 + length es],
             \<lparr>db_rows = db_rows db @ placed_rows mt now s (unwrap_or 0 (db_seq db) + 1) rv es,
              db_seq = Some (unwrap_or 0 (db_seq db) + length es)\<rparr>))"
  using assms
proof (induction es arbitrary: rv db)
  case (Cons e es)
  let ?q = "unwrap_or 0 (db_seq db)"
  let ?r = "event_row mt now s rv e"
  let ?db = "\<lparr>db_rows = db_rows db @ [?r\<lparr>lr_position := ?q + 1\<rparr>], db_seq = Some (?q + 1)\<rparr>"
  have new: "\<not> list_ex (\<lambda>r'. lr_stream r' = s \<and> lr_revision r' = rv) (db_rows db)"
    using Cons.prems by (auto simp: list_ex_iff)
  have ins: "insert_row ?r db = (if 2 ^ 63 \<le> ?q + 1 then Inl table_full else Inr (?q + 1, ?db))"
    using new by (simp add: insert_row_def Let_def)
  have "\<forall>r \<in> set (stream_rows ?db s). lr_revision r < rv + 1" using Cons.prems by auto
  moreover have "rv + 1 + int (length es) \<le> 2 ^ 63 \<or> rv + 1 \<le> int (unwrap_or 0 (db_seq ?db))" using Cons.prems(2) by auto
  ultimately have IH: "insert_events mt now s (rv + 1) es ?db =
     (if es = [] then Inr ([], ?db)
      else if 2 ^ 63 \<le> unwrap_or 0 (db_seq ?db) + length es then Inl table_full
      else Inr (map Some [unwrap_or 0 (db_seq ?db) + 1 ..< unwrap_or 0 (db_seq ?db) + 1 + length es],
             \<lparr>db_rows = db_rows ?db @ placed_rows mt now s (unwrap_or 0 (db_seq ?db) + 1) (rv + 1) es,
              db_seq = Some (unwrap_or 0 (db_seq ?db) + length es)\<rparr>))"
    by (rule Cons.IH)
  have step: "insert_events mt now s (i64_next rv) es ?db = insert_events mt now s (rv + 1) es ?db" if "\<not> 2 ^ 63 \<le> ?q + 1"
    using Cons.prems(2) that by (cases "es = []") (auto simp: i64_next_def)
  show ?case
  proof (cases "2 ^ 63 \<le> ?q + 1")
    case True
    then show ?thesis by (simp add: ins)
  next
    case False
    then show ?thesis using IH step [OF False] by (cases "es = []") (simp_all add: ins upt_conv_Cons del: upt_Suc)
  qed
qed simp

section \<open>What an append does\<close>

lemma foldl_max_start: "x \<le> foldl max x xs" for x :: "'a::linorder"
proof (induction xs arbitrary: x)
  case (Cons a xs)
  show ?case using Cons [of "max x a"] by simp
qed simp

lemma foldl_max_ge: "y \<in> insert x (set xs) \<Longrightarrow> y \<le> foldl max x xs" for x :: "'a::linorder"
proof (induction xs arbitrary: x)
  case (Cons a xs)
  show ?case using Cons.prems Cons.IH [of "max x a"] foldl_max_start [of "max x a" xs] by auto
qed simp

lemma foldl_max_mem: "foldl max x xs \<in> insert x (set xs)" for x :: "'a::linorder"
proof (induction xs arbitrary: x)
  case (Cons a xs)
  show ?case using Cons [of "max x a"] by (auto simp: max_def split: if_splits)
qed simp

lemma recorded_max_Nil: "stream_rows db s = [] \<Longrightarrow> recorded_max db s = NO_STREAM"
  by (simp add: recorded_max_def)

lemma recorded_max_spec:
  assumes "stream_rows db s \<noteq> []"
  shows "recorded_max db s \<in> lr_revision ` set (stream_rows db s)"
    and "r \<in> set (stream_rows db s) \<Longrightarrow> lr_revision r \<le> recorded_max db s"
proof -
  obtain x xs where x: "map lr_revision (stream_rows db s) = x # xs" using assms by (cases "stream_rows db s") auto
  then have "set (map lr_revision (stream_rows db s)) = insert x (set xs)" by (simp only: list.set)
  moreover have "recorded_max db s = foldl max x xs" unfolding recorded_max_def x by simp
  ultimately show "recorded_max db s \<in> lr_revision ` set (stream_rows db s)"
    and "r \<in> set (stream_rows db s) \<Longrightarrow> lr_revision r \<le> recorded_max db s"
    using foldl_max_mem [of x xs] foldl_max_ge [of _ x xs] by (auto simp del: filter_is_subset) 
qed

lemma recorded_max_ge: "r \<in> set (stream_rows db s) \<Longrightarrow> lr_revision r \<le> recorded_max db s"
  by (cases "stream_rows db s = []") (simp_all only: recorded_max_spec(2) list.set empty_iff not_False_eq_True)

lemma newest_revision_head: "newest_revision db s = head_revision (stream_log mt db s)"
proof -
  have "find_last (\<lambda>r. lr_stream r = s) xs = (case filter (\<lambda>r. lr_stream r = s) xs of [] \<Rightarrow> None | _ \<Rightarrow> Some (last (filter (\<lambda>r. lr_stream r = s) xs)))"
    for xs :: "'a log_row list"
    by (induction xs rule: rev_induct) (auto split: list.splits)
  then show ?thesis
    by (auto simp: newest_revision_def head_revision_def stream_log_def last_map split: list.splits)
qed

lemma newest_revision_Nil: "stream_rows db s = [] \<Longrightarrow> newest_revision db s = NO_STREAM"
  by (simp add: newest_revision_head [of _ _ undefined] stream_log_def head_revision_def)

text \<open>Past the two checks, the rows of the stream lie below the revisions the batch is given.\<close>

lemma append_checks:
  "append mt now s x es db =
     (case find (\<lambda>e. class_of (ev_type e) = Derived) es of
        Some d \<Rightarrow> Inl (DerivedAppend (ev_type d))
      | None \<Rightarrow>
          if \<not> admits x (newest_revision db s) then Inl (Conflict s x (newest_revision db s))
          else if newest_revision db s < recorded_max db s then
            Inl (OutOfOrder s (i64_next (newest_revision db s)) (recorded_max db s))
          else insert_events mt (to_nanos now) s (i64_next (newest_revision db s)) es db)"
  by (simp add: append_def refuse_derived_def Let_def split: option.split)

lemma insert_above:
  assumes "\<not> newest_revision db s < recorded_max db s"
    and "newest_revision db s + int (length es) < 2 ^ 63 \<or> newest_revision db s < int (unwrap_or 0 (db_seq db)) \<or> es = []"
    and "unwrap_or 0 (db_seq db) < 2 ^ 63"
  shows "insert_events mt now s (i64_next (newest_revision db s)) es db =
     (if es = [] then Inr ([], db)
      else if 2 ^ 63 \<le> unwrap_or 0 (db_seq db) + length es then Inl table_full
      else Inr (map Some [unwrap_or 0 (db_seq db) + 1 ..< unwrap_or 0 (db_seq db) + 1 + length es],
             \<lparr>db_rows = db_rows db @ placed_rows mt now s (unwrap_or 0 (db_seq db) + 1) (newest_revision db s + 1) es,
              db_seq = Some (unwrap_or 0 (db_seq db) + length es)\<rparr>))"
proof (cases "es = []")
  case False
  then have "0 < length es" by simp
  then have "newest_revision db s \<noteq> 2 ^ 63 - 1" using assms(2,3) False by auto
  then have "i64_next (newest_revision db s) = newest_revision db s + 1" by (simp add: i64_next_def)
  moreover have "\<forall>r \<in> set (stream_rows db s). lr_revision r < newest_revision db s + 1"
    using assms(1) recorded_max_ge [of _ s db] by fastforce
  moreover have "newest_revision db s + 1 + int (length es) \<le> 2 ^ 63 \<or> newest_revision db s + 1 \<le> int (unwrap_or 0 (db_seq db))"
    using assms(2) False by auto
  ultimately show ?thesis by (simp only: insert_events_eq)
qed simp

lemma no_unique_failed:
  assumes "\<forall>r \<in> set (stream_rows db s). lr_revision r < rv" "rv + int (length es) \<le> 2 ^ 63"
  shows "insert_events mt now s rv es db \<noteq> Inl unique_failed"
  using insert_events_eq [OF assms(1) disjI1 [OF assms(2)], of mt now] by (simp del: upt_Suc)

text \<open>
  C19. An append answers out-of-order exactly when no event of the batch is derived, the expectation
  admits the newest row's revision and some row of the stream records a higher one, whatever wrote
  the rows the table holds; and it never meets the table's unique index, as long as the batch ends
  before the revisions' 64-bit range does.
\<close>

theorem append_refuses_disorder:
  "((\<exists>a r. append mt now s x es db = Inl (OutOfOrder s a r)) \<longleftrightarrow>
      \<not> list_ex (\<lambda>e. class_of (ev_type e) = Derived) es \<and> admits x (newest_revision db s) \<and>
      list_ex (\<lambda>r. lr_stream r = s \<and> newest_revision db s < lr_revision r) (db_rows db)) \<and>
   (newest_revision db s + int (length es) < 2 ^ 63 \<longrightarrow> append mt now s x es db \<noteq> Inl unique_failed)"
proof -
  have hi: "newest_revision db s < recorded_max db s \<longleftrightarrow> list_ex (\<lambda>r. lr_stream r = s \<and> newest_revision db s < lr_revision r) (db_rows db)"
  proof
    assume l: "newest_revision db s < recorded_max db s"
    then have "stream_rows db s \<noteq> []" using recorded_max_Nil [of s db] newest_revision_Nil [of s db] by auto
    then show "list_ex (\<lambda>r. lr_stream r = s \<and> newest_revision db s < lr_revision r) (db_rows db)"
      using recorded_max_spec(1) [of s db] l by (auto simp: list_ex_iff)
  next
    assume "list_ex (\<lambda>r. lr_stream r = s \<and> newest_revision db s < lr_revision r) (db_rows db)"
    then show "newest_revision db s < recorded_max db s"
      using recorded_max_ge [of _ s db] by (fastforce simp: list_ex_iff)
  qed
  have fd: "(case find (\<lambda>e. class_of (ev_type e) = Derived) es of Some d \<Rightarrow> f d | None \<Rightarrow> z) =
      (if list_ex (\<lambda>e. class_of (ev_type e) = Derived) es
       then f (the (find (\<lambda>e. class_of (ev_type e) = Derived) es)) else z)" for f and z :: 'z
    by (induction es) auto
  have faults: "insert_events mt (to_nanos now) s rv es db = Inl err \<Longrightarrow> \<exists>m. err = Backend m" for rv err
    by (induction es arbitrary: rv db) (auto simp: insert_row_def Let_def bind_res_def split: if_splits sum.splits)
  have no_wrap: "insert_events mt (to_nanos now) s (i64_next (newest_revision db s)) es db \<noteq> Inl unique_failed"
    if b: "newest_revision db s + int (length es) < 2 ^ 63" and h: "\<not> newest_revision db s < recorded_max db s"
  proof (cases "es = []")
    case False
    then have "0 < length es" by simp
    then have nx: "i64_next (newest_revision db s) = newest_revision db s + 1" using b by (auto simp: i64_next_def)
    have "\<forall>r \<in> set (stream_rows db s). lr_revision r < newest_revision db s + 1"
      using h recorded_max_ge [of _ s db] by fastforce
    then show ?thesis unfolding nx by (rule no_unique_failed) (use b in simp)
  qed simp
  have ooo: "insert_events mt (to_nanos now) s rv es db \<noteq> Inl (OutOfOrder s a r)" for rv a r
    using faults by fastforce
  show ?thesis
  proof (intro conjI impI)
    show "(\<exists>a r. append mt now s x es db = Inl (OutOfOrder s a r)) \<longleftrightarrow>
      \<not> list_ex (\<lambda>e. class_of (ev_type e) = Derived) es \<and> admits x (newest_revision db s) \<and>
      list_ex (\<lambda>r. lr_stream r = s \<and> newest_revision db s < lr_revision r) (db_rows db)"
      unfolding append_checks fd hi by (simp add: ooo)
    show "append mt now s x es db \<noteq> Inl unique_failed" if "newest_revision db s + int (length es) < 2 ^ 63"
      unfolding append_checks fd using no_wrap [OF that] by simp
  qed
qed

theorem append_refuses_disorder_witness:
  "let mt = \<lparr>mt_write = Inr, mt_braces = [], mt_read = Inr, mt_group = (\<lambda>m. bt_get m META_GROUP)\<rparr>;
       e = event_new (''i'', 5) TYPE_UNIT_STARTED ''{}'';
       db = \<lparr>db_rows = [(event_row mt 9 ''run'' 7 e)\<lparr>lr_position := 1\<rparr>, (event_row mt 9 ''run'' 3 e)\<lparr>lr_position := 2\<rparr>],
             db_seq = Some 2\<rparr>
   in newest_revision db ''run'' = 3 \<and>
      (\<exists>a r. append mt 9 ''run'' (Exact 3) [e] db = Inl (OutOfOrder ''run'' a r)) \<and>
      append mt 9 ''run'' (Exact 3) [e] db \<noteq> Inl unique_failed"
proof -
  let ?mt = "\<lparr>mt_write = Inr, mt_braces = [], mt_read = Inr, mt_group = (\<lambda>m. bt_get m META_GROUP)\<rparr> :: (string, string) btree meta_text"
  let ?e = "event_new (''i'', 5) TYPE_UNIT_STARTED ''{}''"
  let ?db = "\<lparr>db_rows = [(event_row ?mt 9 ''run'' 7 ?e)\<lparr>lr_position := 1\<rparr>, (event_row ?mt 9 ''run'' 3 ?e)\<lparr>lr_position := 2\<rparr>],
             db_seq = Some 2\<rparr>"
  have "newest_revision ?db ''run'' = 3" by (simp add: newest_revision_def event_row_def find_last_def)
  moreover have "\<not> list_ex (\<lambda>e. class_of (ev_type e) = Derived) [?e]"
    by (simp add: class_of_def is_derived_index_type_def DERIVED_INDEX_TYPES_def event_new_def)
  ultimately show ?thesis
    using append_refuses_disorder [where mt = ?mt and now = 9 and s = "''run''" and x = "Exact 3" and es = "[?e]" and db = ?db]
    by (simp add: Let_def admits_def event_row_def)
qed

text \<open>Past the end of the revisions' range the successor wraps and may meet a row the stream holds.\<close>

lemma append_wraps:
  "let mt = \<lparr>mt_write = Inr, mt_braces = [], mt_read = Inr, mt_group = (\<lambda>m. bt_get m META_GROUP)\<rparr>;
       e = event_new (''i'', 5) TYPE_UNIT_STARTED ''{}'';
       db = \<lparr>db_rows = [(event_row mt 9 ''run'' (- (2 ^ 63)) e)\<lparr>lr_position := 1\<rparr>,
                        (event_row mt 9 ''run'' (2 ^ 63 - 1) e)\<lparr>lr_position := 2\<rparr>],
             db_seq = Some 2\<rparr>
   in append mt 9 ''run'' AnyRevision [e] db = Inl unique_failed"
  by (simp add: append_checks newest_revision_def find_last_def recorded_max_def admits_def i64_next_def insert_row_def event_row_def
      class_of_def is_derived_index_type_def DERIVED_INDEX_TYPES_def event_new_def)

section \<open>Appending to a well-formed log\<close>

lemma log_ok_max: "log_ok db \<Longrightarrow> recorded_max db s = newest_revision db s"
proof (cases "stream_rows db s = []")
  case False
  assume ok: "log_ok db"
  then have so: "sorted_wrt (\<lambda>a b. lr_revision a < lr_revision b) (stream_rows db s)" by (simp add: log_ok_def in_order_def)
  have nw: "newest_revision db s = lr_revision (last (stream_rows db s))"
    using False by (simp add: newest_revision_head [of _ _ undefined] stream_log_def head_revision_def last_map)
  obtain ys y where ys: "stream_rows db s = ys @ [y]" using False by (cases "stream_rows db s" rule: rev_cases) auto
  have "recorded_max db s \<in> lr_revision ` set (ys @ [y])" "lr_revision y \<le> recorded_max db s"
    using recorded_max_spec [OF False] by (simp_all only: ys set_append list.set Un_insert_right insertI1)
  then show ?thesis using so by (auto simp: ys nw sorted_wrt_append)
qed (simp add: recorded_max_Nil newest_revision_Nil)

lemma newest_bounds: "log_ok db \<Longrightarrow> r \<in> set (db_rows db) \<Longrightarrow> lr_stream r = s \<Longrightarrow> lr_revision r \<le> newest_revision db s"
  using recorded_max_ge [of r s db] log_ok_max [of db s] by simp

lemma newest_ge: "log_ok db \<Longrightarrow> NO_STREAM \<le> newest_revision db s"
  by (cases "find_last (\<lambda>r. lr_stream r = s) (db_rows db)")
     (auto simp: newest_revision_def log_ok_def in_order_def dest!: find_last_SomeD)

lemma newest_below: "log_ok db \<Longrightarrow> newest_revision db s < int (unwrap_or 0 (db_seq db))"
proof (cases "find_last (\<lambda>r. lr_stream r = s) (db_rows db)")
  case (Some r)
  assume "log_ok db"
  then have "lr_revision r < int (lr_position r)" "lr_position r \<le> unwrap_or 0 (db_seq db)"
    using find_last_SomeD [OF Some] by (auto simp: log_ok_def in_order_def db_ok_def)
  then show ?thesis using Some by (simp add: newest_revision_def)
qed (simp add: newest_revision_def)

lemma filter_all: "(\<And>x. x \<in> set xs \<Longrightarrow> P x) \<Longrightarrow> filter P xs = xs"
  by (simp add: filter_id_conv)

lemma filter_none: "(\<And>x. x \<in> set xs \<Longrightarrow> \<not> P x) \<Longrightarrow> filter P xs = []"
  by (simp add: filter_empty_conv)

lemma insert_batch_log:
  fixes db :: "'t log_db"
  assumes ok: "log_ok db" and small: "unwrap_or 0 (db_seq db) + length es < 2 ^ 63"
    and db': "db' = \<lparr>db_rows = db_rows db @ placed_rows mt (to_nanos now) s (unwrap_or 0 (db_seq db) + 1) (newest_revision db s + 1) es,
              db_seq = Some (unwrap_or 0 (db_seq db) + length es)\<rparr>"
  shows "log_ok db'"
    and "stream_log mt db' s = stream_log mt db s @ stamped now s (unwrap_or 0 (db_seq db) + 1) (newest_revision db s + 1) (map (stored mt) es)"
    and "s' \<noteq> s \<Longrightarrow> stream_log mt db' s' = stream_log mt db s'"
proof -
  let ?q = "unwrap_or 0 (db_seq db)" and ?rv = "newest_revision db s + 1"
  let ?new = "placed_rows mt (to_nanos now) s (?q + 1) ?rv es"
  note m = placed_rows_mem [of _ mt "to_nanos now" s "?q + 1" ?rv es]
  have b: "r \<in> set ?new \<Longrightarrow> ?rv \<le> lr_revision r \<and> lr_revision r - ?rv = int (lr_position r) - int (?q + 1)" for r
    by (rule placed_rows_pace)
  have same: "filter (\<lambda>r. lr_stream r = s) ?new = ?new" by (rule filter_all) (simp add: m)
  have other: "filter (\<lambda>r. lr_stream r = t) ?new = []" if "t \<noteq> s" for t by (rule filter_none) (use that m in auto)
  have rows: "stream_rows db' s = stream_rows db s @ ?new" unfolding db' log_db.simps filter_append same ..
  have rows_other: "stream_rows db' t = stream_rows db t" if "t \<noteq> s" for t
    unfolding db' log_db.simps filter_append other [OF that] by simp
  have "db_ok db'"
    using ok small m unfolding log_ok_def db_ok_def db'
    by (fastforce simp: sorted_wrt_append placed_rows_sorted)
  moreover have "in_order db'"
  proof -
    have "sorted_wrt (\<lambda>a b. lr_revision a < lr_revision b) (stream_rows db' t)" for t
    proof (cases "t = s")
      case True
      have "lr_revision a < lr_revision b" if "a \<in> set (stream_rows db s)" "b \<in> set ?new" for a b
        using newest_bounds [OF ok, of a s] m [OF that(2)] that(1) by simp
      then show ?thesis using ok by (simp add: True rows sorted_wrt_append placed_rows_sorted log_ok_def in_order_def)
    next
      case False
      then show ?thesis using ok by (simp add: rows_other log_ok_def in_order_def)
    qed
    moreover have "0 \<le> lr_revision r \<and> lr_revision r < int (lr_position r)" if "r \<in> set (db_rows db')" for r
      using that ok b [of r] newest_ge [OF ok, of s] newest_below [OF ok, of s] by (auto simp: db' log_ok_def in_order_def)
    ultimately show ?thesis by (simp add: in_order_def)
  qed
  ultimately show "log_ok db'" by (simp add: log_ok_def)
  show "stream_log mt db' s = stream_log mt db s @ stamped now s (?q + 1) ?rv (map (stored mt) es)"
    unfolding stream_log_def rows by (simp add: placed_rows_events)
  show "s' \<noteq> s \<Longrightarrow> stream_log mt db' s' = stream_log mt db s'"
    by (simp add: stream_log_def rows_other)
qed

lemma stream_log_sorted: "log_ok db \<Longrightarrow> sorted_wrt log_before (stream_log mt db s)"
proof -
  assume ok: "log_ok db"
  then have "sorted_wrt (\<lambda>a b. lr_position a < lr_position b) (stream_rows db s)"
    and "sorted_wrt (\<lambda>a b. lr_revision a < lr_revision b) (stream_rows db s)"
    by (simp_all add: log_ok_def db_ok_def in_order_def sorted_wrt_filter)
  then show ?thesis unfolding stream_log_def sorted_wrt_map log_before_def
    by (simp add: sorted_wrt_iff_nth_less)
qed

text \<open>The whole contract of an append over a well-formed log, every branch.\<close>

lemma append_log_ok:
  assumes "log_ok db"
  shows "append mt now s x es db =
      (case find (\<lambda>e. class_of (ev_type e) = Derived) es of
        Some d \<Rightarrow> Inl (DerivedAppend (ev_type d))
      | None \<Rightarrow>
          if \<not> admits x (head_revision (stream_log mt db s)) then Inl (Conflict s x (head_revision (stream_log mt db s)))
          else if es = [] then Inr ([], db)
          else if 2 ^ 63 \<le> unwrap_or 0 (db_seq db) + length es then Inl table_full
          else Inr (map Some [unwrap_or 0 (db_seq db) + 1 ..< unwrap_or 0 (db_seq db) + 1 + length es],
             \<lparr>db_rows = db_rows db @ placed_rows mt (to_nanos now) s (unwrap_or 0 (db_seq db) + 1) (newest_revision db s + 1) es,
              db_seq = Some (unwrap_or 0 (db_seq db) + length es)\<rparr>))"
proof -
  have ins: "insert_events mt (to_nanos now) s (i64_next (newest_revision db s)) es db =
     (if es = [] then Inr ([], db)
      else if 2 ^ 63 \<le> unwrap_or 0 (db_seq db) + length es then Inl table_full
      else Inr (map Some [unwrap_or 0 (db_seq db) + 1 ..< unwrap_or 0 (db_seq db) + 1 + length es],
             \<lparr>db_rows = db_rows db @ placed_rows mt (to_nanos now) s (unwrap_or 0 (db_seq db) + 1) (newest_revision db s + 1) es,
              db_seq = Some (unwrap_or 0 (db_seq db) + length es)\<rparr>))"
    by (rule insert_above) (use assms newest_below [OF assms, of s] in \<open>simp_all add: log_ok_max log_ok_def db_ok_def\<close>)
  show ?thesis unfolding append_checks ins
    by (simp add: log_ok_max [OF assms] newest_revision_head [of db s mt] del: upt_Suc split: option.split)
qed

definition next_position :: "'t log_db \<Rightarrow> position" where
  "next_position db = unwrap_or 0 (db_seq db) + 1"

lemma append_effect:
  assumes ok: "log_ok db"
  shows "case append mt now s x es db of
      Inl err \<Rightarrow>
        (case find (\<lambda>e. class_of (ev_type e) = Derived) es of
           Some d \<Rightarrow> err = DerivedAppend (ev_type d)
         | None \<Rightarrow> if admits x (head_revision (stream_log mt db s))
             then err = table_full \<and> 2 ^ 63 < next_position db + length es
             else err = Conflict s x (head_revision (stream_log mt db s)))
    | Inr (report, db') \<Rightarrow>
        list_all (\<lambda>e. class_of (ev_type e) = Kept) es \<and> admits x (head_revision (stream_log mt db s)) \<and> log_ok db' \<and>
        report = map Some [next_position db ..< next_position db + length es] \<and>
        stream_log mt db' s =
          stream_log mt db s @ stamped now s (next_position db) (head_revision (stream_log mt db s) + 1) (map (stored mt) es) \<and>
        (\<forall>s'. s' = s \<or> stream_log mt db' s' = stream_log mt db s')"
proof -
  have kept: "find (\<lambda>e. class_of (ev_type e) = Derived) es = None \<Longrightarrow> list_all (\<lambda>e. class_of (ev_type e) = Kept) es"
    by (auto simp: find_None_iff list_all_iff class_of_def)
  let ?db' = "\<lparr>db_rows = db_rows db @ placed_rows mt (to_nanos now) s (unwrap_or 0 (db_seq db) + 1) (newest_revision db s + 1) es,
              db_seq = Some (unwrap_or 0 (db_seq db) + length es)\<rparr>"
  have b: "log_ok ?db' \<and> (\<forall>s'. s' = s \<or> stream_log mt ?db' s' = stream_log mt db s') \<and>
      stream_log mt ?db' s = stream_log mt db s @
        stamped now s (unwrap_or 0 (db_seq db) + 1) (head_revision (stream_log mt db s) + 1) (map (stored mt) es)"
    if "unwrap_or 0 (db_seq db) + length es < 2 ^ 63"
    using insert_batch_log [OF ok that refl, where mt = mt and now = now and s = s] by (auto simp: newest_revision_head [of db s mt])
  show ?thesis
  proof (cases "find (\<lambda>e. class_of (ev_type e) = Derived) es")
    case None
    show ?thesis
    proof (cases "admits x (head_revision (stream_log mt db s)) \<and> es \<noteq> [] \<and> unwrap_or 0 (db_seq db) + length es < 2 ^ 63")
      case True
      then show ?thesis unfolding append_log_ok [OF ok] using None kept [OF None] b
        by (simp add: next_position_def del: upt_Suc)
    next
      case False
      then show ?thesis unfolding append_log_ok [OF ok] using None kept [OF None] ok
        by (auto simp: next_position_def simp del: upt_Suc)
    qed
  next
    case (Some d)
    then show ?thesis unfolding append_log_ok [OF ok] by simp
  qed
qed

text \<open>
  C1. On a well-formed log an append refuses a batch with a derived event naming the first such
  type, then a failed expectation with the stream's actual last revision, and otherwise writes the
  whole batch: the stream grows by exactly the events handed over, at consecutive revisions past
  its last one and at the positions the report names, every other stream is unchanged, and the log
  stays well-formed; only the end of the 63-bit positions fails it past the checks.
\<close>

theorem append_exact:
  assumes ok: "log_ok db"
  shows "case append mt now s x es db of
      Inl err \<Rightarrow>
        (case find (\<lambda>e. class_of (ev_type e) = Derived) es of
           Some d \<Rightarrow> err = DerivedAppend (ev_type d)
         | None \<Rightarrow> if admits x (head_revision (stream_log mt db s))
             then err = table_full \<and> 2 ^ 63 < next_position db + length es
             else err = Conflict s x (head_revision (stream_log mt db s)))
    | Inr (report, db') \<Rightarrow>
        list_all (\<lambda>e. class_of (ev_type e) = Kept) es \<and> admits x (head_revision (stream_log mt db s)) \<and> log_ok db' \<and>
        report = map Some [next_position db ..< next_position db + length es] \<and>
        stream_log mt db' s =
          stream_log mt db s @ stamped now s (next_position db) (head_revision (stream_log mt db s) + 1) (map (stored mt) es) \<and>
        (\<forall>s'. s' = s \<or> stream_log mt db' s' = stream_log mt db s')"
  using ok by (rule append_effect)

lemma empty_db_simps [simp]: "stream_log mt empty_db s = []" "next_position empty_db = 1"
  by (simp_all add: stream_log_def empty_db_def next_position_def)

theorem append_exact_witness:
  "let mt = \<lparr>mt_write = Inr, mt_braces = [], mt_read = Inr, mt_group = (\<lambda>m. bt_get m META_GROUP)\<rparr>;
       e = event_new (''i'', 5) TYPE_UNIT_STARTED ''{}''
   in case append mt 9 ''run'' NoStream [e, e] empty_db of
        Inl _ \<Rightarrow> False
      | Inr (report, db') \<Rightarrow> report = [Some 1, Some 2] \<and> map ev_revision (stream_log mt db' ''run'') = [0, 1] \<and> log_ok db'"
proof -
  let ?mt = "\<lparr>mt_write = Inr, mt_braces = [], mt_read = Inr, mt_group = (\<lambda>m. bt_get m META_GROUP)\<rparr> :: (string, string) btree meta_text"
  let ?e = "event_new (''i'', 5) TYPE_UNIT_STARTED ''{}''"
  have "append ?mt 9 ''run'' NoStream [?e, ?e] empty_db \<noteq> Inl err" for err
    by (simp add: append_def refuse_derived_def class_of_def is_derived_index_type_def DERIVED_INDEX_TYPES_def event_new_def
        newest_revision_def recorded_max_def empty_db_def admits_def insert_row_def event_row_def i64_next_def)
  then show ?thesis
    using append_exact [OF log_ok_empty, where mt = ?mt and now = 9 and s = "''run''" and x = NoStream and es = "[?e, ?e]"]
    by (auto simp: Let_def head_revision_def stored_def numeral_2_eq_2 upt_rec split: sum.splits prod.splits)
qed

section \<open>Reads of a well-formed log\<close>

lemma log_ok_revisions: "log_ok db \<Longrightarrow> e \<in> set (stream_log mt db s) \<Longrightarrow> 0 \<le> ev_revision e"
  by (auto simp: stream_log_def log_ok_def in_order_def)

lemma sort_key_sorted: "sorted (map f xs) \<Longrightarrow> sort_key f xs = xs"
  by (induction xs) (auto simp: insort_is_Cons)

lemma filter_stream_rows: "filter (\<lambda>r. lr_stream r = s \<and> P r) (db_rows db) = filter P (stream_rows db s)"
  by (simp add: conj_commute)

lemma sorted_stream_rows: "log_ok db \<Longrightarrow> sort_key lr_revision (filter P (stream_rows db s)) = filter P (stream_rows db s)"
proof (rule sort_key_sorted)
  assume "log_ok db"
  then have "sorted_wrt (\<lambda>a b. lr_revision a < lr_revision b) (stream_rows db s)" by (simp add: log_ok_def in_order_def)
  then have "sorted_wrt (\<lambda>a b. lr_revision a < lr_revision b) (filter P (stream_rows db s))" by (rule sorted_wrt_filter)
  then show "sorted (map lr_revision (filter P (stream_rows db s)))"
    unfolding sorted_map by (rule sorted_wrt_mono_rel [rotated]) auto
qed

lemma read_forward_log: "log_ok db \<Longrightarrow> read_forward mt db s from = filter (\<lambda>e. from \<le> ev_revision e) (stream_log mt db s)"
  by (simp only: read_forward_def filter_stream_rows sorted_stream_rows) (simp add: stream_log_def filter_map o_def)

lemma read_stream_log:
  "log_ok db \<Longrightarrow> read_stream mt db s from dir =
     (case dir of Forward \<Rightarrow> (\<lambda>es. es) | Backward \<Rightarrow> rev) (filter (\<lambda>e. from \<le> ev_revision e) (stream_log mt db s))"
  by (cases dir) (simp_all add: read_stream_def read_forward_log)

lemma find_last_map: "find_last P (map f xs) = map_option f (find_last (P \<circ> f) xs)"
  by (induction xs rule: rev_induct) auto

lemma find_last_filter_conj: "find_last (\<lambda>x. P x \<and> Q x) xs = find_last Q (filter P xs)"
  by (induction xs rule: rev_induct) auto

lemma last_position_log: "last_position db s ty = map_option ev_revision (find_last (\<lambda>e. ev_type e = ty) (stream_log mt db s))"
  unfolding last_position_def stream_log_def find_last_map
  by (simp add: find_last_filter_conj option.map_comp o_def)

text \<open>Along one stream the two orders agree, so a cut at a position is a cut at a revision.\<close>

lemma stream_rows_orders:
  assumes "log_ok db" "a \<in> set (stream_rows db s)" "b \<in> set (stream_rows db s)"
  shows "lr_position a \<le> lr_position b \<longleftrightarrow> lr_revision a \<le> lr_revision b"
proof -
  have p: "sorted_wrt (\<lambda>a b. lr_position a < lr_position b) (stream_rows db s)"
    and r: "sorted_wrt (\<lambda>a b. lr_revision a < lr_revision b) (stream_rows db s)"
    using assms(1) by (simp_all add: log_ok_def db_ok_def in_order_def sorted_wrt_filter)
  from assms(2,3) obtain i j where ij: "i < length (stream_rows db s)" "j < length (stream_rows db s)"
      "stream_rows db s ! i = a" "stream_rows db s ! j = b" by (metis in_set_conv_nth)
  show ?thesis
    using sorted_wrt_nth_less [OF p, of i j] sorted_wrt_nth_less [OF p, of j i]
      sorted_wrt_nth_less [OF r, of i j] sorted_wrt_nth_less [OF r, of j i] ij
    by (cases i j rule: linorder_cases) auto
qed

lemma read_stream_typed_log:
  assumes ok: "log_ok db"
  shows "read_stream_typed mt db s from sel =
     filter (\<lambda>e. from \<le> ev_revision e \<and> selects sel (ev_type e)) (stream_log mt db s)"
proof (cases "0 < from")
  case False
  then have "filter (\<lambda>r. lr_stream r = s \<and> 0 \<le> lr_position r \<and> selects sel (lr_type r)) (db_rows db) =
      filter (\<lambda>r. from \<le> lr_revision r \<and> selects sel (lr_type r)) (stream_rows db s)"
    unfolding filter_stream_rows by (intro filter_cong refl) (use ok in \<open>auto simp: log_ok_def in_order_def\<close>)
  then show ?thesis using False by (simp add: read_stream_typed_def stream_log_def filter_map o_def)
next
  case True
  let ?above = "filter (\<lambda>r. from \<le> lr_revision r) (stream_rows db s)"
  have start: "typed_read_start db s from = (case ?above of [] \<Rightarrow> None | r # _ \<Rightarrow> Some (lr_position r))"
    unfolding typed_read_start_def filter_stream_rows by (simp only: sorted_stream_rows [OF ok])
  show ?thesis
  proof (cases ?above)
    case Nil
    then have "\<forall>r \<in> set (stream_rows db s). \<not> from \<le> lr_revision r" by (simp only: filter_empty_conv)
    then have "filter (\<lambda>e. from \<le> ev_revision e \<and> selects sel (ev_type e)) (stream_log mt db s) = []"
      by (auto simp: stream_log_def filter_empty_conv)
    moreover have "read_stream_typed mt db s from sel = []"
      unfolding read_stream_typed_def start Nil using True by simp
    ultimately show ?thesis by simp
  next
    case (Cons r rs)
    have rin: "r \<in> set (stream_rows db s)" "from \<le> lr_revision r"
      using arg_cong [OF Cons, of set] by auto
    have low: "lr_revision r \<le> lr_revision a" if "a \<in> set (stream_rows db s)" "from \<le> lr_revision a" for a
    proof -
      have "sorted_wrt (\<lambda>a b. lr_revision a < lr_revision b) (r # rs)"
        unfolding Cons [symmetric] by (rule sorted_wrt_filter) (use ok in \<open>simp add: log_ok_def in_order_def\<close>)
      moreover have "a \<in> set (r # rs)" using that unfolding Cons [symmetric] by simp
      ultimately show ?thesis by auto
    qed
    have "filter (\<lambda>a. lr_stream a = s \<and> lr_position r \<le> lr_position a \<and> selects sel (lr_type a)) (db_rows db) =
        filter (\<lambda>a. from \<le> lr_revision a \<and> selects sel (lr_type a)) (stream_rows db s)"
      unfolding filter_stream_rows
      by (intro filter_cong refl) (use stream_rows_orders [OF ok rin(1)] low rin(2) in \<open>fastforce\<close>)
    then show ?thesis unfolding read_stream_typed_def start Cons using True
      by (simp add: stream_log_def filter_map o_def)
  qed
qed

section \<open>The port\<close>

text \<open>The trait object a use case reads and writes the log through, over the state \<open>'d\<close> of the log:
  the operations the modelled use cases call; \<open>event_source\<close> below adds the trait's other four, the
  two reads that hand batches to a sink with its state \<open>'s\<close> and the two subscriptions.\<close>

record 'd event_port =
  pt_append :: "sys_time \<Rightarrow> string \<Rightarrow> expected_revision \<Rightarrow> event list \<Rightarrow> 'd \<Rightarrow> store_error + (appended \<times> 'd)"
  pt_read_stream :: "'d \<Rightarrow> string \<Rightarrow> revision \<Rightarrow> direction \<Rightarrow> store_error + event list"
  pt_read_typed :: "'d \<Rightarrow> string \<Rightarrow> revision \<Rightarrow> type_selection \<Rightarrow> store_error + event list"
  pt_last_position :: "'d \<Rightarrow> string \<Rightarrow> string \<Rightarrow> store_error + revision option"
  pt_read_all :: "'d \<Rightarrow> position \<Rightarrow> direction \<Rightarrow> string option \<Rightarrow> store_error + event list"
  pt_read_all_page :: "'d \<Rightarrow> position \<Rightarrow> string option \<Rightarrow> nat \<Rightarrow> store_error + event list"
  pt_log_head :: "'d \<Rightarrow> store_error + position option"
  pt_latest_in_group :: "'d \<Rightarrow> string \<Rightarrow> string \<Rightarrow> store_error + group_head option"

definition sqlite_port :: "'t meta_text \<Rightarrow> 't log_db event_port" where
  "sqlite_port mt =
     \<lparr>pt_append = append mt,
      pt_read_stream = (\<lambda>db s from dir. Inr (read_stream mt db s from dir)),
      pt_read_typed = (\<lambda>db s from sel. Inr (read_stream_typed mt db s from sel)),
      pt_last_position = (\<lambda>db s ty. Inr (last_position db s ty)),
      pt_read_all = (\<lambda>db from dir prefix. Inr (read_all mt db from dir prefix)),
      pt_read_all_page = (\<lambda>db from prefix n. Inr (read_all_page mt db from prefix n)),
      pt_log_head = (\<lambda>db. Inr (log_head db)),
      pt_latest_in_group = (\<lambda>db s grp. Inr (latest_in_group mt db s grp))\<rparr>"

text \<open>A subscription: where its watermark starts, what a poll of the log past a watermark reads, and
  the relay each delivered event passes through (\<open>Subscription::map\<close>).\<close>

record 'd subscription_feed =
  sf_start :: watermark
  sf_poll :: "'d \<Rightarrow> watermark \<Rightarrow> event list"
  sf_relay :: "event \<Rightarrow> event"

definition map_feed :: "(event \<Rightarrow> event) \<Rightarrow> 'd subscription_feed \<Rightarrow> 'd subscription_feed" where
  "map_feed f feed = feed\<lparr>sf_relay := f \<circ> sf_relay feed\<rparr>"

text \<open>What a turn at a watermark delivers.\<close>

definition feed_turn :: "'d subscription_feed \<Rightarrow> 'd \<Rightarrow> watermark \<Rightarrow> event list" where
  "feed_turn feed d wm = map (sf_relay feed) (sf_poll feed d wm)"

record ('d, 's) event_source = "'d event_port" +
  pt_subscribe_all :: "position \<Rightarrow> string option \<Rightarrow> store_error + 'd subscription_feed"
  pt_subscribe_stream :: "string \<Rightarrow> revision \<Rightarrow> store_error + 'd subscription_feed"
  pt_read_positions :: "'d \<Rightarrow> string \<Rightarrow> nat \<Rightarrow>
    (position list \<Rightarrow> 's \<Rightarrow> (store_error + unit) \<times> 's) \<Rightarrow> 's \<Rightarrow> (store_error + unit) \<times> 's"
  pt_read_batched :: "'d \<Rightarrow> string \<Rightarrow> revision \<Rightarrow> nat \<Rightarrow>
    (event list \<Rightarrow> position \<Rightarrow> 's \<Rightarrow> (store_error + unit) \<times> 's) \<Rightarrow> 's \<Rightarrow> (store_error + unit) \<times> 's"

definition sqlite_source :: "'t meta_text \<Rightarrow> ('t log_db, 's) event_source" where
  "sqlite_source mt = event_port.extend (sqlite_port mt) (event_source.fields
     (\<lambda>from f. Inr \<lparr>sf_start = subscribe_all_start from, sf_poll = (\<lambda>db. poll_all mt db (like_of f)), sf_relay = id\<rparr>)
     (\<lambda>stream from. Inr \<lparr>sf_start = subscribe_stream_start from, sf_poll = (\<lambda>db. poll_stream mt db stream), sf_relay = id\<rparr>)
     read_stream_positions
     (read_stream_batched mt))"

text \<open>Every operation that names a stream reads that stream's rows and nothing else.\<close>

lemma stream_reads_cong:
  assumes "stream_rows db' s = stream_rows db s"
  shows "read_stream mt db' s = read_stream mt db s" "read_stream_typed mt db' s = read_stream_typed mt db s"
    "last_position db' s = last_position db s" "latest_in_group mt db' s = latest_in_group mt db s"
    "read_stream_positions db' s = read_stream_positions db s" "read_stream_batched mt db' s = read_stream_batched mt db s"
    "poll_stream mt db' s = poll_stream mt db s"
proof -
  have f: "read_forward mt db' s = read_forward mt db s"
    unfolding read_forward_def filter_stream_rows assms ..
  show "read_stream mt db' s = read_stream mt db s" "poll_stream mt db' s = poll_stream mt db s"
    by (simp_all add: fun_eq_iff read_stream_def poll_stream_def f)
  show "read_stream_batched mt db' s = read_stream_batched mt db s"
    unfolding read_stream_batched_def stream_head_def assms f ..
  show "read_stream_typed mt db' s = read_stream_typed mt db s"
    unfolding fun_eq_iff read_stream_typed_def typed_read_start_def filter_stream_rows assms by simp
  show "last_position db' s = last_position db s" "latest_in_group mt db' s = latest_in_group mt db s"
    unfolding fun_eq_iff last_position_def latest_in_group_def find_last_filter_conj assms by simp_all
  show "read_stream_positions db' s = read_stream_positions db s"
    unfolding fun_eq_iff read_stream_positions_def assms by simp
qed

lemma insert_events_other:
  "insert_events mt now s rv es db = Inr (report, db') \<Longrightarrow> t \<noteq> s \<Longrightarrow> stream_rows db' t = stream_rows db t"
  by (induction es arbitrary: rv db report)
     (fastforce simp: insert_row_def Let_def bind_res_def event_row_def split: sum.splits prod.splits if_splits)+

lemma append_other:
  "append mt now s x es db = Inr (report, db') \<Longrightarrow> t \<noteq> s \<Longrightarrow> stream_rows db' t = stream_rows db t"
  unfolding append_checks by (auto dest: insert_events_other split: option.splits if_splits)

text \<open>Two events that carry the same fact, whatever the store stamped on either.\<close>

definition same_fact :: "event \<Rightarrow> event \<Rightarrow> bool" where
  "same_fact a b \<longleftrightarrow> ev_id a = ev_id b \<and> ev_type a = ev_type b \<and> ev_data a = ev_data b \<and> ev_meta a = ev_meta b \<and>
     valid_from a = valid_from b"

text \<open>The contract the port documents: what a stream's log holds after an append, which appends are
  refused and how, and what each read answers of it.\<close>

locale event_store =
  fixes port :: "'d event_port"
    and ok :: "'d \<Rightarrow> bool"
    and log :: "'d \<Rightarrow> string \<Rightarrow> event list"
    and kept :: "event \<Rightarrow> event"
  assumes log_sorted: "ok d \<Longrightarrow> sorted_wrt log_before (log d s)"
    and log_revisions: "ok d \<Longrightarrow> e \<in> set (log d s) \<Longrightarrow> 0 \<le> ev_revision e"
    and kept_type: "ev_type (kept e) = ev_type e"
    and append_writes: "ok d \<Longrightarrow> pt_append port now s x es d = Inr (report, d') \<Longrightarrow>
      ok d' \<and> admits x (head_revision (log d s)) \<and> (\<forall>s'. s' = s \<or> log d' s' = log d s') \<and>
      (\<exists>new. log d' s = log d s @ new \<and> report = map (Some \<circ> ev_position) new \<and> list_all2 same_fact (map kept es) new)"
    and append_conflict: "ok d \<Longrightarrow> list_all (\<lambda>e. class_of (ev_type e) = Kept) es \<Longrightarrow> \<not> admits x (head_revision (log d s)) \<Longrightarrow>
      \<exists>n. pt_append port now s x es d = Inl (Conflict n x (head_revision (log d s)))"
    and append_derived: "ok d \<Longrightarrow> e \<in> set es \<Longrightarrow> class_of (ev_type e) = Derived \<Longrightarrow>
      \<exists>ty. pt_append port now s x es d = Inl (DerivedAppend ty)"
    and read_stream_is: "ok d \<Longrightarrow> pt_read_stream port d s from dir =
      Inr ((case dir of Forward \<Rightarrow> (\<lambda>es. es) | Backward \<Rightarrow> rev) (filter (\<lambda>e. from \<le> ev_revision e) (log d s)))"
    and read_typed_is: "ok d \<Longrightarrow> pt_read_typed port d s from sel =
      Inr (filter (\<lambda>e. from \<le> ev_revision e \<and> selects sel (ev_type e)) (log d s))"
    and last_position_is: "ok d \<Longrightarrow> pt_last_position port d s ty =
      Inr (map_option ev_revision (find_last (\<lambda>e. ev_type e = ty) (log d s)))"
begin

lemma grown_head:
  assumes "ok d'" "log d' s = log d s @ new" "new \<noteq> []"
  shows "head_revision (log d s) < head_revision (log d' s)"
proof (cases "log d s = []")
  case True
  then have "0 \<le> ev_revision (last (log d' s))" using assms by (intro log_revisions [OF assms(1), of _ s]) auto
  then show ?thesis using assms True by (simp add: head_revision_def)
next
  case False
  then have "log_before (last (log d s)) (last new)"
    using log_sorted [OF assms(1), of s] assms by (auto simp: sorted_wrt_append)
  then show ?thesis using False assms by (simp add: head_revision_def log_before_def)
qed

lemma log_head_max: "ok d \<Longrightarrow> e \<in> set (log d s) \<Longrightarrow> ev_revision e \<le> head_revision (log d s)"
proof -
  assume o: "ok d" "e \<in> set (log d s)"
  then obtain es l where l: "log d s = es @ [l]" by (cases "log d s" rule: rev_cases) auto
  then show ?thesis using log_sorted [OF o(1), of s] o(2) by (auto simp: head_revision_def log_before_def sorted_wrt_append)
qed

text \<open>A compare-and-append taken from a head that has moved conflicts.\<close>

lemma stale_append_conflicts:
  assumes "ok d" "pt_append port now s x es d = Inr (report, d')" "es \<noteq> []"
    and "list_all (\<lambda>e. class_of (ev_type e) = Kept) es'"
  shows "\<exists>n. pt_append port now' s (Exact (head_revision (log d s))) es' d' = Inl (Conflict n (Exact (head_revision (log d s))) (head_revision (log d' s)))"
proof -
  from append_writes [OF assms(1,2)] obtain new where new: "ok d'" "log d' s = log d s @ new" "list_all2 same_fact (map kept es) new"
    by blast
  have "new \<noteq> []" using new(3) assms(3) by (auto simp: list_all2_conv_all_nth)
  then have "\<not> admits (Exact (head_revision (log d s))) (head_revision (log d' s))"
    using grown_head [OF new(1,2)] by (simp add: admits_def)
  then show ?thesis using append_conflict [OF new(1) assms(4)] by blast
qed

text \<open>A typed read from the newest event of a type opens at that event.\<close>

lemma typed_read_from_boundary:
  assumes "ok d" "find_last (\<lambda>e. ev_type e = ty) (log d s) = Some b"
  shows "\<exists>before after. log d s = before @ b # after \<and> list_all (\<lambda>e. ev_type e \<noteq> ty) after \<and>
     filter (\<lambda>e. ev_revision b \<le> ev_revision e) (log d s) = b # after"
proof -
  from find_last_split [OF assms(2)] obtain before after where
    l: "log d s = before @ b # after" "\<forall>e \<in> set after. ev_type e \<noteq> ty" by blast
  have srt: "sorted_wrt log_before (before @ b # after)" using log_sorted [OF assms(1), of s] l(1) by simp
  then have lo: "e \<in> set before \<Longrightarrow> \<not> ev_revision b \<le> ev_revision e" and hi: "e \<in> set after \<Longrightarrow> ev_revision b \<le> ev_revision e" for e
    by (auto simp: sorted_wrt_append log_before_def)
  have "filter (\<lambda>e. ev_revision b \<le> ev_revision e) before = []"
    and "filter (\<lambda>e. ev_revision b \<le> ev_revision e) after = after"
    using lo hi by (auto intro: filter_none filter_all)
  then show ?thesis using l by (auto simp: list_all_iff)
qed

end

lemma list_all2_stamped: "list_all2 same_fact es (stamped now s p rv es)"
  by (induction es arbitrary: p rv) (auto simp: same_fact_def)

lemma stamped_mem: "e \<in> set (stamped now s p rv es) \<Longrightarrow> rv \<le> ev_revision e" "e \<in> set (stamped now s p rv es) \<Longrightarrow> ev_stream e = s"
  by (induction es arbitrary: p rv) fastforce+

lemma stamped_positions: "map ev_position (stamped now s p rv es) = [p ..< p + length es]"
  by (induction es arbitrary: p rv) (auto simp: upt_conv_Cons simp del: upt_Suc)

interpretation sq: event_store "sqlite_port mt" log_ok "stream_log mt" "stored mt" for mt :: "'t meta_text"
proof (unfold_locales, goal_cases)
  case (1 d s)
  then show ?case by (rule stream_log_sorted)
next
  case (2 d e s)
  then show ?case by (rule log_ok_revisions)
next
  case (3 x)
  show ?case by (simp add: stored_def)
next
  case (4 d now s x es report d')
  from 4(2) have a: "append mt now s x es d = Inr (report, d')" by (simp add: sqlite_port_def)
  let ?new = "stamped now s (next_position d) (head_revision (stream_log mt d s) + 1) (map (stored mt) es)"
  have "report = map (Some \<circ> ev_position) ?new"
    using append_effect [OF 4(1), where mt = mt and now = now and s = s and x = x and es = es] unfolding a
    by (simp add: stamped_positions flip: map_map)
  then show ?case using append_effect [OF 4(1), where mt = mt and now = now and s = s and x = x and es = es] list_all2_stamped unfolding a by fastforce
next
  case (5 d es x s now)
  then have "find (\<lambda>e. class_of (ev_type e) = Derived) es = None" by (auto simp: find_None_iff list_all_iff)
  then show ?case using 5 by (simp add: sqlite_port_def append_log_ok)
next
  case (6 d e es now s x)
  then have "find (\<lambda>e. class_of (ev_type e) = Derived) es \<noteq> None" by (auto simp: find_None_iff)
  then show ?case using 6(1) by (auto simp: sqlite_port_def append_log_ok)
next
  case (7 d s start dir)
  then show ?case by (simp add: sqlite_port_def read_stream_log)
next
  case (8 d s start sel)
  then show ?case by (simp add: sqlite_port_def read_stream_typed_log)
next
  case (9 d s ty)
  then show ?case by (simp add: sqlite_port_def last_position_log)
qed

end
