(* ===== verification/Namespaced.thy ===== *)
theory Namespaced
  imports Event_Store
begin

text \<open>
  The per-project decorator over the port (\<open>rigger-store-sqlite\<close>, \<open>eventstore/namespace.rs\<close>): every
  stream a project names is prefixed before the wrapped store sees it, every global read is cut to
  the prefix, and the prefix is stripped from the events that come back.

  The decorated store satisfies the port's contract again, so whatever is proved of the port holds
  inside a namespace. Streams of two projects stay apart as long as their names hold no hyphen; the
  slice of a global read is an SQL pattern, and the last theorem shows it is not the namespace.
\<close>

section \<open>The decorator\<close>

definition prefix_for :: "string \<Rightarrow> string" where
  "prefix_for project = ''proj-'' @ project @ ''-''"

definition scope_filter :: "string \<Rightarrow> string option \<Rightarrow> string option" where
  "scope_filter prefix caller = Some (prefix @ unwrap_or [] caller)"

definition strip_event :: "string \<Rightarrow> event \<Rightarrow> event" where
  "strip_event prefix e =
     (case strip_prefix prefix (ev_stream e) of Some rest \<Rightarrow> e\<lparr>ev_stream := rest\<rparr> | None \<Rightarrow> e)"

definition strip_all :: "string \<Rightarrow> event list \<Rightarrow> event list" where
  "strip_all prefix es = map (strip_event prefix) es"

definition namespaced :: "string \<Rightarrow> 'd event_port \<Rightarrow> 'd event_port" where
  "namespaced prefix inner =
     \<lparr>pt_append = (\<lambda>now s x es d. pt_append inner now (prefix @ s) x es d),
      pt_read_stream = (\<lambda>d s from dir. bind_res (pt_read_stream inner d (prefix @ s) from dir) (\<lambda>es. Inr (strip_all prefix es))),
      pt_read_typed = (\<lambda>d s from sel. bind_res (pt_read_typed inner d (prefix @ s) from sel) (\<lambda>es. Inr (strip_all prefix es))),
      pt_last_position = (\<lambda>d s ty. pt_last_position inner d (prefix @ s) ty),
      pt_read_all = (\<lambda>d from dir f. bind_res (pt_read_all inner d from dir (scope_filter prefix f)) (\<lambda>es. Inr (strip_all prefix es))),
      pt_read_all_page = (\<lambda>d from f n. bind_res (pt_read_all_page inner d from (scope_filter prefix f) n) (\<lambda>es. Inr (strip_all prefix es))),
      pt_log_head = (\<lambda>d. pt_log_head inner d),
      pt_latest_in_group = (\<lambda>d s grp. pt_latest_in_group inner d (prefix @ s) grp)\<rparr>"

text \<open>The decorator over the whole trait: each delivered batch and each event of a subscription is
  handed on stripped.\<close>

definition namespaced_source :: "string \<Rightarrow> ('d, 's) event_source \<Rightarrow> ('d, 's) event_source" where
  "namespaced_source prefix inner = event_port.extend (namespaced prefix (event_port.truncate inner)) (event_source.fields
     (\<lambda>from f. bind_res (pt_subscribe_all inner from (scope_filter prefix f)) (\<lambda>feed. Inr (map_feed (strip_event prefix) feed)))
     (\<lambda>s from. bind_res (pt_subscribe_stream inner (prefix @ s) from) (\<lambda>feed. Inr (map_feed (strip_event prefix) feed)))
     (\<lambda>d s batch sink. pt_read_positions inner d (prefix @ s) batch sink)
     (\<lambda>d s from batch sink. pt_read_batched inner d (prefix @ s) from batch (\<lambda>es head. sink (strip_all prefix es) head)))"

section \<open>The contract inside a namespace\<close>

lemma strip_event_sel [simp]:
  "ev_type (strip_event p e) = ev_type e" "ev_position (strip_event p e) = ev_position e"
  "ev_revision (strip_event p e) = ev_revision e" "log_before (strip_event p a) (strip_event p b) = log_before a b"
  "same_fact a (strip_event p b) = same_fact a b"
  by (auto simp: strip_event_def log_before_def same_fact_def split: option.split)

lemma head_revision_strip [simp]: "head_revision (map (strip_event p) es) = head_revision es"
  by (auto simp: head_revision_def last_map)

lemma list_all2_strip [simp]: "list_all2 same_fact xs (map (strip_event p) ys) = list_all2 same_fact xs ys"
  by (simp add: list.rel_map)

context event_store
begin

lemma namespaced_store: "event_store (namespaced p port) ok (\<lambda>d s. map (strip_event p) (log d (p @ s))) kept"
proof (unfold_locales, goal_cases)
  case (1 d s)
  then show ?case using log_sorted by (simp add: sorted_wrt_map)
next
  case (2 d e s)
  then show ?case using log_revisions by auto
next
  case (3 e)
  show ?case by (rule kept_type)
next
  case (4 d now s x es report d')
  then have "pt_append port now (p @ s) x es d = Inr (report, d')" by (simp add: namespaced_def)
  then obtain new where a: "ok d'" "admits x (head_revision (log d (p @ s)))" "\<forall>s'. s' = p @ s \<or> log d' s' = log d s'"
      "log d' (p @ s) = log d (p @ s) @ new" "report = map (Some \<circ> ev_position) new" "list_all2 same_fact (map kept es) new"
    using append_writes [OF 4(1)] by blast
  have "list_all2 same_fact (map kept es) (map (strip_event p) new)" using a(6) by simp
  moreover have "log d' (p @ s') = log d (p @ s')" if "s' \<noteq> s" for s' using a(3) that by auto
  then have "\<forall>s'. s' = s \<or> map (strip_event p) (log d' (p @ s')) = map (strip_event p) (log d (p @ s'))" by metis
  ultimately show ?case using a(1,2,4,5) by (auto simp: o_def)
next
  case (5 d es x s now)
  then show ?case using append_conflict [of d es x "p @ s" now] by (simp add: namespaced_def)
next
  case (6 d e es now s x)
  then show ?case using append_derived [of d e es now "p @ s" x] by (simp add: namespaced_def)
next
  case (7 d s start dir)
  then show ?case using read_stream_is [of d "p @ s" start dir]
    by (cases dir) (simp_all add: namespaced_def strip_all_def filter_map o_def rev_map)
next
  case (8 d s start sel)
  then show ?case using read_typed_is [of d "p @ s" start sel]
    by (simp add: namespaced_def strip_all_def filter_map o_def)
next
  case (9 d s ty)
  then show ?case using last_position_is [of d "p @ s" ty]
    by (simp add: namespaced_def find_last_map option.map_comp o_def)
qed

end

interpretation ns: event_store "namespaced prefix (sqlite_port mt)" log_ok
    "\<lambda>db s. map (strip_event prefix) (stream_log mt db (prefix @ s))" "stored mt"
  for prefix and mt :: "'t meta_text"
  by (rule sq.namespaced_store)

section \<open>Segregation\<close>

text \<open>The boundary of the prefix form is the last hyphen, so it is unambiguous over stream names that
  hold none.\<close>

lemma scoped_inject:
  assumes "CHR ''-'' \<notin> set s" "CHR ''-'' \<notin> set t"
  shows "prefix_for a @ s = prefix_for b @ t \<longleftrightarrow> a = b \<and> s = t"
proof
  assume "prefix_for a @ s = prefix_for b @ t"
  then have "a @ CHR ''-'' # s = b @ CHR ''-'' # t" by (simp add: prefix_for_def)
  then have "rsplit_once CHR ''-'' (a @ CHR ''-'' # s) = rsplit_once CHR ''-'' (b @ CHR ''-'' # t)" by (rule arg_cong)
  then show "a = b \<and> s = t" unfolding rsplit_once_append [OF assms(1)] rsplit_once_append [OF assms(2)] by simp
qed simp

text \<open>What the writer of an append reads back through its own namespace.\<close>

lemma own_append_read:
  assumes ok: "log_ok db" and app: "append mt now (prefix_for a @ s) x es db = Inr (report, db')"
  shows "\<exists>es'. pt_read_stream (namespaced (prefix_for a) (sqlite_port mt)) db' s (head_revision (stream_log mt db (prefix_for a @ s)) + 1) Forward = Inr es' \<and>
      list_all2 same_fact (map (stored mt) es) es' \<and> report = map (Some \<circ> ev_position) es' \<and> list_all (\<lambda>e. ev_stream e = s) es'"
proof (intro exI conjI)
  let ?s = "prefix_for a @ s"
  let ?new = "stamped now ?s (next_position db) (head_revision (stream_log mt db ?s) + 1) (map (stored mt) es)"
  have ok': "log_ok db'" and rep: "report = map Some [next_position db ..< next_position db + length es]"
    and grown: "stream_log mt db' ?s = stream_log mt db ?s @ ?new"
    using append_effect [OF ok, where mt = mt and now = now and s = ?s and x = x and es = es] unfolding app by auto
  have old: "filter (\<lambda>e. head_revision (stream_log mt db ?s) + 1 \<le> ev_revision e) (stream_log mt db ?s) = []"
    by (rule filter_none) (use sq.log_head_max [OF ok, of _ mt ?s] in fastforce)
  have new: "filter (\<lambda>e. head_revision (stream_log mt db ?s) + 1 \<le> ev_revision e) ?new = ?new" and sn: "e \<in> set ?new \<Longrightarrow> ev_stream e = ?s" for e
    by (rule filter_all, erule stamped_mem(1), erule stamped_mem(2))
  show "pt_read_stream (namespaced (prefix_for a) (sqlite_port mt)) db' s (head_revision (stream_log mt db ?s) + 1) Forward = Inr (map (strip_event (prefix_for a)) ?new)"
    by (simp add: ns.read_stream_is ok' grown filter_map o_def old new)
  show "list_all2 same_fact (map (stored mt) es) (map (strip_event (prefix_for a)) ?new)"
    unfolding list_all2_strip by (rule list_all2_stamped)
  show "report = map (Some \<circ> ev_position) (map (strip_event (prefix_for a)) ?new)"
    by (simp add: rep o_def stamped_positions flip: map_map [of Some ev_position, unfolded o_def])
  show "list_all (\<lambda>e. ev_stream e = s) (map (strip_event (prefix_for a)) ?new)"
    using sn by (auto simp: list_all_iff strip_event_def)
qed

lemma namespaced_source_sel [simp]:
  "event_port.truncate (namespaced_source prefix inner) = namespaced prefix (event_port.truncate inner)"
  "event_port.truncate (sqlite_source mt) = sqlite_port mt"
  by (simp_all add: namespaced_source_def sqlite_source_def event_port.defs event_source.defs)

text \<open>
  C28. A project named by one namespace is out of reach of an append through another's, under stream
  names that hold no hyphen: every operation that names a stream, of the port's reads, its batched reads
  and its subscription, answers of the other project's stream after the append what it answered
  before; and the writer reads its new events back under the name it gave, with no prefix. (A global
  read is an SQL pattern, which \<open>global_slice_leaks\<close> shows is not the namespace.)
\<close>

theorem namespaces_segregate:
  fixes mt :: "'t meta_text" and sink :: "event list \<Rightarrow> position \<Rightarrow> 's \<Rightarrow> (store_error + unit) \<times> 's"
  defines "inside \<equiv> \<lambda>p. namespaced_source (prefix_for p) (sqlite_source mt)"
  assumes ok: "log_ok db"
    and app: "pt_append (inside a) now s x es db = Inr (report, db')"
    and names: "CHR ''-'' \<notin> set s" "CHR ''-'' \<notin> set t" "a \<noteq> b"
  shows "pt_read_stream (inside b) db' t = pt_read_stream (inside b) db t \<and>
    pt_read_typed (inside b) db' t = pt_read_typed (inside b) db t \<and>
    pt_last_position (inside b) db' t = pt_last_position (inside b) db t \<and>
    pt_latest_in_group (inside b) db' t = pt_latest_in_group (inside b) db t \<and>
    pt_read_positions (inside b) db' t n psink acc = pt_read_positions (inside b) db t n psink acc \<and>
    pt_read_batched (inside b) db' t from n sink acc = pt_read_batched (inside b) db t from n sink acc \<and>
    (\<exists>feed. pt_subscribe_stream (inside b) t from = Inr feed \<and> feed_turn feed db' = feed_turn feed db) \<and>
    (\<exists>es'. pt_read_stream (inside a) db' s (head_revision (stream_log mt db (prefix_for a @ s)) + 1) Forward = Inr es' \<and>
      list_all2 same_fact (map (stored mt) es) es' \<and> report = map (Some \<circ> ev_position) es' \<and> list_all (\<lambda>e. ev_stream e = s) es')"
proof -
  have app': "append mt now (prefix_for a @ s) x es db = Inr (report, db')"
    using app by (simp add: inside_def namespaced_source_def sqlite_source_def event_port.defs event_source.defs namespaced_def sqlite_port_def)
  let ?s = "prefix_for a @ s" and ?t = "prefix_for b @ t"
  have "?t \<noteq> ?s" using scoped_inject [OF names(2,1), of b a] names(3) by auto
  note same = append_other [OF app' this]
  note defs = inside_def namespaced_source_def sqlite_source_def event_port.defs event_source.defs namespaced_def sqlite_port_def
  have reads: "pt_read_stream (inside b) db' t = pt_read_stream (inside b) db t"
    "pt_read_typed (inside b) db' t = pt_read_typed (inside b) db t"
    "pt_last_position (inside b) db' t = pt_last_position (inside b) db t"
    "pt_latest_in_group (inside b) db' t = pt_latest_in_group (inside b) db t"
    "pt_read_positions (inside b) db' t n psink acc = pt_read_positions (inside b) db t n psink acc"
    "pt_read_batched (inside b) db' t from n sink acc = pt_read_batched (inside b) db t from n sink acc"
    unfolding defs by (simp_all add: stream_reads_cong [OF same])
  have turns: "\<exists>feed. pt_subscribe_stream (inside b) t from = Inr feed \<and> feed_turn feed db' = feed_turn feed db"
    unfolding defs by (simp add: map_feed_def feed_turn_def fun_eq_iff stream_reads_cong [OF same])
  have own: "pt_read_stream (inside a) = pt_read_stream (namespaced (prefix_for a) (sqlite_port mt))"
    unfolding defs by simp
  have "\<exists>es'. pt_read_stream (inside a) db' s (head_revision (stream_log mt db ?s) + 1) Forward = Inr es' \<and>
      list_all2 same_fact (map (stored mt) es) es' \<and> report = map (Some \<circ> ev_position) es' \<and> list_all (\<lambda>e. ev_stream e = s) es'"
    unfolding own by (rule own_append_read [OF ok app'])
  with reads turns show ?thesis by blast
qed

definition plain_text :: "(string, string) btree meta_text" where
  "plain_text = \<lparr>mt_write = Inr, mt_braces = [], mt_read = Inr, mt_group = (\<lambda>m. bt_get m META_GROUP)\<rparr>"

definition demo_log_event :: event where
  "demo_log_event = event_new (''i'', 5) TYPE_UNIT_STARTED ''{}''"

definition demo_log :: "string \<Rightarrow> (string, string) btree log_db" where
  "demo_log s =
     \<lparr>db_rows = [\<lparr>lr_position = 1, lr_stream = s, lr_type = TYPE_UNIT_STARTED, lr_id = ''i'', lr_data = ''{}'', lr_meta = [],
                 lr_valid_from = 5, lr_recorded_at = 9, lr_revision = 0\<rparr>], db_seq = Some 1\<rparr>"

lemma demo_append: "append plain_text 9 s NoStream [demo_log_event] empty_db = Inr ([Some 1], demo_log s)"
  by (simp add: append_def refuse_derived_def class_of_def is_derived_index_type_def DERIVED_INDEX_TYPES_def event_new_def demo_log_event_def
      newest_revision_def recorded_max_def empty_db_def admits_def insert_row_def event_row_def i64_next_def demo_log_def plain_text_def meta_json_def to_nanos_def)

abbreviation demo_inside :: "string \<Rightarrow> ((string, string) btree log_db, unit) event_source" where
  "demo_inside p \<equiv> namespaced_source (prefix_for p) (sqlite_source plain_text)"

theorem namespaces_segregate_witness:
  "pt_read_stream (demo_inside ''beta'') (demo_log ''proj-alpha-run'') ''run'' =
     pt_read_stream (demo_inside ''beta'') empty_db ''run'' \<and>
   (\<exists>e. pt_read_stream (demo_inside ''alpha'') (demo_log ''proj-alpha-run'') ''run'' 0 Forward = Inr [e] \<and>
     ev_stream e = ''run'' \<and> ev_position e = 1)"
proof -
  have app: "pt_append (demo_inside ''alpha'') 9 ''run'' NoStream [demo_log_event] empty_db =
      Inr ([Some 1], demo_log ''proj-alpha-run'')"
    by (simp add: namespaced_source_def sqlite_source_def event_port.defs event_source.defs namespaced_def sqlite_port_def prefix_for_def demo_append)
  let ?sink = "\<lambda>_ _ _. (Inr (), ()) :: (store_error + unit) \<times> unit"
  have seg: "pt_read_stream (demo_inside ''beta'') (demo_log ''proj-alpha-run'') ''run'' =
      pt_read_stream (demo_inside ''beta'') empty_db ''run''"
    "\<exists>es'. pt_read_stream (demo_inside ''alpha'') (demo_log ''proj-alpha-run'') ''run'' 0 Forward = Inr es' \<and>
      list_all2 same_fact [stored plain_text demo_log_event] es' \<and> [Some 1] = map (Some \<circ> ev_position) es' \<and> list_all (\<lambda>e. ev_stream e = ''run'') es'"
    using namespaces_segregate [OF log_ok_empty app, of "''run''" "''beta''" 0 "\<lambda>_ s. (Inr (), s)" "()" 0 ?sink]
    by (simp_all add: head_revision_def)
  from seg(2) obtain es' where es': "pt_read_stream (demo_inside ''alpha'') (demo_log ''proj-alpha-run'') ''run'' 0 Forward = Inr es'"
      "list_all2 same_fact [stored plain_text demo_log_event] es'" "[Some 1] = map (Some \<circ> ev_position) es'" "list_all (\<lambda>e. ev_stream e = ''run'') es'"
    by (elim exE conjE)
  then obtain e where e: "es' = [e]" by (auto simp: list_all2_Cons1)
  then have "ev_stream e = ''run'' \<and> ev_position e = 1" using es'(3,4) by simp
  with seg(1) es'(1) show ?thesis unfolding e by blast
qed

section \<open>The slice of a global read\<close>

lemma sql_like_common: "sql_like qs cs \<Longrightarrow> sql_like (ps @ qs) (ps @ cs)"
proof (induction ps)
  case (Cons p ps)
  have "sql_like (''%'' # qs) xs" if "sql_like qs xs" for qs xs using that by (cases xs) auto
  then show ?case using Cons by (cases "p = ''%''") auto
qed simp

lemma sql_like_prefix: "sql_like (ps @ [''%'']) (ps @ cs)"
proof (rule sql_like_common)
  show "sql_like [''%''] cs" by (induction cs) auto
qed

lemma utf8_chars_append: "(\<And>c r. t = c # r \<Longrightarrow> \<not> is_cont c) \<Longrightarrow> utf8_chars (s @ t) = utf8_chars s @ utf8_chars t"
proof (induction s rule: utf8_chars.induct)
  case (2 c cs)
  have t: "takeWhile is_cont t = []" "dropWhile is_cont t = t" using 2(2) by (cases t; simp)+
  show ?case
  proof (cases "dropWhile is_cont cs = []")
    case True
    then have all: "\<forall>x \<in> set cs. is_cont x" by (simp add: dropWhile_eq_Nil_conv)
    then have tw: "takeWhile is_cont cs = cs" by (simp only: takeWhile_eq_all_conv)
    have "takeWhile is_cont (cs @ t) = cs" "dropWhile is_cont (cs @ t) = t"
      using all by (simp_all add: takeWhile_append2 dropWhile_append2 t)
    then show ?thesis by (simp add: True tw)
  next
    case False
    then obtain x where "x \<in> set cs" "\<not> is_cont x" by (auto simp: dropWhile_eq_Nil_conv)
    then show ?thesis using 2 by (simp add: takeWhile_append1 dropWhile_append1)
  qed
qed simp

lemma utf8_chars_ascii: "list_all (\<lambda>c. \<not> is_cont c) s \<Longrightarrow> utf8_chars s = map (\<lambda>c. [c]) s"
proof (induction s)
  case (Cons c s)
  then show ?case using utf8_chars_append [of s "[c]"] by (cases s) auto
qed simp

lemma as_i64_small: "n < 2 ^ 63 \<Longrightarrow> as_i64 n = int n"
  by (simp add: as_i64_def signed_of_nat signed_take_bit_int_eq_self)

text \<open>
  A project's global read from a cursor misses nothing of the project: every event past the
  cursor on one of its streams is in the read, under the stream's own name.
\<close>

theorem global_read_covers_project:
  assumes row: "r \<in> set (db_rows db)" "lr_stream r = prefix_for project @ s" "from < lr_position r"
    and start: "\<not> list_ex is_cont (take 1 s)" and small: "from < 2 ^ 63"
  shows "\<exists>es e. pt_read_all (namespaced (prefix_for project) (sqlite_port mt)) db from Forward None = Inr es \<and>
     e \<in> set es \<and> ev_stream e = s \<and> same_fact (row_to_event mt r) e \<and> ev_position e = lr_position r"
proof -
  let ?p = "prefix_for project"
  have "utf8_chars (?p @ s) = utf8_chars ?p @ utf8_chars s" "utf8_chars (?p @ ''%'') = utf8_chars ?p @ utf8_chars ''%''"
    by (rule utf8_chars_append, use start in simp) (rule utf8_chars_append, simp add: is_cont_def byte_of_def)
  then have "sql_like (utf8_chars (like_of (scope_filter ?p None))) (utf8_chars (lr_stream r))"
    by (simp add: like_of_def scope_filter_def row(2) sql_like_prefix)
  then have "r \<in> set (global_rows db from (like_of (scope_filter ?p None)))"
    using row by (simp add: global_rows_def as_i64_small [OF small])
  then have "strip_event ?p (row_to_event mt r) \<in> set (strip_all ?p (read_all mt db from Forward (scope_filter ?p None)))"
    by (simp add: read_all_def strip_all_def)
  moreover have "ev_stream (strip_event ?p (row_to_event mt r)) = s" by (simp add: strip_event_def row(2))
  ultimately show ?thesis
    by (intro exI conjI) (auto simp: namespaced_def sqlite_port_def same_fact_def strip_event_def split: option.splits)
qed

theorem global_read_covers_project_witness:
  "\<exists>es e. pt_read_all (namespaced (prefix_for ''alpha'') (sqlite_port plain_text)) (demo_log ''proj-alpha-run'') 0 Forward None = Inr es \<and>
     e \<in> set es \<and> ev_stream e = ''run''"
  using global_read_covers_project [of "hd (db_rows (demo_log ''proj-alpha-run''))" "demo_log ''proj-alpha-run''" "''alpha''" "''run''" 0 plain_text]
  by (auto simp: demo_log_def prefix_for_def is_cont_def byte_of_def)

text \<open>
  The slice of a global read is an SQL pattern, not the namespace: with an underscore in the
  project's name the read hands back another project's events, under that project's full stream
  name, while the project's own stream is empty.
\<close>

theorem global_slice_leaks:
  "\<exists>e. pt_read_all (namespaced (prefix_for ''my_repo'') (sqlite_port plain_text)) (demo_log ''proj-myXrepo-run'') 0 Forward None = Inr [e] \<and>
     ev_stream e = ''proj-myXrepo-run'' \<and>
     pt_read_stream (namespaced (prefix_for ''my_repo'') (sqlite_port plain_text)) (demo_log ''proj-myXrepo-run'') ''run'' 0 Forward = Inr []"
proof -
  have like: "sql_like (utf8_chars ''proj-my_repo-%'') (utf8_chars ''proj-myXrepo-run'')"
  proof -
    have "utf8_chars ''proj-my_repo-%'' = map (\<lambda>c. [c]) ''proj-my_repo-%''" "utf8_chars ''proj-myXrepo-run'' = map (\<lambda>c. [c]) ''proj-myXrepo-run''"
      by (rule utf8_chars_ascii, simp add: is_cont_def byte_of_def)+
    moreover have "sql_like (map (\<lambda>c. [c]) ''proj-my'' @ ''_'' # map (\<lambda>c. [c]) ''repo-'' @ [''%'']) (map (\<lambda>c. [c]) ''proj-my'' @ ''X'' # map (\<lambda>c. [c]) ''repo-'' @ map (\<lambda>c. [c]) ''run'')"
      using sql_like_prefix by (intro sql_like_common) (simp only: sql_like.simps list.inject char.inject simp_thms if_False)
    ultimately show ?thesis by (simp only: list.map append.simps)
  qed
  have "as_i64 0 < int 1" using as_i64_small [of 0] by simp
  then have g: "global_rows (demo_log ''proj-myXrepo-run'') 0 ''proj-my_repo-%'' = db_rows (demo_log ''proj-myXrepo-run'')"
    unfolding global_rows_def demo_log_def log_db.simps filter.simps log_row.simps by (simp only: like simp_thms if_True)
  have f: "like_of (scope_filter (prefix_for ''my_repo'') None) = ''proj-my_repo-%''"
    by (simp add: like_of_def scope_filter_def prefix_for_def)
  have "stream_rows (demo_log ''proj-myXrepo-run'') (prefix_for ''my_repo'' @ ''run'') = []"
    by (simp add: demo_log_def prefix_for_def)
  then have r: "read_stream plain_text (demo_log ''proj-myXrepo-run'') (prefix_for ''my_repo'' @ ''run'') 0 Forward = []"
    unfolding read_stream_def read_forward_def filter_stream_rows by simp
  obtain row where row: "db_rows (demo_log ''proj-myXrepo-run'') = [row]" "lr_stream row = ''proj-myXrepo-run''"
    by (simp add: demo_log_def)
  let ?e = "strip_event (prefix_for ''my_repo'') (row_to_event plain_text row)"
  have "pt_read_all (namespaced (prefix_for ''my_repo'') (sqlite_port plain_text)) (demo_log ''proj-myXrepo-run'') 0 Forward None = Inr [?e]"
    by (simp only: namespaced_def sqlite_port_def event_port.simps read_all_def f g Let_def direction.case bind_res_simps row(1) list.map strip_all_def)
  moreover have "ev_stream ?e = ''proj-myXrepo-run''" by (simp add: strip_event_def prefix_for_def row(2))
  moreover have "pt_read_stream (namespaced (prefix_for ''my_repo'') (sqlite_port plain_text)) (demo_log ''proj-myXrepo-run'') ''run'' 0 Forward = Inr []"
    by (simp only: namespaced_def sqlite_port_def event_port.simps r bind_res_simps strip_all_def list.map)
  ultimately show ?thesis by blast
qed

end
