(* ===== verification/Log_Reads.thy ===== *)
theory Log_Reads
  imports Namespaced
begin

text \<open>
  The reads that resume: pages of the global log, batched reads, and the catch-up subscriptions whose
  polling thread races the writers (\<open>eventstore/sqlite.rs\<close>), beside the migration that renames a
  project's streams and the alias history of the port's values.

  The theorems: a page and the read resumed at its last position make up the whole read; batches
  cut the items without losing, repeating or reordering one; a subscription has delivered, at every
  turn of every interleaving with appends, exactly the read from its starting point.
\<close>

section \<open>Pages\<close>

lemma db_ok_rows: "db_ok db \<Longrightarrow> sorted_wrt (\<lambda>a b. lr_position a < lr_position b) (db_rows db)"
  "db_ok db \<Longrightarrow> r \<in> set (db_rows db) \<Longrightarrow> lr_position r < 2 ^ 63"
  by (auto simp: db_ok_def)

lemma global_rows_sorted: "db_ok db \<Longrightarrow> sorted_wrt (\<lambda>a b. lr_position a < lr_position b) (global_rows db from like)"
  unfolding global_rows_def by (rule sorted_wrt_filter) (rule db_ok_rows(1))

lemma global_rows_position: "db_ok db \<Longrightarrow> r \<in> set (global_rows db from like) \<Longrightarrow> lr_position r < 2 ^ 63"
  using db_ok_rows(2) by (auto simp: global_rows_def)

text \<open>Resuming at a row's position is dropping the rows up to it.\<close>

lemma global_rows_resume:
  assumes ok: "db_ok db" and rows: "global_rows db from like = before @ r # after"
  shows "global_rows db (lr_position r) like = after"
proof -
  have r: "r \<in> set (global_rows db from like)" by (simp add: rows)
  have rp: "lr_position r < 2 ^ 63" by (rule global_rows_position [OF ok r])
  have fr: "as_i64 from < int (lr_position r)" using r by (simp add: global_rows_def)
  have "global_rows db (lr_position r) like = filter (\<lambda>x. lr_position r < lr_position x) (global_rows db from like)"
    unfolding global_rows_def as_i64_small [OF rp] filter_filter
    by (rule filter_cong) (use fr in auto)
  also have "\<dots> = after"
  proof -
    have "sorted_wrt (\<lambda>a b. lr_position a < lr_position b) (before @ r # after)"
      using global_rows_sorted [OF ok, of "from" like] by (simp add: rows)
    then have "filter (\<lambda>x. lr_position r < lr_position x) before = []" "filter (\<lambda>x. lr_position r < lr_position x) after = after"
      by (auto simp: sorted_wrt_append intro!: filter_none filter_all)
    then show ?thesis by (simp add: rows)
  qed
  finally show ?thesis .
qed

lemma as_i64_bounds: "0 < n \<Longrightarrow> n < 2 ^ 63 \<Longrightarrow> sql_limit (as_i64 n) xs = take n xs"
  by (simp add: as_i64_small sql_limit_def)

text \<open>
  Paging the global log loses and repeats nothing: a page holds the first events of the read
  from its cursor and at most the number asked for, an empty page means the read is empty, and the
  read resumed at the last event of a page is exactly the rest.
\<close>

theorem page_resume:
  assumes ok: "db_ok db" and n: "0 < n" "n < 2 ^ 63"
  shows "length (read_all_page mt db from f n) \<le> n \<and>
    (read_all_page mt db from f n = [] \<longleftrightarrow> read_all mt db from Forward f = []) \<and>
    (read_all_page mt db from f n \<noteq> [] \<longrightarrow>
      read_all mt db from Forward f =
        read_all_page mt db from f n @ read_all mt db (ev_position (last (read_all_page mt db from f n))) Forward f)"
proof (intro conjI impI)
  let ?g = "global_rows db from (like_of f)"
  have page: "read_all_page mt db from f n = map (row_to_event mt) (take n ?g)"
    by (simp only: read_all_page_def as_i64_bounds [OF n])
  have whole: "read_all mt db from Forward f = map (row_to_event mt) ?g" by (simp add: read_all_def)
  show "length (read_all_page mt db from f n) \<le> n" by (simp add: page)
  show "read_all_page mt db from f n = [] \<longleftrightarrow> read_all mt db from Forward f = []"
    using n by (simp add: page whole)
  assume "read_all_page mt db from f n \<noteq> []"
  then have ne: "take n ?g \<noteq> []" by (simp add: page)
  then have "?g = butlast (take n ?g) @ last (take n ?g) # drop n ?g"
    by (metis append.assoc append_Cons append_Nil append_butlast_last_id append_take_drop_id)
  from global_rows_resume [OF ok this]
  have "global_rows db (lr_position (last (take n ?g))) (like_of f) = drop n ?g" .
  then show "read_all mt db from Forward f =
      read_all_page mt db from f n @ read_all mt db (ev_position (last (read_all_page mt db from f n))) Forward f"
    using ne by (simp add: page read_all_def last_map flip: map_append)
qed

theorem page_resume_witness:
  "length (read_all_page plain_text (demo_log ''run'') 0 None 1) \<le> 1"
  using page_resume [THEN conjunct1, of "demo_log ''run''" 1] by (simp add: db_ok_def demo_log_def)

section \<open>Batches\<close>

text \<open>A sink that keeps every batch it is handed.\<close>

definition collect_batch :: "'a list \<Rightarrow> 'a list list \<Rightarrow> ('e + unit) \<times> 'a list list" where
  "collect_batch b bs = (Inr (), bs @ [b])"

lemma in_batches_collect:
  assumes "0 < n" "length held < n"
  shows "\<exists>bs. in_batches n collect_batch held (map Inr xs) acc = (Inr () :: 'e + unit, acc @ bs) \<and> concat bs = held @ xs \<and>
     (\<forall>b \<in> set bs. b \<noteq> [] \<and> length b \<le> n) \<and> (\<forall>b \<in> set (butlast bs). length b = n)"
  using assms
proof (induction xs arbitrary: held acc)
  case Nil
  show ?case
  proof (cases "held = []")
    case False
    then show ?thesis using Nil by (intro exI [of _ "[held]"]) (simp add: collect_batch_def)
  qed simp
next
  case (Cons x xs)
  show ?case
  proof (cases "length (held @ [x]) = n")
    case True
    have "length ([] :: 'a list) < n" using Cons.prems(1) by simp
    from Cons.IH [OF Cons.prems(1) this, of "acc @ [held @ [x]]"] obtain bs where
      bs: "in_batches n collect_batch [] (map Inr xs) (acc @ [held @ [x]]) = (Inr () :: 'e + unit, (acc @ [held @ [x]]) @ bs) \<and>
        concat bs = [] @ xs \<and> (\<forall>b \<in> set bs. b \<noteq> [] \<and> length b \<le> n) \<and> (\<forall>b \<in> set (butlast bs). length b = n)" by (elim exE)
    have "in_batches n collect_batch held (map Inr (x # xs)) acc = (in_batches n collect_batch [] (map Inr xs) (acc @ [held @ [x]]) :: ('e + unit) \<times> _)"
      using True by (simp add: collect_batch_def)
    then show ?thesis using bs True
      by (intro exI [of _ "(held @ [x]) # bs"]) (auto split: if_splits)
  next
    case False
    then have "length (held @ [x]) < n" using Cons.prems by simp
    from Cons.IH [OF Cons.prems(1) this, of acc] show ?thesis using False by simp
  qed
qed

text \<open>
  The batched read of a stream hands over the stream's events from the revision asked for, in
  log order, none lost and none twice, in batches that are never empty and never longer than the
  limit, all but the last of exactly the limit; a batch of zero hands everything over at once.
\<close>

theorem read_stream_batched_exact:
  assumes ok: "log_ok db"
  shows "\<exists>bs. read_stream_batched mt db s from n (\<lambda>es head. collect_batch es) acc = (Inr (), acc @ bs) \<and>
     concat bs = filter (\<lambda>e. from \<le> ev_revision e) (stream_log mt db s) \<and> [] \<notin> set bs \<and>
     (n = 0 \<or> list_all (\<lambda>b. length b \<le> n) bs \<and> list_all (\<lambda>b. length b = n) (butlast bs))"
proof (cases "stream_rows db s = []")
  case True
  then have "stream_head db s = None" "stream_log mt db s = []" by (simp_all add: stream_head_def stream_log_def)
  then show ?thesis by (simp add: read_stream_batched_def)
next
  case False
  then have "stream_head db s \<noteq> None" unfolding stream_head_def by (cases "stream_rows db s") (simp_all only: list.map list.case option.distinct simp_thms)
  then obtain h where h: "stream_head db s = Some h" by blast
  let ?es = "filter (\<lambda>e. from \<le> ev_revision e) (stream_log mt db s)"
  have eq: "read_stream_batched mt db s from n (\<lambda>es head. collect_batch es) acc = in_batches n collect_batch [] (map Inr ?es) acc"
    by (simp only: read_stream_batched_def h option.case read_forward_log [OF ok])
  show ?thesis
  proof (cases "n = 0")
    case False
    then show ?thesis using in_batches_collect [of n "[]" ?es acc] unfolding eq by (fastforce simp: list_all_iff)
  next
    case True
    have "in_batches 0 collect_batch held (map Inr xs) acc = (Inr () :: store_error + unit, acc @ (if held @ xs = [] then [] else [held @ xs]))"
      for held xs :: "event list" by (induction xs arbitrary: held) (auto simp: collect_batch_def)
    then show ?thesis using eq True by (intro exI [of _ "if ?es = [] then [] else [?es]"]) simp
  qed
qed

theorem read_stream_batched_exact_witness:
  "\<exists>bs. read_stream_batched plain_text (demo_log ''run'') ''run'' 0 2 (\<lambda>es head. collect_batch es) [] = (Inr (), [] @ bs) \<and> [] \<notin> set bs"
proof -
  have "log_ok (demo_log ''run'')" by (simp add: log_ok_def db_ok_def in_order_def demo_log_def)
  from read_stream_batched_exact [OF this, of plain_text "''run''" 0 2 "[]"] show ?thesis by blast
qed

section \<open>Subscriptions\<close>

text \<open>A subscription over a log others write: the polling thread reads what lies past its watermark
  when it holds nothing, and delivers what it read one event at a time, the watermark moving to each
  event delivered; between any two of its steps a writer may append to any stream.\<close>

record 't subscription =
  sub_db :: "'t log_db"
  sub_mark :: watermark
  sub_held :: "event list"
  sub_sent :: "event list"

inductive subscribed ::
  "'t meta_text \<Rightarrow> ('t log_db \<Rightarrow> watermark \<Rightarrow> event list) \<Rightarrow> watermark \<Rightarrow> 't subscription \<Rightarrow> bool"
  for mt poll start where
  sub_start: "log_ok db \<Longrightarrow> subscribed mt poll start \<lparr>sub_db = db, sub_mark = start, sub_held = [], sub_sent = []\<rparr>"
| sub_write: "subscribed mt poll start s \<Longrightarrow> append mt now stream x es (sub_db s) = Inr (report, db') \<Longrightarrow>
    subscribed mt poll start (s\<lparr>sub_db := db'\<rparr>)"
| sub_poll: "subscribed mt poll start s \<Longrightarrow> sub_held s = [] \<Longrightarrow>
    subscribed mt poll start (s\<lparr>sub_held := poll (sub_db s) (sub_mark s)\<rparr>)"
| sub_deliver: "subscribed mt poll start s \<Longrightarrow> sub_held s = e # es \<Longrightarrow>
    subscribed mt poll start (s\<lparr>sub_mark := advance e, sub_held := es, sub_sent := sub_sent s @ [e]\<rparr>)"

text \<open>Where the thread will poll from once it has delivered what it holds.\<close>

definition sub_next :: "'t subscription \<Rightarrow> watermark" where
  "sub_next s = (if sub_held s = [] then sub_mark s else advance (last (sub_held s)))"

lemma append_rows:
  assumes ok: "log_ok db" and app: "append mt now s x es db = Inr (report, db')"
  shows "\<exists>new. db_rows db' = db_rows db @ new \<and>
     (\<forall>r \<in> set (db_rows db). \<forall>r' \<in> set new. lr_position r < lr_position r' \<and> (lr_stream r = lr_stream r' \<longrightarrow> lr_revision r < lr_revision r'))"
proof -
  have "db_rows db' = db_rows db @ (if es = [] then [] else placed_rows mt (to_nanos now) s (unwrap_or 0 (db_seq db) + 1) (newest_revision db s + 1) es)"
    using app unfolding append_log_ok [OF ok] by (auto split: option.splits if_splits)
  moreover have "lr_position r < lr_position r' \<and> (lr_stream r = lr_stream r' \<longrightarrow> lr_revision r < lr_revision r')"
    if "r \<in> set (db_rows db)" "r' \<in> set (placed_rows mt (to_nanos now) s (unwrap_or 0 (db_seq db) + 1) (newest_revision db s + 1) es)" for r r'
    using placed_rows_mem [OF that(2)] newest_bounds [OF ok that(1), of s] that(1) ok
    by (auto simp: log_ok_def db_ok_def)
  ultimately show ?thesis
    by (intro exI [of _ "if es = [] then [] else placed_rows mt (to_nanos now) s (unwrap_or 0 (db_seq db) + 1) (newest_revision db s + 1) es"] conjI)
       (auto simp del: Suc_eq_plus1 add_Suc_right split: if_splits)
qed

text \<open>A poll a subscription can run on: what it reads past a row it read is the rest of what it
  read, and an append adds to every read alike.\<close>

locale catch_up =
  fixes mt :: "'t meta_text" and poll :: "'t log_db \<Rightarrow> watermark \<Rightarrow> event list"
  assumes resumes: "log_ok db \<Longrightarrow> poll db wm = before @ e # after \<Longrightarrow> poll db (advance e) = after"
    and appends: "log_ok db \<Longrightarrow> append mt now s x es db = Inr (report, db') \<Longrightarrow>
      \<exists>new. poll db' wm = poll db wm @ new \<and> (\<forall>e \<in> set (poll db wm). poll db' (advance e) = poll db (advance e) @ new)"
begin

lemma subscribed_exact:
  "subscribed mt poll start s \<Longrightarrow>
     log_ok (sub_db s) \<and> (sub_sent s @ sub_held s = [] \<longrightarrow> sub_mark s = start) \<and>
     (sub_sent s \<noteq> [] \<longrightarrow> sub_mark s = advance (last (sub_sent s))) \<and>
     sub_sent s @ sub_held s @ poll (sub_db s) (sub_next s) = poll (sub_db s) start"
proof (induction rule: subscribed.induct)
  case (sub_start db)
  then show ?case by (simp add: sub_next_def)
next
  case (sub_write s now stream x es report db')
  let ?db = "sub_db s"
  have ok: "log_ok ?db" and eq: "sub_sent s @ sub_held s @ poll ?db (sub_next s) = poll ?db start" using sub_write.IH by auto
  have ok': "log_ok db'"
    using append_effect [OF ok, where mt = mt and now = now and s = stream and x = x and es = es] sub_write.hyps(2) by simp
  obtain new where new: "poll db' start = poll ?db start @ new"
      "\<forall>e \<in> set (poll ?db start). poll db' (advance e) = poll ?db (advance e) @ new"
    using appends [OF ok sub_write.hyps(2), of start] by blast
  have "poll db' (sub_next s) = poll ?db (sub_next s) @ new"
  proof (cases "sub_sent s @ sub_held s = []")
    case True
    then have "sub_next s = start" using sub_write.IH by (simp add: sub_next_def)
    then show ?thesis using new(1) by simp
  next
    case False
    then have "sub_next s = advance (last (sub_sent s @ sub_held s))" using sub_write.IH by (auto simp: sub_next_def)
    moreover have "last (sub_sent s @ sub_held s) \<in> set (poll ?db start)"
      using last_in_set [OF False] unfolding eq [symmetric] by auto
    ultimately show ?thesis using new(2) by simp
  qed
  then have "sub_sent s @ sub_held s @ poll db' (sub_next s) = poll db' start" by (simp only: new(1) eq [symmetric] append_assoc)
  moreover have "sub_next (s\<lparr>sub_db := db'\<rparr>) = sub_next s" by (simp add: sub_next_def)
  ultimately show ?case using sub_write.IH ok' by simp
next
  case (sub_poll s)
  let ?p = "poll (sub_db s) (sub_mark s)"
  have ok: "log_ok (sub_db s)" and eq: "sub_sent s @ ?p = poll (sub_db s) start" using sub_poll by (auto simp: sub_next_def)
  show ?case
  proof (cases "?p = []")
    case False
    then have "?p = butlast ?p @ last ?p # []" by simp
    from resumes [OF ok this] False have "poll (sub_db s) (advance (last ?p)) = []" by simp
    moreover have "poll (sub_db s) start \<noteq> []" unfolding eq [symmetric] using False by simp
    ultimately show ?thesis using False eq ok sub_poll.IH by (simp add: sub_next_def)
  qed (use sub_poll in \<open>simp add: sub_next_def\<close>)
next
  case (sub_deliver s e es)
  then show ?case by (auto simp: sub_next_def split: if_splits)
qed

end

lemma rows_filter_append:
  assumes "db_rows db' = db_rows db @ new"
  shows "global_rows db' p like = global_rows db p like @ filter (\<lambda>r. as_i64 p < int (lr_position r) \<and> sql_like (utf8_chars like) (utf8_chars (lr_stream r))) new"
  by (simp add: global_rows_def assms)

interpretation all_sub: catch_up mt "\<lambda>db wm. poll_all mt db like wm" for mt :: "'t meta_text" and like
proof (unfold_locales, goal_cases)
  case (1 db wm before e after)
  then obtain b r a where rows: "global_rows db (wm_position wm) like = b @ r # a" "e = row_to_event mt r" "after = map (row_to_event mt) a"
    unfolding poll_all_def by (auto simp: map_eq_append_conv map_eq_Cons_conv)
  then show ?case using global_rows_resume [of db "wm_position wm" like b r a] 1(1)
    by (simp add: poll_all_def advance_def log_ok_def)
next
  case (2 db now s x es report db' wm)
  obtain new where new: "db_rows db' = db_rows db @ new"
      "\<forall>r \<in> set (db_rows db). \<forall>r' \<in> set new. lr_position r < lr_position r'"
    using append_rows [OF 2] by blast
  let ?n = "\<lambda>p. filter (\<lambda>r. as_i64 p < int (lr_position r) \<and> sql_like (utf8_chars like) (utf8_chars (lr_stream r))) new"
  have "?n (lr_position r) = ?n (wm_position wm)" if "r \<in> set (global_rows db (wm_position wm) like)" for r
  proof (rule filter_cong [OF refl])
    fix r' assume r': "r' \<in> set new"
    have r: "r \<in> set (db_rows db)" "as_i64 (wm_position wm) < int (lr_position r)" using that by (auto simp: global_rows_def)
    have "lr_position r < 2 ^ 63" by (rule db_ok_rows(2) [OF _ r(1)]) (use 2(1) in \<open>simp add: log_ok_def\<close>)
    then have "as_i64 (lr_position r) = int (lr_position r)" by (rule as_i64_small)
    then show "(as_i64 (lr_position r) < int (lr_position r') \<and> sql_like (utf8_chars like) (utf8_chars (lr_stream r'))) =
        (as_i64 (wm_position wm) < int (lr_position r') \<and> sql_like (utf8_chars like) (utf8_chars (lr_stream r')))"
      using new(2) r r' by fastforce
  qed
  then show ?case
    by (intro exI [of _ "map (row_to_event mt) (?n (wm_position wm))"])
       (auto simp: poll_all_def rows_filter_append [OF new(1)] advance_def)
qed

interpretation stream_sub: catch_up mt "\<lambda>db wm. poll_stream mt db stream wm" for mt :: "'t meta_text" and stream
proof (unfold_locales, goal_cases)
  case (1 db wm before e after)
  let ?p = "\<lambda>w e. w + 1 \<le> ev_revision e"
  have l: "filter (?p (wm_revision wm)) (stream_log mt db stream) = before @ e # after"
    using 1 by (simp add: poll_stream_def read_forward_log)
  have "sorted_wrt log_before (before @ e # after)"
    unfolding l [symmetric] by (rule sorted_wrt_filter) (rule stream_log_sorted [OF 1(1)])
  then have "\<forall>x \<in> set before. \<not> ?p (ev_revision e) x" "\<forall>x \<in> set after. ?p (ev_revision e) x"
    by (force simp: sorted_wrt_append log_before_def)+
  then have "filter (?p (ev_revision e)) before = []" "filter (?p (ev_revision e)) after = after"
    by (simp_all only: filter_empty_conv filter_id_conv)
  then have "filter (?p (ev_revision e)) (before @ e # after) = after" by simp
  moreover have "filter (?p (ev_revision e)) (stream_log mt db stream) = filter (?p (ev_revision e)) (before @ e # after)"
  proof -
    have "e \<in> set (filter (?p (wm_revision wm)) (stream_log mt db stream))" unfolding l by simp
    then have "wm_revision wm + 1 \<le> ev_revision e" by simp
    then show ?thesis unfolding l [symmetric] filter_filter by (intro filter_cong refl) auto
  qed
  ultimately show ?case by (simp add: poll_stream_def read_forward_log [OF 1(1)] advance_def)
next
  case (2 db now s x es report db' wm)
  have ok': "log_ok db'"
    using append_effect [OF 2(1), where mt = mt and now = now and s = s and x = x and es = es] 2(2) by simp
  obtain new where new: "db_rows db' = db_rows db @ new"
      "\<forall>r \<in> set (db_rows db). \<forall>r' \<in> set new. lr_stream r = lr_stream r' \<longrightarrow> lr_revision r < lr_revision r'"
    using append_rows [OF 2] by blast
  let ?new = "map (row_to_event mt) (filter (\<lambda>r. lr_stream r = stream) new)"
  have log': "stream_log mt db' stream = stream_log mt db stream @ ?new" by (simp add: stream_log_def new(1))
  have lo: "ev_revision e < ev_revision n" if "e \<in> set (stream_log mt db stream)" "n \<in> set ?new" for e n
    using that new(2) by (auto simp: stream_log_def)
  have "filter (\<lambda>n. ev_revision e + 1 \<le> ev_revision n) ?new = filter (\<lambda>n. wm_revision wm + 1 \<le> ev_revision n) ?new"
    if "e \<in> set (stream_log mt db stream)" "wm_revision wm + 1 \<le> ev_revision e" for e
    by (rule filter_cong [OF refl]) (use lo [OF that(1)] that(2) in force)
  then show ?case
    by (intro exI [of _ "filter (\<lambda>n. wm_revision wm + 1 \<le> ev_revision n) ?new"])
       (simp add: poll_stream_def read_forward_log [OF 2(1)] read_forward_log [OF ok'] log' advance_def)
qed

text \<open>
  C18. At every point of every interleaving of its polling with other writers' appends, what a
  global subscription has delivered and what it holds is a beginning of the global read from its
  starting cursor: nothing is skipped, repeated or reordered, and once it holds nothing and a poll
  answers nothing it has delivered the whole read.
\<close>

theorem subscribe_all_delivers_read:
  assumes "subscribed mt (\<lambda>db wm. poll_all mt db (like_of f) wm) (subscribe_all_start from) s"
  shows "(\<exists>rest. read_all mt (sub_db s) from Forward f = sub_sent s @ sub_held s @ rest) \<and>
    (sub_held s = [] \<and> poll_all mt (sub_db s) (like_of f) (sub_mark s) = [] \<longrightarrow>
      sub_sent s = read_all mt (sub_db s) from Forward f)"
proof (intro conjI impI)
  have "read_all mt (sub_db s) from Forward f = poll_all mt (sub_db s) (like_of f) (subscribe_all_start from)"
    by (simp add: read_all_def poll_all_def subscribe_all_start_def)
  then have eq: "read_all mt (sub_db s) from Forward f = sub_sent s @ sub_held s @ poll_all mt (sub_db s) (like_of f) (sub_next s)"
    using all_sub.subscribed_exact [OF assms] by simp
  then show "\<exists>rest. read_all mt (sub_db s) from Forward f = sub_sent s @ sub_held s @ rest" by blast
  assume "sub_held s = [] \<and> poll_all mt (sub_db s) (like_of f) (sub_mark s) = []"
  then show "sub_sent s = read_all mt (sub_db s) from Forward f"
    using eq by (simp add: sub_next_def)
qed

text \<open>
  The same of a stream subscription and the forward read of its stream, whose starting revision
  is included.
\<close>

theorem subscribe_stream_delivers_read:
  assumes "subscribed mt (\<lambda>db wm. poll_stream mt db stream wm) (subscribe_stream_start from) s"
  shows "(\<exists>rest. read_stream mt (sub_db s) stream from Forward = sub_sent s @ sub_held s @ rest) \<and>
    (sub_held s = [] \<and> poll_stream mt (sub_db s) stream (sub_mark s) = [] \<longrightarrow>
      sub_sent s = read_stream mt (sub_db s) stream from Forward)"
proof (intro conjI impI)
  have "read_stream mt (sub_db s) stream from Forward = poll_stream mt (sub_db s) stream (subscribe_stream_start from)"
    by (simp add: read_stream_def poll_stream_def subscribe_stream_start_def)
  then have eq: "read_stream mt (sub_db s) stream from Forward = sub_sent s @ sub_held s @ poll_stream mt (sub_db s) stream (sub_next s)"
    using stream_sub.subscribed_exact [OF assms] by simp
  then show "\<exists>rest. read_stream mt (sub_db s) stream from Forward = sub_sent s @ sub_held s @ rest" by blast
  assume "sub_held s = [] \<and> poll_stream mt (sub_db s) stream (sub_mark s) = []"
  then show "sub_sent s = read_stream mt (sub_db s) stream from Forward"
    using eq by (simp add: sub_next_def)
qed

lemma demo_subscribed:
  "subscribed plain_text poll start
     \<lparr>sub_db = demo_log s, sub_mark = start, sub_held = [], sub_sent = []\<rparr>"
  using sub_write [OF sub_start [OF log_ok_empty, of plain_text poll start], of 9 s NoStream "[demo_log_event]"]
  by (simp add: demo_append)

text \<open>A subscription that delivers the first event of a log before the second is written, and holds
  the second after its next poll.\<close>

definition demo_row :: "position \<Rightarrow> revision \<Rightarrow> (string, string) btree log_row" where
  "demo_row p rv = \<lparr>lr_position = p, lr_stream = ''run'', lr_type = TYPE_UNIT_STARTED, lr_id = ''i'', lr_data = ''{}'', lr_meta = [],
     lr_valid_from = 5, lr_recorded_at = 9, lr_revision = rv\<rparr>"

abbreviation demo_seen :: "position \<Rightarrow> revision \<Rightarrow> event" where
  "demo_seen p rv \<equiv> row_to_event plain_text (demo_row p rv)"

definition demo_grown :: "(string, string) btree log_db" where
  "demo_grown = \<lparr>db_rows = [demo_row 1 0, demo_row 2 1], db_seq = Some 2\<rparr>"

lemma demo_table_grows: "append plain_text 9 ''run'' (Exact 0) [demo_log_event] (demo_log ''run'') = Inr ([Some 2], demo_grown)"
  by (simp add: append_def refuse_derived_def class_of_def is_derived_index_type_def DERIVED_INDEX_TYPES_def event_new_def demo_log_event_def
      newest_revision_def find_last_def recorded_max_def admits_def insert_row_def event_row_def i64_next_def demo_log_def demo_grown_def demo_row_def
      plain_text_def meta_json_def to_nanos_def)

lemma demo_polls:
  "poll_all plain_text (demo_log ''run'') (like_of None) (subscribe_all_start 0) = [demo_seen 1 0]"
  "poll_all plain_text demo_grown (like_of None) (advance (demo_seen 1 0)) = [demo_seen 2 1]"
  "poll_all plain_text demo_grown (like_of None) (advance (demo_seen 2 1)) = []"
proof -
  have any: "sql_like (utf8_chars ''%'') cs" for cs using sql_like_prefix [of "[]"] by (simp add: is_cont_def byte_of_def)
  show "poll_all plain_text (demo_log ''run'') (like_of None) (subscribe_all_start 0) = [demo_seen 1 0]"
    "poll_all plain_text demo_grown (like_of None) (advance (demo_seen 1 0)) = [demo_seen 2 1]"
    "poll_all plain_text demo_grown (like_of None) (advance (demo_seen 2 1)) = []"
    by (simp_all add: poll_all_def global_rows_def as_i64_small like_of_def any demo_log_def demo_grown_def demo_row_def
        subscribe_all_start_def advance_def)
qed

lemma demo_delivers:
  defines "poll \<equiv> \<lambda>db. poll_all plain_text db (like_of None)"
  shows "subscribed plain_text poll (subscribe_all_start 0)
      \<lparr>sub_db = demo_grown, sub_mark = advance (demo_seen 1 0), sub_held = [demo_seen 2 1], sub_sent = [demo_seen 1 0]\<rparr>"
    and "subscribed plain_text poll (subscribe_all_start 0)
      \<lparr>sub_db = demo_grown, sub_mark = advance (demo_seen 2 1), sub_held = [], sub_sent = [demo_seen 1 0, demo_seen 2 1]\<rparr>"
proof -
  note start = demo_subscribed [of poll "subscribe_all_start 0" "''run''"]
  from sub_poll [OF start] have "subscribed plain_text poll (subscribe_all_start 0)
      \<lparr>sub_db = demo_log ''run'', sub_mark = subscribe_all_start 0, sub_held = [demo_seen 1 0], sub_sent = []\<rparr>"
    by (simp add: poll_def demo_polls del: One_nat_def)
  from sub_deliver [OF this] have "subscribed plain_text poll (subscribe_all_start 0)
      \<lparr>sub_db = demo_log ''run'', sub_mark = advance (demo_seen 1 0), sub_held = [], sub_sent = [demo_seen 1 0]\<rparr>"
    by simp
  from sub_write [OF this, of 9 "''run''" "Exact 0" "[demo_log_event]" "[Some 2]" demo_grown]
  have "subscribed plain_text poll (subscribe_all_start 0)
      \<lparr>sub_db = demo_grown, sub_mark = advance (demo_seen 1 0), sub_held = [], sub_sent = [demo_seen 1 0]\<rparr>"
    by (simp add: demo_table_grows)
  from sub_poll [OF this] show held: "subscribed plain_text poll (subscribe_all_start 0)
      \<lparr>sub_db = demo_grown, sub_mark = advance (demo_seen 1 0), sub_held = [demo_seen 2 1], sub_sent = [demo_seen 1 0]\<rparr>"
    by (simp add: poll_def demo_polls del: One_nat_def)
  from sub_deliver [OF held] show "subscribed plain_text poll (subscribe_all_start 0)
      \<lparr>sub_db = demo_grown, sub_mark = advance (demo_seen 2 1), sub_held = [], sub_sent = [demo_seen 1 0, demo_seen 2 1]\<rparr>"
    by simp
qed

theorem subscribe_all_delivers_read_witness:
  "read_all plain_text demo_grown 0 Forward None = [demo_seen 1 0, demo_seen 2 1] \<and>
   (\<exists>rest. read_all plain_text demo_grown 0 Forward None = [demo_seen 1 0] @ [demo_seen 2 1] @ rest) \<and>
   ev_position (demo_seen 1 0) = 1 \<and> ev_position (demo_seen 2 1) = 2"
proof -
  have "[demo_seen 1 0, demo_seen 2 1] = read_all plain_text demo_grown 0 Forward None"
    using subscribe_all_delivers_read [THEN conjunct2, OF demo_delivers(2)] by (simp add: demo_polls del: One_nat_def)
  moreover have "\<exists>rest. read_all plain_text demo_grown 0 Forward None = [demo_seen 1 0] @ [demo_seen 2 1] @ rest"
    using subscribe_all_delivers_read [THEN conjunct1, OF demo_delivers(1)] by (simp del: One_nat_def)
  ultimately show ?thesis by (simp add: demo_row_def)
qed

theorem subscribe_stream_delivers_read_witness:
  "\<exists>rest. read_stream plain_text (demo_log ''run'') ''run'' 0 Forward = [] @ [] @ rest"
  using subscribe_stream_delivers_read [THEN conjunct1, OF demo_subscribed] by simp

section \<open>Renaming a namespace\<close>

lemma renamed_eq: "\<not> starts_with s new \<Longrightarrow> renamed old new s = new @ rest \<longleftrightarrow> s = old @ rest"
  by (auto simp: renamed_def starts_with_iff split: option.split)

lemma renamed_eq_other: "\<not> starts_with t new \<Longrightarrow> renamed old new s = t \<longleftrightarrow> s = t \<and> \<not> starts_with t old"
  by (cases "strip_prefix old s") (auto simp: renamed_def starts_with_def)

lemma renamed_rows:
  assumes "\<forall>r \<in> set rows. \<not> starts_with (lr_stream r) new"
  shows "filter (\<lambda>r. lr_stream r = new @ rest) (map (\<lambda>r. r\<lparr>lr_stream := renamed old new (lr_stream r)\<rparr>) rows) =
      map (\<lambda>r. r\<lparr>lr_stream := new @ rest\<rparr>) (filter (\<lambda>r. lr_stream r = old @ rest) rows)"
    and "\<not> starts_with t new \<Longrightarrow> filter (\<lambda>r. lr_stream r = t) (map (\<lambda>r. r\<lparr>lr_stream := renamed old new (lr_stream r)\<rparr>) rows) =
      (if starts_with t old then [] else filter (\<lambda>r. lr_stream r = t) rows)"
proof -
  show "filter (\<lambda>r. lr_stream r = new @ rest) (map (\<lambda>r. r\<lparr>lr_stream := renamed old new (lr_stream r)\<rparr>) rows) =
      map (\<lambda>r. r\<lparr>lr_stream := new @ rest\<rparr>) (filter (\<lambda>r. lr_stream r = old @ rest) rows)"
    using assms by (induction rows) (auto simp: renamed_eq)
  assume t: "\<not> starts_with t new"
  have "r\<lparr>lr_stream := lr_stream r\<rparr> = r" for r :: "'a log_row" by simp
  then have upd: "r\<lparr>lr_stream := renamed old new t\<rparr> = r" if "\<not> starts_with t old" "lr_stream r = t" for r :: "'a log_row"
    using that t by (metis renamed_eq_other)
  show "filter (\<lambda>r. lr_stream r = t) (map (\<lambda>r. r\<lparr>lr_stream := renamed old new (lr_stream r)\<rparr>) rows) =
      (if starts_with t old then [] else filter (\<lambda>r. lr_stream r = t) rows)"
    by (induction rows) (auto simp: renamed_eq_other [OF t] upd)
qed

text \<open>
  The identity migration moves a project's whole history: over a well-formed log with nothing
  under the new prefix it succeeds, every renamed stream holds exactly the events the old one held,
  at their positions and revisions, no stream under the old prefix is left unless it is under the
  new one, every other stream is unchanged and the log stays well-formed.
\<close>

theorem rename_moves_history:
  assumes ok: "log_ok db" and free: "\<not> has_stream_prefix db new"
  shows "\<exists>n db'. rename_stream_prefix old new db = Inr (n, db') \<and> log_ok db' \<and>
     (\<forall>rest. stream_log mt db' (new @ rest) = map (\<lambda>e. e\<lparr>ev_stream := new @ rest\<rparr>) (stream_log mt db (old @ rest))) \<and>
     (\<forall>s. starts_with s new \<or> stream_log mt db' s = (if starts_with s old then [] else stream_log mt db s))"
proof -
  let ?rows = "map (\<lambda>r. r\<lparr>lr_stream := renamed old new (lr_stream r)\<rparr>) (db_rows db)"
  let ?db = "db\<lparr>db_rows := ?rows\<rparr>"
  have none: "\<forall>r \<in> set (db_rows db). \<not> starts_with (lr_stream r) new"
    using free by (auto simp: has_stream_prefix_def list_ex_iff)
  note rr = renamed_rows [OF none]
  have srt: "sorted_wrt (\<lambda>a b. lr_revision a < lr_revision b) (stream_rows ?db s)" for s
  proof (cases "starts_with s new")
    case True
    then obtain rest where "s = new @ rest" by (auto simp: starts_with_iff)
    then show ?thesis using ok rr(1) [where old = old and rest = rest] by (simp add: sorted_wrt_map log_ok_def in_order_def)
  next
    case False
    then show ?thesis using ok rr(2) [OF False, where old = old] by (simp add: log_ok_def in_order_def)
  qed
  have ok': "log_ok ?db"
    using ok srt by (auto simp: log_ok_def db_ok_def in_order_def sorted_wrt_map)
  have "distinct (map (\<lambda>r. (lr_stream r, lr_revision r)) ?rows)"
  proof (rule distinct_by_class)
    show "distinct (map lr_revision (filter (\<lambda>r. lr_stream r = s) ?rows))" for s
      using srt [of s] by (simp add: sorted_less_distinct_map)
  qed
  then have "\<exists>n. rename_stream_prefix old new db = Inr (n, ?db)" by (simp add: rename_stream_prefix_def Let_def)
  moreover have "stream_log mt ?db (new @ rest) = map (\<lambda>e. e\<lparr>ev_stream := new @ rest\<rparr>) (stream_log mt db (old @ rest))" for rest
  proof -
    have "stream_rows ?db (new @ rest) = map (\<lambda>r. r\<lparr>lr_stream := new @ rest\<rparr>) (stream_rows db (old @ rest))"
      using rr(1) [where old = old and rest = rest] by simp
    then show ?thesis unfolding stream_log_def by (simp only: list.map_comp) (simp add: row_to_event_def o_def)
  qed
  moreover have "stream_log mt ?db s = (if starts_with s old then [] else stream_log mt db s)" if "\<not> starts_with s new" for s
  proof -
    have "stream_rows ?db s = (if starts_with s old then [] else stream_rows db s)" using rr(2) [OF that, where old = old] by simp
    then show ?thesis unfolding stream_log_def by (cases "starts_with s old") (simp_all only: if_True if_False list.map)
  qed
  ultimately show ?thesis using ok' by blast
qed

theorem rename_moves_history_witness:
  "\<exists>n db'. rename_stream_prefix ''proj-old-'' ''proj-new-'' (demo_log ''proj-old-run'') = Inr (n, db') \<and>
     map ev_position (stream_log plain_text db' ''proj-new-run'') = [1]"
proof -
  have "log_ok (demo_log ''proj-old-run'')" "\<not> has_stream_prefix (demo_log ''proj-old-run'') ''proj-new-''"
    by (simp_all add: log_ok_def db_ok_def in_order_def demo_log_def has_stream_prefix_def starts_with_def)
  from rename_moves_history [OF this, of "''proj-old-''" plain_text] obtain n db' where
    r: "rename_stream_prefix ''proj-old-'' ''proj-new-'' (demo_log ''proj-old-run'') = Inr (n, db')"
    "\<forall>rest. stream_log plain_text db' (''proj-new-'' @ rest) =
      map (\<lambda>e. e\<lparr>ev_stream := ''proj-new-'' @ rest\<rparr>) (stream_log plain_text (demo_log ''proj-old-run'') (''proj-old-'' @ rest))" by blast
  have "map ev_position (stream_log plain_text (demo_log ''proj-old-run'') ''proj-old-run'') = [1]"
    by (simp add: stream_log_def demo_log_def)
  then show ?thesis using r(1) spec [OF r(2), of "''run''"] by (intro exI conjI) (auto simp: o_def)
qed

section \<open>Alias history\<close>

text \<open>
  A name resolves at a recording through the latest definition recorded before it and to itself
  when none was: definitions recorded in position order, a definition moves exactly the reads of its
  own name past its position.
\<close>

theorem resolve_alias_define:
  assumes "\<forall>(p, c) \<in> set (unwrap_or [] (bt_get h alias)). p < at"
  shows "resolve_alias (define_alias at alias canonical h) mention pos =
     (if mention = alias \<and> at < pos then canonical else resolve_alias h mention pos)"
proof (cases "mention = alias")
  case True
  let ?defs = "unwrap_or [] (bt_get h alias)"
  have lt: "\<forall>x \<in> set ?defs. case x of (p, c) \<Rightarrow> p < at" using assms by auto
  have same: "resolve_alias h alias pos = (let n = length (takeWhile (\<lambda>(p, _). p < pos) ?defs)
      in if n = 0 then alias else snd (?defs ! (n - 1)))"
    by (cases "bt_get h alias") (simp_all add: resolve_alias_def Let_def)
  show ?thesis
  proof (cases "at < pos")
    case True
    then have "takeWhile (\<lambda>(p, _). p < pos) (?defs @ [(at, canonical)]) = ?defs @ [(at, canonical)]"
      using lt by (subst takeWhile_append2) auto
    then show ?thesis using True \<open>mention = alias\<close> by (simp add: resolve_alias_def define_alias_def bt_get_insert Let_def)
  next
    case False
    have tw: "takeWhile (\<lambda>(p, _). p < pos) (?defs @ [(at, canonical)]) = takeWhile (\<lambda>(p, _). p < pos) ?defs"
    proof (cases "\<forall>x \<in> set ?defs. case x of (p, c) \<Rightarrow> p < pos")
      case True
      then show ?thesis using False by (subst takeWhile_append2) (auto simp: takeWhile_eq_all_conv [THEN iffD2])
    next
      case False
      then show ?thesis by (auto intro!: takeWhile_append1)
    qed
    let ?n = "length (takeWhile (\<lambda>(p, _). p < pos) ?defs)"
    have "?n \<le> length ?defs" by (rule length_takeWhile_le)
    then have "(?defs @ [(at, canonical)]) ! (?n - 1) = ?defs ! (?n - 1)" if "?n \<noteq> 0"
      using that by (subst nth_append) (simp only: if_P diff_less less_le_trans less_one neq0_conv)
    then show ?thesis using False \<open>mention = alias\<close> same
      by (simp add: resolve_alias_def define_alias_def bt_get_insert Let_def tw)
  qed
qed (simp add: resolve_alias_def define_alias_def bt_get_insert)

theorem resolve_alias_define_witness:
  "resolve_alias (define_alias 3 ''a'' ''b'' []) ''a'' 4 = ''b''"
  using resolve_alias_define [of "[]" "''a''" 3 "''b''" "''a''" 4] by (simp add: bt_get_def)

end
