(* ===== verification/Run_Read.thy ===== *)
theory Run_Read
  imports Namespaced RunScope
begin

text \<open>
  The reads a command makes of the current run through the port (the domain crate's
  \<open>run/read.rs\<close>): the run's slice with the knowledge carried over from earlier runs, the run's id, and
  its hold. Each port call of a read may see a later log than the one before it, so the definitions
  take one state of the log per call.

  The theorems, for a project's namespace over the SQLite adapter: whatever other writers append
  between the calls, the read is exactly the selection of one prefix of the log, slicing it to the
  current run gives what slicing the whole stream gives, and the hold read answers the hold the
  whole projection carries.
\<close>

section \<open>Reads\<close>

definition CARRY_OVER_TYPES :: "string list" where
  "CARRY_OVER_TYPES = [TYPE_DECISION_MADE, TYPE_LESSON_LEARNED, TYPE_REVIEW_FINDING]"

definition ADOPTION_TYPES :: "string list" where
  "ADOPTION_TYPES = [TYPE_RUN_STARTED, TYPE_UNIT_STARTED, TYPE_UNIT_INTEGRATED, TYPE_UNIT_FAILED, TYPE_UNIT_STATUS]"

definition HOLD_TYPES :: "string list" where
  "HOLD_TYPES = [TYPE_RUN_STARTED, TYPE_RUN_HELD, TYPE_RUN_RELEASED]"

text \<open>\<open>dedup_by_key\<close>: of neighbours with one key the first stays.\<close>

fun dedup_by :: "('a \<Rightarrow> 'b) \<Rightarrow> 'a list \<Rightarrow> 'a list" where
  "dedup_by f [] = []"
| "dedup_by f [x] = [x]"
| "dedup_by f (x # y # xs) = (if f x = f y then dedup_by f (x # xs) else x # dedup_by f (y # xs))"

definition read_run :: "'d event_port \<Rightarrow> 'd \<Rightarrow> 'd \<Rightarrow> 'd \<Rightarrow> string \<Rightarrow> store_error + event list" where
  "read_run port d0 d1 d2 stream =
     bind_res (pt_last_position port d0 stream TYPE_RUN_STARTED) (\<lambda>last_start.
       case last_start of
         None \<Rightarrow> pt_read_typed port d1 stream 0 (Except PERCEPTION_TYPES)
       | Some boundary \<Rightarrow>
           bind_res (pt_read_typed port d1 stream 0 (Only CARRY_OVER_TYPES)) (\<lambda>carried.
           bind_res (pt_read_typed port d2 stream boundary (Except PERCEPTION_TYPES)) (\<lambda>slice.
             Inr (dedup_by ev_position (sort_key ev_position (carried @ slice))))))"

definition read_run_at_head ::
  "'d event_port \<Rightarrow> 'd \<Rightarrow> 'd \<Rightarrow> 'd \<Rightarrow> string \<Rightarrow> store_error + (event list \<times> revision option)" where
  "read_run_at_head port d0 d1 d2 stream =
     bind_res (read_run port d0 d1 d2 stream) (\<lambda>run.
       Inr (run, case map ev_revision run of [] \<Rightarrow> None | r # rs \<Rightarrow> Some (foldl max r rs)))"

definition read_current_run ::
  "codec \<Rightarrow> 'd event_port \<Rightarrow> 'd \<Rightarrow> 'd \<Rightarrow> 'd \<Rightarrow> string \<Rightarrow> store_error + (event list \<times> string)" where
  "read_current_run D port d0 d1 d2 stream =
     bind_res (read_run port d0 d1 d2 stream) (\<lambda>read.
       Inr (current_run read, unwrap_or [] (current_run_id D read)))"

definition read_from_boundary ::
  "'d event_port \<Rightarrow> 'd \<Rightarrow> 'd \<Rightarrow> string \<Rightarrow> string list \<Rightarrow> store_error + event list" where
  "read_from_boundary port d0 d1 stream types =
     bind_res (pt_last_position port d0 stream TYPE_RUN_STARTED) (\<lambda>b.
       pt_read_typed port d1 stream (unwrap_or 0 b) (Only types))"

definition read_current_run_id :: "codec \<Rightarrow> 'd event_port \<Rightarrow> 'd \<Rightarrow> 'd \<Rightarrow> string \<Rightarrow> store_error + string option" where
  "read_current_run_id D port d0 d1 stream =
     bind_res (read_from_boundary port d0 d1 stream [TYPE_RUN_STARTED]) (\<lambda>boundary. Inr (current_run_id D boundary))"

definition fold_holds :: "codec \<Rightarrow> run_state \<Rightarrow> event list \<Rightarrow> store_error + run_state" where
  "fold_holds D s events =
     (case fold_res (apply_event D) s (filter (\<lambda>e. ev_type e \<in> set HOLD_TYPES) events) of
        Inl (JsonError m) \<Rightarrow> Inl (Backend (''fold the run'' @ [CHR 0x27] @ ''s hold: '' @ m))
      | Inr s' \<Rightarrow> Inr s')"

definition read_current_hold_events :: "'d event_port \<Rightarrow> 'd \<Rightarrow> 'd \<Rightarrow> string \<Rightarrow> store_error + event list" where
  "read_current_hold_events port d0 d1 stream =
     bind_res (read_from_boundary port d0 d1 stream HOLD_TYPES) (\<lambda>events. Inr (current_run events))"

definition read_current_hold :: "codec \<Rightarrow> 'd event_port \<Rightarrow> 'd \<Rightarrow> 'd \<Rightarrow> string \<Rightarrow> store_error + hold option" where
  "read_current_hold D port d0 d1 stream =
     bind_res (read_current_hold_events port d0 d1 stream) (\<lambda>events.
     bind_res (fold_holds D run_state_new events) (\<lambda>s. Inr (st_hold s)))"

definition hold_stands :: "codec \<Rightarrow> 'd event_port \<Rightarrow> 'd \<Rightarrow> 'd \<Rightarrow> string \<Rightarrow> store_error + bool" where
  "hold_stands D port d0 d1 stream = bind_res (read_current_hold D port d0 d1 stream) (\<lambda>h. Inr (h \<noteq> None))"

section \<open>Lists in position order\<close>

lemma map_dedup_by: "map f (dedup_by f xs) = remdups_adj (map f xs)"
  by (induction f xs rule: dedup_by.induct) auto

lemma set_dedup_by: "set (dedup_by f xs) \<subseteq> set xs"
  by (induction f xs rule: dedup_by.induct) auto

lemma dedup_sorted_unique:
  fixes f :: "'a \<Rightarrow> 'b::linorder"
  assumes inj: "inj_on f (set ys)" and ys: "sorted_wrt (\<lambda>a b. f a < f b) ys" and st: "set xs = set ys"
  shows "dedup_by f (sort_key f xs) = ys"
proof -
  let ?d = "dedup_by f (sort_key f xs)"
  have sub: "set ?d \<subseteq> set ys" using set_dedup_by [of f "sort_key f xs"] st by simp
  have m: "map f ?d = remdups_adj (map f (sort_key f xs))" by (rule map_dedup_by)
  have "sorted_wrt (<) (map f ?d)"
    unfolding m strict_sorted_iff by (simp add: sorted_distinct_remdups_adj sorted_remdups_adj)
  moreover have "sorted_wrt (<) (map f ys)" using ys by (simp add: sorted_wrt_map)
  moreover have "set (map f ?d) = set (map f ys)" unfolding m using st by simp
  ultimately have "map f ?d = map f ys" by (rule sorted_less_unique)
  then show ?thesis by (rule map_inj_on) (use inj sub in \<open>auto intro: inj_on_subset\<close>)
qed

lemma current_run_suffix:
  assumes "is_run_start e" "e \<in> set rest"
  shows "current_run (before @ rest) = current_run rest"
proof (cases rest rule: current_run_cases)
  case none
  then show ?thesis using assms by blast
next
  case (run pre s post)
  then show ?thesis using current_run_unique [of s post "before @ pre"] by simp
qed

section \<open>The reads of a growing log\<close>

definition later :: "('d \<Rightarrow> bool) \<Rightarrow> ('d \<Rightarrow> string \<Rightarrow> event list) \<Rightarrow> 'd \<Rightarrow> 'd \<Rightarrow> bool" where
  "later ok log d d' \<longleftrightarrow> ok d \<and> ok d' \<and> (\<forall>s. \<exists>new. log d' s = log d s @ new)"

text \<open>The boundary a read starts its slice at, and what the read selects of the log.\<close>

definition run_boundary :: "event list \<Rightarrow> revision" where
  "run_boundary es = unwrap_or 0 (map_option ev_revision (find_last is_run_start es))"

definition run_selected :: "event list \<Rightarrow> event \<Rightarrow> bool" where
  "run_selected es e \<longleftrightarrow> (if run_boundary es \<le> ev_revision e then ev_type e \<notin> set PERCEPTION_TYPES else ev_type e \<in> set CARRY_OVER_TYPES)"

lemma carried_not_perception: "ty \<in> set CARRY_OVER_TYPES \<Longrightarrow> ty \<notin> set PERCEPTION_TYPES"
  by (auto simp: CARRY_OVER_TYPES_def PERCEPTION_TYPES_def DERIVED_INDEX_TYPES_def)

lemma start_not_perception: "is_run_start e \<Longrightarrow> ev_type e \<notin> set PERCEPTION_TYPES" "is_run_start e \<Longrightarrow> ev_type e \<in> set HOLD_TYPES"
  by (auto simp: is_run_start_def PERCEPTION_TYPES_def DERIVED_INDEX_TYPES_def HOLD_TYPES_def)

context event_store
begin

lemma later_trans: "later ok log d0 d1 \<Longrightarrow> later ok log d1 d2 \<Longrightarrow> later ok log d0 d2"
  unfolding later_def by (metis append.assoc)

lemma appended_later: "ok d \<Longrightarrow> pt_append port now s x es d = Inr (report, d') \<Longrightarrow> later ok log d d'"
  using append_writes [of d now s x es report d'] unfolding later_def by (metis append_Nil2)

text \<open>Cutting a grown log at the boundary an earlier state showed.\<close>

lemma boundary_cut:
  assumes l: "later ok log d0 d"
  shows "\<exists>before rest. log d s = before @ rest \<and> (\<forall>e \<in> set before. ev_revision e < run_boundary (log d0 s)) \<and>
     (\<forall>e \<in> set rest. run_boundary (log d0 s) \<le> ev_revision e) \<and> current_run (log d s) = current_run rest"
proof (cases "find_last is_run_start (log d0 s)")
  case None
  then have b: "run_boundary (log d0 s) = 0" by (simp add: run_boundary_def)
  show ?thesis
    by (intro exI [of _ "[]"] exI [of _ "log d s"]) (use l log_revisions in \<open>auto simp: b later_def\<close>)
next
  case (Some e)
  then have b: "run_boundary (log d0 s) = ev_revision e" and st: "is_run_start e" by (auto simp: run_boundary_def dest: find_last_SomeD)
  obtain before after where "log d0 s = before @ e # after" using find_last_split [OF Some] by blast
  with l obtain new where g: "log d s = before @ e # (after @ new)" unfolding later_def by (metis append.assoc append_Cons)
  have "sorted_wrt log_before (before @ e # (after @ new))" using log_sorted [of d s] l unfolding g [symmetric] later_def by blast
  then have "\<forall>x \<in> set before. log_before x e" "\<forall>x \<in> set (after @ new). log_before e x"
    by (simp_all add: sorted_wrt_append)
  then have lo: "x \<in> set before \<Longrightarrow> ev_revision x < ev_revision e" and hi: "x \<in> set (after @ new) \<Longrightarrow> ev_revision e < ev_revision x" for x
    unfolding log_before_def by blast+
  have "\<forall>x \<in> set before. ev_revision x < ev_revision e" using lo by blast
  moreover have "ev_revision e \<le> ev_revision x" if "x \<in> set (e # (after @ new))" for x
    using that hi [of x] by (cases "x = e") auto
  moreover have "current_run (log d s) = current_run (e # (after @ new))" unfolding g by (rule current_run_suffix [OF st]) simp
  ultimately show ?thesis using g b by (intro exI [of _ before] exI [of _ "e # (after @ new)"]) simp
qed

lemma last_start_boundary:
  "ok d \<Longrightarrow> pt_last_position port d s TYPE_RUN_STARTED = Inr (map_option ev_revision (find_last is_run_start (log d s)))"
  using last_position_is by (simp add: is_run_start_def [abs_def])

lemma log_inj_position: "ok d \<Longrightarrow> inj_on ev_position (set (log d s))"
proof -
  assume "ok d"
  then have "sorted_wrt (\<lambda>a b. ev_position a < ev_position b) (log d s)"
    by (intro sorted_wrt_mono_rel [OF _ log_sorted]) (simp_all add: log_before_def)
  then show ?thesis using sorted_less_distinct_map by (auto simp: distinct_map)
qed

text \<open>The read of the run: one selection of the last state's log, with the boundary of the first.\<close>

lemma read_run_is:
  assumes l01: "later ok log d0 d1" and l12: "later ok log d1 d2"
    and last: "find_last is_run_start (log d0 s) = None \<Longrightarrow> d = d1" "find_last is_run_start (log d0 s) \<noteq> None \<Longrightarrow> d = d2"
  shows "read_run port d0 d1 d2 s = Inr (filter (run_selected (log d0 s)) (log d s))"
proof (cases "find_last is_run_start (log d0 s)")
  case None
  have ok: "ok d0" "ok d1" using l01 by (simp_all add: later_def)
  have b: "run_boundary (log d0 s) = 0" by (simp add: run_boundary_def None)
  have "filter (\<lambda>e. 0 \<le> ev_revision e \<and> selects (Except PERCEPTION_TYPES) (ev_type e)) (log d1 s) = filter (run_selected (log d0 s)) (log d1 s)"
    by (rule filter_cong [OF refl]) (use log_revisions [OF ok(2)] in \<open>auto simp: run_selected_def b selects_def\<close>)
  then show ?thesis using last(1) None ok by (simp add: read_run_def last_start_boundary read_typed_is)
next
  case (Some e)
  have ok: "ok d0" "ok d1" "ok d2" using l01 l12 by (simp_all add: later_def)
  have d: "d = d2" using last(2) Some by simp
  have b: "run_boundary (log d0 s) = ev_revision e" by (simp add: run_boundary_def Some)
  obtain new where g: "log d2 s = log d1 s @ new" using l12 unfolding later_def by blast
  obtain before after where "log d0 s = before @ e # after" using find_last_split [OF Some] by blast
  then have e1: "e \<in> set (log d1 s)" using l01 unfolding later_def by (metis in_set_conv_decomp append.assoc append_Cons)
  have late: "ev_revision e \<le> ev_revision x" if "x \<in> set new" for x
    using log_sorted [OF ok(3), of s] e1 that unfolding g by (force simp: sorted_wrt_append log_before_def)
  let ?carried = "filter (\<lambda>x. 0 \<le> ev_revision x \<and> selects (Only CARRY_OVER_TYPES) (ev_type x)) (log d1 s)"
  let ?slice = "filter (\<lambda>x. ev_revision e \<le> ev_revision x \<and> selects (Except PERCEPTION_TYPES) (ev_type x)) (log d2 s)"
  let ?sel = "filter (run_selected (log d0 s)) (log d2 s)"
  have "set (?carried @ ?slice) = set ?sel"
    using log_revisions [OF ok(2), of _ s] late carried_not_perception
    by (auto simp: run_selected_def b selects_def g split: if_splits)
  moreover have "inj_on ev_position (set ?sel)" using log_inj_position [OF ok(3), of s] by (rule inj_on_subset) simp
  moreover have "sorted_wrt (\<lambda>a b. ev_position a < ev_position b) ?sel"
  proof (rule sorted_wrt_filter)
    show "sorted_wrt (\<lambda>a b. ev_position a < ev_position b) (log d2 s)"
      by (rule sorted_wrt_mono_rel [OF _ log_sorted [OF ok(3)]]) (simp add: log_before_def)
  qed
  ultimately have "dedup_by ev_position (sort_key ev_position (?carried @ ?slice)) = ?sel" by (intro dedup_sorted_unique)
  then show ?thesis by (simp add: read_run_def last_start_boundary read_typed_is ok Some d)
qed

text \<open>Slicing the read to the current run is slicing the stream.\<close>

lemma read_run_current:
  assumes l: "later ok log d0 d"
  shows "current_run (filter (run_selected (log d0 s)) (log d s)) = filter (\<lambda>e. ev_type e \<notin> set PERCEPTION_TYPES) (current_run (log d s))"
proof -
  obtain before rest where c: "log d s = before @ rest" "\<forall>e \<in> set before. ev_revision e < run_boundary (log d0 s)"
      "\<forall>e \<in> set rest. run_boundary (log d0 s) \<le> ev_revision e" "current_run (log d s) = current_run rest"
    using boundary_cut [OF l] by blast
  have b: "filter (run_selected (log d0 s)) before = filter (\<lambda>e. ev_type e \<in> set CARRY_OVER_TYPES) before"
    by (rule filter_cong [OF refl]) (use c(2) in \<open>auto simp: run_selected_def\<close>)
  have r: "filter (run_selected (log d0 s)) rest = filter (\<lambda>e. ev_type e \<notin> set PERCEPTION_TYPES) rest"
    by (rule filter_cong [OF refl]) (use c(3) in \<open>auto simp: run_selected_def\<close>)
  show ?thesis
  proof (cases "\<exists>e \<in> set rest. is_run_start e")
    case True
    then obtain e where "is_run_start e" "e \<in> set (filter (\<lambda>e. ev_type e \<notin> set PERCEPTION_TYPES) rest)"
      using start_not_perception by auto
    then have "current_run (filter (run_selected (log d0 s)) (log d s)) = current_run (filter (\<lambda>e. ev_type e \<notin> set PERCEPTION_TYPES) rest)"
      unfolding c(1) filter_append b r by (rule current_run_suffix)
    then show ?thesis unfolding c(4) by (simp add: current_run_of_filtered start_not_perception)
  next
    case False
    have none: "find_last is_run_start (log d0 s) = None"
    proof (rule ccontr)
      assume "find_last is_run_start (log d0 s) \<noteq> None"
      then obtain e where e: "find_last is_run_start (log d0 s) = Some e" by blast
      then have "e \<in> set (log d0 s)" "is_run_start e" "run_boundary (log d0 s) = ev_revision e"
        by (auto simp: run_boundary_def dest: find_last_SomeD)
      moreover have "set (log d0 s) \<subseteq> set (log d s)" using l unfolding later_def by (metis set_append Un_upper1)
      ultimately show False using c False by auto
    qed
    have "0 \<le> ev_revision e" if "e \<in> set (log d s)" for e using log_revisions l that by (auto simp: later_def)
    then have "before = []" using c(1,2) none by (cases before) (force simp: run_boundary_def)+
    then show ?thesis using r c(1) by (simp add: current_run_of_filtered start_not_perception)
  qed
qed

lemma read_from_boundary_is:
  assumes l: "later ok log d0 d" and ty: "TYPE_RUN_STARTED \<in> set types"
  shows "\<exists>es. read_from_boundary port d0 d s types = Inr es \<and> current_run es = filter (\<lambda>e. ev_type e \<in> set types) (current_run (log d s))"
proof -
  obtain before rest where c: "log d s = before @ rest" "\<forall>e \<in> set before. ev_revision e < run_boundary (log d0 s)"
      "\<forall>e \<in> set rest. run_boundary (log d0 s) \<le> ev_revision e" "current_run (log d s) = current_run rest"
    using boundary_cut [OF l] by blast
  have ok: "ok d0" "ok d" using l by (simp_all add: later_def)
  have "read_from_boundary port d0 d s types = Inr (filter (\<lambda>e. run_boundary (log d0 s) \<le> ev_revision e \<and> selects (Only types) (ev_type e)) (log d s))"
    by (simp add: read_from_boundary_def last_start_boundary ok read_typed_is run_boundary_def)
  moreover have "filter (\<lambda>e. run_boundary (log d0 s) \<le> ev_revision e \<and> selects (Only types) (ev_type e)) before = []"
    by (rule filter_none) (use c(2) in fastforce)
  moreover have "filter (\<lambda>e. run_boundary (log d0 s) \<le> ev_revision e \<and> selects (Only types) (ev_type e)) rest = filter (\<lambda>e. ev_type e \<in> set types) rest"
    by (rule filter_cong [OF refl]) (use c(3) in \<open>simp add: selects_def\<close>)
  moreover have "current_run (filter (\<lambda>e. ev_type e \<in> set types) rest) = filter (\<lambda>e. ev_type e \<in> set types) (current_run rest)"
    by (rule current_run_of_filtered) (use ty in \<open>simp add: is_run_start_def\<close>)
  ultimately show ?thesis unfolding c(4) by (simp add: c(1))
qed

end

section \<open>A project's run stream\<close>

text \<open>The store a command reads: the project's namespace over the SQLite adapter, beside whatever
  other writers append to it.\<close>

abbreviation project_port :: "'t meta_text \<Rightarrow> string \<Rightarrow> 't log_db event_port" where
  "project_port mt p \<equiv> namespaced (prefix_for p) (sqlite_port mt)"

abbreviation project_log :: "'t meta_text \<Rightarrow> string \<Rightarrow> 't log_db \<Rightarrow> string \<Rightarrow> event list" where
  "project_log mt p db s \<equiv> map (strip_event (prefix_for p)) (stream_log mt db (prefix_for p @ s))"

inductive grows :: "'t meta_text \<Rightarrow> 't log_db \<Rightarrow> 't log_db \<Rightarrow> bool" for mt where
  grows_refl: "grows mt db db"
| grows_append: "grows mt d0 d1 \<Longrightarrow> append mt now s x es d1 = Inr (report, d2) \<Longrightarrow> grows mt d0 d2"

lemma grows_later:
  assumes "grows mt d d'" "log_ok d"
  shows "later log_ok (project_log mt p) d d'"
  using assms
proof (induction rule: grows.induct)
  case (grows_append d0 d1 now s x es report d2)
  have ok: "log_ok d1" using grows_append by (simp add: later_def)
  have eff: "log_ok d2 \<and> (\<forall>s'. \<exists>new. stream_log mt d2 s' = stream_log mt d1 s' @ new)"
    using append_effect [OF ok, where mt = mt and now = now and s = s and x = x and es = es] grows_append.hyps(2)
    by simp (metis append_Nil2)
  then have "\<exists>new. project_log mt p d2 s' = project_log mt p d1 s' @ new" for s' by (metis map_append)
  then have "later log_ok (project_log mt p) d1 d2" using ok eff unfolding later_def by blast
  then show ?case using ns.later_trans grows_append by blast
qed (simp add: later_def)

text \<open>
  C17. The read of the current run is a prefix of the log whatever other writers append between its
  three store calls: it selects from one state of the stream exactly the run's events that are not
  perception and the earlier decisions, lessons and findings, in log order, each once; slicing it to
  the current run gives that state's current run without perception, and the id it answers is that
  run's.
\<close>

theorem read_current_run_exact:
  assumes ok: "log_ok d0" and g: "grows mt d0 d1" "grows mt d1 d2"
  shows "\<exists>d. (d = d1 \<or> d = d2) \<and>
     read_run (project_port mt p) d0 d1 d2 s = Inr (filter (run_selected (project_log mt p d0 s)) (project_log mt p d s)) \<and>
     read_current_run D (project_port mt p) d0 d1 d2 s =
       Inr (filter (\<lambda>e. ev_type e \<notin> set PERCEPTION_TYPES) (current_run (project_log mt p d s)),
         unwrap_or [] (current_run_id D (project_log mt p d s)))"
proof -
  let ?L = "project_log mt p"
  have l01: "later log_ok ?L d0 d1" by (rule grows_later [OF g(1) ok])
  then have l12: "later log_ok ?L d1 d2" using grows_later [OF g(2)] by (simp add: later_def)
  obtain d where d: "d = d1 \<or> d = d2" "find_last is_run_start (?L d0 s) = None \<Longrightarrow> d = d1" "find_last is_run_start (?L d0 s) \<noteq> None \<Longrightarrow> d = d2"
    by (cases "find_last is_run_start (?L d0 s) = None") auto
  have read: "read_run (project_port mt p) d0 d1 d2 s = Inr (filter (run_selected (?L d0 s)) (?L d s))"
    by (rule ns.read_run_is [OF l01 l12 d(2,3)])
  have "later log_ok ?L d0 d" using d(1) l01 ns.later_trans [OF l01 l12] by blast
  note cur = ns.read_run_current [OF this, of s]
  have "latest D (filter (run_selected (?L d0 s)) (?L d s)) = latest D (filter (\<lambda>e. ev_type e \<notin> set PERCEPTION_TYPES) (current_run (?L d s)))"
    by (metis cur latest_current_run)
  also have "\<dots> = latest D (?L d s)"
    using latest_filter [of "- set PERCEPTION_TYPES" D "current_run (?L d s)"]
    by (simp add: latest_current_run) (simp add: PERCEPTION_TYPES_def DERIVED_INDEX_TYPES_def)
  finally show ?thesis using d(1) by (intro exI [of _ d]) (simp add: read_current_run_def read cur current_run_id_def)
qed

section \<open>The hold read\<close>

lemma apply_event_hold:
  "ev_type e \<in> set HOLD_TYPES \<Longrightarrow> apply_event D s e = Inr s' \<Longrightarrow> st_hold t = st_hold s \<Longrightarrow>
     \<exists>t'. apply_event D t e = Inr t' \<and> st_hold t' = st_hold s'"
  unfolding HOLD_TYPES_def
  by (simp, elim disjE) (force simp: apply_event_def bind_res_def split: sum.splits)+

lemma upd_unit_hold [simp]: "st_hold (upd_unit u f s) = st_hold s"
  by (simp add: upd_unit_def Let_def split: option.split)

lemma apply_event_keeps_hold:
  "ev_type e \<notin> set HOLD_TYPES \<Longrightarrow> apply_event D s e = Inr s' \<Longrightarrow> st_hold s' = st_hold s"
  by (auto simp: HOLD_TYPES_def apply_event_def bind_res_def split: sum.splits if_splits)

lemma fold_hold_types:
  "fold_res (apply_event D) s es = Inr s' \<Longrightarrow> st_hold t = st_hold s \<Longrightarrow>
     \<exists>t'. fold_res (apply_event D) t (filter (\<lambda>e. ev_type e \<in> set HOLD_TYPES) es) = Inr t' \<and> st_hold t' = st_hold s'"
proof (induction es arbitrary: s t)
  case (Cons e es)
  from Cons.prems(1) obtain s1 where s1: "apply_event D s e = Inr s1" "fold_res (apply_event D) s1 es = Inr s'"
    by (auto split: sum.splits)
  show ?case
  proof (cases "ev_type e \<in> set HOLD_TYPES")
    case True
    from apply_event_hold [OF True s1(1) Cons.prems(2)] obtain t1 where "apply_event D t e = Inr t1" "st_hold t1 = st_hold s1" by blast
    then show ?thesis using Cons.IH [OF s1(2), of t1] True by simp
  next
    case False
    then have "st_hold t = st_hold s1" using apply_event_keeps_hold [OF False s1(1)] Cons.prems(2) by simp
    then show ?thesis using Cons.IH [OF s1(2)] False by simp
  qed
qed simp

text \<open>
  C31. The narrow hold read answers the hold of the whole projection: whenever the current run of the
  stream as the read's last call sees it projects, the read answers exactly the hold that projection
  carries, though it folds only the run boundaries and the hold events from the boundary an earlier
  call saw; so a launch waits exactly while the projected run is held.
\<close>

theorem read_current_hold_is_projected:
  assumes ok: "log_ok d0" and g: "grows mt d0 d1"
    and proj: "project D (current_run (project_log mt p d1 s)) = Inr st"
  shows "read_current_hold D (project_port mt p) d0 d1 s = Inr (st_hold st) \<and>
    hold_stands D (project_port mt p) d0 d1 s = Inr (st_hold st \<noteq> None)"
proof (intro conjI)
  let ?L = "project_log mt p"
  have "later log_ok ?L d0 d1" by (rule grows_later [OF g ok])
  from ns.read_from_boundary_is [OF this, of HOLD_TYPES s] obtain es where
    es: "read_from_boundary (project_port mt p) d0 d1 s HOLD_TYPES = Inr es"
      "current_run es = filter (\<lambda>e. ev_type e \<in> set HOLD_TYPES) (current_run (?L d1 s))" by (auto simp: HOLD_TYPES_def)
  from proj obtain r where r: "fold_res (apply_event D) run_state_new (current_run (?L d1 s)) = Inr r" "st_hold st = st_hold r"
    by (auto simp: project_def bind_res_def fold_manual_review_inbox_def split: sum.splits)
  from fold_hold_types [OF r(1), of run_state_new] obtain t where
    t: "fold_res (apply_event D) run_state_new (filter (\<lambda>e. ev_type e \<in> set HOLD_TYPES) (current_run (?L d1 s))) = Inr t" "st_hold t = st_hold r"
    by auto
  have "fold_holds D run_state_new (filter (\<lambda>e. ev_type e \<in> set HOLD_TYPES) (current_run (?L d1 s))) = Inr t"
    using t(1) by (simp add: fold_holds_def filter_filter conj_absorb cong: conj_cong)
  then show h: "read_current_hold D (project_port mt p) d0 d1 s = Inr (st_hold st)"
    by (simp add: read_current_hold_def read_current_hold_events_def es t(2) r(2))
  then show "hold_stands D (project_port mt p) d0 d1 s = Inr (st_hold st \<noteq> None)" by (simp add: hold_stands_def)
qed

lemma demo_grows: "grows plain_text empty_db (demo_log s)"
  using grows_append [OF grows_refl, of plain_text 9 s NoStream "[demo_log_event]"] by (simp add: demo_append)

theorem read_current_run_exact_witness:
  "\<exists>d. (d = demo_log ''proj-a-run'' \<or> d = demo_log ''proj-a-run'') \<and>
     read_run (project_port plain_text ''a'') empty_db (demo_log ''proj-a-run'') (demo_log ''proj-a-run'') ''run'' =
       Inr (filter (run_selected (project_log plain_text ''a'' empty_db ''run'')) (project_log plain_text ''a'' d ''run'')) \<and>
     read_current_run demo_codec (project_port plain_text ''a'') empty_db (demo_log ''proj-a-run'') (demo_log ''proj-a-run'') ''run'' =
       Inr (filter (\<lambda>e. ev_type e \<notin> set PERCEPTION_TYPES) (current_run (project_log plain_text ''a'' d ''run'')),
         unwrap_or [] (current_run_id demo_codec (project_log plain_text ''a'' d ''run'')))"
  by (rule read_current_run_exact [OF log_ok_empty demo_grows grows_refl])

theorem read_current_hold_is_projected_witness:
  "read_current_hold demo_codec (project_port plain_text ''a'') empty_db empty_db ''run'' = Inr None"
proof -
  have "project demo_codec (current_run (project_log plain_text ''a'' empty_db ''run'')) = Inr run_state_new"
    by (simp add: current_run_def project_def fold_manual_review_inbox_def run_state_new_def)
  from read_current_hold_is_projected [THEN conjunct1, OF log_ok_empty grows_refl this] show ?thesis by (simp add: run_state_new_def)
qed

end
