(* ===== verification/Stage_Peel.thy ===== *)
theory Stage_Peel
  imports Stage_Graph
begin

text \<open>
  The conductor's own cycle check \<open>validate_acyclic\<close> (\<open>conductor.rs\<close>): it peels off the stages whose
  needs have all been peeled off and compares the count with the number of stages. The two hash maps
  are maps; the order in which the first one is iterated is not determined, so it is an argument of
  the model and the theorem holds for every order. A stage is peeled off at most once, so as many
  rounds as there are stages are enough.
\<close>

section \<open>The check\<close>

definition need_count :: "stages \<Rightarrow> string \<rightharpoonup> nat" where
  "need_count stages n = map_option (\<lambda>st. length (s_needs st)) (bt_get stages n)"

definition dependents :: "stages \<Rightarrow> string \<Rightarrow> string list" where
  "dependents stages need =
     concat (map (\<lambda>(n, st). map (\<lambda>_. n) (filter (\<lambda>m. m = need) (s_needs st))) stages)"

definition release_step :: "(string \<rightharpoonup> nat) \<times> string list \<Rightarrow> string \<Rightarrow> (string \<rightharpoonup> nat) \<times> string list" where
  "release_step w dep =
     (case w of (indeg, queue) \<Rightarrow>
        (case indeg dep of
           None \<Rightarrow> (indeg, queue)
         | Some d \<Rightarrow> (indeg(dep \<mapsto> d - 1), if d - 1 = 0 then queue @ [dep] else queue)))"

text \<open>The rounds: \<open>None\<close> when the fuel ends first.\<close>

fun peel :: "nat \<Rightarrow> stages \<Rightarrow> (string \<rightharpoonup> nat) \<Rightarrow> string list \<Rightarrow> nat \<Rightarrow> nat option" where
  "peel f stages indeg [] peeled = Some peeled"
| "peel 0 stages indeg (q # qs) peeled = None"
| "peel (Suc f) stages indeg (q # qs) peeled =
     (case foldl release_step (indeg, butlast (q # qs)) (dependents stages (last (q # qs))) of
        (indeg', queue') \<Rightarrow> peel f stages indeg' queue' (peeled + 1))"

definition validate_acyclic :: "string list \<Rightarrow> stages \<Rightarrow> (string + unit) option" where
  "validate_acyclic order stages =
     map_option
       (\<lambda>peeled. if peeled \<noteq> length stages then Inl ''workflow has a dependency cycle'' else Inr ())
       (peel (length stages) stages (need_count stages)
          (filter (\<lambda>n. need_count stages n = Some 0) order) 0)"

section \<open>What a round does\<close>

lemma count_list_replicated: "count_list (map (\<lambda>_. n) xs) k = (if k = n then length xs else 0)"
  by (induction xs) auto

lemma count_dependents:
  assumes "bt_wf stages"
  shows "count_list (dependents stages need) n =
    (case bt_get stages n of None \<Rightarrow> 0 | Some st \<Rightarrow> count_list (s_needs st) need)"
  using assms
proof (induction stages)
  case Nil
  then show ?case by (simp add: dependents_def bt_get_def)
next
  case (Cons kv rest)
  obtain k st where kv: "kv = (k, st)" by (cases kv)
  have wf: "bt_wf rest" and new: "k \<notin> set (map fst rest)"
    using Cons.prems kv by (auto simp: bt_wf_def)
  have "bt_get rest k = None" using new by (simp add: bt_get_def map_of_eq_None_iff)
  moreover have "length (filter (\<lambda>m. m = need) (s_needs st)) = count_list (s_needs st) need"
    unfolding count_list_eq_length_filter by (rule arg_cong [where f = length]) (auto intro: filter_cong)
  ultimately show ?case using Cons.IH [OF wf] kv
    by (auto simp: dependents_def bt_get_def count_list_replicated split: option.splits)
qed

lemma release_fold:
  assumes "\<forall>n. case indeg n of None \<Rightarrow> count_list ds n = 0 | Some d \<Rightarrow> count_list ds n \<le> d"
    and "foldl release_step (indeg, queue) ds = (indeg', queue')"
  shows "(\<forall>n. indeg' n = map_option (\<lambda>d. d - count_list ds n) (indeg n)) \<and>
    (\<exists>new. queue' = queue @ new \<and> distinct new \<and>
       set new = {n. n \<in> set ds \<and> indeg n = Some (count_list ds n)})"
  using assms
proof (induction ds arbitrary: indeg queue)
  case Nil
  then show ?case by (auto simp: option.map_ident)
next
  case (Cons x ds)
  obtain d where d: "indeg x = Some d" "Suc (count_list ds x) \<le> d"
    using Cons.prems(1) [rule_format, of x] by (auto split: option.splits)
  let ?indeg = "indeg(x \<mapsto> d - 1)" and ?queue = "if d - 1 = 0 then queue @ [x] else queue"
  have step: "release_step (indeg, queue) x = (?indeg, ?queue)" by (simp add: release_step_def d)
  have ok: "\<forall>n. case ?indeg n of None \<Rightarrow> count_list ds n = 0 | Some d \<Rightarrow> count_list ds n \<le> d"
  proof
    fix n
    show "case ?indeg n of None \<Rightarrow> count_list ds n = 0 | Some d \<Rightarrow> count_list ds n \<le> d"
      using Cons.prems(1) [rule_format, of n] d by (auto split: option.splits if_splits)
  qed
  have rest: "foldl release_step (?indeg, ?queue) ds = (indeg', queue')"
    using Cons.prems(2) unfolding foldl_Cons step .
  from Cons.IH [OF ok rest] obtain new where
    ind: "\<forall>n. indeg' n = map_option (\<lambda>d. d - count_list ds n) (?indeg n)"
    and new: "queue' = ?queue @ new" "distinct new"
      "set new = {n. n \<in> set ds \<and> ?indeg n = Some (count_list ds n)}" by blast
  have A: "\<forall>n. indeg' n = map_option (\<lambda>d. d - count_list (x # ds) n) (indeg n)"
    using ind d by auto
  let ?new = "if d - 1 = 0 then x # new else new"
  have "queue' = queue @ ?new" using new(1) by simp
  moreover have "distinct ?new"
  proof (cases "d - 1 = 0")
    case True
    then have "count_list ds x = 0" using d(2) by simp
    then have "x \<notin> set ds" by (simp add: count_list_0_iff)
    then show ?thesis using new True by simp
  qed (use new in simp)
  moreover have "set ?new = {n. n \<in> set (x # ds) \<and> indeg n = Some (count_list (x # ds) n)}"
  proof (rule set_eqI)
    fix n
    show "n \<in> set ?new \<longleftrightarrow> n \<in> {n. n \<in> set (x # ds) \<and> indeg n = Some (count_list (x # ds) n)}"
    proof (cases "n = x")
      case True
      have "x \<in> set ds \<longleftrightarrow> count_list ds x \<noteq> 0" by (simp add: count_list_0_iff)
      moreover have "(d - 1 = count_list ds x) = (d = Suc (count_list ds x))" using d(2) by arith
      ultimately show ?thesis using True d by (simp add: new(3)) linarith
    qed (use new(3) in auto)
  qed
  ultimately show ?case using A by blast
qed

section \<open>The invariant of the rounds\<close>

text \<open>
  \<open>P\<close> are the stages peeled off so far, in order. A stage's count is that of its needs not peeled off,
  the stages with none are exactly those peeled off or queued, and a peeled stage's needs were peeled
  off before it.
\<close>

definition peel_inv :: "stages \<Rightarrow> string list \<Rightarrow> (string \<rightharpoonup> nat) \<Rightarrow> string list \<Rightarrow> bool" where
  "peel_inv stages P indeg Q \<longleftrightarrow>
     distinct (P @ Q) \<and>
     (\<forall>n. indeg n = map_option (\<lambda>st. length (filter (\<lambda>m. m \<notin> set P) (s_needs st))) (bt_get stages n)) \<and>
     set (P @ Q) = {n. indeg n = Some 0} \<and>
     (\<forall>i < length P. \<forall>m. (P ! i, m) \<in> need_edges stages \<longrightarrow> m \<in> set (take i P))"

lemma peel_invD:
  assumes "peel_inv stages P indeg Q"
  shows "distinct (P @ Q)"
    and "indeg n = map_option (\<lambda>st. length (filter (\<lambda>m. m \<notin> set P) (s_needs st))) (bt_get stages n)"
    and "n \<in> set (P @ Q) \<longleftrightarrow> indeg n = Some 0"
    and "i < length P \<Longrightarrow> (P ! i, m) \<in> need_edges stages \<Longrightarrow> m \<in> set (take i P)"
  using assms unfolding peel_inv_def by blast+

lemma length_filter_insert:
  "x \<notin> A \<Longrightarrow> length (filter (\<lambda>m. m \<notin> insert x A) ms) = length (filter (\<lambda>m. m \<notin> A) ms) - count_list ms x"
proof -
  assume x: "x \<notin> A"
  have "length (filter (\<lambda>m. m \<notin> A) ms) = length (filter (\<lambda>m. m \<notin> insert x A) ms) + count_list ms x"
    by (induction ms) (use x in auto)
  then show ?thesis by simp
qed

lemma count_le_open: "x \<notin> A \<Longrightarrow> count_list ms x \<le> length (filter (\<lambda>m. m \<notin> A) ms)"
  by (induction ms) auto

lemma peel_inv_round:
  assumes wf: "bt_wf stages" and inv: "peel_inv stages P indeg (Q @ [x])"
    and step: "foldl release_step (indeg, Q) (dependents stages x) = (indeg', queue')"
  shows "peel_inv stages (P @ [x]) indeg' queue'"
proof -
  let ?ds = "dependents stages x"
  have dist: "distinct (P @ Q @ [x])"
    and deg: "\<And>n. indeg n = map_option (\<lambda>st. length (filter (\<lambda>m. m \<notin> set P) (s_needs st))) (bt_get stages n)"
    and zero: "insert x (set (P @ Q)) = {n. indeg n = Some 0}"
    and before: "\<And>i m. i < length P \<Longrightarrow> (P ! i, m) \<in> need_edges stages \<Longrightarrow> m \<in> set (take i P)"
    using inv by (simp_all add: peel_inv_def)
  have x: "x \<notin> set P" using dist by simp
  have count: "count_list ?ds n = (case bt_get stages n of None \<Rightarrow> 0 | Some st \<Rightarrow> count_list (s_needs st) x)" for n
    by (rule count_dependents [OF wf])
  have le: "indeg n = Some d \<Longrightarrow> count_list ?ds n \<le> d" and none: "indeg n = None \<Longrightarrow> count_list ?ds n = 0" for n d
    using x by (auto simp: count deg count_le_open)
  then have "\<forall>n. case indeg n of None \<Rightarrow> count_list ?ds n = 0 | Some d \<Rightarrow> count_list ?ds n \<le> d"
    by (auto split: option.split)
  from release_fold [OF this step] obtain new where
    ind: "\<And>n. indeg' n = map_option (\<lambda>d. d - count_list ?ds n) (indeg n)"
    and new: "queue' = Q @ new" "distinct new"
      "set new = {n. n \<in> set ?ds \<and> indeg n = Some (count_list ?ds n)}" by blast
  have deg': "indeg' n = map_option (\<lambda>st. length (filter (\<lambda>m. m \<notin> set (P @ [x])) (s_needs st))) (bt_get stages n)" for n
    using length_filter_insert [OF x] by (simp add: ind deg count option.map_comp o_def split: option.split)
  have pos: "n \<in> set ?ds \<longleftrightarrow> count_list ?ds n \<noteq> 0" for n by (simp add: count_list_0_iff)
  have fresh: "n \<notin> insert x (set (P @ Q))" if "n \<in> set new" for n
    using that unfolding zero new(3) pos by auto
  have z': "{n. indeg' n = Some 0} = insert x (set (P @ Q)) \<union> set new"
  proof (rule set_eqI)
    fix n
    show "n \<in> {n. indeg' n = Some 0} \<longleftrightarrow> n \<in> insert x (set (P @ Q)) \<union> set new"
      unfolding zero new(3) Un_iff mem_Collect_eq pos ind using le [of n] by (cases "indeg n") (auto simp: le_antisym)
  qed
  have tail: "m \<in> set P" if e: "(x, m) \<in> need_edges stages" for m
  proof -
    have "indeg x = Some 0" using zero by auto
    then show ?thesis using e by (auto simp: deg need_edges_def filter_empty_conv)
  qed
  have "distinct ((P @ [x]) @ queue')" using dist new fresh by auto
  moreover have "set ((P @ [x]) @ queue') = {n. indeg' n = Some 0}"
    unfolding z' new(1) by auto
  moreover have "\<forall>i < length (P @ [x]). \<forall>m. ((P @ [x]) ! i, m) \<in> need_edges stages \<longrightarrow> m \<in> set (take i (P @ [x]))"
    using before tail by (auto simp: nth_append less_Suc_eq)
  ultimately show ?thesis using deg' unfolding peel_inv_def by blast
qed

lemma peel_inv_bound:
  assumes "peel_inv stages P indeg Q"
  shows "length P + length Q \<le> length stages"
proof -
  have "n \<in> set (bt_keys stages)" if "n \<in> set (P @ Q)" for n
  proof -
    from that have "indeg n = Some 0" using assms unfolding peel_inv_def by blast
    then have "bt_get stages n \<noteq> None" using assms by (auto simp: peel_inv_def)
    then show ?thesis by (simp add: bt_get_def bt_keys_def map_of_eq_None_iff)
  qed
  then have "set (P @ Q) \<subseteq> set (bt_keys stages)" by blast
  then have "card (set (P @ Q)) \<le> length (bt_keys stages)"
    by (meson List.finite_set card_length card_mono le_trans)
  moreover have "distinct (P @ Q)" using assms by (simp add: peel_inv_def)
  ultimately show ?thesis by (simp only: distinct_card [OF \<open>distinct (P @ Q)\<close>] length_append bt_keys_def length_map)
qed

lemma peel_rounds:
  assumes "bt_wf stages" "peel_inv stages P indeg Q" "length stages \<le> f + length P" "peeled = length P"
  shows "\<exists>P' indeg'. peel f stages indeg Q peeled = Some (length P') \<and> peel_inv stages P' indeg' []"
  using assms
proof (induction f stages indeg Q peeled arbitrary: P rule: peel.induct)
  case (1 f stages indeg peeled)
  then show ?case by auto
next
  case (2 stages indeg q qs peeled)
  then show ?case using peel_inv_bound [OF 2(2)] by simp
next
  case (3 f stages indeg q qs peeled)
  let ?Q = "butlast (q # qs)" and ?x = "last (q # qs)"
  obtain indeg' queue' where
    s: "foldl release_step (indeg, ?Q) (dependents stages ?x) = (indeg', queue')"
    by (cases "foldl release_step (indeg, ?Q) (dependents stages ?x)")
  have "q # qs = ?Q @ [?x]" by (simp only: append_butlast_last_id list.distinct not_False_eq_True)
  then have "peel_inv stages P indeg (?Q @ [?x])" using 3(3) by simp
  from peel_inv_round [OF 3(2) this s]
  have inv: "peel_inv stages (P @ [?x]) indeg' queue'" .
  have "length stages \<le> f + length (P @ [?x])" "peeled + 1 = length (P @ [?x])" using 3(4,5) by simp_all
  from 3(1) [OF s [symmetric] 3(2) inv this] s show ?case by simp
qed

text \<open>A stage left when nothing more can be peeled off needs a stage that is left too, or no stage.\<close>

lemma peel_stuck:
  assumes inv: "peel_inv stages P indeg []" and st: "bt_get stages n = Some st" and n: "n \<notin> set P"
  shows "\<exists>m. (n, m) \<in> need_edges stages \<and> m \<notin> set P"
proof -
  have "indeg n \<noteq> Some 0" using n peel_invD(3) [OF inv, of n] by simp
  then have "filter (\<lambda>m. m \<notin> set P) (s_needs st) \<noteq> []" using st peel_invD(2) [OF inv, of n] by auto
  then show ?thesis using st by (auto simp: need_edges_def filter_empty_conv)
qed

lemma peel_complete_iff:
  assumes inv: "peel_inv stages P indeg []" and wf: "bt_wf stages"
  shows "length P = length stages \<longleftrightarrow>
    acyclic (need_edges stages) \<and> snd ` need_edges stages \<subseteq> set (bt_keys stages)"
proof -
  let ?E = "need_edges stages" and ?K = "set (bt_keys stages)"
  have dist: "distinct P" using peel_invD(1) [OF inv] by simp
  have sub: "set P \<subseteq> ?K"
  proof
    fix n assume "n \<in> set P"
    then have "indeg n = Some 0" using peel_invD(3) [OF inv, of n] by simp
    then show "n \<in> ?K" using peel_invD(2) [OF inv, of n] by (auto simp: btm.keys_get)
  qed
  have K: "card ?K = length stages"
    using distinct_card [OF sorted_less_distinct [OF wf [unfolded bt_wf_def]]] by (simp add: bt_keys_def)
  have full: "length P = length stages \<longleftrightarrow> set P = ?K"
    using dist sub K by (metis List.finite_set card_subset_eq distinct_card)
  have before: "\<exists>j < i. P ! j = m" if "i < length P" "(P ! i, m) \<in> ?E" for i m
    using peel_invD(4) [OF inv that] that(1) by (auto simp: in_set_conv_nth)
  show ?thesis unfolding full
  proof (intro iffI conjI)
    assume all: "set P = ?K"
    show "snd ` ?E \<subseteq> ?K"
    proof clarify
      fix n m assume e: "(n, m) \<in> ?E"
      then have "n \<in> set P" unfolding all by (auto simp: need_edges_def btm.keys_get)
      then show "snd (n, m) \<in> ?K" using before e sub by (force simp: in_set_conv_nth [of n])
    qed
    have at: "the_inv_into {..<length P} ((!) P) (P ! i) = i" if "i < length P" for i
      by (rule the_inv_into_f_f) (use dist that in \<open>auto intro: inj_on_nth\<close>)
    show "acyclic ?E"
    proof (rule acyclic_rank)
      fix n m assume e: "(n, m) \<in> ?E"
      then have "n \<in> set P" unfolding all by (auto simp: need_edges_def btm.keys_get)
      then obtain i where i: "i < length P" "n = P ! i" by (auto simp: in_set_conv_nth)
      then obtain j where j: "j < i" "m = P ! j" using before e by blast
      show "the_inv_into {..<length P} ((!) P) m < the_inv_into {..<length P} ((!) P) n"
        unfolding i(2) j(2) at [OF i(1)] at [OF less_trans [OF j(1) i(1)]] by (rule j(1))
    qed
  next
    assume A: "acyclic ?E \<and> snd ` ?E \<subseteq> ?K"
    show "set P = ?K"
    proof (rule ccontr)
      assume "set P \<noteq> ?K"
      then have ne: "?K - set P \<noteq> {}" using sub by blast
      have "finite ?E"
      proof (rule finite_subset)
        have "fst ` ?E \<subseteq> ?K" by (auto simp: need_edges_def btm.keys_get)
        then show "?E \<subseteq> ?K \<times> ?K" using A by force
      qed simp
      then have "wf (?E\<inverse>)" using A by (simp add: finite_acyclic_wf_converse)
      then obtain n where n: "n \<in> ?K - set P" and min: "\<And>m. (m, n) \<in> ?E\<inverse> \<Longrightarrow> m \<notin> ?K - set P"
        using ne by (meson wfE_min')
      obtain st where "bt_get stages n = Some st"
        using n by (auto simp: btm.keys_get)
      from peel_stuck [OF inv this] n obtain m where "(n, m) \<in> ?E" "m \<notin> set P" by blast
      then show False using min A by force
    qed
  qed
qed

text \<open>
  The conductor's cycle check always answers, whatever order its hash map is iterated in: it
  accepts a workflow exactly when no chain of needs returns to its stage and every need names a stage,
  and reports a dependency cycle otherwise.
\<close>

theorem validate_acyclic_exact:
  assumes "bt_wf stages" "distinct order" "set order = set (bt_keys stages)"
  shows "validate_acyclic order stages =
    Some (if acyclic (need_edges stages) \<and> snd ` need_edges stages \<subseteq> set (bt_keys stages) then Inr ()
          else Inl ''workflow has a dependency cycle'')"
proof -
  let ?Q = "filter (\<lambda>n. need_count stages n = Some 0) order"
  have "n \<in> set order" if "need_count stages n = Some 0" for n
    using that unfolding assms(3) by (auto simp: need_count_def btm.keys_get)
  then have "peel_inv stages [] (need_count stages) ?Q"
    using assms(2) by (auto simp: peel_inv_def need_count_def)
  from peel_rounds [OF assms(1) this] obtain P indeg where
    "peel (length stages) stages (need_count stages) ?Q 0 = Some (length P)" "peel_inv stages P indeg []"
    by (metis add.right_neutral le_refl list.size(3))
  then show ?thesis using peel_complete_iff [OF _ assms(1)] by (simp add: validate_acyclic_def)
qed

end
