(* ===== verification/Graph_Tables.thy ===== *)
theory Graph_Tables
  imports Retention Playbooks "HOL-Library.Product_Lexorder"
begin

text \<open>
  The tables of the context graph and the statements its fold writes them with
  (\<open>rigger-graph-sqlite/src/contextgraph/sqlite.rs\<close>). A table is the list of its rows in row order; an
  \<open>UPDATE\<close> maps over the rows it matches, an \<open>INSERT\<close> appends, a \<open>DELETE\<close> filters. A node's \<open>attrs\<close> is a JSON
  object of strings, kept as the map it holds, \<open>None\<close> for SQL's null. Edge ids are handed out by a counter
  that is never reused. One database may hold many projects, so every table but the aliases and the
  ledgers of positions and owed names has a project column.

  Failures of the database itself are not modelled; a payload that does not decode is an error value.
\<close>

section \<open>Names\<close>

abbreviation "KIND_DECISION \<equiv> ''decision''"
abbreviation "KIND_ARTIFACT \<equiv> ''artifact''"
abbreviation "KIND_AGENT \<equiv> ''agent''"
abbreviation "KIND_GATE \<equiv> ''gate''"
abbreviation "KIND_LESSON \<equiv> ''lesson''"
abbreviation "KIND_STAGE \<equiv> ''stage''"
abbreviation "KIND_FINDING \<equiv> ''finding''"
abbreviation "KIND_CODE_ENTITY \<equiv> ''code-entity''"
abbreviation "KIND_FILE \<equiv> ''file''"
abbreviation "KIND_DESIGN_DOC \<equiv> ''design-doc''"
abbreviation "KIND_ARCH_DECISION \<equiv> ''arch-decision''"
abbreviation "KIND_HANDBOOK_RULE \<equiv> ''handbook-rule''"
abbreviation "KIND_RATIONALE \<equiv> ''rationale''"
abbreviation "KIND_COMMUNITY \<equiv> ''community''"
abbreviation "KIND_CONCEPT \<equiv> ''concept''"
abbreviation "REL_SUPERSEDES \<equiv> ''SUPERSEDES''"
abbreviation "REL_GOVERNS \<equiv> ''GOVERNS''"
abbreviation "REL_ABOUT \<equiv> ''ABOUT''"
abbreviation "REL_RAISED \<equiv> ''RAISED''"
abbreviation "REL_CONTAINS \<equiv> ''CONTAINS''"
abbreviation "REL_REFERENCES \<equiv> ''REFERENCES''"
abbreviation "REL_CALLS \<equiv> ''CALLS''"
abbreviation "REL_SPECIFIES \<equiv> ''SPECIFIES''"
abbreviation "REL_CONSTRAINS \<equiv> ''CONSTRAINS''"
abbreviation "REL_EXPLAINS \<equiv> ''explains''"
abbreviation "REL_DOC_REFERENCES \<equiv> ''references''"
abbreviation "REL_IN_COMMUNITY \<equiv> ''IN_COMMUNITY''"
abbreviation "REL_REALIZES \<equiv> ''REALIZES''"
abbreviation "REL_NEEDS \<equiv> ''NEEDS''"
abbreviation "REL_RUNS \<equiv> ''RUNS''"
abbreviation "REL_REVIEWS \<equiv> ''REVIEWS''"
abbreviation "REL_REVIEWS_LIGHT \<equiv> ''REVIEWS_LIGHT''"
abbreviation "TIER_EXTRACTED \<equiv> ''extracted''"
abbreviation "TIER_INFERRED \<equiv> ''inferred''"
abbreviation "TIER_AMBIGUOUS \<equiv> ''ambiguous''"

definition PROMOTING_KINDS :: "string list" where
  "PROMOTING_KINDS =
     [KIND_FILE, KIND_CODE_ENTITY, KIND_DESIGN_DOC, KIND_ARCH_DECISION, KIND_HANDBOOK_RULE, KIND_RATIONALE]"

definition NON_TARGET_KINDS :: "string list" where
  "NON_TARGET_KINDS = [''field'', ''property'', ''declaration'']"

definition CODE_KIND_PRECEDENCE :: "string list" where
  "CODE_KIND_PRECEDENCE =
     [''type'', ''trait'', ''impl'', ''function'', ''method'', ''macro'', ''constructor'', ''variant'', ''constant'', ''static'',
      ''variable'', ''declaration'', ''property'', ''field'', ''module'', ''other'']"

definition kind_rank :: "string \<Rightarrow> nat" where
  "kind_rank kind =
     (let i = length (takeWhile (\<lambda>k. k \<noteq> kind) CODE_KIND_PRECEDENCE)
      in if i < length CODE_KIND_PRECEDENCE then i else length CODE_KIND_PRECEDENCE - 1)"

definition definition_precedence :: "string \<Rightarrow> u32 \<Rightarrow> nat \<times> u32" where
  "definition_precedence kind line = (kind_rank kind, line)"

definition is_call_target :: "string option \<Rightarrow> bool" where
  "is_call_target kind \<longleftrightarrow> (case kind of None \<Rightarrow> True | Some k \<Rightarrow> k \<notin> set NON_TARGET_KINDS)"

definition entity_id :: "string \<Rightarrow> string \<Rightarrow> string" where
  "entity_id file rest = file @ ''::'' @ rest"

definition placeholder_id :: "string \<Rightarrow> string \<Rightarrow> string" where
  "placeholder_id file leaf = entity_id file (''%'' @ leaf)"

section \<open>The tables\<close>

type_synonym attrs = "(string, string) btree"

record node_cell =
  nc_id :: string
  nc_kind :: string
  nc_attrs :: "attrs option"
  nc_project :: string

record edge_cell =
  ec_id :: nat
  ec_from :: string
  ec_to :: string
  ec_rel :: string
  ec_valid_from :: int
  ec_valid_to :: "int option"
  ec_source :: position
  ec_project :: string
  ec_tier :: string

record generation_cell =
  gc_project :: string
  gc_identity :: string
  gc_generation :: string
  gc_prior :: "string option"

record node_assertion =
  na_project :: string
  na_identity :: string
  na_generation :: string
  na_node :: string
  na_kind :: string
  na_attrs :: "attrs option"

record edge_assertion =
  ea_project :: string
  ea_identity :: string
  ea_generation :: string
  ea_edge :: nat
  ea_since :: int
  ea_source :: position

record detached_cell =
  dt_project :: string
  dt_edge :: nat
  dt_node :: string

record proof_cell =
  pc_project :: string
  pc_name :: string
  pc_file :: string
  pc_evidence :: string
  pc_source :: position
  pc_target :: "string option"

record ref_cell =
  rc_project :: string
  rc_identity :: string
  rc_generation :: string
  rc_from :: string
  rc_leaf :: string
  rc_kind :: string
  rc_lang :: string
  rc_position :: position
  rc_target :: "string option"

record graph_db =
  g_nodes :: "node_cell list"
  g_edges :: "edge_cell list"
  g_next_edge :: nat
  g_aliases :: "(string, string) btree"
  g_applied :: "position list"
  g_proofs :: "proof_cell list"
  g_generations :: "generation_cell list"
  g_node_assertions :: "node_assertion list"
  g_edge_assertions :: "edge_assertion list"
  g_retired :: "node_cell list"
  g_detached :: "detached_cell list"
  g_relabel_owed :: "(string \<times> string) bset"
  g_refs :: "ref_cell list"
  g_proofs_owed :: "string bset"
  g_passed_over :: "(position \<times> string) list"

definition empty_graph :: graph_db where
  "empty_graph =
     \<lparr>g_nodes = [], g_edges = [], g_next_edge = 1, g_aliases = [], g_applied = [], g_proofs = [],
      g_generations = [], g_node_assertions = [], g_edge_assertions = [], g_retired = [], g_detached = [],
      g_relabel_owed = [], g_refs = [], g_proofs_owed = [], g_passed_over = []\<rparr>"

definition update_where :: "('r \<Rightarrow> bool) \<Rightarrow> ('r \<Rightarrow> 'r) \<Rightarrow> 'r list \<Rightarrow> 'r list" where
  "update_where P f rows = map (\<lambda>r. if P r then f r else r) rows"

text \<open>Rows with the same key as an inserted one: \<open>INSERT OR IGNORE\<close>.\<close>

definition insert_or_ignore :: "('r \<Rightarrow> 'k) \<Rightarrow> 'r \<Rightarrow> 'r list \<Rightarrow> 'r list" where
  "insert_or_ignore key r rows = (if list_ex (\<lambda>r'. key r' = key r) rows then rows else rows @ [r])"

definition ec_live :: "edge_cell \<Rightarrow> bool" where
  "ec_live e \<longleftrightarrow> ec_valid_to e = None"

abbreviation is_node :: "string \<Rightarrow> string \<Rightarrow> node_cell \<Rightarrow> bool" where
  "is_node i p n \<equiv> nc_id n = i \<and> nc_project n = p"

definition node_row :: "graph_db \<Rightarrow> string \<Rightarrow> string \<Rightarrow> node_cell option" where
  "node_row db i p = find (is_node i p) (g_nodes db)"

section \<open>Attributes\<close>

definition attr_json :: "(string \<times> string) list \<Rightarrow> attrs option" where
  "attr_json kvs = (if kvs = [] then None else Some (bt_collect kvs))"

text \<open>\<open>json_patch\<close> and \<open>json_set\<close> with string values: each key of the patch is set.\<close>

definition attrs_set :: "attrs option \<Rightarrow> attrs \<Rightarrow> attrs option" where
  "attrs_set old new = Some (bt_extend (unwrap_or [] old) new)"

definition attrs_get :: "attrs option \<Rightarrow> string \<Rightarrow> string option" where
  "attrs_get a k = Option.bind a (\<lambda>m. bt_get m k)"

definition assertion_keys :: "attrs option \<Rightarrow> string list" where
  "assertion_keys a = (case a of None \<Rightarrow> [] | Some m \<Rightarrow> bt_keys m)"

definition attrs_remove :: "string list \<Rightarrow> attrs option \<Rightarrow> attrs option" where
  "attrs_remove ks a =
     foldl (\<lambda>a k. case a of None \<Rightarrow> None
              | Some m \<Rightarrow> (let m' = bt_remove k m in if m' = [] then None else Some m')) a ks"

definition remove_attr_keys :: "string \<Rightarrow> string list \<Rightarrow> string \<Rightarrow> node_cell list \<Rightarrow> node_cell list" where
  "remove_attr_keys i ks p = update_where (is_node i p) (\<lambda>n. n\<lparr>nc_attrs := attrs_remove ks (nc_attrs n)\<rparr>)"

definition proof_keys :: "string list" where
  "proof_keys = [''proof_evidence'', ''proven_by'']"

text \<open>\<open>node_leaf_sql\<close> and \<open>call_target_sql\<close> over a row's attributes.\<close>

definition attrs_leaf :: "attrs option \<Rightarrow> string option" where
  "attrs_leaf a = opt_filter (\<lambda>s. s \<noteq> []) (attrs_get a ''name'')"

definition attrs_call_target :: "attrs option \<Rightarrow> bool" where
  "attrs_call_target a \<longleftrightarrow> unwrap_or [] (attrs_get a ''kind'') \<notin> set NON_TARGET_KINDS"

text \<open>\<open>id_range_sql\<close>: the ids \<open><file>::<rest>\<close>, by a range of the key.\<close>

definition in_file_range :: "string \<Rightarrow> string \<Rightarrow> bool" where
  "in_file_range file i \<longleftrightarrow> file @ ''::'' \<le> i \<and> i < file @ '':;''"

text \<open>\<open>edge_text_sql\<close>: the text after the first \<open>::\<close>; without one \<open>instr\<close> is 0 and the text starts at the
  second character.\<close>

definition edge_text :: "string \<Rightarrow> string" where
  "edge_text to = (case snd (split_id to) of Some rest \<Rightarrow> rest | None \<Rightarrow> concat (tl (utf8_chars to)))"

definition edge_binds_leaf :: "string \<Rightarrow> string \<Rightarrow> bool" where
  "edge_binds_leaf to leaf \<longleftrightarrow> edge_text to = leaf \<or> edge_text to = ''%'' @ leaf"

section \<open>Asserters and live assertions\<close>

record asserter =
  as_identity :: string
  as_generation :: string
  as_at :: int

definition asserter_of :: "event \<Rightarrow> asserter" where
  "asserter_of e =
     (case unwrap_or ([], []) (derived_generation e) of
        (i, gen) \<Rightarrow> \<lparr>as_identity = i, as_generation = gen, as_at = to_nanos (valid_from e)\<rparr>)"

definition generation_row :: "graph_db \<Rightarrow> string \<Rightarrow> string \<Rightarrow> generation_cell option" where
  "generation_row db p i = find (\<lambda>g. gc_project g = p \<and> gc_identity g = i) (g_generations db)"

definition current_generation :: "graph_db \<Rightarrow> string \<Rightarrow> string \<Rightarrow> string option" where
  "current_generation db p i = map_option gc_generation (generation_row db p i)"

definition live_node_assertion :: "graph_db \<Rightarrow> node_assertion \<Rightarrow> bool" where
  "live_node_assertion db a \<longleftrightarrow>
     na_identity a = [] \<or> current_generation db (na_project a) (na_identity a) = Some (na_generation a)"

definition live_edge_assertion :: "graph_db \<Rightarrow> edge_assertion \<Rightarrow> bool" where
  "live_edge_assertion db a \<longleftrightarrow>
     ea_identity a = [] \<or> current_generation db (ea_project a) (ea_identity a) = Some (ea_generation a)"

definition recorded_assertion :: "graph_db \<Rightarrow> asserter \<Rightarrow> string \<Rightarrow> string \<Rightarrow> node_assertion option" where
  "recorded_assertion db a i p =
     find (\<lambda>n. na_project n = p \<and> na_identity n = as_identity a \<and> na_node n = i) (g_node_assertions db)"

definition settled_kind :: "string list \<Rightarrow> string option" where
  "settled_kind ks =
     foldl (\<lambda>settled k. case settled of
              None \<Rightarrow> Some k
            | Some s \<Rightarrow> if s = KIND_ARTIFACT \<and> k \<in> set PROMOTING_KINDS then Some k else Some s) None ks"

section \<open>Debts\<close>

definition owe_relabel :: "string \<Rightarrow> string \<Rightarrow> graph_db \<Rightarrow> graph_db" where
  "owe_relabel p community db = db\<lparr>g_relabel_owed := bs_insert (p, community) (g_relabel_owed db)\<rparr>"

definition owe_relabel_of :: "string \<Rightarrow> bool \<Rightarrow> string \<Rightarrow> graph_db \<Rightarrow> graph_db" where
  "owe_relabel_of member whole_file p db =
     foldl (\<lambda>db e. owe_relabel p (ec_to e) db) db
       (filter (\<lambda>e. ec_rel e = REL_IN_COMMUNITY \<and> ec_live e \<and> ec_project e = p
                  \<and> (ec_from e = member \<or> whole_file \<and> in_file_range member (ec_from e))) (g_edges db))"

definition owe_proofs :: "string \<Rightarrow> graph_db \<Rightarrow> graph_db" where
  "owe_proofs name db = db\<lparr>g_proofs_owed := bs_insert name (g_proofs_owed db)\<rparr>"

text \<open>\<open>declaration_sql\<close>: a \<open>CONTAINS\<close> onto a file, held or retired.\<close>

definition is_declaration :: "graph_db \<Rightarrow> string \<Rightarrow> string \<Rightarrow> string \<Rightarrow> bool" where
  "is_declaration db rel to p \<longleftrightarrow>
     rel = REL_CONTAINS \<and>
     (list_ex (\<lambda>n. is_node to p n \<and> nc_kind n = KIND_FILE) (g_nodes db) \<or>
      list_ex (\<lambda>n. is_node to p n \<and> nc_kind n = KIND_FILE) (g_retired db))"

definition owe_relabel_of_ends :: "string \<Rightarrow> string \<Rightarrow> string \<Rightarrow> bool \<Rightarrow> string \<Rightarrow> graph_db \<Rightarrow> graph_db" where
  "owe_relabel_of_ends from to rel declaration p db =
     (if rel \<in> {REL_CALLS, REL_REFERENCES, REL_CONTAINS} \<and> \<not> declaration
      then owe_relabel_of to False p (owe_relabel_of from False p db) else db)"

section \<open>Definitions of a name\<close>

definition definition_name :: "graph_db \<Rightarrow> string \<Rightarrow> string \<Rightarrow> string option" where
  "definition_name db i p =
     Option.bind
       (find (\<lambda>n. is_node i p n \<and> nc_kind n = KIND_CODE_ENTITY \<and> attrs_call_target (nc_attrs n)) (g_nodes db))
       (\<lambda>n. attrs_leaf (nc_attrs n))"

datatype admitted = Named | CallTargets | LiveCallTargets

definition admits_node :: "graph_db \<Rightarrow> admitted \<Rightarrow> node_cell \<Rightarrow> bool" where
  "admits_node db rule n =
     (case rule of
        Named \<Rightarrow> True
      | CallTargets \<Rightarrow> attrs_call_target (nc_attrs n)
      | LiveCallTargets \<Rightarrow>
          list_ex (\<lambda>a. live_node_assertion db a \<and> na_project a = nc_project n \<and> na_node a = nc_id n
                      \<and> attrs_leaf (na_attrs a) \<noteq> None \<and> attrs_call_target (na_attrs a)) (g_node_assertions db))"

text \<open>\<open>definitions_with_suffix\<close>: \<open>leaf_definitions_sql\<close> under a rule, in id order.\<close>

definition leaf_definitions :: "graph_db \<Rightarrow> (node_cell \<Rightarrow> bool) \<Rightarrow> string \<Rightarrow> string \<Rightarrow> string option \<Rightarrow> string list" where
  "leaf_definitions db rule leaf p file =
     sort (map nc_id (filter (\<lambda>n. nc_project n = p \<and> attrs_leaf (nc_attrs n) = Some leaf
              \<and> nc_kind n = KIND_CODE_ENTITY \<and> rule n
              \<and> (case file of None \<Rightarrow> True | Some f \<Rightarrow> in_file_range f (nc_id n))) (g_nodes db)))"

definition definitions_with_suffix :: "graph_db \<Rightarrow> string \<Rightarrow> string \<Rightarrow> admitted \<Rightarrow> string option \<Rightarrow> string list" where
  "definitions_with_suffix db leaf p rule file = leaf_definitions db (admits_node db rule) leaf p file"

definition same_file_candidates :: "graph_db \<Rightarrow> string \<Rightarrow> string \<Rightarrow> string \<Rightarrow> string list" where
  "same_file_candidates db p file leaf = definitions_with_suffix db leaf p LiveCallTargets (Some file)"

definition reference_tier :: "graph_db \<Rightarrow> string \<Rightarrow> string \<Rightarrow> string \<Rightarrow> string" where
  "reference_tier db target name p =
     (if list_ex (\<lambda>i. i \<noteq> target) (definitions_with_suffix db name p CallTargets None)
      then TIER_INFERRED else TIER_AMBIGUOUS)"
end
