(* ===== verification/Graph_Write.thy ===== *)
theory Graph_Write
  imports Graph_Tables
begin

text \<open>
  The writes a fold of the context graph is made of (\<open>sqlite.rs\<close>): asserting a node and settling it when an
  assertion stops being live, asserting an edge and settling it, the attachments of the community and
  concept passes, the generation of a file's facts, the labels and the proofs settled as a fold ends.
\<close>

section \<open>Nodes\<close>

definition definition_retired :: "string \<Rightarrow> string \<Rightarrow> string \<Rightarrow> graph_db \<Rightarrow> graph_db" where
  "definition_retired i name p db =
     owe_proofs name
       (db\<lparr>g_edges := update_where
             (\<lambda>e. ec_rel e \<in> {REL_REFERENCES, REL_CALLS} \<and> ec_tier e = TIER_INFERRED \<and> ec_project e = p \<and> ec_live e
                \<and> edge_binds_leaf (ec_to e) name
                \<and> \<not> list_ex (\<lambda>a. ea_edge a = ec_id e) (g_edge_assertions db)
                \<and> \<not> list_ex (\<lambda>n. nc_project n = p \<and> attrs_leaf (nc_attrs n) = Some name \<and> nc_kind n = KIND_CODE_ENTITY
                      \<and> nc_id n \<noteq> ec_to e \<and> attrs_call_target (nc_attrs n)) (g_nodes db))
             (\<lambda>e. e\<lparr>ec_tier := TIER_AMBIGUOUS\<rparr>) (g_edges db),
           g_retired := remove_attr_keys i proof_keys p (g_retired db)\<rparr>)"

definition undo_what_resolved_against :: "string \<Rightarrow> string option \<Rightarrow> string \<Rightarrow> graph_db \<Rightarrow> graph_db \<times> string option" where
  "undo_what_resolved_against i defined p db =
     (let now = definition_name db i p
      in (case defined of
            Some name \<Rightarrow> if now \<noteq> Some name then definition_retired i name p db else db
          | None \<Rightarrow> db, now))"

definition detach_attachments :: "string \<Rightarrow> int \<Rightarrow> string \<Rightarrow> graph_db \<Rightarrow> graph_db" where
  "detach_attachments i at p db =
     (let attached = (\<lambda>e. ec_from e = i \<and> ec_project e = p \<and> ec_rel e \<in> {REL_IN_COMMUNITY, REL_REALIZES} \<and> ec_live e)
      in db\<lparr>g_detached := foldl (\<lambda>ds e. insert_or_ignore (\<lambda>d. (dt_project d, dt_edge d))
                                    \<lparr>dt_project = p, dt_edge = ec_id e, dt_node = ec_from e\<rparr> ds)
                          (g_detached db) (filter attached (g_edges db)),
            g_edges := update_where attached (\<lambda>e. e\<lparr>ec_valid_to := Some at\<rparr>) (g_edges db)\<rparr>)"

definition retire_node :: "string \<Rightarrow> string list \<Rightarrow> string \<Rightarrow> graph_db \<Rightarrow> graph_db" where
  "retire_node i stale p db =
     (let moved = filter (is_node i p) (g_nodes db);
          others = (if moved = [] then g_retired db else filter (\<lambda>n. \<not> is_node i p n) (g_retired db))
      in db\<lparr>g_retired := remove_attr_keys i stale p (others @ moved),
            g_nodes := filter (\<lambda>n. \<not> is_node i p n) (g_nodes db)\<rparr>)"

definition settle_node :: "string \<Rightarrow> attrs option \<Rightarrow> int \<Rightarrow> string \<Rightarrow> graph_db \<Rightarrow> graph_db" where
  "settle_node i retracted at p db0 =
     (let defined = definition_name db0 i p;
          db = owe_relabel_of i False p db0;
          live = filter (\<lambda>a. live_node_assertion db a \<and> na_project a = p \<and> na_node a = i) (g_node_assertions db);
          stale = assertion_keys retracted;
          db' = (case settled_kind (map na_kind live) of
              Some kind \<Rightarrow>
                let held = concat (map (assertion_keys \<circ> na_attrs) live)
                in db\<lparr>g_nodes := update_where (is_node i p) (\<lambda>n. n\<lparr>nc_kind := kind\<rparr>)
                        (remove_attr_keys i (filter (\<lambda>k. k \<notin> set held) stale) p (g_nodes db))\<rparr>
            | None \<Rightarrow> detach_attachments i at p (retire_node i stale p db))
      in fst (undo_what_resolved_against i defined p db'))"

definition record_assertion :: "asserter \<Rightarrow> string \<Rightarrow> string \<Rightarrow> attrs option \<Rightarrow> string \<Rightarrow> graph_db \<Rightarrow> graph_db" where
  "record_assertion a i kind attrs p db =
     (let same = (\<lambda>n. na_project n = p \<and> na_identity n = as_identity a \<and> na_node n = i)
      in case recorded_assertion db a i p of
           Some r \<Rightarrow>
             if na_generation r = as_generation a
             then db\<lparr>g_node_assertions := update_where same
                       (\<lambda>n. n\<lparr>na_kind := unwrap_or kind (settled_kind [na_kind r, kind]),
                              na_attrs := (case attrs of None \<Rightarrow> na_attrs n | Some m \<Rightarrow> attrs_set (na_attrs n) m)\<rparr>)
                       (g_node_assertions db)\<rparr>
             else settle_node i (na_attrs r) (as_at a) p
                    (db\<lparr>g_node_assertions := update_where same
                       (\<lambda>n. n\<lparr>na_generation := as_generation a, na_kind := kind, na_attrs := attrs\<rparr>)
                       (g_node_assertions db)\<rparr>)
         | None \<Rightarrow>
             db\<lparr>g_node_assertions := g_node_assertions db @
                  [\<lparr>na_project = p, na_identity = as_identity a, na_generation = as_generation a, na_node = i,
                    na_kind = kind, na_attrs = attrs\<rparr>]\<rparr>)"

text \<open>\<open>ensure_node\<close>, in its statements' order: the retired row comes back as the asserted kind, the row is
  inserted or merged into, the node's detached attachments come back, its communities owe their label and
  the assertion is recorded.\<close>

definition revive_node :: "string \<Rightarrow> string \<Rightarrow> string \<Rightarrow> graph_db \<Rightarrow> graph_db" where
  "revive_node i kind p db =
     db\<lparr>g_nodes := (if list_ex (is_node i p) (g_nodes db) then g_nodes db
                    else g_nodes db @ map (\<lambda>n. n\<lparr>nc_kind := kind\<rparr>) (filter (is_node i p) (g_retired db))),
        g_retired := filter (\<lambda>n. \<not> is_node i p n) (g_retired db)\<rparr>"

definition upsert_node :: "string \<Rightarrow> string \<Rightarrow> attrs option \<Rightarrow> string \<Rightarrow> graph_db \<Rightarrow> graph_db" where
  "upsert_node i kind attrs p db =
     db\<lparr>g_nodes :=
         (if list_ex (is_node i p) (g_nodes db)
          then update_where (is_node i p)
            (\<lambda>n. n\<lparr>nc_attrs := (case attrs of None \<Rightarrow> nc_attrs n | Some m \<Rightarrow> attrs_set (nc_attrs n) m),
                   nc_kind := (if nc_kind n = KIND_ARTIFACT \<and> kind \<in> set PROMOTING_KINDS then kind else nc_kind n)\<rparr>)
            (g_nodes db)
          else g_nodes db @ [\<lparr>nc_id = i, nc_kind = kind, nc_attrs = attrs, nc_project = p\<rparr>])\<rparr>"

definition revive_attachments :: "string \<Rightarrow> string \<Rightarrow> graph_db \<Rightarrow> graph_db" where
  "revive_attachments i p db =
     (let mine = (\<lambda>d. dt_project d = p \<and> dt_node d = i)
      in db\<lparr>g_edges := update_where (\<lambda>e. list_ex (\<lambda>d. mine d \<and> dt_edge d = ec_id e) (g_detached db))
                        (\<lambda>e. e\<lparr>ec_valid_to := None\<rparr>) (g_edges db),
            g_detached := filter (\<lambda>d. \<not> mine d) (g_detached db)\<rparr>)"

definition ensure_node :: "asserter \<Rightarrow> string \<Rightarrow> string \<Rightarrow> (string \<times> string) list \<Rightarrow> string \<Rightarrow> graph_db \<Rightarrow> graph_db" where
  "ensure_node a i kind attrs p db =
     record_assertion a i kind (attr_json attrs) p
       (owe_relabel_of i False p
         (revive_attachments i p
           (upsert_node i kind (attr_json attrs) p
             (revive_node i kind p db))))"

section \<open>Edges\<close>

definition live_key :: "string \<Rightarrow> string \<Rightarrow> string \<Rightarrow> string \<Rightarrow> string \<Rightarrow> edge_cell \<Rightarrow> bool" where
  "live_key from to rel tier p e \<longleftrightarrow>
     ec_from e = from \<and> ec_to e = to \<and> ec_rel e = rel \<and> ec_tier e = tier \<and> ec_project e = p \<and> ec_live e"

definition insert_edge :: "string \<Rightarrow> string \<Rightarrow> string \<Rightarrow> int \<Rightarrow> int option \<Rightarrow> position \<Rightarrow> string \<Rightarrow> string \<Rightarrow> graph_db \<Rightarrow> graph_db" where
  "insert_edge from to rel at until src p tier db =
     db\<lparr>g_edges := g_edges db @
          [\<lparr>ec_id = g_next_edge db, ec_from = from, ec_to = to, ec_rel = rel, ec_valid_from = at, ec_valid_to = until,
            ec_source = src, ec_project = p, ec_tier = tier\<rparr>],
        g_next_edge := g_next_edge db + 1\<rparr>"

definition merge_edge :: "int \<Rightarrow> position \<Rightarrow> edge_cell \<Rightarrow> edge_cell" where
  "merge_edge at src e = e\<lparr>ec_source := max (ec_source e) src, ec_valid_from := min (ec_valid_from e) at\<rparr>"

definition add_edge :: "string \<Rightarrow> string \<Rightarrow> string \<Rightarrow> int \<Rightarrow> position \<Rightarrow> string \<Rightarrow> string \<Rightarrow> graph_db \<Rightarrow> graph_db \<times> nat" where
  "add_edge from to rel at src p tier db =
     (case find (live_key from to rel tier p) (g_edges db) of
        Some e \<Rightarrow> (db\<lparr>g_edges := update_where (live_key from to rel tier p) (merge_edge at src) (g_edges db)\<rparr>, ec_id e)
      | None \<Rightarrow>
          (owe_relabel_of_ends from to rel (is_declaration db rel to p) p (insert_edge from to rel at None src p tier db),
           g_next_edge db))"

text \<open>\<open>settle_edge\<close>, called on ids read from the edges.\<close>

definition settle_edge :: "nat \<Rightarrow> int \<Rightarrow> string \<Rightarrow> graph_db \<Rightarrow> graph_db" where
  "settle_edge edge at p db =
     (case filter (\<lambda>a. live_edge_assertion db a \<and> ea_project a = p \<and> ea_edge a = edge) (g_edge_assertions db) of
        a # as \<Rightarrow>
          db\<lparr>g_edges := update_where (\<lambda>e. ec_id e = edge)
               (\<lambda>e. e\<lparr>ec_valid_from := foldl min (ea_since a) (map ea_since as),
                      ec_source := foldl max (ea_source a) (map ea_source as)\<rparr>) (g_edges db)\<rparr>
      | [] \<Rightarrow>
          (case find (\<lambda>e. ec_id e = edge) (g_edges db) of
             None \<Rightarrow> db
           | Some e \<Rightarrow>
               owe_relabel_of_ends (ec_from e) (ec_to e) (ec_rel e) (is_declaration db (ec_rel e) (ec_to e) (ec_project e)) p
                 (db\<lparr>g_edges := update_where (\<lambda>e. ec_id e = edge) (\<lambda>e. e\<lparr>ec_valid_to := Some at\<rparr>) (g_edges db)\<rparr>)))"

definition prior_entry :: "graph_db \<Rightarrow> asserter \<Rightarrow> string \<Rightarrow> nat \<Rightarrow> bool" where
  "prior_entry db a p edge \<longleftrightarrow>
     (case Option.bind (generation_row db p (as_identity a)) gc_prior of
        None \<Rightarrow> False
      | Some prior \<Rightarrow> list_ex (\<lambda>x. ea_edge x = edge \<and> ea_project x = p \<and> ea_identity x = as_identity a
                                \<and> ea_generation x = prior) (g_edge_assertions db))"

definition revivable :: "graph_db \<Rightarrow> asserter \<Rightarrow> string \<Rightarrow> string \<Rightarrow> string \<Rightarrow> string \<Rightarrow> string \<Rightarrow> nat option" where
  "revivable db a from to rel tier p =
     (if list_ex (live_key from to rel tier p) (g_edges db) then None
      else case filter (\<lambda>e. ec_from e = from \<and> ec_to e = to \<and> ec_rel e = rel \<and> ec_tier e = tier \<and> \<not> ec_live e
                          \<and> prior_entry db a p (ec_id e)) (g_edges db) of
             [] \<Rightarrow> None
           | e # es \<Rightarrow> Some (foldl max (ec_id e) (map ec_id es)))"

definition record_edge_assertion :: "asserter \<Rightarrow> nat \<Rightarrow> int \<Rightarrow> position \<Rightarrow> string \<Rightarrow> graph_db \<Rightarrow> graph_db" where
  "record_edge_assertion a edge at src p db =
     (let same = (\<lambda>x. ea_project x = p \<and> ea_identity x = as_identity a \<and> ea_edge x = edge);
          prior = Option.bind (generation_row db p (as_identity a)) gc_prior
      in db\<lparr>g_edge_assertions :=
            (if list_ex same (g_edge_assertions db)
             then update_where same
               (\<lambda>x. x\<lparr>ea_since := (if ea_generation x = as_generation a then min (ea_since x) at
                                     else if Some (ea_generation x) = prior then ea_since x else at),
                      ea_source := max (ea_source x) src,
                      ea_generation := as_generation a\<rparr>) (g_edge_assertions db)
             else g_edge_assertions db @
               [\<lparr>ea_project = p, ea_identity = as_identity a, ea_generation = as_generation a, ea_edge = edge,
                 ea_since = at, ea_source = src\<rparr>])\<rparr>)"

definition assert_link :: "asserter \<Rightarrow> string \<Rightarrow> string \<Rightarrow> string \<Rightarrow> int \<Rightarrow> position \<Rightarrow> string \<Rightarrow> string \<Rightarrow> graph_db \<Rightarrow> graph_db" where
  "assert_link a from to rel at src p tier db =
     (let (db1, edge) =
          (case revivable db a from to rel tier p of
             Some edge \<Rightarrow>
               (db\<lparr>g_edges := update_where (\<lambda>e. ec_id e = edge) (\<lambda>e. e\<lparr>ec_valid_to := None\<rparr>) (g_edges db)\<rparr>, edge)
           | None \<Rightarrow> add_edge from to rel at src p tier db)
      in settle_edge edge at p (record_edge_assertion a edge at src p db1))"

definition invalidate_finding_edges :: "string \<Rightarrow> int \<Rightarrow> string \<Rightarrow> graph_db \<Rightarrow> graph_db" where
  "invalidate_finding_edges fid at p db =
     db\<lparr>g_edges := update_where
          (\<lambda>e. ec_live e \<and> ec_project e = p
             \<and> (ec_from e = fid \<and> ec_rel e = REL_ABOUT \<or> ec_to e = fid \<and> ec_rel e = REL_RAISED)
             \<and> list_ex (\<lambda>n. is_node fid p n \<and> nc_kind n = KIND_FINDING) (g_nodes db))
          (\<lambda>e. e\<lparr>ec_valid_to := Some at\<rparr>) (g_edges db)\<rparr>"

definition supersede_file_edges :: "string \<Rightarrow> int \<Rightarrow> string \<Rightarrow> graph_db \<Rightarrow> graph_db" where
  "supersede_file_edges file at p db0 =
     (let db = owe_relabel_of file True p db0
      in db\<lparr>g_edges := update_where
          (\<lambda>e. ec_live e \<and> ec_project e = p
             \<and> (ec_from e = file \<and> ec_rel e \<in> {REL_CONTAINS, REL_REFERENCES}
                \<or> ec_rel e \<in> {REL_CALLS, REL_CONTAINS} \<and> in_file_range file (ec_from e)))
          (\<lambda>e. e\<lparr>ec_valid_to := Some at\<rparr>) (g_edges db)\<rparr>)"

section \<open>Attachments\<close>

definition retire_grain :: "string \<Rightarrow> string \<Rightarrow> int \<Rightarrow> string \<Rightarrow> graph_db \<Rightarrow> graph_db" where
  "retire_grain prefix rel at p db =
     (let grain = (\<lambda>e. ec_project e = p \<and> ec_rel e = rel \<and> starts_with (ec_to e) prefix)
      in db\<lparr>g_edges := update_where (\<lambda>e. ec_live e \<and> grain e) (\<lambda>e. e\<lparr>ec_valid_to := Some at\<rparr>) (g_edges db),
            g_detached := filter (\<lambda>d. \<not> (dt_project d = p \<and> list_ex (\<lambda>e. grain e \<and> ec_id e = dt_edge d) (g_edges db)))
              (g_detached db)\<rparr>)"

definition drop_memberless :: "string \<Rightarrow> string \<Rightarrow> string \<Rightarrow> string \<Rightarrow> graph_db \<Rightarrow> graph_db" where
  "drop_memberless prefix kind rel p db =
     db\<lparr>g_nodes := filter
          (\<lambda>n. \<not> (nc_kind n = kind \<and> nc_project n = p \<and> starts_with (nc_id n) prefix
               \<and> \<not> list_ex (\<lambda>e. ec_to e = nc_id n \<and> ec_rel e = rel \<and> ec_live e \<and> ec_project e = p) (g_edges db)))
          (g_nodes db)\<rparr>"

definition attach :: "string \<Rightarrow> string \<Rightarrow> string \<Rightarrow> int \<Rightarrow> position \<Rightarrow> string \<Rightarrow> graph_db \<Rightarrow> graph_db" where
  "attach node to rel at src p db =
     (if node_row db node p \<noteq> None then fst (add_edge node to rel at src p TIER_INFERRED db)
      else
        (let merged = (\<lambda>e. list_ex (\<lambda>d. dt_project d = p \<and> dt_node d = node \<and> dt_edge d = ec_id e) (g_detached db)
                        \<and> ec_to e = to \<and> ec_rel e = rel \<and> ec_tier e = TIER_INFERRED)
         in if list_ex merged (g_edges db)
            then db\<lparr>g_edges := update_where merged (merge_edge at src) (g_edges db)\<rparr>
            else (insert_edge node to rel at (Some at) src p TIER_INFERRED db)
              \<lparr>g_detached := g_detached db @ [\<lparr>dt_project = p, dt_edge = g_next_edge db, dt_node = node\<rparr>]\<rparr>))"

section \<open>Generations\<close>

definition advance_generation :: "asserter \<Rightarrow> string \<Rightarrow> graph_db \<Rightarrow> graph_db \<times> string option" where
  "advance_generation a p db =
     (if as_identity a = [] then (db, None)
      else case current_generation db p (as_identity a) of
        None \<Rightarrow>
          (db\<lparr>g_generations := g_generations db @
               [\<lparr>gc_project = p, gc_identity = as_identity a, gc_generation = as_generation a, gc_prior = None\<rparr>]\<rparr>, None)
      | Some prior \<Rightarrow>
          if prior = as_generation a then (db, None)
          else
            (let db1 = db\<lparr>
                 g_node_assertions := filter (\<lambda>x. \<not> (na_project x = p \<and> na_identity x = as_identity a
                     \<and> na_generation x \<noteq> prior)) (g_node_assertions db),
                 g_edge_assertions := filter (\<lambda>x. \<not> (ea_project x = p \<and> ea_identity x = as_identity a
                     \<and> ea_generation x \<noteq> prior)) (g_edge_assertions db),
                 g_generations := update_where (\<lambda>g. gc_project g = p \<and> gc_identity g = as_identity a)
                     (\<lambda>g. g\<lparr>gc_generation := as_generation a, gc_prior := Some prior\<rparr>) (g_generations db)\<rparr>;
                 asserted = map ec_id (sort_key ec_id (filter (\<lambda>e. ec_live e \<and>
                     list_ex (\<lambda>x. ea_edge x = ec_id e \<and> ea_project x = p \<and> ea_identity x = as_identity a
                       \<and> ea_generation x = prior) (g_edge_assertions db1)) (g_edges db1)))
             in (foldl (\<lambda>db edge. settle_edge edge (as_at a) p db) db1 asserted, Some prior)))"

definition retire_unheld_nodes :: "asserter \<Rightarrow> string \<Rightarrow> string \<Rightarrow> graph_db \<Rightarrow> graph_db" where
  "retire_unheld_nodes a prior p db =
     foldl (\<lambda>db x. settle_node (na_node x) (na_attrs x) (as_at a) p db) db
       (sort_key na_node (filter (\<lambda>x. na_project x = p \<and> na_identity x = as_identity a \<and> na_generation x = prior)
          (g_node_assertions db)))"

definition settling_definition :: "asserter \<Rightarrow> string \<Rightarrow> string \<Rightarrow> u32 \<Rightarrow> string \<Rightarrow> graph_db \<Rightarrow> string \<times> u32" where
  "settling_definition a i kind line p db =
     (let ranked = (\<lambda>(kind, line). (kind_rank kind, line, kind)); folded = ranked (kind, line)
      in if as_identity a = [] then (kind, line)
         else
           (let held = Option.bind (opt_filter (\<lambda>r. na_generation r = as_generation a) (recorded_assertion db a i p))
                  (\<lambda>r. case (attrs_get (na_attrs r) ''kind'', Option.bind (attrs_get (na_attrs r) ''line'') parse_u32) of
                         (Some k, Some l) \<Rightarrow> Some (k, l) | _ \<Rightarrow> None);
                settled = (case held of Some kl \<Rightarrow> min folded (ranked kl) | None \<Rightarrow> folded)
            in (snd (snd settled), fst (snd settled))))"

section \<open>Settled as a fold ends\<close>

definition structural_degree :: "graph_db \<Rightarrow> string \<Rightarrow> string \<Rightarrow> nat" where
  "structural_degree db p i =
     length (filter (\<lambda>d. ec_project d = p \<and> ec_live d \<and> ec_rel d \<in> {REL_CALLS, REL_REFERENCES, REL_CONTAINS}
                 \<and> \<not> is_declaration db (ec_rel d) (ec_to d) p \<and> (ec_from d = i \<or> ec_to d = i)) (g_edges db))"

definition community_label :: "graph_db \<Rightarrow> string \<Rightarrow> string \<Rightarrow> string" where
  "community_label db p community =
     (let members = filter (\<lambda>m. ec_to m = community \<and> ec_rel m = REL_IN_COMMUNITY \<and> ec_live m \<and> ec_project m = p) (g_edges db);
          labelled = List.map_filter (\<lambda>m. map_option
              (\<lambda>n. (- int (structural_degree db p (ec_from m)), unwrap_or (nc_id n) (attrs_get (nc_attrs n) ''name'')))
              (node_row db (ec_from m) p)) members
      in case sort labelled of [] \<Rightarrow> [] | (_, lbl) # _ \<Rightarrow> lbl)"

definition relabel_community :: "graph_db \<Rightarrow> string \<times> string \<Rightarrow> graph_db" where
  "relabel_community db pc =
     (case pc of (p, community) \<Rightarrow>
        db\<lparr>g_nodes := update_where (\<lambda>n. is_node community p n \<and> nc_kind n = KIND_COMMUNITY)
             (\<lambda>n. n\<lparr>nc_attrs := attrs_set (nc_attrs n) [(''label'', community_label db p community)]\<rparr>) (g_nodes db)\<rparr>)"

definition relabel_owed_communities :: "graph_db \<Rightarrow> graph_db" where
  "relabel_owed_communities db = (foldl relabel_community db (g_relabel_owed db))\<lparr>g_relabel_owed := []\<rparr>"

definition write_proof :: "(string list \<Rightarrow> string) \<Rightarrow> string \<Rightarrow> string \<Rightarrow> graph_db \<Rightarrow> graph_db" where
  "write_proof en i p db =
     (let evidence = map pc_evidence (sort_key (\<lambda>r. (pc_source r, pc_evidence r))
            (filter (\<lambda>r. pc_project r = p \<and> pc_target r = Some i) (g_proofs db)))
      in if evidence = [] then db\<lparr>g_nodes := remove_attr_keys i proof_keys p (g_nodes db)\<rparr>
         else db\<lparr>g_nodes := update_where (is_node i p)
               (\<lambda>n. n\<lparr>nc_attrs := attrs_set (nc_attrs n)
                   [(''proof_evidence'', en evidence), (''proven_by'', show_nat (length evidence))]\<rparr>) (g_nodes db)\<rparr>)"

definition write_proofs :: "(string list \<Rightarrow> string) \<Rightarrow> string list \<Rightarrow> string \<Rightarrow> graph_db \<Rightarrow> graph_db" where
  "write_proofs en ids p db = foldl (\<lambda>db i. write_proof en i p db) db ids"

definition proof_targets_by :: "graph_db \<Rightarrow> (proof_cell \<Rightarrow> bool) \<Rightarrow> string \<Rightarrow> string bset" where
  "proof_targets_by db key p = bs_collect (List.map_filter pc_target (filter (\<lambda>r. pc_project r = p \<and> key r) (g_proofs db)))"

definition supersede_file_proof :: "(string list \<Rightarrow> string) \<Rightarrow> string \<Rightarrow> string \<Rightarrow> graph_db \<Rightarrow> graph_db" where
  "supersede_file_proof en file p db =
     (let db' = db\<lparr>g_proofs := filter (\<lambda>r. \<not> (pc_project r = p \<and> pc_file r = file)) (g_proofs db)\<rparr>
      in write_proofs en
           (bs_collect (proof_targets_by db (\<lambda>r. pc_file r = file) p @ proof_targets_by db' (\<lambda>r. pc_file r = file) p)) p db')"

definition resolve_proof :: "graph_db \<Rightarrow> string option \<Rightarrow> string \<Rightarrow> proof_cell \<Rightarrow> string option" where
  "resolve_proof db only p r =
     (case same_file_candidates db p (pc_file r) (pc_name r) of [] \<Rightarrow> only | [one] \<Rightarrow> Some one | _ \<Rightarrow> None)"

definition resolve_proofs :: "(string list \<Rightarrow> string) \<Rightarrow> string \<Rightarrow> string \<Rightarrow> graph_db \<Rightarrow> graph_db" where
  "resolve_proofs en name p db =
     (let only = (case definitions_with_suffix db name p LiveCallTargets None of [one] \<Rightarrow> Some one | _ \<Rightarrow> None);
          moves = (\<lambda>r. pc_project r = p \<and> pc_name r = name \<and> resolve_proof db only p r \<noteq> pc_target r);
          moved = filter moves (g_proofs db);
          touched = bs_collect (List.map_filter pc_target moved @ List.map_filter (resolve_proof db only p) moved)
      in write_proofs en touched p
           (db\<lparr>g_proofs := update_where moves (\<lambda>r. r\<lparr>pc_target := resolve_proof db only p r\<rparr>) (g_proofs db)\<rparr>))"

definition settle_name :: "(string list \<Rightarrow> string) \<Rightarrow> string \<Rightarrow> graph_db \<Rightarrow> string \<Rightarrow> graph_db" where
  "settle_name en p db name =
     (let db' = resolve_proofs en name p db
      in write_proofs en (proof_targets_by db' (\<lambda>r. pc_name r = name) p) p db')"

definition settle_proofs :: "(string list \<Rightarrow> string) \<Rightarrow> string \<Rightarrow> graph_db \<Rightarrow> graph_db" where
  "settle_proofs en p db = (foldl (settle_name en p) db (g_proofs_owed db))\<lparr>g_proofs_owed := []\<rparr>"

end
