(* ===== verification/Graph_Fold.thy ===== *)
theory Graph_Fold
  imports Graph_Write Spawn
begin

text \<open>
  The fold of the context graph: one arm per event type (\<open>fold_event\<close>), the generation rule around it
  (\<open>fold\<close>); the batches, ledger entries and the prune built on it are in \<open>Graph_Entry\<close>. The payload
  shapes are those of \<open>contextgraph/mod.rs\<close> and of the domain crate's \<open>contextgraph.rs\<close>; a payload is
  decoded by \<open>serde_json\<close>, so the decoders are fields of a record the definitions take. The transaction
  frame is the result type: an error keeps nothing of what was written.
\<close>

section \<open>Payloads\<close>

record decision_made =
  dm_id :: string
  dm_summary :: string
  dm_governs :: "string list"
  dm_supersedes :: string

text \<open>\<open>LessonLearned\<close> and \<open>ReviewFinding\<close>: a lesson has no reviewer and no unit, and its decoder leaves them empty.\<close>

record located_record =
  lr_id :: string
  lr_by :: string
  lr_unit :: string
  lr_summary :: string
  lr_about :: "string list"
  lr_file :: "string option"

record code_entity_extracted =
  ce_file :: string
  ce_name :: string
  ce_path :: "string option"
  ce_parent :: "string option"
  ce_kind :: string
  ce_line :: u32
  ce_lang :: string
  ce_fresh :: bool
  ce_partial :: bool

record edge_inferred =
  ei_file :: string
  ei_name :: string
  ei_lang :: string
  ei_fresh :: bool
  ei_caller :: "string option"
  ei_line :: u32
  ei_is_test :: bool
  ei_partial :: bool
  ei_ref_kind :: "string option"

record doc_concept =
  dc_kind :: string
  dc_id :: string
  dc_title :: string
  dc_doc :: string

record doc_link =
  dl_from :: string
  dl_to :: string
  dl_rel :: string

text \<open>A resolution is a float the fold only prints: the text it prints as.\<close>

record community_assigned =
  cm_node :: string
  cm_community :: string
  cm_resolution :: string
  cm_hash :: string
  cm_fresh :: bool

record concept_derived =
  cd_concept :: string
  cd_label :: string
  cd_resolution :: string
  cd_hash :: string
  cd_fresh :: bool

record concept_realized =
  cr_node :: string
  cr_concept :: string

record graph_codec =
  gd_codec :: codec
  gd_decision :: "bytes \<Rightarrow> json_error + decision_made"
  gd_integrated :: "bytes \<Rightarrow> json_error + string"
  gd_lesson :: "bytes \<Rightarrow> json_error + located_record"
  gd_finding :: "bytes \<Rightarrow> json_error + located_record"
  gd_entity :: "bytes \<Rightarrow> json_error + code_entity_extracted"
  gd_inferred :: "bytes \<Rightarrow> json_error + edge_inferred"
  gd_concept :: "bytes \<Rightarrow> json_error + doc_concept"
  gd_link :: "bytes \<Rightarrow> json_error + doc_link"
  gd_alias :: "bytes \<Rightarrow> json_error + string \<times> string"
  gd_unresolved :: "bytes \<Rightarrow> json_error + string"
  gd_community :: "bytes \<Rightarrow> json_error + community_assigned"
  gd_derived :: "bytes \<Rightarrow> json_error + concept_derived"
  gd_realized :: "bytes \<Rightarrow> json_error + concept_realized"
  gd_entry :: "bytes \<Rightarrow> json_error + generation_ingested"
  gd_strings :: "string list \<Rightarrow> string"

datatype graph_error = GraphError string

definition be :: "json_error + 'a \<Rightarrow> graph_error + 'a" where
  "be r = (case r of Inl (JsonError why) \<Rightarrow> Inl (GraphError why) | Inr a \<Rightarrow> Inr a)"

abbreviation "TYPE_ALIAS_DEFINED \<equiv> ''AliasDefined''"
abbreviation "TYPE_ALIAS_UNRESOLVED \<equiv> ''AliasUnresolved''"
abbreviation "TYPE_COMMUNITY_ASSIGNED \<equiv> ''CommunityAssigned''"
abbreviation "TYPE_CONCEPT_DERIVED \<equiv> ''ConceptDerived''"
abbreviation "TYPE_CONCEPT_REALIZED \<equiv> ''ConceptRealized''"

text \<open>\<open>referenced_ids\<close>, \<open>referenced_file\<close> and \<open>locations\<close>: a reference is read as the node it names.\<close>

definition referenced_ids :: "string list \<Rightarrow> string list" where
  "referenced_ids rs = map referenced_id rs"

definition referenced_file :: "string option \<Rightarrow> string option" where
  "referenced_file f = map_option referenced_id (opt_filter (\<lambda>s. s \<noteq> []) f)"

definition locations :: "located_record \<Rightarrow> string list" where
  "locations r = referenced_ids (lr_about r) @ (case referenced_file (lr_file r) of None \<Rightarrow> [] | Some f \<Rightarrow> [f])"

definition id_path :: "code_entity_extracted \<Rightarrow> string" where
  "id_path c = unwrap_or (ce_name c) (opt_filter (\<lambda>s. s \<noteq> []) (ce_path c))"

definition parent_path :: "code_entity_extracted \<Rightarrow> string option" where
  "parent_path c = opt_filter (\<lambda>s. s \<noteq> [] \<and> s \<noteq> id_path c) (ce_parent c)"

definition resolve_alias_in :: "graph_db \<Rightarrow> string \<Rightarrow> string" where
  "resolve_alias_in db mention = unwrap_or mention (bt_get (g_aliases db) mention)"

section \<open>The arms of knowledge\<close>

definition edge_to_location ::
  "asserter \<Rightarrow> string \<Rightarrow> string \<Rightarrow> int \<Rightarrow> position \<Rightarrow> string \<Rightarrow> graph_db \<Rightarrow> string \<Rightarrow> graph_db" where
  "edge_to_location a from rel at src p db path =
     (let canonical = resolve_alias_in db path
      in fst (add_edge from canonical rel at src p TIER_EXTRACTED (ensure_node a canonical KIND_ARTIFACT [] p db)))"

definition supersede_decision :: "string \<Rightarrow> int \<Rightarrow> string \<Rightarrow> graph_db \<Rightarrow> graph_db" where
  "supersede_decision old at p db =
     db\<lparr>g_edges := update_where (\<lambda>e. ec_from e = old \<and> ec_rel e = REL_GOVERNS \<and> ec_live e \<and> ec_project e = p)
          (\<lambda>e. e\<lparr>ec_valid_to := Some at\<rparr>) (g_edges db)\<rparr>"

definition fold_decision :: "asserter \<Rightarrow> decision_made \<Rightarrow> int \<Rightarrow> position \<Rightarrow> string \<Rightarrow> graph_db \<Rightarrow> graph_db" where
  "fold_decision a d at src p db =
     (let db1 = ensure_node a (dm_id d) KIND_DECISION [(''summary'', dm_summary d)] p db;
          db2 = foldl (edge_to_location a (dm_id d) REL_GOVERNS at src p) db1 (referenced_ids (dm_governs d))
      in if dm_supersedes d = [] then db2
         else supersede_decision (dm_supersedes d) at p
                (fst (add_edge (dm_id d) (dm_supersedes d) REL_SUPERSEDES at src p TIER_EXTRACTED
                   (ensure_node a (dm_supersedes d) KIND_DECISION [] p db2))))"

definition fold_lesson :: "asserter \<Rightarrow> located_record \<Rightarrow> int \<Rightarrow> position \<Rightarrow> string \<Rightarrow> graph_db \<Rightarrow> graph_db" where
  "fold_lesson a l at src p db =
     foldl (edge_to_location a (lr_id l) REL_ABOUT at src p)
       (ensure_node a (lr_id l) KIND_LESSON [(''summary'', lr_summary l)] p db) (locations l)"

definition fold_finding :: "asserter \<Rightarrow> located_record \<Rightarrow> int \<Rightarrow> position \<Rightarrow> string \<Rightarrow> graph_db \<Rightarrow> graph_db" where
  "fold_finding a f at src p db =
     foldl (edge_to_location a (lr_id f) REL_ABOUT at src p)
       (ensure_node a (lr_id f) KIND_FINDING
          [(''summary'', lr_summary f), (''by'', lr_by f), (''unit'', lr_unit f)] p db) (locations f)"

definition marked_upheld :: "graph_db \<Rightarrow> string \<Rightarrow> string \<Rightarrow> string list" where
  "marked_upheld db u p =
     sort (map nc_id (filter (\<lambda>n. nc_kind n = KIND_FINDING \<and> attrs_get (nc_attrs n) ''disposition'' = Some ''upheld''
              \<and> attrs_get (nc_attrs n) ''unit'' = Some u \<and> nc_project n = p) (g_nodes db)))"

definition fold_integrated :: "string \<Rightarrow> int \<Rightarrow> string \<Rightarrow> graph_db \<Rightarrow> graph_db" where
  "fold_integrated u at p db = foldl (\<lambda>db fid. invalidate_finding_edges fid at p db) db (marked_upheld db u p)"

definition mark_upheld :: "string \<Rightarrow> string \<Rightarrow> graph_db \<Rightarrow> string \<Rightarrow> graph_db" where
  "mark_upheld u p db fid =
     db\<lparr>g_nodes := update_where (\<lambda>n. is_node fid p n \<and> nc_kind n = KIND_FINDING)
          (\<lambda>n. n\<lparr>nc_attrs := attrs_set (nc_attrs n) [(''disposition'', ''upheld''), (''unit'', u)]\<rparr>) (g_nodes db)\<rparr>"

definition fold_result :: "codec \<Rightarrow> event \<Rightarrow> int \<Rightarrow> string \<Rightarrow> graph_db \<Rightarrow> graph_db" where
  "fold_result D e at p db =
     (case result_from_event D e of
        Inl _ \<Rightarrow> db
      | Inr r \<Rightarrow>
          (case result_adjudication D r of
             None \<Rightarrow> db
           | Some adj \<Rightarrow>
               foldl (mark_upheld (takeWhile (\<lambda>c. c \<noteq> CHR ''/'') (sr_id r)) p)
                 (foldl (\<lambda>db fid. invalidate_finding_edges fid at p db) db (bs_collect (ad_discarded adj)))
                 (bs_collect (ad_upheld adj))))"

section \<open>The arms of code\<close>

definition file_attrs :: "string \<Rightarrow> bool \<Rightarrow> (string \<times> string) list" where
  "file_attrs lang degraded = (''lang'', lang) # (if degraded then [(''partial'', ''true'')] else [])"

definition upgrade_references :: "string \<Rightarrow> string \<Rightarrow> string \<Rightarrow> graph_db \<Rightarrow> graph_db" where
  "upgrade_references entity name p db =
     db\<lparr>g_edges := update_where
          (\<lambda>e. ec_rel e \<in> {REL_REFERENCES, REL_CALLS} \<and> ec_tier e = TIER_AMBIGUOUS \<and> ec_project e = p \<and> ec_live e
             \<and> ec_to e \<noteq> entity \<and> edge_binds_leaf (ec_to e) name)
          (\<lambda>e. e\<lparr>ec_tier := TIER_INFERRED\<rparr>) (g_edges db)\<rparr>"

definition fold_entity :: "asserter \<Rightarrow> code_entity_extracted \<Rightarrow> int \<Rightarrow> position \<Rightarrow> string \<Rightarrow> graph_db \<Rightarrow> graph_db" where
  "fold_entity a c at src p db =
     (let file = resolve_alias_in db (ce_file c);
          db1 = (if ce_fresh c then supersede_file_edges file at p db else db);
          db2 = ensure_node a file KIND_FILE (file_attrs (ce_lang c) (ce_partial c)) p db1;
          entity = entity_id file (id_path c);
          defined = definition_name db2 entity p;
          (kind, line) = settling_definition a entity (ce_kind c) (ce_line c) p db2;
          db3 = ensure_node a entity KIND_CODE_ENTITY
                  [(''name'', ce_name c), (''kind'', kind), (''line'', show_u32 line), (''lang'', ce_lang c)] p db2;
          (db4, defines) = undo_what_resolved_against entity defined p db3;
          (db5, container) =
            (case parent_path c of
               Some parent \<Rightarrow>
                 let i = entity_id file parent in (ensure_node a i KIND_CODE_ENTITY [] p db4, i)
             | None \<Rightarrow> (db4, file));
          db6 = fst (add_edge container entity REL_CONTAINS at src p TIER_EXTRACTED db5)
      in case defines of
           None \<Rightarrow> db6
         | Some _ \<Rightarrow> owe_proofs (ce_name c) (upgrade_references entity (ce_name c) p db6))"

definition fold_test_evidence :: "(string list \<Rightarrow> string) \<Rightarrow> edge_inferred \<Rightarrow> position \<Rightarrow> string \<Rightarrow> graph_db \<Rightarrow> graph_db" where
  "fold_test_evidence en r src p db =
     (let file = resolve_alias_in db (ei_file r);
          db1 = (if ei_fresh r then supersede_file_proof en file p db else db)
      in if ei_name r = [] then db1
         else owe_proofs (ei_name r)
           (db1\<lparr>g_proofs := g_proofs db1 @
              [\<lparr>pc_project = p, pc_name = ei_name r, pc_file = file,
                pc_evidence = file @ '':'' @ show_u32 (ei_line r), pc_source = src, pc_target = None\<rparr>]\<rparr>))"

definition fold_inferred ::
  "(string list \<Rightarrow> string) \<Rightarrow> asserter \<Rightarrow> edge_inferred \<Rightarrow> int \<Rightarrow> position \<Rightarrow> string \<Rightarrow> graph_db \<Rightarrow> graph_db" where
  "fold_inferred en a r at src p db =
     (if ei_is_test r then fold_test_evidence en r src p db
      else
        (let file = resolve_alias_in db (ei_file r);
             db1 = (if ei_fresh r then supersede_file_edges file at p db else db)
         in if ei_name r = [] then db1
            else
              (let db2 = ensure_node a file KIND_FILE (file_attrs (ei_lang r) (ei_partial r)) p db1
               in if ei_ref_kind r \<noteq> None then db2
                  else
                    (let (target, tier) =
                         (case same_file_candidates db2 p file (ei_name r) of
                            [one] \<Rightarrow> (one, TIER_EXTRACTED)
                          | _ \<Rightarrow> let target = placeholder_id file (ei_name r)
                                 in (target, reference_tier db2 target (ei_name r) p));
                         db3 = ensure_node a target KIND_CODE_ENTITY [] p db2;
                         db4 = fst (add_edge file target REL_REFERENCES at src p tier db3)
                     in case ei_caller r of
                          None \<Rightarrow> db4
                        | Some caller \<Rightarrow>
                            let i = entity_id file caller
                            in fst (add_edge i target REL_CALLS at src p tier (ensure_node a i KIND_CODE_ENTITY [] p db4))))))"

section \<open>The arms of design intent and of the derived passes\<close>

definition DOC_KINDS :: "string list" where
  "DOC_KINDS = [KIND_DESIGN_DOC, KIND_ARCH_DECISION, KIND_HANDBOOK_RULE, KIND_RATIONALE, KIND_STAGE, KIND_GATE, KIND_AGENT]"

definition DOC_RELS :: "string list" where
  "DOC_RELS = [REL_SPECIFIES, REL_CONSTRAINS, REL_GOVERNS, REL_EXPLAINS, REL_DOC_REFERENCES, REL_NEEDS, REL_RUNS,
     REL_REVIEWS, REL_REVIEWS_LIGHT]"

definition fold_concept :: "asserter \<Rightarrow> doc_concept \<Rightarrow> string \<Rightarrow> graph_db \<Rightarrow> graph_db" where
  "fold_concept a c p db =
     (if dc_kind c \<notin> set DOC_KINDS then db
      else ensure_node a (resolve_alias_in db (dc_id c)) (dc_kind c) [(''title'', dc_title c), (''doc'', dc_doc c)] p db)"

definition fold_link :: "asserter \<Rightarrow> doc_link \<Rightarrow> int \<Rightarrow> position \<Rightarrow> string \<Rightarrow> graph_db \<Rightarrow> graph_db" where
  "fold_link a l at src p db =
     (let from = resolve_alias_in db (dl_from l); to = resolve_alias_in db (dl_to l)
      in if dl_rel l \<notin> set DOC_RELS then db
         else assert_link a from to (dl_rel l) at src p TIER_EXTRACTED
                (ensure_node a to KIND_ARTIFACT [] p (ensure_node a from KIND_ARTIFACT [] p db)))"

definition fold_community :: "asserter \<Rightarrow> community_assigned \<Rightarrow> int \<Rightarrow> position \<Rightarrow> string \<Rightarrow> graph_db \<Rightarrow> graph_db" where
  "fold_community a c at src p db =
     (let prefix = ''community/'' @ cm_resolution c @ ''/'';
          db1 = (if cm_fresh c
                 then drop_memberless prefix KIND_COMMUNITY REL_IN_COMMUNITY p (retire_grain prefix REL_IN_COMMUNITY at p db)
                 else db);
          db2 = attach (cm_node c) (cm_community c) REL_IN_COMMUNITY at src p
                  (ensure_node a (cm_community c) KIND_COMMUNITY [] p db1)
      in owe_relabel p (cm_community c)
           (db2\<lparr>g_nodes := update_where (is_node (cm_community c) p)
               (\<lambda>n. n\<lparr>nc_attrs := attr_json [(''resolution'', cm_resolution c), (''hash'', cm_hash c), (''label'', [])]\<rparr>)
               (g_nodes db2)\<rparr>))"

definition fold_derived :: "asserter \<Rightarrow> concept_derived \<Rightarrow> int \<Rightarrow> string \<Rightarrow> graph_db \<Rightarrow> graph_db" where
  "fold_derived a c at p db =
     (let prefix = ''concept/'' @ cd_resolution c @ ''/'';
          db1 = (if cd_fresh c
                 then drop_memberless prefix KIND_CONCEPT REL_REALIZES p (retire_grain prefix REL_REALIZES at p db)
                 else db)
      in ensure_node a (cd_concept c) KIND_CONCEPT
           [(''resolution'', cd_resolution c), (''hash'', cd_hash c), (''label'', cd_label c)] p db1)"

definition fold_realized :: "asserter \<Rightarrow> concept_realized \<Rightarrow> int \<Rightarrow> position \<Rightarrow> string \<Rightarrow> graph_db \<Rightarrow> graph_db" where
  "fold_realized a c at src p db =
     attach (cr_node c) (cr_concept c) REL_REALIZES at src p (ensure_node a (cr_concept c) KIND_CONCEPT [] p db)"

section \<open>One event\<close>

definition fold_event :: "graph_codec \<Rightarrow> event \<Rightarrow> string \<Rightarrow> asserter \<Rightarrow> graph_db \<Rightarrow> graph_error + graph_db" where
  "fold_event G e p a db =
     (let at = to_nanos (valid_from e); src = ev_position e; data = ev_data e; ty = ev_type e
      in if ty = TYPE_DECISION_MADE then bind_res (be (gd_decision G data)) (\<lambda>d. Inr (fold_decision a d at src p db))
         else if ty = TYPE_UNIT_INTEGRATED then bind_res (be (gd_integrated G data)) (\<lambda>u. Inr (fold_integrated u at p db))
         else if ty = TYPE_LESSON_LEARNED then bind_res (be (gd_lesson G data)) (\<lambda>l. Inr (fold_lesson a l at src p db))
         else if ty = TYPE_REVIEW_FINDING then bind_res (be (gd_finding G data)) (\<lambda>f. Inr (fold_finding a f at src p db))
         else if ty = TYPE_CODE_ENTITY_EXTRACTED then bind_res (be (gd_entity G data)) (\<lambda>c. Inr (fold_entity a c at src p db))
         else if ty = TYPE_EDGE_INFERRED then bind_res (be (gd_inferred G data)) (\<lambda>r. Inr (fold_inferred (gd_strings G) a r at src p db))
         else if ty = TYPE_DOC_CONCEPT_EXTRACTED then bind_res (be (gd_concept G data)) (\<lambda>c. Inr (fold_concept a c p db))
         else if ty = TYPE_DOC_LINK_EXTRACTED then bind_res (be (gd_link G data)) (\<lambda>l. Inr (fold_link a l at src p db))
         else if ty = TYPE_SPAWN_RESULT then Inr (fold_result (gd_codec G) e at p db)
         else if ty = TYPE_ALIAS_DEFINED then
           bind_res (be (gd_alias G data)) (\<lambda>(alias, canonical). Inr (db\<lparr>g_aliases := bt_insert alias canonical (g_aliases db)\<rparr>))
         else if ty = TYPE_ALIAS_UNRESOLVED then
           bind_res (be (gd_unresolved G data)) (\<lambda>m. Inr (ensure_node a m KIND_ARTIFACT [(''unresolved'', ''true'')] p db))
         else if ty = TYPE_COMMUNITY_ASSIGNED then bind_res (be (gd_community G data)) (\<lambda>c. Inr (fold_community a c at src p db))
         else if ty = TYPE_CONCEPT_DERIVED then bind_res (be (gd_derived G data)) (\<lambda>c. Inr (fold_derived a c at p db))
         else if ty = TYPE_CONCEPT_REALIZED then bind_res (be (gd_realized G data)) (\<lambda>c. Inr (fold_realized a c at src p db))
         else Inr db)"

definition fold_one :: "graph_codec \<Rightarrow> event \<Rightarrow> string \<Rightarrow> asserter \<Rightarrow> graph_db \<Rightarrow> graph_error + graph_db" where
  "fold_one G e p a db =
     (case advance_generation a p db of
        (db1, prior) \<Rightarrow>
          bind_res (fold_event G e p a db1) (\<lambda>db2.
            Inr (case prior of Some g \<Rightarrow> retire_unheld_nodes a g p db2 | None \<Rightarrow> db2)))"

section \<open>A batch\<close>

definition has_applied :: "graph_db \<Rightarrow> position \<Rightarrow> bool" where
  "has_applied db pos \<longleftrightarrow> pos \<in> set (g_applied db)"

definition record_applied :: "position \<Rightarrow> graph_db \<Rightarrow> graph_db \<times> bool" where
  "record_applied pos db = (if has_applied db pos then (db, False) else (db\<lparr>g_applied := g_applied db @ [pos]\<rparr>, True))"

definition passed_over_cause :: "graph_db \<Rightarrow> position list \<Rightarrow> string option" where
  "passed_over_cause db ps = map_option snd (find (\<lambda>r. fst r \<in> set ps) (sort_key fst (g_passed_over db)))"

definition fold_new_step ::
  "graph_codec \<Rightarrow> string \<Rightarrow> graph_db \<times> string option \<Rightarrow> event \<Rightarrow> graph_error + graph_db \<times> string option" where
  "fold_new_step G p w e =
     (case w of (db, cause) \<Rightarrow>
        if is_ledger_entry (ev_type e)
        then Inl (GraphError ''a GenerationIngested entry folds only with its batch, through `Projection::apply_generation`'')
        else (case record_applied (ev_position e) db of
                (db1, True) \<Rightarrow> bind_res (fold_one G e p (asserter_of e) db1) (\<lambda>db2. Inr (db2, cause))
              | (db1, False) \<Rightarrow>
                  Inr (db1, if cause = None then passed_over_cause db1 [ev_position e] else cause)))"

definition fold_new :: "graph_codec \<Rightarrow> event list \<Rightarrow> string \<Rightarrow> graph_db \<Rightarrow> graph_error + graph_db \<times> string option" where
  "fold_new G es p db =
     bind_res (fold_res (fold_new_step G p) (db, None) es) (\<lambda>(db', cause). Inr (relabel_owed_communities db', cause))"

end
