(* ===== verification/Graph_Entry.thy ===== *)
theory Graph_Entry
  imports Graph_Fold
begin

text \<open>
  A ledger entry folded with its batch (\<open>fold_entry\<close>), the references its batch stages and settles once
  at its end (\<open>refs\<close>), the transaction frame of the appenders (\<open>in_transaction\<close>, \<open>apply_batch\<close>) and the
  run-closure prune (\<open>prune_in\<close>) of \<open>sqlite.rs\<close>. A row of \<open>refs\<close> is named by its index: rows are only
  inserted and deleted outside a settlement.
\<close>

section \<open>Kinds of reference\<close>

abbreviation "REF_KIND_TYPE \<equiv> ''type''"
abbreviation "REF_KIND_CONST \<equiv> ''const''"
abbreviation "REF_KIND_USE \<equiv> ''use''"
abbreviation "REF_KIND_MODULE \<equiv> ''module''"

definition LEAF_REF_KINDS :: "string list" where
  "LEAF_REF_KINDS = [REF_KIND_TYPE, REF_KIND_CONST, REF_KIND_USE]"

definition STAGED_RELS :: "string list" where
  "STAGED_RELS = [REL_REFERENCES, REL_CONTAINS]"

definition reference_candidate_kinds :: "string \<Rightarrow> string list" where
  "reference_candidate_kinds k =
     (if k = REF_KIND_TYPE then [''type'', ''trait'']
      else if k = REF_KIND_CONST then [''constant'', ''static'']
      else if k = REF_KIND_USE
      then filter (\<lambda>kind. kind \<noteq> ''method'' \<and> kind \<notin> set NON_TARGET_KINDS) CODE_KIND_PRECEDENCE
      else [])"

definition staged_rel :: "string \<Rightarrow> string option" where
  "staged_rel k =
     (if k = REF_KIND_MODULE then Some REL_CONTAINS else if k \<in> set LEAF_REF_KINDS then Some REL_REFERENCES else None)"

section \<open>Staging\<close>

definition same_ref :: "ref_cell \<Rightarrow> ref_cell \<Rightarrow> bool" where
  "same_ref r s \<longleftrightarrow> rc_project r = rc_project s \<and> rc_identity r = rc_identity s \<and> rc_from r = rc_from s
     \<and> rc_leaf r = rc_leaf s \<and> rc_kind r = rc_kind s"

definition stage_reference :: "graph_codec \<Rightarrow> event \<Rightarrow> string \<Rightarrow> asserter \<Rightarrow> graph_db \<Rightarrow> graph_db" where
  "stage_reference G e p a db =
     (let tagged = (if ev_type e = TYPE_EDGE_INFERRED then res_ok (gd_inferred G (ev_data e)) else None)
      in case Option.bind tagged (\<lambda>r. map_option (\<lambda>k. (r, k)) (opt_filter (\<lambda>k. staged_rel k \<noteq> None) (ei_ref_kind r))) of
           None \<Rightarrow> db
         | Some (r, kind) \<Rightarrow>
             (let file = resolve_alias_in db (ei_file r);
                  from = (case ei_caller r of Some caller \<Rightarrow> resolve_alias_in db (entity_id file caller) | None \<Rightarrow> file);
                  row = \<lparr>rc_project = p, rc_identity = as_identity a, rc_generation = as_generation a, rc_from = from,
                         rc_leaf = ei_name r, rc_kind = kind, rc_lang = ei_lang r, rc_position = ev_position e,
                         rc_target = None\<rparr>
              in if list_ex (same_ref row) (g_refs db) then db else db\<lparr>g_refs := g_refs db @ [row]\<rparr>))"

definition live_ref :: "graph_db \<Rightarrow> ref_cell \<Rightarrow> bool" where
  "live_ref db r \<longleftrightarrow> current_generation db (rc_project r) (rc_identity r) = Some (rc_generation r)"

text \<open>\<open>instr\<close> of one text in another is positive.\<close>

definition text_occurs :: "string \<Rightarrow> string \<Rightarrow> bool" where
  "text_occurs needle hay \<longleftrightarrow> list_ex (\<lambda>n. starts_with (drop n hay) needle) [0..<Suc (length hay)]"

definition module_names :: "graph_db \<Rightarrow> string \<Rightarrow> string \<Rightarrow> bool" where
  "module_names db leaf node \<longleftrightarrow>
     list_ex (\<lambda>i. text_occurs ([CHR 0x0A] @ i @ [CHR 0x0A]) ([CHR 0x0A] @ leaf @ [CHR 0x0A]))
       (node # map fst (filter (\<lambda>(_, canonical). canonical = node) (g_aliases db)))"

definition staged_row :: "graph_db \<Rightarrow> asserter \<Rightarrow> string \<Rightarrow> ref_cell \<Rightarrow> bool" where
  "staged_row db a p r \<longleftrightarrow>
     rc_project r = p \<and> live_ref db r \<and>
     (rc_identity r = as_identity a \<or>
      list_ex (\<lambda>n. na_project n = p \<and> na_identity n = as_identity a \<and> attrs_leaf (na_attrs n) = Some (rc_leaf r))
        (g_node_assertions db) \<or>
      rc_kind r = REF_KIND_MODULE \<and>
      list_ex (\<lambda>n. na_project n = p \<and> na_identity n = as_identity a \<and> na_kind n = KIND_FILE
                 \<and> module_names db (rc_leaf r) (na_node n)) (g_node_assertions db))"

text \<open>The rows a batch settles, in identity order, those of one identity in row order.\<close>

definition staged_rows :: "graph_db \<Rightarrow> asserter \<Rightarrow> string \<Rightarrow> (nat \<times> ref_cell) list" where
  "staged_rows db a p =
     sort_key (\<lambda>ir. rc_identity (snd ir)) (filter (\<lambda>ir. staged_row db a p (snd ir)) (enumerate 0 (g_refs db)))"

section \<open>Settlement\<close>

definition retarget :: "nat \<Rightarrow> string option \<Rightarrow> graph_db \<Rightarrow> graph_db" where
  "retarget i target db = db\<lparr>g_refs := (g_refs db)[i := (g_refs db ! i)\<lparr>rc_target := target\<rparr>]\<rparr>"

text \<open>What settling a row answers, besides the row's change: nothing when the row keeps its target.\<close>

type_synonym settled = "(string option \<times> string \<times> bool) option"

definition module_target :: "graph_db \<Rightarrow> string \<Rightarrow> string \<Rightarrow> string option" where
  "module_target db leaf p =
     find (\<lambda>i. case node_row db i p of Some n \<Rightarrow> nc_kind n = KIND_FILE | None \<Rightarrow> False)
       (map (resolve_alias_in db) (split_on (CHR 0x0A) leaf))"

definition settled_module :: "nat \<Rightarrow> ref_cell \<Rightarrow> string \<Rightarrow> graph_db \<Rightarrow> graph_db \<times> settled" where
  "settled_module i row p db =
     (let target = module_target db (rc_leaf row) p
      in if rc_target (g_refs db ! i) = target then (db, None)
         else (retarget i target db, Some (target, TIER_EXTRACTED, False)))"

definition one_definition :: "string list \<Rightarrow> string option" where
  "one_definition ids = (case ids of [one] \<Rightarrow> Some one | _ \<Rightarrow> None)"

definition settled_target :: "nat \<Rightarrow> ref_cell \<Rightarrow> string \<Rightarrow> string \<Rightarrow> graph_db \<Rightarrow> graph_db \<times> settled" where
  "settled_target i row rel p db =
     (let rule = (\<lambda>n. (case attrs_get (nc_attrs n) ''kind'' of
                          None \<Rightarrow> False | Some k \<Rightarrow> k \<in> set (reference_candidate_kinds (rc_kind row)))
                    \<and> attrs_get (nc_attrs n) ''lang'' = Some (rc_lang row));
          same = one_definition (leaf_definitions db rule (rc_leaf row) p (Some (fst (split_id (rc_from row)))));
          any = one_definition (leaf_definitions db rule (rc_leaf row) p None);
          target = (case same of Some t \<Rightarrow> Some t | None \<Rightarrow> any)
      in if rc_target (g_refs db ! i) = target then (db, None)
         else (retarget i target db,
               Some (target,
                     if target \<noteq> None \<and> target = same then TIER_EXTRACTED else TIER_INFERRED,
                     list_ex (\<lambda>e. ec_project e = p \<and> ec_from e = rc_from row \<and> ec_rel e = rel \<and> ec_live e
                                \<and> (Some (ec_to e) = target \<or> ec_to e = placeholder_id (rc_from row) (rc_leaf row)))
                       (g_edges db))))"

definition release_reference :: "asserter \<Rightarrow> string \<Rightarrow> string \<Rightarrow> string \<Rightarrow> graph_db \<Rightarrow> graph_db" where
  "release_reference a from target p db =
     (let held = list_ex (\<lambda>r. rc_project r = p \<and> rc_identity r = as_identity a \<and> rc_from r = from
                             \<and> rc_target r = Some target) (g_refs db);
          gone = (\<lambda>x. ea_project x = p \<and> ea_identity x = as_identity a \<and> \<not> held
                    \<and> list_ex (\<lambda>e. ec_id e = ea_edge x \<and> ec_from e = from \<and> ec_to e = target) (g_edges db));
          released = map ea_edge (filter gone (g_edge_assertions db))
      in foldl (\<lambda>db edge. settle_edge edge (as_at a) p db)
           (db\<lparr>g_edge_assertions := filter (\<lambda>x. \<not> gone x) (g_edge_assertions db)\<rparr>) released)"

definition settle_reference :: "asserter \<Rightarrow> string \<Rightarrow> graph_db \<Rightarrow> nat \<times> ref_cell \<Rightarrow> graph_db" where
  "settle_reference a p db ir =
     (case ir of (i, row) \<Rightarrow>
       (case staged_rel (rc_kind row) of
          None \<Rightarrow> db
        | Some rel \<Rightarrow>
            (let (db1, settled) = (if rc_kind row = REF_KIND_MODULE then settled_module i row p db
                                   else settled_target i row rel p db);
                 b = \<lparr>as_identity = rc_identity row, as_generation = rc_generation row, as_at = as_at a\<rparr>;
                 (resolved, tier, held) = unwrap_or (None, [], False) settled;
                 db2 = (case rc_target row of Some old \<Rightarrow> release_reference b (rc_from row) old p db1 | None \<Rightarrow> db1)
             in case resolved of
                  Some target \<Rightarrow> if held then db2
                    else assert_link b (rc_from row) target rel (as_at a) (rc_position row) p tier db2
                | None \<Rightarrow> db2)))"

definition settle_references :: "asserter \<Rightarrow> string \<Rightarrow> graph_db \<Rightarrow> graph_db" where
  "settle_references a p db =
     (let db' = foldl (settle_reference a p) db (staged_rows db a p)
      in db'\<lparr>g_edge_assertions := filter
           (\<lambda>x. \<not> (ea_project x = p \<and> ea_identity x = as_identity a \<and> ea_generation x \<noteq> as_generation a
                 \<and> list_ex (\<lambda>e. ec_id e = ea_edge x \<and> ec_rel e \<in> set STAGED_RELS) (g_edges db')))
           (g_edge_assertions db')\<rparr>)"

section \<open>A ledger entry\<close>

datatype batch_answer = Batch "event list option" | Unread
datatype entry_fold = AlreadyApplied | ReRecording | BatchAsked
datatype entry_outcome = Folded entry_fold | Unresolved | UnreadEntry

definition is_re_recording :: "graph_db \<Rightarrow> string \<Rightarrow> generation_ingested \<Rightarrow> bool" where
  "is_re_recording db p named \<longleftrightarrow> current_generation db p (entry_identity named) = Some (gi_generation named)"

definition fold_batch_event :: "graph_codec \<Rightarrow> event \<Rightarrow> string \<Rightarrow> asserter \<Rightarrow> graph_db \<Rightarrow> event \<Rightarrow> graph_error + graph_db" where
  "fold_batch_event G entry p a db e0 =
     (let e = e0\<lparr>ev_position := ev_position entry, valid_from := valid_from entry\<rparr>
      in bind_res (fold_one G e p a db) (\<lambda>db'. Inr (stage_reference G e p a db')))"

definition fold_entry ::
  "graph_codec \<Rightarrow> event \<Rightarrow> string \<Rightarrow> graph_error + batch_answer \<Rightarrow> graph_db \<Rightarrow> graph_error + graph_db \<times> entry_outcome" where
  "fold_entry G entry p batch db =
     (case record_applied (ev_position entry) db of
        (db1, False) \<Rightarrow> Inr (db1, Folded AlreadyApplied)
      | (db1, True) \<Rightarrow>
          (case entry_parse (gd_entry G) (ev_data entry) of
             Inl why \<Rightarrow> Inl (GraphError why)
           | Inr named \<Rightarrow>
               if is_re_recording db1 p named then Inr (db1, Folded ReRecording)
               else
                 (let a = \<lparr>as_identity = entry_identity named, as_generation = gi_generation named,
                           as_at = to_nanos (valid_from entry)\<rparr>
                  in bind_res batch (\<lambda>answer.
                       case answer of
                         Unread \<Rightarrow> Inr (db1, UnreadEntry)
                       | Batch None \<Rightarrow> Inr (db1, Unresolved)
                       | Batch (Some es) \<Rightarrow>
                           if es = [] then Inr (db1, Folded BatchAsked)
                           else bind_res
                             (fold_res (fold_batch_event G entry p a)
                               (db1\<lparr>g_refs := filter (\<lambda>r. \<not> (rc_project r = p \<and> rc_identity r = as_identity a)) (g_refs db1)\<rparr>) es)
                             (\<lambda>db2. Inr (relabel_owed_communities (settle_references a p db2), Folded BatchAsked))))))"

section \<open>The transaction frame\<close>

text \<open>\<open>in_transaction\<close>: the body's proofs are settled before the commit, and an error leaves the database as
  it was.\<close>

definition in_transaction ::
  "(string list \<Rightarrow> string) \<Rightarrow> string \<Rightarrow> (graph_db \<Rightarrow> graph_error + graph_db \<times> 'a) \<Rightarrow> graph_db \<Rightarrow> graph_db \<times> (graph_error + 'a)" where
  "in_transaction en p body db =
     (case body db of Inl err \<Rightarrow> (db, Inl err) | Inr (db', answer) \<Rightarrow> (settle_proofs en p db', Inr answer))"

text \<open>\<open>apply_batch\<close> folded directly: the cause a position was passed over with is an answer the batch
  commits under.\<close>

definition apply_batch :: "graph_codec \<Rightarrow> event list \<Rightarrow> string \<Rightarrow> graph_db \<Rightarrow> graph_db \<times> (graph_error + string option)" where
  "apply_batch G es p db = in_transaction (gd_strings G) p (fold_new G es p) db"

definition unread_entry :: "position \<Rightarrow> graph_error" where
  "unread_entry pos = GraphError (''the GenerationIngested entry at position '' @ show_nat pos @
     '' asked for a batch it was not handed: another writer installed a newer generation of its identity while it folded'')"

text \<open>\<open>apply_generation\<close>: a position already folded answers the cause it was passed over with, if it was, and
  an entry no source resolves counts as asked. Its own batch function always answers a batch or none.\<close>

definition generation_answer :: "event \<Rightarrow> graph_db \<times> entry_outcome \<Rightarrow> graph_error + graph_db \<times> (string + entry_fold)" where
  "generation_answer entry w =
     (case w of (db, outcome) \<Rightarrow>
       (case outcome of
          Folded AlreadyApplied \<Rightarrow>
            (case passed_over_cause db [ev_position entry] of
               Some cause \<Rightarrow> Inr (db, Inl cause) | None \<Rightarrow> Inr (db, Inr AlreadyApplied))
        | Folded f \<Rightarrow> Inr (db, Inr f)
        | Unresolved \<Rightarrow> Inr (db, Inr BatchAsked)
        | UnreadEntry \<Rightarrow> Inl (unread_entry (ev_position entry))))"

definition apply_generation ::
  "graph_codec \<Rightarrow> event \<Rightarrow> string \<Rightarrow> graph_error + event list option \<Rightarrow> graph_db \<Rightarrow> graph_db \<times> (graph_error + (string + entry_fold))" where
  "apply_generation G entry p batch db =
     in_transaction (gd_strings G) p
       (\<lambda>db. bind_res (fold_entry G entry p (bind_res batch (\<lambda>es. Inr (Batch es))) db) (generation_answer entry)) db"

section \<open>The prune\<close>

record prune_stats =
  ps_nodes :: nat
  ps_superseded_edges :: nat

definition prunable_edge :: "graph_db \<Rightarrow> string \<Rightarrow> int option \<Rightarrow> edge_cell \<Rightarrow> bool" where
  "prunable_edge db p before e \<longleftrightarrow>
     (case (before, ec_valid_to e) of (Some b, Some t) \<Rightarrow> t < b | _ \<Rightarrow> False) \<and> ec_project e = p
     \<and> \<not> list_ex (\<lambda>x. ea_edge x = ec_id e) (g_edge_assertions db)
     \<and> \<not> list_ex (\<lambda>d. dt_edge d = ec_id e) (g_detached db)"

definition prune_in :: "string \<Rightarrow> string list \<Rightarrow> int option \<Rightarrow> graph_db \<Rightarrow> graph_db \<times> prune_stats" where
  "prune_in p ids before db =
     (let db1 = db\<lparr>g_edges := filter (\<lambda>e. \<not> ((ec_from e \<in> set ids \<or> ec_to e \<in> set ids) \<and> ec_project e = p)) (g_edges db)\<rparr>;
          dropped = (\<lambda>n. nc_id n \<in> set ids \<and> nc_project n = p);
          db2 = db1\<lparr>g_nodes := filter (\<lambda>n. \<not> dropped n) (g_nodes db1)\<rparr>;
          db3 = db2\<lparr>g_edges := filter (\<lambda>e. \<not> prunable_edge db2 p before e) (g_edges db2)\<rparr>
      in (db3, \<lparr>ps_nodes = length (filter dropped (g_nodes db1)),
                ps_superseded_edges = length (filter (prunable_edge db2 p before) (g_edges db2))\<rparr>))"

end
