(* ===== verification/Graph_Frame.thy ===== *)
theory Graph_Frame
  imports Graph_Entry
begin

text \<open>
  What every write of the context graph's fold keeps: the edges it found, each under its id with its ends,
  its relation and its project, and every row of another project. \<open>grown p db0 db\<close> says this of a database
  \<open>db\<close> that writes of project \<open>p\<close> made from \<open>db0\<close>, with the invariant the writes rest on: edge ids are
  distinct and below the counter, an assertion or a detached attachment of an edge is of the edge's
  own project. Applied positions only accumulate.
\<close>

section \<open>The frame\<close>

definition edge_keys :: "graph_db \<Rightarrow> (nat \<times> string \<times> string \<times> string \<times> string) list" where
  "edge_keys db = map (\<lambda>e. (ec_id e, ec_from e, ec_to e, ec_rel e, ec_project e)) (g_edges db)"

definition edge_within :: "graph_db \<Rightarrow> string \<Rightarrow> nat \<Rightarrow> bool" where
  "edge_within db p i \<longleftrightarrow> i < g_next_edge db \<and> (\<forall>e \<in> set (g_edges db). ec_id e = i \<longrightarrow> ec_project e = p)"

definition graph_ok :: "graph_db \<Rightarrow> bool" where
  "graph_ok db \<longleftrightarrow>
     distinct (map ec_id (g_edges db)) \<and> (\<forall>e \<in> set (g_edges db). ec_id e < g_next_edge db) \<and>
     (\<forall>a \<in> set (g_edge_assertions db). edge_within db (ea_project a) (ea_edge a)) \<and>
     (\<forall>d \<in> set (g_detached db). edge_within db (dt_project d) (dt_edge d))"

text \<open>The rows of the projects other than \<open>p\<close>.\<close>

definition foreign_nodes :: "string \<Rightarrow> graph_db \<Rightarrow> node_cell list \<times> node_cell list" where
  "foreign_nodes p db = (filter (\<lambda>n. nc_project n \<noteq> p) (g_nodes db), filter (\<lambda>n. nc_project n \<noteq> p) (g_retired db))"

definition foreign_edges :: "string \<Rightarrow> graph_db \<Rightarrow> edge_cell list" where
  "foreign_edges p db = filter (\<lambda>e. ec_project e \<noteq> p) (g_edges db)"

definition foreign_ledgers ::
  "string \<Rightarrow> graph_db \<Rightarrow> generation_cell list \<times> node_assertion list \<times> edge_assertion list \<times> detached_cell list
     \<times> proof_cell list \<times> ref_cell list" where
  "foreign_ledgers p db =
     (filter (\<lambda>g. gc_project g \<noteq> p) (g_generations db), filter (\<lambda>a. na_project a \<noteq> p) (g_node_assertions db),
      filter (\<lambda>a. ea_project a \<noteq> p) (g_edge_assertions db), filter (\<lambda>d. dt_project d \<noteq> p) (g_detached db),
      filter (\<lambda>r. pc_project r \<noteq> p) (g_proofs db), filter (\<lambda>r. rc_project r \<noteq> p) (g_refs db))"

definition grown :: "string \<Rightarrow> graph_db \<Rightarrow> graph_db \<Rightarrow> bool" where
  "grown p db0 db \<longleftrightarrow>
     graph_ok db \<and> g_next_edge db0 \<le> g_next_edge db \<and> (\<exists>new. edge_keys db = edge_keys db0 @ new) \<and>
     foreign_nodes p db = foreign_nodes p db0 \<and> foreign_edges p db = foreign_edges p db0 \<and>
     foreign_ledgers p db = foreign_ledgers p db0 \<and>
     (\<forall>d \<in> set (g_relabel_owed db). fst d = p \<or> d \<in> set (g_relabel_owed db0)) \<and>
     set (g_applied db0) \<subseteq> set (g_applied db)"

named_theorems grown_steps \<open>writes that keep the frame\<close>

lemma grown_refl: "graph_ok db \<Longrightarrow> grown p db db"
  by (auto simp: grown_def)

lemma grown_trans: "grown p a b \<Longrightarrow> grown p b c \<Longrightarrow> grown p a c"
  by (fastforce simp: grown_def)

lemma grown_foldl [grown_steps]:
  "(\<And>db x. x \<in> set xs \<Longrightarrow> grown p db0 db \<Longrightarrow> grown p db0 (f db x)) \<Longrightarrow> grown p db0 db \<Longrightarrow> grown p db0 (foldl f db xs)"
  by (induction xs arbitrary: db) auto

section \<open>Rows\<close>

lemma filter_update_where:
  assumes "\<And>r. P r \<Longrightarrow> \<not> Q r \<and> \<not> Q (f r)"
  shows "filter Q (update_where P f rows) = filter Q rows"
  by (induction rows) (use assms in \<open>auto simp: update_where_def\<close>)

lemma map_update_where:
  assumes "\<And>r. P r \<Longrightarrow> k (f r) = k r"
  shows "map k (update_where P f rows) = map k rows"
  by (induction rows) (use assms in \<open>auto simp: update_where_def\<close>)

lemma set_update_where: "set (update_where P f rows) = f ` {r \<in> set rows. P r} \<union> {r \<in> set rows. \<not> P r}"
  by (auto simp: update_where_def)

text \<open>A change of edges that keeps every row's key and touches only the project's rows.\<close>

lemma edge_within_keys:
  "edge_within db p i \<longleftrightarrow> i < g_next_edge db \<and> (\<forall>(j, _, _, _, q) \<in> set (edge_keys db). j = i \<longrightarrow> q = p)"
  by (auto simp: edge_within_def edge_keys_def)

lemma graph_ok_keys:
  "graph_ok db \<longleftrightarrow>
     distinct (map fst (edge_keys db)) \<and> (\<forall>k \<in> set (edge_keys db). fst k < g_next_edge db) \<and>
     (\<forall>a \<in> set (g_edge_assertions db). edge_within db (ea_project a) (ea_edge a)) \<and>
     (\<forall>d \<in> set (g_detached db). edge_within db (dt_project d) (dt_edge d))"
  by (auto simp: graph_ok_def edge_keys_def o_def)

lemma grown_edges:
  assumes g: "grown p db0 db"
    and keys: "map (\<lambda>e. (ec_id e, ec_from e, ec_to e, ec_rel e, ec_project e)) es = edge_keys db"
    and own: "filter (\<lambda>e. ec_project e \<noteq> p) es = foreign_edges p db"
  shows "grown p db0 (db\<lparr>g_edges := es\<rparr>)"
proof -
  have k: "edge_keys (db\<lparr>g_edges := es\<rparr>) = edge_keys db" using keys by (simp add: edge_keys_def)
  have w: "edge_within (db\<lparr>g_edges := es\<rparr>) q i = edge_within db q i" for q i by (simp add: edge_within_keys k)
  have "graph_ok (db\<lparr>g_edges := es\<rparr>)" using g by (simp add: grown_def graph_ok_keys k w)
  then show ?thesis using g own k by (simp add: grown_def foreign_nodes_def foreign_edges_def foreign_ledgers_def)
qed

lemma grown_update_edges [grown_steps]:
  assumes "grown p db0 db" and "\<And>e. P e \<Longrightarrow> e \<in> set (g_edges db) \<Longrightarrow> ec_project e = p"
    and "\<And>e. ec_id (f e) = ec_id e \<and> ec_from (f e) = ec_from e \<and> ec_to (f e) = ec_to e \<and> ec_rel (f e) = ec_rel e
           \<and> ec_project (f e) = ec_project e"
  shows "grown p db0 (db\<lparr>g_edges := update_where P f (g_edges db)\<rparr>)"
proof (rule grown_edges [OF assms(1)])
  show "map (\<lambda>e. (ec_id e, ec_from e, ec_to e, ec_rel e, ec_project e)) (update_where P f (g_edges db)) = edge_keys db"
    unfolding edge_keys_def by (rule map_update_where) (simp add: assms(3))
  show "filter (\<lambda>e. ec_project e \<noteq> p) (update_where P f (g_edges db)) = foreign_edges p db"
    unfolding foreign_edges_def update_where_def filter_map o_def
    by (rule trans [OF map_cong [OF filter_cong [OF refl] refl] map_idI]) (use assms(2,3) in auto)
qed

text \<open>A change of a node table, of a ledger or of the debts of \<open>p\<close>.\<close>

lemma grown_nodes [grown_steps]:
  assumes "grown p db0 db" "filter (\<lambda>n. nc_project n \<noteq> p) ns = filter (\<lambda>n. nc_project n \<noteq> p) (g_nodes db)"
  shows "grown p db0 (db\<lparr>g_nodes := ns\<rparr>)"
  using assms
  by (simp add: grown_def graph_ok_def edge_within_def edge_keys_def foreign_nodes_def foreign_edges_def foreign_ledgers_def)

lemma grown_retired [grown_steps]:
  assumes "grown p db0 db" "filter (\<lambda>n. nc_project n \<noteq> p) ns = filter (\<lambda>n. nc_project n \<noteq> p) (g_retired db)"
  shows "grown p db0 (db\<lparr>g_retired := ns\<rparr>)"
  using assms
  by (simp add: grown_def graph_ok_def edge_within_def edge_keys_def foreign_nodes_def foreign_edges_def foreign_ledgers_def)

lemma grown_node_assertions [grown_steps]:
  assumes "grown p db0 db" "filter (\<lambda>a. na_project a \<noteq> p) xs = filter (\<lambda>a. na_project a \<noteq> p) (g_node_assertions db)"
  shows "grown p db0 (db\<lparr>g_node_assertions := xs\<rparr>)"
  using assms
  by (simp add: grown_def graph_ok_def edge_within_def edge_keys_def foreign_nodes_def foreign_edges_def foreign_ledgers_def)

lemma grown_edge_assertions [grown_steps]:
  assumes "grown p db0 db" "filter (\<lambda>a. ea_project a \<noteq> p) xs = filter (\<lambda>a. ea_project a \<noteq> p) (g_edge_assertions db)"
    and "\<And>a. a \<in> set xs \<Longrightarrow> edge_within db (ea_project a) (ea_edge a)"
  shows "grown p db0 (db\<lparr>g_edge_assertions := xs\<rparr>)"
  using assms
  by (simp add: grown_def graph_ok_def edge_within_def edge_keys_def foreign_nodes_def foreign_edges_def foreign_ledgers_def)

lemma grown_detached [grown_steps]:
  assumes "grown p db0 db" "filter (\<lambda>a. dt_project a \<noteq> p) ds = filter (\<lambda>a. dt_project a \<noteq> p) (g_detached db)"
    and "\<And>d. d \<in> set ds \<Longrightarrow> edge_within db (dt_project d) (dt_edge d)"
  shows "grown p db0 (db\<lparr>g_detached := ds\<rparr>)"
  using assms
  by (simp add: grown_def graph_ok_def edge_within_def edge_keys_def foreign_nodes_def foreign_edges_def foreign_ledgers_def)

lemma grown_generations [grown_steps]:
  assumes "grown p db0 db" "filter (\<lambda>g. gc_project g \<noteq> p) gs = filter (\<lambda>g. gc_project g \<noteq> p) (g_generations db)"
  shows "grown p db0 (db\<lparr>g_generations := gs\<rparr>)"
  using assms
  by (simp add: grown_def graph_ok_def edge_within_def edge_keys_def foreign_nodes_def foreign_edges_def foreign_ledgers_def)

lemma grown_proofs [grown_steps]:
  assumes "grown p db0 db" "filter (\<lambda>r. pc_project r \<noteq> p) rs = filter (\<lambda>r. pc_project r \<noteq> p) (g_proofs db)"
  shows "grown p db0 (db\<lparr>g_proofs := rs\<rparr>)"
  using assms
  by (simp add: grown_def graph_ok_def edge_within_def edge_keys_def foreign_nodes_def foreign_edges_def foreign_ledgers_def)

lemma grown_refs [grown_steps]:
  assumes "grown p db0 db" "filter (\<lambda>r. rc_project r \<noteq> p) rs = filter (\<lambda>r. rc_project r \<noteq> p) (g_refs db)"
  shows "grown p db0 (db\<lparr>g_refs := rs\<rparr>)"
  using assms
  by (simp add: grown_def graph_ok_def edge_within_def edge_keys_def foreign_nodes_def foreign_edges_def foreign_ledgers_def)

lemma grown_ledger [grown_steps]:
  assumes "grown p db0 db"
  shows "grown p db0 (db\<lparr>g_proofs_owed := po\<rparr>)" "grown p db0 (db\<lparr>g_applied := g_applied db @ [pos]\<rparr>)"
    "grown p db0 (db\<lparr>g_aliases := al\<rparr>)" "grown p db0 (db\<lparr>g_relabel_owed := []\<rparr>)"
  using assms
  by (auto simp: grown_def graph_ok_def edge_within_def edge_keys_def foreign_nodes_def foreign_edges_def foreign_ledgers_def)

lemma grown_owe_relabel [grown_steps]: "grown p db0 db \<Longrightarrow> grown p db0 (owe_relabel p c db)"
  by (auto simp: owe_relabel_def grown_def graph_ok_def edge_within_def edge_keys_def foreign_nodes_def foreign_edges_def
      foreign_ledgers_def)

lemma grown_owe_relabel_of [grown_steps]: "grown p db0 db \<Longrightarrow> grown p db0 (owe_relabel_of m w p db)"
  unfolding owe_relabel_of_def by (intro grown_steps)

lemma grown_owe_proofs [grown_steps]: "grown p db0 db \<Longrightarrow> grown p db0 (owe_proofs name db)"
  unfolding owe_proofs_def by (intro grown_steps)

lemma grown_owe_ends [grown_steps]: "grown p db0 db \<Longrightarrow> grown p db0 (owe_relabel_of_ends from to rel d p db)"
  by (auto simp: owe_relabel_of_ends_def intro: grown_steps)

section \<open>The writes\<close>

lemma foreign_update_where [simp]:
  assumes "\<And>n. nc_project (f n) = nc_project n" "\<And>n. P n \<Longrightarrow> nc_project n = p"
  shows "filter (\<lambda>n. nc_project n \<noteq> p) (update_where P f ns) = filter (\<lambda>n. nc_project n \<noteq> p) ns"
  by (rule filter_update_where) (use assms in auto)

lemma foreign_remove_keys [simp]:
  "filter (\<lambda>n. nc_project n \<noteq> p) (remove_attr_keys i ks p ns) = filter (\<lambda>n. nc_project n \<noteq> p) ns"
  unfolding remove_attr_keys_def by (rule foreign_update_where) auto

lemma foreign_dropped [simp]:
  "(\<And>n. n \<in> set ns \<Longrightarrow> \<not> P n \<Longrightarrow> nc_project n = p) \<Longrightarrow>
     filter (\<lambda>n. nc_project n \<noteq> p) (filter P ns) = filter (\<lambda>n. nc_project n \<noteq> p) ns"
  by (auto intro: filter_cong)

lemma grown_definition_retired [grown_steps]: "grown p db0 db \<Longrightarrow> grown p db0 (definition_retired i name p db)"
  unfolding definition_retired_def
  by (intro grown_owe_proofs grown_retired grown_update_edges) simp_all

lemma grown_undo [grown_steps]: "grown p db0 db \<Longrightarrow> grown p db0 (fst (undo_what_resolved_against i d p db))"
  by (auto simp: undo_what_resolved_against_def Let_def grown_definition_retired split: option.split)

lemma grown_D:
  assumes "grown p db0 db"
  shows grown_graph_ok: "graph_ok db" and grown_keys: "\<exists>new. edge_keys db = edge_keys db0 @ new"
    and grown_foreign_edges: "foreign_edges p db = foreign_edges p db0"
    and grown_next: "g_next_edge db0 \<le> g_next_edge db"
  using assms by (auto simp: grown_def)

lemma graph_ok_edge_assertion: "graph_ok db \<Longrightarrow> a \<in> set (g_edge_assertions db) \<Longrightarrow> edge_within db (ea_project a) (ea_edge a)"
  and graph_ok_detached: "graph_ok db \<Longrightarrow> d \<in> set (g_detached db) \<Longrightarrow> edge_within db (dt_project d) (dt_edge d)"
  by (auto simp: graph_ok_def)

lemma edge_within_row: "graph_ok db \<Longrightarrow> e \<in> set (g_edges db) \<Longrightarrow> edge_within db (ec_project e) (ec_id e)"
  by (auto simp: graph_ok_def edge_within_def) (metis inj_on_contraD distinct_map)

lemma edge_within_grown: "grown p db0 db \<Longrightarrow> edge_within db0 p i \<Longrightarrow> edge_within db p i"
proof -
  assume g: "grown p db0 db" and old: "edge_within db0 p i"
  have "ec_project e = p" if e: "e \<in> set (g_edges db)" "ec_id e = i" for e
  proof (rule ccontr)
    assume "ec_project e \<noteq> p"
    then have "e \<in> set (foreign_edges p db)" using e by (simp add: foreign_edges_def)
    then have "e \<in> set (foreign_edges p db0)" by (simp only: grown_foreign_edges [OF g])
    then show False using old e \<open>ec_project e \<noteq> p\<close> by (auto simp: foreign_edges_def edge_within_def)
  qed
  then show ?thesis using old grown_next [OF g] by (auto simp: edge_within_def)
qed

lemma set_insert_or_ignore: "set (insert_or_ignore k r rows) \<subseteq> insert r (set rows)"
  by (auto simp: insert_or_ignore_def)

lemma foreign_insert_all:
  "filter (\<lambda>d. dt_project d \<noteq> p) (foldl (\<lambda>ds e. insert_or_ignore k \<lparr>dt_project = p, dt_edge = ec_id e, dt_node = ec_from e\<rparr> ds) ds es)
     = filter (\<lambda>d. dt_project d \<noteq> p) ds"
  by (induction es arbitrary: ds) (auto simp: insert_or_ignore_def)

lemma within_insert_all:
  assumes "\<And>d. d \<in> set ds \<Longrightarrow> edge_within db (dt_project d) (dt_edge d)" "\<And>e. e \<in> set es \<Longrightarrow> edge_within db p (ec_id e)"
    and "d \<in> set (foldl (\<lambda>ds e. insert_or_ignore k \<lparr>dt_project = p, dt_edge = ec_id e, dt_node = ec_from e\<rparr> ds) ds es)"
  shows "edge_within db (dt_project d) (dt_edge d)"
  using assms
proof (induction es arbitrary: ds)
  case (Cons e es)
  let ?ds = "insert_or_ignore k \<lparr>dt_project = p, dt_edge = ec_id e, dt_node = ec_from e\<rparr> ds"
  have "edge_within db (dt_project d) (dt_edge d)" if "d \<in> set ?ds" for d
    using set_insert_or_ignore [of k _ ds] that Cons.prems(1,2) by fastforce
  then show ?case using Cons.IH [of ?ds] Cons.prems(2,3) by simp
qed simp

lemma grown_detach [grown_steps]: "grown p db0 db \<Longrightarrow> grown p db0 (detach_attachments i at p db)"
proof -
  assume g: "grown p db0 db"
  let ?es = "filter (\<lambda>e. ec_from e = i \<and> ec_project e = p \<and> ec_rel e \<in> {REL_IN_COMMUNITY, REL_REALIZES} \<and> ec_live e) (g_edges db)"
  let ?ds = "foldl (\<lambda>ds e. insert_or_ignore (\<lambda>d. (dt_project d, dt_edge d))
               \<lparr>dt_project = p, dt_edge = ec_id e, dt_node = ec_from e\<rparr> ds) (g_detached db) ?es"
  have "grown p db0 (db\<lparr>g_detached := ?ds\<rparr>)"
  proof (rule grown_detached [OF g foreign_insert_all])
    show "edge_within db (dt_project d) (dt_edge d)" if "d \<in> set ?ds" for d
      by (rule within_insert_all [OF _ _ that])
        (use graph_ok_detached [OF grown_graph_ok [OF g]] edge_within_row [OF grown_graph_ok [OF g]] in auto)
  qed
  from grown_update_edges [OF this, of "\<lambda>e. ec_from e = i \<and> ec_project e = p \<and> ec_rel e \<in> {REL_IN_COMMUNITY, REL_REALIZES} \<and> ec_live e"
      "\<lambda>e. e\<lparr>ec_valid_to := Some at\<rparr>"]
  show ?thesis by (simp add: detach_attachments_def Let_def)
qed

lemma grown_retire_node [grown_steps]: "grown p db0 db \<Longrightarrow> grown p db0 (retire_node i stale p db)"
proof -
  assume g: "grown p db0 db"
  have "filter (\<lambda>n. nc_project n \<noteq> p) (filter (is_node i p) ns) = []" for ns by (auto simp: filter_empty_conv)
  moreover have "filter (\<lambda>n. nc_project n \<noteq> p) (filter (\<lambda>n. \<not> is_node i p n) ns) = filter (\<lambda>n. nc_project n \<noteq> p) ns" for ns
    by (rule foreign_dropped) simp
  ultimately show ?thesis unfolding retire_node_def Let_def
    by (intro grown_nodes grown_retired g) (simp_all only: foreign_remove_keys filter_append append_Nil2 graph_db.simps if_distrib [of "filter _"] split: if_split, simp_all)
qed

lemma grown_settle_node [grown_steps]: "grown p db0 db \<Longrightarrow> grown p db0 (settle_node i r at p db)"
  unfolding settle_node_def Let_def
proof (rule grown_undo, split option.split, intro conjI allI impI)
  assume g: "grown p db0 db"
  then have "grown p db0 (owe_relabel_of i False p db)" by (rule grown_owe_relabel_of)
  moreover have "filter (\<lambda>n. nc_project n \<noteq> p) (update_where (is_node i p) (\<lambda>n. n\<lparr>nc_kind := k\<rparr>) (remove_attr_keys i ks p ns))
      = filter (\<lambda>n. nc_project n \<noteq> p) ns" for k ks ns
    by (rule trans [OF foreign_update_where foreign_remove_keys]) auto
  ultimately show "grown p db0 ((owe_relabel_of i False p db)\<lparr>g_nodes := update_where (is_node i p) (\<lambda>n. n\<lparr>nc_kind := k\<rparr>)
      (remove_attr_keys i ks p (g_nodes (owe_relabel_of i False p db)))\<rparr>)" for k ks by (rule grown_nodes)
qed (intro grown_steps)

end
