(* ===== verification/Graph_Growth.thy ===== *)
theory Graph_Growth
  imports Graph_Frame
begin

text \<open>
  The frame of the remaining writes of the context graph's fold: assertions, edges, attachments,
  generations, and the labels and proofs settled as a fold ends.
\<close>

section \<open>Nodes\<close>

lemma grown_record_assertion [grown_steps]:
  assumes g: "grown p db0 db"
  shows "grown p db0 (record_assertion a i kind attrs p db)"
proof -
  let ?same = "\<lambda>n. na_project n = p \<and> na_identity n = as_identity a \<and> na_node n = i"
  have u: "grown p db0 (db\<lparr>g_node_assertions := update_where ?same f (g_node_assertions db)\<rparr>)"
    if "\<And>n. na_project (f n) = na_project n" for f
    by (rule grown_node_assertions [OF g filter_update_where]) (use that in auto)
  have n: "grown p db0 (db\<lparr>g_node_assertions := g_node_assertions db @ [x]\<rparr>)" if "na_project x = p" for x
    by (rule grown_node_assertions [OF g]) (simp add: that)
  show ?thesis
    unfolding record_assertion_def Let_def
    by (simp split: option.split) (intro conjI allI impI grown_settle_node; rule u n; simp)
qed

lemma grown_revive_node [grown_steps]:
  assumes g: "grown p db0 db"
  shows "grown p db0 (revive_node i kind p db)"
proof -
  have "filter (\<lambda>n. nc_project n \<noteq> p) (map (\<lambda>n. n\<lparr>nc_kind := kind\<rparr>) (filter (is_node i p) ns)) = []" for ns
    by (auto simp: filter_empty_conv)
  then show ?thesis unfolding revive_node_def
    by (intro grown_retired grown_nodes g) (auto simp: filter_empty_conv intro!: filter_cong)
qed

lemma grown_upsert_node [grown_steps]:
  assumes g: "grown p db0 db"
  shows "grown p db0 (upsert_node i kind attrs p db)"
proof -
  have "filter (\<lambda>n. nc_project n \<noteq> p) (update_where (is_node i p) f (g_nodes db)) = filter (\<lambda>n. nc_project n \<noteq> p) (g_nodes db)"
    if "\<And>n. nc_project (f n) = nc_project n" for f
    by (rule foreign_update_where) (use that in auto)
  then show ?thesis unfolding upsert_node_def by (intro grown_nodes g) simp
qed

lemma grown_revive_attachments [grown_steps]:
  assumes g: "grown p db0 db"
  shows "grown p db0 (revive_attachments i p db)"
proof -
  let ?mine = "\<lambda>d. dt_project d = p \<and> dt_node d = i"
  let ?P = "\<lambda>e. list_ex (\<lambda>d. ?mine d \<and> dt_edge d = ec_id e) (g_detached db)"
  have own: "ec_project e = p" if e: "?P e" "e \<in> set (g_edges db)" for e
  proof -
    obtain d where "d \<in> set (g_detached db)" "dt_project d = p" "dt_edge d = ec_id e"
      using e(1) by (auto simp: list_ex_iff)
    then show ?thesis using graph_ok_detached [OF grown_graph_ok [OF g], of d] e(2) by (auto simp: edge_within_def)
  qed
  have 1: "grown p db0 (db\<lparr>g_edges := update_where ?P (\<lambda>e. e\<lparr>ec_valid_to := None\<rparr>) (g_edges db)\<rparr>)" (is "grown p db0 ?db1")
    by (rule grown_update_edges [OF g]) (use own in auto)
  have "grown p db0 (?db1\<lparr>g_detached := filter (\<lambda>d. \<not> ?mine d) (g_detached db)\<rparr>)"
    by (rule grown_detached [OF 1])
      (use graph_ok_detached [OF grown_graph_ok [OF 1]] in \<open>auto intro!: filter_cong\<close>)
  then show ?thesis unfolding revive_attachments_def Let_def by simp
qed

lemma grown_ensure_node [grown_steps]: "grown p db0 db \<Longrightarrow> grown p db0 (ensure_node a i kind attrs p db)"
  unfolding ensure_node_def by (intro grown_steps)

section \<open>Edges\<close>

lemma grown_insert_edge [grown_steps]:
  assumes g: "grown p db0 db"
  shows "grown p db0 (insert_edge from to rel at until src p tr db)"
proof -
  let ?db = "insert_edge from to rel at until src p tr db"
  have keys: "edge_keys ?db = edge_keys db @ [(g_next_edge db, from, to, rel, p)]"
    by (simp add: insert_edge_def edge_keys_def)
  have mono: "edge_within ?db q j" if "edge_within db q j" for q j
    using that by (auto simp: edge_within_keys keys) (simp add: insert_edge_def)
  have rows: "g_edge_assertions ?db = g_edge_assertions db" "g_detached ?db = g_detached db"
    "g_next_edge ?db = Suc (g_next_edge db)" by (simp_all add: insert_edge_def)
  have ok: "graph_ok db" by (rule grown_graph_ok [OF g])
  then have "distinct (map fst (edge_keys ?db)) \<and> (\<forall>k \<in> set (edge_keys ?db). fst k < g_next_edge ?db)"
    unfolding graph_ok_keys by (auto simp: keys rows)
  with ok have "graph_ok ?db" unfolding graph_ok_keys [of ?db] rows
    by (intro conjI ballI mono) (auto simp: graph_ok_def)
  then show ?thesis using g keys
    by (auto simp: grown_def insert_edge_def foreign_nodes_def foreign_edges_def foreign_ledgers_def)
qed

lemma within_insert_edge: "graph_ok db \<Longrightarrow> edge_within (insert_edge from to rel at until src p tr db) p (g_next_edge db)"
  by (auto simp: edge_within_def insert_edge_def graph_ok_def)

lemma next_owe [simp]:
  "g_next_edge (owe_relabel p c db) = g_next_edge db" "g_edges (owe_relabel p c db) = g_edges db"
  "g_next_edge (owe_relabel_of m w p db) = g_next_edge db" "g_edges (owe_relabel_of m w p db) = g_edges db"
  "g_next_edge (owe_relabel_of_ends from to rel d p db) = g_next_edge db"
  "g_edges (owe_relabel_of_ends from to rel d p db) = g_edges db"
proof -
  show 1: "g_next_edge (owe_relabel p c db) = g_next_edge db" "g_edges (owe_relabel p c db) = g_edges db" for c p db
    by (simp_all add: owe_relabel_def)
  have "g_next_edge (foldl (\<lambda>db e. owe_relabel p (ec_to e) db) db es) = g_next_edge db
      \<and> g_edges (foldl (\<lambda>db e. owe_relabel p (ec_to e) db) db es) = g_edges db" for es :: "edge_cell list" and db
    by (induction es arbitrary: db) (simp_all add: 1)
  then show 2: "g_next_edge (owe_relabel_of m w p db) = g_next_edge db" "g_edges (owe_relabel_of m w p db) = g_edges db"
    for m w db by (simp_all add: owe_relabel_of_def)
  show "g_next_edge (owe_relabel_of_ends from to rel d p db) = g_next_edge db"
    "g_edges (owe_relabel_of_ends from to rel d p db) = g_edges db" by (simp_all add: owe_relabel_of_ends_def 2)
qed

lemma edge_within_cong: "g_edges db = g_edges db' \<Longrightarrow> g_next_edge db = g_next_edge db' \<Longrightarrow> edge_within db = edge_within db'"
  by (auto simp: edge_within_def fun_eq_iff)

lemma grown_add_edge [grown_steps]: "grown p db0 db \<Longrightarrow> grown p db0 (fst (add_edge from to rel at src p tr db))"
proof -
  assume g: "grown p db0 db"
  have "grown p db0 (db\<lparr>g_edges := update_where (live_key from to rel tr p) (merge_edge at src) (g_edges db)\<rparr>)"
    by (rule grown_update_edges [OF g]) (auto simp: live_key_def merge_edge_def)
  then show ?thesis using grown_owe_ends [OF grown_insert_edge [OF g]]
    by (simp add: add_edge_def split: option.split)
qed

lemma within_add_edge:
  assumes "graph_ok db"
  shows "edge_within (fst (add_edge from to rel at src p tr db)) p (snd (add_edge from to rel at src p tr db))"
proof (cases "find (live_key from to rel tr p) (g_edges db)")
  case None
  have "edge_within (owe_relabel_of_ends from to rel d p (insert_edge from to rel at None src p tr db)) p (g_next_edge db)" for d
    using within_insert_edge [OF assms] by (subst edge_within_cong) (rule next_owe, rule next_owe)
  then show ?thesis using None by (simp add: add_edge_def)
next
  case (Some e)
  then have e: "e \<in> set (g_edges db)" "ec_project e = p" by (auto simp: find_Some_iff live_key_def in_set_conv_nth)
  let ?db = "db\<lparr>g_edges := update_where (live_key from to rel tr p) (merge_edge at src) (g_edges db)\<rparr>"
  have "grown p db ?db" by (rule grown_update_edges [OF grown_refl [OF assms]]) (auto simp: live_key_def merge_edge_def)
  then have "edge_within ?db p (ec_id e)" using edge_within_grown edge_within_row [OF assms e(1)] e(2) by metis
  then show ?thesis using Some by (simp add: add_edge_def)
qed

lemma grown_settle_edge [grown_steps]:
  assumes g: "grown p db0 db" and w: "edge_within db p edge"
  shows "grown p db0 (settle_edge edge at p db)"
proof -
  have "grown p db0 (db\<lparr>g_edges := update_where (\<lambda>e. ec_id e = edge) f (g_edges db)\<rparr>)"
    if "\<And>e. ec_id (f e) = ec_id e \<and> ec_from (f e) = ec_from e \<and> ec_to (f e) = ec_to e \<and> ec_rel (f e) = ec_rel e
           \<and> ec_project (f e) = ec_project e" for f
    by (rule grown_update_edges [OF g]) (use w that in \<open>auto simp: edge_within_def\<close>)
  then show ?thesis unfolding settle_edge_def
    by (auto split: list.split option.split intro!: grown_owe_ends g)
qed

lemma grown_record_edge [grown_steps]:
  assumes g: "grown p db0 db" and w: "edge_within db p edge"
  shows "grown p db0 (record_edge_assertion a edge at src p db)"
proof -
  let ?same = "\<lambda>x. ea_project x = p \<and> ea_identity x = as_identity a \<and> ea_edge x = edge"
  have ok: "edge_within db (ea_project x) (ea_edge x)" if "x \<in> set (g_edge_assertions db)" for x
    by (rule graph_ok_edge_assertion [OF grown_graph_ok [OF g] that])
  have u: "grown p db0 (db\<lparr>g_edge_assertions := update_where ?same f (g_edge_assertions db)\<rparr>)"
    if "\<And>x. ea_project (f x) = ea_project x \<and> ea_edge (f x) = ea_edge x" for f
    by (rule grown_edge_assertions [OF g filter_update_where]) (use that ok in \<open>auto simp: set_update_where\<close>)
  have n: "grown p db0 (db\<lparr>g_edge_assertions := g_edge_assertions db @ [x]\<rparr>)" if "ea_project x = p" "ea_edge x = edge" for x
    by (rule grown_edge_assertions [OF g]) (use that ok w in auto)
  show ?thesis unfolding record_edge_assertion_def Let_def
    by (simp split: if_split) (intro conjI impI; rule u n; simp)
qed

lemma within_record_edge [simp]: "edge_within (record_edge_assertion a e at src p db) = edge_within db"
  by (simp add: record_edge_assertion_def Let_def edge_within_def fun_eq_iff)

lemma foldl_max_in: "foldl max (x :: 'a :: linorder) xs \<in> insert x (set xs)"
  by (induction xs arbitrary: x) (auto simp: max_def)

lemma revivable_row:
  assumes "revivable db a from to rel tr p = Some i"
  obtains e where "e \<in> set (g_edges db)" "ec_id e = i" "ec_from e = from" "ec_to e = to" "ec_rel e = rel" "ec_tier e = tr"
    "prior_entry db a p i"
proof -
  let ?R = "\<lambda>e. ec_from e = from \<and> ec_to e = to \<and> ec_rel e = rel \<and> ec_tier e = tr \<and> \<not> ec_live e \<and> prior_entry db a p (ec_id e)"
  obtain e es where f: "filter ?R (g_edges db) = e # es" and i: "i = foldl max (ec_id e) (map ec_id es)"
    using assms by (auto simp: revivable_def split: if_splits list.splits)
  have "i \<in> ec_id ` set (e # es)" using foldl_max_in [of "ec_id e" "map ec_id es"] by (auto simp: i)
  then obtain x where x: "x \<in> set (e # es)" "ec_id x = i" by auto
  then have "x \<in> set (filter ?R (g_edges db))" by (simp only: f)
  then show thesis using x(2) that by auto
qed

lemma grown_assert_link [grown_steps]:
  assumes g: "grown p db0 db"
  shows "grown p db0 (assert_link a from to rel at src p tr db)"
proof -
  have fin: "grown p db0 (settle_edge edge at p (record_edge_assertion a edge at src p db1))"
    if "grown p db0 db1" "edge_within db1 p edge" for db1 edge
    by (intro grown_settle_edge grown_record_edge that) (simp add: that)
  show ?thesis
  proof (cases "revivable db a from to rel tr p")
    case None
    then show ?thesis
      using fin [OF grown_add_edge [OF g] within_add_edge [OF grown_graph_ok [OF g]]]
      by (simp add: assert_link_def Let_def case_prod_beta)
  next
    case (Some i)
    then obtain x where "x \<in> set (g_edge_assertions db)" "ea_edge x = i" "ea_project x = p"
      by (elim revivable_row) (auto simp: prior_entry_def list_ex_iff split: option.splits)
    then have w: "edge_within db p i" using graph_ok_edge_assertion [OF grown_graph_ok [OF g]] by metis
    let ?db1 = "db\<lparr>g_edges := update_where (\<lambda>e. ec_id e = i) (\<lambda>e. e\<lparr>ec_valid_to := None\<rparr>) (g_edges db)\<rparr>"
    have own: "\<And>e. ec_id e = i \<Longrightarrow> e \<in> set (g_edges db) \<Longrightarrow> ec_project e = p" using w by (auto simp: edge_within_def)
    have "grown p db ?db1" by (rule grown_update_edges [OF grown_refl [OF grown_graph_ok [OF g]]]) (use own in auto)
    with fin [OF grown_trans [OF g this] edge_within_grown [OF this w]] Some
    show ?thesis by (simp add: assert_link_def)
  qed
qed

lemma grown_invalidate [grown_steps]: "grown p db0 db \<Longrightarrow> grown p db0 (invalidate_finding_edges fid at p db)"
  unfolding invalidate_finding_edges_def by (rule grown_update_edges) auto

lemma grown_supersede_file [grown_steps]: "grown p db0 db \<Longrightarrow> grown p db0 (supersede_file_edges file at p db)"
  unfolding supersede_file_edges_def Let_def by (rule grown_update_edges [OF grown_owe_relabel_of]) auto


section \<open>Attachments\<close>

lemma grown_retire_grain [grown_steps]:
  assumes g: "grown p db0 db"
  shows "grown p db0 (retire_grain prefix rel at p db)"
proof -
  let ?grain = "\<lambda>e. ec_project e = p \<and> ec_rel e = rel \<and> starts_with (ec_to e) prefix"
  have 1: "grown p db0 (db\<lparr>g_edges := update_where (\<lambda>e. ec_live e \<and> ?grain e) (\<lambda>e. e\<lparr>ec_valid_to := Some at\<rparr>) (g_edges db)\<rparr>)"
    by (rule grown_update_edges [OF g]) auto
  show ?thesis unfolding retire_grain_def Let_def
    by (rule grown_detached [OF 1])
      (use graph_ok_detached [OF grown_graph_ok [OF 1]] in \<open>auto intro!: filter_cong\<close>)
qed

lemma grown_drop_memberless [grown_steps]: "grown p db0 db \<Longrightarrow> grown p db0 (drop_memberless prefix kind rel p db)"
  unfolding drop_memberless_def by (rule grown_nodes) (auto intro!: filter_cong)

lemma grown_attach [grown_steps]:
  assumes g: "grown p db0 db"
  shows "grown p db0 (attach node to rel at src p db)"
proof -
  let ?merged = "\<lambda>e. list_ex (\<lambda>d. dt_project d = p \<and> dt_node d = node \<and> dt_edge d = ec_id e) (g_detached db)
                        \<and> ec_to e = to \<and> ec_rel e = rel \<and> ec_tier e = TIER_INFERRED"
  have own: "ec_project e = p" if e: "?merged e" "e \<in> set (g_edges db)" for e
  proof -
    obtain d where "d \<in> set (g_detached db)" "dt_project d = p" "dt_edge d = ec_id e"
      using e(1) by (auto simp: list_ex_iff)
    then show ?thesis using graph_ok_detached [OF grown_graph_ok [OF g], of d] e(2) by (auto simp: edge_within_def)
  qed
  have 1: "grown p db0 (db\<lparr>g_edges := update_where ?merged (merge_edge at src) (g_edges db)\<rparr>)"
    by (rule grown_update_edges [OF g]) (use own in \<open>auto simp: merge_edge_def\<close>)
  let ?new = "insert_edge node to rel at (Some at) src p TIER_INFERRED db"
  have i: "grown p db0 ?new" by (rule grown_insert_edge [OF g])
  have d: "g_detached ?new = g_detached db" by (simp add: insert_edge_def)
  have 2: "grown p db0 (?new\<lparr>g_detached := g_detached db @ [\<lparr>dt_project = p, dt_edge = g_next_edge db, dt_node = node\<rparr>]\<rparr>)"
    by (rule grown_detached [OF i])
      (use graph_ok_detached [OF grown_graph_ok [OF i]] within_insert_edge [OF grown_graph_ok [OF g]] in \<open>auto simp: d\<close>)
  show ?thesis unfolding attach_def Let_def using grown_add_edge [OF g] 1 2 by simp
qed

section \<open>Generations\<close>

lemma grown_settle_edges:
  assumes g: "grown p db0 db" and w: "\<And>i. i \<in> set ids \<Longrightarrow> edge_within db p i"
  shows "grown p db0 (foldl (\<lambda>db edge. settle_edge edge at p db) db ids)"
proof -
  have "grown p db (foldl (\<lambda>db edge. settle_edge edge at p db) db ids)"
    by (rule grown_foldl [OF grown_settle_edge [OF _ edge_within_grown]])
      (use w in \<open>auto intro: grown_refl [OF grown_graph_ok [OF g]]\<close>)
  with g show ?thesis by (rule grown_trans)
qed

lemma foreign_assertions:
  "filter (\<lambda>x. na_project x \<noteq> p) (filter (\<lambda>x. \<not> (na_project x = p \<and> P x)) ns) = filter (\<lambda>x. na_project x \<noteq> p) ns"
  "filter (\<lambda>x. ea_project x \<noteq> p) (filter (\<lambda>x. \<not> (ea_project x = p \<and> Q x)) es) = filter (\<lambda>x. ea_project x \<noteq> p) es"
  by (auto intro!: filter_cong)

lemma grown_advance [grown_steps]:
  assumes g: "grown p db0 db"
  shows "grown p db0 (fst (advance_generation a p db))"
proof (cases "as_identity a = [] \<or> current_generation db p (as_identity a) = Some (as_generation a)")
  case True
  then show ?thesis using g by (auto simp: advance_generation_def)
next
  case False
  show ?thesis
  proof (cases "current_generation db p (as_identity a)")
    case None
    then show ?thesis using False by (simp add: advance_generation_def grown_generations [OF g])
  next
    case (Some prior)
    let ?db = "db\<lparr>
         g_node_assertions := filter (\<lambda>x. \<not> (na_project x = p \<and> na_identity x = as_identity a
             \<and> na_generation x \<noteq> prior)) (g_node_assertions db),
         g_edge_assertions := filter (\<lambda>x. \<not> (ea_project x = p \<and> ea_identity x = as_identity a
             \<and> ea_generation x \<noteq> prior)) (g_edge_assertions db),
         g_generations := update_where (\<lambda>g. gc_project g = p \<and> gc_identity g = as_identity a)
             (\<lambda>g. g\<lparr>gc_generation := as_generation a, gc_prior := Some prior\<rparr>) (g_generations db)\<rparr>"
    have 1: "grown p db0 (db\<lparr>g_node_assertions := filter (\<lambda>x. \<not> (na_project x = p \<and> na_identity x = as_identity a
             \<and> na_generation x \<noteq> prior)) (g_node_assertions db)\<rparr>)"
      by (rule grown_node_assertions [OF g foreign_assertions(1)])
    have 2: "grown p db0 ?db"
      by (intro grown_generations grown_edge_assertions 1)
        (use graph_ok_edge_assertion [OF grown_graph_ok [OF 1]] in
          \<open>auto intro!: filter_update_where filter_cong\<close>)
    let ?ids = "map ec_id (sort_key ec_id (filter (\<lambda>e. ec_live e \<and>
                     list_ex (\<lambda>x. ea_edge x = ec_id e \<and> ea_project x = p \<and> ea_identity x = as_identity a
                       \<and> ea_generation x = prior) (g_edge_assertions ?db)) (g_edges ?db)))"
    have w: "edge_within ?db p i" if i: "i \<in> set ?ids" for i
    proof -
      obtain x where "x \<in> set (g_edge_assertions ?db)" "ea_edge x = i" "ea_project x = p"
        using i by (auto simp: list_ex_iff)
      then show ?thesis using graph_ok_edge_assertion [OF grown_graph_ok [OF 2], of x] by simp
    qed
    have "grown p db0 (foldl (\<lambda>db edge. settle_edge edge (as_at a) p db) ?db ?ids)"
      by (rule grown_settle_edges [OF 2]) (rule w)
    moreover have "advance_generation a p db = (foldl (\<lambda>db edge. settle_edge edge (as_at a) p db) ?db ?ids, Some prior)"
      unfolding advance_generation_def Let_def using False Some by auto
    ultimately show ?thesis by (simp only: fst_conv)
  qed
qed

lemma grown_retire_unheld [grown_steps]: "grown p db0 db \<Longrightarrow> grown p db0 (retire_unheld_nodes a g p db)"
  unfolding retire_unheld_nodes_def by (intro grown_foldl grown_settle_node)

section \<open>Labels and proofs\<close>

lemma grown_relabel [grown_steps]: "grown p db0 db \<Longrightarrow> fst pc = p \<Longrightarrow> grown p db0 (relabel_community db pc)"
  unfolding relabel_community_def by (cases pc) (auto intro!: grown_nodes filter_update_where)

lemma grown_relabel_owed:
  assumes g: "grown p db0 db" and none: "g_relabel_owed db0 = []"
  shows "grown p db0 (relabel_owed_communities db)"
proof -
  have "fst d = p" if "d \<in> set (g_relabel_owed db)" for d using g none that by (auto simp: grown_def)
  then show ?thesis unfolding relabel_owed_communities_def
    by (intro grown_ledger grown_foldl grown_relabel g)
qed

lemma grown_write_proof [grown_steps]: "grown p db0 db \<Longrightarrow> grown p db0 (write_proof en i p db)"
  unfolding write_proof_def Let_def by (auto intro!: grown_nodes filter_update_where)

lemma grown_write_proofs [grown_steps]: "grown p db0 db \<Longrightarrow> grown p db0 (write_proofs en ids p db)"
  unfolding write_proofs_def by (intro grown_foldl grown_write_proof)

lemma grown_supersede_proof [grown_steps]: "grown p db0 db \<Longrightarrow> grown p db0 (supersede_file_proof en file p db)"
  unfolding supersede_file_proof_def Let_def by (intro grown_write_proofs grown_proofs) (auto intro!: filter_cong)

lemma grown_resolve_proofs [grown_steps]: "grown p db0 db \<Longrightarrow> grown p db0 (resolve_proofs en name p db)"
  unfolding resolve_proofs_def Let_def by (intro grown_write_proofs grown_proofs filter_update_where) auto

lemma grown_settle_name [grown_steps]: "grown p db0 db \<Longrightarrow> grown p db0 (settle_name en p db name)"
  unfolding settle_name_def Let_def by (intro grown_steps)

lemma grown_settle_proofs [grown_steps]: "grown p db0 db \<Longrightarrow> grown p db0 (settle_proofs en p db)"
  unfolding settle_proofs_def by (intro grown_ledger grown_foldl grown_settle_name)

end
