(* ===== verification/Graph_Frames.thy ===== *)
theory Graph_Frames
  imports Graph_Growth
begin

text \<open>
  The frame of every arm of the context graph's fold, of a batch, of a ledger entry with its batch and of
  the transactions around them: a fold deletes no edge and writes no row of another project.
\<close>

section \<open>The arms\<close>

lemma grown_to_location [grown_steps]:
  "grown p db0 db \<Longrightarrow> grown p db0 (edge_to_location a from rel at src p db path)"
  unfolding edge_to_location_def Let_def by (intro grown_steps)

lemma grown_supersede_decision [grown_steps]: "grown p db0 db \<Longrightarrow> grown p db0 (supersede_decision old at p db)"
  unfolding supersede_decision_def by (rule grown_update_edges) auto

lemma grown_decision: "grown p db0 db \<Longrightarrow> grown p db0 (fold_decision a d at src p db)"
  unfolding fold_decision_def Let_def by (simp split: if_split) (intro conjI impI grown_steps)

lemma grown_lesson: "grown p db0 db \<Longrightarrow> grown p db0 (fold_lesson a l at src p db)"
  unfolding fold_lesson_def by (intro grown_steps)

lemma grown_finding: "grown p db0 db \<Longrightarrow> grown p db0 (fold_finding a f at src p db)"
  unfolding fold_finding_def by (intro grown_steps)

lemma grown_integrated: "grown p db0 db \<Longrightarrow> grown p db0 (fold_integrated u at p db)"
  unfolding fold_integrated_def by (intro grown_steps)

lemma grown_mark_upheld [grown_steps]: "grown p db0 db \<Longrightarrow> grown p db0 (mark_upheld u p db fid)"
  unfolding mark_upheld_def by (rule grown_nodes) (auto intro!: filter_update_where)

lemma grown_result: "grown p db0 db \<Longrightarrow> grown p db0 (fold_result D e at p db)"
  unfolding fold_result_def by (auto split: sum.split option.split intro!: grown_steps)

lemma grown_upgrade [grown_steps]: "grown p db0 db \<Longrightarrow> grown p db0 (upgrade_references entity name p db)"
  unfolding upgrade_references_def by (rule grown_update_edges) auto

lemma grown_entity:
  assumes g: "grown p db0 db"
  shows "grown p db0 (fold_entity a c at src p db)"
proof -
  have fin: "grown p db0 (case leaf of None \<Rightarrow> db6 | Some _ \<Rightarrow> owe_proofs n (upgrade_references entity n p db6))"
    if "grown p db0 db6" for db6 n entity and leaf :: "string option"
    by (simp add: grown_owe_proofs grown_upgrade that split: option.split)
  have parent: "grown p db0 (fst (case par of
        Some parent \<Rightarrow> let i = entity_id fl parent in (ensure_node a i KIND_CODE_ENTITY [] p db4, i) | None \<Rightarrow> (db4, fl)))"
    if "grown p db0 db4" for par fl db4
    by (simp add: Let_def grown_ensure_node that split: option.split)
  show ?thesis unfolding fold_entity_def Let_def case_prod_beta
    by (rule fin, rule grown_add_edge, rule parent [unfolded Let_def], rule grown_undo, rule grown_ensure_node, rule grown_ensure_node)
      (simp add: g grown_supersede_file)
qed

lemma grown_evidence: "grown p db0 db \<Longrightarrow> grown p db0 (fold_test_evidence en r src p db)"
  unfolding fold_test_evidence_def Let_def
  by (auto intro!: grown_owe_proofs grown_proofs grown_supersede_proof)

lemma grown_inferred:
  assumes g: "grown p db0 db"
  shows "grown p db0 (fold_inferred en a r at src p db)"
proof -
  let ?db1 = "if ei_fresh r then supersede_file_edges (resolve_alias_in db (ei_file r)) at p db else db"
  have 1: "grown p db0 ?db1" by (simp add: g grown_supersede_file)
  have target: "grown p db0 (case caller of None \<Rightarrow> db4
       | Some c \<Rightarrow> fst (add_edge (entity_id fl c) target REL_CALLS at src p tr (ensure_node a (entity_id fl c) KIND_CODE_ENTITY [] p db4)))"
    if "grown p db0 db4" for caller fl target tr db4
    by (simp add: grown_ensure_node grown_add_edge that split: option.split)
  show ?thesis unfolding fold_inferred_def Let_def case_prod_beta
    by (auto simp only: split: if_split intro!: grown_evidence g 1 grown_supersede_file target grown_add_edge grown_ensure_node)
qed

lemma grown_concept: "grown p db0 db \<Longrightarrow> grown p db0 (fold_concept a c p db)"
  unfolding fold_concept_def by (simp add: grown_ensure_node)

lemma grown_link: "grown p db0 db \<Longrightarrow> grown p db0 (fold_link a l at src p db)"
  unfolding fold_link_def Let_def by (simp split: if_split) (intro conjI impI grown_steps)

lemma grown_community: "grown p db0 db \<Longrightarrow> grown p db0 (fold_community a c at src p db)"
  unfolding fold_community_def Let_def
  by (intro grown_owe_relabel grown_nodes grown_attach grown_ensure_node)
    (auto intro!: grown_steps filter_update_where)

lemma grown_derived: "grown p db0 db \<Longrightarrow> grown p db0 (fold_derived a c at p db)"
  unfolding fold_derived_def Let_def by (auto intro!: grown_steps)

lemma grown_realized: "grown p db0 db \<Longrightarrow> grown p db0 (fold_realized a c at src p db)"
  unfolding fold_realized_def by (intro grown_steps)


section \<open>An event, a batch\<close>

definition on_ok :: "('a \<Rightarrow> bool) \<Rightarrow> 'e + 'a \<Rightarrow> bool" where
  "on_ok P r \<longleftrightarrow> (case r of Inl _ \<Rightarrow> True | Inr x \<Rightarrow> P x)"

lemma on_okI: "(\<And>x. r = Inr x \<Longrightarrow> P x) \<Longrightarrow> on_ok P r"
  by (simp add: on_ok_def split: sum.split)

lemma on_okD: "on_ok P r \<Longrightarrow> r = Inr x \<Longrightarrow> P x"
  by (simp add: on_ok_def)

lemma on_ok_rules:
  shows on_ok_Inr: "P x \<Longrightarrow> on_ok P (Inr x)"
    and on_ok_Inl: "on_ok P (Inl err)"
    and on_ok_bind: "(\<And>x. on_ok P (f x)) \<Longrightarrow> on_ok P (bind_res r f)"
    and on_ok_if: "on_ok P t \<Longrightarrow> on_ok P e \<Longrightarrow> on_ok P (if c then t else e)"
  by (simp_all add: on_ok_def) (cases r; simp)

lemma on_ok_chain: "on_ok Q r \<Longrightarrow> (\<And>x. Q x \<Longrightarrow> on_ok P (f x)) \<Longrightarrow> on_ok P (bind_res r f)"
  by (cases r) (simp_all add: on_ok_def)

lemma on_ok_fold: "P s \<Longrightarrow> (\<And>s x. P s \<Longrightarrow> x \<in> set xs \<Longrightarrow> on_ok P (f s x)) \<Longrightarrow> on_ok P (fold_res f s xs)"
proof (induction xs arbitrary: s)
  case (Cons x xs)
  show ?case
  proof (cases "f s x")
    case (Inr t)
    then have "P t" using Cons.prems(2) [of s x] Cons.prems(1) by (simp add: on_ok_def)
    then show ?thesis using Cons.IH [of t] Cons.prems(2) Inr by simp
  qed (simp add: on_ok_def)
qed (simp add: on_ok_def)

lemma grown_event:
  assumes g: "grown p db0 db"
  shows "on_ok (grown p db0) (fold_event G e p a db)"
proof -
  note arms = grown_decision grown_integrated grown_lesson grown_finding grown_entity grown_inferred grown_concept grown_link
    grown_result grown_ensure_node grown_community grown_derived grown_realized grown_ledger(3)
  have split: "on_ok P (case x of (u, v) \<Rightarrow> f u v)" if "\<And>u v. on_ok P (f u v)" for P f and x :: "string \<times> string"
    using that by (cases x) simp
  show ?thesis unfolding fold_event_def Let_def
    by (intro on_ok_if on_ok_bind on_ok_Inr split arms g)
qed

lemma grown_one:
  assumes g: "grown p db0 db"
  shows "on_ok (grown p db0) (fold_one G e p a db)"
proof (cases "advance_generation a p db")
  case (Pair db1 prior)
  have 1: "grown p db0 db1" using grown_advance [OF g, of a] by (simp add: Pair)
  show ?thesis unfolding fold_one_def Pair prod.case
    by (rule on_ok_chain [OF grown_event [OF 1]], rule on_ok_Inr) (auto split: option.split intro: grown_retire_unheld)
qed

lemma grown_record_applied: "grown p db0 db \<Longrightarrow> grown p db0 (fst (record_applied pos db))"
  by (simp add: record_applied_def grown_ledger)

lemma grown_fold_new:
  assumes g: "grown p db0 db" and none: "g_relabel_owed db0 = []"
  shows "on_ok (\<lambda>w. grown p db0 (fst w)) (fold_new G es p db)"
proof -
  have "on_ok (\<lambda>w. grown p db0 (fst w)) (fold_new_step G p w e)" if w: "grown p db0 (fst w)" for w e
  proof (cases w)
    case (Pair db cause)
    have "grown p db0 (fst (record_applied (ev_position e) db))" by (rule grown_record_applied) (use w Pair in simp)
    then show ?thesis unfolding fold_new_step_def Pair prod.case
      by (intro on_ok_if on_ok_Inl; cases "record_applied (ev_position e) db"; cases "snd (record_applied (ev_position e) db)";
          simp only: prod.case bool.case fst_conv snd_conv)
        (auto intro!: on_ok_chain [OF grown_one] on_ok_Inr)
  qed
  then have "on_ok (\<lambda>w. grown p db0 (fst w)) (fold_res (fold_new_step G p) (db, None) es)"
    by (intro on_ok_fold) (simp_all add: g)
  then show ?thesis unfolding fold_new_def
    by (rule on_ok_chain) (auto intro!: on_ok_Inr grown_relabel_owed none)
qed


section \<open>A ledger entry\<close>

lemma grown_stage [grown_steps]: "grown p db0 db \<Longrightarrow> grown p db0 (stage_reference G e p a db)"
  unfolding stage_reference_def Let_def
  by (auto split: option.split intro!: grown_refs)

lemma refs_owe [simp]:
  "g_refs (owe_relabel p c db) = g_refs db" "g_refs (owe_relabel_of m w p db) = g_refs db"
  "g_refs (owe_relabel_of_ends from to rel d p db) = g_refs db"
proof -
  show 1: "g_refs (owe_relabel p c db) = g_refs db" for c p db
    by (simp add: owe_relabel_def)
  have "g_refs (foldl (\<lambda>db e. owe_relabel p (ec_to e) db) db es) = g_refs db" for es :: "edge_cell list" and db
    by (induction es arbitrary: db) (simp_all add: 1)
  then show 2: "g_refs (owe_relabel_of m w p db) = g_refs db" for m w db by (simp add: owe_relabel_of_def)
  show "g_refs (owe_relabel_of_ends from to rel d p db) = g_refs db" by (simp add: owe_relabel_of_ends_def 2)
qed

lemma refs_settle_edge [simp]: "g_refs (settle_edge edge at p db) = g_refs db"
  by (simp add: settle_edge_def split: list.split option.split)

lemma refs_settle_edges [simp]: "g_refs (foldl (\<lambda>db edge. settle_edge edge at p db) db ids) = g_refs db"
  by (induction ids arbitrary: db) simp_all

lemma refs_assert_link [simp]: "g_refs (assert_link a from to rel at src p tr db) = g_refs db"
  by (simp add: assert_link_def add_edge_def insert_edge_def record_edge_assertion_def Let_def split: option.split prod.split)

lemma refs_release [simp]: "g_refs (release_reference a from target p db) = g_refs db"
  by (simp add: release_reference_def Let_def)

text \<open>A settlement changes targets only, of rows of the project.\<close>

definition ref_projects :: "graph_db \<Rightarrow> string list" where
  "ref_projects db = map rc_project (g_refs db)"

lemma grown_release [grown_steps]:
  assumes g: "grown p db0 db"
  shows "grown p db0 (release_reference a from target p db)"
proof -
  let ?held = "list_ex (\<lambda>r. rc_project r = p \<and> rc_identity r = as_identity a \<and> rc_from r = from
                             \<and> rc_target r = Some target) (g_refs db)"
  let ?gone = "\<lambda>x. ea_project x = p \<and> ea_identity x = as_identity a \<and> \<not> ?held
                    \<and> list_ex (\<lambda>e. ec_id e = ea_edge x \<and> ec_from e = from \<and> ec_to e = target) (g_edges db)"
  let ?db = "db\<lparr>g_edge_assertions := filter (\<lambda>x. \<not> ?gone x) (g_edge_assertions db)\<rparr>"
  note ok = graph_ok_edge_assertion [OF grown_graph_ok [OF g]]
  have 1: "grown p db0 ?db"
    by (rule grown_edge_assertions [OF g]) (use ok in \<open>auto intro!: filter_cong\<close>)
  have "edge_within ?db p i" if i: "i \<in> set (map ea_edge (filter ?gone (g_edge_assertions db)))" for i
  proof -
    obtain x where "x \<in> set (g_edge_assertions db)" "ea_edge x = i" "ea_project x = p" using i by auto
    then show ?thesis using ok [of x] by (simp add: edge_within_def)
  qed
  then show ?thesis unfolding release_reference_def Let_def by (rule grown_settle_edges [OF 1])
qed

lemma retarget_projects [simp]: "ref_projects (retarget i t db) = ref_projects db"
proof (cases "i < length (g_refs db)")
  case True
  then have "(map rc_project (g_refs db))[i := rc_project (g_refs db ! i)] = map rc_project (g_refs db)"
    by (metis list_update_id nth_map)
  then show ?thesis by (simp add: ref_projects_def retarget_def map_update)
qed (simp add: ref_projects_def retarget_def list_update_beyond)

lemma grown_retarget:
  assumes g: "grown p db0 db" and i: "i < length (g_refs db)" "ref_projects db ! i = p"
  shows "grown p db0 (retarget i t db)"
proof -
  have "filter (\<lambda>r. rc_project r \<noteq> p) (rs[i := (rs ! i)\<lparr>rc_target := t\<rparr>]) = filter (\<lambda>r. rc_project r \<noteq> p) rs"
    if "i < length rs" "rc_project (rs ! i) = p" for rs :: "ref_cell list"
  proof -
    let ?P = "\<lambda>r. rc_project r \<noteq> p"
    have "filter ?P (rs[i := (rs ! i)\<lparr>rc_target := t\<rparr>]) = filter ?P (take i rs) @ filter ?P (drop (Suc i) rs)"
      using that by (simp add: upd_conv_take_nth_drop)
    also have "\<dots> = filter ?P (take i rs @ rs ! i # drop (Suc i) rs)" using that(2) by simp
    also have "\<dots> = filter ?P rs" by (simp only: id_take_nth_drop [OF that(1), symmetric])
    finally show ?thesis .
  qed
  then show ?thesis using i unfolding retarget_def ref_projects_def by (intro grown_refs g) simp
qed


lemma settled_write:
  assumes g: "grown p db0 db" and i: "i < length (g_refs db)" "ref_projects db ! i = p"
  shows "grown p db0 (fst (settled_module i row p db))" "grown p db0 (fst (settled_target i row rel p db))"
    "ref_projects (fst (settled_module i row p db)) = ref_projects db"
    "ref_projects (fst (settled_target i row rel p db)) = ref_projects db"
  by (simp_all add: settled_module_def settled_target_def Let_def g grown_retarget [OF g i])

lemma grown_settle_reference:
  assumes g: "grown p db0 db" and i: "fst ir < length (g_refs db)" "ref_projects db ! fst ir = p"
  shows "grown p db0 (settle_reference a p db ir) \<and> ref_projects (settle_reference a p db ir) = ref_projects db"
proof (cases ir)
  case (Pair i row)
  define w where "w rel = (if rc_kind row = REF_KIND_MODULE then settled_module i row p db else settled_target i row rel p db)" for rel
  have w: "grown p db0 (fst (w rel))" "ref_projects (fst (w rel)) = ref_projects db" for rel
    using settled_write [OF g, of i] i Pair by (auto simp: w_def)
  have 2: "grown p db0 (case old of Some o' \<Rightarrow> release_reference b f o' p db1 | None \<Rightarrow> db1)
      \<and> ref_projects (case old of Some o' \<Rightarrow> release_reference b f o' p db1 | None \<Rightarrow> db1) = ref_projects db1"
    if "grown p db0 db1" for old b f db1
    by (simp add: grown_release that ref_projects_def split: option.split)
  have 3: "grown p db0 (case res of Some t \<Rightarrow> if held then db2 else assert_link b f t rel at src p tr db2 | None \<Rightarrow> db2)
      \<and> ref_projects (case res of Some t \<Rightarrow> if held then db2 else assert_link b f t rel at src p tr db2 | None \<Rightarrow> db2)
        = ref_projects db2"
    if "grown p db0 db2" for res held b f rel at src tr db2
    by (simp add: grown_assert_link that ref_projects_def split: option.split)
  show ?thesis
  proof (cases "staged_rel (rc_kind row)")
    case None
    then show ?thesis by (simp add: settle_reference_def Pair g)
  next
    case (Some rel)
    note s2 = 2 [OF w(1) [of rel]]
    show ?thesis
      unfolding settle_reference_def Pair prod.case Some option.case
      unfolding case_prod_beta Let_def w_def [symmetric]
      by (rule conjI [OF conjunct1 [OF 3] trans [OF conjunct2 [OF 3] trans [OF conjunct2 [OF s2] w(2)]]])
        (rule conjunct1 [OF s2])+
  qed
qed

lemma grown_settle_references [grown_steps]:
  assumes g: "grown p db0 db"
  shows "grown p db0 (settle_references a p db)"
proof -
  have rows: "fst ir < length (g_refs db) \<and> ref_projects db ! fst ir = p" if "ir \<in> set (staged_rows db a p)" for ir
    using that by (auto simp: staged_rows_def staged_row_def ref_projects_def in_set_enumerate_eq)
  have "grown p db0 (foldl (settle_reference a p) db' irs) \<and> ref_projects (foldl (settle_reference a p) db' irs) = ref_projects db"
    if "grown p db0 db'" "ref_projects db' = ref_projects db" "set irs \<subseteq> set (staged_rows db a p)" for db' irs
    using that
  proof (induction irs arbitrary: db')
    case (Cons ir irs)
    have "length (g_refs db') = length (g_refs db)" using Cons.prems(2) unfolding ref_projects_def by (metis length_map)
    then have "grown p db0 (settle_reference a p db' ir) \<and> ref_projects (settle_reference a p db' ir) = ref_projects db"
      using grown_settle_reference [OF Cons.prems(1), of ir] rows [of ir] Cons.prems(2,3) by simp
    then show ?case using Cons by simp
  qed simp
  from this [OF g refl subset_refl]
  have 1: "grown p db0 (foldl (settle_reference a p) db (staged_rows db a p))" by simp
  show ?thesis unfolding settle_references_def Let_def
    by (rule grown_edge_assertions [OF 1])
      (use graph_ok_edge_assertion [OF grown_graph_ok [OF 1]] in \<open>auto intro!: filter_cong\<close>)
qed

lemma grown_fold_entry:
  assumes g: "grown p db0 db" and none: "g_relabel_owed db0 = []"
  shows "on_ok (\<lambda>w. grown p db0 (fst w)) (fold_entry G entry p batch db)"
proof -
  have step: "on_ok (grown p db0) (fold_batch_event G entry p a db' e)" if "grown p db0 db'" for a db' e
    unfolding fold_batch_event_def Let_def
    by (rule on_ok_chain [OF grown_one [OF that]], rule on_ok_Inr, rule grown_stage)
  have batch: "on_ok (\<lambda>w. grown p db0 (fst w)) (bind_res (fold_res (fold_batch_event G entry p a) db' es)
       (\<lambda>db2. Inr (relabel_owed_communities (settle_references a p db2), Folded BatchAsked)))"
    if "grown p db0 db'" for a db' es
    by (rule on_ok_chain [OF on_ok_fold, OF that step])
      (auto intro!: on_ok_Inr grown_relabel_owed grown_settle_references none)
  have cleared: "filter (\<lambda>r. rc_project r \<noteq> p) (filter (\<lambda>r. rc_project r = p \<longrightarrow> Q r) rs) = filter (\<lambda>r. rc_project r \<noteq> p) rs"
    for Q and rs :: "ref_cell list" by (auto intro!: filter_cong)
  obtain db1 new where r: "record_applied (ev_position entry) db = (db1, new)" by (cases "record_applied (ev_position entry) db")
  have 1: "grown p db0 db1" using grown_record_applied [OF g, of "ev_position entry"] by (simp add: r)
  show ?thesis
  proof (cases "new \<and> entry_parse (gd_entry G) (ev_data entry) \<in> range Inr")
    case True
    then obtain named where n: "new" "entry_parse (gd_entry G) (ev_data entry) = Inr named" by auto
    show ?thesis unfolding fold_entry_def r prod.case n sum.case Let_def
      by (simp only: simp_thms if_True bool.case n)
        (rule on_ok_if [OF on_ok_Inr on_ok_bind];
          auto intro!: 1 on_ok_Inr batch grown_refs [OF 1] cleared split: batch_answer.split option.split)
  next
    case False
    then show ?thesis unfolding fold_entry_def r prod.case
      by (cases new; cases "entry_parse (gd_entry G) (ev_data entry)") (auto intro!: on_ok_Inr on_ok_Inl 1)
  qed
qed

end
