(* ===== verification/Graph_Promises.thy ===== *)
theory Graph_Promises
  imports Graph_Frames
begin

text \<open>
  What the context graph promises between transactions: the invariant of the graphs a store reaches by
  folding and pruning, a fold's frame, a batch folded twice, and the three retractions the fold writes
  (a superseded decision, a discarded finding, an upheld finding's integrated unit).
\<close>

section \<open>Debts are paid as a fold ends\<close>

lemma owed_foldl: "(\<And>db x. g_relabel_owed (f db x) = g_relabel_owed db) \<Longrightarrow> g_relabel_owed (foldl f db xs) = g_relabel_owed db"
  by (induction xs arbitrary: db) simp_all

lemma relabel_write_proofs [simp]: "g_relabel_owed (write_proofs en ids p db) = g_relabel_owed db"
  unfolding write_proofs_def by (rule owed_foldl) (simp add: write_proof_def Let_def)

lemma relabel_settle_proofs [simp]: "g_relabel_owed (settle_proofs en p db) = g_relabel_owed db"
  unfolding settle_proofs_def
  by (simp, rule owed_foldl) (simp add: settle_name_def resolve_proofs_def Let_def)

lemma proofs_settled [simp]: "g_proofs_owed (settle_proofs en p db) = []"
  by (simp add: settle_proofs_def)

lemma relabelled [simp]: "g_relabel_owed (relabel_owed_communities db) = []"
  by (simp add: relabel_owed_communities_def)

definition graph_settled :: "graph_db \<Rightarrow> bool" where
  "graph_settled db \<longleftrightarrow> graph_ok db \<and> g_relabel_owed db = [] \<and> g_proofs_owed db = []"

lemma settled_paid: "graph_settled db \<Longrightarrow> relabel_owed_communities db = db" "graph_settled db \<Longrightarrow> settle_proofs en p db = db"
  by (simp_all add: graph_settled_def relabel_owed_communities_def settle_proofs_def)

lemma fold_new_relabelled: "on_ok (\<lambda>w. g_relabel_owed (fst w) = []) (fold_new G es p db)"
  unfolding fold_new_def by (rule on_ok_bind) (auto intro!: on_ok_Inr)

lemma relabel_record_applied: "g_relabel_owed (fst (record_applied pos db)) = g_relabel_owed db"
  by (simp add: record_applied_def)

lemma fold_entry_relabelled:
  assumes none: "g_relabel_owed db = []"
  shows "on_ok (\<lambda>w. g_relabel_owed (fst w) = []) (fold_entry G entry p batch db)"
proof -
  obtain db1 new where r: "record_applied (ev_position entry) db = (db1, new)" by (cases "record_applied (ev_position entry) db")
  have 1: "g_relabel_owed db1 = []" using relabel_record_applied [of "ev_position entry" db] none by (simp add: r)
  show ?thesis unfolding fold_entry_def r prod.case Let_def
    by (cases new; cases "entry_parse (gd_entry G) (ev_data entry)")
      (auto intro!: on_ok_Inr on_ok_Inl on_ok_bind on_ok_if 1 split: batch_answer.split option.split)
qed

section \<open>The transactions\<close>

definition framed :: "string \<Rightarrow> graph_db \<Rightarrow> graph_db \<Rightarrow> bool" where
  "framed p db db' \<longleftrightarrow> grown p db db' \<and> g_relabel_owed db' = [] \<and> g_proofs_owed db' = []"

lemma framed_transaction:
  assumes "graph_settled db" "on_ok (\<lambda>w. grown p db (fst w) \<and> g_relabel_owed (fst w) = []) (body db)"
  shows "framed p db (fst (in_transaction en p body db))"
proof (cases "body db")
  case (Inl err)
  then show ?thesis using assms(1) by (simp add: in_transaction_def framed_def graph_settled_def grown_refl)
next
  case (Inr w)
  then show ?thesis using assms(2) by (auto simp: in_transaction_def framed_def on_ok_def grown_settle_proofs split: prod.split)
qed

lemma framed_batch: "graph_settled db \<Longrightarrow> framed p db (fst (apply_batch G es p db))"
  unfolding apply_batch_def
  by (rule framed_transaction, assumption)
    (auto simp: graph_settled_def intro!: on_okI dest: on_okD [OF grown_fold_new [OF grown_refl]] on_okD [OF fold_new_relabelled])

lemma framed_generation: "graph_settled db \<Longrightarrow> framed p db (fst (apply_generation G entry p batch db))"
  unfolding apply_generation_def
proof (rule framed_transaction, assumption, rule on_ok_chain, rule on_okI)
  fix w assume "graph_settled db" "fold_entry G entry p (bind_res batch (\<lambda>es. Inr (Batch es))) db = Inr w"
  then show "grown p db (fst w) \<and> g_relabel_owed (fst w) = []"
    by (auto simp: graph_settled_def dest: on_okD [OF grown_fold_entry [OF grown_refl]] on_okD [OF fold_entry_relabelled])
next
  fix w :: "graph_db \<times> entry_outcome"
  assume "grown p db (fst w) \<and> g_relabel_owed (fst w) = []"
  then show "on_ok (\<lambda>w. grown p db (fst w) \<and> g_relabel_owed (fst w) = []) (generation_answer entry w)"
    by (auto simp: generation_answer_def on_ok_def split: prod.split entry_outcome.split entry_fold.split option.split)
qed

lemma framed_settled: "framed p db db' \<Longrightarrow> graph_settled db'"
  by (simp add: framed_def graph_settled_def grown_def)

lemma prune_settled: "graph_settled db \<Longrightarrow> graph_settled (fst (prune_in p ids before db))"
  by (auto simp: prune_in_def Let_def graph_settled_def graph_ok_def edge_within_def distinct_map_filter)

text \<open>The graphs a store reaches from the empty file, by batches, ledger entries and prunes of any project.\<close>

inductive graph_reachable :: "graph_codec \<Rightarrow> graph_db \<Rightarrow> bool" for G where
  empty: "graph_reachable G empty_graph"
| batch: "graph_reachable G db \<Longrightarrow> graph_reachable G (fst (apply_batch G es p db))"
| entry: "graph_reachable G db \<Longrightarrow> graph_reachable G (fst (apply_generation G e p answer db))"
| pruned: "graph_reachable G db \<Longrightarrow> graph_reachable G (fst (prune_in p ids before db))"

lemma reachable_settled: "graph_reachable G db \<Longrightarrow> graph_settled db"
  by (induction rule: graph_reachable.induct)
    (simp_all add: framed_settled [OF framed_batch] framed_settled [OF framed_generation] prune_settled,
      simp add: graph_settled_def graph_ok_def empty_graph_def)

section \<open>Promises\<close>

text \<open>
  C8. Every graph a store reaches by folds and prunes is well formed: edge ids are distinct and below the
  counter that hands them out, an assertion or a detached attachment names an edge of its own project, and
  no community label and no proof is owed between transactions.
\<close>

theorem graph_rows_well_typed:
  assumes "graph_reachable G db"
  shows "distinct (map ec_id (g_edges db)) \<and> (\<forall>e \<in> set (g_edges db). ec_id e < g_next_edge db) \<and>
    (\<forall>a \<in> set (g_edge_assertions db). \<forall>e \<in> set (g_edges db). ec_id e = ea_edge a \<longrightarrow> ec_project e = ea_project a) \<and>
    (\<forall>d \<in> set (g_detached db). \<forall>e \<in> set (g_edges db). ec_id e = dt_edge d \<longrightarrow> ec_project e = dt_project d) \<and>
    g_relabel_owed db = [] \<and> g_proofs_owed db = []"
  using reachable_settled [OF assms] by (auto simp: graph_settled_def graph_ok_def edge_within_def)

text \<open>
  C9. Folding a batch deletes no edge and changes no edge's ends, relation or project, and leaves every node,
  edge, generation, assertion, attachment, proof and staged reference of another project as it was.
\<close>

theorem apply_batch_frame:
  assumes "graph_reachable G db" and "db' = fst (apply_batch G es p db)"
  shows "(\<exists>new. edge_keys db' = edge_keys db @ new) \<and> foreign_nodes p db' = foreign_nodes p db \<and>
    foreign_edges p db' = foreign_edges p db \<and> foreign_ledgers p db' = foreign_ledgers p db"
  using framed_batch [OF reachable_settled [OF assms(1)], of p G es] by (simp add: assms(2) framed_def grown_def)

text \<open>
  Folding a ledger entry with its batch, the settlement of its staged references included, deletes no edge
  and writes no row of another project.
\<close>

theorem apply_generation_frame:
  assumes "graph_reachable G db" and "db' = fst (apply_generation G entry p batch db)"
  shows "(\<exists>new. edge_keys db' = edge_keys db @ new) \<and> foreign_nodes p db' = foreign_nodes p db \<and>
    foreign_edges p db' = foreign_edges p db \<and> foreign_ledgers p db' = foreign_ledgers p db"
  using framed_generation [OF reachable_settled [OF assms(1)], of p G entry batch] by (simp add: assms(2) framed_def grown_def)


section \<open>A batch folded twice\<close>

lemma grown_applied: "grown p db0 db \<Longrightarrow> i \<in> set (g_applied db0) \<Longrightarrow> i \<in> set (g_applied db)"
  by (auto simp: grown_def)

lemma step_records:
  assumes ok: "graph_ok db" and step: "fold_new_step G p (db, cause) e = Inr w"
  shows "grown p db (fst w) \<and> ev_position e \<in> set (g_applied (fst w)) \<and> \<not> is_ledger_entry (ev_type e)"
proof -
  obtain db1 new where r: "record_applied (ev_position e) db = (db1, new)" by (cases "record_applied (ev_position e) db")
  have 1: "grown p db db1" "ev_position e \<in> set (g_applied db1)"
    using grown_record_applied [OF grown_refl [OF ok], of p "ev_position e"] r
    by (auto simp: record_applied_def has_applied_def split: if_splits)
  have nl: "\<not> is_ledger_entry (ev_type e)" using step unfolding fold_new_step_def prod.case by (rule contrapos_pn) simp
  show ?thesis
  proof (cases new)
    case True
    have "bind_res (fold_one G e p (asserter_of e) db1) (\<lambda>db2. Inr (db2, cause)) = Inr w"
      using step unfolding fold_new_step_def prod.case if_not_P [OF nl] r eqTrueI [OF True] bool.case .
    then obtain db2 where 2: "fold_one G e p (asserter_of e) db1 = Inr db2" "w = (db2, cause)"
      by (cases "fold_one G e p (asserter_of e) db1") simp_all
    have "grown p db1 db2" by (rule on_okD [OF grown_one [OF grown_refl [OF grown_graph_ok [OF 1(1)]]] 2(1)])
    then have "grown p db1 (fst w)" by (simp add: 2)
    then show ?thesis using 1 nl grown_trans [OF 1(1)] grown_applied by blast
  next
    case False
    then have "(Inr (db1, if cause = None then passed_over_cause db1 [ev_position e] else cause) :: graph_error + _) = Inr w"
      using step unfolding fold_new_step_def prod.case if_not_P [OF nl] r by (simp only: bool.case)
    then have "fst w = db1" by auto
    then show ?thesis using 1 nl by simp
  qed
qed

lemma steps_record:
  assumes "graph_ok db" "fold_res (fold_new_step G p) (db, cause) es = Inr w"
  shows "grown p db (fst w) \<and> (\<forall>e \<in> set es. ev_position e \<in> set (g_applied (fst w)) \<and> \<not> is_ledger_entry (ev_type e))"
  using assms
proof (induction es arbitrary: db cause)
  case (Cons e es)
  then obtain v where v: "fold_new_step G p (db, cause) e = Inr v" "fold_res (fold_new_step G p) v es = Inr w"
    by (auto split: sum.splits)
  note s = step_records [OF Cons.prems(1) v(1)]
  obtain db1 c1 where c: "v = (db1, c1)" by (cases v)
  have i: "grown p db1 (fst w)" "\<forall>e \<in> set es. ev_position e \<in> set (g_applied (fst w)) \<and> \<not> is_ledger_entry (ev_type e)"
    using Cons.IH [of db1 c1] s v(2) by (auto simp: c grown_graph_ok)
  have s': "grown p db db1" "ev_position e \<in> set (g_applied db1)" "\<not> is_ledger_entry (ev_type e)" using s by (simp_all add: c)
  show ?case using grown_trans [OF s'(1) i(1)] grown_applied [OF i(1) s'(2)] i(2) s'(3) by simp
qed (auto simp: grown_refl)

lemma steps_applied:
  assumes "\<forall>e \<in> set es. ev_position e \<in> set (g_applied db) \<and> \<not> is_ledger_entry (ev_type e)"
  shows "\<exists>c. fold_res (fold_new_step G p) (db, cause) es = Inr (db, c)"
  using assms
  by (induction es arbitrary: cause) (auto simp: fold_new_step_def record_applied_def has_applied_def)

lemma applied_paid [simp]: "g_applied (relabel_owed_communities db) = g_applied db" "g_applied (settle_proofs en p db) = g_applied db"
proof -
  have f: "(\<And>db x. g_applied (f db x) = g_applied db) \<Longrightarrow> g_applied (foldl f db xs) = g_applied db" for f :: "graph_db \<Rightarrow> 'x \<Rightarrow> graph_db" and db xs
    by (induction xs arbitrary: db) simp_all
  have w: "g_applied (write_proofs en ids p db) = g_applied db" for ids db
    unfolding write_proofs_def by (rule f) (simp add: write_proof_def Let_def)
  have r: "g_applied (relabel_community db pc) = g_applied db" for db pc by (cases pc) (simp add: relabel_community_def)
  show "g_applied (relabel_owed_communities db) = g_applied db" unfolding relabel_owed_communities_def by (simp, rule f) (rule r)
  show "g_applied (settle_proofs en p db) = g_applied db"
    unfolding settle_proofs_def by (simp, rule f) (simp add: settle_name_def resolve_proofs_def Let_def w)
qed

text \<open>
  C10. A batch that folded once changes nothing when it is folded again: its positions are recorded, and
  nothing is owed that a second commit would pay.
\<close>

theorem apply_batch_idempotent:
  assumes reach: "graph_reachable G db" and folded: "apply_batch G es p db = (db', Inr cause)"
  shows "fst (apply_batch G es p db') = db'"
proof -
  have ok: "graph_ok db" using reachable_settled [OF reach] by (simp add: graph_settled_def)
  have settled: "graph_settled db'" using framed_settled [OF framed_batch [OF reachable_settled [OF reach], of p G es]] folded by simp
  obtain w where w: "fold_res (fold_new_step G p) (db, None) es = Inr w"
    and db': "db' = settle_proofs (gd_strings G) p (relabel_owed_communities (fst w))"
    using folded by (auto simp: apply_batch_def in_transaction_def fold_new_def bind_res_def split: sum.splits prod.splits)
  have "\<forall>e \<in> set es. ev_position e \<in> set (g_applied db') \<and> \<not> is_ledger_entry (ev_type e)"
    using steps_record [OF ok w] by (simp add: db')
  then obtain c where "fold_res (fold_new_step G p) (db', None) es = Inr (db', c)" using steps_applied by blast
  then show ?thesis using settled
    by (simp add: apply_batch_def in_transaction_def fold_new_def settled_paid)
qed


section \<open>Retractions\<close>

lemma closed_rows:
  assumes "x \<in> set (update_where P (\<lambda>e. e\<lparr>ec_valid_to := Some at\<rparr>) es)" "ec_live x"
  shows "x \<in> set es \<and> \<not> P x"
  using assms by (auto simp: set_update_where ec_live_def)

lemma graph_edges_updated: "g_edges (db\<lparr>g_edges := es\<rparr>) = es"
  by simp

lemma edges_written:
  "g_edges (supersede_decision old at p db) = update_where
     (\<lambda>e. ec_from e = old \<and> ec_rel e = REL_GOVERNS \<and> ec_live e \<and> ec_project e = p)
     (\<lambda>e. e\<lparr>ec_valid_to := Some at\<rparr>) (g_edges db)"
  "g_edges (invalidate_finding_edges fid at p db) = update_where
     (\<lambda>e. ec_live e \<and> ec_project e = p
        \<and> (ec_from e = fid \<and> ec_rel e = REL_ABOUT \<or> ec_to e = fid \<and> ec_rel e = REL_RAISED)
        \<and> list_ex (\<lambda>n. is_node fid p n \<and> nc_kind n = KIND_FINDING) (g_nodes db))
     (\<lambda>e. e\<lparr>ec_valid_to := Some at\<rparr>) (g_edges db)"
  unfolding supersede_decision_def invalidate_finding_edges_def by (rule graph_edges_updated)+

lemma superseded_silent:
  "x \<in> set (g_edges (supersede_decision old at p db)) \<Longrightarrow> ec_from x = old \<Longrightarrow> ec_rel x = REL_GOVERNS \<Longrightarrow> ec_project x = p \<Longrightarrow>
     \<not> ec_live x"
  unfolding edges_written by (blast dest: closed_rows)

text \<open>
  Folding a decision that supersedes another leaves no live edge of the project by which the superseded
  decision governs anything.
\<close>

theorem superseded_decision_governs_nothing:
  assumes "ev_type e = TYPE_DECISION_MADE" and "gd_decision G (ev_data e) = Inr d" and "dm_supersedes d \<noteq> []"
    and "fold_event G e p a db = Inr db'"
  shows "\<forall>x \<in> set (g_edges db'). ec_from x = dm_supersedes d \<and> ec_rel x = REL_GOVERNS \<and> ec_project x = p \<longrightarrow> \<not> ec_live x"
proof -
  have "db' = fold_decision a d (to_nanos (valid_from e)) (ev_position e) p db"
    using assms(4) unfolding fold_event_def Let_def if_P [OF assms(1)]
    by (simp only: assms(2) be_def sum.case bind_res_simps sum.inject)
  then obtain db2 where "db' = supersede_decision (dm_supersedes d) (to_nanos (valid_from e)) p db2"
    unfolding fold_decision_def Let_def if_not_P [OF assms(3)] by blast
  then show ?thesis using superseded_silent by blast
qed

lemma invalidated_silent:
  "x \<in> set (g_edges (invalidate_finding_edges fid at p db)) \<Longrightarrow> list_ex (\<lambda>n. is_node fid p n \<and> nc_kind n = KIND_FINDING) (g_nodes db) \<Longrightarrow>
     ec_project x = p \<Longrightarrow> ec_from x = fid \<and> ec_rel x = REL_ABOUT \<or> ec_to x = fid \<and> ec_rel x = REL_RAISED \<Longrightarrow> \<not> ec_live x"
  unfolding edges_written by (blast dest: closed_rows)

text \<open>An invalidation leaves the nodes, and no edge it leaves is live that was not.\<close>

lemma invalidated_nodes:
  "g_nodes (foldl (\<lambda>db fid. invalidate_finding_edges fid at p db) db fids) = g_nodes db"
  by (induction fids arbitrary: db) (simp_all add: invalidate_finding_edges_def)

lemma invalidations:
  "x \<in> set (g_edges (foldl (\<lambda>db fid. invalidate_finding_edges fid at p db) db fids)) \<Longrightarrow> ec_live x \<Longrightarrow>
     x \<in> set (g_edges db) \<and> (\<forall>fid \<in> set fids. list_ex (\<lambda>n. is_node fid p n \<and> nc_kind n = KIND_FINDING) (g_nodes db) \<longrightarrow>
       ec_project x = p \<longrightarrow> \<not> (ec_from x = fid \<and> ec_rel x = REL_ABOUT \<or> ec_to x = fid \<and> ec_rel x = REL_RAISED))"
proof (induction fids arbitrary: db)
  case (Cons fid fids)
  let ?db = "invalidate_finding_edges fid at p db"
  have nodes: "g_nodes ?db = g_nodes db" by (simp add: invalidate_finding_edges_def)
  have x: "x \<in> set (g_edges ?db)" "\<forall>fid \<in> set fids. list_ex (\<lambda>n. is_node fid p n \<and> nc_kind n = KIND_FINDING) (g_nodes db) \<longrightarrow>
       ec_project x = p \<longrightarrow> \<not> (ec_from x = fid \<and> ec_rel x = REL_ABOUT \<or> ec_to x = fid \<and> ec_rel x = REL_RAISED)"
    using Cons.IH [of ?db] Cons.prems unfolding nodes foldl_Cons by blast+
  have "x \<in> set (g_edges db)"
    using x(1) Cons.prems(2) unfolding edges_written by (blast dest: closed_rows)
  then show ?case using invalidated_silent [OF x(1)] Cons.prems(2) x(2) unfolding list.set by blast
qed simp

text \<open>
  Folding a unit's integration leaves no live edge tying a finding upheld for that unit to what it is
  about or to who raised it.
\<close>

theorem integrated_findings_fall_silent:
  assumes "ev_type e = TYPE_UNIT_INTEGRATED" and "gd_integrated G (ev_data e) = Inr u" and "fold_event G e p a db = Inr db'"
    and "n \<in> set (g_nodes db')" and "nc_kind n = KIND_FINDING" and "nc_project n = p"
    and "attrs_get (nc_attrs n) ''disposition'' = Some ''upheld''" and "attrs_get (nc_attrs n) ''unit'' = Some u"
  shows "\<forall>x \<in> set (g_edges db'). ec_project x = p \<and>
    (ec_from x = nc_id n \<and> ec_rel x = REL_ABOUT \<or> ec_to x = nc_id n \<and> ec_rel x = REL_RAISED) \<longrightarrow> \<not> ec_live x"
proof -
  have ty: "ev_type e \<noteq> TYPE_DECISION_MADE" using assms(1) by simp
  have db': "db' = fold_integrated u (to_nanos (valid_from e)) p db"
    using assms(3) unfolding fold_event_def Let_def if_not_P [OF ty] if_P [OF assms(1)]
    by (simp only: assms(2) be_def sum.case bind_res_simps sum.inject)
  then have nodes: "g_nodes db' = g_nodes db" by (simp add: fold_integrated_def invalidated_nodes)
  then have up: "nc_id n \<in> set (marked_upheld db u p)" using assms(4-) by (auto simp: marked_upheld_def)
  have row: "list_ex (\<lambda>m. is_node (nc_id n) p m \<and> nc_kind m = KIND_FINDING) (g_nodes db)"
    using assms(4-6) nodes by (auto simp: list_ex_iff)
  show ?thesis using invalidations [of _ "to_nanos (valid_from e)" p db "marked_upheld db u p"] up row
    unfolding db' fold_integrated_def by blast
qed

text \<open>
  Folding an adjudicator's result leaves no live edge tying a finding it discarded to what it is about or
  to who raised it.
\<close>

theorem discarded_findings_fall_silent:
  assumes "ev_type e = TYPE_SPAWN_RESULT" and "result_from_event (gd_codec G) e = Inr r"
    and "result_adjudication (gd_codec G) r = Some adj" and "fid \<in> set (ad_discarded adj)"
    and "fold_event G e p a db = Inr db'" and "n \<in> set (g_nodes db)" and "is_node fid p n" and "nc_kind n = KIND_FINDING"
  shows "\<forall>x \<in> set (g_edges db'). ec_project x = p \<and>
    (ec_from x = fid \<and> ec_rel x = REL_ABOUT \<or> ec_to x = fid \<and> ec_rel x = REL_RAISED) \<longrightarrow> \<not> ec_live x"
proof -
  have "db' = fold_result (gd_codec G) e (to_nanos (valid_from e)) p db"
    using assms(5) unfolding fold_event_def Let_def assms(1) by simp
  moreover have "g_edges (foldl (mark_upheld u p) db1 fs) = g_edges db1" for u db1 fs
    by (induction fs arbitrary: db1) (simp_all add: mark_upheld_def)
  ultimately have edges: "g_edges db' = g_edges (foldl (\<lambda>db fid. invalidate_finding_edges fid (to_nanos (valid_from e)) p db) db
      (bs_collect (ad_discarded adj)))" by (simp add: fold_result_def assms(2,3))
  have row: "list_ex (\<lambda>m. is_node fid p m \<and> nc_kind m = KIND_FINDING) (g_nodes db)"
    using assms(6-8) by (auto simp: list_ex_iff)
  have "fid \<in> set (bs_collect (ad_discarded adj))" using assms(4) by simp
  then show ?thesis using invalidations [of _ "to_nanos (valid_from e)" p db "bs_collect (ad_discarded adj)"] row
    unfolding edges by blast
qed

end
