(* ===== verification/Graph_Demo.thy ===== *)
theory Graph_Demo
  imports Graph_Promises Demo
begin

text \<open>Witnesses of the context graph's promises, evaluated on a store of one project.\<close>

definition unread :: "bytes \<Rightarrow> json_error + 'a" where
  "unread b = Inl (JsonError ''unread'')"

definition demo_review :: codec where
  "demo_review = demo_codec
     \<lparr>de_value := \<lambda>b. Inr (JObj [(''upheld'', JArr [JStr ''f1'']), (''discarded'', JArr [JStr ''f2''])]),
      de_spawn_result := \<lambda>b. Inr \<lparr>sr_id = b, sr_output = ''ruled'', sr_error = [], sr_meta = JNull\<rparr>\<rparr>"

definition demo_graph :: graph_codec where
  "demo_graph =
     \<lparr>gd_codec = demo_review,
      gd_decision = (\<lambda>b. Inr \<lparr>dm_id = b, dm_summary = [], dm_governs = [''a.rs''], dm_supersedes = (if b = ''d2'' then ''d1'' else [])\<rparr>),
      gd_integrated = Inr, gd_lesson = unread,
      gd_finding = (\<lambda>b. Inr \<lparr>lr_id = b, lr_by = ''r'', lr_unit = ''u1'', lr_summary = [], lr_about = [''a.rs''], lr_file = None\<rparr>),
      gd_entity = unread, gd_inferred = unread, gd_concept = unread, gd_link = unread, gd_alias = unread, gd_unresolved = unread,
      gd_community = unread, gd_derived = unread, gd_realized = unread, gd_entry = unread, gd_strings = concat\<rparr>"

definition at_position :: "position \<Rightarrow> string \<Rightarrow> bytes \<Rightarrow> event" where
  "at_position i ty data = (demo_event ty data)\<lparr>ev_position := i\<rparr>"

definition demo_decisions :: "event list" where
  "demo_decisions = [at_position 1 TYPE_DECISION_MADE ''d1'', at_position 2 TYPE_DECISION_MADE ''d2'']"

definition demo_findings :: "event list" where
  "demo_findings = [at_position 3 TYPE_REVIEW_FINDING ''f1'', at_position 4 TYPE_REVIEW_FINDING ''f2'']"

definition demo_ruling :: event where
  "demo_ruling = at_position 5 TYPE_SPAWN_RESULT ''u1/adjudicator#1''"

definition demo_landing :: event where
  "demo_landing = at_position 6 TYPE_UNIT_INTEGRATED ''u1''"

definition demo_db :: "event list \<Rightarrow> graph_db" where
  "demo_db es = fst (apply_batch demo_graph es ''p'' empty_graph)"

definition shown_edges :: "graph_db \<Rightarrow> (string \<times> string \<times> string \<times> bool) list" where
  "shown_edges db = map (\<lambda>e. (ec_from e, ec_to e, ec_rel e, ec_live e)) (g_edges db)"

lemma demo_decisions_fold:
  "shown_edges (demo_db demo_decisions)
     = [(''d1'', ''a.rs'', REL_GOVERNS, False), (''d2'', ''a.rs'', REL_GOVERNS, True), (''d2'', ''d1'', REL_SUPERSEDES, True)]"
  by code_simp

lemma demo_review_fold:
  "shown_edges (demo_db demo_findings) = [(''f1'', ''a.rs'', REL_ABOUT, True), (''f2'', ''a.rs'', REL_ABOUT, True)]"
  "shown_edges (demo_db (demo_findings @ [demo_ruling])) = [(''f1'', ''a.rs'', REL_ABOUT, True), (''f2'', ''a.rs'', REL_ABOUT, False)]"
  "shown_edges (demo_db (demo_findings @ [demo_ruling, demo_landing])) = [(''f1'', ''a.rs'', REL_ABOUT, False), (''f2'', ''a.rs'', REL_ABOUT, False)]"
  by code_simp+


section \<open>The store's promises there\<close>

lemma demo_reachable: "graph_reachable demo_graph (demo_db es)"
  unfolding demo_db_def by (rule graph_reachable.batch, rule graph_reachable.empty)

lemma demo_counts: "length (g_edges (demo_db demo_decisions)) = 3" "isl (snd (apply_batch demo_graph demo_decisions ''p'' empty_graph)) = False"
  by code_simp+

theorem graph_rows_well_typed_witness:
  "distinct (map ec_id (g_edges (demo_db demo_decisions))) \<and> length (g_edges (demo_db demo_decisions)) = 3"
  using graph_rows_well_typed [OF demo_reachable [of demo_decisions]] demo_counts(1) by simp

theorem apply_batch_frame_witness:
  "length (foreign_edges ''q'' (fst (apply_batch demo_graph demo_findings ''q'' (demo_db demo_decisions)))) = 3"
proof -
  have "length (foreign_edges ''q'' (demo_db demo_decisions)) = 3" by code_simp
  then show ?thesis using apply_batch_frame [OF demo_reachable [of demo_decisions] refl, of demo_findings "''q''"] by simp
qed

theorem apply_generation_frame_witness:
  "length (foreign_edges ''q'' (fst (apply_generation demo_graph demo_ruling ''q'' (Inr None) (demo_db demo_decisions)))) = 3"
proof -
  have "length (foreign_edges ''q'' (demo_db demo_decisions)) = 3" by code_simp
  then show ?thesis using apply_generation_frame [OF demo_reachable [of demo_decisions] refl, of demo_ruling "''q''" "Inr None"] by simp
qed

theorem apply_batch_idempotent_witness:
  "fst (apply_batch demo_graph demo_decisions ''p'' (demo_db demo_decisions)) = demo_db demo_decisions"
proof -
  have "apply_batch demo_graph demo_decisions ''p'' empty_graph
      = (demo_db demo_decisions, Inr (projr (snd (apply_batch demo_graph demo_decisions ''p'' empty_graph))))"
    using demo_counts(2) by (simp add: demo_db_def prod_eq_iff sum.collapse(2))
  from apply_batch_idempotent [OF graph_reachable.empty this] show ?thesis .
qed

definition demo_next :: "event \<Rightarrow> graph_db \<Rightarrow> graph_db" where
  "demo_next e db = projr (fold_event demo_graph e ''p'' (asserter_of e) db)"

lemma demo_next: "isl (fold_event demo_graph e ''p'' (asserter_of e) db) = False \<Longrightarrow>
    fold_event demo_graph e ''p'' (asserter_of e) db = Inr (demo_next e db)"
  by (simp add: demo_next_def sum.collapse(2))

lemma demo_folds:
  "isl (fold_event demo_graph (demo_decisions ! 1) ''p'' (asserter_of (demo_decisions ! 1)) (demo_db [demo_decisions ! 0])) = False"
  "isl (fold_event demo_graph demo_ruling ''p'' (asserter_of demo_ruling) (demo_db demo_findings)) = False"
  "isl (fold_event demo_graph demo_landing ''p'' (asserter_of demo_landing) (demo_db (demo_findings @ [demo_ruling]))) = False"
  by code_simp+

definition live_edges_of :: "string \<Rightarrow> string \<Rightarrow> graph_db \<Rightarrow> edge_cell list" where
  "live_edges_of i rel db = filter (\<lambda>x. ec_from x = i \<and> ec_rel x = rel \<and> ec_project x = ''p'' \<and> ec_live x) (g_edges db)"

theorem superseded_decision_governs_nothing_witness:
  "live_edges_of ''d1'' REL_GOVERNS (demo_next (demo_decisions ! 1) (demo_db [demo_decisions ! 0])) = []"
proof -
  have d2: "demo_decisions ! 1 = at_position 2 TYPE_DECISION_MADE ''d2''" by (simp add: demo_decisions_def)
  have e: "ev_type (demo_decisions ! 1) = TYPE_DECISION_MADE" "ev_data (demo_decisions ! 1) = ''d2''"
    unfolding d2 by (simp_all add: at_position_def)
  have d: "gd_decision demo_graph (ev_data (demo_decisions ! 1)) =
      Inr \<lparr>dm_id = ''d2'', dm_summary = [], dm_governs = [''a.rs''], dm_supersedes = ''d1''\<rparr>"
    unfolding e(2) by (simp add: demo_graph_def)
  show ?thesis using superseded_decision_governs_nothing [OF e(1) d _ demo_next [OF demo_folds(1)]]
    by (simp add: live_edges_of_def filter_empty_conv)
qed

theorem integrated_findings_fall_silent_witness:
  "live_edges_of ''f1'' REL_ABOUT (demo_next demo_landing (demo_db (demo_findings @ [demo_ruling]))) = []"
proof -
  let ?db = "demo_next demo_landing (demo_db (demo_findings @ [demo_ruling]))"
  have "list_ex (\<lambda>n. nc_id n = ''f1'' \<and> nc_kind n = KIND_FINDING \<and> nc_project n = ''p'' \<and>
      attrs_get (nc_attrs n) ''disposition'' = Some ''upheld'' \<and> attrs_get (nc_attrs n) ''unit'' = Some ''u1'') (g_nodes ?db)"
    by code_simp
  then obtain n where n: "n \<in> set (g_nodes ?db)" "nc_id n = ''f1''" "nc_kind n = KIND_FINDING" "nc_project n = ''p''"
    "attrs_get (nc_attrs n) ''disposition'' = Some ''upheld''" "attrs_get (nc_attrs n) ''unit'' = Some ''u1''"
    unfolding list_ex_iff by blast
  have e: "ev_type demo_landing = TYPE_UNIT_INTEGRATED" "gd_integrated demo_graph (ev_data demo_landing) = Inr ''u1''"
    by (simp_all add: demo_landing_def at_position_def demo_graph_def)
  show ?thesis using integrated_findings_fall_silent [OF e demo_next [OF demo_folds(3)] n(1,3-6)]
    by (simp add: live_edges_of_def filter_empty_conv n(2))
qed

theorem discarded_findings_fall_silent_witness:
  "live_edges_of ''f2'' REL_ABOUT (demo_next demo_ruling (demo_db demo_findings)) = []"
proof -
  have "list_ex (\<lambda>n. is_node ''f2'' ''p'' n \<and> nc_kind n = KIND_FINDING) (g_nodes (demo_db demo_findings))" by code_simp
  then obtain n where n: "n \<in> set (g_nodes (demo_db demo_findings))" "is_node ''f2'' ''p'' n" "nc_kind n = KIND_FINDING"
    unfolding list_ex_iff by blast
  let ?r = "\<lparr>sr_id = ''u1/adjudicator#1'', sr_output = ''ruled'', sr_error = [], sr_meta = JNull\<rparr>"
  have e: "ev_type demo_ruling = TYPE_SPAWN_RESULT" "result_from_event (gd_codec demo_graph) demo_ruling = Inr ?r"
    by (simp_all add: demo_ruling_def at_position_def demo_graph_def demo_review_def result_from_event_def)
  have "map_option ad_discarded (result_adjudication (gd_codec demo_graph) ?r) = Some [''f2'']" by code_simp
  then obtain adj where adj: "result_adjudication (gd_codec demo_graph) ?r = Some adj" "''f2'' \<in> set (ad_discarded adj)" by auto
  show ?thesis using discarded_findings_fall_silent [OF e adj demo_next [OF demo_folds(2)] n]
    by (simp add: live_edges_of_def filter_empty_conv)
qed

end
