(* ===== verification/Progress.thy ===== *)
theory Progress
  imports Spawn Agent Demo "HOL-Library.Option_ord" "HOL-Library.Product_Lexorder"
begin

text \<open>
  The progress store's records and their folds (\<open>rigger-domain/src/progress.rs\<close>): the agents' lines, the
  launches a host opens and closes, the failure classes its hooks report, and the per-agent view
  \<open>rigger status\<close> renders; and the schedule of a held run's probes (\<open>hold_probe.rs\<close>), which reads the hold
  spans of the run stream and the probe lines of the progress store. Payload decoders are fields of a
  record, durations and instants are nanoseconds.
\<close>

section \<open>Records\<close>

record agent_progress =
  ap_id :: string
  ap_activity :: string
  ap_revision :: "revision option"

record spawn_launched =
  sl_spawn :: string
  sl_launch :: u32
  sl_session_id :: string
  sl_resumed_from :: "string option"
  sl_started :: u64
  sl_ended :: "string option"
  sl_class :: "string option"
  sl_revision :: "revision option"
  sl_dir :: string

record stop_failure =
  sf_spawn :: string
  sf_class :: string

record progress_codec =
  pd_codec :: codec
  pd_progress :: "bytes \<Rightarrow> json_error + agent_progress"
  pd_launch :: "bytes \<Rightarrow> json_error + spawn_launched"
  pd_stop :: "bytes \<Rightarrow> json_error + stop_failure"

abbreviation "TYPE_AGENT_PROGRESS \<equiv> ''AgentProgress''"
abbreviation "TYPE_SPAWN_LAUNCHED \<equiv> ''SpawnLaunched''"
abbreviation "TYPE_STOP_FAILURE \<equiv> ''StopFailure''"
abbreviation "GREP_FALLBACK_PREFIX \<equiv> ''grep-fallback:''"
abbreviation "ENDED_COMPLETED \<equiv> ''completed''"
abbreviation "ENDED_INTERRUPTED \<equiv> ''interrupted''"
abbreviation "ENDED_FAULT \<equiv> ''fault''"
abbreviation "ENDED_STOPPED \<equiv> ''stopped''"
abbreviation "PROGRESS_STREAM \<equiv> ''progress''"

definition progress_stream_of :: "string \<Rightarrow> string" where
  "progress_stream_of run_id = (if run_id = [] then PROGRESS_STREAM else PROGRESS_STREAM @ ''/'' @ run_id)"

definition is_grep_fallback :: "agent_progress \<Rightarrow> bool" where
  "is_grep_fallback p \<longleftrightarrow> starts_with (concat (dropWhile is_ws (utf8_chars (ap_activity p)))) GREP_FALLBACK_PREFIX"

definition agent_progress_events :: "event list \<Rightarrow> event list" where
  "agent_progress_events es = filter (\<lambda>e. ev_type e = TYPE_AGENT_PROGRESS) es"

definition decoded_progress :: "progress_codec \<Rightarrow> event list \<Rightarrow> (event \<times> agent_progress) list" where
  "decoded_progress P es =
     List.map_filter (\<lambda>e. map_option (Pair e) (res_ok (pd_progress P (ev_data e)))) (agent_progress_events es)"

section \<open>Launches\<close>

definition closed_launch :: "string \<Rightarrow> u32 \<Rightarrow> string \<Rightarrow> string \<Rightarrow> string \<Rightarrow> spawn_launched" where
  "closed_launch spawn launch session_id ended cls =
     \<lparr>sl_spawn = spawn, sl_launch = launch, sl_session_id = session_id, sl_resumed_from = None, sl_started = 0,
      sl_ended = Some ended, sl_class = (if cls = [] then None else Some cls), sl_revision = None, sl_dir = []\<rparr>"

definition is_open :: "spawn_launched \<Rightarrow> bool" where
  "is_open l \<longleftrightarrow> sl_ended l = None"

definition decode_launch :: "progress_codec \<Rightarrow> event \<Rightarrow> spawn_launched option" where
  "decode_launch P e = (if ev_type e = TYPE_SPAWN_LAUNCHED then res_ok (pd_launch P (ev_data e)) else None)"

definition decoded_launches :: "progress_codec \<Rightarrow> event list \<Rightarrow> (event \<times> spawn_launched) list" where
  "decoded_launches P es = List.map_filter (\<lambda>e. map_option (Pair e) (decode_launch P e)) es"

text \<open>An unstamped record precedes every stamped one.\<close>

definition closed_after_release :: "revision option \<Rightarrow> revision option \<Rightarrow> bool" where
  "closed_after_release close release \<longleftrightarrow> release \<le> close"

text \<open>A close without a stamp takes the last stamp before it.\<close>

fun stamped_closes :: "revision option \<Rightarrow> spawn_launched list \<Rightarrow> spawn_launched list" where
  "stamped_closes stamp [] = []"
| "stamped_closes stamp (c # cs) =
     (let r = (case sl_revision c of Some r \<Rightarrow> Some r | None \<Rightarrow> stamp)
      in c\<lparr>sl_revision := r\<rparr> # stamped_closes r cs)"

definition ordered_closes :: "progress_codec \<Rightarrow> event list \<Rightarrow> spawn_launched list" where
  "ordered_closes P es =
     sort_key sl_revision (stamped_closes None (filter (\<lambda>l. \<not> is_open l) (map snd (decoded_launches P es))))"

definition failed_close :: "spawn_launched \<Rightarrow> bool" where
  "failed_close c \<longleftrightarrow> sl_ended c \<in> {Some ENDED_FAULT, Some ENDED_STOPPED}"

definition failed_closes_since :: "progress_codec \<Rightarrow> event list \<Rightarrow> revision option \<Rightarrow> nat" where
  "failed_closes_since P es released =
     length (filter failed_close
       (takeWhile (\<lambda>c. sl_ended c \<noteq> Some ENDED_COMPLETED \<and> closed_after_release (sl_revision c) released)
          (rev (ordered_closes P es))))"

definition launch_key :: "event \<times> spawn_launched \<Rightarrow> string \<times> string \<times> u32" where
  "launch_key el = (unwrap_or [] (bt_get (ev_meta (fst el)) META_RUN_ID), sl_spawn (snd el), sl_launch (snd el))"

definition open_launches :: "progress_codec \<Rightarrow> event list \<Rightarrow> (string \<times> spawn_launched) list" where
  "open_launches P es =
     map (\<lambda>((run, _, _), record). (run, record))
       (filter (\<lambda>(_, record). is_open record)
          (bt_collect (map (\<lambda>el. (launch_key el, snd el)) (decoded_launches P es))))"

definition launch_records_of :: "progress_codec \<Rightarrow> event list \<Rightarrow> string \<Rightarrow> spawn_launched list" where
  "launch_records_of P es spawn = filter (\<lambda>l. sl_spawn l = spawn) (map snd (decoded_launches P es))"

definition latest_launch_of :: "spawn_launched list \<Rightarrow> spawn_launched list" where
  "latest_launch_of records =
     (let latest = (case map sl_launch records of [] \<Rightarrow> None | l # ls \<Rightarrow> Some (foldl max l ls))
      in filter (\<lambda>r. Some (sl_launch r) = latest) records)"

definition next_launch_after :: "spawn_launched option \<Rightarrow> u32" where
  "next_launch_after latest = (case latest of None \<Rightarrow> 0 | Some l \<Rightarrow> sl_launch l + 1)"

definition stop_failure_step :: "progress_codec \<Rightarrow> string \<Rightarrow> string option \<Rightarrow> event \<Rightarrow> string option" where
  "stop_failure_step P spawn found e =
     (case decode_launch P e of
        Some launch \<Rightarrow> if sl_spawn launch = spawn \<and> is_open launch then None else found
      | None \<Rightarrow>
          if ev_type e = TYPE_STOP_FAILURE
          then (case pd_stop P (ev_data e) of
                  Inr sf \<Rightarrow> if sf_spawn sf = spawn then Some (sf_class sf) else found
                | Inl _ \<Rightarrow> found)
          else found)"

definition latest_stop_failure_class :: "progress_codec \<Rightarrow> event list \<Rightarrow> string \<Rightarrow> string option" where
  "latest_stop_failure_class P es spawn = foldl (stop_failure_step P spawn) None es"

section \<open>The per-agent view\<close>

record agent_activity =
  aa_id :: string
  aa_unit :: string
  aa_stage :: string
  aa_latest_activity :: "string option"
  aa_activity_age_s :: "u64 option"
  aa_liveness_age_s :: "u64 option"
  aa_last_milestone :: "string option"
  aa_milestone_age_s :: "u64 option"

definition event_unit_id :: "progress_codec \<Rightarrow> event \<Rightarrow> string option" where
  "event_unit_id P e =
     Option.bind (res_ok (de_value (pd_codec P) (ev_data e))) (\<lambda>v. Option.bind (value_get v ''id'') as_str)"

definition latest_progress :: "progress_codec \<Rightarrow> event list \<Rightarrow> string \<rightharpoonup> string \<times> sys_time" where
  "latest_progress P es =
     foldl (\<lambda>m (e, ap). m(ap_id ap \<mapsto> (ap_activity ap, recorded_at e))) Map.empty (decoded_progress P es)"

definition latest_milestone :: "progress_codec \<Rightarrow> event list \<Rightarrow> string \<rightharpoonup> string \<times> sys_time" where
  "latest_milestone P es =
     foldl (\<lambda>m e. case event_unit_id P e of Some uid \<Rightarrow> m(uid \<mapsto> (ev_type e, recorded_at e)) | None \<Rightarrow> m) Map.empty es"

text \<open>Whole seconds since an instant, none for an instant ahead of the clock.\<close>

definition age_s :: "sys_time \<Rightarrow> sys_time \<Rightarrow> u64 option" where
  "age_s now t = (if t \<le> now then Some (word_of_int ((now - t) div 1000000000)) else None)"

definition activity_of ::
  "(string \<rightharpoonup> string \<times> sys_time) \<Rightarrow> (string \<rightharpoonup> string \<times> sys_time) \<Rightarrow> (string \<rightharpoonup> u64) \<Rightarrow> sys_time \<Rightarrow> wave_item \<Rightarrow> agent_activity" where
  "activity_of prog ms ages now w =
     \<lparr>aa_id = wi_id w, aa_unit = wi_unit w, aa_stage = wi_stage w,
      aa_latest_activity = map_option fst (prog (wi_id w)),
      aa_activity_age_s = Option.bind (prog (wi_id w)) (\<lambda>at. age_s now (snd at)),
      aa_liveness_age_s = ages (wi_id w),
      aa_last_milestone = map_option fst (ms (wi_unit w)),
      aa_milestone_age_s = Option.bind (ms (wi_unit w)) (\<lambda>yt. age_s now (snd yt))\<rparr>"

definition consolidate ::
  "progress_codec \<Rightarrow> event list \<Rightarrow> event list \<Rightarrow> (string \<rightharpoonup> u64) \<Rightarrow> sys_time \<Rightarrow> json_error + agent_activity list" where
  "consolidate P run_events progress_events liveness_ages now =
     bind_res (step_result (pd_codec P) run_events)
       (\<lambda>s. Inr (map (activity_of (latest_progress P progress_events) (latest_milestone P run_events) liveness_ages now) (wave s)))"

section \<open>The probe's delay\<close>

type_synonym duration = int

abbreviation "SECOND \<equiv> (1000000000 :: int)"
abbreviation "FIRST_DELAY \<equiv> 60 * SECOND"
abbreviation "MAX_DELAY \<equiv> 900 * SECOND"
abbreviation "QUICK_RE_HOLD \<equiv> 600 * SECOND"
abbreviation "HOLD_PROBE_ID \<equiv> ''hold-probe''"

text \<open>\<open>checked_shl\<close> is \<open>None\<close> from 32 doublings on; the product saturates at \<open>Duration::MAX\<close>.\<close>

abbreviation "DURATION_MAX \<equiv> (2 ^ 64 - 1) * SECOND + 999999999 :: int"

definition delay_after :: "nat \<Rightarrow> duration" where
  "delay_after probes =
     (let doublings = (if probes < 2 ^ 32 then (of_nat probes :: u32) else - 1);
          factor = (if doublings < 32 then push_bit (unat doublings) (1 :: u32) else - 1)
      in min (min (FIRST_DELAY * uint factor) DURATION_MAX) MAX_DELAY)"

record owed_probe =
  op_held :: run_held
  op_revision :: revision
  op_delay :: duration
  op_due :: sys_time

definition checks_login :: "owed_probe \<Rightarrow> bool" where
  "checks_login p \<longleftrightarrow> dr_credential (cause_row (rh_cause (op_held p)))"

definition probe_line :: "owed_probe \<Rightarrow> agent_progress" where
  "probe_line p =
     \<lparr>ap_id = HOLD_PROBE_ID,
      ap_activity = ''probing the '' @ rh_cause (op_held p) @ '' hold within '' @ show_nat (nat (op_delay p div SECOND)) @ '' s'',
      ap_revision = Some (op_revision p)\<rparr>"

definition is_probed :: "hold \<Rightarrow> bool" where
  "is_probed h \<longleftrightarrow> \<not> h_operator h \<and> rh_cause (h_latest h) \<noteq> failure_str ModelNotFound"

text \<open>The holds a quick re-hold continued, walked back from the open one.\<close>

fun probe_chain :: "(hold_span \<times> hold) list \<Rightarrow> sys_time \<Rightarrow> (revision \<times> revision option) list" where
  "probe_chain [] since = []"
| "probe_chain ((span, behind) # rest) since =
     (case hs_release span of
        None \<Rightarrow> []
      | Some release \<Rightarrow>
          if h_operator behind \<or> max 0 (since - hr_at release) > QUICK_RE_HOLD then []
          else (hs_first span, Some (hr_revision release)) # probe_chain rest (hs_since span))"

definition in_chain :: "(revision \<times> revision option) list \<Rightarrow> revision \<Rightarrow> bool" where
  "in_chain chain r \<longleftrightarrow>
     list_ex (\<lambda>(first, release). first \<le> r \<and> (case release of None \<Rightarrow> True | Some rel \<Rightarrow> r < rel)) chain"

definition probes_made :: "progress_codec \<Rightarrow> (revision \<times> revision option) list \<Rightarrow> event list \<Rightarrow> sys_time list" where
  "probes_made P chain es =
     List.map_filter (\<lambda>(e, line).
       case opt_filter (\<lambda>_. ap_id line = HOLD_PROBE_ID) (ap_revision line) of
         None \<Rightarrow> None
       | Some r \<Rightarrow> if in_chain chain r then Some (valid_from e) else None) (decoded_progress P es)"

definition hold_chain :: "(hold_span \<times> hold) list \<Rightarrow> (revision \<times> revision option) list" where
  "hold_chain spans =
     (case rev spans of [] \<Rightarrow> [] | (opn, _) # behind \<Rightarrow> (hs_first opn, None) # probe_chain behind (hs_since opn))"

definition decoded_spans :: "progress_codec \<Rightarrow> event list \<Rightarrow> (hold_span \<times> hold) list option" where
  "decoded_spans P es = collect_opt (map (\<lambda>span. map_option (Pair span) (hs_hold span)) (holds (pd_codec P) es))"

definition owed_probe_at :: "progress_codec \<Rightarrow> event list \<Rightarrow> event list \<Rightarrow> sys_time \<Rightarrow> owed_probe option" where
  "owed_probe_at P run_events progress_events now =
     (case decoded_spans P run_events of
        None \<Rightarrow> None
      | Some spans \<Rightarrow>
          (case rev spans of
             [] \<Rightarrow> None
           | (opn, h) # behind \<Rightarrow>
               if hs_release opn \<noteq> None \<or> \<not> is_probed h then None
               else
                 (let probes = probes_made P (hold_chain spans) progress_events;
                      delay = delay_after (length probes);
                      last = foldl max (hs_latest_at opn) probes
                  in Some \<lparr>op_held = h_latest h, op_revision = h_revision h, op_delay = delay,
                           op_due = min (last + delay) (now + delay)\<rparr>)))"


section \<open>Closes\<close>

lemma sorted_ordered_closes: "sorted (map sl_revision (ordered_closes P es))"
  by (simp add: ordered_closes_def)

lemma trailing_run_count:
  assumes "sorted (map k cs)"
  shows "length (filter F (takeWhile (\<lambda>c. \<not> C c \<and> r \<le> k c) (rev cs)))
    = card {i. i < length cs \<and> F (cs ! i) \<and> r \<le> k (cs ! i) \<and> list_all (\<lambda>d. \<not> C d) (drop i cs)}"
  using assms
proof (induction cs rule: rev_induct)
  case (snoc c cs)
  let ?S = "\<lambda>cs. {i. i < length cs \<and> F (cs ! i) \<and> r \<le> k (cs ! i) \<and> list_all (\<lambda>d. \<not> C d) (drop i cs)}"
  have sorted: "sorted (map k cs)" and low: "k x \<le> k c" if "x \<in> set cs" for x
    using snoc.prems that by (auto simp: sorted_append)
  show ?case
  proof (cases "C c \<or> \<not> r \<le> k c")
    case True
    have "?S (cs @ [c]) = {}" if "C c" using that by (auto simp: less_Suc_eq nth_append)
    moreover have "?S (cs @ [c]) = {}" if "\<not> r \<le> k c"
      using that low by (auto simp: less_Suc_eq nth_append) (meson nth_mem order_trans)
    ultimately show ?thesis using True by auto
  next
    case False
    have "?S (cs @ [c]) = ?S cs \<union> (if F c then {length cs} else {})"
      using False by (auto simp: less_Suc_eq nth_append)
    moreover have "finite (?S cs)" by simp
    ultimately have "card (?S (cs @ [c])) = card (?S cs) + (if F c then 1 else 0)" by simp
    then show ?thesis using snoc.IH snoc.prems False by (simp add: sorted_append)
  qed
qed simp

text \<open>
  The failed closes of a run are counted exactly since its last completed one and its last release: in
  stamp order, the fault and stopped closes at or after the release with no completed close behind them.
\<close>

theorem failed_closes_since_exact:
  "failed_closes_since P es released =
     card {i. i < length (ordered_closes P es) \<and> failed_close (ordered_closes P es ! i)
            \<and> closed_after_release (sl_revision (ordered_closes P es ! i)) released
            \<and> list_all (\<lambda>d. sl_ended d \<noteq> Some ENDED_COMPLETED) (drop i (ordered_closes P es))}"
  unfolding failed_closes_since_def closed_after_release_def
  by (rule trailing_run_count [OF sorted_ordered_closes])

section \<open>Open launches\<close>

lemma map_of_find: "map_of (map (\<lambda>x. (f x, g x)) xs) k = map_option g (find (\<lambda>x. f x = k) xs)"
  by (induction xs) auto

lemma launch_table_get:
  "bt_get (bt_collect (map (\<lambda>el. (launch_key el, snd el)) ds)) k = map_option snd (find_last (\<lambda>el. launch_key el = k) ds)"
  by (simp add: bt_collect_get find_last_def map_of_find rev_map)

lemma launch_table_keyed:
  assumes "(k, l) \<in> set (bt_collect (map (\<lambda>el. (launch_key el, snd el)) ds))"
  shows "k = (fst k, sl_spawn l, sl_launch l)"
proof -
  obtain el where "find_last (\<lambda>el. launch_key el = k) ds = Some el" "l = snd el"
    using assms by (auto simp: launch_table_get simp flip: bt_get_mem [OF bt_collect_wf])
  then show ?thesis by (auto simp: find_last_def find_Some_iff launch_key_def)
qed

text \<open>
  A launch is left open exactly when the last record of its run, spawn and ordinal carries no end, and the
  open launches are listed once each, by run, spawn and ordinal.
\<close>

theorem open_launches_exact:
  "set (open_launches P es) =
     {(fst (launch_key el), snd el) |el. is_open (snd el) \<and>
        find_last (\<lambda>el'. launch_key el' = launch_key el) (decoded_launches P es) = Some el} \<and>
   sorted_wrt (<) (map (\<lambda>(run, l). (run, sl_spawn l, sl_launch l)) (open_launches P es))"
proof -
  let ?ds = "decoded_launches P es"
  let ?m = "bt_collect (map (\<lambda>el. (launch_key el, snd el)) ?ds)"
  have mem: "(k, l) \<in> set ?m \<longleftrightarrow> map_option snd (find_last (\<lambda>el. launch_key el = k) ?ds) = Some l" for k l
    by (simp only: launch_table_get bt_get_mem [OF bt_collect_wf, symmetric])
  have shape: "(\<lambda>((run, _, _), record). (run, record)) = (\<lambda>x :: (string \<times> string \<times> u32) \<times> spawn_launched. (fst (fst x), snd x))"
    by (auto simp: fun_eq_iff)
  have key: "launch_key el = k" if "find_last (\<lambda>el. launch_key el = k) ?ds = Some el" for el k
    using that by (auto simp: find_last_def find_Some_iff)
  have "set (open_launches P es) = (\<lambda>x. (fst (fst x), snd x)) ` {x \<in> set ?m. is_open (snd x)}"
    unfolding open_launches_def shape by (simp add: case_prod_unfold)
  also have "\<dots> = {(fst k, l) |k l. is_open l \<and> (k, l) \<in> set ?m}" by force
  also have "\<dots> = {(fst (launch_key el), snd el) |el. is_open (snd el) \<and>
        find_last (\<lambda>el'. launch_key el' = launch_key el) ?ds = Some el}"
    (is "?L = ?R")
  proof (intro equalityI subsetI)
    fix x assume "x \<in> ?L"
    then obtain k l where x: "x = (fst k, l)" "is_open l" "map_option snd (find_last (\<lambda>el. launch_key el = k) ?ds) = Some l"
      unfolding mem by blast
    from x(3) obtain el where el: "find_last (\<lambda>el. launch_key el = k) ?ds = Some el" "snd el = l" by blast
    then show "x \<in> ?R" using x(1,2) key [OF el(1)] by blast
  next
    fix x assume "x \<in> ?R"
    then obtain el where "x = (fst (launch_key el), snd el)" "is_open (snd el)"
      "find_last (\<lambda>el'. launch_key el' = launch_key el) ?ds = Some el" by blast
    then show "x \<in> ?L" unfolding mem by fastforce
  qed
  finally have 1: "set (open_launches P es) = \<dots>" .
  have "map (\<lambda>(run, l). (run, sl_spawn l, sl_launch l)) (open_launches P es) = map fst (filter (\<lambda>(_, l). is_open l) ?m)"
    using launch_table_keyed by (fastforce simp: open_launches_def)
  moreover have "sorted_wrt (<) (map fst (filter (\<lambda>(_, l). is_open l) ?m))"
    using bt_collect_wf [of "map (\<lambda>el. (launch_key el, snd el)) ?ds"]
    by (simp add: bt_wf_def sorted_wrt_map sorted_wrt_filter)
  ultimately show ?thesis using 1 by simp
qed

section \<open>Failure classes\<close>

definition opens_launch :: "progress_codec \<Rightarrow> string \<Rightarrow> event \<Rightarrow> bool" where
  "opens_launch P spawn e \<longleftrightarrow> (case decode_launch P e of Some l \<Rightarrow> sl_spawn l = spawn \<and> is_open l | None \<Rightarrow> False)"

definition stop_class_of :: "progress_codec \<Rightarrow> string \<Rightarrow> event \<Rightarrow> string option" where
  "stop_class_of P spawn e =
     (if ev_type e = TYPE_STOP_FAILURE
      then Option.bind (res_ok (pd_stop P (ev_data e))) (\<lambda>sf. if sf_spawn sf = spawn then Some (sf_class sf) else None)
      else None)"

lemma stop_failure_step_eq:
  "stop_failure_step P spawn found e =
     (if opens_launch P spawn e then None
      else case stop_class_of P spawn e of Some c \<Rightarrow> Some c | None \<Rightarrow> found)"
  by (auto simp: stop_failure_step_def opens_launch_def stop_class_of_def decode_launch_def res_ok_def
      split: option.splits sum.splits if_splits)

text \<open>
  A spawn's failure class is the last one its hook reported after its last launch opened.
\<close>

theorem latest_stop_failure_class_exact:
  "latest_stop_failure_class P es spawn = Some c \<longleftrightarrow>
     (\<exists>pre e post. es = pre @ e # post \<and> stop_class_of P spawn e = Some c \<and> \<not> opens_launch P spawn e \<and>
        list_all (\<lambda>e'. \<not> opens_launch P spawn e' \<and> stop_class_of P spawn e' = None) post)"
proof (induction es rule: rev_induct)
  case (snoc x es)
  have "(\<exists>pre e post. es @ [x] = pre @ e # post \<and> Q e post) \<longleftrightarrow> Q x [] \<or> (\<exists>pre e post. es = pre @ e # post \<and> Q e (post @ [x]))" for Q
    unfolding snoc_split by blast
  then show ?case using snoc
    by (cases "opens_launch P spawn x"; cases "stop_class_of P spawn x")
      (simp_all add: latest_stop_failure_class_def stop_failure_step_eq)
qed (simp add: latest_stop_failure_class_def)


section \<open>Probes\<close>

lemma delay_factor:
  assumes "n < 32"
  shows "uint ((2 :: u32) ^ n) = 2 ^ n"
proof -
  have "(2 :: int) ^ n < 2 ^ 32" using assms by (intro power_strict_increasing) simp_all
  moreover have "(2 :: u32) ^ n = word_of_int (2 ^ n)" by simp
  ultimately show ?thesis by (simp only: uint_word_of_int) (simp add: take_bit_int_def)
qed

text \<open>The delay before a probe is a minute doubled per probe already made, and never more than a quarter of an hour.\<close>

lemma delay_after_eq: "delay_after n = min (FIRST_DELAY * 2 ^ n) MAX_DELAY"
proof (cases "n < 32")
  case True
  then have "(of_nat n :: u32) < 32" "unat (of_nat n :: u32) = n" "n < 2 ^ 32"
    by (simp_all add: word_less_nat_alt unat_of_nat)
  moreover have "(2 :: int) ^ n \<le> 2 ^ 31" using True by (intro power_increasing) simp_all
  ultimately show ?thesis by (simp add: delay_after_def delay_factor [OF True])
next
  case False
  then have big: "(2 :: int) ^ n \<ge> 2 ^ 32" by (intro power_increasing) simp_all
  have "\<not> (if n < 2 ^ 32 then (of_nat n :: u32) else - 1) < 32"
    using False by (auto simp: word_less_nat_alt unat_of_nat unsigned_minus_1_eq_mask mask_eq_exp_minus_1)
  then show ?thesis using big by (simp add: delay_after_def Let_def unsigned_minus_1_eq_mask mask_eq_exp_minus_1)
qed


lemma project_hold: "project D es = Inr s \<Longrightarrow> st_hold s = span_hold (holds D es)"
  using fold_hold_agrees [of D run_state_new es _ "[]"]
  by (auto simp: project_def bind_res_def holds_def span_hold_def run_state_new_def fold_manual_review_inbox_def open_span_def
      split: sum.splits)

lemma foldl_max_Max: "foldl max x xs = Max (insert x (set xs))" for x :: "'a::linorder"
proof (induction xs arbitrary: x)
  case (Cons y xs)
  have "Max (insert (max x y) (set xs)) = Max (insert x (insert y (set xs)))"
    by (cases "xs = []") (simp_all add: max.assoc)
  then show ?case using Cons by simp
qed simp

text \<open>
  C33. A probe is owed only for a hold that stands: the one the run's projection reads, at its latest holding,
  of a cause a probe can lift and not an operator's. Its delay is a minute doubled per probe of the chain,
  at most a quarter of an hour, and it falls due exactly one delay after the latest of the hold's last
  holding and the chain's probes, a stamp ahead of the clock counting as now: never earlier, and never
  later than one delay from now.
\<close>

theorem owed_probe_schedule:
  assumes owed: "owed_probe_at P run_events progress_events now = Some p"
    and run: "project (pd_codec P) run_events = Inr s"
  shows "(\<exists>h. st_hold s = Some h \<and> is_probed h \<and> op_held p = h_latest h \<and> op_revision p = h_revision h) \<and>
    (\<exists>spans probes. decoded_spans P run_events = Some spans \<and>
       probes = probes_made P (hold_chain spans) progress_events \<and>
       op_delay p = min (FIRST_DELAY * 2 ^ length probes) MAX_DELAY \<and>
       op_due p = min (Max (insert (hs_latest_at (fst (last spans))) (set probes))) now + op_delay p)"
proof -
  let ?spans = "holds (pd_codec P) run_events"
  obtain spans opn h behind where c: "decoded_spans P run_events = Some spans" "rev spans = (opn, h) # behind"
    and live: "hs_release opn = None" "is_probed h"
    and p: "op_held p = h_latest h" "op_revision p = h_revision h"
      "op_delay p = delay_after (length (probes_made P (hold_chain spans) progress_events))"
      "op_due p = min (foldl max (hs_latest_at opn) (probes_made P (hold_chain spans) progress_events) + op_delay p) (now + op_delay p)"
    using owed by (auto simp: owed_probe_at_def Let_def split: option.splits list.splits if_splits)
  have spans: "spans = rev behind @ [(opn, h)]" using c(2) by (simp add: rev_swap)
  have "list_all2 (\<lambda>span y. map_option (Pair span) (hs_hold span) = Some y) ?spans (rev behind @ [(opn, h)])"
    using c(1) by (simp only: decoded_spans_def collect_opt_eq spans)
  then have "?spans \<noteq> []" "last ?spans = opn" "hs_hold opn = Some h"
    by (auto simp: list_all2_append2 list_all2_Cons2)
  then have "span_hold ?spans = Some h" using live(1) by (simp add: span_hold_def open_span_def)
  then have "st_hold s = Some h" using project_hold [OF run] by simp
  moreover have "op_due p =
      min (Max (insert (hs_latest_at (fst (last spans))) (set (probes_made P (hold_chain spans) progress_events)))) now + op_delay p"
    by (simp add: p(4) spans foldl_max_Max)
  ultimately show ?thesis using p(1-3) live(2) c(1) by (auto simp: delay_after_eq)
qed

section \<open>The view's latest lines\<close>

lemma latest_progress_get:
  "latest_progress P es i =
     map_option (\<lambda>(e, ap). (ap_activity ap, recorded_at e)) (find_last (\<lambda>(e, ap). ap_id ap = i) (decoded_progress P es))"
proof -
  have "foldl (\<lambda>m (e, ap). m(ap_id ap \<mapsto> (ap_activity ap, recorded_at e))) Map.empty ds i =
      map_option (\<lambda>(e, ap). (ap_activity ap, recorded_at e)) (find_last (\<lambda>(e, ap). ap_id ap = i) ds)"
    for ds :: "(event \<times> agent_progress) list"
    by (induction ds rule: rev_induct) (auto simp: find_last_def)
  then show ?thesis by (simp add: latest_progress_def)
qed

text \<open>
  The per-agent view holds one entry per spawn of the frontier, in its order, each with the last activity
  its spawn reported.
\<close>

theorem consolidate_covers_frontier:
  assumes "consolidate P run_events progress_events ages now = Inr views"
  shows "\<exists>st. step_result (pd_codec P) run_events = Inr st \<and>
    map (\<lambda>v. (aa_id v, aa_unit v)) views = map (\<lambda>w. (wi_id w, wi_unit w)) (wave st) \<and>
    map aa_latest_activity views =
      map (\<lambda>w. map_option (\<lambda>x. ap_activity (snd x))
             (find_last (\<lambda>(e, ap). ap_id ap = wi_id w) (decoded_progress P progress_events))) (wave st)"
  using assms
  by (auto simp: consolidate_def bind_res_def activity_of_def latest_progress_get option.map_comp comp_def case_prod_beta
      split: sum.splits)

section \<open>Witnesses\<close>

definition demo_progress :: progress_codec where
  "demo_progress =
     \<lparr>pd_codec = demo_codec,
      pd_progress = (\<lambda>b. Inr \<lparr>ap_id = HOLD_PROBE_ID, ap_activity = b, ap_revision = Some NO_STREAM\<rparr>),
      pd_launch = (\<lambda>b. Inr \<lparr>sl_spawn = b, sl_launch = 0, sl_session_id = [], sl_resumed_from = None, sl_started = 0,
         sl_ended = None, sl_class = None, sl_revision = None, sl_dir = []\<rparr>),
      pd_stop = (\<lambda>b. Inr \<lparr>sf_spawn = b, sf_class = b\<rparr>)\<rparr>"

definition held_run :: "event list" where
  "held_run = [demo_event TYPE_RUN_STARTED ''r1'', demo_event TYPE_RUN_HELD ''rate_limit'']"

definition two_probes :: "event list" where
  "two_probes = [demo_event TYPE_AGENT_PROGRESS ''first'', demo_event TYPE_AGENT_PROGRESS ''second'']"

lemma held_run_spans:
  "holds demo_codec held_run =
     [\<lparr>hs_hold = Some \<lparr>h_since = 7, h_operator = False, h_latest = \<lparr>rh_cause = ''rate_limit'', rh_detail = '''',
         rh_action = ''log in'', rh_needs_person = True, rh_by = HOLD_BY_HOST, rh_model = ''''\<rparr>, h_revision = NO_STREAM\<rparr>,
       hs_since = 7, hs_first = NO_STREAM, hs_latest_at = 7, hs_release = None\<rparr>]"
  by (simp add: holds_def held_run_def holds_step_def demo_codec_def on_held_def open_span_def res_ok_def)

lemma held_run_probe:
  "map_option op_delay (owed_probe_at demo_progress held_run two_probes 9) = Some (240 * SECOND)"
  by (simp add: owed_probe_at_def decoded_spans_def demo_progress_def held_run_spans hold_chain_def is_probed_def
      probes_made_def decoded_progress_def two_probes_def agent_progress_events_def in_chain_def opt_filter_def
      res_ok_def map_filter_simps delay_after_eq Let_def)

lemma demo_probe_times: "set (probes_made demo_progress chain two_probes) \<subseteq> {7}"
  by (simp add: probes_made_def decoded_progress_def demo_progress_def two_probes_def agent_progress_events_def map_filter_simps
      opt_filter_def res_ok_def)

theorem owed_probe_schedule_witness:
  "\<exists>p. owed_probe_at demo_progress held_run two_probes 9 = Some p \<and> op_delay p = 240 * SECOND
     \<and> op_due p = 7 + op_delay p \<and> rh_cause (op_held p) = ''rate_limit''"
proof -
  obtain p where p: "owed_probe_at demo_progress held_run two_probes 9 = Some p" "op_delay p = 240 * SECOND"
    using held_run_probe by auto
  obtain s where s: "project demo_codec held_run = Inr s"
    by (simp add: project_def held_run_def apply_event_def demo_codec_def on_held_def fold_manual_review_inbox_def run_state_new_def)
  have c: "pd_codec demo_progress = demo_codec" by (simp add: demo_progress_def)
  from owed_probe_schedule [OF p(1), unfolded c, OF s] obtain h spans where h: "st_hold s = Some h" "op_held p = h_latest h"
    and d: "decoded_spans demo_progress held_run = Some spans"
      "op_due p = min (Max (insert (hs_latest_at (fst (last spans))) (set (probes_made demo_progress (hold_chain spans) two_probes)))) 9 + op_delay p"
    by blast
  have "set (probes_made demo_progress chain two_probes) \<subseteq> {7}" for chain by (rule demo_probe_times)
  then have "Max (insert 7 (set (probes_made demo_progress (hold_chain spans) two_probes))) = 7" by (metis insert_absorb2 Max_singleton subset_singletonD)
  moreover have "hs_latest_at (fst (last spans)) = 7"
    using d(1) by (auto simp: decoded_spans_def c held_run_spans)
  ultimately have "op_due p = 7 + op_delay p" using d(2) by simp
  have "rh_cause (h_latest h) = ''rate_limit''"
    using h(1) project_hold [OF s] by (auto simp: held_run_spans span_hold_def open_span_def)
  then show ?thesis using p h(2) \<open>op_due p = 7 + op_delay p\<close> by auto
qed

definition spawned_run :: "event list" where
  "spawned_run = [demo_event TYPE_SPAWN_REQUESTED HOLD_PROBE_ID]"

theorem consolidate_covers_frontier_witness:
  "map_sum id (map (\<lambda>v. (aa_id v, aa_latest_activity v))) (consolidate demo_progress spawned_run two_probes Map.empty 9)
     = Inr [(HOLD_PROBE_ID, Some ''second'')]"
proof -
  have s: "map_sum id (\<lambda>s. map (\<lambda>w. (wi_id w, wi_unit w)) (wave s)) (step_result demo_codec spawned_run) = Inr [(HOLD_PROBE_ID, ''u1'')]"
    by code_simp
  then obtain st where st: "step_result demo_codec spawned_run = Inr st" "map (\<lambda>w. (wi_id w, wi_unit w)) (wave st) = [(HOLD_PROBE_ID, ''u1'')]"
    by (cases "step_result demo_codec spawned_run") auto
  then have "\<exists>views. consolidate demo_progress spawned_run two_probes Map.empty 9 = Inr views"
    by (simp add: consolidate_def demo_progress_def)
  then obtain views where v: "consolidate demo_progress spawned_run two_probes Map.empty 9 = Inr views" by blast
  have "\<exists>w. wave st = [w] \<and> wi_id w = HOLD_PROBE_ID" using st(2) by (auto simp: map_eq_Cons_conv)
  with consolidate_covers_frontier [OF v] st(1) show ?thesis using v
    by (auto simp: demo_progress_def map_eq_Cons_conv decoded_progress_def two_probes_def agent_progress_events_def
        map_filter_simps res_ok_def find_last_def)
qed

end
