(* ===== verification/Watch.thy ===== *)
theory Watch
  imports Demo Blocker Spawn Event_Store "HOL-Library.Product_Lexorder" "HOL-Library.Option_ord"
begin

text \<open>
  The watchdog (\<open>rigger-domain/src/watch.rs\<close>): the order signatures of a log, the fold of a poll's inputs
  into anomalies (\<open>detect\<close>), and the memory by which a streaming watch repeats no standing alert
  (\<open>Dedup\<close>). Signals are ordered as declared; a poll's inputs are a record the caller has gathered.
\<close>

section \<open>Order signatures\<close>

record order_acc =
  oa_stream :: string
  oa_max :: revision
  oa_rows :: nat
  oa_first :: position
  oa_last :: position

definition acc_event :: "event \<Rightarrow> order_acc \<Rightarrow> order_acc" where
  "acc_event e acc =
     (if ev_revision e \<le> oa_max acc
      then acc\<lparr>oa_first := (if oa_rows acc = 0 then ev_position e else oa_first acc),
               oa_last := ev_position e, oa_rows := oa_rows acc + 1\<rparr>
      else acc\<lparr>oa_max := ev_revision e\<rparr>)"

definition fresh_acc :: "string \<Rightarrow> order_acc" where
  "fresh_acc stream = \<lparr>oa_stream = stream, oa_max = NO_STREAM, oa_rows = 0, oa_first = 0, oa_last = 0\<rparr>"

definition order_step :: "order_acc list \<Rightarrow> event \<Rightarrow> order_acc list" where
  "order_step accs e =
     map (\<lambda>acc. if oa_stream acc = ev_stream e then acc_event e acc else acc)
       (if list_ex (\<lambda>acc. oa_stream acc = ev_stream e) accs then accs else accs @ [fresh_acc (ev_stream e)])"

definition order_signatures :: "event list \<Rightarrow> order_acc list" where
  "order_signatures es = filter (\<lambda>acc. 0 < oa_rows acc) (foldl order_step [] es)"

section \<open>Anomalies\<close>

datatype signal =
    SigEscalated | SigSpecDefect | SigDeadDriver | SigDashNotServing | SigRejectRecurrence
  | SigFrontierStall | SigStoreIntegrity | SigCiRed

primrec signal_rank :: "signal \<Rightarrow> nat" where
  "signal_rank SigEscalated = 0"
| "signal_rank SigSpecDefect = 1"
| "signal_rank SigDeadDriver = 2"
| "signal_rank SigDashNotServing = 3"
| "signal_rank SigRejectRecurrence = 4"
| "signal_rank SigFrontierStall = 5"
| "signal_rank SigStoreIntegrity = 6"
| "signal_rank SigCiRed = 7"

lemma signal_rank_inject [simp]: "signal_rank a = signal_rank b \<longleftrightarrow> a = b"
  by (cases a; cases b) simp_all

instantiation signal :: linorder
begin

definition less_eq_signal :: "signal \<Rightarrow> signal \<Rightarrow> bool" where
  "less_eq_signal a b \<longleftrightarrow> signal_rank a \<le> signal_rank b"

definition less_signal :: "signal \<Rightarrow> signal \<Rightarrow> bool" where
  "less_signal a b \<longleftrightarrow> signal_rank a < signal_rank b"

instance
  by standard (auto simp: less_eq_signal_def less_signal_def)

end

record anomaly =
  an_signal :: signal
  an_subject :: string
  an_magnitude :: u32
  an_detail :: string

definition anomaly_key :: "anomaly \<Rightarrow> signal \<times> string" where
  "anomaly_key a = (an_signal a, an_subject a)"

fun signal_name :: "signal \<Rightarrow> string" where
  "signal_name SigEscalated = ''escalated blockers''"
| "signal_name SigSpecDefect = ''spec defect''"
| "signal_name SigDeadDriver = ''heartbeat staleness''"
| "signal_name SigDashNotServing = ''dash liveness''"
| "signal_name SigRejectRecurrence = ''reject-recurrence trend''"
| "signal_name SigFrontierStall = ''frontier progress''"
| "signal_name SigStoreIntegrity = ''store integrity''"
| "signal_name SigCiRed = ''ci checks''"

fun signal_response :: "signal \<Rightarrow> string" where
  "signal_response SigEscalated = ''rigger-handle-an-escalation''"
| "signal_response SigSpecDefect = ''amend the spec and relaunch''"
| "signal_response SigDeadDriver = ''rigger-resume-a-run''"
| "signal_response SigDashNotServing = ''rigger-restore-the-dash''"
| "signal_response SigRejectRecurrence = ''rigger-diagnose-churn''"
| "signal_response SigFrontierStall = ''stop the driver and diagnose before another round spends''"
| "signal_response SigStoreIntegrity = ''docs/architecture.md, section 5.1.3: The store defends its own order''"
| "signal_response SigCiRed = ''read the failed logs with gh run view --log-failed and fix at root before the next landing''"

definition anomaly_line :: "anomaly \<Rightarrow> string" where
  "anomaly_line a =
     signal_name (an_signal a) @ '': '' @ an_subject a @ '' - '' @ an_detail a @ '' (respond: '' @ signal_response (an_signal a) @ '')''"

datatype dash_probe =
    NotRecorded
  | Serving
  | NotServing (dp_pid: "u32 option") (dp_port: "16 word")
  | Unresponsive "u32 option" "16 word" u64
  | ProbeFailed "u32 option" "16 word" string

datatype ci_probe = NoRunTip | Unpushed | CiUnknown string | CiPending | CiGreen | CiRed string "string list"

record watch_inputs =
  wi_run_events :: "event list"
  wi_now :: sys_time
  wi_last_event_at :: "sys_time option"
  wi_step_lock_free :: bool
  wi_wave_liveness_ages :: "(string, u64) btree"
  wi_dash :: dash_probe
  wi_run_started_at :: "sys_time option"
  wi_dash_breadcrumb_written_at :: "sys_time option"
  wi_dash_attempted_this_run :: bool
  wi_ci :: ci_probe

text \<open>The watch reads of a failure its unit and its cause, absent for a failure recorded before causes.\<close>

record watch_codec =
  wc_codec :: codec
  wc_failed_cause :: "bytes \<Rightarrow> json_error + string \<times> string"

definition streak_step :: "watch_codec \<Rightarrow> string \<Rightarrow> string \<times> u32 \<Rightarrow> event \<Rightarrow> string \<times> u32" where
  "streak_step W uid cs e =
     (if ev_type e \<noteq> TYPE_UNIT_FAILED then cs
      else case wc_failed_cause W (ev_data e) of
             Inl _ \<Rightarrow> cs
           | Inr (i, cause) \<Rightarrow>
               if i \<noteq> uid then cs
               else (let this = (if cause = [] then ''unknown'' else cause)
                     in if 0 < snd cs \<and> this = fst cs then (fst cs, snd cs + 1) else (this, 1)))"

definition reject_recurrence_streak :: "watch_codec \<Rightarrow> event list \<Rightarrow> string \<Rightarrow> string \<times> u32" where
  "reject_recurrence_streak W es uid = foldl (streak_step W uid) ([], 0) es"

definition count_result :: "codec \<Rightarrow> (string, u32) btree \<Rightarrow> event \<Rightarrow> (string, u32) btree" where
  "count_result D m e =
     (if ev_type e = TYPE_SPAWN_RESULT
      then (case result_from_event D e of
              Inr r \<Rightarrow> bt_insert (sr_id r) (unwrap_or 0 (bt_get m (sr_id r)) + 1) m
            | Inl _ \<Rightarrow> m)
      else m)"

definition spawn_result_counts :: "codec \<Rightarrow> event list \<Rightarrow> (string, u32) btree" where
  "spawn_result_counts D es = foldl (count_result D) [] es"

abbreviation "FRONTIER_STALL_THRESHOLD \<equiv> (3 :: u32)"
abbreviation "DEAD_DRIVER_QUIET_BOUND \<equiv> 3600 * 1000000000 :: int"
abbreviation "DEAD_DRIVER_HEARTBEAT_BOUND \<equiv> 1800 * 1000000000 :: int"

definition show_pid :: "u32 option \<Rightarrow> string" where
  "show_pid pid = (case pid of Some p \<Rightarrow> '' (pid '' @ show_u32 p @ '')'' | None \<Rightarrow> [])"

definition dash_anomaly_detail :: "dash_probe \<Rightarrow> string option" where
  "dash_anomaly_detail probe =
     (case probe of
        NotRecorded \<Rightarrow> None
      | Serving \<Rightarrow> None
      | Unresponsive pid port window_ms \<Rightarrow>
          Some (''dash on port '' @ show_nat (unat port) @ show_pid pid @ '' did not answer within ''
                @ show_u64 window_ms @ ''ms - busy, not dead'')
      | ProbeFailed pid port err \<Rightarrow>
          Some (''dash on port '' @ show_nat (unat port) @ show_pid pid @ '' could not be probed: '' @ err @ '' - unknown, not dead'')
      | NotServing (Some pid) port \<Rightarrow> Some (''marker names dead pid '' @ show_u32 pid @ '' on port '' @ show_nat (unat port))
      | NotServing None port \<Rightarrow>
          Some (''recorded dash.url port '' @ show_nat (unat port) @ '' does not answer (no matching marker, no pid)''))"

definition anomaly_of :: "signal \<Rightarrow> string \<Rightarrow> u32 \<Rightarrow> string \<Rightarrow> anomaly" where
  "anomaly_of s subject magnitude detail =
     \<lparr>an_signal = s, an_subject = subject, an_magnitude = magnitude, an_detail = detail\<rparr>"

section \<open>The signals\<close>

definition detect_escalated :: "run_state \<Rightarrow> anomaly list" where
  "detect_escalated run =
     List.map_filter (\<lambda>(i, u).
       if u_status u = Escalated
       then Some (case unit_spec_defect_reason u of
                    Some reason \<Rightarrow> anomaly_of SigSpecDefect i 0 reason
                  | None \<Rightarrow> anomaly_of SigEscalated i 0 ''escalated - awaiting a human'')
       else None) (st_units run)"

definition detect_recurrence :: "watch_codec \<Rightarrow> event list \<Rightarrow> run_state \<Rightarrow> anomaly list" where
  "detect_recurrence W es run =
     List.map_filter (\<lambda>(i, u).
       if u_status u \<noteq> Failed then None
       else (case reject_recurrence_streak W es i of
               (cause, streak) \<Rightarrow>
                 if REJECT_RECURRENCE_DIAGNOSE_THRESHOLD \<le> streak
                 then Some (anomaly_of SigRejectRecurrence i streak
                        (''reject-recurrence #'' @ show_u32 streak @ '' (cause: '' @ cause @ '')''))
                 else None)) (st_units run)"

definition detect_stall :: "codec \<Rightarrow> event list \<Rightarrow> anomaly list" where
  "detect_stall D es =
     List.map_filter (\<lambda>(i, count).
       if FRONTIER_STALL_THRESHOLD \<le> count
       then Some (anomaly_of SigFrontierStall i count (show_u32 count @ '' recorded results without the run advancing''))
       else None) (spawn_result_counts D es)"

definition driver_dead :: "watch_inputs \<Rightarrow> bool" where
  "driver_dead w \<longleftrightarrow>
     (case wi_last_event_at w of None \<Rightarrow> False | Some t \<Rightarrow> t \<le> wi_now w \<and> DEAD_DRIVER_QUIET_BOUND \<le> wi_now w - t) \<and>
     wi_step_lock_free w \<and>
     list_all (\<lambda>age. DEAD_DRIVER_HEARTBEAT_BOUND < uint age * 1000000000) (bt_values (wi_wave_liveness_ages w))"

definition detect_driver :: "watch_inputs \<Rightarrow> run_state \<Rightarrow> anomaly list" where
  "detect_driver w run =
     (if \<not> run_done run \<and> driver_dead w
      then [anomaly_of SigDeadDriver ''run'' 0
              ''store quiet an hour, no step or run holds the step lock, every heartbeat stale past 30m'']
      else [])"

definition breadcrumb_predates :: "watch_inputs \<Rightarrow> bool" where
  "breadcrumb_predates w \<longleftrightarrow>
     \<not> wi_dash_attempted_this_run w \<and>
     (case (wi_dash_breadcrumb_written_at w, wi_run_started_at w) of
        (Some w0, Some s0) \<Rightarrow> w0 < s0 | _ \<Rightarrow> False)"

definition detect_dash :: "watch_inputs \<Rightarrow> run_state \<Rightarrow> anomaly list" where
  "detect_dash w run =
     (if run_done run then []
      else case dash_anomaly_detail (wi_dash w) of
             None \<Rightarrow> []
           | Some detail \<Rightarrow> if breadcrumb_predates w then [] else [anomaly_of SigDashNotServing ''dash'' 0 detail])"

definition detect_ci :: "watch_inputs \<Rightarrow> anomaly list" where
  "detect_ci w =
     (case wi_ci w of
        CiRed sha checks \<Rightarrow>
          [anomaly_of SigCiRed sha (of_nat (length checks))
             (show_nat (length checks) @ '' check(s) failed on the run tip: '' @ join '', '' checks)]
      | _ \<Rightarrow> [])"

definition detect_disorder :: "event list \<Rightarrow> anomaly list" where
  "detect_disorder es =
     map (\<lambda>s. anomaly_of SigStoreIntegrity (oa_stream s) (of_nat (oa_rows s))
            (show_nat (oa_rows s) @ '' row(s) where position order and revision order disagree'')) (order_signatures es)"

definition detect :: "watch_codec \<Rightarrow> watch_inputs \<Rightarrow> anomaly list" where
  "detect W w =
     (let es = wi_run_events w;
          run = (case project (wc_codec W) es of Inr run \<Rightarrow> run | Inl _ \<Rightarrow> run_state_new)
      in sort_key anomaly_key
           (detect_escalated run @ detect_recurrence W es run @ detect_stall (wc_codec W) es @
            detect_driver w run @ detect_dash w run @ detect_ci w @ detect_disorder es))"

section \<open>Alerts\<close>

type_synonym dedup = "(signal \<times> string, u32) btree"

definition dedup_step :: "dedup \<Rightarrow> anomaly list \<Rightarrow> anomaly list \<times> dedup" where
  "dedup_step seen current =
     (filter (\<lambda>a. bt_get seen (anomaly_key a) \<noteq> Some (an_magnitude a)) current,
      foldl (\<lambda>m a. bt_insert (anomaly_key a) (an_magnitude a) m) [] current)"


section \<open>The order signatures of a log\<close>

text \<open>The rows of a stream that do not exceed every revision the stream has before them.\<close>

definition disordered :: "event list \<Rightarrow> string \<Rightarrow> nat set" where
  "disordered es s =
     {i. i < length es \<and> ev_stream (es ! i) = s \<and>
        (ev_revision (es ! i) \<le> NO_STREAM \<or>
         (\<exists>j < i. ev_stream (es ! j) = s \<and> ev_revision (es ! i) \<le> ev_revision (es ! j)))}"

definition signature_of :: "event list \<Rightarrow> string \<Rightarrow> order_acc \<Rightarrow> bool" where
  "signature_of es s acc \<longleftrightarrow>
     oa_stream acc = s \<and> oa_rows acc = card (disordered es s) \<and>
     (disordered es s \<noteq> {} \<longrightarrow>
        oa_first acc = ev_position (es ! Min (disordered es s)) \<and>
        oa_last acc = ev_position (es ! Max (disordered es s)))"

definition running_max :: "event list \<Rightarrow> string \<Rightarrow> revision" where
  "running_max es s = Max (insert NO_STREAM (ev_revision ` {e \<in> set es. ev_stream e = s}))"

lemma running_max_le:
  "r \<le> running_max es s \<longleftrightarrow> r \<le> NO_STREAM \<or> (\<exists>j < length es. ev_stream (es ! j) = s \<and> r \<le> ev_revision (es ! j))"
proof -
  have "(\<exists>x \<in> {e \<in> set es. ev_stream e = s}. r \<le> ev_revision x) \<longleftrightarrow>
    (\<exists>j < length es. ev_stream (es ! j) = s \<and> r \<le> ev_revision (es ! j))"
    unfolding Bex_def mem_Collect_eq in_set_conv_nth by blast
  then show ?thesis by (simp add: running_max_def Max_ge_iff)
qed

lemma running_max_snoc:
  "running_max (es @ [e]) s = (if ev_stream e = s then max (running_max es s) (ev_revision e) else running_max es s)"
proof -
  have "insert NO_STREAM (ev_revision ` {x \<in> set (es @ [e]). ev_stream x = s}) =
    (if ev_stream e = s then insert (ev_revision e) else id) (insert NO_STREAM (ev_revision ` {x \<in> set es. ev_stream x = s}))"
    by auto
  then show ?thesis by (simp add: running_max_def max.commute)
qed

lemma disordered_finite [simp]: "finite (disordered es s)"
  by (simp add: disordered_def)

lemma disordered_below: "i \<in> disordered es s \<Longrightarrow> i < length es"
  by (simp add: disordered_def)

lemma disordered_extremes:
  assumes "disordered es s \<noteq> {}" shows "Min (disordered es s) < length es" "Max (disordered es s) < length es"
  using disordered_below [OF Min_in [OF disordered_finite assms]]
    disordered_below [OF Max_in [OF disordered_finite assms]] by blast+

lemma disordered_snoc:
  "disordered (es @ [e]) s =
     (if ev_stream e = s \<and> ev_revision e \<le> running_max es s then insert (length es) (disordered es s) else disordered es s)"
proof -
  have old: "i \<in> disordered (es @ [e]) s \<longleftrightarrow> i \<in> disordered es s" if "i < length es" for i
  proof -
    have "(es @ [e]) ! j = es ! j" if "j \<le> i" for j using that \<open>i < length es\<close> by (simp add: nth_append)
    then show ?thesis using that unfolding disordered_def mem_Collect_eq by (simp cong: conj_cong)
  qed
  have new: "length es \<in> disordered (es @ [e]) s \<longleftrightarrow> ev_stream e = s \<and> ev_revision e \<le> running_max es s"
    unfolding disordered_def running_max_le mem_Collect_eq by (simp add: nth_append cong: conj_cong)
  have "i \<le> length es" if "i \<in> disordered (es @ [e]) s" for i using disordered_below [OF that] by simp
  moreover have "length es \<notin> disordered es s" using disordered_below by blast
  ultimately show ?thesis using old new disordered_below [of _ es s]
    by (intro set_eqI) (metis (no_types, lifting) insert_iff le_neq_implies_less)
qed

lemma signature_of_other:
  assumes "ev_stream e \<noteq> s" "signature_of es s acc"
  shows "signature_of (es @ [e]) s acc"
  using assms disordered_extremes [of es s] by (auto simp: signature_of_def disordered_snoc nth_append)

lemma signature_of_step:
  assumes "signature_of es (ev_stream e) acc" "oa_max acc = running_max es (ev_stream e)"
  shows "signature_of (es @ [e]) (ev_stream e) (acc_event e acc)"
proof -
  let ?D = "disordered es (ev_stream e)"
  have below: "i < length es" if "i \<in> ?D" for i using that by (rule disordered_below)
  show ?thesis
  proof (cases "ev_revision e \<le> oa_max acc")
    case False
    then show ?thesis using assms disordered_extremes [of es "ev_stream e"]
      by (auto simp: signature_of_def acc_event_def disordered_snoc nth_append)
  next
    case True
    have D: "disordered (es @ [e]) (ev_stream e) = insert (length es) ?D" using True assms(2) by (simp add: disordered_snoc)
    have "Max (insert (length es) ?D) = length es" using below by (intro Max_eqI) (auto simp: less_imp_le)
    moreover have "Min (insert (length es) ?D) = (if ?D = {} then length es else Min ?D)"
      using disordered_extremes(1) [of es "ev_stream e"] Min_insert [OF disordered_finite, of es "ev_stream e" "length es"]
      by (auto simp: min.absorb2)
    moreover have "length es \<notin> ?D" using below by blast
    moreover have "Min ?D < length es" if "?D \<noteq> {}" using that by (rule disordered_extremes)
    ultimately show ?thesis
      using True assms unfolding signature_of_def acc_event_def D
      by (auto simp: nth_append card_gt_0_iff)
  qed
qed

lemma order_fold:
  "distinct (map oa_stream (foldl order_step [] es)) \<and>
   set (map oa_stream (foldl order_step [] es)) = ev_stream ` set es \<and>
   (\<forall>acc \<in> set (foldl order_step [] es). signature_of es (oa_stream acc) acc \<and> oa_max acc = running_max es (oa_stream acc))"
proof (induction es rule: rev_induct)
  case Nil
  show ?case by simp
next
  case (snoc e es)
  let ?A = "foldl order_step [] es"
  let ?B = "if list_ex (\<lambda>acc. oa_stream acc = ev_stream e) ?A then ?A else ?A @ [fresh_acc (ev_stream e)]"
  let ?s = "ev_stream e"
  have known: "list_ex (\<lambda>acc. oa_stream acc = ?s) ?A \<longleftrightarrow> ?s \<in> set (map oa_stream ?A)" by (force simp: list_ex_iff)
  have dis: "distinct (map oa_stream ?B)"
    using snoc by (cases "?s \<in> set (map oa_stream ?A)") (simp_all add: known fresh_acc_def)
  have str: "set (map oa_stream ?B) = ev_stream ` set (es @ [e])"
  proof (cases "?s \<in> set (map oa_stream ?A)")
    case True
    then have "insert ?s (set (map oa_stream ?A)) = set (map oa_stream ?A)" by (rule insert_absorb)
    then show ?thesis using True snoc unfolding known by simp
  qed (use snoc in \<open>simp add: known fresh_acc_def\<close>)
  have fresh: "signature_of es ?s (fresh_acc ?s) \<and> oa_max (fresh_acc ?s) = running_max es ?s" if "?s \<notin> ev_stream ` set es"
  proof -
    have "ev_stream (es ! i) \<noteq> ?s" if "i < length es" for i
      using \<open>?s \<notin> ev_stream ` set es\<close> nth_mem [OF that] by (metis imageI)
    then have "disordered es ?s = {}" unfolding disordered_def by blast
    moreover have "{x \<in> set es. ev_stream x = ?s} = {}"
      unfolding Collect_empty_eq using that by (metis imageI)
    ultimately show ?thesis by (simp only: signature_of_def fresh_acc_def running_max_def) simp
  qed
  have inv: "signature_of es (oa_stream acc) acc \<and> oa_max acc = running_max es (oa_stream acc)" if "acc \<in> set ?B" for acc
  proof (cases "acc \<in> set ?A")
    case False
    then have "acc = fresh_acc ?s" and "?s \<notin> ev_stream ` set es" using that snoc by (auto simp: known split: if_splits)
    moreover have "oa_stream (fresh_acc ?s) = ?s" by (simp add: fresh_acc_def)
    ultimately show ?thesis using fresh by metis
  qed (use snoc in blast)
  have stream: "oa_stream (acc_event e acc) = oa_stream acc" for acc by (simp add: acc_event_def)
  have mx: "oa_max (acc_event e acc) = max (oa_max acc) (ev_revision e)" for acc by (simp add: acc_event_def)
  have other: "signature_of (es @ [e]) (oa_stream acc) acc \<and> oa_max acc = running_max (es @ [e]) (oa_stream acc)"
    if "acc \<in> set ?B" "oa_stream acc \<noteq> ?s" for acc
    using inv [OF that(1)] that(2) signature_of_other by (auto simp: running_max_snoc)
  have same: "signature_of (es @ [e]) ?s (acc_event e acc) \<and> oa_max (acc_event e acc) = running_max (es @ [e]) ?s"
    if "acc \<in> set ?B" "oa_stream acc = ?s" for acc
    using inv [OF that(1)] that(2) signature_of_step by (auto simp: running_max_snoc mx)
  let ?f = "\<lambda>acc. if oa_stream acc = ?s then acc_event e acc else acc"
  have step: "foldl order_step [] (es @ [e]) = map ?f ?B" by (simp add: order_step_def)
  have same_streams: "map oa_stream (map ?f ?B) = map oa_stream ?B" by (simp add: stream)
  show ?case unfolding step same_streams
  proof (intro conjI ballI)
    fix acc assume "acc \<in> set (map ?f ?B)"
    then obtain b where b: "b \<in> set ?B" "acc = ?f b" unfolding set_map by blast
    then show "signature_of (es @ [e]) (oa_stream acc) acc" "oa_max acc = running_max (es @ [e]) (oa_stream acc)"
      using other [OF b(1)] same [OF b(1)] stream by (cases "oa_stream b = ?s"; simp)+
  qed (fact dis str)+
qed


lemma order_signatures_distinct: "distinct (map oa_stream (order_signatures es))"
  using order_fold [of es] by (simp add: order_signatures_def distinct_map_filter)

text \<open>
  The order signatures of a log name exactly the streams with a row out of order, once each: the number of
  rows that do not exceed every revision their stream has before them, and the positions of the first and
  the last of these.
\<close>

theorem order_signatures_exact:
  "distinct (map oa_stream (order_signatures es)) \<and>
   {(oa_stream a, oa_rows a, oa_first a, oa_last a) |a. a \<in> set (order_signatures es)} =
     {(s, card (disordered es s), ev_position (es ! Min (disordered es s)), ev_position (es ! Max (disordered es s))) |s.
        disordered es s \<noteq> {}}"
proof -
  let ?A = "foldl order_step [] es"
  have sig: "signature_of es (oa_stream a) a" if "a \<in> set ?A" for a using that order_fold by blast
  have rows: "0 < oa_rows a \<longleftrightarrow> disordered es (oa_stream a) \<noteq> {}" if "a \<in> set ?A" for a
    using sig [OF that] by (simp add: signature_of_def card_gt_0_iff)
  have "(\<exists>a \<in> set (order_signatures es). t = (oa_stream a, oa_rows a, oa_first a, oa_last a)) \<longleftrightarrow>
     (\<exists>s. disordered es s \<noteq> {} \<and>
        t = (s, card (disordered es s), ev_position (es ! Min (disordered es s)), ev_position (es ! Max (disordered es s))))"
    (is "?l \<longleftrightarrow> ?r") for t
  proof
    assume ?l
    then show ?r using sig rows by (auto simp: order_signatures_def signature_of_def)
  next
    assume ?r
    then obtain s where s: "disordered es s \<noteq> {}" and t:
      "t = (s, card (disordered es s), ev_position (es ! Min (disordered es s)), ev_position (es ! Max (disordered es s)))"
      by blast
    from s have "s \<in> ev_stream ` set es" by (auto simp: disordered_def)
    then have "s \<in> set (map oa_stream ?A)" using order_fold [of es] by blast
    then obtain a where a: "a \<in> set ?A" "oa_stream a = s" by auto
    then show ?l using sig [OF a(1)] rows [OF a(1)] s t by (auto simp: order_signatures_def signature_of_def)
  qed
  then show ?thesis using order_signatures_distinct by blast
qed

section \<open>One alert per signal and subject\<close>

lemma map_filter_keys:
  assumes "distinct (map fst kvs)" "\<And>k v a. f (k, v) = Some a \<Longrightarrow> g a = k"
  shows "distinct (map g (List.map_filter f kvs)) \<and> set (map g (List.map_filter f kvs)) \<subseteq> fst ` set kvs"
  using assms(1)
proof (induction kvs)
  case (Cons kv kvs)
  then show ?case using assms(2) [of "fst kv" "snd kv"]
    by (auto simp: List.map_filter_simps split: option.splits)
qed (simp add: List.map_filter_simps)

lemma run_units_distinct:
  "distinct (map fst (st_units (case project D es of Inr run \<Rightarrow> run | Inl _ \<Rightarrow> run_state_new)))"
proof (cases "project D es")
  case (Inr s)
  then obtain r where r: "fold_res (apply_event D) run_state_new es = Inr r" and s: "s = fold_manual_review_inbox D es r"
    by (auto simp: project_def bind_res_def split: sum.splits)
  have "ledger_wf s" unfolding s ledger_wf_inbox by (rule fold_apply_wf [OF r ledger_wf_new])
  then show ?thesis using Inr by (simp add: ledger_wf_def bt_wf_def strict_sorted_iff)
qed (simp add: run_state_new_def)

lemma bt_wf_distinct: "bt_wf m \<Longrightarrow> distinct (map fst m)"
  by (simp add: bt_wf_def strict_sorted_iff)

lemma spawn_result_counts_wf: "bt_wf (spawn_result_counts D es)"
  unfolding spawn_result_counts_def
  by (induction es rule: rev_induct) (auto simp: count_result_def bt_wf_insert split: sum.split)

lemma distinct_keys_tagged:
  assumes "distinct (map an_subject as1)" "\<And>a. a \<in> set as1 \<Longrightarrow> an_signal a \<in> S"
    "distinct (map anomaly_key as2)" "\<And>a. a \<in> set as2 \<Longrightarrow> an_signal a \<notin> S"
  shows "distinct (map anomaly_key (as1 @ as2))"
proof -
  have "distinct (map snd (map anomaly_key as1))" using assms(1) by (simp add: anomaly_key_def comp_def)
  then have "distinct (map anomaly_key as1)" by (simp only: distinct_map)
  moreover
  have "anomaly_key a \<noteq> anomaly_key b" if "a \<in> set as1" "b \<in> set as2" for a b
    using assms(2) [OF that(1)] assms(4) [OF that(2)] by (auto simp: anomaly_key_def)
  then have "set (map anomaly_key as1) \<inter> set (map anomaly_key as2) = {}" by fastforce
  ultimately show ?thesis using assms(3) by (simp only: map_append distinct_append simp_thms)
qed

lemma map_filter_signal:
  "(\<And>x a. f x = Some a \<Longrightarrow> an_signal a \<in> S) \<Longrightarrow> a \<in> set (List.map_filter f xs) \<Longrightarrow> an_signal a \<in> S"
  by (auto simp: List.map_filter_def)


lemma distinct_map_sort: "distinct (map f (sort_key g xs)) \<longleftrightarrow> distinct (map f xs)"
  by (simp add: distinct_map)

lemma detect_distinct: "distinct (map anomaly_key (detect W w))"
proof -
  let ?es = "wi_run_events w"
  let ?run = "case project (wc_codec W) ?es of Inr run \<Rightarrow> run | Inl _ \<Rightarrow> run_state_new"
  note keys = map_filter_keys [where g = an_subject]
  let ?esc = "detect_escalated ?run" and ?rec = "detect_recurrence W ?es ?run" and ?stall = "detect_stall (wc_codec W) ?es"
  let ?drv = "detect_driver w ?run" and ?dash = "detect_dash w ?run" and ?ci = "detect_ci w" and ?dis = "detect_disorder ?es"
  have esc: "distinct (map an_subject ?esc)" unfolding detect_escalated_def
    by (rule conjunct1 [OF keys [OF run_units_distinct]]) (auto simp: anomaly_of_def split: if_splits option.splits)
  have rc: "distinct (map an_subject ?rec)" unfolding detect_recurrence_def
    by (rule conjunct1 [OF keys [OF run_units_distinct]]) (auto simp: anomaly_of_def split: if_splits prod.splits)
  have stall: "distinct (map an_subject ?stall)" unfolding detect_stall_def
    by (rule conjunct1 [OF keys [OF bt_wf_distinct [OF spawn_result_counts_wf]]]) (auto simp: anomaly_of_def split: if_splits)
  have ci: "distinct (map an_subject ?ci)" by (simp add: detect_ci_def split: ci_probe.split)
  have drv: "distinct (map an_subject ?drv)" by (simp add: detect_driver_def)
  have dash: "distinct (map an_subject ?dash)" by (simp add: detect_dash_def split: option.split)
  have dis: "distinct (map an_subject ?dis)"
    using order_signatures_distinct [of ?es] by (simp add: detect_disorder_def anomaly_of_def comp_def)
  have sig: "an_signal a \<in> {SigEscalated, SigSpecDefect}" if "a \<in> set ?esc" for a
    using that unfolding detect_escalated_def
    by (rule map_filter_signal [rotated]) (auto simp: anomaly_of_def split: if_splits option.splits)
  have sig_rec: "an_signal a \<in> {SigRejectRecurrence}" if "a \<in> set ?rec" for a
    using that unfolding detect_recurrence_def
    by (rule map_filter_signal [rotated]) (auto simp: anomaly_of_def split: if_splits prod.splits)
  have sig_stall: "an_signal a \<in> {SigFrontierStall}" if "a \<in> set ?stall" for a
    using that unfolding detect_stall_def
    by (rule map_filter_signal [rotated]) (auto simp: anomaly_of_def split: if_splits)
  have sig_drv: "an_signal a \<in> {SigDeadDriver}" if "a \<in> set ?drv" for a
    using that by (auto simp: detect_driver_def anomaly_of_def split: if_splits)
  have sig_dash: "an_signal a \<in> {SigDashNotServing}" if "a \<in> set ?dash" for a
    using that by (auto simp: detect_dash_def anomaly_of_def split: if_splits option.splits)
  have sig_ci: "an_signal a \<in> {SigCiRed}" if "a \<in> set ?ci" for a
    using that by (auto simp: detect_ci_def anomaly_of_def split: ci_probe.splits)
  have sig_dis: "an_signal a \<in> {SigStoreIntegrity}" if "a \<in> set ?dis" for a
    using that by (auto simp: detect_disorder_def anomaly_of_def)
  have 7: "distinct (map anomaly_key (?dis @ []))"
    by (rule distinct_keys_tagged [OF dis sig_dis]) auto
  have 6: "distinct (map anomaly_key (?ci @ ?dis))"
    by (rule distinct_keys_tagged [OF ci sig_ci]) (use 7 sig_dis in auto)
  have 5: "distinct (map anomaly_key (?dash @ ?ci @ ?dis))"
    by (rule distinct_keys_tagged [OF dash sig_dash]) (use 6 sig_ci sig_dis in auto)
  have 4: "distinct (map anomaly_key (?drv @ ?dash @ ?ci @ ?dis))"
    by (rule distinct_keys_tagged [OF drv sig_drv]) (use 5 sig_dash sig_ci sig_dis in auto)
  have 3: "distinct (map anomaly_key (?stall @ ?drv @ ?dash @ ?ci @ ?dis))"
    by (rule distinct_keys_tagged [OF stall sig_stall]) (use 4 sig_drv sig_dash sig_ci sig_dis in auto)
  have 2: "distinct (map anomaly_key (?rec @ ?stall @ ?drv @ ?dash @ ?ci @ ?dis))"
    by (rule distinct_keys_tagged [OF rc sig_rec]) (use 3 sig_stall sig_drv sig_dash sig_ci sig_dis in auto)
  have 1: "distinct (map anomaly_key (?esc @ ?rec @ ?stall @ ?drv @ ?dash @ ?ci @ ?dis))"
    by (rule distinct_keys_tagged [OF esc sig]) (use 2 sig_rec sig_stall sig_drv sig_dash sig_ci sig_dis in auto)
  show ?thesis unfolding detect_def Let_def distinct_map_sort by (rule 1)
qed


text \<open>
  A poll reports its anomalies by signal, in the declared order, then by subject, and no signal reports a
  subject twice.
\<close>

theorem detect_strictly_ordered: "sorted_wrt (<) (map anomaly_key (detect W w))"
  using detect_distinct [of W w] unfolding detect_def Let_def
  by (simp add: strict_sorted_iff)

lemma dedup_memory:
  "distinct (map anomaly_key as1) \<Longrightarrow>
     bt_get (snd (dedup_step seen as1)) k = map_option an_magnitude (find (\<lambda>a. anomaly_key a = k) as1)"
proof (induction as1 rule: rev_induct)
  case (snoc a as1)
  have "find (\<lambda>a. anomaly_key a = k) (as1 @ [a]) =
      (if anomaly_key a = k then Some a else find (\<lambda>a. anomaly_key a = k) as1)"
  proof (cases "anomaly_key a = k")
    case True
    then have "find (\<lambda>a. anomaly_key a = k) as1 = None" using snoc.prems unfolding find_None_iff
      by (auto simp: image_iff)
    then show ?thesis using True by (simp add: find_append)
  qed (simp add: find_append split: option.split)
  moreover have "bt_get (foldl (\<lambda>m a. bt_insert (anomaly_key a) (an_magnitude a) m) [] as1) k =
      map_option an_magnitude (find (\<lambda>a. anomaly_key a = k) as1)"
    using snoc by (simp add: dedup_step_def)
  ultimately show ?case by (simp add: dedup_step_def bt_get_insert)
qed (simp add: dedup_step_def bt_get_def)

lemma alerts_changed:
  "fst (dedup_step (snd (dedup_step seen (detect W w1))) (detect W w2)) =
     filter (\<lambda>a. \<nexists>b. b \<in> set (detect W w1) \<and> anomaly_key b = anomaly_key a \<and> an_magnitude b = an_magnitude a)
       (detect W w2)"
proof -
  have "bt_get (snd (dedup_step seen (detect W w1))) (anomaly_key a) = Some (an_magnitude a) \<longleftrightarrow>
      (\<exists>b \<in> set (detect W w1). anomaly_key b = anomaly_key a \<and> an_magnitude b = an_magnitude a)" (is "?l \<longleftrightarrow> ?r") for a
  proof
    assume ?l
    then show ?r by (auto simp: dedup_memory [OF detect_distinct] find_Some_iff)
  next
    assume ?r
    then obtain b where b: "b \<in> set (detect W w1)" "anomaly_key b = anomaly_key a" "an_magnitude b = an_magnitude a" by blast
    then obtain c where c: "find (\<lambda>x. anomaly_key x = anomaly_key a) (detect W w1) = Some c"
      by (metis (mono_tags, lifting) find_None_iff option.exhaust)
    then have "c \<in> set (detect W w1)" "anomaly_key c = anomaly_key b" using b by (auto simp: find_Some_iff)
    then have "c = b" using detect_distinct [of W w1] b(1) by (simp add: distinct_map inj_on_def)
    then show ?l using c b by (simp add: dedup_memory [OF detect_distinct])
  qed
  then show ?thesis by (subst (1) dedup_step_def) (auto intro!: filter_cong)
qed

text \<open>
  C40. What a watch prints of the anomalies a poll finds, in the poll's order: one the poll before did
  not report under the same signal and subject always, a cleared one that recurs included; and of one
  it did report with a magnitude no higher than now, exactly when the magnitude has increased since.
\<close>

theorem watch_alerts_exact:
  fixes W :: watch_codec and w1 w2 :: watch_inputs and seen :: dedup
  defines "alerts \<equiv> fst (dedup_step (snd (dedup_step seen (detect W w1))) (detect W w2))"
  shows "alerts = filter (\<lambda>a. a \<in> set alerts) (detect W w2) \<and>
    (\<forall>a \<in> set (detect W w2).
       (anomaly_key a \<notin> anomaly_key ` set (detect W w1) \<longrightarrow> a \<in> set alerts) \<and>
       (\<forall>b \<in> set (detect W w1). anomaly_key b = anomaly_key a \<and> an_magnitude b \<le> an_magnitude a \<longrightarrow>
          (a \<in> set alerts \<longleftrightarrow> an_magnitude b < an_magnitude a)))"
proof (intro conjI ballI impI)
  note eq = alerts_changed [of seen W w1 w2, folded alerts_def]
  have mem: "a \<in> set alerts \<longleftrightarrow> a \<in> set (detect W w2) \<and>
      (\<nexists>b. b \<in> set (detect W w1) \<and> anomaly_key b = anomaly_key a \<and> an_magnitude b = an_magnitude a)" for a
    by (simp add: eq)
  show "alerts = filter (\<lambda>a. a \<in> set alerts) (detect W w2)"
    by (subst eq, rule filter_cong [OF refl]) (simp add: mem)
  show "a \<in> set alerts" if "a \<in> set (detect W w2)" "anomaly_key a \<notin> anomaly_key ` set (detect W w1)" for a
    using that by (auto simp: mem image_iff)
  show "a \<in> set alerts \<longleftrightarrow> an_magnitude b < an_magnitude a"
    if a: "a \<in> set (detect W w2)" and b: "b \<in> set (detect W w1)" "anomaly_key b = anomaly_key a \<and> an_magnitude b \<le> an_magnitude a" for a b
  proof -
    have inj: "inj_on anomaly_key (set (detect W w1))" using detect_distinct [of W w1] by (simp only: distinct_map)
    have "c = b" if "c \<in> set (detect W w1)" "anomaly_key c = anomaly_key a" for c
      by (rule inj_onD [OF inj _ that(1) b(1)]) (simp add: that(2) b(2))
    then have "a \<in> set alerts \<longleftrightarrow> an_magnitude b \<noteq> an_magnitude a" unfolding mem using a b by metis
    then show ?thesis using b(2) by (simp add: order.strict_iff_order)
  qed
qed

definition demo_watch :: watch_codec where
  "demo_watch = \<lparr>wc_codec = demo_codec, wc_failed_cause = \<lambda>d. Inr (''u1'', d)\<rparr>"

definition red_poll :: "string list \<Rightarrow> watch_inputs" where
  "red_poll checks =
     \<lparr>wi_run_events = [], wi_now = 9, wi_last_event_at = None, wi_step_lock_free = True, wi_wave_liveness_ages = [],
      wi_dash = NotRecorded, wi_run_started_at = None, wi_dash_breadcrumb_written_at = None,
      wi_dash_attempted_this_run = False, wi_ci = CiRed ''tip'' checks\<rparr>"

lemma red_poll_found:
  "detect demo_watch (red_poll checks) = [anomaly_of SigCiRed ''tip'' (of_nat (length checks))
     (show_nat (length checks) @ '' check(s) failed on the run tip: '' @ join '', '' checks)]"
  by (simp add: detect_def demo_watch_def red_poll_def project_def fold_manual_review_inbox_def run_state_new_def detect_escalated_def
      detect_recurrence_def detect_stall_def spawn_result_counts_def detect_driver_def driver_dead_def detect_dash_def
      dash_anomaly_detail_def detect_ci_def detect_disorder_def order_signatures_def map_filter_simps)

theorem watch_alerts_exact_witness:
  "let alerts = \<lambda>p q. fst (dedup_step (snd (dedup_step [] (detect demo_watch (red_poll p)))) (detect demo_watch (red_poll q)))
   in \<exists>a. detect demo_watch (red_poll [''test'', ''lint'']) = [a] \<and> a \<in> set (alerts [''test''] [''test'', ''lint'']) \<and>
        a \<notin> set (alerts [''test'', ''lint''] [''test'', ''lint''])"
proof -
  let ?a = "\<lambda>p. hd (detect demo_watch (red_poll p))"
  have one: "detect demo_watch (red_poll p) = [?a p]" "anomaly_key (?a p) = (SigCiRed, ''tip'')"
      "an_magnitude (?a p) = of_nat (length p)" for p
    by (simp_all add: red_poll_found anomaly_of_def anomaly_key_def)
  have mem: "?a p \<in> set (detect demo_watch (red_poll p))" for p by (subst one(1)) simp
  have pair: "?a q \<in> set (fst (dedup_step (snd (dedup_step [] (detect demo_watch (red_poll p)))) (detect demo_watch (red_poll q)))) \<longleftrightarrow>
      an_magnitude (?a p) < an_magnitude (?a q)" if "an_magnitude (?a p) \<le> an_magnitude (?a q)" for p q
    by (rule watch_alerts_exact [where seen = "[]", THEN conjunct2, THEN bspec, OF mem, THEN conjunct2, THEN bspec, OF mem, THEN mp])
      (simp only: one(2) that simp_thms)
  show ?thesis unfolding Let_def
  proof (intro exI conjI)
    show "detect demo_watch (red_poll [''test'', ''lint'']) = [?a [''test'', ''lint'']]" by (rule one(1))
    show "?a [''test'', ''lint''] \<in> set (fst (dedup_step (snd (dedup_step [] (detect demo_watch (red_poll [''test'']))))
        (detect demo_watch (red_poll [''test'', ''lint'']))))"
      by (subst pair) (simp_all add: one(3))
    show "?a [''test'', ''lint''] \<notin> set (fst (dedup_step (snd (dedup_step [] (detect demo_watch (red_poll [''test'', ''lint'']))))
        (detect demo_watch (red_poll [''test'', ''lint'']))))"
      by (subst pair) (simp_all add: one(3))
  qed
qed

section \<open>Recurring rejects\<close>

definition failure_cause :: "watch_codec \<Rightarrow> string \<Rightarrow> event \<Rightarrow> string option" where
  "failure_cause W uid e =
     (if ev_type e = TYPE_UNIT_FAILED
      then Option.bind (res_ok (wc_failed_cause W (ev_data e)))
        (\<lambda>(i, cause). if i = uid then Some (if cause = [] then ''unknown'' else cause) else None)
      else None)"

definition add_cause :: "string \<times> u32 \<Rightarrow> string \<Rightarrow> string \<times> u32" where
  "add_cause cs c = (if 0 < snd cs \<and> c = fst cs then (fst cs, snd cs + 1) else (c, 1))"

lemma streak_step_eq: "streak_step W uid cs e = (case failure_cause W uid e of None \<Rightarrow> cs | Some c \<Rightarrow> add_cause cs c)"
  by (auto simp: streak_step_def failure_cause_def add_cause_def res_ok_def Let_def split: sum.split)

lemma streak_causes: "reject_recurrence_streak W es uid = foldl add_cause ([], 0) (List.map_filter (failure_cause W uid) es)"
  unfolding reject_recurrence_streak_def
  by (induction es rule: rev_induct) (auto simp: streak_step_eq List.map_filter_def split: option.split)

lemma foldl_add_cause:
  "length cs < 2 ^ 32 \<Longrightarrow> foldl add_cause ([], 0) cs =
     (if cs = [] then ([], 0) else (last cs, of_nat (length (takeWhile ((=) (last cs)) (rev cs)))))"
proof (induction cs rule: rev_induct)
  case (snoc c cs)
  show ?case
  proof (cases "cs = []")
    case False
    let ?n = "length (takeWhile ((=) (last cs)) (rev cs))"
    have pos: "0 < ?n" using False by (cases cs rule: rev_cases) simp_all
    have "?n < 2 ^ 32" using length_takeWhile_le [of "(=) (last cs)" "rev cs"] snoc.prems by simp
    then have "(0 :: u32) < of_nat ?n" using pos by (simp add: word_less_nat_alt unat_of_nat take_bit_nat_eq_self)
    moreover have "takeWhile ((=) c) (rev cs) = []" if "c \<noteq> last cs"
      using that False by (cases cs rule: rev_cases) simp_all
    ultimately show ?thesis using snoc False by (auto simp: add_cause_def)
  qed (simp add: add_cause_def)
qed simp

text \<open>
  The reject streak of a unit is the cause of its last failure with the number of its failures, back from
  the last, that had that cause; a failure of another cause starts the count again.
\<close>

theorem reject_recurrence_streak_exact:
  assumes "length es < 2 ^ 32"
  shows "reject_recurrence_streak W es uid =
     (case rev (List.map_filter (failure_cause W uid) es) of
        [] \<Rightarrow> ([], 0)
      | c # cs \<Rightarrow> (c, 1 + of_nat (length (takeWhile ((=) c) cs))))"
proof -
  let ?cs = "List.map_filter (failure_cause W uid) es"
  have "length ?cs \<le> length es" unfolding List.map_filter_def by (simp add: le_trans [OF length_filter_le])
  then have "length ?cs < 2 ^ 32" using assms by simp
  from foldl_add_cause [OF this] show ?thesis unfolding streak_causes
    by (cases ?cs rule: rev_cases) simp_all
qed

theorem reject_recurrence_streak_witness:
  "reject_recurrence_streak
     \<lparr>wc_codec = demo_codec, wc_failed_cause = \<lambda>d. Inr (''u1'', d)\<rparr>
     (map (demo_event TYPE_UNIT_FAILED) [''tests'', ''lint'', ''lint'', ''lint'']) ''u1'' = (''lint'', 3)"
  by (subst reject_recurrence_streak_exact) (simp_all add: failure_cause_def List.map_filter_simps res_ok_def)

end
