(* ===== verification/Effects.thy ===== *)
theory Effects
  imports Prelude
begin

text \<open>
  Computations of the conductor: a function from the state to an answer or an error, and the state it
  leaves. A Rust function \<open>fn f(&self, ..) -> Result<T, Error>\<close> is a \<open>'a comp\<close>; the operator \<open>?\<close> is
  \<open>bindc\<close>; an error keeps the effects made before it. \<open>ensures c s Q E\<close> says what a computation leaves
  on an answer and on an error, and is computed along the text of the computation.
\<close>

type_synonym ('s, 'a) comp = "'s \<Rightarrow> (string + 'a) \<times> 's"

definition ret :: "'a \<Rightarrow> ('s, 'a) comp" where
  "ret x = (\<lambda>s. (Inr x, s))"

definition fail :: "string \<Rightarrow> ('s, 'a) comp" where
  "fail e = (\<lambda>s. (Inl e, s))"

definition bindc :: "('s, 'a) comp \<Rightarrow> ('a \<Rightarrow> ('s, 'b) comp) \<Rightarrow> ('s, 'b) comp" where
  "bindc c f = (\<lambda>s. case c s of (Inl e, t) \<Rightarrow> (Inl e, t) | (Inr x, t) \<Rightarrow> f x t)"

definition seqc :: "('s, 'a) comp \<Rightarrow> ('s, 'b) comp \<Rightarrow> ('s, 'b) comp" where
  "seqc c d = bindc c (\<lambda>_. d)"

definition getc :: "('s \<Rightarrow> 'a) \<Rightarrow> ('s, 'a) comp" where
  "getc f = (\<lambda>s. (Inr (f s), s))"

definition setc :: "('s \<Rightarrow> 's) \<Rightarrow> ('s, unit) comp" where
  "setc f = (\<lambda>s. (Inr (), f s))"

definition whenc :: "bool \<Rightarrow> ('s, unit) comp \<Rightarrow> ('s, unit) comp" where
  "whenc b c = (if b then c else ret ())"

text \<open>The answer as a value, as a \<open>match\<close> on a result sees it.\<close>

definition resultc :: "('s, 'a) comp \<Rightarrow> ('s, string + 'a) comp" where
  "resultc c = (\<lambda>s. case c s of (r, t) \<Rightarrow> (Inr r, t))"

definition map_errc :: "(string \<Rightarrow> ('s, 'a) comp) \<Rightarrow> ('s, 'a) comp \<Rightarrow> ('s, 'a) comp" where
  "map_errc h c = (\<lambda>s. case c s of (Inl e, t) \<Rightarrow> h e t | (Inr x, t) \<Rightarrow> (Inr x, t))"

fun foreachc :: "('a \<Rightarrow> ('s, unit) comp) \<Rightarrow> 'a list \<Rightarrow> ('s, unit) comp" where
  "foreachc f [] = ret ()"
| "foreachc f (x # xs) = seqc (f x) (foreachc f xs)"

text \<open>A loop over a list that carries a value.\<close>

fun foldc :: "('b \<Rightarrow> 'a \<Rightarrow> ('s, 'b) comp) \<Rightarrow> 'b \<Rightarrow> 'a list \<Rightarrow> ('s, 'b) comp" where
  "foldc f b [] = ret b"
| "foldc f b (x # xs) = bindc (f b x) (\<lambda>b'. foldc f b' xs)"

section \<open>What a computation leaves\<close>

definition ensures ::
  "('s, 'a) comp \<Rightarrow> 's \<Rightarrow> ('a \<Rightarrow> 's \<Rightarrow> bool) \<Rightarrow> (string \<Rightarrow> 's \<Rightarrow> bool) \<Rightarrow> bool" where
  "ensures c s Q E \<longleftrightarrow> (case c s of (Inl e, t) \<Rightarrow> E e t | (Inr x, t) \<Rightarrow> Q x t)"

named_theorems ensures_simps "how ensures computes along a computation"

lemma ensures_ret [ensures_simps]: "ensures (ret x) s Q E \<longleftrightarrow> Q x s"
  by (simp add: ensures_def ret_def)

lemma ensures_fail [ensures_simps]: "ensures (fail e) s Q E \<longleftrightarrow> E e s"
  by (simp add: ensures_def fail_def)

lemma ensures_getc [ensures_simps]: "ensures (getc f) s Q E \<longleftrightarrow> Q (f s) s"
  by (simp add: ensures_def getc_def)

lemma ensures_setc [ensures_simps]: "ensures (setc f) s Q E \<longleftrightarrow> Q () (f s)"
  by (simp add: ensures_def setc_def)

lemma ensures_bindc [ensures_simps]:
  "ensures (bindc c f) s Q E \<longleftrightarrow> ensures c s (\<lambda>x t. ensures (f x) t Q E) E"
  by (simp add: ensures_def bindc_def split: prod.split sum.split)

lemma ensures_seqc [ensures_simps]:
  "ensures (seqc c d) s Q E \<longleftrightarrow> ensures c s (\<lambda>_ t. ensures d t Q E) E"
  by (simp add: seqc_def ensures_bindc)

lemma ensures_whenc [ensures_simps]:
  "ensures (whenc b c) s Q E \<longleftrightarrow> (if b then ensures c s Q E else Q () s)"
  by (simp add: whenc_def ensures_ret)

lemma ensures_resultc [ensures_simps]:
  "ensures (resultc c) s Q E \<longleftrightarrow> ensures c s (\<lambda>x t. Q (Inr x) t) (\<lambda>e t. Q (Inl e) t)"
  by (simp add: ensures_def resultc_def split: prod.split sum.split)

lemma ensures_map_errc [ensures_simps]:
  "ensures (map_errc h c) s Q E \<longleftrightarrow> ensures c s Q (\<lambda>e t. ensures (h e) t Q E)"
  by (simp add: ensures_def map_errc_def split: prod.split sum.split)

lemma ensures_mono:
  assumes "ensures c s Q E" "\<And>x t. Q x t \<Longrightarrow> Q' x t" "\<And>e t. E e t \<Longrightarrow> E' e t"
  shows "ensures c s Q' E'"
  using assms by (auto simp: ensures_def split: prod.splits sum.splits)

lemma ensures_run: "ensures c s Q E \<Longrightarrow> c s = (Inr x, t) \<Longrightarrow> Q x t"
  by (simp add: ensures_def)

lemma ensures_err: "ensures c s Q E \<Longrightarrow> c s = (Inl e, t) \<Longrightarrow> E e t"
  by (simp add: ensures_def)

lemma ensures_conj:
  "ensures c s Q E \<Longrightarrow> ensures c s Q' E' \<Longrightarrow> ensures c s (\<lambda>x t. Q x t \<and> Q' x t) (\<lambda>e t. E e t \<and> E' e t)"
  by (auto simp: ensures_def split: prod.splits sum.splits)

lemma ensures_True [simp]: "ensures c s (\<lambda>_ _. True) (\<lambda>_ _. True)"
  by (simp add: ensures_def split: prod.split sum.split)

section \<open>Invariants\<close>

text \<open>A relation between the states before and after a computation that holds whatever it answers. A
  preorder holds of a computation when it holds of its parts.\<close>

definition keeps :: "('s \<Rightarrow> 's \<Rightarrow> bool) \<Rightarrow> ('s, 'a) comp \<Rightarrow> bool" where
  "keeps R c \<longleftrightarrow> (\<forall>s. R s (snd (c s)))"

lemma keepsI: "(\<And>s r t. c s = (r, t) \<Longrightarrow> R s t) \<Longrightarrow> keeps R c"
  by (metis keeps_def surj_pair snd_conv)

lemma keepsD: "keeps R c \<Longrightarrow> c s = (r, t) \<Longrightarrow> R s t"
  unfolding keeps_def by (metis snd_conv)

text \<open>The same of the computations that answer: an error may leave a key claimed whose event was not written.\<close>

definition yields :: "('s \<Rightarrow> 's \<Rightarrow> bool) \<Rightarrow> ('s, 'a) comp \<Rightarrow> bool" where
  "yields R c \<longleftrightarrow> (\<forall>s x t. c s = (Inr x, t) \<longrightarrow> R s t)"

lemma yieldsI: "(\<And>s x t. c s = (Inr x, t) \<Longrightarrow> R s t) \<Longrightarrow> yields R c"
  by (simp add: yields_def)

lemma yieldsD: "yields R c \<Longrightarrow> c s = (Inr x, t) \<Longrightarrow> R s t"
  by (simp add: yields_def)

lemma keeps_yields: "keeps R c \<Longrightarrow> yields R c"
  by (blast intro: yieldsI dest: keepsD)

lemma yields_mono: "yields R c \<Longrightarrow> (\<And>s t. R s t \<Longrightarrow> R' s t) \<Longrightarrow> yields R' c"
  by (simp add: yields_def)

lemma keeps_mono: "keeps R c \<Longrightarrow> (\<And>s t. R s t \<Longrightarrow> R' s t) \<Longrightarrow> keeps R' c"
  by (simp add: keeps_def)

lemma bindc_Inr: "bindc c f s = (Inr y, u) \<longleftrightarrow> (\<exists>x t. c s = (Inr x, t) \<and> f x t = (Inr y, u))"
  by (auto simp: bindc_def split: prod.splits sum.splits)

text \<open>A recursive call after a computation is known to come from one of its answers.\<close>

lemma bindc_cong [fundef_cong]:
  assumes "c = c'" and "\<And>s x t. c' s = (Inr x, t) \<Longrightarrow> f x = f' x"
  shows "bindc c f = bindc c' f'"
proof
  fix s
  show "bindc c f s = bindc c' f' s"
  proof (cases "c' s")
    case (Pair r t)
    then show ?thesis using assms by (cases r) (auto simp: bindc_def)
  qed
qed

lemma ret_Inr: "ret x s = (Inr y, t) \<longleftrightarrow> y = x \<and> t = s"
  by (auto simp: ret_def)

lemma getc_Inr: "getc f s = (Inr y, t) \<longleftrightarrow> y = f s \<and> t = s"
  by (auto simp: getc_def)

lemma seqc_Inr: "seqc c d s = (Inr y, u) \<longleftrightarrow> (\<exists>x t. c s = (Inr x, t) \<and> d t = (Inr y, u))"
  by (simp add: seqc_def bindc_Inr)

lemmas run_Inr = bindc_Inr seqc_Inr ret_Inr getc_Inr

locale state_order =
  fixes R :: "'s \<Rightarrow> 's \<Rightarrow> bool"
  assumes refl: "R s s" and trans: "R s t \<Longrightarrow> R t u \<Longrightarrow> R s u"
begin

lemma keeps_ret: "keeps R (ret x)"
  by (simp add: keeps_def ret_def refl)

lemma keeps_fail: "keeps R (fail e)"
  by (simp add: keeps_def fail_def refl)

lemma keeps_getc: "keeps R (getc f)"
  by (simp add: keeps_def getc_def refl)

lemma keeps_setc: "(\<And>s. R s (f s)) \<Longrightarrow> keeps R (setc f)"
  by (simp add: keeps_def setc_def)

lemma keeps_bindc_at:
  "keeps R c \<Longrightarrow> (\<And>s x t. c s = (Inr x, t) \<Longrightarrow> keeps R (f x)) \<Longrightarrow> keeps R (bindc c f)"
proof (rule keepsI)
  fix s r t assume c: "keeps R c" and f: "\<And>s x t. c s = (Inr x, t) \<Longrightarrow> keeps R (f x)" and run: "bindc c f s = (r, t)"
  obtain q u where q: "c s = (q, u)" by fastforce
  show "R s t"
  proof (cases q)
    case (Inl e)
    then show ?thesis using run q keepsD [OF c q] by (simp add: bindc_def)
  next
    case (Inr x)
    then have "f x u = (r, t)" using run q by (simp add: bindc_def)
    then show ?thesis using keepsD [OF c q] keepsD [OF f [OF q [unfolded Inr]]] trans by blast
  qed
qed

lemma keeps_bindc: "keeps R c \<Longrightarrow> (\<And>x. keeps R (f x)) \<Longrightarrow> keeps R (bindc c f)"
  by (rule keeps_bindc_at)

lemma keeps_seqc: "keeps R c \<Longrightarrow> keeps R d \<Longrightarrow> keeps R (seqc c d)"
  unfolding seqc_def by (rule keeps_bindc)

lemma keeps_whenc: "(b \<Longrightarrow> keeps R c) \<Longrightarrow> keeps R (whenc b c)"
  by (simp add: whenc_def keeps_ret)

lemma keeps_resultc: "keeps R c \<Longrightarrow> keeps R (resultc c)"
  by (auto intro!: keepsI simp: resultc_def split: prod.splits dest: keepsD)

lemma keeps_map_errc: "keeps R c \<Longrightarrow> (\<And>e. keeps R (h e)) \<Longrightarrow> keeps R (map_errc h c)"
proof (rule keepsI)
  fix s r t assume c: "keeps R c" and h: "\<And>e. keeps R (h e)" and run: "map_errc h c s = (r, t)"
  obtain q u where q: "c s = (q, u)" by fastforce
  show "R s t"
  proof (cases q)
    case (Inl e)
    then have "h e u = (r, t)" using run q by (simp add: map_errc_def)
    then show ?thesis using keepsD [OF c q] keepsD [OF h] trans by blast
  next
    case (Inr x)
    then show ?thesis using run q keepsD [OF c q] by (simp add: map_errc_def)
  qed
qed

lemma keeps_foreachc: "(\<And>x. keeps R (f x)) \<Longrightarrow> keeps R (foreachc f xs)"
  by (induction xs) (auto intro: keeps_ret keeps_seqc)

lemma keeps_foldc: "(\<And>b x. keeps R (f b x)) \<Longrightarrow> keeps R (foldc f b xs)"
  by (induction xs arbitrary: b) (auto intro: keeps_ret keeps_bindc)

lemmas keeps_intros =
  keeps_ret keeps_fail keeps_getc keeps_bindc keeps_seqc keeps_whenc keeps_resultc keeps_map_errc
  keeps_foreachc keeps_foldc

lemma yields_bindc: "yields R c \<Longrightarrow> (\<And>x. yields R (f x)) \<Longrightarrow> yields R (bindc c f)"
  unfolding yields_def bindc_Inr by (blast intro: trans)

lemma yields_bindc_at:
  "yields R c \<Longrightarrow> (\<And>s x t. c s = (Inr x, t) \<Longrightarrow> yields R (f x)) \<Longrightarrow> yields R (bindc c f)"
  unfolding yields_def bindc_Inr by (blast intro: trans)

lemma yields_seqc: "yields R c \<Longrightarrow> yields R d \<Longrightarrow> yields R (seqc c d)"
  unfolding seqc_def by (rule yields_bindc)

lemma yields_ret: "yields R (ret x)"
  by (rule keeps_yields) (rule keeps_ret)

lemma yields_fail: "yields R (fail e)"
  by (simp add: yields_def fail_def)

lemma yields_getc: "yields R (getc f)"
  by (rule keeps_yields) (rule keeps_getc)

lemma yields_whenc: "(b \<Longrightarrow> yields R c) \<Longrightarrow> yields R (whenc b c)"
  by (simp add: whenc_def yields_ret)

lemma yields_resultc: "keeps R c \<Longrightarrow> yields R (resultc c)"
  by (rule keeps_yields) (rule keeps_resultc)

lemma yields_foreachc: "(\<And>x. yields R (f x)) \<Longrightarrow> yields R (foreachc f xs)"
  by (induction xs) (auto intro: yields_ret yields_seqc)

lemma yields_foldc: "(\<And>b x. yields R (f b x)) \<Longrightarrow> yields R (foldc f b xs)"
  by (induction xs arbitrary: b) (auto intro: yields_ret yields_bindc)

lemmas yields_intros =
  yields_ret yields_fail yields_getc yields_bindc yields_seqc yields_whenc yields_resultc yields_foreachc yields_foldc

lemma keeps_ensures: "keeps R c \<Longrightarrow> ensures c s (\<lambda>_ t. R s t) (\<lambda>_ t. R s t)"
  by (auto simp: keeps_def ensures_def split: prod.split sum.split dest: spec [of _ s])

end

end
