(* ===== verification/Run_Ctx.thy ===== *)
theory Run_Ctx
  imports Effects Scheduler Blocker Adoption Playbooks Review Retention Harvest
begin

text \<open>
  The context a unit's stage runs in (\<open>RunCtx\<close> of \<open>rigger-conductor/src/conductor.rs\<close>): the state the
  process keeps, the ports it calls, and the one way it writes to the run stream. The state's
  \<open>rx_world\<close> is everything outside the process (git, the agents, the commands, the store behind the
  ports); \<open>rx_log\<close> is what this process appended, in order. The text of a prompt, the rendering of
  \<open>{:?}\<close> and the answers of git, agents and gates are the ports'.
\<close>

section \<open>What the conductor writes\<close>

text \<open>An event as it is built: its type, its body and its metadata without the run's stamp.\<close>

record fact =
  fa_type :: string
  fa_body :: json
  fa_meta :: "(string \<times> string) list"

abbreviation "TYPE_GATE_VERDICT \<equiv> ''GateVerdict''"
abbreviation "TYPE_GATE_PROMOTED \<equiv> ''GatePromoted''"
abbreviation "TYPE_GATE_DEMOTED \<equiv> ''GateDemoted''"
abbreviation "META_INPUT_DIGEST \<equiv> ''input_digest''"
abbreviation "META_CACHE_HIT \<equiv> ''cache_hit_of''"
abbreviation "META_CONTRADICTION \<equiv> ''contradiction''"
abbreviation "META_COMPENSATE_TARGET \<equiv> ''compensate_target''"
abbreviation "META_MODEL_ALIAS \<equiv> ''model_alias''"
abbreviation "META_MODEL_RESOLVED \<equiv> ''model_resolved''"
abbreviation "META_RESUME_REQUESTED \<equiv> ''resume_requested''"
abbreviation "META_RESUMED_FROM \<equiv> ''resumed_from''"
abbreviation "STATUS_COMPENSATION_QUEUED \<equiv> ''compensation-queued''"
abbreviation "STATUS_REVIEW_TIER \<equiv> ''review-tier''"
abbreviation "STATUS_INFRA_RETRY \<equiv> ''infra-retry''"
abbreviation "STATUS_INFRA_HALT \<equiv> ''infra-halt''"
abbreviation "CAUSE_INTEGRATE_CONFLICT \<equiv> ''integrate-conflict''"
abbreviation "CAUSE_REJECT \<equiv> ''reject''"
abbreviation "CAUSE_INFRA_SPAWN \<equiv> ''infra:spawn''"
abbreviation "CAUSE_INFRA_GATE \<equiv> ''infra:gate''"
abbreviation "CAUSE_INFRA_REVIEW \<equiv> ''infra:review''"
abbreviation "CONVERGED \<equiv> ''converged''"

definition event_with_meta :: "string \<Rightarrow> json \<Rightarrow> (string \<times> string) list \<Rightarrow> fact" where
  "event_with_meta ty body extra = \<lparr>fa_type = ty, fa_body = body, fa_meta = filter (\<lambda>(_, v). v \<noteq> []) extra\<rparr>"

definition j_num :: "u32 \<Rightarrow> json" where
  "j_num n = JInt (uint n)"

definition j_strs :: "string list \<Rightarrow> json" where
  "j_strs xs = JArr (map JStr xs)"

section \<open>Keys\<close>

datatype gate_key_kind = Verdict | Skip | PostMergeVerdict

definition gate_infix :: "gate_key_kind \<Rightarrow> string" where
  "gate_infix kind = (case kind of Verdict \<Rightarrow> ''gate'' | Skip \<Rightarrow> ''gate-skip'' | PostMergeVerdict \<Rightarrow> ''postmerge-gate'')"

definition gate_key :: "gate_key_kind \<Rightarrow> string \<Rightarrow> u32 \<Rightarrow> u32 \<Rightarrow> string \<Rightarrow> string" where
  "gate_key kind unit attempt retry gate =
     with_retry (unit @ ''/'' @ gate_infix kind @ '':'' @ gate @ ''#'' @ show_u32 attempt) retry"

definition unit_of_gate_key :: "string \<Rightarrow> string option" where
  "unit_of_gate_key key = map_option fst (find_split ''/gate:'' key)"

definition gate_key_attempt :: "string \<Rightarrow> u32 option" where
  "gate_key_attempt key =
     Option.bind (find_split ''/gate:'' key) (\<lambda>(_, run). if CHR ''#'' \<in> set run then Some (attempt_of run) else None)"

definition input_digest :: "string \<Rightarrow> string \<Rightarrow> string" where
  "input_digest command commit_sha = (if commit_sha = [] then [] else hex16 (fnv1a_64 command) @ '':'' @ commit_sha)"

definition digest_address :: "string \<Rightarrow> string option" where
  "digest_address digest = map_option snd (split_once CHR '':'' digest)"

definition review_round_start_key :: "string \<Rightarrow> u32 \<Rightarrow> string" where
  "review_round_start_key unit attempt = unit @ ''/review-round-start#'' @ show_u32 attempt"

definition verified_key :: "string \<Rightarrow> u32 \<Rightarrow> string" where
  "verified_key unit attempt = unit @ ''/verified#'' @ show_u32 attempt"

definition compensation_queued_key :: "string \<Rightarrow> string \<Rightarrow> u32 \<Rightarrow> string" where
  "compensation_queued_key triggerer target attempt =
     triggerer @ ''/compensate-queued:'' @ target @ ''#'' @ show_u32 attempt"

definition infra_mark_key :: "string \<Rightarrow> string \<Rightarrow> u32 \<Rightarrow> u32 \<Rightarrow> string" where
  "infra_mark_key unit status attempt ordinal = unit @ ''/'' @ status @ ''#'' @ show_u32 attempt @ ''~'' @ show_u32 ordinal"

definition conflict_regenerate_key :: "string \<Rightarrow> u32 \<Rightarrow> string" where
  "conflict_regenerate_key unit attempt = unit @ ''#'' @ show_u32 attempt"

section \<open>Failures of an attempt\<close>

record prior_failure =
  pf_gate_evidence :: "string list"
  pf_review_reason :: string
  pf_required :: "required_item list"
  pf_contradiction :: string
  pf_halted_commit :: string

definition no_failure :: prior_failure where
  "no_failure = \<lparr>pf_gate_evidence = [], pf_review_reason = [], pf_required = [], pf_contradiction = [], pf_halted_commit = []\<rparr>"

definition logged_failure :: "ledger_unit \<Rightarrow> prior_failure" where
  "logged_failure u =
     no_failure\<lparr>pf_gate_evidence := u_gate_evidence u, pf_review_reason := u_review_reason u, pf_required := u_required u\<rparr>"

definition required_json :: "required_item \<Rightarrow> json" where
  "required_json r =
     JObj [(''finding'', JStr (ri_finding r)), (''path'', JStr (ri_path r)), (''correctness'', JBool (ri_correctness r)),
           (''pattern'', JStr (ri_pattern r))]"

definition failed_body :: "prior_failure \<Rightarrow> string \<Rightarrow> u32 \<Rightarrow> string \<Rightarrow> json" where
  "failed_body p unit attempts cause =
     JObj [(''id'', JStr unit), (''attempts'', j_num attempts), (''cause'', JStr cause),
           (''gate_evidence'', j_strs (pf_gate_evidence p)), (''review_reason'', JStr (pf_review_reason p)),
           (''required'', JArr (map required_json (pf_required p)))]"

definition failure_is_empty :: "prior_failure \<Rightarrow> bool" where
  "failure_is_empty p \<longleftrightarrow>
     pf_gate_evidence p = [] \<and> trim (pf_review_reason p) = [] \<and> pf_required p = [] \<and> trim (pf_contradiction p) = [] \<and>
     trim (pf_halted_commit p) = []"

definition failure_summary :: "prior_failure \<Rightarrow> string" where
  "failure_summary p =
     join ''; ''
       ((if pf_gate_evidence p \<noteq> [] then [''gates failed: '' @ join '' | '' (pf_gate_evidence p)] else []) @
        (if trim (pf_review_reason p) \<noteq> [] then [''review rejected: '' @ trim (pf_review_reason p)] else []) @
        (if trim (pf_contradiction p) \<noteq> [] then [''compensated: '' @ trim (pf_contradiction p)] else []) @
        (if trim (pf_halted_commit p) \<noteq> []
         then [''recovered a halted spawn'' @ [CHR 0x27] @ ''s tree as commit '' @ trim (pf_halted_commit p)] else []))"

definition is_infra_cause :: "string \<Rightarrow> bool" where
  "is_infra_cause cause \<longleftrightarrow> cause \<in> set [CAUSE_INFRA_SPAWN, CAUSE_INFRA_GATE, CAUSE_INFRA_REVIEW]"

definition review_failure_cause :: "codec \<Rightarrow> string \<Rightarrow> string" where
  "review_failure_cause D reason =
     (case adjudication_parse D reason of
        Some a \<Rightarrow> if is_infra_fault a then CAUSE_INFRA_REVIEW else CAUSE_REJECT
      | None \<Rightarrow> CAUSE_REJECT)"

definition gate_failure_cause :: "string list \<Rightarrow> string" where
  "gate_failure_cause evidence =
     ''gate:'' @ (case evidence of [] \<Rightarrow> ''unknown''
       | e # _ \<Rightarrow> (case find_split '': '' e of Some (name, _) \<Rightarrow> name | None \<Rightarrow> ''unknown''))"

definition spawn_crash :: "string \<Rightarrow> string" where
  "spawn_crash message = SPAWN_CRASH_MARKER @ message"

definition infra_halt :: "(string \<Rightarrow> string) \<Rightarrow> string \<Rightarrow> u32 \<Rightarrow> string \<Rightarrow> string \<Rightarrow> string" where
  "infra_halt debug unit attempt cause evidence =
     INFRA_MARKER @ ''infra: '' @ evidence @ [CHR 0x0A] @ ''(unit '' @ debug unit @ '' failed on infrastructure ('' @ cause @
     '') at attempt '' @ show_u32 attempt @ '' past the failure taxonomy'' @ [CHR 0x27] @
     ''s infra limit, so the step halts and the unit is charged no attempt; fix the outage and re-run - the unit resumes at the same attempt with a fresh bound)''"

section \<open>Infra reruns\<close>

record infra_retries =
  ir_ordinal :: u32
  ir_since_halt :: u32

definition infra_none :: infra_retries where
  "infra_none = \<lparr>ir_ordinal = 0, ir_since_halt = 0\<rparr>"

definition infra_after :: "infra_retries \<Rightarrow> string \<Rightarrow> infra_retries" where
  "infra_after r status =
     (if status = STATUS_INFRA_RETRY then \<lparr>ir_ordinal = ir_ordinal r + 1, ir_since_halt = ir_since_halt r + 1\<rparr>
      else r\<lparr>ir_since_halt := 0\<rparr>)"

definition infra_exhausted :: "infra_retries \<Rightarrow> u32 \<Rightarrow> bool" where
  "infra_exhausted r limit \<longleftrightarrow> limit \<le> ir_since_halt r"

definition infra_recorded :: "probes \<Rightarrow> event list \<Rightarrow> string \<Rightarrow> u32 \<Rightarrow> infra_retries" where
  "infra_recorded P es unit attempt =
     foldl infra_after infra_none
       (map fst (filter (\<lambda>(_, stamped, _). stamped = unat attempt)
          (unit_status_marks P es unit [STATUS_INFRA_RETRY, STATUS_INFRA_HALT])))"

section \<open>The state and its ports\<close>

record 'w rctx =
  rx_world :: 'w
  rx_log :: "fact list"
  rx_keys :: "string set"
  rx_verdicts :: "(string, bool \<times> string) btree"
  rx_greens :: "(string, position \<times> string) btree"
  rx_tracker :: "(string, gate) btree"
  rx_compensations :: "(string \<times> string) list"
  rx_spawns :: u32
  rx_budget_broke :: bool
  rx_any_parked :: bool
  rx_pending_landing :: "(string, u32 \<times> string \<times> string) btree"
  rx_landed :: "(string, u32 \<times> string \<times> string) btree"
  rx_regenerate_pending :: "(string, string list) btree"

record gate_conf =
  gc_run :: string
  gc_kind :: string
  gc_inputs :: "string list"

record gate_env =
  ge_dir :: string
  ge_target :: string
  ge_scratch :: string
  ge_cache_dir :: string
  ge_cache_guard :: string
  ge_store_fence :: string
  ge_env :: "(string \<times> string) list"

record integration =
  in_commit :: string
  in_blocked :: "string list option"

datatype plan_commit_outcome =
    PlanNone
  | PlanLanded "string list"
  | PlanOutOfScope "string list"
  | PlanConflict string

record agent_result =
  ar_output :: string
  ar_resolved_model :: string
  ar_session_id :: string
  ar_resumed_from :: string

text \<open>A later review round of a unit: the base it is judged from, what changed since, and what was required.\<close>

record review_round =
  rw_base :: string
  rw_delta :: "string list"
  rw_required :: "required_item list"
  rw_audit :: string

text \<open>The prompts whose text the ports answer.\<close>

datatype prompt_kind =
    PromptImplement stage prior_failure u32
  | PromptSdet stage u32
  | PromptReview stage string string "review_round option"
  | PromptAdjudicate stage string "review_round option"
  | PromptResume stage string review_round

text \<open>What a spawn is asked (\<open>SpawnOpts\<close> and the prompt).\<close>

record spawn_opts =
  so_id :: string
  so_agent :: string
  so_unit :: string
  so_stage :: string
  so_dir :: string
  so_attempt :: u32
  so_isolation :: bool
  so_parallel :: bool
  so_blast_radius :: "string list"
  so_title :: string
  so_reviews :: "string list"
  so_env :: "(string \<times> string) list"
  so_resumed_from :: string
  so_resume_task :: string

text \<open>
  The ports. \<open>pt_spawn\<close> answers the driver's result and the events the agent emitted while it ran, in
  order, each with whether the emit guard recorded it. \<open>pt_radius\<close> is the grounded blast radius, its
  precise and its safe files.
\<close>

record 'w ports =
  pt_append :: "fact \<Rightarrow> 'w \<Rightarrow> (string + position) \<times> 'w"
  pt_read_run :: "'w \<Rightarrow> (string + event list) \<times> 'w"
  pt_new_id :: "'w \<Rightarrow> (string + string) \<times> 'w"
  pt_ensure_present :: "string \<Rightarrow> 'w \<Rightarrow> (string + unit) \<times> 'w"
  pt_commit_checkpoint :: "string \<Rightarrow> string \<Rightarrow> 'w \<Rightarrow> (string + string) \<times> 'w"
  pt_merge_in_progress :: "string \<Rightarrow> 'w \<Rightarrow> bool"
  pt_head_sha :: "string \<Rightarrow> 'w \<Rightarrow> string"
  pt_changed_files :: "string \<Rightarrow> 'w \<Rightarrow> (string + string list) \<times> 'w"
  pt_changed_since_base :: "string \<Rightarrow> 'w \<Rightarrow> (string + string list) \<times> 'w"
  pt_diff_names :: "string \<Rightarrow> string \<Rightarrow> 'w \<Rightarrow> (string + string list) \<times> 'w"
  pt_is_ancestor :: "string \<Rightarrow> string \<Rightarrow> 'w \<Rightarrow> bool"
  pt_restore_reviewed :: "string \<Rightarrow> string \<Rightarrow> 'w \<Rightarrow> (string + unit) \<times> 'w"
  pt_branch_has_work :: "string \<Rightarrow> 'w \<Rightarrow> bool"
  pt_spawn_is_halted :: "event list \<Rightarrow> string \<Rightarrow> string \<Rightarrow> 'w \<Rightarrow> (string + bool) \<times> 'w"
  pt_build_env :: "'w \<Rightarrow> (string + (string \<times> string) list) \<times> 'w"
  pt_run_gate :: "gate \<Rightarrow> gate_env \<Rightarrow> 'w \<Rightarrow> (nat \<Rightarrow> gate_result) \<times> 'w"
  pt_seed :: "stage \<Rightarrow> 'w \<Rightarrow> string list"
  pt_radius :: "stage \<Rightarrow> 'w \<Rightarrow> string list \<times> string list"
  pt_index_stamp :: "'w \<Rightarrow> string"
  pt_prompt :: "prompt_kind \<Rightarrow> 'w \<Rightarrow> (string + string) \<times> 'w"
  pt_spawn :: "spawn_opts \<Rightarrow> string \<Rightarrow> 'w \<Rightarrow> ((string + agent_result) \<times> (string \<times> json \<times> bool) list) \<times> 'w"
  pt_say :: "string \<Rightarrow> 'w \<Rightarrow> 'w"

text \<open>
  The ports of a landing: merging the run branch into a unit's worktree, landing it, taking it back, the
  throwaway worktree of the post-merge gates, and what a landed change is indexed by. \<open>lp_ingest\<close> answers
  the ledger entries it appended. The commits of a plan are the last four.
\<close>

datatype merge_outcome = MergeReady string | MergeConflict "string list"

datatype land_outcome = LandDone | LandTipMoved | LandBlocked "string list"

datatype cherry_pick_outcome = Picked "string list" | PickConflict string

record 'w land_ports =
  lp_merge :: "string \<Rightarrow> string \<Rightarrow> 'w \<Rightarrow> (string + merge_outcome) \<times> 'w"
  lp_land :: "string \<Rightarrow> 'w \<Rightarrow> (string + land_outcome) \<times> 'w"
  lp_reset_branch :: "string \<Rightarrow> string \<Rightarrow> 'w \<Rightarrow> (string + unit) \<times> 'w"
  lp_reset_repo :: "string \<Rightarrow> 'w \<Rightarrow> (string + unit) \<times> 'w"
  lp_accept_incoming :: "string \<Rightarrow> string \<Rightarrow> 'w \<Rightarrow> (string + unit) \<times> 'w"
  lp_discard :: "string \<Rightarrow> string \<Rightarrow> 'w \<Rightarrow> (string + unit) \<times> 'w"
  lp_create_branch_at :: "string \<Rightarrow> string \<Rightarrow> 'w \<Rightarrow> (string + unit) \<times> 'w"
  lp_create :: "string \<Rightarrow> string \<Rightarrow> 'w \<Rightarrow> (string + string) \<times> 'w"
  lp_remove :: "string \<Rightarrow> 'w \<Rightarrow> (string + unit) \<times> 'w"
  lp_delete_branch :: "string \<Rightarrow> 'w \<Rightarrow> (string + unit) \<times> 'w"
  lp_diff_merge_base :: "string \<Rightarrow> string \<Rightarrow> 'w \<Rightarrow> (string + string list) \<times> 'w"
  lp_branch_with_same :: "string \<Rightarrow> 'w \<Rightarrow> string option"
  lp_reindex :: "string list \<Rightarrow> 'w \<Rightarrow> 'w"
  lp_ingest :: "string list \<Rightarrow> 'w \<Rightarrow> ((string + unit) \<times> json list) \<times> 'w"
  lp_reclaim :: "string \<Rightarrow> 'w \<Rightarrow> 'w"
  lp_commits_since_base :: "string \<Rightarrow> 'w \<Rightarrow> (string + string list) \<times> 'w"
  lp_files_of_commit :: "string \<Rightarrow> string \<Rightarrow> 'w \<Rightarrow> (string + string list) \<times> 'w"
  lp_find_landed :: "string \<Rightarrow> string \<Rightarrow> nat \<Rightarrow> 'w \<Rightarrow> (string + string option) \<times> 'w"
  lp_cherry_pick :: "string \<Rightarrow> string list \<Rightarrow> 'w \<Rightarrow> (string + cherry_pick_outcome) \<times> 'w"

record regenerate_rule =
  rr_paths :: "string list"
  rr_run :: string

record 'w run_cfg =
  rc_ports :: "'w ports"
  rc_landing :: "'w land_ports"
  rc_regenerate :: "regenerate_rule list"
  rc_probes :: probes
  rc_json_text :: "json \<Rightarrow> string"
  rc_re_match :: "string \<Rightarrow> string \<Rightarrow> bool"
  rc_debug :: "string \<Rightarrow> string"
  rc_debug_list :: "string list \<Rightarrow> string"
  rc_prior_block :: "prior_failure \<Rightarrow> string \<Rightarrow> u32 \<Rightarrow> string"
  rc_notes_block :: "run_note list \<Rightarrow> string"
  rc_json_error :: "json_error \<Rightarrow> string"
  rc_repo :: string
  rc_scratch :: string
  rc_shared_cache :: "string \<times> string"
  rc_same_path :: "string \<Rightarrow> string \<Rightarrow> bool"
  rc_unit_worktree_dir :: "string \<Rightarrow> string \<Rightarrow> string"
  rc_workflow :: workflow
  rc_gates :: "(string, gate_conf) btree"
  rc_agents :: "(string, agent_def) btree"
  rc_taxonomy :: taxonomy
  rc_prior_status :: "(string, status) btree"
  rc_prior_attempts :: "(string, u32) btree"
  rc_prior_failure :: "(string, prior_failure) btree"
  rc_prior_resume_bound :: "(string, u32) btree"
  rc_compensation_attempts :: "(string, u32) btree"
  rc_compensation_feedback :: "(string, string) btree"
  rc_integrate_attempted :: "string set"
  rc_recorded_spawns :: "string set"

abbreviation rc_codec :: "'w run_cfg \<Rightarrow> codec" where
  "rc_codec c \<equiv> pr_codec (rc_probes c)"

type_synonym ('w, 'a) run = "('w rctx, 'a) comp"

definition portc :: "('w \<Rightarrow> (string + 'a) \<times> 'w) \<Rightarrow> ('w, 'a) run" where
  "portc p = (\<lambda>s. case p (rx_world s) of (r, w) \<Rightarrow> (r, s\<lparr>rx_world := w\<rparr>))"

definition lookc :: "('w \<Rightarrow> 'a) \<Rightarrow> ('w, 'a) run" where
  "lookc f = getc (\<lambda>s. f (rx_world s))"

section \<open>Writing\<close>

definition append_and_fold :: "'w run_cfg \<Rightarrow> fact \<Rightarrow> ('w, position) run" where
  "append_and_fold c f =
     bindc (portc (pt_append (rc_ports c) f)) (\<lambda>pos. seqc (setc (\<lambda>s. s\<lparr>rx_log := rx_log s @ [f]\<rparr>)) (ret pos))"

definition emit_meta :: "'w run_cfg \<Rightarrow> string \<Rightarrow> json \<Rightarrow> (string \<times> string) list \<Rightarrow> ('w, unit) run" where
  "emit_meta c ty body extra = bindc (append_and_fold c (event_with_meta ty body extra)) (\<lambda>_. ret ())"

definition emit :: "'w run_cfg \<Rightarrow> string \<Rightarrow> json \<Rightarrow> ('w, unit) run" where
  "emit c ty body = emit_meta c ty body []"

text \<open>A first call claims the key; a claimed key appends nothing.\<close>

definition keyed_event :: "string \<Rightarrow> fact \<Rightarrow> ('w, fact option) run" where
  "keyed_event key f =
     bindc (getc (\<lambda>s. key \<in> rx_keys s)) (\<lambda>replay.
       if replay then ret None
       else seqc (setc (\<lambda>s. s\<lparr>rx_keys := insert key (rx_keys s)\<rparr>))
              (ret (Some (f\<lparr>fa_meta := fa_meta f @ [(META_REPLAY_KEY, key)]\<rparr>))))"

definition emit_keyed_meta ::
  "'w run_cfg \<Rightarrow> string \<Rightarrow> string \<Rightarrow> json \<Rightarrow> (string \<times> string) list \<Rightarrow> ('w, unit) run" where
  "emit_keyed_meta c key ty body extra =
     bindc (keyed_event key (event_with_meta ty body extra)) (\<lambda>f.
       case f of None \<Rightarrow> ret () | Some ev \<Rightarrow> bindc (append_and_fold c ev) (\<lambda>_. ret ()))"

definition emit_keyed :: "'w run_cfg \<Rightarrow> string \<Rightarrow> string \<Rightarrow> json \<Rightarrow> ('w, unit) run" where
  "emit_keyed c key ty body = emit_keyed_meta c key ty body []"

definition read_run :: "'w run_cfg \<Rightarrow> ('w, event list) run" where
  "read_run c = portc (pt_read_run (rc_ports c))"

definition record_lesson :: "'w run_cfg \<Rightarrow> string option \<Rightarrow> string \<Rightarrow> string \<Rightarrow> string list \<Rightarrow> ('w, unit) run" where
  "record_lesson c key lid summary about0 =
     (let about = filter (\<lambda>path. path \<noteq> []) about0;
          write = (\<lambda>about. let body = JObj [(''id'', JStr lid), (''summary'', JStr summary), (''about'', j_strs about)]
                    in case key of Some k \<Rightarrow> emit_keyed c k TYPE_LESSON_LEARNED body
                                 | None \<Rightarrow> emit c TYPE_LESSON_LEARNED body)
      in if about \<noteq> [] then write about
         else bindc (resultc (read_run c)) (\<lambda>r.
                let spec = (case r of Inr es \<Rightarrow> current_run_spec_path (rc_codec c) es | Inl _ \<Rightarrow> [])
                in write (if spec = [] then [] else [spec])))"

definition emit_lesson :: "'w run_cfg \<Rightarrow> string option \<Rightarrow> string \<Rightarrow> string \<Rightarrow> ('w, unit) run" where
  "emit_lesson c wt unit summary =
     bindc (case wt of None \<Rightarrow> ret (Inr [])
            | Some dir \<Rightarrow> resultc (portc (pt_changed_since_base (rc_ports c) dir))) (\<lambda>r.
       bindc (portc (pt_new_id (rc_ports c))) (\<lambda>uid.
         record_lesson c None (''lesson-'' @ unit @ ''-'' @ take 8 uid) summary (case r of Inr fs \<Rightarrow> fs | Inl _ \<Rightarrow> [])))"

section \<open>Reads of the state\<close>

definition gate_verdict_high_water :: "(string, bool \<times> string) btree \<Rightarrow> string \<Rightarrow> u32 option" where
  "gate_verdict_high_water verdicts unit =
     (case List.map_filter gate_key_attempt (filter (\<lambda>k. unit_of_gate_key k = Some unit) (bt_keys verdicts)) of
        [] \<Rightarrow> None | a # as' \<Rightarrow> Some (foldl max a as'))"

definition counted_attempts :: "'w run_cfg \<Rightarrow> string \<Rightarrow> u32" where
  "counted_attempts c unit =
     max (unwrap_or 0 (bt_get (rc_prior_attempts c) unit)) (unwrap_or 0 (bt_get (rc_compensation_attempts c) unit))"

definition effective_attempts :: "'w run_cfg \<Rightarrow> string \<Rightarrow> 'w rctx \<Rightarrow> u32" where
  "effective_attempts c unit s =
     max (counted_attempts c unit) (unwrap_or 0 (gate_verdict_high_water (rx_verdicts s) unit))"

definition logged_prior_failure :: "'w run_cfg \<Rightarrow> string \<Rightarrow> u32 \<Rightarrow> prior_failure" where
  "logged_prior_failure c unit attempts =
     (case bt_get (rc_prior_failure c) unit of
        Some failure \<Rightarrow> if bt_get (rc_prior_attempts c) unit = Some attempts then failure else no_failure
      | None \<Rightarrow> no_failure)"

definition attempt_gates_started :: "string \<Rightarrow> u32 \<Rightarrow> 'w rctx \<Rightarrow> bool" where
  "attempt_gates_started unit attempt s \<longleftrightarrow>
     gate_verdict_high_water (rx_verdicts s) unit = Some attempt \<or> verified_key unit attempt \<in> rx_keys s"

definition unit_max_retries :: "'w run_cfg \<Rightarrow> stage \<Rightarrow> u32" where
  "unit_max_retries c st = max_retries_for (w_defaults (rc_workflow c)) (rc_prior_resume_bound c) (s_name st) st"

text \<open>The spawn budget: a recorded spawn is a replay and free, zero is no budget.\<close>

definition reserve_spawn :: "'w run_cfg \<Rightarrow> string \<Rightarrow> ('w, bool) run" where
  "reserve_spawn c sid =
     (if sid \<in> rc_recorded_spawns c then ret True
      else
        (let budget = d_budget (w_defaults (rc_workflow c)) in
         bindc (getc rx_spawns) (\<lambda>n.
           if budget = 0 \<or> n < budget then seqc (setc (\<lambda>s. s\<lparr>rx_spawns := rx_spawns s + 1\<rparr>)) (ret True)
           else seqc (setc (\<lambda>s. s\<lparr>rx_budget_broke := True\<rparr>)) (ret False))))"

definition agent_model :: "'w run_cfg \<Rightarrow> string \<Rightarrow> u32 \<Rightarrow> string" where
  "agent_model c agent attempts =
     (case bt_get (rc_agents c) agent of Some a \<Rightarrow> model_for_attempt a attempts | None \<Rightarrow> [])"

definition agent_isolated :: "'w run_cfg \<Rightarrow> string \<Rightarrow> bool" where
  "agent_isolated c agent = (case bt_get (rc_agents c) agent of Some a \<Rightarrow> isolated a | None \<Rightarrow> True)"

definition assert_isolated_cwd :: "'w run_cfg \<Rightarrow> string \<Rightarrow> string \<Rightarrow> string \<Rightarrow> string + unit" where
  "assert_isolated_cwd c role agent dir =
     (if rc_repo c = [] then Inr ()
      else if dir = [] then
        Inl (role @ '' '' @ rc_debug c agent @ '' would run in the main repo checkout (empty cwd inherits the driver''
             @ [CHR 0x27] @ ''s cwd = the repo root); a worktree dir is required'')
      else if rc_same_path c dir (rc_repo c) then
        Inl (role @ '' '' @ rc_debug c agent @ '' would run directly in the main repo checkout ('' @ rc_debug c dir
             @ ''); a worktree dir distinct from the repo root is required'')
      else Inr ())"

section \<open>Infra marks and reruns\<close>

definition emit_infra_mark :: "'w run_cfg \<Rightarrow> string \<Rightarrow> string \<Rightarrow> u32 \<Rightarrow> u32 \<Rightarrow> string \<Rightarrow> ('w, unit) run" where
  "emit_infra_mark c unit status attempt ordinal detail =
     emit_keyed c (infra_mark_key unit status attempt ordinal) TYPE_UNIT_STATUS
       (JObj [(''id'', JStr unit), (''status'', JStr status), (''attempt'', j_num attempt),
              (''evidence'', JObj [(status, JStr detail)])])"

definition retry_infra_failure ::
  "'w run_cfg \<Rightarrow> string \<Rightarrow> u32 \<Rightarrow> infra_retries \<Rightarrow> string \<Rightarrow> string \<Rightarrow> ('w, infra_retries) run" where
  "retry_infra_failure c unit attempt infra cause evidence =
     (let detail = cause @ '': '' @ evidence in
      seqc (emit_infra_mark c unit STATUS_INFRA_RETRY attempt (ir_ordinal infra) detail)
        (if \<not> infra_exhausted infra (infra_limit (rc_taxonomy c)) then ret (infra_after infra STATUS_INFRA_RETRY)
         else seqc (emit_infra_mark c unit STATUS_INFRA_HALT attempt (ir_ordinal infra) detail)
                (fail (infra_halt (rc_debug c) unit attempt cause evidence))))"

text \<open>A result that carries a spawn crash is split from every other error.\<close>

definition infra_crash :: "('w, 'a) run \<Rightarrow> ('w, string + 'a) run" where
  "infra_crash r =
     bindc (resultc r) (\<lambda>res.
       case res of
         Inl e \<Rightarrow> if carries_marker e SPAWN_CRASH_MARKER then ret (Inl (replace_all SPAWN_CRASH_MARKER e)) else fail e
       | Inr x \<Rightarrow> ret (Inr x))"

section \<open>Sessions\<close>

definition liftc :: "string + 'a \<Rightarrow> ('w, 'a) run" where
  "liftc r = (case r of Inl e \<Rightarrow> fail e | Inr x \<Rightarrow> ret x)"

definition sayc :: "'w run_cfg \<Rightarrow> string \<Rightarrow> ('w, unit) run" where
  "sayc c msg = setc (\<lambda>s. s\<lparr>rx_world := pt_say (rc_ports c) msg (rx_world s)\<rparr>)"

text \<open>The spawn: the driver's answer, with how many findings the agent emitted.\<close>

definition spawn_agent :: "'w run_cfg \<Rightarrow> spawn_opts \<Rightarrow> string \<Rightarrow> (string \<times> string) list \<Rightarrow> ('w, agent_result \<times> nat) run" where
  "spawn_agent c opts prompt stamps =
     (\<lambda>s. case pt_spawn (rc_ports c) opts prompt (rx_world s) of
        ((r, emitted), w) \<Rightarrow>
          (map_sum id (\<lambda>result. (result, length (filter (\<lambda>(ty, _). ty = TYPE_REVIEW_FINDING) emitted))) r,
           s\<lparr>rx_world := w,
             rx_log := rx_log s @ map (\<lambda>(ty, body, _). event_with_meta ty body stamps) (filter (\<lambda>(_, _, ok). ok) emitted)\<rparr>))"

definition continue_prior_session :: "'w run_cfg \<Rightarrow> spawn_opts \<Rightarrow> string \<Rightarrow> string option \<Rightarrow> ('w, spawn_opts) run" where
  "continue_prior_session c opts role resume_task =
     (case opt_filter (\<lambda>t. trim t \<noteq> []) resume_task of
        None \<Rightarrow> ret opts
      | Some task \<Rightarrow>
          bindc (read_run c) (\<lambda>events.
            ret (case recorded_session (rc_probes c) events (so_unit opts) role (so_attempt opts) (so_dir opts) of
                   None \<Rightarrow> opts
                 | Some session \<Rightarrow> opts\<lparr>so_resumed_from := session, so_resume_task := task\<rparr>)))"

definition spawn_env :: "(string \<times> string) list \<Rightarrow> string \<Rightarrow> string \<Rightarrow> (string \<times> string) list" where
  "spawn_env vars dir cache =
     (case unit_sibling dir cache of None \<Rightarrow> vars | Some target \<Rightarrow> vars @ [(''CARGO_TARGET_DIR'', target)])"

definition record_session :: "'w run_cfg \<Rightarrow> spawn_opts \<Rightarrow> agent_result \<Rightarrow> ('w, unit) run" where
  "record_session c t r =
     (if ar_session_id r = [] then ret ()
      else
        seqc
          (whenc (so_resumed_from t \<noteq> [] \<and> ar_session_id r \<noteq> so_resumed_from t)
             (sayc c (''spawn '' @ so_id t @ '': session '' @ so_resumed_from t @ '' to resume is gone; it ran as a fresh session ''
                 @ ar_session_id r)))
          (emit_keyed_meta c (so_id t @ ''/session'') TYPE_UNIT_STATUS
             (JObj [(''id'', JStr (so_unit t)), (''status'', JStr STATUS_SPAWN_SESSION), (''attempt'', j_num (so_attempt t)),
                    (''dir'', JStr (so_dir t))])
             [(META_SPAWN, so_id t), (META_SESSION_ID, ar_session_id r), (META_RESUME_REQUESTED, so_resumed_from t),
              (META_RESUMED_FROM, ar_resumed_from r)]))"

section \<open>Re-running a refused spawn once\<close>

definition refusal_note :: "string \<Rightarrow> string" where
  "refusal_note e =
     ''Your previous run'' @ [CHR 0x27] @ ''s record was refused: '' @
     rev (dropWhile (\<lambda>ch. ch = CHR ''.'') (rev (strip_failure_marker e))) @ ''; emit it again correctly.''"

definition rerun_once_on_refusal ::
  "u32 \<Rightarrow> u32 \<Rightarrow> (u32 \<Rightarrow> string option \<Rightarrow> ('w, 'a) run) \<Rightarrow> ('w, 'a) run" where
  "rerun_once_on_refusal n limit spawn =
     bindc (resultc (spawn n None)) (\<lambda>r.
       case r of
         Inr x \<Rightarrow> ret x
       | Inl e \<Rightarrow>
           if n < limit \<and> carries_marker e EMIT_REFUSED_MARKER then spawn (n + 1) (Some (refusal_note e)) else fail e)"

section \<open>What a computation leaves of the state\<close>

lemma portc_Inr: "portc p s = (Inr x, t) \<longleftrightarrow> (\<exists>w. p (rx_world s) = (Inr x, w) \<and> t = s\<lparr>rx_world := w\<rparr>)"
  by (auto simp: portc_def split: prod.splits)

text \<open>The run keys of a unit's gates, and the states in which each claimed one has its verdict.\<close>

definition gate_run_keys :: "string \<Rightarrow> string set" where
  "gate_run_keys unit = {k. starts_with k (unit @ ''/gate:'') \<or> starts_with k (unit @ ''/postmerge-gate:'')}"

definition verdicted :: "string \<Rightarrow> 'w rctx \<Rightarrow> bool" where
  "verdicted unit s \<longleftrightarrow>
     (\<forall>k. bt_get (rx_verdicts s) k \<noteq> None \<longrightarrow> k \<in> rx_keys s) \<and>
     (\<forall>k \<in> gate_run_keys unit. k \<in> rx_keys s \<longrightarrow> bt_get (rx_verdicts s) k \<noteq> None)"

text \<open>Keys and the log only grow, and a recorded verdict stays.\<close>

definition ctx_le :: "string \<Rightarrow> 'w rctx \<Rightarrow> 'w rctx \<Rightarrow> bool" where
  "ctx_le unit s t \<longleftrightarrow>
     rx_keys s \<subseteq> rx_keys t \<and> (\<exists>new. rx_log t = rx_log s @ new) \<and>
     (verdicted unit s \<longrightarrow>
        verdicted unit t \<and> (\<forall>k v. bt_get (rx_verdicts s) k = Some v \<longrightarrow> bt_get (rx_verdicts t) k = Some v))"

lemma ctx_le_refl: "ctx_le unit s s"
  by (simp add: ctx_le_def)

lemma ctx_le_trans: "ctx_le unit s t \<Longrightarrow> ctx_le unit t u \<Longrightarrow> ctx_le unit s u"
  unfolding ctx_le_def by (auto 0 3)

interpretation ctx: state_order "ctx_le unit"
  by unfold_locales (rule ctx_le_refl, erule (1) ctx_le_trans)

named_theorems ctx_intros "the computations that move the state only forward"

lemmas [ctx_intros] = ctx.keeps_intros ctx.yields_intros

lemma ctx_le_world: "rx_keys t = rx_keys s \<Longrightarrow> rx_log t = rx_log s \<Longrightarrow> rx_verdicts t = rx_verdicts s \<Longrightarrow> ctx_le unit s t"
  by (simp add: ctx_le_def verdicted_def)

lemma ctx_portc [ctx_intros]: "keeps (ctx_le unit) (portc p)"
  by (auto intro!: keepsI ctx_le_world simp: portc_def split: prod.splits)

lemma ctx_append [ctx_intros]: "keeps (ctx_le unit) (append_and_fold c f)"
  unfolding append_and_fold_def
  by (intro ctx_intros ctx.keeps_setc) (simp add: ctx_le_def verdicted_def)

lemma ctx_emit_meta [ctx_intros]: "keeps (ctx_le unit) (emit_meta c ty body extra)"
  unfolding emit_meta_def by (intro ctx_intros)

lemma ctx_emit [ctx_intros]: "keeps (ctx_le unit) (emit c ty body)"
  unfolding emit_def by (intro ctx_intros)

lemma ctx_claim: "k \<notin> gate_run_keys unit \<Longrightarrow> ctx_le unit s (s\<lparr>rx_keys := insert k (rx_keys s)\<rparr>)"
  by (auto simp: ctx_le_def verdicted_def)

lemma ctx_keyed_event [ctx_intros]: "k \<notin> gate_run_keys unit \<Longrightarrow> keeps (ctx_le unit) (keyed_event k f)"
  unfolding keyed_event_def by (auto intro!: ctx_intros ctx.keeps_setc ctx_claim)

lemma ctx_emit_keyed_meta [ctx_intros]:
  "k \<notin> gate_run_keys unit \<Longrightarrow> keeps (ctx_le unit) (emit_keyed_meta c k ty body extra)"
  unfolding emit_keyed_meta_def by (auto intro!: ctx_intros split: option.split)

lemma ctx_emit_keyed [ctx_intros]: "k \<notin> gate_run_keys unit \<Longrightarrow> keeps (ctx_le unit) (emit_keyed c k ty body)"
  unfolding emit_keyed_def by (intro ctx_intros)

lemma ctx_record_lesson [ctx_intros]: "keeps (ctx_le unit) (record_lesson c None lid summary about)"
  unfolding record_lesson_def Let_def read_run_def by (auto intro!: ctx_intros)

lemma ctx_emit_lesson [ctx_intros]: "keeps (ctx_le unit) (emit_lesson c wt u summary)"
  unfolding emit_lesson_def by (auto intro!: ctx_intros split: option.split)

text \<open>Every other key of a unit continues its name and slash otherwise than a gate's run key does.\<close>

lemma not_gate_run_key:
  "\<not> starts_with x ''gate:'' \<Longrightarrow> \<not> starts_with x ''postmerge-gate:'' \<Longrightarrow> unit @ ''/'' @ x \<notin> gate_run_keys unit"
  by (simp add: gate_run_keys_def starts_with_def)

text \<open>Computations that record no verdict: they claim only keys in \<open>K\<close> and write only the types in \<open>T\<close>.\<close>

definition quiet :: "string set \<Rightarrow> string set \<Rightarrow> 'w rctx \<Rightarrow> 'w rctx \<Rightarrow> bool" where
  "quiet K T s t \<longleftrightarrow>
     rx_verdicts t = rx_verdicts s \<and> rx_greens t = rx_greens s \<and> rx_keys s \<subseteq> rx_keys t \<and> rx_keys t \<subseteq> rx_keys s \<union> K \<and>
     (\<exists>new. rx_log t = rx_log s @ new \<and> fa_type ` set new \<subseteq> T)"

lemma quiet_refl: "quiet K T s s"
  by (simp add: quiet_def)

lemma quiet_trans: "quiet K T s t \<Longrightarrow> quiet K T t u \<Longrightarrow> quiet K T s u"
  unfolding quiet_def by (auto 0 4 simp: image_Un)

interpretation quiet: state_order "quiet K T"
  by unfold_locales (rule quiet_refl, erule (1) quiet_trans)

named_theorems quiet_intros "the computations that record no verdict"

lemmas [quiet_intros] = quiet.keeps_intros

lemma quiet_portc [quiet_intros]: "keeps (quiet K T) (portc p)"
  by (auto intro!: keepsI simp: quiet_def portc_def split: prod.splits)

lemma quiet_append [quiet_intros]: "fa_type f \<in> T \<Longrightarrow> keeps (quiet K T) (append_and_fold c f)"
  unfolding append_and_fold_def by (intro quiet_intros quiet.keeps_setc) (simp add: quiet_def)

lemma quiet_emit_meta [quiet_intros]: "ty \<in> T \<Longrightarrow> keeps (quiet K T) (emit_meta c ty body extra)"
  unfolding emit_meta_def by (intro quiet_intros) (simp add: event_with_meta_def)

lemma quiet_emit [quiet_intros]: "ty \<in> T \<Longrightarrow> keeps (quiet K T) (emit c ty body)"
  unfolding emit_def by (intro quiet_intros)

lemma keyed_event_type: "keyed_event k f s = (Inr (Some g), t) \<Longrightarrow> fa_type g = fa_type f"
  by (auto simp: keyed_event_def bindc_def seqc_def getc_def setc_def ret_def split: if_splits)

lemma quiet_claim: "k \<in> K \<Longrightarrow> quiet K T s (s\<lparr>rx_keys := insert k (rx_keys s)\<rparr>)"
  by (auto simp: quiet_def)

lemma quiet_emit_keyed_meta [quiet_intros]:
  assumes "k \<in> K" "ty \<in> T"
  shows "keeps (quiet K T) (emit_keyed_meta c k ty body extra)"
proof (rule keepsI)
  fix s r t assume run: "emit_keyed_meta c k ty body extra s = (r, t)"
  show "quiet K T s t"
  proof (cases "k \<in> rx_keys s")
    case True
    with run show ?thesis
      by (simp add: emit_keyed_meta_def keyed_event_def bindc_def getc_def ret_def quiet_refl)
  next
    case False
    let ?f = "event_with_meta ty body extra\<lparr>fa_meta := fa_meta (event_with_meta ty body extra) @ [(META_REPLAY_KEY, k)]\<rparr>"
    let ?u = "s\<lparr>rx_keys := insert k (rx_keys s)\<rparr>"
    from run False have "bindc (append_and_fold c ?f) (\<lambda>_. ret ()) ?u = (r, t)"
      by (simp add: emit_keyed_meta_def keyed_event_def bindc_def seqc_def getc_def setc_def ret_def)
    moreover have "keeps (quiet K T) (bindc (append_and_fold c ?f) (\<lambda>_. ret ()))"
      by (intro quiet_intros) (simp add: event_with_meta_def assms(2))
    ultimately have "quiet K T ?u t" by (blast dest: keepsD)
    with quiet_claim [OF assms(1)] show ?thesis by (rule quiet_trans)
  qed
qed

lemma quiet_emit_keyed [quiet_intros]: "k \<in> K \<Longrightarrow> ty \<in> T \<Longrightarrow> keeps (quiet K T) (emit_keyed c k ty body)"
  unfolding emit_keyed_def by (intro quiet_intros)

lemma quiet_record_lesson [quiet_intros]:
  "TYPE_LESSON_LEARNED \<in> T \<Longrightarrow> keeps (quiet K T) (record_lesson c None lid summary about)"
  unfolding record_lesson_def Let_def read_run_def by (auto intro!: quiet_intros)

lemma quiet_emit_lesson [quiet_intros]: "TYPE_LESSON_LEARNED \<in> T \<Longrightarrow> keeps (quiet K T) (emit_lesson c wt u summary)"
  unfolding emit_lesson_def by (auto intro!: quiet_intros split: option.split)

lemma quiet_ctx_le: "quiet K T s t \<Longrightarrow> K \<inter> gate_run_keys unit = {} \<Longrightarrow> ctx_le unit s t"
proof -
  assume q: "quiet K T s t" and K: "K \<inter> gate_run_keys unit = {}"
  from q have same: "rx_verdicts t = rx_verdicts s" and keys: "rx_keys s \<subseteq> rx_keys t" "rx_keys t \<subseteq> rx_keys s \<union> K"
    and new: "\<exists>new. rx_log t = rx_log s @ new" by (auto simp: quiet_def)
  from K keys(2) have old: "k \<in> rx_keys s" if "k \<in> rx_keys t" "k \<in> gate_run_keys unit" for k
    using that by blast
  show "ctx_le unit s t"
    unfolding ctx_le_def verdicted_def same using keys(1) new old by blast
qed

end
