(* ===== verification/Unit_Gates.thy ===== *)
theory Unit_Gates
  imports Run_Ctx
begin

text \<open>
  A unit's gates (\<open>run_gates_at\<close>, \<open>emit_gate_skip\<close>, \<open>emit_gate_verdict\<close> of \<open>conductor.rs\<close>) and the
  phase boundary's deferred ones (\<open>run_deferred_gates\<close>). A gate is answered by its recorded verdict, by
  a blast-radius skip, by a green of the same command over the same commit, or by running it under the
  failure taxonomy. The gate's runs are the port's: run \<open>n\<close> of the command as a function of \<open>n\<close>, since a
  rerun reads the same tree. A rerun's wait and the machine-wide build budget have no answer and are not
  in the model.

  The lemmas here are the passes' frames: which verdicts a pass records and keeps, and which keys it
  claims. What a pass guarantees is in \<open>Gate_Runs\<close>.
\<close>

section \<open>The outcome of a gate run\<close>

record gate_outcome =
  go_pass :: bool
  go_evidence :: "string list"
  go_infra :: bool

definition gate_green :: gate_outcome where
  "gate_green = \<lparr>go_pass = True, go_evidence = [], go_infra = False\<rparr>"

definition gate_fail :: "gate_outcome \<Rightarrow> string \<Rightarrow> string \<Rightarrow> failure_class \<Rightarrow> gate_outcome" where
  "gate_fail out gid evidence cls =
     \<lparr>go_pass = False, go_evidence = go_evidence out @ [gid @ '': '' @ evidence],
      go_infra = ((go_pass out \<or> go_infra out) \<and> cls = Infra)\<rparr>"

definition gate_cause :: "gate_outcome \<Rightarrow> string" where
  "gate_cause out = (if go_infra out then CAUSE_INFRA_GATE else gate_failure_cause (go_evidence out))"

datatype gate_selection = Narrowed "string list" | Exhaustive | PostMerge

definition gate_intersects_radius :: "(string \<Rightarrow> string \<Rightarrow> bool) \<Rightarrow> string list \<Rightarrow> string list \<Rightarrow> bool" where
  "gate_intersects_radius re_match inputs blast_radius \<longleftrightarrow>
     inputs = [] \<or> (\<exists>pat \<in> set inputs. \<exists>f \<in> set blast_radius. glob_matches re_match pat f)"

section \<open>Recording a verdict or a skip\<close>

definition gate_conf_default :: gate_conf where
  "gate_conf_default = \<lparr>gc_run = [], gc_kind = [], gc_inputs = []\<rparr>"

definition gate_conf_of :: "'w run_cfg \<Rightarrow> string \<Rightarrow> gate_conf" where
  "gate_conf_of c gid = unwrap_or gate_conf_default (bt_get (rc_gates c) gid)"

text \<open>The gates a stage runs inline, and their record for a run of the command.\<close>

definition inline_gates :: "'w run_cfg \<Rightarrow> stage \<Rightarrow> string list" where
  "inline_gates c st = filter (\<lambda>gid. runs_inline (parse_gate_kind (gc_kind (gate_conf_of c gid)))) (s_gates st)"

definition fresh_gate :: "string \<Rightarrow> gate_conf \<Rightarrow> gate" where
  "fresh_gate gid gc =
     \<lparr>g_id = gid, g_run = gc_run gc, g_kind = parse_gate_kind (gc_kind gc), g_autonomy = Manual, g_history = []\<rparr>"

definition skip_reason :: "'w run_cfg \<Rightarrow> string \<Rightarrow> string list \<Rightarrow> string list \<Rightarrow> string" where
  "skip_reason c gid inputs blast_radius =
     ''skipped: gate '' @ rc_debug c gid @ '' inputs '' @ rc_debug_list c inputs @ '' do not intersect the unit''
     @ [CHR 0x27] @ ''s blast radius '' @ rc_debug_list c blast_radius
     @ ''; the inner loop runs only blast-radius gates (spec 12, unit 3), and the exhaustive integrate pass still runs this gate''"

text \<open>Claiming a replay key: whether the caller is its first.\<close>

definition claim_key :: "string \<Rightarrow> ('w, bool) run" where
  "claim_key key =
     bindc (getc (\<lambda>s. key \<in> rx_keys s)) (\<lambda>replay.
       if replay then ret False
       else seqc (setc (\<lambda>s. s\<lparr>rx_keys := insert key (rx_keys s)\<rparr>)) (ret True))"

definition emit_gate_skip ::
  "'w run_cfg \<Rightarrow> string \<Rightarrow> string \<Rightarrow> u32 \<Rightarrow> string list \<Rightarrow> string list \<Rightarrow> ('w, unit) run" where
  "emit_gate_skip c unit gid attempt inputs blast_radius =
     (let key = gate_key Skip unit attempt 0 gid in
      bindc (claim_key key) (\<lambda>first.
        if \<not> first then ret ()
        else bindc (append_and_fold c
               \<lparr>fa_type = TYPE_GATE_VERDICT,
                fa_body = JObj [(''gate'', JStr gid), (''pass'', JBool True), (''skipped'', JBool True),
                                (''evidence'', JStr (skip_reason c gid inputs blast_radius))],
                fa_meta = [(META_REPLAY_KEY, key)]\<rparr>) (\<lambda>_. ret ())))"

definition gate_verdict_fact ::
  "string \<Rightarrow> string \<Rightarrow> bool \<Rightarrow> bool \<Rightarrow> string \<Rightarrow> string \<Rightarrow> position option \<Rightarrow> fact" where
  "gate_verdict_fact key gid pass flaky evidence digest cache_hit_of =
     \<lparr>fa_type = TYPE_GATE_VERDICT,
      fa_body = JObj [(''gate'', JStr gid), (''pass'', JBool pass), (''flaky'', JBool flaky), (''evidence'', JStr evidence)],
      fa_meta = [(META_REPLAY_KEY, key)] @ (if digest = [] then [] else [(META_INPUT_DIGEST, digest)]) @
                (case cache_hit_of of None \<Rightarrow> [] | Some pos \<Rightarrow> [(META_CACHE_HIT, show_nat pos)])\<rparr>"

definition emit_gate_verdict ::
  "'w run_cfg \<Rightarrow> string \<Rightarrow> string \<Rightarrow> string \<Rightarrow> bool \<Rightarrow> bool \<Rightarrow> string \<Rightarrow> string \<Rightarrow> position option \<Rightarrow>
    ('w, unit) run" where
  "emit_gate_verdict c key unit gid pass flaky evidence digest cache_hit_of =
     bindc (claim_key key) (\<lambda>first.
       if \<not> first then ret ()
       else bindc (append_and_fold c (gate_verdict_fact key gid pass flaky evidence digest cache_hit_of)) (\<lambda>pos.
              setc (\<lambda>s. s\<lparr>rx_verdicts := bt_insert key (pass, evidence) (rx_verdicts s),
                          rx_greens := (if pass \<and> digest \<noteq> [] \<and> bt_get (rx_greens s) digest = None
                                        then bt_insert digest (pos, unit) (rx_greens s) else rx_greens s)\<rparr>)))"

section \<open>One inline gate\<close>

definition render_evidence :: "'w run_cfg \<Rightarrow> gate_evidence \<Rightarrow> string" where
  "render_evidence c e =
     (case e of Evidence ev \<Rightarrow> ev
      | FlakyEvidence gid n limit ev \<Rightarrow>
          ''flaky: gate '' @ rc_debug c gid @ '' failed then passed on rerun '' @ show_u32 n @ ''/'' @ show_u32 limit
          @ ''; first failure:'' @ [CHR 0x0A] @ ev)"

definition evidence_class :: "'w run_cfg \<Rightarrow> string \<Rightarrow> failure_class" where
  "evidence_class c evidence = fst (classify_gate_failure (rc_re_match c) (rc_taxonomy c) evidence)"

definition cache_hit_evidence :: "'w run_cfg \<Rightarrow> string \<Rightarrow> position \<Rightarrow> string \<Rightarrow> string \<Rightarrow> string" where
  "cache_hit_evidence c gid pos cached_unit digest =
     ''cache-hit: gate '' @ rc_debug c gid @ '' was proven green at log position '' @ show_nat pos @ '' (unit ''
     @ rc_debug c cached_unit @ '') for the same command and input digest '' @ digest @ ''; not re-run''"

definition gate_run_key :: "gate_selection \<Rightarrow> string \<Rightarrow> u32 \<Rightarrow> u32 \<Rightarrow> string \<Rightarrow> string" where
  "gate_run_key selection unit attempt ordinal gid =
     gate_key (case selection of PostMerge \<Rightarrow> PostMergeVerdict | _ \<Rightarrow> Verdict) unit attempt ordinal gid"

text \<open>The ratchet's reading of a run, and the event it writes.\<close>

definition track_gate ::
  "'w run_cfg \<Rightarrow> string \<Rightarrow> gate_kind \<Rightarrow> gate_ratchet \<Rightarrow> string \<Rightarrow> ('w, bool \<times> bool \<times> autonomy) run" where
  "track_gate c gid kind r stage_autonomy =
     (\<lambda>s. case record_gate (d_autonomy (w_defaults (rc_workflow c))) (rx_tracker s) gid kind r stage_autonomy of
            (tracker, out) \<Rightarrow> (Inr out, s\<lparr>rx_tracker := tracker\<rparr>))"

definition feed_ratchet :: "'w run_cfg \<Rightarrow> string \<Rightarrow> gate_kind \<Rightarrow> gate_ratchet \<Rightarrow> string \<Rightarrow> ('w, unit) run" where
  "feed_ratchet c gid kind r stage_autonomy =
     bindc (track_gate c gid kind r stage_autonomy) (\<lambda>(promoted, demoted, autonomy).
       let body = JObj [(''gate'', JStr gid), (''autonomy'', JStr (autonomy_str autonomy))]
       in if promoted then emit c TYPE_GATE_PROMOTED body
          else if demoted then emit c TYPE_GATE_DEMOTED body else ret ())"

definition red_of :: "'w run_cfg \<Rightarrow> gate_outcome \<Rightarrow> string \<Rightarrow> bool \<times> string \<Rightarrow> gate_outcome" where
  "red_of c out gid v = (case v of (pass, evidence) \<Rightarrow>
     if pass then out else gate_fail out gid evidence (evidence_class c evidence))"

text \<open>Running a gate's command: its first run and, as the taxonomy asks for them, its reruns.\<close>

definition run_command :: "'w run_cfg \<Rightarrow> gate \<Rightarrow> gate_env \<Rightarrow> ('w, nat \<Rightarrow> gate_result) run" where
  "run_command c g ge =
     (\<lambda>s. case pt_run_gate (rc_ports c) g ge (rx_world s) of (runs, w) \<Rightarrow> (Inr runs, s\<lparr>rx_world := w\<rparr>))"

definition run_fresh_gate ::
  "'w run_cfg \<Rightarrow> stage \<Rightarrow> string \<Rightarrow> gate_env \<Rightarrow> string \<Rightarrow> gate_outcome \<Rightarrow> string \<Rightarrow> ('w, gate_outcome) run" where
  "run_fresh_gate c st key ge digest out gid =
     (let gc = gate_conf_of c gid; g = fresh_gate gid gc in
      bindc (run_command c g ge) (\<lambda>runs.
        case run_gate_with_taxonomy (rc_re_match c) (rc_taxonomy c) g runs of (pass, flaky, ratchet, ev) \<Rightarrow>
          let evidence = render_evidence c ev in
          seqc (emit_gate_verdict c key (s_name st) gid pass flaky evidence digest None)
            (seqc (feed_ratchet c gid (g_kind g) ratchet (s_autonomy st)) (ret (red_of c out gid (pass, evidence))))))"

text \<open>The blast radius that keeps a gate out of a narrowed run.\<close>

definition narrowed_out :: "'w run_cfg \<Rightarrow> gate_selection \<Rightarrow> gate_conf \<Rightarrow> string list option" where
  "narrowed_out c selection gc =
     (case selection of
        Narrowed radius \<Rightarrow> if gate_intersects_radius (rc_re_match c) (gc_inputs gc) radius then None else Some radius
      | _ \<Rightarrow> None)"

definition run_inline_gate ::
  "'w run_cfg \<Rightarrow> stage \<Rightarrow> u32 \<Rightarrow> u32 \<Rightarrow> gate_selection \<Rightarrow> gate_env \<Rightarrow> string \<Rightarrow> gate_outcome \<Rightarrow> string \<Rightarrow>
    ('w, gate_outcome) run" where
  "run_inline_gate c st attempt ordinal selection ge commit_sha out gid =
     (let gc = gate_conf_of c gid; key = gate_run_key selection (s_name st) attempt ordinal gid;
          digest = input_digest (gc_run gc) commit_sha
      in if \<not> runs_inline (parse_gate_kind (gc_kind gc)) then ret out
         else
           bindc (getc (\<lambda>s. bt_get (rx_verdicts s) key)) (\<lambda>recorded.
             case recorded of
               Some v \<Rightarrow> ret (red_of c out gid v)
             | None \<Rightarrow>
                 (case narrowed_out c selection gc of
                    Some radius \<Rightarrow> seqc (emit_gate_skip c (s_name st) gid attempt (gc_inputs gc) radius) (ret out)
                  | None \<Rightarrow>
                      bindc (getc (\<lambda>s. if digest = [] then None else bt_get (rx_greens s) digest)) (\<lambda>green.
                        case green of
                          Some (pos, cached_unit) \<Rightarrow>
                            seqc (emit_gate_verdict c key (s_name st) gid True False
                                    (cache_hit_evidence c gid pos cached_unit digest) digest (Some pos)) (ret out)
                        | None \<Rightarrow> run_fresh_gate c st key ge digest out gid))))"

section \<open>A stage's inline gates\<close>

definition STORE_FENCE_SUFFIX :: string where
  "STORE_FENCE_SUFFIX = ''-store-fence''"

definition review_fence_sibling :: "string \<Rightarrow> string option" where
  "review_fence_sibling worktree_dir =
     (case path_file_name worktree_dir of
        None \<Rightarrow> None
      | Some name \<Rightarrow> if starts_with name ''rigger-review-'' then Some (worktree_dir @ STORE_FENCE_SUFFIX) else None)"

definition with_var :: "(string \<times> string) list \<Rightarrow> string \<Rightarrow> string \<Rightarrow> (string \<times> string) list" where
  "with_var vars name v = (if v = [] then vars else vars @ [(name, v)])"

definition or_else :: "'a option \<Rightarrow> 'a option \<Rightarrow> 'a option" where
  "or_else x y = (case x of None \<Rightarrow> y | Some _ \<Rightarrow> x)"

definition gate_env_of :: "'w run_cfg \<Rightarrow> stage \<Rightarrow> string \<Rightarrow> gate_selection \<Rightarrow> (string \<times> string) list \<Rightarrow> gate_env" where
  "gate_env_of c st dir selection env =
     (let postmerge = (if selection = PostMerge then Some (rc_unit_worktree_dir c (rc_scratch c) (s_name st)) else None);
          target = unwrap_or [] (or_else (unit_cache_sibling dir) (Option.bind postmerge unit_cache_sibling));
          sibling = (\<lambda>d. unit_sibling d UNIT_GATE_SCRATCH_PREFIX);
          cache = (if target = [] then rc_shared_cache c else ([], []))
      in \<lparr>ge_dir = dir, ge_target = target,
          ge_scratch = unwrap_or [] (or_else (sibling dir) (Option.bind postmerge sibling)),
          ge_cache_dir = fst cache, ge_cache_guard = snd cache,
          ge_store_fence = unwrap_or [] (review_fence_sibling dir), ge_env = env\<rparr>)"

definition build_env :: "'w run_cfg \<Rightarrow> ('w, (string \<times> string) list) run" where
  "build_env c = portc (pt_build_env (rc_ports c))"

text \<open>The run's base tip, empty when the run cannot be read or names none.\<close>

definition run_base_env :: "'w run_cfg \<Rightarrow> ('w, string) run" where
  "run_base_env c =
     bindc (resultc (read_run c)) (\<lambda>r.
       ret (case r of Inr es \<Rightarrow> unwrap_or [] (current_run_base_tip (rc_codec c) es) | Inl _ \<Rightarrow> []))"

definition gate_build_env :: "'w run_cfg \<Rightarrow> ('w, (string \<times> string) list) run" where
  "gate_build_env c =
     bindc (build_env c) (\<lambda>vars.
       bindc (run_base_env c) (\<lambda>base. ret (with_var vars ''RIGGER_RUN_BASE'' base)))"

definition head_sha_of :: "'w run_cfg \<Rightarrow> string \<Rightarrow> 'w \<Rightarrow> string" where
  "head_sha_of c dir w = (if dir = [] then [] else pt_head_sha (rc_ports c) dir w)"

definition run_gates_at ::
  "'w run_cfg \<Rightarrow> stage \<Rightarrow> string \<Rightarrow> u32 \<Rightarrow> u32 \<Rightarrow> gate_selection \<Rightarrow> ('w, gate_outcome) run" where
  "run_gates_at c st dir attempt ordinal selection =
     bindc (gate_build_env c) (\<lambda>env.
       bindc (lookc (head_sha_of c dir)) (\<lambda>commit_sha.
         foldc (run_inline_gate c st attempt ordinal selection (gate_env_of c st dir selection env) commit_sha)
           gate_green (s_gates st)))"

section \<open>The phase boundary's deferred gates\<close>

definition deferred_gate_verdict_key :: "string \<Rightarrow> string" where
  "deferred_gate_verdict_key gid = ''deferred/gate:'' @ gid"

definition deferred_gate_failed_key :: "string \<Rightarrow> string" where
  "deferred_gate_failed_key gid = ''deferred/failed:'' @ gid"

definition deferred_gates :: "'w run_cfg \<Rightarrow> (string, stage) btree \<Rightarrow> string list" where
  "deferred_gates c stages =
     rev (foldl (\<lambda>seen gid.
            if gid \<in> set seen \<or> runs_inline (parse_gate_kind (gc_kind (gate_conf_of c gid))) then seen else gid # seen) []
          (concat (map s_gates (bt_values stages))))"

definition deferred_env :: "'w run_cfg \<Rightarrow> (string \<times> string) list \<Rightarrow> gate_env" where
  "deferred_env c env =
     \<lparr>ge_dir = [], ge_target = [], ge_scratch = [], ge_cache_dir = fst (rc_shared_cache c),
      ge_cache_guard = snd (rc_shared_cache c), ge_store_fence = [], ge_env = env\<rparr>"

definition deferred_lesson :: "'w run_cfg \<Rightarrow> string \<Rightarrow> string \<Rightarrow> string" where
  "deferred_lesson c gid evidence =
     ''deferred gate '' @ rc_debug c gid @ '' failed at the phase boundary: '' @ evidence"

definition deferred_ratchet :: "'w run_cfg \<Rightarrow> gate_result \<Rightarrow> gate_ratchet" where
  "deferred_ratchet c res =
     (if res_pass res then CleanPass
      else for_persistent_failure
             (case classify_signal (rc_re_match c) (rc_taxonomy c) (signal_from_output (res_evidence res)) of
                Some rule \<Rightarrow> fr_class rule | None \<Rightarrow> Product))"

definition run_deferred_answer :: "'w run_cfg \<Rightarrow> string \<Rightarrow> gate_result \<Rightarrow> ('w, bool \<times> string) run" where
  "run_deferred_answer c gid res =
     seqc (emit_gate_verdict c (deferred_gate_verdict_key gid) [] gid (res_pass res) False (res_evidence res) [] None)
       (seqc (feed_ratchet c gid (g_kind (fresh_gate gid (gate_conf_of c gid))) (deferred_ratchet c res) [])
          (seqc (whenc (\<not> res_pass res)
                   (bindc (resultc (emit_lesson c None gid (deferred_lesson c gid (res_evidence res)))) (\<lambda>_. ret ())))
             (ret (res_pass res, res_evidence res))))"

definition run_fresh_deferred :: "'w run_cfg \<Rightarrow> string \<Rightarrow> ('w, bool \<times> string) run" where
  "run_fresh_deferred c gid =
     bindc (gate_build_env c) (\<lambda>env.
       bindc (run_command c (fresh_gate gid (gate_conf_of c gid)) (deferred_env c env)) (\<lambda>runs.
         run_deferred_answer c gid (runs 0)))"

definition run_deferred_gate :: "'w run_cfg \<Rightarrow> bool \<Rightarrow> string \<Rightarrow> ('w, unit) run" where
  "run_deferred_gate c converged gid =
     bindc (getc (\<lambda>s. bt_get (rx_verdicts s) (deferred_gate_verdict_key gid))) (\<lambda>recorded.
       if recorded = None \<and> \<not> converged then ret ()
       else
         bindc (case recorded of Some v \<Rightarrow> ret v | None \<Rightarrow> run_fresh_deferred c gid) (\<lambda>(pass, evidence).
           whenc (\<not> pass)
             (emit_keyed c (deferred_gate_failed_key gid) TYPE_DEFERRED_GATE_FAILED
                (JObj [(''gate'', JStr gid), (''evidence'', JStr evidence)]))))"

definition run_deferred_gates :: "'w run_cfg \<Rightarrow> (string, stage) btree \<Rightarrow> bool \<Rightarrow> ('w, unit) run" where
  "run_deferred_gates c stages converged = foreachc (run_deferred_gate c converged) (deferred_gates c stages)"

section \<open>What a gate run leaves\<close>

lemma quiet_build_env [quiet_intros]: "keeps (quiet K T) (gate_build_env c)"
  unfolding gate_build_env_def build_env_def run_base_env_def read_run_def by (intro quiet_intros)

lemma ctx_build_env [ctx_intros]: "keeps (ctx_le unit) (gate_build_env c)"
  unfolding gate_build_env_def build_env_def run_base_env_def read_run_def by (intro ctx_intros)

lemma claim_key_run: "claim_key key s = (if key \<in> rx_keys s then (Inr False, s)
    else (Inr True, s\<lparr>rx_keys := insert key (rx_keys s)\<rparr>))"
  by (simp add: claim_key_def bindc_def seqc_def getc_def setc_def ret_def)

lemma append_and_fold_run:
  "append_and_fold c f s =
     (case pt_append (rc_ports c) f (rx_world s) of
        (Inl e, w) \<Rightarrow> (Inl e, s\<lparr>rx_world := w\<rparr>)
      | (Inr pos, w) \<Rightarrow> (Inr pos, s\<lparr>rx_world := w, rx_log := rx_log s @ [f]\<rparr>))"
  by (simp add: append_and_fold_def portc_def bindc_def seqc_def setc_def ret_def split: prod.split sum.split)

lemma emit_gate_verdict_cases:
  assumes "emit_gate_verdict c key unit gid pass flaky evidence digest hit s = (Inr u, t)"
  obtains "key \<in> rx_keys s" "t = s"
  | pos w where "key \<notin> rx_keys s"
      "pt_append (rc_ports c) (gate_verdict_fact key gid pass flaky evidence digest hit) (rx_world s) = (Inr pos, w)"
      "t = s\<lparr>rx_world := w, rx_keys := insert key (rx_keys s),
             rx_log := rx_log s @ [gate_verdict_fact key gid pass flaky evidence digest hit],
             rx_verdicts := bt_insert key (pass, evidence) (rx_verdicts s),
             rx_greens := (if pass \<and> digest \<noteq> [] \<and> bt_get (rx_greens s) digest = None
                           then bt_insert digest (pos, unit) (rx_greens s) else rx_greens s)\<rparr>"
proof (cases "key \<in> rx_keys s")
  case True
  then have "t = s" using assms by (simp add: emit_gate_verdict_def bindc_def claim_key_run ret_def)
  with True show thesis by (rule that(1))
next
  case False
  let ?f = "gate_verdict_fact key gid pass flaky evidence digest hit"
  obtain r w where append: "pt_append (rc_ports c) ?f (rx_world s) = (r, w)" by fastforce
  then obtain pos where r: "r = Inr pos"
    using assms False by (cases r) (simp_all add: emit_gate_verdict_def bindc_def claim_key_run append_and_fold_run)
  from assms False have "t = s\<lparr>rx_world := w, rx_keys := insert key (rx_keys s), rx_log := rx_log s @ [?f],
             rx_verdicts := bt_insert key (pass, evidence) (rx_verdicts s),
             rx_greens := (if pass \<and> digest \<noteq> [] \<and> bt_get (rx_greens s) digest = None
                           then bt_insert digest (pos, unit) (rx_greens s) else rx_greens s)\<rparr>"
    by (auto simp: emit_gate_verdict_def bindc_def claim_key_run append_and_fold_run append r setc_def)
  with False append [unfolded r] show thesis by (rule that(2))
qed

lemma ctx_verdict:
  assumes "k \<notin> rx_keys s" and "rx_keys t = insert k (rx_keys s)" "rx_log t = rx_log s @ [f]"
    and "rx_verdicts t = bt_insert k v (rx_verdicts s)"
  shows "ctx_le u s t"
proof -
  have "verdicted u t \<and> (\<forall>k v. bt_get (rx_verdicts s) k = Some v \<longrightarrow> bt_get (rx_verdicts t) k = Some v)" if ok: "verdicted u s"
  proof -
    have fresh: "bt_get (rx_verdicts s) k = None" using ok assms(1) unfolding verdicted_def by blast
    have "bt_get (rx_verdicts t) k' \<noteq> None \<longrightarrow> k' \<in> rx_keys t" for k'
      using ok unfolding assms bt_get_insert verdicted_def by simp
    moreover have "k' \<in> rx_keys t \<longrightarrow> bt_get (rx_verdicts t) k' \<noteq> None" if "k' \<in> gate_run_keys u" for k'
      using ok that unfolding assms bt_get_insert verdicted_def by simp
    moreover have "bt_get (rx_verdicts t) k' = Some v'" if "bt_get (rx_verdicts s) k' = Some v'" for k' v'
      using that fresh unfolding assms bt_get_insert by auto
    ultimately show ?thesis by (simp add: verdicted_def)
  qed
  then show ?thesis unfolding ctx_le_def assms by blast
qed

lemma gate_verdict_yields [ctx_intros]: "yields (ctx_le u) (emit_gate_verdict c key unit gid pass flaky evidence digest hit)"
proof (rule yieldsI)
  fix s x t assume "emit_gate_verdict c key unit gid pass flaky evidence digest hit s = (Inr x, t)"
  then show "ctx_le u s t"
  proof (cases rule: emit_gate_verdict_cases)
    case 1
    then show ?thesis by (simp add: ctx_le_refl)
  next
    case (2 pos w)
    show ?thesis by (rule ctx_verdict [OF 2(1)]) (simp_all add: 2(3))
  qed
qed

lemma gate_verdict_recorded:
  assumes "emit_gate_verdict c key unit gid pass flaky evidence digest hit s = (Inr u, t)"
    and "key \<notin> rx_keys s"
  shows "bt_get (rx_verdicts t) key = Some (pass, evidence)"
  using assms(1) by (cases rule: emit_gate_verdict_cases) (use assms(2) in \<open>simp_all add: bt_get_insert\<close>)

lemma gate_skip_key: "gate_key Skip unit attempt retry gid \<notin> gate_run_keys u"
  if "u = unit" for u
  unfolding that gate_key_def with_retry_def gate_infix_def
  by (simp add: gate_run_keys_def starts_with_def)

lemma gate_skip_keeps [ctx_intros]: "keeps (ctx_le unit) (emit_gate_skip c unit gid attempt inputs radius)"
  unfolding emit_gate_skip_def claim_key_def Let_def
  by (auto intro!: ctx_intros ctx.keeps_setc ctx_claim simp: gate_skip_key)

lemma track_gate_keeps [ctx_intros]: "keeps (ctx_le unit) (track_gate c gid kind r autonomy)"
  by (auto intro!: keepsI ctx_le_world simp: track_gate_def split: prod.splits)

lemma feed_ratchet_keeps [ctx_intros]: "keeps (ctx_le unit) (feed_ratchet c gid kind r autonomy)"
  unfolding feed_ratchet_def Let_def by (auto intro!: ctx_intros split: prod.split)

lemma run_command_Inr:
  "run_command c g ge s = (Inr runs, t) \<longleftrightarrow> (\<exists>w. pt_run_gate (rc_ports c) g ge (rx_world s) = (runs, w) \<and> t = s\<lparr>rx_world := w\<rparr>)"
  by (auto simp: run_command_def split: prod.splits)

lemma quiet_run_command [quiet_intros]: "keeps (quiet K T) (run_command c g ge)"
  by (auto intro!: keepsI simp: quiet_def run_command_def split: prod.splits)

lemma ctx_run_command [ctx_intros]: "keeps (ctx_le unit) (run_command c g ge)"
  by (auto intro!: keepsI ctx_le_world simp: run_command_def split: prod.splits)

lemma fresh_gate_yields [ctx_intros]: "yields (ctx_le unit) (run_fresh_gate c st key ge digest out gid)"
  unfolding run_fresh_gate_def Let_def
  by (auto intro!: ctx_intros keeps_yields [OF ctx_run_command] keeps_yields [OF feed_ratchet_keeps] split: prod.split)

lemma inline_gate_yields [ctx_intros]:
  "yields (ctx_le (s_name st)) (run_inline_gate c st attempt ordinal selection ge commit_sha out gid)"
  unfolding run_inline_gate_def Let_def
  by (auto intro!: ctx_intros keeps_yields [OF gate_skip_keeps] split: option.split prod.split)

lemma run_gate_key_in: "gate_run_key selection unit attempt ordinal gid \<in> gate_run_keys unit"
  by (cases selection) (simp_all add: gate_run_key_def gate_key_def with_retry_def gate_infix_def gate_run_keys_def starts_with_def)

lemma run_gate_key_inject:
  "gate_run_key selection unit attempt ordinal gid = gate_run_key selection unit attempt ordinal gid' \<longleftrightarrow> gid = gid'"
  by (cases selection) (auto simp: gate_run_key_def gate_key_def with_retry_def)

text \<open>What a state's verdicts say of a gate, and when they have said it.\<close>

definition is_inline :: "'w run_cfg \<Rightarrow> string \<Rightarrow> bool" where
  "is_inline c gid \<longleftrightarrow> runs_inline (parse_gate_kind (gc_kind (gate_conf_of c gid)))"

definition recorded_verdict :: "stage \<Rightarrow> u32 \<Rightarrow> u32 \<Rightarrow> gate_selection \<Rightarrow> string \<Rightarrow> 'w rctx \<Rightarrow> (bool \<times> string) option" where
  "recorded_verdict st attempt ordinal selection gid s =
     bt_get (rx_verdicts s) (gate_run_key selection (s_name st) attempt ordinal gid)"

definition gate_answer ::
  "'w run_cfg \<Rightarrow> stage \<Rightarrow> u32 \<Rightarrow> u32 \<Rightarrow> gate_selection \<Rightarrow> 'w rctx \<Rightarrow> gate_outcome \<Rightarrow> string \<Rightarrow> gate_outcome" where
  "gate_answer c st attempt ordinal selection s out gid =
     (if \<not> is_inline c gid then out
      else case recorded_verdict st attempt ordinal selection gid s of Some v \<Rightarrow> red_of c out gid v | None \<Rightarrow> out)"

definition gate_settled :: "'w run_cfg \<Rightarrow> stage \<Rightarrow> u32 \<Rightarrow> u32 \<Rightarrow> gate_selection \<Rightarrow> 'w rctx \<Rightarrow> string \<Rightarrow> bool" where
  "gate_settled c st attempt ordinal selection s gid \<longleftrightarrow>
     (is_inline c gid \<longrightarrow>
        recorded_verdict st attempt ordinal selection gid s \<noteq> None \<or>
        narrowed_out c selection (gate_conf_of c gid) \<noteq> None \<and>
        gate_key Skip (s_name st) attempt 0 gid \<in> rx_keys s)"

lemma fresh_gate_records:
  assumes run: "run_fresh_gate c st key ge digest out gid s = (Inr out', t)"
    and ok: "verdicted (s_name st) s" and key: "key \<notin> rx_keys s"
  shows "\<exists>v. bt_get (rx_verdicts t) key = Some v \<and> out' = red_of c out gid v"
proof -
  let ?g = "fresh_gate gid (gate_conf_of c gid)"
  from run obtain runs w where after: "(case run_gate_with_taxonomy (rc_re_match c) (rc_taxonomy c) ?g runs of
        (pass, flaky, ratchet, ev) \<Rightarrow>
          seqc (emit_gate_verdict c key (s_name st) gid pass flaky (render_evidence c ev) digest None)
            (seqc (feed_ratchet c gid (g_kind ?g) ratchet (s_autonomy st))
               (ret (red_of c out gid (pass, render_evidence c ev))))) (s\<lparr>rx_world := w\<rparr>) = (Inr out', t)"
    unfolding run_fresh_gate_def Let_def by (auto simp: bindc_Inr run_command_Inr)
  obtain pass flaky ratchet ev
    where r: "run_gate_with_taxonomy (rc_re_match c) (rc_taxonomy c) ?g runs = (pass, flaky, ratchet, ev)"
    by (cases "run_gate_with_taxonomy (rc_re_match c) (rc_taxonomy c) ?g runs") auto
  from after obtain t1
    where v: "emit_gate_verdict c key (s_name st) gid pass flaky (render_evidence c ev) digest None (s\<lparr>rx_world := w\<rparr>)
                = (Inr (), t1)"
      and f: "feed_ratchet c gid (g_kind ?g) ratchet (s_autonomy st) t1 = (Inr (), t)"
      and out: "out' = red_of c out gid (pass, render_evidence c ev)"
    by (auto simp: r run_Inr)
  have "bt_get (rx_verdicts t1) key = Some (pass, render_evidence c ev)"
    by (rule gate_verdict_recorded [OF v]) (simp add: key)
  moreover have "ctx_le (s_name st) t1 t"
    using feed_ratchet_keeps f by (rule keepsD)
  moreover have "verdicted (s_name st) t1"
    using yieldsD [OF gate_verdict_yields v, of "s_name st"] ok by (simp add: ctx_le_def verdicted_def)
  ultimately show ?thesis using out by (auto simp: ctx_le_def)
qed

lemma skip_run: "emit_gate_skip c unit gid attempt inputs radius s = (Inr u, t) \<Longrightarrow> gate_key Skip unit attempt 0 gid \<in> rx_keys t"
  unfolding emit_gate_skip_def Let_def bindc_Inr claim_key_run
  by (auto simp: bindc_Inr append_and_fold_run ret_def split: if_splits prod.splits sum.splits)

lemma recorded_mono:
  "ctx_le (s_name st) s t \<Longrightarrow> verdicted (s_name st) s \<Longrightarrow>
   recorded_verdict st attempt ordinal selection gid s = Some v \<Longrightarrow>
   recorded_verdict st attempt ordinal selection gid t = Some v"
  unfolding ctx_le_def recorded_verdict_def by blast

lemma settled_mono:
  assumes "ctx_le (s_name st) s t" "verdicted (s_name st) s" "gate_settled c st attempt ordinal selection s gid"
  shows "gate_settled c st attempt ordinal selection t gid"
  using assms recorded_mono [OF assms(1,2)] unfolding gate_settled_def ctx_le_def by blast

text \<open>A settled gate is answered from the state, which stays as it is.\<close>

lemma settled_gate_replays:
  assumes "gate_settled c st attempt ordinal selection s gid"
  shows "run_inline_gate c st attempt ordinal selection ge commit_sha out gid s =
           (Inr (gate_answer c st attempt ordinal selection s out gid), s)"
proof (cases "is_inline c gid \<and> recorded_verdict st attempt ordinal selection gid s = None")
  case True
  with assms obtain radius where "narrowed_out c selection (gate_conf_of c gid) = Some radius"
    and "gate_key Skip (s_name st) attempt 0 gid \<in> rx_keys s"
    by (auto simp: gate_settled_def)
  with True show ?thesis
    by (simp add: run_inline_gate_def Let_def is_inline_def recorded_verdict_def gate_answer_def bindc_def getc_def
        seqc_def emit_gate_skip_def claim_key_run ret_def)
next
  case False
  then show ?thesis
    by (auto simp: run_inline_gate_def Let_def is_inline_def recorded_verdict_def gate_answer_def bindc_def getc_def ret_def)
qed

lemma inline_gate_settles:
  assumes run: "run_inline_gate c st attempt ordinal selection ge commit_sha out gid s = (Inr out', t)"
    and ok: "verdicted (s_name st) s"
  shows "ctx_le (s_name st) s t" "gate_settled c st attempt ordinal selection t gid"
    "out' = gate_answer c st attempt ordinal selection t out gid"
proof -
  let ?key = "gate_run_key selection (s_name st) attempt ordinal gid"
  let ?digest = "input_digest (gc_run (gate_conf_of c gid)) commit_sha"
  show le: "ctx_le (s_name st) s t" by (rule yieldsD [OF inline_gate_yields run])
  have "gate_settled c st attempt ordinal selection t gid \<and> out' = gate_answer c st attempt ordinal selection t out gid"
  proof (cases "is_inline c gid \<and> recorded_verdict st attempt ordinal selection gid s = None")
    case False
    then have "gate_settled c st attempt ordinal selection s gid" by (auto simp: gate_settled_def)
    with run settled_gate_replays [OF this, of ge commit_sha out] show ?thesis by auto
  next
    case new: True
    then have fresh: "?key \<notin> rx_keys s"
      using ok run_gate_key_in unfolding verdicted_def recorded_verdict_def by blast
    show ?thesis
    proof (cases "narrowed_out c selection (gate_conf_of c gid)")
      case (Some radius)
      with new run have skip: "emit_gate_skip c (s_name st) gid attempt (gc_inputs (gate_conf_of c gid)) radius s = (Inr (), t)"
        and out: "out' = out"
        unfolding run_inline_gate_def Let_def bindc_Inr
        by (auto simp: is_inline_def recorded_verdict_def getc_def seqc_def bindc_Inr ret_def)
      have "recorded_verdict st attempt ordinal selection gid t = None"
        using skip new unfolding emit_gate_skip_def Let_def recorded_verdict_def bindc_Inr claim_key_run
        by (auto simp: bindc_Inr append_and_fold_run ret_def split: if_splits prod.splits sum.splits)
      with skip_run [OF skip] out Some show ?thesis by (simp add: gate_settled_def gate_answer_def)
    next
      case None
      consider (hit) pos cached where
          "emit_gate_verdict c ?key (s_name st) gid True False (cache_hit_evidence c gid pos cached ?digest) ?digest (Some pos) s
             = (Inr (), t)" "out' = out"
        | (fresh) "run_fresh_gate c st ?key ge ?digest out gid s = (Inr out', t)"
        using new None run unfolding run_inline_gate_def Let_def bindc_Inr
        by (auto simp: is_inline_def recorded_verdict_def getc_def seqc_def bindc_Inr ret_def split: option.splits if_splits)
      then show ?thesis
      proof cases
        case hit
        from gate_verdict_recorded [OF hit(1) fresh] hit(2) new show ?thesis
          by (simp add: gate_settled_def gate_answer_def recorded_verdict_def red_of_def)
      next
        case fresh
        from fresh_gate_records [OF fresh ok \<open>?key \<notin> rx_keys s\<close>] new show ?thesis
          by (auto simp: gate_settled_def gate_answer_def recorded_verdict_def)
      qed
    qed
  qed
  then show "gate_settled c st attempt ordinal selection t gid" "out' = gate_answer c st attempt ordinal selection t out gid"
    by simp_all
qed

text \<open>A gate's run writes no other gate's verdict, and a skip writes none.\<close>

definition same_verdict :: "string \<Rightarrow> 'w rctx \<Rightarrow> 'w rctx \<Rightarrow> bool" where
  "same_verdict k s t \<longleftrightarrow> bt_get (rx_verdicts t) k = bt_get (rx_verdicts s) k"

interpretation vd: state_order "same_verdict k"
  by unfold_locales (simp_all add: same_verdict_def)

named_theorems vd_intros "the computations that leave a verdict as it is"

lemmas [vd_intros] = vd.keeps_intros vd.yields_intros

lemma quiet_same_verdict: "quiet K T s t \<Longrightarrow> same_verdict k s t"
  by (simp add: quiet_def same_verdict_def)

lemma quiet_track [quiet_intros]: "keeps (quiet K T) (track_gate c gid kind r autonomy)"
  by (auto intro!: keepsI simp: quiet_def track_gate_def split: prod.splits)

lemma quiet_ratchet [quiet_intros]:
  "{TYPE_GATE_PROMOTED, TYPE_GATE_DEMOTED} \<subseteq> T \<Longrightarrow> keeps (quiet K T) (feed_ratchet c gid kind r autonomy)"
  unfolding feed_ratchet_def Let_def by (auto intro!: quiet_intros split: prod.split)

lemma quiet_skip [quiet_intros]:
  assumes "gate_key Skip unit attempt 0 gid \<in> K" "TYPE_GATE_VERDICT \<in> T"
  shows "keeps (quiet K T) (emit_gate_skip c unit gid attempt inputs radius)"
proof -
  have "keeps (quiet K T) (claim_key (gate_key Skip unit attempt 0 gid))"
    unfolding claim_key_def by (intro quiet_intros quiet.keeps_setc) (auto intro!: quiet_intros quiet.keeps_setc quiet_claim assms)
  then show ?thesis
    unfolding emit_gate_skip_def Let_def by (auto intro!: quiet_intros simp: assms)
qed

lemma vd_run_command [vd_intros]: "keeps (same_verdict k) (run_command c g ge)"
  by (rule keeps_mono [OF quiet_run_command [of "{}" "{}"] quiet_same_verdict])

lemma vd_ratchet [vd_intros]: "keeps (same_verdict k) (feed_ratchet c gid kind r autonomy)"
  by (rule keeps_mono [OF quiet_ratchet [OF subset_UNIV, of "{}"] quiet_same_verdict])

lemma vd_skip [vd_intros]: "keeps (same_verdict k) (emit_gate_skip c unit gid attempt inputs radius)"
  by (rule keeps_mono [OF quiet_skip [of _ _ _ UNIV UNIV] quiet_same_verdict]) simp_all

lemma vd_verdict [vd_intros]:
  assumes "k \<noteq> key"
  shows "yields (same_verdict k) (emit_gate_verdict c key unit gid pass flaky evidence digest hit)"
proof (rule yieldsI)
  fix s x t assume "emit_gate_verdict c key unit gid pass flaky evidence digest hit s = (Inr x, t)"
  then show "same_verdict k s t"
    by (cases rule: emit_gate_verdict_cases) (use assms in \<open>simp_all add: same_verdict_def bt_get_insert\<close>)
qed

lemma vd_fresh [vd_intros]: "k \<noteq> key \<Longrightarrow> yields (same_verdict k) (run_fresh_gate c st key ge digest out gid)"
  unfolding run_fresh_gate_def Let_def
  by (auto intro!: vd_intros keeps_yields [OF vd_run_command] keeps_yields [OF vd_ratchet] split: prod.split)

lemma inline_gate_frame:
  assumes "k \<noteq> gate_run_key selection (s_name st) attempt ordinal gid \<or> narrowed_out c selection (gate_conf_of c gid) \<noteq> None"
  shows "yields (same_verdict k) (run_inline_gate c st attempt ordinal selection ge commit_sha out gid)"
  using assms unfolding run_inline_gate_def Let_def
  by (auto intro!: vd_intros keeps_yields [OF vd_skip] split: option.split prod.split)

text \<open>A gate's answer stays what it was while the later gates run.\<close>

lemma answer_stable:
  assumes run: "foldc (run_inline_gate c st attempt ordinal selection ge commit_sha) out gs s = (Inr out', t)"
    and ok: "verdicted (s_name st) s" and settled: "gate_settled c st attempt ordinal selection s gid"
  shows "gate_answer c st attempt ordinal selection t o' gid = gate_answer c st attempt ordinal selection s o' gid"
proof (cases "\<not> is_inline c gid \<or> recorded_verdict st attempt ordinal selection gid s \<noteq> None")
  case True
  have "yields (ctx_le (s_name st)) (foldc (run_inline_gate c st attempt ordinal selection ge commit_sha) out gs)"
    by (intro ctx_intros)
  then have "ctx_le (s_name st) s t" using run by (rule yieldsD)
  note le = this
  show ?thesis
  proof (cases "recorded_verdict st attempt ordinal selection gid s")
    case None
    with True show ?thesis by (simp add: gate_answer_def)
  next
    case (Some v)
    show ?thesis using Some recorded_mono [OF le ok Some] by (simp add: gate_answer_def)
  qed
next
  case False
  let ?k = "gate_run_key selection (s_name st) attempt ordinal gid"
  from False settled have out: "narrowed_out c selection (gate_conf_of c gid) \<noteq> None" by (simp add: gate_settled_def)
  have "yields (same_verdict ?k) (run_inline_gate c st attempt ordinal selection ge commit_sha b x)" for b x
    by (rule inline_gate_frame, cases "x = gid") (simp_all add: out run_gate_key_inject)
  then have "yields (same_verdict ?k) (foldc (run_inline_gate c st attempt ordinal selection ge commit_sha) out gs)"
    by (rule vd.yields_foldc)
  then have "same_verdict ?k s t" using run by (rule yieldsD)
  then show ?thesis by (simp add: gate_answer_def recorded_verdict_def same_verdict_def)
qed

lemma gates_settle:
  assumes "foldc (run_inline_gate c st attempt ordinal selection ge commit_sha) out gs s = (Inr out', t)"
    and "verdicted (s_name st) s"
  shows "ctx_le (s_name st) s t \<and> (\<forall>gid \<in> set gs. gate_settled c st attempt ordinal selection t gid) \<and>
         out' = foldl (gate_answer c st attempt ordinal selection t) out gs"
  using assms
proof (induction gs arbitrary: out s)
  case Nil
  then show ?case by (simp add: ret_def ctx_le_refl)
next
  case (Cons gid gs)
  then obtain b u where one: "run_inline_gate c st attempt ordinal selection ge commit_sha out gid s = (Inr b, u)"
    and rest: "foldc (run_inline_gate c st attempt ordinal selection ge commit_sha) b gs u = (Inr out', t)"
    by (auto simp: bindc_Inr)
  note first = inline_gate_settles [OF one Cons.prems(2)]
  have ok: "verdicted (s_name st) u" using first(1) Cons.prems(2) by (simp add: ctx_le_def)
  note later = Cons.IH [OF rest ok]
  have "gate_answer c st attempt ordinal selection t out gid = b"
    using answer_stable [OF rest ok first(2)] first(3) by simp
  with first later settled_mono [OF _ ok first(2)] ctx_le_trans show ?case by auto
qed

lemma settled_gates_replay:
  "\<forall>gid \<in> set gs. gate_settled c st attempt ordinal selection s gid \<Longrightarrow>
   foldc (run_inline_gate c st attempt ordinal selection ge commit_sha) out gs s =
     (Inr (foldl (gate_answer c st attempt ordinal selection s) out gs), s)"
proof (induction gs arbitrary: out)
  case Nil
  then show ?case by (simp add: ret_def)
next
  case (Cons gid gs)
  then show ?case by (simp add: bindc_def settled_gate_replays)
qed

end
