(* ===== verification/Unit_Review.thy ===== *)
theory Unit_Review
  imports Unit_Gates
begin

text \<open>
  The review of a unit (\<open>review_unit\<close>, \<open>run_reviewer\<close>, \<open>run_adjudicator\<close>, \<open>split_reject\<close>,
  \<open>guard_review_round_tree\<close> of \<open>conductor.rs\<close>) and the test author's seam before it
  (\<open>spawn_sdet_author\<close>). The lenses of a chunk run on threads; the model runs them in the chunk's
  order, which is one of the orders the threads can take, and reads their results as the source does.
  Prompts are the ports' text.
\<close>

abbreviation "META_ACTOR \<equiv> ''actor''"
abbreviation "REVIEWER_RESPAWN_BOUND \<equiv> (2 :: u32)"
abbreviation "OUTPUT_TAIL_CHARS \<equiv> (600 :: nat)"

section \<open>Reviewer spawns\<close>

definition review_retry_window :: "u32 \<Rightarrow> u32 \<times> u32" where
  "review_retry_window ordinal =
     (let first = ordinal * (REVIEWER_RESPAWN_BOUND + 1) in (first, first + REVIEWER_RESPAWN_BOUND))"

definition window_ids :: "u32 \<times> u32 \<Rightarrow> u32 list" where
  "window_ids w = map of_nat [unat (fst w)..<Suc (unat (snd w))]"

datatype reviewer_output = OutFindings | OutVerdict | OutRoundVerdict

definition rejects_without_required :: "codec \<Rightarrow> string \<Rightarrow> bool" where
  "rejects_without_required D output \<longleftrightarrow>
     \<not> verdict_approves D output \<and>
     (case adjudication_parse D output of None \<Rightarrow> False
      | Some a \<Rightarrow> ad_verdict a \<noteq> None \<and> ad_required a = [] \<and> \<not> is_infra_fault a)"

datatype spawn_halt_kind = BudgetRefused | VerdictChannelMismatch

definition stage_says :: "'w run_cfg \<Rightarrow> string \<Rightarrow> string \<Rightarrow> string \<Rightarrow> string" where
  "stage_says c name label agent = ''stage '' @ rc_debug c name @ '' '' @ label @ '' '' @ rc_debug c agent"

definition spawn_halt :: "'w run_cfg \<Rightarrow> spawn_halt_kind \<Rightarrow> string \<Rightarrow> string \<Rightarrow> string \<Rightarrow> string" where
  "spawn_halt c kind name label agent =
     (case kind of
        BudgetRefused \<Rightarrow> BUDGET_MARKER @ '' '' @ stage_says c name label agent @ '': spawn budget exhausted''
      | VerdictChannelMismatch \<Rightarrow>
          MISMATCH_MARKER @ stage_says c name label agent @ '' returned NO verdict line on its result output, yet emitted an ''
          @ ''approve-shaped verdict via rigger_emit during the spawn: the gate reads the result channel, not emitted events; ''
          @ ''end your output with the verdict line (e.g. {'' @ [CHR 0x22] @ ''verdict'' @ [CHR 0x22] @ '':'' @ [CHR 0x22]
          @ ''approve'' @ [CHR 0x22] @ ''}). The run halts and the unit is NOT charged a remediation attempt - a gating persona ''
          @ ''that records its verdict only as an emitted event is a configuration fault, not a reject. Fix the ''
          @ rc_debug c agent @ '' persona to end its output with the verdict line, then re-run.'')"

definition output_tail :: "string \<Rightarrow> string" where
  "output_tail output =
     (let chs = utf8_chars (trim output) in concat (drop (length chs - OUTPUT_TAIL_CHARS) chs))"

definition no_verdict_line :: "'w run_cfg \<Rightarrow> string \<Rightarrow> string \<Rightarrow> string \<Rightarrow> string \<Rightarrow> string \<Rightarrow> string" where
  "no_verdict_line c name label agent sid output =
     stage_says c name label agent @ '': the reviewer exited with no verdict line on spawn '' @ rc_debug c sid
     @ '' - an infrastructure fault on the spawn, not a reject; the review is re-driven once as a fresh attempt and the ''
     @ ''unit is charged nothing. Its output ended: '' @ output_tail output"

definition verdictless_reviewer :: "'w run_cfg \<Rightarrow> string \<Rightarrow> string \<Rightarrow> string \<Rightarrow> string \<Rightarrow> string \<Rightarrow> string" where
  "verdictless_reviewer c name label agent sid output =
     MISMATCH_MARKER @ stage_says c name label agent @ '': the reviewer exited with no verdict line on spawn ''
     @ rc_debug c sid @ '' and its review has no re-drive left (a verdict-less result re-drives the review once). ''
     @ ''A verdict-less result is an infrastructure fault on the spawn, not a reject: the run halts and the unit is NOT ''
     @ ''charged a remediation attempt. A reviewer ends this way when its session closes while work it started is still ''
     @ ''running. Recover by recording the reviewer'' @ [CHR 0x27] @ ''s verdict for the spawn with `rigger result ''
     @ rc_debug c sid @ '' --supersede <output ending in the verdict line>`, then re-run. Its output ended: ''
     @ output_tail output"

definition degenerate_reviewer :: "'w run_cfg \<Rightarrow> string \<Rightarrow> string \<Rightarrow> string \<Rightarrow> string \<Rightarrow> u32 \<Rightarrow> u32 \<Rightarrow> string" where
  "degenerate_reviewer c name label agent role attempt ordinal =
     DEGENERATE_MARKER @ stage_says c name label agent @ '' returned empty/whitespace-only output on all ''
     @ show_u32 (REVIEWER_RESPAWN_BOUND + 1) @ '' spawns (its original spawn plus '' @ show_u32 REVIEWER_RESPAWN_BOUND
     @ '' respawns): a degenerate reviewer result is an infrastructure failure, not a verdict - the run halts and the unit ''
     @ ''is NOT charged a remediation attempt. Recover by re-driving the reviewer and recording a SUBSTANTIVE result for ''
     @ ''one of its spawn ids over the empty one with `--supersede` (results are last-write-wins, and a plain record ''
     @ ''refuses to replace an ended spawn'' @ [CHR 0x27] @ ''s result), e.g. `rigger result ''
     @ rc_debug c (spawn_retry_id name role attempt (snd (review_retry_window ordinal)))
     @ '' --supersede <substantive output>`; then re-run. Re-running WITHOUT a corrected result replays the recorded ''
     @ ''empties and halts here again.''"

definition is_parked_or_refused :: "string \<Rightarrow> string \<Rightarrow> bool" where
  "is_parked_or_refused e refusal \<longleftrightarrow> is_parked e \<or> carries_marker e refusal"

definition refused_task :: "string option \<Rightarrow> string \<Rightarrow> string" where
  "refused_task refused prompt =
     (case refused of None \<Rightarrow> prompt | Some note \<Rightarrow> prompt @ [CHR 0x0A, CHR 0x0A] @ note)"

definition reruns_refused :: "string option \<Rightarrow> string \<Rightarrow> bool \<Rightarrow> bool" where
  "reruns_refused refused e retry_left \<longleftrightarrow> refused = None \<and> retry_left \<and> carries_marker e EMIT_REFUSED_MARKER"

text \<open>What the log says of a spawn's recorded result.\<close>

definition recorded_result :: "'w run_cfg \<Rightarrow> string \<Rightarrow> ('w, spawn_result option) run" where
  "recorded_result c sid =
     bindc (read_run c) (\<lambda>events.
       case result_of (rc_codec c) events sid of Inl e \<Rightarrow> fail (rc_json_error c e) | Inr found \<Rightarrow> ret found)"

definition review_spawn_errored :: "'w run_cfg \<Rightarrow> string \<Rightarrow> ('w, bool) run" where
  "review_spawn_errored c sid =
     bindc (recorded_result c sid) (\<lambda>found.
       ret (case found of None \<Rightarrow> False | Some r \<Rightarrow> is_error r \<and> \<not> is_liveness_fault r))"

definition emitted_verdict_approves :: "'w run_cfg \<Rightarrow> json \<Rightarrow> bool" where
  "emitted_verdict_approves c v \<longleftrightarrow> verdict_approves (rc_codec c) (rc_json_text c v)"

definition gating_spawn_emitted_approve :: "'w run_cfg \<Rightarrow> string \<Rightarrow> ('w, bool) run" where
  "gating_spawn_emitted_approve c sid =
     bindc (read_run c) (\<lambda>events.
       ret (list_ex (\<lambda>e. ev_type e = TYPE_DECISION_MADE \<and> bt_get (ev_meta e) META_SPAWN = Some sid \<and>
              (case de_value (rc_codec c) (ev_data e) of Inl _ \<Rightarrow> False | Inr v \<Rightarrow> emitted_verdict_approves c v)) events))"

definition reviewer_result_is_degenerate ::
  "'w run_cfg \<Rightarrow> reviewer_output \<Rightarrow> string \<Rightarrow> agent_result \<Rightarrow> nat \<Rightarrow> ('w, bool) run" where
  "reviewer_result_is_degenerate c output sid result findings =
     (if output = OutRoundVerdict \<and> rejects_without_required (rc_codec c) (ar_output result) then ret True
      else if trim (ar_output result) \<noteq> [] then ret False
      else if output \<noteq> OutFindings then ret True
      else if findings > 0 then ret False
      else bindc (recorded_result c sid) (\<lambda>found. ret (found = None)))"

text \<open>The unknown agent of a stage is an error before any spawn.\<close>

definition agent_of :: "'w run_cfg \<Rightarrow> stage \<Rightarrow> string \<Rightarrow> string \<Rightarrow> ('w, agent_def) run" where
  "agent_of c st label agent =
     (case bt_get (rc_agents c) agent of
        None \<Rightarrow> fail (''stage '' @ rc_debug c (s_name st) @ '' references unknown '' @ label @ '' '' @ rc_debug c agent)
      | Some a \<Rightarrow> ret a)"

definition reviewer_spawn_opts ::
  "'w run_cfg \<Rightarrow> string \<Rightarrow> string \<Rightarrow> string \<Rightarrow> string \<Rightarrow> u32 \<Rightarrow> bool \<Rightarrow> stage \<Rightarrow> string list \<Rightarrow> ('w, spawn_opts) run" where
  "reviewer_spawn_opts c sid role agent dir attempt parallel st reviews =
     seqc (liftc (assert_isolated_cwd c role agent dir))
       (bindc (agent_of c st role agent) (\<lambda>_.
          bindc (build_env c) (\<lambda>env.
            bindc (lookc (pt_seed (rc_ports c) st)) (\<lambda>seed.
              ret \<lparr>so_id = sid, so_agent = agent, so_unit = s_name st, so_stage = s_name st, so_dir = dir,
                   so_attempt = attempt, so_isolation = False, so_parallel = parallel, so_blast_radius = seed,
                   so_title = trim (s_coverage st), so_reviews = reviews,
                   so_env = spawn_env env dir (if role = ROLE_SDET_AUTHOR then UNIT_CACHE_PREFIX else UNIT_REVIEW_CACHE_PREFIX),
                   so_resumed_from = [], so_resume_task = []\<rparr>))))"

section \<open>Running a reviewer\<close>

text \<open>What a review spawn is asked, the same on every try of its window.\<close>

record review_ask =
  rq_stage :: stage
  rq_label :: string
  rq_role :: string
  rq_agent :: string
  rq_dir :: string
  rq_attempt :: u32
  rq_ordinal :: u32
  rq_parallel :: bool
  rq_output :: reviewer_output
  rq_prompt :: string
  rq_resume :: "string option"
  rq_wt :: "string option"
  rq_reviews :: "string list"

text \<open>What the tries before left: a result without a verdict line, a refused record, a spawn that errored.\<close>

record review_tries =
  rt_verdictless :: bool
  rt_refused :: "string option"
  rt_errored :: "string option"

definition no_tries :: review_tries where
  "no_tries = \<lparr>rt_verdictless = False, rt_refused = None, rt_errored = None\<rparr>"

definition reviewer_failed :: "'w run_cfg \<Rightarrow> review_ask \<Rightarrow> string \<Rightarrow> string" where
  "reviewer_failed c q e =
     stage_says c (s_name (rq_stage q)) (rq_label q) (rq_agent q) @ '': '' @ strip_failure_marker e"

definition ensure_present :: "'w run_cfg \<Rightarrow> string option \<Rightarrow> ('w, unit) run" where
  "ensure_present c wt = (case wt of None \<Rightarrow> ret () | Some w \<Rightarrow> portc (pt_ensure_present (rc_ports c) w))"

definition reviewer_opts :: "'w run_cfg \<Rightarrow> review_ask \<Rightarrow> u32 \<Rightarrow> ('w, spawn_opts) run" where
  "reviewer_opts c q retry =
     bindc (reviewer_spawn_opts c (spawn_retry_id (s_name (rq_stage q)) (rq_role q) (rq_attempt q) retry) (rq_label q)
              (rq_agent q) (rq_dir q) (rq_attempt q) (rq_parallel q) (rq_stage q) (rq_reviews q)) (\<lambda>opts.
       if retry = fst (review_retry_window (rq_ordinal q)) then continue_prior_session c opts (rq_role q) (rq_resume q)
       else ret opts)"

text \<open>A spawn's error: a refused record re-runs once, a recorded error is tried again, a park and a budget
  refusal pass as they are, and everything else is a crash.\<close>

definition reviewer_error ::
  "'w run_cfg \<Rightarrow> review_ask \<Rightarrow> u32 \<Rightarrow> string \<Rightarrow> review_tries \<Rightarrow> string \<Rightarrow> ('w, agent_result + review_tries) run" where
  "reviewer_error c q retry sid tries e =
     (if reruns_refused (rt_refused tries) e (retry < snd (review_retry_window (rq_ordinal q)))
      then ret (Inr (tries\<lparr>rt_refused := Some (refusal_note e)\<rparr>))
      else
        bindc (if is_parked_or_refused e BUDGET_MARKER then ret False else review_spawn_errored c sid) (\<lambda>errored.
          if errored then ret (Inr (tries\<lparr>rt_errored := Some (reviewer_failed c q e)\<rparr>))
          else fail (if is_parked_or_refused e BUDGET_MARKER \<or> carries_marker e EMIT_REFUSED_MARKER
                     then reviewer_failed c q e else spawn_crash (reviewer_failed c q e))))"

text \<open>A spawn's result: a degenerate one is tried again, and a gating one must end in a verdict line.\<close>

definition reviewer_result ::
  "'w run_cfg \<Rightarrow> review_ask \<Rightarrow> u32 \<Rightarrow> string \<Rightarrow> review_tries \<Rightarrow> agent_result \<Rightarrow> nat \<Rightarrow> ('w, agent_result + review_tries) run" where
  "reviewer_result c q retry sid tries result findings =
     (let name = s_name (rq_stage q);
          lacks_verdict = (rq_output q \<noteq> OutFindings \<and> \<not> has_verdict_line (rc_codec c) (ar_output result)) in
      bindc (reviewer_result_is_degenerate c (rq_output q) sid result findings) (\<lambda>degenerate.
        if degenerate then ret (Inr tries)
        else
          bindc (if lacks_verdict then gating_spawn_emitted_approve c sid else ret False) (\<lambda>mismatch.
            if mismatch then fail (spawn_halt c VerdictChannelMismatch name (rq_label q) (rq_agent q))
            else if lacks_verdict then
              (if rt_verdictless tries \<or> retry = snd (review_retry_window (rq_ordinal q))
               then fail (verdictless_reviewer c name (rq_label q) (rq_agent q) sid (ar_output result))
               else seqc (sayc c (no_verdict_line c name (rq_label q) (rq_agent q) sid (ar_output result)))
                      (ret (Inr (tries\<lparr>rt_verdictless := True\<rparr>))))
            else ret (Inl result))))"

definition reviewer_try :: "'w run_cfg \<Rightarrow> review_ask \<Rightarrow> u32 \<Rightarrow> review_tries \<Rightarrow> ('w, agent_result + review_tries) run" where
  "reviewer_try c q retry tries =
     (let sid = spawn_retry_id (s_name (rq_stage q)) (rq_role q) (rq_attempt q) retry in
      bindc (reviewer_opts c q retry) (\<lambda>opts.
        bindc (reserve_spawn c sid) (\<lambda>reserved.
          if \<not> reserved then fail (spawn_halt c BudgetRefused (s_name (rq_stage q)) (rq_label q) (rq_agent q))
          else
            seqc (ensure_present c (rq_wt q))
              (bindc (resultc (spawn_agent c opts (refused_task (rt_refused tries) (rq_prompt q))
                                 [(META_ACTOR, rq_role q), (META_SPAWN, sid)])) (\<lambda>r.
                 case r of
                   Inl e \<Rightarrow> reviewer_error c q retry sid tries e
                 | Inr (result, findings) \<Rightarrow>
                     seqc (record_session c opts result) (reviewer_result c q retry sid tries result findings))))))"

fun reviewer_tries :: "'w run_cfg \<Rightarrow> review_ask \<Rightarrow> u32 list \<Rightarrow> review_tries \<Rightarrow> ('w, agent_result) run" where
  "reviewer_tries c q [] tries =
     fail (case rt_errored tries of
             Some message \<Rightarrow> spawn_crash message
           | None \<Rightarrow> degenerate_reviewer c (s_name (rq_stage q)) (rq_label q) (rq_agent q) (rq_role q) (rq_attempt q) (rq_ordinal q))"
| "reviewer_tries c q (retry # rest) tries =
     bindc (reviewer_try c q retry tries) (\<lambda>r.
       case r of Inl result \<Rightarrow> ret result | Inr tries' \<Rightarrow> reviewer_tries c q rest tries')"

definition run_reviewer :: "'w run_cfg \<Rightarrow> review_ask \<Rightarrow> ('w, agent_result) run" where
  "run_reviewer c q =
     bindc (agent_of c (rq_stage q) (rq_label q) (rq_agent q)) (\<lambda>_.
       reviewer_tries c q (window_ids (review_retry_window (rq_ordinal q))) no_tries)"

text \<open>The parts of a review round every tier shares: its unit, its worktree, its attempt and its later round.\<close>

record review_site =
  rs_stage :: stage
  rs_dir :: string
  rs_attempt :: u32
  rs_ordinal :: u32
  rs_wt :: "string option"
  rs_round :: "review_round option"

definition prompt_text :: "'w run_cfg \<Rightarrow> prompt_kind \<Rightarrow> ('w, string) run" where
  "prompt_text c p = portc (pt_prompt (rc_ports c) p)"

definition resume_text :: "'w run_cfg \<Rightarrow> review_site \<Rightarrow> ('w, string option) run" where
  "resume_text c v =
     (case rs_round v of
        None \<Rightarrow> ret None
      | Some r \<Rightarrow> bindc (prompt_text c (PromptResume (rs_stage v) (rs_dir v) r)) (\<lambda>t. ret (Some t)))"

definition review_ask_of ::
  "review_site \<Rightarrow> review_kind \<Rightarrow> string \<Rightarrow> u32 \<Rightarrow> reviewer_output \<Rightarrow> string list \<Rightarrow> string \<Rightarrow> string option \<Rightarrow> review_ask" where
  "review_ask_of v kind agent k output roster prompt resume =
     \<lparr>rq_stage = rs_stage v, rq_label = tier kind, rq_role = review_step_role kind agent k, rq_agent = agent,
      rq_dir = rs_dir v, rq_attempt = rs_attempt v, rq_ordinal = rs_ordinal v, rq_parallel = (kind = Lens),
      rq_output = output, rq_prompt = prompt, rq_resume = resume, rq_wt = rs_wt v, rq_reviews = roster\<rparr>"

definition run_finding_reviewer ::
  "'w run_cfg \<Rightarrow> review_site \<Rightarrow> review_kind \<Rightarrow> u32 \<Rightarrow> string list \<Rightarrow> string \<Rightarrow> ('w, unit) run" where
  "run_finding_reviewer c v kind k roster agent =
     bindc (prompt_text c (PromptReview (rs_stage v) (rs_dir v) (review_step_role kind agent k) (rs_round v))) (\<lambda>prompt.
       bindc (resume_text c v) (\<lambda>resume.
         bindc (run_reviewer c (review_ask_of v kind agent k OutFindings roster prompt resume)) (\<lambda>_. ret ())))"

definition run_adjudicator ::
  "'w run_cfg \<Rightarrow> review_site \<Rightarrow> string list \<Rightarrow> string \<Rightarrow> ('w, bool \<times> string \<times> string) run" where
  "run_adjudicator c v roster agent =
     bindc (prompt_text c (PromptAdjudicate (rs_stage v) (rs_dir v) (rs_round v))) (\<lambda>prompt.
       bindc (resume_text c v) (\<lambda>resume.
         bindc (run_reviewer c (review_ask_of v Adjudicator agent 1
                  (if rs_round v = None then OutVerdict else OutRoundVerdict) roster prompt resume)) (\<lambda>result.
           ret (verdict_approves (rc_codec c) (ar_output result), ar_output result, ar_resolved_model result))))"

section \<open>The lenses of a step\<close>

fun chunks :: "nat \<Rightarrow> 'a list \<Rightarrow> 'a list list" where
  "chunks n [] = []"
| "chunks n (x # xs) = take n (x # xs) # chunks n (drop (n - 1) xs)"

fun collectc :: "('a \<Rightarrow> ('w, 'b) run) \<Rightarrow> 'a list \<Rightarrow> ('w, (string + 'b) list) run" where
  "collectc f [] = ret []"
| "collectc f (x # xs) = bindc (resultc (f x)) (\<lambda>r. bindc (collectc f xs) (\<lambda>rs. ret (r # rs)))"

definition is_err :: "(string \<Rightarrow> bool) \<Rightarrow> string + 'a \<Rightarrow> bool" where
  "is_err P r = (case r of Inl e \<Rightarrow> P e | Inr _ \<Rightarrow> False)"

text \<open>A chunk's error: a plain one before a park or a budget refusal, and the first of its kind.\<close>

definition chunk_error :: "(string + 'a) list \<Rightarrow> string option" where
  "chunk_error results =
     (case find (is_err (\<lambda>e. \<not> is_parked_or_refused e BUDGET_MARKER)) results of
        Some (Inl e) \<Rightarrow> Some e
      | _ \<Rightarrow> (case find (is_err (\<lambda>_. True)) results of Some (Inl e) \<Rightarrow> Some e | _ \<Rightarrow> None))"

definition run_review_agents_concurrently ::
  "'w run_cfg \<Rightarrow> review_site \<Rightarrow> u32 \<Rightarrow> string list \<Rightarrow> string list \<Rightarrow> ('w, unit) run" where
  "run_review_agents_concurrently c v k roster agents =
     foreachc (\<lambda>chunk.
       bindc (collectc (run_finding_reviewer c v Lens k roster) chunk) (\<lambda>results.
         seqc (whenc (list_ex (is_err (\<lambda>e. is_parked_or_refused e BUDGET_MARKER)) results)
                 (setc (\<lambda>s. s\<lparr>rx_any_parked := True\<rparr>)))
           (case chunk_error results of Some e \<Rightarrow> fail e | None \<Rightarrow> ret ())))
       (chunks MAX_CONCURRENCY agents)"

section \<open>A review round\<close>

record review_outcome =
  vo_approved :: bool
  vo_reason :: string
  vo_compensate :: "string option"
  vo_adj_resolved :: string
  vo_round_start_sha :: string
  vo_required :: "required_item list"

definition review_verdict :: "bool \<Rightarrow> string \<Rightarrow> review_outcome" where
  "review_verdict approved reason =
     \<lparr>vo_approved = approved, vo_reason = reason, vo_compensate = None, vo_adj_resolved = [], vo_round_start_sha = [],
      vo_required = []\<rparr>"

definition round_blocks :: "review_round \<Rightarrow> required_item \<Rightarrow> bool" where
  "round_blocks r item \<longleftrightarrow> ri_correctness item \<or> ri_path item \<in> set (rw_delta r)"

definition show_bool :: "bool \<Rightarrow> string" where
  "show_bool b = (if b then ''true'' else ''false'')"

definition log_review_tier :: "'w run_cfg \<Rightarrow> stage \<Rightarrow> u32 \<Rightarrow> tier_routing \<Rightarrow> ('w, unit) run" where
  "log_review_tier c st attempt routing =
     emit_keyed c (s_name st @ ''/review-tier#'' @ show_u32 attempt) TYPE_UNIT_STATUS
       (JObj [(''id'', JStr (s_name st)), (''status'', JStr STATUS_REVIEW_TIER),
              (''evidence'', JObj [(''review-tier'', JStr (tr_tier routing)), (''blast-radius'', JStr (show_nat (tr_blast_radius routing))),
                 (''threshold'', JStr (show_nat (tr_threshold routing))), (''high-risk-path'', JStr (unwrap_or [] (tr_high_risk_hit routing))),
                 (''empty-radius'', JStr (show_bool (tr_empty_radius routing))), (''flapped'', JStr (show_bool (tr_flapped routing)))])])"

definition review_round_start_sha :: "'w run_cfg \<Rightarrow> string \<Rightarrow> u32 \<Rightarrow> string \<Rightarrow> ('w, string) run" where
  "review_round_start_sha c unit attempt dir =
     (let key = review_round_start_key unit attempt in
      bindc (getc (\<lambda>s. key \<in> rx_keys s)) (\<lambda>replay.
        if replay
        then bindc (read_run c) (\<lambda>events. ret (unwrap_or [] (recorded_review_round_start_sha (rc_probes c) events unit attempt)))
        else
          bindc (lookc (head_sha_of c dir)) (\<lambda>sha.
            seqc (emit_keyed_meta c key TYPE_UNIT_STATUS
                    (JObj [(''id'', JStr unit), (''status'', JStr STATUS_REVIEW_ROUND_START), (''attempt'', j_num attempt)])
                    [(META_WORKTREE_SHA, sha)])
              (ret sha))))"

text \<open>\<open>.ok()?\<close>: an error ends the reading with no answer.\<close>

definition okc :: "('w, 'a) run \<Rightarrow> ('w, 'a option) run" where
  "okc m = bindc (resultc m) (\<lambda>r. ret (case r of Inl _ \<Rightarrow> None | Inr x \<Rightarrow> Some x))"

definition round_delta :: "'w run_cfg \<Rightarrow> string option \<Rightarrow> string \<Rightarrow> u32 \<Rightarrow> ('w, (string \<times> string list) option) run" where
  "round_delta c wt unit attempt =
     (case wt of None \<Rightarrow> ret None
      | Some w \<Rightarrow>
          bindc (okc (read_run c)) (\<lambda>events.
            bindc (lookc (\<lambda>world. opt_filter (\<lambda>base. pt_is_ancestor (rc_ports c) w base world)
                     (Option.bind events (\<lambda>es. round_delta_base (rc_probes c) es unit attempt)))) (\<lambda>base.
              case base of None \<Rightarrow> ret None
              | Some b \<Rightarrow>
                  bindc (okc (portc (pt_diff_names (rc_ports c) w b))) (\<lambda>paths.
                    case paths of None \<Rightarrow> ret None
                    | Some ps \<Rightarrow>
                        bindc (okc (portc (pt_changed_files (rc_ports c) w))) (\<lambda>changed.
                          ret (map_option (\<lambda>fs. (b, bs_collect (ps @ fs))) changed))))))"

definition audit_id :: "string \<Rightarrow> u32 \<Rightarrow> string" where
  "audit_id unit attempt = ''audit-'' @ unit @ ''-'' @ show_u32 attempt"

text \<open>A round that left its worktree dirty or moved is said in a lesson, and the worktree is put back.\<close>

definition residue_summary :: "'w run_cfg \<Rightarrow> string \<Rightarrow> string \<Rightarrow> string \<Rightarrow> string list \<Rightarrow> string" where
  "residue_summary c unit sha where_at residue =
     ''a review round left unit '' @ rc_debug c unit @ [CHR 0x27] @ ''s worktree as residue after judging '' @ sha @ '' - ''
     @ where_at @ '': '' @ join '', '' residue @ ''. Restored to the reviewed sha; no attempt charged.''"

definition guard_review_round_tree :: "'w run_cfg \<Rightarrow> string option \<Rightarrow> string \<Rightarrow> string \<Rightarrow> string \<Rightarrow> ('w, unit) run" where
  "guard_review_round_tree c wt dir unit sha =
     (case wt of None \<Rightarrow> ret ()
      | Some w \<Rightarrow>
          if sha = [] then ret ()
          else
            seqc (portc (pt_ensure_present (rc_ports c) w))
              (bindc (portc (pt_changed_files (rc_ports c) w)) (\<lambda>dirty.
                 bindc (lookc (head_sha_of c dir)) (\<lambda>tip.
                   let moved = (tip \<noteq> [] \<and> tip \<noteq> sha) in
                   if dirty = [] \<and> \<not> moved then ret ()
                   else
                     bindc (if moved then okc (portc (pt_diff_names (rc_ports c) w sha)) else ret None) (\<lambda>diff.
                       let residue = (if moved then bs_collect (dirty @ unwrap_or [] diff) else dirty);
                           where_at = (if moved then ''its tip moved to '' @ tip else ''it is dirty'')
                       in seqc (bindc (resultc (emit_lesson c wt unit (residue_summary c unit sha where_at residue))) (\<lambda>_. ret ()))
                            (portc (pt_restore_reviewed (rc_ports c) w sha)))))))"

definition guard_review_round_tree_on_tier_err ::
  "'w run_cfg \<Rightarrow> string option \<Rightarrow> string \<Rightarrow> string \<Rightarrow> string \<Rightarrow> string \<Rightarrow> ('w, string) run" where
  "guard_review_round_tree_on_tier_err c wt dir unit sha e =
     (if is_parked e then ret e
      else
        bindc (resultc (guard_review_round_tree c wt dir unit sha)) (\<lambda>r.
          ret (case r of
                 Inl guard_err \<Rightarrow> e @ '' (guard_review_round_tree also failed to restore residue: '' @ guard_err @ '')''
               | Inr _ \<Rightarrow> e)))"

text \<open>A later round's reject keeps what it may block on; what is outside its delta and no defect goes to the operator.\<close>

definition operator_lesson :: "'w run_cfg \<Rightarrow> string \<Rightarrow> u32 \<Rightarrow> u32 \<Rightarrow> nat \<times> required_item \<Rightarrow> ('w, unit) run" where
  "operator_lesson c unit attempt ordinal n_item =
     (case n_item of (n, item) \<Rightarrow>
        record_lesson c (Some (unit @ ''/operator-lesson#'' @ show_u32 attempt @ ''~'' @ show_u32 ordinal @ ''.'' @ show_nat n))
          (''lesson-'' @ unit @ ''-'' @ show_u32 attempt @ ''-'' @ show_u32 ordinal @ ''-operator-'' @ show_nat n)
          (''For the operator: review of unit '' @ rc_debug c unit @ '' at attempt '' @ show_u32 attempt
           @ '' found, outside the delta it reviewed, an item that is no correctness defect, so it no longer holds the unit back - ''
           @ ri_path item @ '': '' @ ri_finding item)
          [ri_path item])"

definition adjudication_default :: adjudication where
  "adjudication_default = \<lparr>ad_upheld = [], ad_discarded = [], ad_cause = None, ad_verdict = None, ad_required = []\<rparr>"

definition split_reject ::
  "'w run_cfg \<Rightarrow> string \<Rightarrow> u32 \<Rightarrow> u32 \<Rightarrow> review_round option \<Rightarrow> string \<Rightarrow> ('w, bool \<times> string \<times> required_item list) run" where
  "split_reject c unit attempt ordinal round reason =
     (let adjudication = unwrap_or adjudication_default (adjudication_parse (rc_codec c) reason) in
      case opt_filter (\<lambda>_. \<not> is_infra_fault adjudication) round of
        None \<Rightarrow> ret (False, reason, ad_required adjudication)
      | Some r \<Rightarrow>
          let kept = filter (round_blocks r) (ad_required adjudication);
              dropped = filter (\<lambda>item. \<not> round_blocks r item) (ad_required adjudication)
          in seqc (foreachc (operator_lesson c unit attempt ordinal) (enumerate 0 dropped))
               (ret (if kept = [] \<and> dropped \<noteq> [] then (True, CONVERGED @ [CHR 0x0A] @ reason, kept)
                     else (False, reason, kept))))"

definition review_evidence :: "string \<Rightarrow> json" where
  "review_evidence reason =
     JObj [(''review'', JStr (if trim reason = [] then ''approved'' else trim reason))]"

definition reviewed_key :: "string \<Rightarrow> u32 \<Rightarrow> string" where
  "reviewed_key unit attempt = unit @ ''/reviewed#'' @ show_u32 attempt"

definition run_review_step ::
  "'w run_cfg \<Rightarrow> review_site \<Rightarrow> review_step list \<Rightarrow> (string \<times> bool \<times> string \<times> string) option \<Rightarrow> nat \<Rightarrow>
    ('w, (string \<times> bool \<times> string \<times> string) option) run" where
  "run_review_step c v steps verdict index =
     (let roster = step_roster steps index review_step_role; k = step_ordinal steps index in
      case steps ! index of
        StepLenses ids \<Rightarrow> seqc (run_review_agents_concurrently c v k roster ids) (ret verdict)
      | StepAdversary agent \<Rightarrow> seqc (run_finding_reviewer c v Adversary k roster agent) (ret verdict)
      | StepAdjudicator agent \<Rightarrow> bindc (run_adjudicator c v roster agent) (\<lambda>ruling. ret (Some (agent, ruling))))"

definition run_review_steps ::
  "'w run_cfg \<Rightarrow> review_site \<Rightarrow> review_step list \<Rightarrow> string \<Rightarrow> ('w, (string \<times> bool \<times> string \<times> string) option) run" where
  "run_review_steps c v steps sha =
     foldc (\<lambda>verdict index.
         map_errc (\<lambda>e. bindc (guard_review_round_tree_on_tier_err c (rs_wt v) (rs_dir v) (s_name (rs_stage v)) sha e) fail)
           (run_review_step c v steps verdict index))
       None [0..<length steps]"

definition approve_review ::
  "'w run_cfg \<Rightarrow> review_site \<Rightarrow> bool \<Rightarrow> string \<Rightarrow> string \<Rightarrow> string \<Rightarrow> string \<Rightarrow> string option \<Rightarrow> ('w, review_outcome) run" where
  "approve_review c v defer_reviewed sha adjudicator resolved reason compensate =
     (if defer_reviewed
      then ret (review_verdict True reason\<lparr>vo_compensate := compensate, vo_adj_resolved := resolved, vo_round_start_sha := sha\<rparr>)
      else
        seqc (ensure_present c (rs_wt v))
          (seqc (emit_keyed_meta c (reviewed_key (s_name (rs_stage v)) (rs_attempt v)) TYPE_UNIT_STATUS
                   (JObj [(''id'', JStr (s_name (rs_stage v))), (''status'', JStr ''reviewed''), (''evidence'', review_evidence reason)])
                   [(META_MODEL_ALIAS, agent_model c adjudicator (rs_attempt v)), (META_MODEL_RESOLVED, resolved),
                    (META_WORKTREE_SHA, sha)])
             (ret (review_verdict True reason\<lparr>vo_compensate := compensate\<rparr>))))"

definition judge_review ::
  "'w run_cfg \<Rightarrow> review_site \<Rightarrow> bool \<Rightarrow> string \<Rightarrow> string \<times> bool \<times> string \<times> string \<Rightarrow> ('w, review_outcome) run" where
  "judge_review c v defer_reviewed sha ruling =
     (case ruling of (adjudicator, approves, output, resolved) \<Rightarrow>
        bindc (if approves then ret (True, output, [])
               else split_reject c (s_name (rs_stage v)) (rs_attempt v) (rs_ordinal v) (rs_round v) output)
          (\<lambda>(approved, reason, required).
            let compensate = verdict_compensates (rc_codec c) output in
            if approved then approve_review c v defer_reviewed sha adjudicator resolved reason compensate
            else ret (review_verdict False reason\<lparr>vo_compensate := compensate, vo_required := required\<rparr>)))"

definition review_unit ::
  "'w run_cfg \<Rightarrow> stage \<Rightarrow> string \<Rightarrow> u32 \<Rightarrow> u32 \<Rightarrow> bool \<Rightarrow> bool \<Rightarrow> string list \<Rightarrow> string option \<Rightarrow> required_item list \<Rightarrow>
    ('w, review_outcome) run" where
  "review_unit c st dir attempt ordinal flapped defer_reviewed blast_radius wt prior_required =
     (let routing = route_review_tier (rc_re_match c) (effective_review_panel (rc_workflow c) st) blast_radius flapped;
          panel = tr_panel routing in
      seqc (whenc (tr_policy routing) (log_review_tier c st attempt routing))
        (if panel_is_empty panel then ret (review_verdict True [])
         else
           bindc (review_round_start_sha c (s_name st) attempt dir) (\<lambda>sha.
             bindc (round_delta c wt (s_name st) attempt) (\<lambda>delta.
               let v = \<lparr>rs_stage = st, rs_dir = dir, rs_attempt = attempt, rs_ordinal = ordinal, rs_wt = wt,
                        rs_round = map_option (\<lambda>(base, paths). \<lparr>rw_base = base, rw_delta = paths, rw_required = prior_required,
                                                                 rw_audit = audit_id (s_name st) attempt\<rparr>) delta\<rparr>
               in bindc (run_review_steps c v (panel_steps panel) sha) (\<lambda>verdict.
                    seqc (guard_review_round_tree c wt dir (s_name st) sha)
                      (case verdict of
                         None \<Rightarrow> ret (review_verdict True [])
                       | Some ruling \<Rightarrow> judge_review c v defer_reviewed sha ruling))))))"

section \<open>The test author's seam\<close>

definition DOC_ONLY_ROUND :: string where
  "DOC_ONLY_ROUND =
     ''This round changed documentation only: extend the existing owner test'' @ [CHR 0x27] @
     ''s needle for the changed sentence, or add no pin; never a new test.''"

definition sdet_failed :: "'w run_cfg \<Rightarrow> stage \<Rightarrow> string \<Rightarrow> string" where
  "sdet_failed c st e = ''stage '' @ rc_debug c (s_name st) @ '' sdet author: '' @ strip_failure_marker e"

definition sdet_try ::
  "'w run_cfg \<Rightarrow> stage \<Rightarrow> string \<Rightarrow> u32 \<Rightarrow> u32 \<Rightarrow> string \<Rightarrow> string \<Rightarrow> u32 \<Rightarrow> string option \<Rightarrow> ('w, unit) run" where
  "sdet_try c st dir attempt ordinal prompt resume_task retry refused =
     (let sid = spawn_retry_id (s_name st) ROLE_SDET_AUTHOR attempt retry in
      bindc (reserve_spawn c sid) (\<lambda>reserved.
        if \<not> reserved then ret ()
        else
          bindc (resultc (reviewer_spawn_opts c sid ROLE_SDET_AUTHOR ROLE_SDET_AUTHOR dir attempt False st [])) (\<lambda>o1.
            case o1 of
              Inl e \<Rightarrow> fail (spawn_crash (sdet_failed c st e))
            | Inr opts0 \<Rightarrow>
                bindc (if retry = fst (review_retry_window ordinal)
                       then continue_prior_session c opts0 ROLE_SDET_AUTHOR (Some resume_task) else ret opts0) (\<lambda>opts.
                  bindc (resultc (spawn_agent c opts (refused_task refused prompt) [(META_ACTOR, ROLE_SDET_AUTHOR)])) (\<lambda>r.
                    case r of
                      Inr (result, _) \<Rightarrow> record_session c opts result
                    | Inl e \<Rightarrow> fail (if is_parked_or_refused e EMIT_REFUSED_MARKER then e else spawn_crash (sdet_failed c st e)))))))"

definition spawn_sdet_author ::
  "'w run_cfg \<Rightarrow> stage \<Rightarrow> string option \<Rightarrow> string \<Rightarrow> u32 \<Rightarrow> u32 \<Rightarrow> string list \<Rightarrow> ('w, unit) run" where
  "spawn_sdet_author c st wt dir attempt ordinal gate_evidence =
     (if dir = [] \<or> bt_get (rc_agents c) ROLE_SDET_AUTHOR = None then ret ()
      else
        bindc (prompt_text c (PromptSdet st attempt)) (\<lambda>prompt.
          bindc (round_delta c wt (s_name st) attempt) (\<lambda>delta.
            let doc_only = (case delta of None \<Rightarrow> False | Some (_, paths) \<Rightarrow> is_documentation_only paths);
                prompt' = (if doc_only then prompt @ [CHR 0x0A, CHR 0x0A] @ DOC_ONLY_ROUND else prompt);
                resume_task = later_attempt_block delta gate_evidence @ (if doc_only then DOC_ONLY_ROUND else [])
            in map_errc (\<lambda>e. fail (if carries_marker e EMIT_REFUSED_MARKER then sdet_failed c st e else e))
                 (rerun_once_on_refusal (fst (review_retry_window ordinal)) (snd (review_retry_window ordinal))
                    (sdet_try c st dir attempt ordinal prompt' resume_task)))))"

end
