(* ===== verification/Unit_Life.thy ===== *)
theory Unit_Life
  imports Unit_Review Wave
begin

text \<open>
  A unit's stage from its first spawn to its landing or its escalation (\<open>run_single_stage\<close>,
  \<open>integrate_under_infra_retry\<close>, \<open>resume_phase\<close> of \<open>conductor.rs\<close>). One turn of the source's loop
  is \<open>stage_attempt\<close>: implement, author tests, gate, review, gate exhaustively, land. Around it
  \<open>run_attempts\<close> reruns an infrastructure failure uncharged, charges every other one and escalates at
  the bound. The landing of a unit's branch and of a plan's commits are arguments
  (\<open>landing\<close>); \<open>conductor_landing\<close> of \<open>Plan_Landing\<close> is the conductor's.
\<close>

section \<open>Shared steps\<close>

record 'w landing =
  ld_integrate :: "stage \<Rightarrow> string option \<Rightarrow> u32 \<Rightarrow> ('w, integration) run"
  ld_plan_commits :: "string \<Rightarrow> string option \<Rightarrow> ('w, plan_commit_outcome) run"

datatype resume_phase = PhaseFresh | PhaseImplemented | PhaseReviewed

definition integrates :: "stage \<Rightarrow> bool" where
  "integrates st \<longleftrightarrow> s_on_pass st = [] \<or> eq_ignore_ascii_case (s_on_pass st) ''merge''"

abbreviation "CONFLICT_RESOLVE_BOUND \<equiv> (3 :: u32)"

definition implementer_retry :: "u32 \<Rightarrow> u32" where
  "implementer_retry ordinal = ordinal * (CONFLICT_RESOLVE_BOUND + 1)"

definition green_key :: "string \<Rightarrow> u32 \<Rightarrow> string" where
  "green_key unit attempt = unit @ ''/green#'' @ show_u32 attempt"

definition blast_radius_key :: "string \<Rightarrow> u32 \<Rightarrow> string" where
  "blast_radius_key unit attempt = unit @ ''/blast-radius#'' @ show_u32 attempt"

definition record_blast_radius :: "'w run_cfg \<Rightarrow> stage \<Rightarrow> u32 \<Rightarrow> string list \<Rightarrow> string list \<Rightarrow> ('w, unit) run" where
  "record_blast_radius c st attempt seed safe =
     bindc (lookc (pt_index_stamp (rc_ports c))) (\<lambda>stamp.
       if stamp = [] then ret ()
       else emit_keyed c (blast_radius_key (s_name st) attempt) TYPE_BLAST_RADIUS_COMPUTED
              (JObj [(''id'', JStr (s_name st)), (''unit'', JStr (s_name st)), (''precise'', j_strs seed), (''safe'', j_strs safe),
                     (''index_stamp'', JStr stamp)]))"

definition commit_checkpoint :: "'w run_cfg \<Rightarrow> string option \<Rightarrow> string \<Rightarrow> ('w, string) run" where
  "commit_checkpoint c wt msg = (case wt of None \<Rightarrow> ret [] | Some w \<Rightarrow> portc (pt_commit_checkpoint (rc_ports c) w msg))"

definition checkpoint_attempt :: "'w run_cfg \<Rightarrow> string option \<Rightarrow> string \<Rightarrow> u32 \<Rightarrow> ('w, unit) run" where
  "checkpoint_attempt c wt unit attempts =
     bindc (commit_checkpoint c wt (''rigger: '' @ unit @ '' attempt '' @ show_u32 (attempts + 1))) (\<lambda>_. ret ())"

definition halted_spawn_checkpoint_permitted :: "'w run_cfg \<Rightarrow> event list \<Rightarrow> string \<Rightarrow> string \<Rightarrow> ('w, bool) run" where
  "halted_spawn_checkpoint_permitted c events unit sid = portc (pt_spawn_is_halted (rc_ports c) events unit sid)"

section \<open>Infrastructure reruns\<close>

lemma retry_infra_Inr:
  assumes "retry_infra_failure c unit attempt infra cause evidence s = (Inr infra', t)"
  shows "infra' = infra_after infra STATUS_INFRA_RETRY \<and> \<not> infra_exhausted infra (infra_limit (rc_taxonomy c))"
  using assms by (auto simp: retry_infra_failure_def Let_def run_Inr fail_def split: if_splits)

definition infra_left :: "'w run_cfg \<Rightarrow> infra_retries \<Rightarrow> nat" where
  "infra_left c infra = unat (infra_limit (rc_taxonomy c)) - unat (ir_since_halt infra)"

lemma retry_infra_decreases:
  assumes "retry_infra_failure c unit attempt infra cause evidence s = (Inr infra', t)"
  shows "infra_left c infra' < infra_left c infra"
proof -
  from retry_infra_Inr [OF assms] have i: "infra' = infra_after infra STATUS_INFRA_RETRY"
    and lt: "ir_since_halt infra < infra_limit (rc_taxonomy c)"
    by (auto simp: infra_exhausted_def)
  then have "ir_since_halt infra \<noteq> - 1" by (auto dest: word_less_max)
  then have "unat (ir_since_halt infra + 1) = Suc (unat (ir_since_halt infra))" by (rule unat_plus_one)
  with lt show ?thesis by (auto simp: i infra_left_def infra_after_def word_less_nat_alt)
qed

function gates_under_infra_retry ::
  "'w run_cfg \<Rightarrow> stage \<Rightarrow> string \<Rightarrow> u32 \<Rightarrow> infra_retries \<Rightarrow> ('w, gate_outcome \<times> infra_retries) run" where
  "gates_under_infra_retry c st dir attempts infra =
     bindc (run_gates_at c st dir attempts (ir_ordinal infra) Exhaustive) (\<lambda>full.
       if go_pass full \<or> \<not> go_infra full then ret (full, infra)
       else
         bindc (retry_infra_failure c (s_name st) attempts infra (gate_cause full) (join '' | '' (go_evidence full))) (\<lambda>infra'.
           gates_under_infra_retry c st dir attempts infra'))"
  by pat_completeness auto
termination
  by (relation "measure (\<lambda>(c, _, _, _, infra). infra_left c infra)") (auto dest: retry_infra_decreases)

declare gates_under_infra_retry.simps [simp del]

function integrate_under_infra_retry ::
  "'w run_cfg \<Rightarrow> 'w landing \<Rightarrow> string option \<Rightarrow> stage \<Rightarrow> u32 \<Rightarrow> infra_retries \<Rightarrow> ('w, integration) run" where
  "integrate_under_infra_retry c L wt st attempts infra =
     bindc (infra_crash (ld_integrate L st wt attempts)) (\<lambda>r.
       case r of
         Inr integration \<Rightarrow> ret integration
       | Inl crash \<Rightarrow>
           bindc (retry_infra_failure c (s_name st) attempts infra CAUSE_INFRA_SPAWN crash) (\<lambda>infra'.
             integrate_under_infra_retry c L wt st attempts infra'))"
  by pat_completeness auto
termination
  by (relation "measure (\<lambda>(c, _, _, _, _, infra). infra_left c infra)") (auto dest: retry_infra_decreases)

declare integrate_under_infra_retry.simps [simp del]

section \<open>Implementing\<close>

text \<open>How the implementer's part of a turn ends: its model when it is done, a budget refusal, or a failure with
  its cause, the reason for the next prompt and the spawn's error.\<close>

datatype impl_end = ImplDone string | ImplRefused | ImplFailed string string "string option"

definition record_green :: "'w run_cfg \<Rightarrow> stage \<Rightarrow> u32 \<Rightarrow> string \<Rightarrow> (string \<times> string) list \<Rightarrow> ('w, unit) run" where
  "record_green c st attempts green models =
     emit_keyed_meta c (green_key (s_name st) attempts) TYPE_UNIT_STATUS
       (JObj [(''id'', JStr (s_name st)), (''status'', JStr ''green''), (''evidence'', JObj [(''green'', JStr green)])]) models"

definition implement_prompt ::
  "'w run_cfg \<Rightarrow> stage \<Rightarrow> event list \<Rightarrow> prior_failure \<Rightarrow> u32 \<Rightarrow> ('w, string) run" where
  "implement_prompt c st events prior attempts =
     bindc (prompt_text c (PromptImplement st prior attempts)) (\<lambda>prompt.
       if attempts = 0 \<and> is_check_in st (w_stages (rc_workflow c))
       then (case run_notes (rc_codec c) events of
               Inl e \<Rightarrow> fail (rc_json_error c e)
             | Inr notes \<Rightarrow> ret (prompt @ rc_notes_block c notes))
       else ret prompt)"

definition implementer_opts ::
  "'w run_cfg \<Rightarrow> stage \<Rightarrow> string option \<Rightarrow> string \<Rightarrow> u32 \<Rightarrow> string \<Rightarrow> prior_failure \<Rightarrow> string list \<Rightarrow> (string \<times> string) list \<Rightarrow>
    ('w, spawn_opts) run" where
  "implementer_opts c st wt dir attempts sid prior blast_radius env =
     continue_prior_session c
       \<lparr>so_id = sid, so_agent = s_agent st, so_unit = s_name st, so_stage = s_name st, so_dir = dir, so_attempt = attempts,
        so_isolation = (wt \<noteq> None), so_parallel = False, so_blast_radius = blast_radius, so_title = trim (s_coverage st),
        so_reviews = [], so_env = spawn_env env dir UNIT_CACHE_PREFIX, so_resumed_from = [], so_resume_task = []\<rparr>
       ROLE_IMPLEMENTER (Some (rc_prior_block c prior (s_name st) attempts))"

definition implementer_answer ::
  "'w run_cfg \<Rightarrow> stage \<Rightarrow> string option \<Rightarrow> u32 \<Rightarrow> spawn_opts \<Rightarrow> string + agent_result \<times> nat \<Rightarrow> ('w, impl_end) run" where
  "implementer_answer c st wt attempts opts answer =
     (case answer of
        Inr (result, _) \<Rightarrow>
          seqc (record_session c opts result)
            (seqc (record_green c st attempts (''implemented by '' @ s_agent st)
                     [(META_MODEL_ALIAS, agent_model c (s_agent st) attempts), (META_MODEL_RESOLVED, ar_resolved_model result)])
               (ret (ImplDone (ar_resolved_model result))))
      | Inl e \<Rightarrow>
          if is_parked e then fail e
          else if carries_marker e EMIT_REFUSED_MARKER
          then seqc (checkpoint_attempt c wt (s_name st) attempts) (ret (ImplFailed CAUSE_REJECT (strip_failure_marker e) None))
          else ret (ImplFailed CAUSE_INFRA_SPAWN []
                      (Some (''agent '' @ rc_debug c (s_agent st) @ '': '' @ strip_failure_marker e))))"

definition spawn_implementer ::
  "'w run_cfg \<Rightarrow> stage \<Rightarrow> string option \<Rightarrow> string \<Rightarrow> event list \<Rightarrow> u32 \<Rightarrow> infra_retries \<Rightarrow> prior_failure \<Rightarrow> string list \<Rightarrow>
    ('w, impl_end) run" where
  "spawn_implementer c st wt dir events attempts infra prior blast_radius =
     (let sid = spawn_retry_id (s_name st) ROLE_IMPLEMENTER attempts (implementer_retry (ir_ordinal infra)) in
      bindc (agent_of c st ''agent'' (s_agent st)) (\<lambda>_.
        bindc (reserve_spawn c sid) (\<lambda>reserved.
          if \<not> reserved then ret ImplRefused
          else
            bindc (implement_prompt c st events prior attempts) (\<lambda>prompt.
              bindc (build_env c) (\<lambda>env.
                bindc (implementer_opts c st wt dir attempts sid prior blast_radius env) (\<lambda>opts.
                  bindc (resultc
                           (seqc (liftc (if agent_isolated c (s_agent st) then assert_isolated_cwd c ROLE_IMPLEMENTER (s_agent st) dir
                                         else Inr ()))
                              (spawn_agent c opts prompt [(META_ACTOR, s_agent st), (META_SPAWN, sid)]))) (\<lambda>answer.
                    implementer_answer c st wt attempts opts answer)))))))"

definition implement ::
  "'w run_cfg \<Rightarrow> stage \<Rightarrow> string option \<Rightarrow> string \<Rightarrow> event list \<Rightarrow> u32 \<Rightarrow> infra_retries \<Rightarrow> prior_failure \<Rightarrow> string list \<Rightarrow> bool \<Rightarrow>
    ('w, impl_end) run" where
  "implement c st wt dir events attempts infra prior blast_radius skip =
     (if skip
      then seqc (record_green c st attempts (''resumed from prior window'' @ [CHR 0x27] @ ''s branch '' @ unit_branch (s_name st))
                   [(META_MODEL_ALIAS, agent_model c (s_agent st) attempts)])
             (ret (ImplDone []))
      else if s_agent st = [] then ret (ImplDone [])
      else spawn_implementer c st wt dir events attempts infra prior blast_radius)"

section \<open>One attempt\<close>

text \<open>How an attempt ends: the stage's answer, or its failure - the cause, what the next attempt is told, and the
  error of a spawn or of a tier that crashed.\<close>

datatype attempt_end = Finished bool | Failing string prior_failure "string option" "string option"

text \<open>The parts of an attempt every step of it reads.\<close>

record attempt_site =
  as_stage :: stage
  as_wt :: "string option"
  as_dir :: string
  as_attempts :: u32
  as_infra :: infra_retries

definition record_integrated :: "'w run_cfg \<Rightarrow> stage \<Rightarrow> (string \<times> json) list \<Rightarrow> ('w, unit) run" where
  "record_integrated c st rest = emit c TYPE_UNIT_INTEGRATED (JObj ((''id'', JStr (s_name st)) # rest))"

definition land_plan :: "'w run_cfg \<Rightarrow> 'w landing \<Rightarrow> attempt_site \<Rightarrow> prior_failure \<Rightarrow> ('w, attempt_end) run" where
  "land_plan c L a next =
     bindc (ld_plan_commits L (s_name (as_stage a)) (as_wt a)) (\<lambda>outcome.
       case outcome of
         PlanNone \<Rightarrow> seqc (record_integrated c (as_stage a) [(''commit'', JStr REVIEW_ONLY_NO_ARTIFACT)]) (ret (Finished True))
       | PlanLanded shas \<Rightarrow>
           seqc (record_integrated c (as_stage a)
                   [(''commit'', JStr (if shas = [] then [] else last shas)), (''shas'', j_strs shas)])
             (ret (Finished True))
       | PlanOutOfScope paths \<Rightarrow>
           ret (Failing CAUSE_REJECT
             (next\<lparr>pf_review_reason := ''a plan-stage commit touched paths outside specs/: '' @ join '', '' paths\<rparr>) None None)
       | PlanConflict detail \<Rightarrow>
           ret (Failing CAUSE_INTEGRATE_CONFLICT
             (next\<lparr>pf_review_reason := ''the plan amendment conflicts with a concurrent specs/ change: '' @ trim detail\<rparr>)
             None None))"

definition record_verified :: "'w run_cfg \<Rightarrow> attempt_site \<Rightarrow> string \<Rightarrow> ('w, unit) run" where
  "record_verified c a resolved =
     (let st = as_stage a in
      seqc (ensure_present c (as_wt a))
        (bindc (lookc (head_sha_of c (as_dir a))) (\<lambda>sha.
           emit_keyed_meta c (verified_key (s_name st) (as_attempts a)) TYPE_UNIT_STATUS
             (JObj [(''id'', JStr (s_name st)), (''status'', JStr ''verified''),
                    (''evidence'', JObj (if s_gates st = [] then []
                                         else [(''verified'', JStr (''gates passed: '' @ join '', '' (s_gates st)))]))])
             [(META_MODEL_ALIAS, agent_model c (s_agent st) (as_attempts a)), (META_MODEL_RESOLVED, resolved),
              (META_WORKTREE_SHA, sha)])))"

text \<open>A verdict that names an integrated unit as the defect queues its compensation.\<close>

definition queue_compensation :: "'w run_cfg \<Rightarrow> attempt_site \<Rightarrow> review_outcome \<Rightarrow> ('w, unit) run" where
  "queue_compensation c a review =
     (case vo_compensate review of
        None \<Rightarrow> ret ()
      | Some target \<Rightarrow>
          if target = s_name (as_stage a) then ret ()
          else
            seqc (emit_keyed_meta c (compensation_queued_key (s_name (as_stage a)) target (as_attempts a)) TYPE_UNIT_STATUS
                    (JObj [(''id'', JStr target), (''status'', JStr STATUS_COMPENSATION_QUEUED),
                           (''evidence'', JObj [(''compensation-queued'', JStr (trim (vo_reason review)))])])
                    [(META_COMPENSATE_TARGET, target), (META_CONTRADICTION, trim (vo_reason review))])
              (setc (\<lambda>s. s\<lparr>rx_compensations := rx_compensations s @ [(target, vo_reason review)]\<rparr>)))"

text \<open>The approved unit's landing: the full gate library, the merge, and the record of it.\<close>

definition land_unit :: "'w run_cfg \<Rightarrow> 'w landing \<Rightarrow> attempt_site \<Rightarrow> prior_failure \<Rightarrow> ('w, attempt_end) run" where
  "land_unit c L a next =
     (let st = as_stage a in
      if \<not> integrates st then ret (Finished False)
      else
        bindc (run_gates_at c st (as_dir a) (as_attempts a) (ir_ordinal (as_infra a)) Exhaustive) (\<lambda>full.
          if \<not> go_pass full
          then ret (Failing (gate_cause full) (next\<lparr>pf_gate_evidence := go_evidence full\<rparr>) None None)
          else
            bindc (integrate_under_infra_retry c L (as_wt a) st (as_attempts a) (as_infra a)) (\<lambda>integration.
              case in_blocked integration of
                None \<Rightarrow> seqc (record_integrated c st [(''commit'', JStr (in_commit integration))]) (ret (Finished True))
              | Some evidence \<Rightarrow>
                  ret (Failing CAUSE_INTEGRATE_CONFLICT (next\<lparr>pf_gate_evidence := evidence\<rparr>) None None))))"

definition judge_unit ::
  "'w run_cfg \<Rightarrow> 'w landing \<Rightarrow> attempt_site \<Rightarrow> prior_failure \<Rightarrow> review_outcome \<Rightarrow> ('w, attempt_end) run" where
  "judge_unit c L a next0 review =
     (let next = next0\<lparr>pf_required := vo_required review\<rparr> in
      seqc (queue_compensation c a review)
        (if vo_approved review then land_unit c L a next
         else ret (Failing (review_failure_cause (rc_codec c) (vo_reason review))
                     (next\<lparr>pf_review_reason := vo_reason review\<rparr>) None None)))"

definition verify_unit ::
  "'w run_cfg \<Rightarrow> 'w landing \<Rightarrow> attempt_site \<Rightarrow> prior_failure \<Rightarrow> prior_failure \<Rightarrow> string \<Rightarrow> string list \<Rightarrow> string list \<Rightarrow>
    ('w, attempt_end) run" where
  "verify_unit c L a prior next resolved seed safe =
     (let st = as_stage a in
      seqc (checkpoint_attempt c (as_wt a) (s_name st) (as_attempts a))
        (bindc (run_gates_at c st (as_dir a) (as_attempts a) (ir_ordinal (as_infra a)) (Narrowed seed)) (\<lambda>out.
           if \<not> go_pass out then ret (Failing (gate_cause out) (next\<lparr>pf_gate_evidence := go_evidence out\<rparr>) None None)
           else
             seqc (record_verified c a resolved)
               (bindc (infra_crash (review_unit c st (as_dir a) (as_attempts a) (ir_ordinal (as_infra a)) (as_attempts a > 0)
                          False safe (as_wt a) (pf_required prior))) (\<lambda>review.
                  case review of
                    Inl crash \<Rightarrow> ret (Failing CAUSE_INFRA_SPAWN next None (Some crash))
                  | Inr r \<Rightarrow> judge_unit c L a next r)))))"

text \<open>The test author's seam runs once per attempt, before its first gate, and never for a producer.\<close>

definition author_tests :: "'w run_cfg \<Rightarrow> attempt_site \<Rightarrow> prior_failure \<Rightarrow> ('w, string + unit) run" where
  "author_tests c a prior =
     (let st = as_stage a in
      bindc (getc (attempt_gates_started (s_name st) (as_attempts a))) (\<lambda>started.
        if is_producer st \<or> started then ret (Inr ())
        else infra_crash (spawn_sdet_author c st (as_wt a) (as_dir a) (as_attempts a) (ir_ordinal (as_infra a))
                            (pf_gate_evidence prior))))"

definition stage_attempt ::
  "'w run_cfg \<Rightarrow> 'w landing \<Rightarrow> attempt_site \<Rightarrow> event list \<Rightarrow> prior_failure \<Rightarrow> bool \<Rightarrow> ('w, attempt_end) run" where
  "stage_attempt c L a events prior skip =
     (let st = as_stage a; next = no_failure\<lparr>pf_required := pf_required prior\<rparr> in
      bindc (lookc (pt_seed (rc_ports c) st)) (\<lambda>seed.
        bindc (lookc (pt_radius (rc_ports c) st)) (\<lambda>(_, safe).
          seqc (record_blast_radius c st (as_attempts a) seed safe)
            (bindc (implement c st (as_wt a) (as_dir a) events (as_attempts a) (as_infra a) prior seed skip) (\<lambda>impl.
               case impl of
                 ImplRefused \<Rightarrow> ret (Finished False)
               | ImplFailed cause reason err \<Rightarrow> ret (Failing cause (next\<lparr>pf_review_reason := reason\<rparr>) err None)
               | ImplDone resolved \<Rightarrow>
                   bindc (author_tests c a prior) (\<lambda>authored.
                     case authored of
                       Inl crash \<Rightarrow> ret (Failing CAUSE_INFRA_SPAWN next None (Some crash))
                     | Inr _ \<Rightarrow>
                         if is_producer st then land_plan c L a next
                         else verify_unit c L a prior next resolved seed safe))))))"

section \<open>The attempts of a stage\<close>

text \<open>What the lesson of an escalation says.\<close>

definition escalation_summary :: "'w run_cfg \<Rightarrow> string \<Rightarrow> u32 \<Rightarrow> prior_failure \<Rightarrow> string" where
  "escalation_summary c unit attempts next =
     ''unit '' @ rc_debug c unit @ '' escalated after '' @ show_u32 attempts @ '' attempts; '' @
     (if failure_is_empty next then ''its gates or review would not pass'' else failure_summary next)"

text \<open>A charged failure: its \<open>UnitFailed\<close>, and at the bound the lesson and the \<open>UnitEscalated\<close>.\<close>

definition record_failure ::
  "'w run_cfg \<Rightarrow> string \<Rightarrow> string option \<Rightarrow> string \<Rightarrow> prior_failure \<Rightarrow> u32 \<Rightarrow> string \<Rightarrow> ('w, unit) run" where
  "record_failure c unit wt dir failure attempts cause =
     seqc (ensure_present c wt)
       (bindc (lookc (head_sha_of c dir)) (\<lambda>sha.
          emit_meta c TYPE_UNIT_FAILED (failed_body failure unit attempts cause) [(META_WORKTREE_SHA, sha)]))"

definition record_escalation :: "'w run_cfg \<Rightarrow> string \<Rightarrow> string option \<Rightarrow> u32 \<Rightarrow> prior_failure \<Rightarrow> ('w, unit) run" where
  "record_escalation c unit wt attempts next =
     seqc (bindc (resultc (emit_lesson c wt unit (escalation_summary c unit attempts next))) (\<lambda>_. ret ()))
       (emit c TYPE_UNIT_ESCALATED (JObj [(''id'', JStr unit)]))"

definition attempts_left :: "u32 \<Rightarrow> u32 \<Rightarrow> nat" where
  "attempts_left prior mx = (if prior = - 1 then Suc (unat mx) else unat mx - unat prior)"

lemma remediate_decreases:
  assumes "rem_decision (remediate a mx) \<noteq> Escalate"
  shows "attempts_left (rem_attempts (remediate a mx)) mx < attempts_left a mx"
proof -
  from assms have lt: "a + 1 < mx" and r: "rem_attempts (remediate a mx) = a + 1"
    by (auto simp: remediate_def Let_def split: if_splits)
  have top: "a + 1 \<noteq> - 1" using lt word_less_max by blast
  show ?thesis
  proof (cases "a = - 1")
    case True
    then show ?thesis unfolding r using lt by (simp add: attempts_left_def)
  next
    case False
    then have "unat (a + 1) = Suc (unat a)" by (rule unat_plus_one)
    with lt False top show ?thesis unfolding r by (simp add: attempts_left_def word_less_nat_alt)
  qed
qed

definition failure_evidence :: "prior_failure \<Rightarrow> string option \<Rightarrow> string option \<Rightarrow> string" where
  "failure_evidence next spawn_err tier_crash = unwrap_or (failure_summary next) (or_else spawn_err tier_crash)"

function run_attempts ::
  "'w run_cfg \<Rightarrow> 'w landing \<Rightarrow> stage \<Rightarrow> string option \<Rightarrow> string \<Rightarrow> event list \<Rightarrow> u32 \<Rightarrow> infra_retries \<Rightarrow> prior_failure \<Rightarrow> bool \<Rightarrow>
    ('w, bool) run" where
  "run_attempts c L st wt dir events attempts infra prior skip =
     bindc (stage_attempt c L \<lparr>as_stage = st, as_wt = wt, as_dir = dir, as_attempts = attempts, as_infra = infra\<rparr>
              events prior skip) (\<lambda>r.
       case r of
         Finished answer \<Rightarrow> ret answer
       | Failing cause next spawn_err tier_crash \<Rightarrow>
           if is_infra_cause cause then
             bindc (retry_infra_failure c (s_name st) attempts infra cause (failure_evidence next spawn_err tier_crash)) (\<lambda>infra'.
               seqc (setc (\<lambda>s. s\<lparr>rx_any_parked := False\<rparr>))
                 (run_attempts c L st wt dir events attempts infra' prior (spawn_err = None)))
           else
             let rem = remediate attempts (unit_max_retries c st) in
             seqc (record_failure c (s_name st) wt dir next (rem_attempts rem) cause)
               (if rem_decision rem = Escalate
                then seqc (record_escalation c (s_name st) wt (rem_attempts rem) next) (ret False)
                else run_attempts c L st wt dir events (rem_attempts rem)
                       (infra_recorded (rc_probes c) events (s_name st) (rem_attempts rem)) next False))"
  by pat_completeness auto
termination
  by (relation "measures [\<lambda>(c, _, st, _, _, _, attempts, _, _, _). attempts_left attempts (unit_max_retries c st),
                          \<lambda>(c, _, _, _, _, _, _, infra, _, _). infra_left c infra]")
    (auto dest: retry_infra_decreases remediate_decreases)

declare run_attempts.simps [simp del]

section \<open>The stage\<close>

definition resume_phase_of :: "'w run_cfg \<Rightarrow> stage \<Rightarrow> 'w \<Rightarrow> resume_phase" where
  "resume_phase_of c st w =
     (if rc_repo c = [] \<or> s_agent st = [] \<or> \<not> agent_isolated c (s_agent st) then PhaseFresh
      else
        (case bt_get (rc_prior_status c) (s_name st) of
           None \<Rightarrow> PhaseFresh
         | Some prior \<Rightarrow>
             let attempts = unwrap_or 0 (bt_get (rc_prior_attempts c) (s_name st));
                 integrating = conflict_regenerate_key (s_name st) attempts \<in> rc_integrate_attempted c;
                 phase = (case prior of
                     Reviewed \<Rightarrow> PhaseReviewed
                   | Green \<Rightarrow> if integrating \<and> panel_is_empty (effective_review_panel (rc_workflow c) st) then PhaseReviewed
                              else PhaseImplemented
                   | Verified \<Rightarrow> if integrating \<and> panel_is_empty (effective_review_panel (rc_workflow c) st) then PhaseReviewed
                                 else PhaseImplemented
                   | _ \<Rightarrow> PhaseFresh)
             in if phase = PhaseFresh \<or>
                   \<not> pt_branch_has_work (rc_ports c) (unit_branch (s_name st)) w \<and> \<not> (phase = PhaseReviewed \<and> integrating)
                then PhaseFresh else phase))"

text \<open>The tree of a halted spawn is committed before anything else runs in it.\<close>

definition recover_halted_spawn :: "'w run_cfg \<Rightarrow> stage \<Rightarrow> string option \<Rightarrow> event list \<Rightarrow> u32 \<Rightarrow> infra_retries \<Rightarrow> ('w, string) run" where
  "recover_halted_spawn c st wt events attempts infra =
     (case wt of None \<Rightarrow> ret []
      | Some w \<Rightarrow>
          let sid = spawn_retry_id (s_name st) ROLE_IMPLEMENTER attempts (implementer_retry (ir_ordinal infra)) in
          bindc (lookc (pt_merge_in_progress (rc_ports c) w)) (\<lambda>merging.
            bindc (if merging then ret False else halted_spawn_checkpoint_permitted c events (s_name st) sid) (\<lambda>permitted.
              if permitted then commit_checkpoint c wt (''wip('' @ s_name st @ ''): tree of halted spawn '' @ sid) else ret [])))"

text \<open>A unit that was already reviewed gates exhaustively and lands; a failure there is charged at once.\<close>

definition resume_reviewed ::
  "'w run_cfg \<Rightarrow> 'w landing \<Rightarrow> stage \<Rightarrow> string option \<Rightarrow> string \<Rightarrow> event list \<Rightarrow> ('w, bool) run" where
  "resume_reviewed c L st wt dir events =
     (if \<not> integrates st then ret False
      else
        let attempts = unwrap_or 0 (bt_get (rc_prior_attempts c) (s_name st)) in
        bindc (gates_under_infra_retry c st dir attempts (infra_recorded (rc_probes c) events (s_name st) attempts))
          (\<lambda>(full, infra).
            if \<not> go_pass full
            then seqc (record_failure c (s_name st) wt dir (no_failure\<lparr>pf_gate_evidence := go_evidence full\<rparr>) (attempts + 1)
                         (gate_cause full))
                   (ret False)
            else
              bindc (integrate_under_infra_retry c L wt st attempts infra) (\<lambda>integration.
                case in_blocked integration of
                  Some evidence \<Rightarrow>
                    seqc (record_failure c (s_name st) wt dir (no_failure\<lparr>pf_gate_evidence := evidence\<rparr>) (attempts + 1)
                            CAUSE_INTEGRATE_CONFLICT)
                      (ret False)
                | None \<Rightarrow> seqc (record_integrated c st [(''commit'', JStr (in_commit integration))]) (ret True))))"

definition first_failure :: "'w run_cfg \<Rightarrow> stage \<Rightarrow> u32 \<Rightarrow> string \<Rightarrow> prior_failure" where
  "first_failure c st attempts halted_commit =
     (let logged = logged_prior_failure c (s_name st) attempts;
          halted = (if halted_commit = [] then logged else logged\<lparr>pf_halted_commit := halted_commit\<rparr>)
      in case bt_get (rc_compensation_feedback c) (s_name st) of
           None \<Rightarrow> halted
         | Some reason \<Rightarrow> halted\<lparr>pf_contradiction := reason\<rparr>)"

definition run_single_stage ::
  "'w run_cfg \<Rightarrow> 'w landing \<Rightarrow> stage \<Rightarrow> string option \<Rightarrow> string \<Rightarrow> resume_phase \<Rightarrow> ('w, bool) run" where
  "run_single_stage c L st wt dir phase =
     bindc (read_run c) (\<lambda>events.
       bindc (getc (effective_attempts c (s_name st))) (\<lambda>attempts.
         let infra = infra_recorded (rc_probes c) events (s_name st) attempts in
         bindc (recover_halted_spawn c st wt events attempts infra) (\<lambda>halted_commit.
           if phase = PhaseReviewed then resume_reviewed c L st wt dir events
           else run_attempts c L st wt dir events attempts infra (first_failure c st attempts halted_commit)
                  (phase = PhaseImplemented))))"

end
