(* ===== verification/Unit_Merge.thy ===== *)
theory Unit_Merge
  imports Unit_Life
begin

text \<open>
  The landing of an approved unit (\<open>integrate_and_emit\<close> of \<open>conductor.rs\<close>): the merge loop with its
  conflict rounds, regenerations and landing passes, each bracketed by rows on the run stream, the
  post-merge gates on a throwaway worktree, and the indexing of what landed. Git is the landing ports.

  A pass counter that overflows panics where the build checks overflow; the model ends there with an error.
  Nothing else bounds a loop whose every conflict is confined to paths the conductor regenerates itself.
\<close>

section \<open>Rows of an integration\<close>

abbreviation "STATUS_INTEGRATE_CONFLICT_REGEN \<equiv> ''integrate-conflict-regenerate-pending''"
abbreviation "STATUS_INTEGRATE_MERGE_ATTEMPT \<equiv> ''integrate-merge-attempt''"
abbreviation "STATUS_INTEGRATE_TIP_MOVED \<equiv> ''integrate-tip-moved''"
abbreviation "STATUS_INTEGRATE_MERGE_OUTCOME \<equiv> ''integrate-merge-outcome''"
abbreviation "STATUS_INTEGRATE_PLACEHOLDER_STAGED \<equiv> ''integrate-conflict-placeholder-staged''"
abbreviation "STATUS_INTEGRATE_REGENERATE_COMMIT \<equiv> ''integrate-conflict-regenerate-commit''"
abbreviation "STATUS_INTEGRATE_LANDING_INTENT \<equiv> ''integrate-landing-intent''"
abbreviation "STATUS_INTEGRATE_LANDED \<equiv> ''integrate-landed''"
abbreviation "TYPE_FILE_TOUCHED \<equiv> ''FileTouched''"
abbreviation "TIP_MOVED_PASS_BOUND \<equiv> (8 :: u32)"

definition integrate_row_body :: "string \<Rightarrow> string \<Rightarrow> u32 \<Rightarrow> json \<Rightarrow> json" where
  "integrate_row_body status unit attempt evidence =
     JObj [(''id'', JStr unit), (''status'', JStr status), (''attempt'', j_num attempt), (''evidence'', evidence)]"

definition record_integrate_row ::
  "'w run_cfg \<Rightarrow> string \<Rightarrow> string \<Rightarrow> string \<Rightarrow> u32 \<Rightarrow> json \<Rightarrow> ('w, unit) run" where
  "record_integrate_row c key status unit attempt evidence =
     emit_keyed c key TYPE_UNIT_STATUS (integrate_row_body status unit attempt evidence)"

text \<open>A row's key: the unit, the row's name, the attempt and the pass, the round or the episode.\<close>

definition row_key :: "string \<Rightarrow> string \<Rightarrow> u32 \<Rightarrow> string \<Rightarrow> string" where
  "row_key unit row attempt episode = unit @ ''/'' @ row @ ''#'' @ show_u32 attempt @ ''~'' @ episode"

definition record_merge_attempt :: "'w run_cfg \<Rightarrow> string \<Rightarrow> u32 \<Rightarrow> u32 \<Rightarrow> string \<Rightarrow> ('w, unit) run" where
  "record_merge_attempt c unit attempt pass run_tip =
     record_integrate_row c (row_key unit ''merge-attempt'' attempt (show_u32 pass)) STATUS_INTEGRATE_MERGE_ATTEMPT unit attempt
       (JObj [(''run_tip'', JStr run_tip)])"

definition record_merge_outcome :: "'w run_cfg \<Rightarrow> string \<Rightarrow> u32 \<Rightarrow> u32 \<Rightarrow> string list \<Rightarrow> ('w, unit) run" where
  "record_merge_outcome c unit attempt pass conflicts =
     record_integrate_row c (row_key unit ''merge-outcome'' attempt (show_u32 pass)) STATUS_INTEGRATE_MERGE_OUTCOME unit attempt
       (if conflicts = [] then JObj [(''outcome'', JStr ''clean'')]
        else JObj [(''outcome'', JStr ''conflict''), (''paths'', JStr (join '','' conflicts))])"

definition record_landing_intent :: "'w run_cfg \<Rightarrow> string \<Rightarrow> u32 \<Rightarrow> u32 \<Rightarrow> string \<Rightarrow> string \<Rightarrow> ('w, unit) run" where
  "record_landing_intent c unit attempt pass unit_tip run_tip =
     record_integrate_row c (row_key unit ''landing-intent'' attempt (show_u32 pass)) STATUS_INTEGRATE_LANDING_INTENT unit attempt
       (JObj [(''unit_tip'', JStr unit_tip), (''run_tip'', JStr run_tip)])"

definition record_tip_moved :: "'w run_cfg \<Rightarrow> string \<Rightarrow> u32 \<Rightarrow> u32 \<Rightarrow> string \<Rightarrow> string \<Rightarrow> ('w, unit) run" where
  "record_tip_moved c unit attempt pass run_tip unit_tip =
     record_integrate_row c (row_key unit ''tip-moved'' attempt (show_u32 pass)) STATUS_INTEGRATE_TIP_MOVED unit attempt
       (JObj [(''run_tip'', JStr run_tip), (''unit_tip'', JStr unit_tip)])"

definition record_landed :: "'w run_cfg \<Rightarrow> string \<Rightarrow> u32 \<Rightarrow> u32 \<Rightarrow> string \<Rightarrow> string \<Rightarrow> ('w, unit) run" where
  "record_landed c unit attempt pass sha pre_merge =
     seqc (record_integrate_row c (row_key unit ''landed'' attempt (show_u32 pass)) STATUS_INTEGRATE_LANDED unit attempt
             (JObj [(''sha'', JStr sha), (''pre_merge'', JStr pre_merge)]))
       (setc (\<lambda>s. s\<lparr>rx_landed := bt_insert (conflict_regenerate_key unit attempt) (pass, sha, pre_merge) (rx_landed s)\<rparr>))"

definition record_placeholder_staged :: "'w run_cfg \<Rightarrow> string \<Rightarrow> u32 \<Rightarrow> u32 \<Rightarrow> string list \<Rightarrow> ('w, unit) run" where
  "record_placeholder_staged c unit attempt retry paths =
     record_integrate_row c (row_key unit ''placeholder-staged'' attempt (show_u32 retry)) STATUS_INTEGRATE_PLACEHOLDER_STAGED
       unit attempt (JObj [(''staged'', JStr (join '','' paths))])"

definition record_regenerate_commit :: "'w run_cfg \<Rightarrow> string \<Rightarrow> u32 \<Rightarrow> string \<Rightarrow> string \<Rightarrow> ('w, unit) run" where
  "record_regenerate_commit c unit attempt episode sha =
     (if sha = [] then ret ()
      else record_integrate_row c (row_key unit ''regenerate-commit'' attempt episode) STATUS_INTEGRATE_REGENERATE_COMMIT unit attempt
             (JObj [(''sha'', JStr sha)]))"

definition clear_pending_landing :: "string \<Rightarrow> u32 \<Rightarrow> ('w, unit) run" where
  "clear_pending_landing unit attempt =
     setc (\<lambda>s. s\<lparr>rx_pending_landing := bt_remove (conflict_regenerate_key unit attempt) (rx_pending_landing s)\<rparr>)"

text \<open>The attempt's latest recorded landing answers for a pass that merged nothing.\<close>

definition landed_at :: "string \<Rightarrow> u32 \<Rightarrow> string \<Rightarrow> string \<Rightarrow> 'w rctx \<Rightarrow> string \<times> string" where
  "landed_at unit attempt merged merged_from s =
     (if merged \<noteq> [] then (merged, merged_from)
      else (case bt_get (rx_landed s) (conflict_regenerate_key unit attempt) of
              Some (_, sha, pre_merge) \<Rightarrow> (sha, pre_merge)
            | None \<Rightarrow> (merged, merged_from)))"

section \<open>Paths the conductor regenerates\<close>

definition regenerate_rule_for :: "'w run_cfg \<Rightarrow> string \<Rightarrow> regenerate_rule option" where
  "regenerate_rule_for c path =
     find (\<lambda>r. list_ex (\<lambda>p. glob_matches (rc_re_match c) p path) (rr_paths r)) (rc_regenerate c)"

definition push_new :: "string list \<Rightarrow> string list \<Rightarrow> string list" where
  "push_new all fresh = foldl (\<lambda>acc p. if p \<in> set acc then acc else acc @ [p]) all fresh"

definition regenerate_pending_for :: "string \<Rightarrow> u32 \<Rightarrow> 'w rctx \<Rightarrow> string list" where
  "regenerate_pending_for unit attempt s =
     unwrap_or [] (bt_get (rx_regenerate_pending s) (conflict_regenerate_key unit attempt))"

definition union_regenerate_pending :: "string \<Rightarrow> u32 \<Rightarrow> string list \<Rightarrow> 'w rctx \<Rightarrow> string list" where
  "union_regenerate_pending unit attempt fresh s = push_new (regenerate_pending_for unit attempt s) fresh"

definition record_regenerate_pending ::
  "'w run_cfg \<Rightarrow> string \<Rightarrow> u32 \<Rightarrow> string \<Rightarrow> string list \<Rightarrow> ('w, unit) run" where
  "record_regenerate_pending c unit attempt episode paths =
     (if paths = [] then ret ()
      else
        seqc (setc (\<lambda>s. s\<lparr>rx_regenerate_pending :=
                bt_insert (conflict_regenerate_key unit attempt) (union_regenerate_pending unit attempt paths s)
                  (rx_regenerate_pending s)\<rparr>))
          (record_integrate_row c (row_key unit ''conflict-regen'' attempt episode) STATUS_INTEGRATE_CONFLICT_REGEN unit attempt
             (JObj [(''regenerate'', JStr (join '','' paths))])))"

definition regenerate_gate :: "string \<Rightarrow> gate" where
  "regenerate_gate command =
     \<lparr>g_id = ''regenerate'', g_run = command, g_kind = Core, g_autonomy = Manual, g_history = []\<rparr>"

definition regenerate_env :: "'w run_cfg \<Rightarrow> string \<Rightarrow> (string \<times> string) list \<Rightarrow> gate_env" where
  "regenerate_env c dir env =
     (let target = unwrap_or [] (unit_cache_sibling dir); cache = (if target = [] then rc_shared_cache c else ([], []))
      in \<lparr>ge_dir = dir, ge_target = target, ge_scratch = unwrap_or [] (unit_sibling dir UNIT_GATE_SCRATCH_PREFIX),
          ge_cache_dir = fst cache, ge_cache_guard = snd cache,
          ge_store_fence = unwrap_or [] (review_fence_sibling dir), ge_env = env\<rparr>)"

definition run_regenerate_command :: "'w run_cfg \<Rightarrow> string \<Rightarrow> string \<Rightarrow> ('w, unit) run" where
  "run_regenerate_command c dir command =
     bindc (build_env c) (\<lambda>env.
       bindc (run_command c (regenerate_gate command) (regenerate_env c dir env)) (\<lambda>runs.
         if res_pass (runs 0) then ret ()
         else fail (''regenerate command '' @ rc_debug c command @ '' failed:'' @ [CHR 0x0A] @ res_evidence (runs 0))))"

definition regenerate_commands :: "'w run_cfg \<Rightarrow> string list \<Rightarrow> string list" where
  "regenerate_commands c paths = push_new [] (map rr_run (List.map_filter (regenerate_rule_for c) paths))"

definition regenerate_conflicted_paths :: "'w run_cfg \<Rightarrow> string \<Rightarrow> string \<Rightarrow> string list \<Rightarrow> ('w, string) run" where
  "regenerate_conflicted_paths c dir unit paths =
     seqc (foreachc (run_regenerate_command c dir) (regenerate_commands c paths))
       (bindc (portc (pt_commit_checkpoint (rc_ports c) dir (''rigger: regenerate conflicting artifacts for '' @ unit))) (\<lambda>committed.
          if committed = [] then lookc (head_sha_of c dir) else ret committed))"

definition regenerate_and_record ::
  "'w run_cfg \<Rightarrow> string \<Rightarrow> string \<Rightarrow> u32 \<Rightarrow> string list \<Rightarrow> (string \<Rightarrow> string) \<Rightarrow> ('w, unit) run" where
  "regenerate_and_record c dir unit attempt paths tag =
     bindc (regenerate_conflicted_paths c dir unit paths) (\<lambda>sha.
       seqc (record_regenerate_commit c unit attempt (tag sha) sha)
         (setc (\<lambda>s. s\<lparr>rx_regenerate_pending := bt_remove (conflict_regenerate_key unit attempt) (rx_regenerate_pending s)\<rparr>)))"

definition catch_up_owed_regeneration :: "'w run_cfg \<Rightarrow> string \<Rightarrow> string \<Rightarrow> u32 \<Rightarrow> ('w, bool) run" where
  "catch_up_owed_regeneration c dir unit attempt =
     bindc (getc (regenerate_pending_for unit attempt)) (\<lambda>owed.
       if owed = [] then ret False
       else seqc (regenerate_and_record c dir unit attempt owed (\<lambda>sha. ''resume-'' @ sha)) (ret True))"

section \<open>Resolving a conflict\<close>

definition conflict_resolution_prompt :: "'w run_cfg \<Rightarrow> string \<Rightarrow> string list \<Rightarrow> string" where
  "conflict_resolution_prompt c unit conflicting =
     ''Your unit '' @ rc_debug c unit @ [CHR 0x27] @ ''s change was approved and gated green, but integrating it hit a ''
     @ ''real merge conflict against work another unit landed on the run branch meanwhile - ''
     @ ''this is not a defect in your implementation, and no remediation attempt is charged for ''
     @ ''it. The run branch has already been merged into your worktree ('' @ [CHR 0x60] @ ''git merge ''
     @ ''--no-commit'' @ [CHR 0x60] @ '') and conflict markers are left in place in exactly these path(s):'' @ [CHR 0x0A]
     @ join [CHR 0x0A] (map (\<lambda>p. ''- '' @ p) conflicting) @ [CHR 0x0A, CHR 0x0A]
     @ ''Resolve the conflicts in these paths only, preserving both sides'' @ [CHR 0x27] @ '' intent, '' @ [CHR 0x60] @ ''git add''
     @ [CHR 0x60] @ '' each resolved path, and '' @ [CHR 0x60] @ ''git commit'' @ [CHR 0x60]
     @ '' to complete the merge on your CURRENT branch. Do ''
     @ ''not revert, discard, or re-implement any of your PRIOR commits - they stay exactly as ''
     @ ''they are; you are only completing this one merge.''"

text \<open>A park, a refused record and a store's fault pass on; every other end of the resolver is judged by the next merge.\<close>

definition resolver_answer :: "'w run_cfg \<Rightarrow> stage \<Rightarrow> string + agent_result \<times> nat \<Rightarrow> ('w, unit) run" where
  "resolver_answer c st answer =
     (case answer of
        Inr _ \<Rightarrow> ret ()
      | Inl e \<Rightarrow>
          if is_parked_or_refused e EMIT_REFUSED_MARKER then fail e
          else if carries_marker e STORE_FAULT_MARKER
          then fail (spawn_crash (''stage '' @ rc_debug c (s_name st) @ '' conflict resolver: '' @ strip_failure_marker e))
          else ret ())"

definition resolver_opts :: "stage \<Rightarrow> string \<Rightarrow> u32 \<Rightarrow> string \<Rightarrow> string list \<Rightarrow> (string \<times> string) list \<Rightarrow> spawn_opts" where
  "resolver_opts st dir attempt sid source env =
     \<lparr>so_id = sid, so_agent = s_agent st, so_unit = s_name st, so_stage = s_name st, so_dir = dir, so_attempt = attempt,
      so_isolation = True, so_parallel = False, so_blast_radius = source,
      so_title = ''resolve integrate conflict: '' @ s_name st, so_reviews = [],
      so_env = spawn_env env dir UNIT_CACHE_PREFIX, so_resumed_from = [], so_resume_task = []\<rparr>"

definition spawn_conflict_resolution_implementer ::
  "'w run_cfg \<Rightarrow> stage \<Rightarrow> string \<Rightarrow> u32 \<Rightarrow> u32 \<Rightarrow> string list \<Rightarrow> string option \<Rightarrow> ('w, unit) run" where
  "spawn_conflict_resolution_implementer c st dir attempt retry source refused =
     (let sid = spawn_retry_id (s_name st) ROLE_IMPLEMENTER attempt retry in
      bindc (reserve_spawn c sid) (\<lambda>reserved.
        if \<not> reserved then fail (spawn_halt c BudgetRefused (s_name st) ''implementer'' (s_agent st))
        else
          bindc (agent_of c st ''agent'' (s_agent st)) (\<lambda>_.
            seqc (liftc (if agent_isolated c (s_agent st) then assert_isolated_cwd c ''implementer'' (s_agent st) dir else Inr ()))
              (bindc (build_env c) (\<lambda>env.
                 bindc (resultc (spawn_agent c (resolver_opts st dir attempt sid source env)
                           (refused_task refused (conflict_resolution_prompt c (s_name st) source))
                           [(META_ACTOR, s_agent st), (META_SPAWN, sid)])) (resolver_answer c st))))))"

section \<open>A pass of the merge loop\<close>

text \<open>
  Where a call's landing stands: the conflict rounds spent, the round the last placeholders were staged in,
  and the run branch's tip before the call's first landing.
\<close>

record merge_turn =
  tn_retry :: u32
  tn_staged :: u32
  tn_from :: "string option"

datatype merge_end = MergedAt string string "string option" | MergeBlocked "string list"

datatype pass_end = PassDone merge_end | PassAgain merge_turn

definition land_refused :: "'w run_cfg \<Rightarrow> string \<Rightarrow> string \<Rightarrow> string list \<Rightarrow> ('w, 'a) run" where
  "land_refused c unit dir paths =
     bindc (lookc (\<lambda>w. map (\<lambda>p. case lp_branch_with_same (rc_landing c) p w of
                               Some b \<Rightarrow> p @ '' (identical to '' @ b @ [CHR 0x27] @ ''s tip)'' | None \<Rightarrow> p) paths)) (\<lambda>named.
       seqc (resultc (emit_lesson c (Some dir) unit
               (''landing '' @ rc_debug c unit @ '' was refused: local content at '' @ join '', '' named
                @ '' would be overwritten by the merge - clear it (or confirm it is already captured on the named branch) and ''
                @ ''the unit'' @ [CHR 0x27] @ ''s own branch lands unchanged'')))
         (fail (LAND_REFUSED_MARKER @ ''unit '' @ rc_debug c unit @ '': landing refused for local changes at '' @ join '', '' paths)))"

definition land_answer ::
  "'w run_cfg \<Rightarrow> stage \<Rightarrow> string \<Rightarrow> u32 \<Rightarrow> merge_turn \<Rightarrow> u32 \<Rightarrow> string \<Rightarrow> string \<Rightarrow> land_outcome \<Rightarrow> ('w, pass_end) run" where
  "land_answer c st dir attempt turn pass pre commit out =
     (case out of
        LandTipMoved \<Rightarrow>
          seqc (record_tip_moved c (s_name st) attempt pass pre commit)
            (if TIP_MOVED_PASS_BOUND \<le> pass
             then fail (''integrate '' @ s_name st @ '': the run branch moved under every one of '' @ show_u32 pass @ '' landing passes'')
             else ret (PassAgain turn))
      | LandBlocked paths \<Rightarrow> land_refused c (s_name st) dir paths
      | LandDone \<Rightarrow>
          (let turn' = turn\<lparr>tn_from := or_else (tn_from turn) (Some pre)\<rparr> in
           seqc (record_landed c (s_name st) attempt pass commit pre)
             (bindc (getc (regenerate_pending_for (s_name st) attempt)) (\<lambda>owed.
                if owed = [] then ret (PassDone (MergedAt commit pre (tn_from turn')))
                else seqc (regenerate_and_record c dir (s_name st) attempt owed (\<lambda>_. show_u32 (tn_staged turn)))
                       (ret (PassAgain turn'))))))"

definition ready_pass ::
  "'w run_cfg \<Rightarrow> stage \<Rightarrow> string \<Rightarrow> u32 \<Rightarrow> merge_turn \<Rightarrow> u32 \<Rightarrow> string \<Rightarrow> string \<Rightarrow> ('w, pass_end) run" where
  "ready_pass c st dir attempt turn pass pre commit =
     seqc (record_merge_outcome c (s_name st) attempt pass [])
       (if commit = [] then ret (PassDone (MergedAt [] pre (tn_from turn)))
        else
          seqc (record_landing_intent c (s_name st) attempt pass commit pre)
            (bindc (portc (lp_land (rc_landing c) dir)) (land_answer c st dir attempt turn pass pre commit)))"

definition confined_pass :: "'w run_cfg \<Rightarrow> stage \<Rightarrow> string \<Rightarrow> u32 \<Rightarrow> merge_turn \<Rightarrow> u32 \<Rightarrow> string list \<Rightarrow> ('w, pass_end) run" where
  "confined_pass c st dir attempt turn pass regenerable =
     (let episode = ''confined'' @ show_u32 pass in
      bindc (getc (union_regenerate_pending (s_name st) attempt regenerable)) (\<lambda>all.
        seqc (record_regenerate_pending c (s_name st) attempt episode all)
          (seqc (regenerate_and_record c dir (s_name st) attempt all (\<lambda>_. episode)) (ret (PassAgain turn)))))"

definition mixed_pass ::
  "'w run_cfg \<Rightarrow> stage \<Rightarrow> string \<Rightarrow> u32 \<Rightarrow> string \<Rightarrow> merge_turn \<Rightarrow> string list \<Rightarrow> string list \<Rightarrow> string list \<Rightarrow> ('w, pass_end) run" where
  "mixed_pass c st dir attempt head turn conflicting regenerable source =
     (let retry = tn_retry turn + 1 in
      if CONFLICT_RESOLVE_BOUND < retry then
        seqc (portc (lp_reset_branch (rc_landing c) dir head))
          (ret (PassDone (MergeBlocked [''integrate conflict unresolved after '' @ show_u32 CONFLICT_RESOLVE_BOUND
                  @ '' implementer attempt(s); still unmerged: '' @ join '', '' conflicting])))
      else
        seqc (record_regenerate_pending c (s_name st) attempt (show_u32 retry) regenerable)
          (seqc (foreachc (\<lambda>p. portc (lp_accept_incoming (rc_landing c) dir p)) regenerable)
             (seqc (record_placeholder_staged c (s_name st) attempt retry regenerable)
                (bindc (rerun_once_on_refusal retry CONFLICT_RESOLVE_BOUND (\<lambda>round refused.
                          seqc (spawn_conflict_resolution_implementer c st dir attempt round source refused) (ret round))) (\<lambda>round.
                   seqc (ensure_present c (Some dir))
                     (ret (PassAgain (turn\<lparr>tn_retry := round, tn_staged := retry\<rparr>))))))))"

definition merge_answer ::
  "'w run_cfg \<Rightarrow> stage \<Rightarrow> string \<Rightarrow> u32 \<Rightarrow> string \<Rightarrow> merge_turn \<Rightarrow> u32 \<Rightarrow> string \<Rightarrow> merge_outcome \<Rightarrow> ('w, pass_end) run" where
  "merge_answer c st dir attempt head turn pass pre out =
     (case out of
        MergeReady commit \<Rightarrow> ready_pass c st dir attempt turn pass pre commit
      | MergeConflict conflicting \<Rightarrow>
          seqc (record_merge_outcome c (s_name st) attempt pass conflicting)
            (let regenerable = filter (\<lambda>p. regenerate_rule_for c p \<noteq> None) conflicting;
                 source = filter (\<lambda>p. regenerate_rule_for c p = None) conflicting
             in if source = [] then confined_pass c st dir attempt turn pass regenerable
                else mixed_pass c st dir attempt head turn conflicting regenerable source))"

definition merge_pass ::
  "'w run_cfg \<Rightarrow> stage \<Rightarrow> string \<Rightarrow> u32 \<Rightarrow> string \<Rightarrow> merge_turn \<Rightarrow> u32 \<Rightarrow> ('w, pass_end) run" where
  "merge_pass c st dir attempt head turn pass =
     bindc (lookc (head_sha_of c (rc_repo c))) (\<lambda>pre.
       seqc (record_merge_attempt c (s_name st) attempt pass pre)
         (bindc (portc (lp_merge (rc_landing c) dir (''rigger: integrate '' @ s_name st)))
            (merge_answer c st dir attempt head turn pass pre)))"

function merge_passes ::
  "'w run_cfg \<Rightarrow> stage \<Rightarrow> string \<Rightarrow> u32 \<Rightarrow> string \<Rightarrow> merge_turn \<Rightarrow> u32 \<Rightarrow> ('w, merge_end) run" where
  "merge_passes c st dir attempt head turn pass =
     (if pass = - 1 then fail ''attempt to add with overflow''
      else
        bindc (merge_pass c st dir attempt head turn (pass + 1)) (\<lambda>r.
          case r of
            PassDone e \<Rightarrow> ret e
          | PassAgain turn' \<Rightarrow> merge_passes c st dir attempt head turn' (pass + 1)))"
  by pat_completeness auto
termination
proof (relation "measure (\<lambda>(_, _, _, _, _, _, pass). 2 ^ 32 - unat pass)", simp, clarify)
  fix pass :: u32 assume "pass \<noteq> - 1"
  then have "unat (pass + 1) = Suc (unat pass)" by (rule unat_plus_one)
  moreover have "unat (pass + 1) < 2 ^ 32" using unsigned_less [of "pass + 1", where ?'a = nat] by simp
  ultimately show "((c, st, dir, attempt, head, turn', pass + 1), c, st, dir, attempt, head, turn, pass)
      \<in> measure (\<lambda>(_, _, _, _, _, _, pass). 2 ^ 32 - unat pass)" for c :: "'w run_cfg" and st dir attempt head turn turn' by simp
qed

declare merge_passes.simps [simp del]

text \<open>Evaluation unfolds a loop over a state only.\<close>

lemma merge_passes_run [code]:
  "merge_passes c st dir attempt head turn pass s =
     (if pass = - 1 then fail ''attempt to add with overflow''
      else bindc (merge_pass c st dir attempt head turn (pass + 1)) (\<lambda>r. case r of PassDone e \<Rightarrow> ret e
             | PassAgain turn' \<Rightarrow> merge_passes c st dir attempt head turn' (pass + 1))) s"
  by (subst merge_passes.simps) (rule refl)

section \<open>What an earlier call left\<close>

text \<open>
  A unit with nothing left to merge may have landed already: an open landing intent, or a recorded landing
  whose post-merge gates never ended. \<open>EntryDone\<close> is a landing to finish, \<open>EntryNothing\<close> a unit that never
  had anything to land.
\<close>

datatype entry = EntryMerge | EntryNothing | EntryDone u32 string string

definition entry_of :: "'w run_cfg \<Rightarrow> stage \<Rightarrow> string \<Rightarrow> u32 \<Rightarrow> string list \<Rightarrow> ('w, entry) run" where
  "entry_of c st dir attempt files =
     (let key = conflict_regenerate_key (s_name st) attempt in
      if files \<noteq> [] then ret EntryMerge
      else
        bindc (getc (\<lambda>s. bt_get (rx_pending_landing s) key)) (\<lambda>pending.
          case pending of
            None \<Rightarrow>
              bindc (catch_up_owed_regeneration c dir (s_name st) attempt) (\<lambda>owed.
                if owed then ret EntryMerge
                else getc (\<lambda>s. case bt_get (rx_landed s) key of
                       Some (pass, sha, pre_merge) \<Rightarrow> EntryDone pass sha pre_merge | None \<Rightarrow> EntryNothing))
          | Some (pass, unit_tip, run_tip) \<Rightarrow>
              bindc (getc (regenerate_pending_for (s_name st) attempt)) (\<lambda>owed.
                if owed = [] then ret (EntryDone pass unit_tip run_tip)
                else
                  seqc (record_landed c (s_name st) attempt pass unit_tip run_tip)
                    (seqc (clear_pending_landing (s_name st) attempt)
                       (bindc (catch_up_owed_regeneration c dir (s_name st) attempt) (\<lambda>_. ret EntryMerge))))))"

section \<open>The post-merge gates\<close>

definition throwaway_dir_and_branch :: "string \<Rightarrow> string \<Rightarrow> string \<Rightarrow> u32 \<Rightarrow> string \<times> string" where
  "throwaway_dir_and_branch tag scratch_root uid attempt =
     (let slug = sanitize_for_path uid @ ''-'' @ show_u32 attempt
      in (scratch_root @ ''/rigger-'' @ tag @ ''-'' @ slug, ''rigger/'' @ tag @ ''/'' @ slug))"

text \<open>A red takes the merge back, on the repository and on the unit's branch. The answer is its evidence.\<close>

definition gate_merged ::
  "'w run_cfg \<Rightarrow> stage \<Rightarrow> string \<Rightarrow> u32 \<Rightarrow> string \<Rightarrow> string \<Rightarrow> string \<Rightarrow> string \<Rightarrow> ('w, string list option) run" where
  "gate_merged c st dir attempt head pre pm_wt pm_branch =
     (let L = rc_landing c in
      bindc (resultc (run_gates_at c st pm_wt attempt 0 PostMerge)) (\<lambda>gates.
        seqc (resultc (portc (lp_remove L pm_wt)))
          (seqc (resultc (portc (lp_delete_branch L pm_branch)))
             (bindc (liftc gates) (\<lambda>merged.
                if go_pass merged then ret None
                else
                  seqc (portc (lp_reset_repo L pre))
                    (seqc (ensure_present c (Some dir))
                       (seqc (portc (lp_reset_branch L dir head)) (ret (Some (go_evidence merged))))))))))"

definition regate :: "'w run_cfg \<Rightarrow> stage \<Rightarrow> string \<Rightarrow> u32 \<Rightarrow> string \<Rightarrow> string \<Rightarrow> string \<Rightarrow> ('w, string list option) run" where
  "regate c st dir attempt head commit pre =
     (let L = rc_landing c; (pm_dir, pm_branch) = throwaway_dir_and_branch ''postmerge'' (rc_scratch c) (s_name st) attempt in
      seqc (portc (lp_discard L pm_dir pm_branch))
        (seqc (portc (lp_create_branch_at L pm_branch commit))
           (bindc (resultc (portc (lp_create L pm_dir pm_branch))) (\<lambda>created.
              case created of
                Inl e \<Rightarrow> seqc (resultc (portc (lp_delete_branch L pm_branch))) (fail e)
              | Inr pm_wt \<Rightarrow> gate_merged c st dir attempt head pre pm_wt pm_branch))))"

section \<open>Indexing what landed\<close>

text \<open>The entries a reindex appends are ledger entries of the run stream.\<close>

definition ingest_files :: "'w run_cfg \<Rightarrow> string list \<Rightarrow> ('w, unit) run" where
  "ingest_files c files =
     (\<lambda>s. case lp_ingest (rc_landing c) files (rx_world s) of
        ((r, entries), w) \<Rightarrow>
          (r, s\<lparr>rx_world := w, rx_log := rx_log s @ map (\<lambda>body. event_with_meta TYPE_GENERATION_INGESTED body []) entries\<rparr>))"

definition index_landed :: "'w run_cfg \<Rightarrow> stage \<Rightarrow> string \<Rightarrow> string \<Rightarrow> string \<Rightarrow> ('w, unit) run" where
  "index_landed c st dir commit since =
     bindc (portc (lp_diff_merge_base (rc_landing c) dir since)) (\<lambda>files.
       seqc (whenc (commit \<noteq> [])
              (seqc (setc (\<lambda>s. s\<lparr>rx_world := lp_reindex (rc_landing c) files (rx_world s)\<rparr>)) (ingest_files c files)))
         (foreachc (\<lambda>f. emit c TYPE_FILE_TOUCHED (JObj [(''path'', JStr f), (''by'', JStr (s_agent st))])) files))"

section \<open>The integration\<close>

text \<open>After the merge: the post-merge gates of what landed, then its index, then the scratch of the gates goes.\<close>

definition close_landing ::
  "'w run_cfg \<Rightarrow> stage \<Rightarrow> string \<Rightarrow> string \<Rightarrow> string \<Rightarrow> string list option \<Rightarrow> ('w, integration) run" where
  "close_landing c st dir commit since red =
     (case red of
        Some evidence \<Rightarrow> ret \<lparr>in_commit = [], in_blocked = Some evidence\<rparr>
      | None \<Rightarrow>
          seqc (index_landed c st dir commit since)
            (seqc (whenc (commit \<noteq> [])
                     (setc (\<lambda>s. s\<lparr>rx_world := lp_reclaim (rc_landing c) (rc_unit_worktree_dir c (rc_scratch c) (s_name st)) (rx_world s)\<rparr>)))
               (ret \<lparr>in_commit = commit, in_blocked = None\<rparr>)))"

definition finish_landing ::
  "'w run_cfg \<Rightarrow> stage \<Rightarrow> string \<Rightarrow> u32 \<Rightarrow> string \<Rightarrow> string \<Rightarrow> string \<Rightarrow> string option \<Rightarrow> ('w, integration) run" where
  "finish_landing c st dir attempt head merged merged_from since =
     bindc (getc (landed_at (s_name st) attempt merged merged_from)) (\<lambda>(commit, pre).
       bindc (if commit = [] then ret None else regate c st dir attempt head commit pre)
         (close_landing c st dir commit (unwrap_or pre since)))"

definition integrate_worktree :: "'w run_cfg \<Rightarrow> stage \<Rightarrow> string \<Rightarrow> u32 \<Rightarrow> ('w, integration) run" where
  "integrate_worktree c st dir attempt =
     seqc (ensure_present c (Some dir))
       (bindc (portc (pt_changed_since_base (rc_ports c) dir)) (\<lambda>files.
          bindc (entry_of c st dir attempt files) (\<lambda>entry.
            if entry = EntryNothing then ret \<lparr>in_commit = [], in_blocked = None\<rparr>
            else
              bindc (lookc (head_sha_of c dir)) (\<lambda>head.
                case entry of
                  EntryDone pass unit_tip run_tip \<Rightarrow>
                    seqc (record_landed c (s_name st) attempt pass unit_tip run_tip)
                      (seqc (clear_pending_landing (s_name st) attempt)
                         (finish_landing c st dir attempt head unit_tip run_tip None))
                | _ \<Rightarrow>
                    bindc (merge_passes c st dir attempt head \<lparr>tn_retry = 0, tn_staged = 0, tn_from = None\<rparr> 0) (\<lambda>r.
                      case r of
                        MergeBlocked evidence \<Rightarrow> ret \<lparr>in_commit = [], in_blocked = Some evidence\<rparr>
                      | MergedAt merged merged_from since \<Rightarrow> finish_landing c st dir attempt head merged merged_from since)))))"

definition integrate_and_emit :: "'w run_cfg \<Rightarrow> string option \<Rightarrow> stage \<Rightarrow> u32 \<Rightarrow> ('w, integration) run" where
  "integrate_and_emit c wt st attempt =
     (case wt of None \<Rightarrow> ret \<lparr>in_commit = [], in_blocked = None\<rparr> | Some dir \<Rightarrow> integrate_worktree c st dir attempt)"

end
