(* ===== verification/Plan_Landing.thy ===== *)
theory Plan_Landing
  imports Unit_Merge
begin

text \<open>
  The landing of a producer's commits (\<open>integrate_plan_commits\<close> of \<open>conductor.rs\<close>): every commit of the
  plan's worktree must stay under \<open>specs/\<close>, its intent is recorded before git is touched, and a commit an
  earlier call confirmed, or whose content the run branch already has, is not picked again.
\<close>

definition outside_specs :: "string list \<Rightarrow> string list" where
  "outside_specs paths = filter (\<lambda>p. \<not> starts_with p ''specs/'') paths"

definition offending_paths :: "'w run_cfg \<Rightarrow> string \<Rightarrow> string list \<Rightarrow> ('w, string list) run" where
  "offending_paths c dir shas =
     bindc (portc (pt_changed_since_base (rc_ports c) dir)) (\<lambda>touched.
       foldc (\<lambda>acc sha. bindc (portc (lp_files_of_commit (rc_landing c) dir sha)) (\<lambda>files. ret (acc @ outside_specs files)))
         (outside_specs touched) shas)"

definition plan_intent_body :: "string \<Rightarrow> string list \<Rightarrow> json" where
  "plan_intent_body unit shas =
     JObj [(''id'', JStr (''plan-intent:'' @ unit)),
           (''summary'', JStr (''plan-stage commit landing intent for '' @ unit @ '': '' @ show_nat (length shas)
              @ '' commit(s) queued to land on the run branch, oldest-first: '' @ join '', '' shas)),
           (''governs'', JArr []), (''unit'', JStr unit), (''shas'', j_strs shas)]"

definition record_plan_intent :: "'w run_cfg \<Rightarrow> string \<Rightarrow> string list \<Rightarrow> ('w, unit) run" where
  "record_plan_intent c unit shas = emit c TYPE_DECISION_MADE (plan_intent_body unit shas)"

text \<open>The latest record of what landed, each original commit with the run branch's commit that carries it.\<close>

definition landed_entry :: "json \<Rightarrow> (string \<times> string) option" where
  "landed_entry entry =
     Option.bind (Option.bind (value_get entry ''sha'') as_str) (\<lambda>sha.
       map_option (Pair sha) (Option.bind (value_get entry ''landed_sha'') as_str))"

definition landed_record :: "codec \<Rightarrow> string \<Rightarrow> event \<Rightarrow> (string \<times> string) list option" where
  "landed_record D unit e =
     (if ev_type e \<noteq> TYPE_DECISION_MADE then None
      else Option.bind (res_ok (de_value D (ev_data e))) (\<lambda>v.
        if Option.bind (value_get v ''id'') as_str \<noteq> Some (''plan-landed:'' @ unit) then None
        else map_option (List.map_filter landed_entry) (Option.bind (value_get v ''landed'') as_array)))"

definition plan_landed_of :: "codec \<Rightarrow> string \<Rightarrow> event list \<Rightarrow> (string, string) btree" where
  "plan_landed_of D unit events =
     foldl (\<lambda>m e. case landed_record D unit e of None \<Rightarrow> m
                  | Some entries \<Rightarrow> foldl (\<lambda>m (sha, landed). bt_insert sha landed m) [] entries) [] events"

definition read_plan_landed :: "'w run_cfg \<Rightarrow> string \<Rightarrow> ('w, (string, string) btree) run" where
  "read_plan_landed c unit = bindc (read_run c) (\<lambda>events. ret (plan_landed_of (rc_codec c) unit events))"

definition landed_pairs :: "(string, string) btree \<Rightarrow> string list \<Rightarrow> (string \<times> string) list" where
  "landed_pairs landed_map shas = List.map_filter (\<lambda>sha. map_option (Pair sha) (bt_get landed_map sha)) shas"

definition plan_landed_body :: "string \<Rightarrow> (string, string) btree \<Rightarrow> string list \<Rightarrow> json" where
  "plan_landed_body unit landed_map shas =
     (let landed = landed_pairs landed_map shas in
      JObj [(''id'', JStr (''plan-landed:'' @ unit)),
            (''summary'', JStr (''plan-stage commit landing confirmed for '' @ unit @ '': '' @ show_nat (length landed) @ ''/''
               @ show_nat (length shas) @ '' intended commit(s) landed'')),
            (''governs'', JArr []), (''unit'', JStr unit),
            (''landed'', JArr (map (\<lambda>(sha, l). JObj [(''sha'', JStr sha), (''landed_sha'', JStr l)]) landed))])"

definition record_plan_landed :: "'w run_cfg \<Rightarrow> string \<Rightarrow> (string, string) btree \<Rightarrow> string list \<Rightarrow> ('w, unit) run" where
  "record_plan_landed c unit landed_map shas = emit c TYPE_DECISION_MADE (plan_landed_body unit landed_map shas)"

abbreviation "SEARCH_WINDOW \<equiv> (256 :: nat)"

text \<open>The pending commits the run branch already carries by content join the map; the others stay pending.\<close>

definition confirm_landed ::
  "'w run_cfg \<Rightarrow> string \<Rightarrow> (string, string) btree \<times> string list \<Rightarrow> string \<Rightarrow> ('w, (string, string) btree \<times> string list) run" where
  "confirm_landed c dir acc sha =
     bindc (portc (lp_find_landed (rc_landing c) dir sha SEARCH_WINDOW)) (\<lambda>found.
       ret (case found of Some l \<Rightarrow> (bt_insert sha l (fst acc), snd acc) | None \<Rightarrow> (fst acc, snd acc @ [sha])))"

definition pick_landed ::
  "'w run_cfg \<Rightarrow> string \<Rightarrow> (string, string) btree \<Rightarrow> string list \<Rightarrow> string list \<Rightarrow> ('w, (string, string) btree) run" where
  "pick_landed c dir landed_map still landed =
     (if length landed = length still then ret (foldl (\<lambda>m (sha, l). bt_insert sha l m) landed_map (zip still landed))
      else bindc (foldc (confirm_landed c dir) (landed_map, []) still) (\<lambda>(m, _). ret m))"

definition land_pending ::
  "'w run_cfg \<Rightarrow> string \<Rightarrow> (string, string) btree \<Rightarrow> string list \<Rightarrow> ('w, string + (string, string) btree) run" where
  "land_pending c dir landed_map still =
     (if still = [] then ret (Inr landed_map)
      else
        bindc (portc (lp_cherry_pick (rc_landing c) dir still)) (\<lambda>out.
          case out of
            PickConflict detail \<Rightarrow> ret (Inl detail)
          | Picked landed \<Rightarrow> bindc (pick_landed c dir landed_map still landed) (\<lambda>m. ret (Inr m))))"

definition integrate_plan_commits_inner :: "'w run_cfg \<Rightarrow> string \<Rightarrow> string option \<Rightarrow> ('w, plan_commit_outcome) run" where
  "integrate_plan_commits_inner c unit wt =
     (case wt of None \<Rightarrow> ret PlanNone
      | Some dir \<Rightarrow>
          bindc (portc (lp_commits_since_base (rc_landing c) dir)) (\<lambda>shas.
            if shas = [] then ret PlanNone
            else
              bindc (offending_paths c dir shas) (\<lambda>offending.
                if offending \<noteq> [] then ret (PlanOutOfScope (remdups_adj (sort offending)))
                else
                  seqc (record_plan_intent c unit shas)
                    (bindc (read_plan_landed c unit) (\<lambda>prior.
                       let known = landed_pairs prior shas;
                           m0 = foldl (\<lambda>m (sha, l). bt_insert sha l m) [] known;
                           pending = filter (\<lambda>sha. bt_get prior sha = None) shas
                       in
                         bindc (foldc (confirm_landed c dir) (m0, []) pending) (\<lambda>(m1, still).
                           bindc (land_pending c dir m1 still) (\<lambda>picked.
                             case picked of
                               Inl detail \<Rightarrow> ret (PlanConflict detail)
                             | Inr landed_map \<Rightarrow>
                                 seqc (record_plan_landed c unit landed_map shas)
                                   (ret (PlanLanded (List.map_filter (bt_get landed_map) shas))))))))))"

text \<open>Every error of it is the conductor's fault, never the unit's: it carries the halt's marker.\<close>

definition plan_landing_failed :: "'w run_cfg \<Rightarrow> string \<Rightarrow> string \<Rightarrow> string" where
  "plan_landing_failed c unit e =
     PLAN_LANDING_MARKER @ ''unit '' @ rc_debug c unit @ '': landing its plan-stage commits onto the run branch failed: '' @ e"

definition integrate_plan_commits :: "'w run_cfg \<Rightarrow> string \<Rightarrow> string option \<Rightarrow> ('w, plan_commit_outcome) run" where
  "integrate_plan_commits c unit wt = map_errc (\<lambda>e. fail (plan_landing_failed c unit e)) (integrate_plan_commits_inner c unit wt)"

text \<open>The landing the conductor runs its stages with.\<close>

definition conductor_landing :: "'w run_cfg \<Rightarrow> 'w landing" where
  "conductor_landing c =
     \<lparr>ld_integrate = (\<lambda>st wt attempts. integrate_and_emit c wt st attempts),
      ld_plan_commits = (\<lambda>unit wt. integrate_plan_commits c unit wt)\<rparr>"

end
