(* ===== verification/Unit_Frame.thy ===== *)
theory Unit_Frame
  imports Unit_Life
begin

text \<open>
  What the parts of a stage leave of the run's state. Two orders on states carry it: \<open>calm\<close>, where
  no lifecycle event of the conductor's own is written (an event is its own when no agent is its actor,
  so nothing is asked of what agents emit), and \<open>still\<close>, where moreover no gate verdict of the unit
  is recorded and none of its gate keys is claimed. Every part of \<open>review_unit\<close>, \<open>spawn_sdet_author\<close> and
  the attempt is shown to stay within one of them.
\<close>

section \<open>Computations that write no lifecycle event\<close>

definition own_life :: "fact \<Rightarrow> bool" where
  "own_life f \<longleftrightarrow>
     fa_type f \<in> {TYPE_UNIT_FAILED, TYPE_UNIT_ESCALATED, TYPE_UNIT_INTEGRATED} \<and> META_ACTOR \<notin> fst ` set (fa_meta f)"

definition calm :: "'w rctx \<Rightarrow> 'w rctx \<Rightarrow> bool" where
  "calm s t \<longleftrightarrow> (\<exists>new. rx_log t = rx_log s @ new \<and> (\<forall>f \<in> set new. \<not> own_life f))"

lemma calm_refl: "calm s s"
  by (simp add: calm_def)

lemma calm_trans: "calm s t \<Longrightarrow> calm t u \<Longrightarrow> calm s u"
  unfolding calm_def by (auto 0 4)

interpretation calm: state_order calm
  by unfold_locales (rule calm_refl, erule (1) calm_trans)

named_theorems calm_intros "the computations that write no lifecycle event"

lemmas [calm_intros] = calm.keeps_intros

lemma calm_same_log: "rx_log t = rx_log s \<Longrightarrow> calm s t"
  by (simp add: calm_def)

lemma calm_portc [calm_intros]: "keeps calm (portc p)"
  by (auto intro!: keepsI calm_same_log simp: portc_def split: prod.splits)

lemma calm_lookc [calm_intros]: "keeps calm (lookc p)"
  unfolding lookc_def by (intro calm_intros)

lemma calm_read_run [calm_intros]: "keeps calm (read_run c)"
  unfolding read_run_def by (intro calm_intros)

lemma calm_liftc [calm_intros]: "keeps calm (liftc r)"
  unfolding liftc_def by (auto intro!: calm_intros split: sum.split)

lemma calm_sayc [calm_intros]: "keeps calm (sayc c msg)"
  unfolding sayc_def by (intro calm.keeps_setc calm_same_log) simp

lemma calm_quiet: "quiet K T s t \<Longrightarrow> T \<inter> {TYPE_UNIT_FAILED, TYPE_UNIT_ESCALATED, TYPE_UNIT_INTEGRATED} = {} \<Longrightarrow> calm s t"
  unfolding quiet_def calm_def own_life_def by fastforce

lemma quiet_calm: "keeps (quiet UNIV T) c \<Longrightarrow> T \<inter> {TYPE_UNIT_FAILED, TYPE_UNIT_ESCALATED, TYPE_UNIT_INTEGRATED} = {} \<Longrightarrow> keeps calm c"
  by (erule keeps_mono) (erule (1) calm_quiet)

lemma calm_emit_keyed_meta [calm_intros]:
  "ty \<notin> {TYPE_UNIT_FAILED, TYPE_UNIT_ESCALATED, TYPE_UNIT_INTEGRATED} \<Longrightarrow> keeps calm (emit_keyed_meta c k ty body extra)"
  by (rule quiet_calm [of "{ty}"]) (auto intro: quiet_intros)

lemma calm_emit_keyed [calm_intros]:
  "ty \<notin> {TYPE_UNIT_FAILED, TYPE_UNIT_ESCALATED, TYPE_UNIT_INTEGRATED} \<Longrightarrow> keeps calm (emit_keyed c k ty body)"
  unfolding emit_keyed_def by (rule calm_emit_keyed_meta)

lemma calm_emit [calm_intros]:
  "ty \<notin> {TYPE_UNIT_FAILED, TYPE_UNIT_ESCALATED, TYPE_UNIT_INTEGRATED} \<Longrightarrow> keeps calm (emit c ty body)"
  by (rule quiet_calm [of "{ty}"]) (auto intro: quiet_intros)

section \<open>Gates\<close>

lemma calm_build_env [calm_intros]: "keeps calm (build_env c)" "keeps calm (gate_build_env c)"
  unfolding gate_build_env_def build_env_def run_base_env_def read_run_def by (intro calm_intros)+

lemma calm_run_command [calm_intros]: "keeps calm (run_command c g ge)"
  by (auto intro!: keepsI calm_same_log simp: run_command_def split: prod.splits)

lemma calm_gate_verdict [calm_intros]: "keeps calm (emit_gate_verdict c key unit gid pass flaky evidence digest hit)"
proof -
  have "keeps calm (claim_key key)" for key
    by (rule keepsI) (auto simp: claim_key_run calm_def split: if_splits)
  moreover have "keeps calm (append_and_fold c (gate_verdict_fact key gid pass flaky evidence digest hit))"
    by (rule quiet_calm [of "{TYPE_GATE_VERDICT}"]) (auto intro!: quiet_append simp: gate_verdict_fact_def)
  ultimately show ?thesis
    unfolding emit_gate_verdict_def by (auto intro!: calm_intros calm.keeps_setc calm_same_log)
qed

lemma calm_ratchet [calm_intros]: "keeps calm (feed_ratchet c gid kind r autonomy)"
  by (rule quiet_calm [OF quiet_ratchet [OF subset_refl]]) simp

lemma calm_skip [calm_intros]: "keeps calm (emit_gate_skip c unit gid attempt inputs radius)"
  by (rule quiet_calm [OF quiet_skip [OF UNIV_I, of "{TYPE_GATE_VERDICT}"]]) simp_all

lemma calm_inline_gate [calm_intros]: "keeps calm (run_inline_gate c st attempt ordinal selection ge sha out gid)"
  unfolding run_inline_gate_def run_fresh_gate_def Let_def
  by (auto intro!: calm_intros split: option.split prod.split)

lemma calm_gates [calm_intros]: "keeps calm (run_gates_at c st dir attempt ordinal selection)"
  unfolding run_gates_at_def by (intro calm_intros)

section \<open>Computations that leave a unit's verdicts\<close>

text \<open>Beside writing no lifecycle event, they record no verdict and claim none of the unit's gate keys.\<close>

definition still :: "string \<Rightarrow> 'w rctx \<Rightarrow> 'w rctx \<Rightarrow> bool" where
  "still u s t \<longleftrightarrow> calm s t \<and> quiet (- gate_run_keys u) UNIV s t"

interpretation still: state_order "still u"
  unfolding still_def by unfold_locales (auto intro: calm_refl quiet_refl calm_trans quiet_trans)

named_theorems still_intros "the computations that leave a unit's verdicts"

lemmas [still_intros] = still.keeps_intros

lemma keeps_still: "keeps calm c \<Longrightarrow> keeps (quiet (- gate_run_keys u) UNIV) c \<Longrightarrow> keeps (still u) c"
  unfolding keeps_def still_def by (simp split: prod.splits)

lemma still_calm: "keeps (still u) c \<Longrightarrow> keeps calm c"
  by (erule keeps_mono) (simp add: still_def)

lemma still_ctx: "keeps (still u) c \<Longrightarrow> keeps (ctx_le u) c"
  by (erule keeps_mono) (auto simp: still_def intro: quiet_ctx_le)

lemma still_yields: "keeps (still u) c \<Longrightarrow> yields (ctx_le u) c"
  by (rule keeps_yields) (rule still_ctx)

lemma still_same: "rx_log t = rx_log s \<Longrightarrow> rx_keys t = rx_keys s \<Longrightarrow> rx_verdicts t = rx_verdicts s \<Longrightarrow>
    rx_greens t = rx_greens s \<Longrightarrow> still u s t"
  by (simp add: still_def calm_def quiet_def)

lemma still_portc [still_intros]: "keeps (still u) (portc p)"
  by (intro keeps_still calm_intros quiet_intros)

lemma still_lookc [still_intros]: "keeps (still u) (lookc p)"
  unfolding lookc_def by (intro still_intros)

lemma still_read_run [still_intros]: "keeps (still u) (read_run c)"
  unfolding read_run_def by (intro still_intros)

lemma still_liftc [still_intros]: "keeps (still u) (liftc r)"
  unfolding liftc_def by (auto intro!: still_intros split: sum.split)

lemma still_sayc [still_intros]: "keeps (still u) (sayc c msg)"
  unfolding sayc_def by (intro still.keeps_setc still_same) simp_all

lemma still_emit [still_intros]:
  "ty \<notin> {TYPE_UNIT_FAILED, TYPE_UNIT_ESCALATED, TYPE_UNIT_INTEGRATED} \<Longrightarrow> keeps (still u) (emit c ty body)"
  by (intro keeps_still calm_intros quiet_intros) simp_all

lemma still_emit_keyed_meta [still_intros]:
  "ty \<notin> {TYPE_UNIT_FAILED, TYPE_UNIT_ESCALATED, TYPE_UNIT_INTEGRATED} \<Longrightarrow> k \<notin> gate_run_keys u \<Longrightarrow>
     keeps (still u) (emit_keyed_meta c k ty body extra)"
  by (intro keeps_still calm_intros quiet_intros) simp_all

lemma still_emit_keyed [still_intros]:
  "ty \<notin> {TYPE_UNIT_FAILED, TYPE_UNIT_ESCALATED, TYPE_UNIT_INTEGRATED} \<Longrightarrow> k \<notin> gate_run_keys u \<Longrightarrow>
     keeps (still u) (emit_keyed c k ty body)"
  unfolding emit_keyed_def by (rule still_emit_keyed_meta)

lemma still_record_lesson [still_intros]:
  "(\<And>k. key = Some k \<Longrightarrow> k \<notin> gate_run_keys u) \<Longrightarrow> keeps (still u) (record_lesson c key lid summary about)"
  unfolding record_lesson_def Let_def by (auto intro!: still_intros split: option.split)

lemma still_emit_lesson [still_intros]: "keeps (still u) (emit_lesson c wt unit summary)"
  unfolding emit_lesson_def by (auto intro!: still_intros split: option.split)

lemma still_reserve [still_intros]: "keeps (still u) (reserve_spawn c sid)"
  unfolding reserve_spawn_def Let_def by (auto intro!: still_intros still.keeps_setc still_same)

text \<open>The keys of a unit other than its gates': what follows the unit's name and slash starts otherwise.\<close>

definition plain_role :: "string \<Rightarrow> bool" where
  "plain_role role \<longleftrightarrow> role \<noteq> [] \<and> hd role \<notin> {CHR ''g'', CHR ''p''}"

lemma plain_key: "plain_role role \<Longrightarrow> u @ CHR ''/'' # role @ x \<notin> gate_run_keys u"
  by (cases role) (auto simp: plain_role_def gate_run_keys_def starts_with_def)

lemma plain_lit [simp]: "plain_role (CHR ''g'' # x) = False" "plain_role [] = False"
  "k \<noteq> CHR ''g'' \<Longrightarrow> k \<noteq> CHR ''p'' \<Longrightarrow> plain_role (k # x)"
  by (simp_all add: plain_role_def)

lemma plain_cons [simp]: "k \<noteq> CHR ''g'' \<Longrightarrow> k \<noteq> CHR ''p'' \<Longrightarrow> u @ CHR ''/'' # k # x \<notin> gate_run_keys u"
  using plain_key [of "[k]" u x] by simp

lemma session_key [simp]: "plain_role role \<Longrightarrow> spawn_retry_id u role a n @ ''/session'' \<notin> gate_run_keys u"
  unfolding spawn_retry_id_eq by (simp add: plain_key)

lemma plain_review_role [simp]: "plain_role (review_step_role kind agent k)"
  by (cases kind) (simp_all add: stepped_token_def lens_role_def)

lemma unit_keys [simp]:
  "plain_role status \<Longrightarrow> infra_mark_key u status a i \<notin> gate_run_keys u" "review_round_start_key u a \<notin> gate_run_keys u"
  "verified_key u a \<notin> gate_run_keys u" "compensation_queued_key u target a \<notin> gate_run_keys u"
  "green_key u a \<notin> gate_run_keys u" "blast_radius_key u a \<notin> gate_run_keys u" "reviewed_key u a \<notin> gate_run_keys u"
  by (simp_all add: infra_mark_key_def plain_key)
    (simp_all add: gate_run_keys_def starts_with_def infra_mark_key_def review_round_start_key_def verified_key_def
      compensation_queued_key_def green_key_def blast_radius_key_def reviewed_key_def)

lemma still_infra_mark [still_intros]:
  "plain_role status \<Longrightarrow> keeps (still u) (emit_infra_mark c u status attempt ordinal detail)"
  unfolding emit_infra_mark_def by (intro still_intros unit_keys) simp_all

lemma still_retry_infra [still_intros]: "keeps (still u) (retry_infra_failure c u attempt infra cause evidence)"
  unfolding retry_infra_failure_def Let_def by (auto intro!: still_intros)

lemma still_infra_crash [still_intros]: "keeps (still u) m \<Longrightarrow> keeps (still u) (infra_crash m)"
  unfolding infra_crash_def by (auto intro!: still_intros split: sum.split)

lemma calm_spawn_agent:
  assumes "(META_ACTOR, actor) \<in> set stamps" "actor \<noteq> []"
  shows "keeps calm (spawn_agent c opts prompt stamps)"
proof (rule keepsI)
  fix s r t assume run: "spawn_agent c opts prompt stamps s = (r, t)"
  obtain a emitted w where port: "pt_spawn (rc_ports c) opts prompt (rx_world s) = ((a, emitted), w)"
    by (metis surj_pair)
  have "META_ACTOR \<in> fst ` set (fa_meta (event_with_meta ty body stamps))" for ty body
    using assms by (force simp: event_with_meta_def)
  then have "\<not> own_life (event_with_meta ty body stamps)" for ty body
    unfolding own_life_def by blast
  moreover have "rx_log t = rx_log s @ map (\<lambda>(ty, body, _). event_with_meta ty body stamps) (filter (\<lambda>(_, _, ok). ok) emitted)"
    using run by (auto simp: spawn_agent_def port)
  ultimately show "calm s t" unfolding calm_def by auto
qed

lemma still_spawn_agent [still_intros]:
  assumes "(META_ACTOR, actor) \<in> set stamps" "actor \<noteq> []"
  shows "keeps (still u) (spawn_agent c opts prompt stamps)"
proof (rule keeps_still [OF calm_spawn_agent [OF assms]])
  show "keeps (quiet (- gate_run_keys u) UNIV) (spawn_agent c opts prompt stamps)"
    by (rule keepsI) (auto simp: spawn_agent_def quiet_def split: prod.splits)
qed

lemma still_continue [still_intros]: "keeps (still u) (continue_prior_session c opts role task)"
  unfolding continue_prior_session_def by (auto intro!: still_intros split: option.split)

lemma still_record_session [still_intros]: "so_id opts @ ''/session'' \<notin> gate_run_keys u \<Longrightarrow> keeps (still u) (record_session c opts r)"
  unfolding record_session_def by (auto intro!: still_intros)

lemma still_rerun_once [still_intros]: "(\<And>n note. keeps (still u) (spawn n note)) \<Longrightarrow> keeps (still u) (rerun_once_on_refusal n limit spawn)"
  unfolding rerun_once_on_refusal_def by (auto intro!: still_intros split: sum.split)

section \<open>Review and the test author\<close>

lemma still_build_env [still_intros]: "keeps (still u) (build_env c)"
  unfolding build_env_def by (intro still_intros)

lemma still_agent_of [still_intros]: "keeps (still u) (agent_of c st label agent)"
  unfolding agent_of_def by (auto intro!: still_intros split: option.split)

lemma still_reviewer_spawn_opts [still_intros]:
  "keeps (still u) (reviewer_spawn_opts c sid role agent dir attempt parallel st reviews)"
  unfolding reviewer_spawn_opts_def by (intro still_intros)

lemma still_recorded_result [still_intros]: "keeps (still u) (recorded_result c sid)"
  unfolding recorded_result_def by (auto intro!: still_intros split: sum.split)

lemma still_degenerate [still_intros]: "keeps (still u) (reviewer_result_is_degenerate c output sid result findings)"
  unfolding reviewer_result_is_degenerate_def by (auto intro!: still_intros)

lemma still_reviewer_error [still_intros]: "keeps (still u) (reviewer_error c q retry sid tries e)"
  unfolding reviewer_error_def review_spawn_errored_def by (auto intro!: still_intros)

lemma still_reviewer_result [still_intros]: "keeps (still u) (reviewer_result c q retry sid tries result findings)"
  unfolding reviewer_result_def gating_spawn_emitted_approve_def Let_def by (auto intro!: still_intros)

lemma still_ensure_present [still_intros]: "keeps (still u) (ensure_present c wt)"
  unfolding ensure_present_def by (auto intro!: still_intros split: option.split)

lemma reviewer_spawn_opts_id: "reviewer_spawn_opts c sid role agent dir attempt parallel st reviews s = (Inr opts, t) \<Longrightarrow> so_id opts = sid"
  by (auto simp: reviewer_spawn_opts_def run_Inr)

lemma continue_id: "continue_prior_session c opts role task s = (Inr opts', t) \<Longrightarrow> so_id opts' = so_id opts"
  by (auto simp: continue_prior_session_def run_Inr split: option.splits)

lemma reviewer_opts_id:
  "reviewer_opts c q retry s = (Inr opts, t) \<Longrightarrow> so_id opts = spawn_retry_id (s_name (rq_stage q)) (rq_role q) (rq_attempt q) retry"
  by (auto simp: reviewer_opts_def run_Inr split: if_splits dest!: continue_id reviewer_spawn_opts_id)

lemma still_reviewer_opts [still_intros]: "keeps (still u) (reviewer_opts c q retry)"
  unfolding reviewer_opts_def by (auto intro!: still_intros)

lemma still_reviewer_try:
  "plain_role (rq_role q) \<Longrightarrow> keeps (still (s_name (rq_stage q))) (reviewer_try c q retry tries)"
  unfolding reviewer_try_def Let_def
  by (rule still.keeps_bindc_at [OF still_reviewer_opts], drule reviewer_opts_id)
    (auto intro!: still_intros still_spawn_agent [of "rq_role q"] session_key split: sum.split prod.split)

lemma still_reviewer_tries:
  "plain_role (rq_role q) \<Longrightarrow> keeps (still (s_name (rq_stage q))) (reviewer_tries c q ids tries)"
  by (induction ids arbitrary: tries) (auto intro!: still_intros still_reviewer_try split: sum.split)

lemma still_run_reviewer: "plain_role (rq_role q) \<Longrightarrow> keeps (still (s_name (rq_stage q))) (run_reviewer c q)"
  unfolding run_reviewer_def by (auto intro!: still_intros still_reviewer_tries)

lemma still_prompt [still_intros]: "keeps (still u) (prompt_text c p)"
  unfolding prompt_text_def by (intro still_intros)

lemma still_resume_text [still_intros]: "keeps (still u) (resume_text c v)"
  unfolding resume_text_def by (auto intro!: still_intros split: option.split)

lemma review_ask_simps [simp]:
  "s_name (rq_stage (review_ask_of v kind agent k output roster prompt resume)) = s_name (rs_stage v)"
  "rq_role (review_ask_of v kind agent k output roster prompt resume) = review_step_role kind agent k"
  by (simp_all add: review_ask_of_def)

lemma still_finding_reviewer [still_intros]:
  "keeps (still (s_name (rs_stage v))) (run_finding_reviewer c v kind k roster agent)"
  unfolding run_finding_reviewer_def
  using still_run_reviewer [of "review_ask_of v kind agent k OutFindings roster prompt resume" for prompt resume]
  by (intro still_intros) simp

lemma still_adjudicator [still_intros]: "keeps (still (s_name (rs_stage v))) (run_adjudicator c v roster agent)"
proof -
  have "keeps (still (s_name (rs_stage v))) (run_reviewer c (review_ask_of v Adjudicator agent 1 out roster prompt resume))"
    for out prompt resume
    using still_run_reviewer [of "review_ask_of v Adjudicator agent 1 out roster prompt resume"] by simp
  then show ?thesis unfolding run_adjudicator_def by (intro still_intros)
qed

lemma still_collectc [still_intros]: "(\<And>x. keeps (still u) (f x)) \<Longrightarrow> keeps (still u) (collectc f xs)"
  by (induction xs) (auto intro!: still_intros)

lemma still_lenses [still_intros]: "keeps (still (s_name (rs_stage v))) (run_review_agents_concurrently c v k roster agents)"
  unfolding run_review_agents_concurrently_def
  by (auto intro!: still_intros still.keeps_setc still_same split: option.split)

lemma still_okc [still_intros]: "keeps (still u) m \<Longrightarrow> keeps (still u) (okc m)"
  unfolding okc_def by (intro still_intros)

lemma still_guard [still_intros]: "keeps (still u) (guard_review_round_tree c wt dir unit sha)"
  unfolding guard_review_round_tree_def Let_def by (auto intro!: still_intros split: option.split)

lemma still_guard_err [still_intros]: "keeps (still u) (guard_review_round_tree_on_tier_err c wt dir unit sha e)"
  unfolding guard_review_round_tree_on_tier_err_def by (auto intro!: still_intros)

lemma still_review_steps [still_intros]: "keeps (still (s_name (rs_stage v))) (run_review_steps c v steps sha)"
  unfolding run_review_steps_def run_review_step_def Let_def
  by (auto intro!: still_intros split: review_step.split)

lemma still_split_reject [still_intros]: "keeps (still u) (split_reject c u attempt ordinal round reason)"
  unfolding split_reject_def operator_lesson_def Let_def
  by (auto intro!: still_intros unit_keys split: option.split prod.split)

lemma still_judge_review [still_intros]: "keeps (still (s_name (rs_stage v))) (judge_review c v d sha ruling)"
  unfolding judge_review_def approve_review_def Let_def by (auto intro!: still_intros unit_keys split: prod.split)

lemma still_round_delta [still_intros]: "keeps (still u) (round_delta c wt unit attempt)"
  unfolding round_delta_def by (auto intro!: still_intros split: option.split)

lemma still_round_start [still_intros]: "keeps (still u) (review_round_start_sha c u attempt dir)"
  unfolding review_round_start_sha_def Let_def by (auto intro!: still_intros unit_keys)

lemma still_review_unit [still_intros]:
  "keeps (still (s_name st)) (review_unit c st dir attempt ordinal flapped d blast_radius wt prior_required)"
proof -
  have steps: "keeps (still (s_name st)) (run_review_steps c v steps sha)"
    and judge: "keeps (still (s_name st)) (judge_review c v d sha ruling)" if "rs_stage v = st" for v steps sha ruling
    using still_review_steps [of v] still_judge_review [of v] that by simp_all
  show ?thesis
    unfolding review_unit_def log_review_tier_def Let_def
    by (auto intro!: still_intros steps judge unit_keys split: option.split)
qed

lemma still_sdet_run:
  assumes "so_id opts = spawn_retry_id (s_name st) ROLE_SDET_AUTHOR attempt retry"
  shows "keeps (still (s_name st)) (bindc (resultc (spawn_agent c opts prompt [(META_ACTOR, ROLE_SDET_AUTHOR)])) (\<lambda>r.
      case r of Inr (result, _) \<Rightarrow> record_session c opts result | Inl e \<Rightarrow> fail (f e)))"
  by (auto intro!: still_intros still_spawn_agent [of ROLE_SDET_AUTHOR] simp: assms split: sum.split)

lemma still_sdet_try [still_intros]:
  "keeps (still (s_name st)) (sdet_try c st dir attempt ordinal prompt task retry refused)"
proof -
  let ?sid = "spawn_retry_id (s_name st) ROLE_SDET_AUTHOR attempt retry"
  have ran: "keeps (still (s_name st)) (bindc (if b then continue_prior_session c opts0 ROLE_SDET_AUTHOR t else ret opts0) (\<lambda>opts.
      bindc (resultc (spawn_agent c opts p [(META_ACTOR, ROLE_SDET_AUTHOR)])) (\<lambda>r.
        case r of Inr (result, _) \<Rightarrow> record_session c opts result | Inl e \<Rightarrow> fail (f e))))"
    if "so_id opts0 = ?sid" for b opts0 t p f
  proof (rule still.keeps_bindc_at)
    fix s opts u assume "(if b then continue_prior_session c opts0 ROLE_SDET_AUTHOR t else ret opts0) s = (Inr opts, u)"
    then have "so_id opts = ?sid" using that by (auto simp: run_Inr split: if_splits dest: continue_id)
    then show "keeps (still (s_name st)) (bindc (resultc (spawn_agent c opts p [(META_ACTOR, ROLE_SDET_AUTHOR)])) (\<lambda>r.
        case r of Inr (result, _) \<Rightarrow> record_session c opts result | Inl e \<Rightarrow> fail (f e)))" by (rule still_sdet_run)
  qed (auto intro!: still_intros)
  have asked: "keeps (still (s_name st)) (bindc (resultc m) g)"
    if "keeps (still (s_name st)) m" "\<And>e. keeps (still (s_name st)) (g (Inl e))"
       "\<And>s opts t. m s = (Inr opts, t) \<Longrightarrow> keeps (still (s_name st)) (g (Inr opts))" for m :: "('w, spawn_opts) run" and g
  proof (rule still.keeps_bindc_at [OF still.keeps_resultc [OF that(1)]])
    fix s x t assume "resultc m s = (Inr x, t)"
    then have "m s = (x, t)" by (auto simp: resultc_def split: prod.splits)
    then show "keeps (still (s_name st)) (g x)" using that(2,3) by (cases x) auto
  qed
  show ?thesis
    unfolding sdet_try_def Let_def
    by (rule still.keeps_bindc [OF still_reserve])
      (auto intro!: asked ran [where b = True, simplified] ran [where b = False, simplified] still.keeps_ret
          still.keeps_fail still_reviewer_spawn_opts dest: reviewer_spawn_opts_id)
qed

lemma still_sdet [still_intros]: "keeps (still (s_name st)) (spawn_sdet_author c st wt dir attempt ordinal gate_evidence)"
  unfolding spawn_sdet_author_def Let_def by (auto intro!: still_intros)

section \<open>An attempt\<close>

lemma still_blast_radius [still_intros]: "keeps (still (s_name st)) (record_blast_radius c st attempt seed safe)"
  unfolding record_blast_radius_def by (auto intro!: still_intros unit_keys)

lemma still_checkpoint [still_intros]: "keeps (still u) (checkpoint_attempt c wt unit attempts)"
  unfolding checkpoint_attempt_def commit_checkpoint_def by (auto intro!: still_intros split: option.split)

lemma still_green [still_intros]: "keeps (still (s_name st)) (record_green c st attempts green models)"
  unfolding record_green_def by (intro still_intros unit_keys) simp

lemma still_implementer_answer:
  "so_id opts = spawn_retry_id (s_name st) ROLE_IMPLEMENTER attempts n \<Longrightarrow>
     keeps (still (s_name st)) (implementer_answer c st wt attempts opts answer)"
  unfolding implementer_answer_def by (auto intro!: still_intros session_key split: sum.split)

lemma implementer_opts_id:
  "implementer_opts c st wt dir attempts sid prior blast_radius env s = (Inr opts, t) \<Longrightarrow> so_id opts = sid"
  by (auto simp: implementer_opts_def dest!: continue_id)

lemma still_implementer_opts: "keeps (still u) (implementer_opts c st wt dir attempts sid prior blast_radius env)"
  unfolding implementer_opts_def by (intro still_intros)

lemma still_implement_prompt [still_intros]: "keeps (still u) (implement_prompt c st events prior attempts)"
  unfolding implement_prompt_def by (auto intro!: still_intros split: sum.split)

lemma still_implement [still_intros]:
  "keeps (still (s_name st)) (implement c st wt dir events attempts infra prior blast_radius skip)"
proof -
  let ?sid = "spawn_retry_id (s_name st) ROLE_IMPLEMENTER attempts (implementer_retry (ir_ordinal infra))"
  have spawned: "keeps (still (s_name st)) (bindc (implementer_opts c st wt dir attempts ?sid prior blast_radius env) (\<lambda>opts.
      bindc (resultc (seqc (liftc r) (spawn_agent c opts prompt [(META_ACTOR, s_agent st), (META_SPAWN, ?sid)])))
        (implementer_answer c st wt attempts opts)))" if "s_agent st \<noteq> []" for env prompt r
    by (rule still.keeps_bindc_at [OF still_implementer_opts], drule implementer_opts_id)
      (auto intro!: still_intros still_implementer_answer still_spawn_agent [of "s_agent st"] simp: that)
  show ?thesis
    unfolding implement_def spawn_implementer_def Let_def
    by (auto intro!: still_intros spawned)
qed

lemma still_author_tests [still_intros]: "keeps (still (s_name (as_stage a))) (author_tests c a prior)"
  unfolding author_tests_def Let_def by (auto intro!: still_intros)

lemma still_verified [still_intros]: "keeps (still (s_name (as_stage a))) (record_verified c a resolved)"
  unfolding record_verified_def Let_def by (auto intro!: still_intros unit_keys)

lemma still_queue [still_intros]: "keeps (still (s_name (as_stage a))) (queue_compensation c a review)"
  unfolding queue_compensation_def by (auto intro!: still_intros unit_keys still.keeps_setc still_same split: option.split)

end
