(* ===== verification/Unit_Trace.thy ===== *)
theory Unit_Trace
  imports Unit_Frame
begin

text \<open>
  The course of a stage. \<open>stage_life\<close> is its abstract course - charged failures up to the bound, then the
  landing, the escalation or neither - and \<open>run_attempts\<close> is shown to follow it: the lifecycle events
  it writes are exactly a course's.
\<close>

section \<open>The landing\<close>

text \<open>What the lifecycle asks of the landing: it writes no lifecycle event itself, and moves the unit's gate
  verdicts only forward where it answers or crashes.\<close>

definition landing_ok :: "'w landing \<Rightarrow> stage \<Rightarrow> bool" where
  "landing_ok L st \<longleftrightarrow>
     (\<forall>wt attempts. keeps calm (ld_integrate L st wt attempts) \<and>
                    yields (ctx_le (s_name st)) (infra_crash (ld_integrate L st wt attempts))) \<and>
     (\<forall>wt. keeps calm (ld_plan_commits L (s_name st) wt) \<and> yields (ctx_le (s_name st)) (ld_plan_commits L (s_name st) wt))"

lemma landing_calm:
  assumes "landing_ok L st"
  shows "keeps calm (integrate_under_infra_retry c L wt st attempts infra)"
  using assms
proof (induction c L wt st attempts infra rule: integrate_under_infra_retry.induct)
  case (1 c L wt st attempts infra)
  have "keeps calm (infra_crash (ld_integrate L st wt attempts))"
    using "1.prems" unfolding infra_crash_def
    by (auto intro!: calm.keeps_intros simp: landing_ok_def split: sum.split)
  moreover have "keeps calm (bindc (retry_infra_failure c (s_name st) attempts infra CAUSE_INFRA_SPAWN crash)
      (\<lambda>infra'. integrate_under_infra_retry c L wt st attempts infra'))"
    if "infra_crash (ld_integrate L st wt attempts) s = (Inr (Inl crash), t)" for crash s t
    by (rule calm.keeps_bindc_at [OF still_calm [OF still_retry_infra]]) (rule "1.IH" [OF that refl _ "1.prems"])
  ultimately show ?case
    by (subst integrate_under_infra_retry.simps)
      (rule calm.keeps_bindc_at, auto intro: calm.keeps_ret split: sum.split)
qed

lemmas attempt_calm [calm_intros] =
  landing_calm still_calm [OF still_lookc] still_calm [OF still_blast_radius] still_calm [OF still_implement]
  still_calm [OF still_author_tests] still_calm [OF still_checkpoint] still_calm [OF still_verified]
  still_calm [OF still_infra_crash [OF still_review_unit]] still_calm [OF still_queue]

section \<open>The course of a stage\<close>

text \<open>The facts of a charged failure, of a landing and of an escalation of a unit.\<close>

definition failed_fact :: "string \<Rightarrow> u32 \<Rightarrow> string \<Rightarrow> fact \<Rightarrow> bool" where
  "failed_fact unit attempts cause f \<longleftrightarrow>
     (\<exists>failure. fa_type f = TYPE_UNIT_FAILED \<and> fa_body f = failed_body failure unit attempts cause \<and> own_life f)"

definition integrated_fact :: "string \<Rightarrow> fact \<Rightarrow> bool" where
  "integrated_fact unit f \<longleftrightarrow> fa_type f = TYPE_UNIT_INTEGRATED \<and> value_get (fa_body f) ''id'' = Some (JStr unit) \<and> own_life f"

definition escalated_fact :: "string \<Rightarrow> fact \<Rightarrow> bool" where
  "escalated_fact unit f \<longleftrightarrow> fa_type f = TYPE_UNIT_ESCALATED \<and> fa_body f = JObj [(''id'', JStr unit)] \<and> own_life f"

text \<open>
  The course of a stage that has charged \<open>a\<close> attempts against the bound \<open>mx\<close>: the lifecycle facts it
  writes, in order, and its answer.
\<close>

inductive stage_life :: "u32 \<Rightarrow> string \<Rightarrow> u32 \<Rightarrow> fact list \<Rightarrow> string + bool \<Rightarrow> bool" for mx :: u32 and unit :: string where
  halted: "stage_life mx unit a [] (Inl e)"
| stopped: "stage_life mx unit a [] (Inr False)"
| landed: "integrated_fact unit f \<Longrightarrow> stage_life mx unit a [f] (Inr True)"
| charged: "failed_fact unit (rem_attempts (remediate a mx)) cause f \<Longrightarrow> \<not> is_infra_cause cause \<Longrightarrow>
    rem_decision (remediate a mx) = Retry \<Longrightarrow> stage_life mx unit (rem_attempts (remediate a mx)) fs r \<Longrightarrow>
    stage_life mx unit a (f # fs) r"
| escalated: "failed_fact unit (rem_attempts (remediate a mx)) cause f \<Longrightarrow> \<not> is_infra_cause cause \<Longrightarrow>
    rem_decision (remediate a mx) = Escalate \<Longrightarrow> escalated_fact unit g \<Longrightarrow> stage_life mx unit a [f, g] (Inr False)"
| halted_escalating: "failed_fact unit (rem_attempts (remediate a mx)) cause f \<Longrightarrow> \<not> is_infra_cause cause \<Longrightarrow>
    rem_decision (remediate a mx) = Escalate \<Longrightarrow> stage_life mx unit a [f] (Inl e)"

text \<open>The lifecycle facts written between two states.\<close>

definition life_between :: "'w rctx \<Rightarrow> 'w rctx \<Rightarrow> fact list \<Rightarrow> bool" where
  "life_between s t fs \<longleftrightarrow> (\<exists>new. rx_log t = rx_log s @ new \<and> filter own_life new = fs)"

lemma life_calm: "calm s t \<longleftrightarrow> life_between s t []"
  by (auto simp: calm_def life_between_def filter_empty_conv)

lemma life_trans: "life_between s t fs \<Longrightarrow> life_between t u gs \<Longrightarrow> life_between s u (fs @ gs)"
  unfolding life_between_def by auto

lemma life_calm_then: "calm s t \<Longrightarrow> life_between t u fs \<Longrightarrow> life_between s u fs"
  using life_trans [of s t "[]"] by (simp add: life_calm)

lemma life_then_calm: "life_between s t fs \<Longrightarrow> calm t u \<Longrightarrow> life_between s u fs"
  using life_trans [of s t fs u "[]"] by (simp add: life_calm)

lemma emit_life:
  assumes run: "emit_meta c ty body extra s = (r, t)" and own: "own_life (event_with_meta ty body extra)"
  shows "(case r of Inl e \<Rightarrow> calm s t | Inr _ \<Rightarrow> life_between s t [event_with_meta ty body extra])"
  using run own
  by (auto simp: emit_meta_def bindc_def append_and_fold_run ret_def calm_def life_between_def split: prod.splits sum.splits)

section \<open>What an attempt writes\<close>

text \<open>An attempt writes the landing when it lands and no lifecycle event otherwise.\<close>

definition lands_only :: "string \<Rightarrow> ('w, attempt_end) run \<Rightarrow> bool" where
  "lands_only unit m \<longleftrightarrow>
     (\<forall>s r t. m s = (r, t) \<longrightarrow>
        (if r = Inr (Finished True) then \<exists>f. integrated_fact unit f \<and> life_between s t [f] else calm s t))"

named_theorems lands_intros "the computations that write at most a landing"

lemma lands_bindc [lands_intros]:
  assumes "keeps calm m" "\<And>x. lands_only unit (f x)"
  shows "lands_only unit (bindc m f)"
  unfolding lands_only_def
proof (intro allI impI)
  fix s r t assume run: "bindc m f s = (r, t)"
  obtain q u where q: "m s = (q, u)" by fastforce
  have su: "calm s u" by (rule keepsD [OF assms(1) q])
  show "if r = Inr (Finished True) then \<exists>f. integrated_fact unit f \<and> life_between s t [f] else calm s t"
  proof (cases q)
    case (Inl e)
    then show ?thesis using run su by (auto simp: bindc_def q)
  next
    case (Inr x)
    then have rest: "f x u = (r, t)" using run by (simp add: bindc_def q)
    show ?thesis
    proof (cases "r = Inr (Finished True)")
      case True
      with assms(2) rest obtain g where g: "integrated_fact unit g" and ut: "life_between u t [g]"
        unfolding lands_only_def by metis
      from g life_calm_then [OF su ut] True show ?thesis by auto
    next
      case False
      with assms(2) rest have "calm u t" unfolding lands_only_def by metis
      with su False calm_trans show ?thesis by auto
    qed
  qed
qed

lemma lands_seqc [lands_intros]: "keeps calm m \<Longrightarrow> lands_only unit d \<Longrightarrow> lands_only unit (seqc m d)"
  unfolding seqc_def by (rule lands_bindc)

lemma lands_ret [lands_intros]: "x \<noteq> Finished True \<Longrightarrow> lands_only unit (ret x)"
  by (simp add: lands_only_def ret_def calm_refl)

lemma own_life_integrated: "own_life (event_with_meta TYPE_UNIT_INTEGRATED body [])"
  by (simp add: own_life_def event_with_meta_def)

lemma lands_integrated [lands_intros]:
  assumes "unit = s_name st"
  shows "lands_only unit (seqc (record_integrated c st rest) (ret (Finished True)))"
  unfolding lands_only_def
proof (intro allI impI)
  let ?body = "JObj ((''id'', JStr (s_name st)) # rest)"
  fix s r t assume "seqc (record_integrated c st rest) (ret (Finished True)) s = (r, t)"
  then obtain q where q: "emit_meta c TYPE_UNIT_INTEGRATED ?body [] s = (q, t)" and r: "r = map_sum id (\<lambda>_. Finished True) q"
    by (auto simp: seqc_def bindc_def record_integrated_def emit_def ret_def split: prod.splits sum.splits)
  show "if r = Inr (Finished True) then \<exists>f. integrated_fact unit f \<and> life_between s t [f] else calm s t"
  proof (cases q)
    case (Inl e)
    with emit_life [OF q own_life_integrated] r show ?thesis by simp
  next
    case (Inr u)
    have "integrated_fact unit (event_with_meta TYPE_UNIT_INTEGRATED ?body [])"
      using own_life_integrated assms by (simp add: integrated_fact_def) (simp add: event_with_meta_def)
    with emit_life [OF q own_life_integrated] r Inr show ?thesis by auto
  qed
qed

lemma lands_plan [lands_intros]: "landing_ok L (as_stage a) \<Longrightarrow> unit = s_name (as_stage a) \<Longrightarrow> lands_only unit (land_plan c L a next)"
  unfolding land_plan_def landing_ok_def by (auto intro!: lands_intros split: plan_commit_outcome.split)

lemma lands_unit [lands_intros]: "landing_ok L (as_stage a) \<Longrightarrow> unit = s_name (as_stage a) \<Longrightarrow> lands_only unit (land_unit c L a next)"
  unfolding land_unit_def Let_def by (auto intro!: lands_intros calm_intros split: option.split)

lemma lands_verify [lands_intros]:
  "landing_ok L (as_stage a) \<Longrightarrow> unit = s_name (as_stage a) \<Longrightarrow> lands_only unit (verify_unit c L a prior next resolved seed safe)"
  unfolding verify_unit_def judge_unit_def Let_def by (auto intro!: lands_intros calm_intros split: sum.split)

lemma stage_attempt_lands:
  "landing_ok L (as_stage a) \<Longrightarrow> unit = s_name (as_stage a) \<Longrightarrow> lands_only unit (stage_attempt c L a events prior skip)"
  unfolding stage_attempt_def Let_def
  by (auto intro!: lands_intros calm_intros split: impl_end.split sum.split prod.split)

section \<open>The attempts follow the course\<close>

lemma own_life_failed: "own_life (event_with_meta TYPE_UNIT_FAILED body [(META_WORKTREE_SHA, sha)])"
  by (simp add: own_life_def event_with_meta_def)

lemma record_failure_life:
  assumes run: "record_failure c unit wt dir failure attempts cause s = (r, t)"
  shows "case r of Inl e \<Rightarrow> calm s t | Inr _ \<Rightarrow> \<exists>f. failed_fact unit attempts cause f \<and> life_between s t [f]"
proof -
  obtain q u where q: "ensure_present c wt s = (q, u)" by fastforce
  have su: "calm s u" by (rule keepsD [OF still_calm [OF still_ensure_present] q])
  show ?thesis
  proof (cases q)
    case (Inl e)
    then show ?thesis using run su by (auto simp: record_failure_def seqc_def bindc_def q)
  next
    case (Inr x)
    let ?f = "event_with_meta TYPE_UNIT_FAILED (failed_body failure unit attempts cause)
                [(META_WORKTREE_SHA, head_sha_of c dir (rx_world u))]"
    from run Inr have e: "emit_meta c TYPE_UNIT_FAILED (failed_body failure unit attempts cause)
                [(META_WORKTREE_SHA, head_sha_of c dir (rx_world u))] u = (r, t)"
      by (simp add: record_failure_def seqc_def bindc_def q lookc_def getc_def)
    have f: "failed_fact unit attempts cause ?f"
      using own_life_failed unfolding failed_fact_def by (auto simp: event_with_meta_def)
    from emit_life [OF e own_life_failed] su f show ?thesis
      by (cases r) (auto intro: calm_trans life_calm_then)
  qed
qed

lemma record_escalation_life:
  assumes run: "record_escalation c unit wt attempts next s = (r, t)"
  shows "case r of Inl e \<Rightarrow> calm s t | Inr _ \<Rightarrow> \<exists>g. escalated_fact unit g \<and> life_between s t [g]"
proof -
  let ?lesson = "emit_lesson c wt unit (escalation_summary c unit attempts next)"
  obtain q u where q: "?lesson s = (q, u)" by fastforce
  have su: "calm s u" by (rule keepsD [OF still_calm [OF still_emit_lesson] q])
  from run have e: "emit_meta c TYPE_UNIT_ESCALATED (JObj [(''id'', JStr unit)]) [] u = (r, t)"
    by (simp add: record_escalation_def seqc_def bindc_def resultc_def q ret_def emit_def)
  have own: "own_life (event_with_meta TYPE_UNIT_ESCALATED (JObj [(''id'', JStr unit)]) [])"
    by (simp add: own_life_def event_with_meta_def)
  have "escalated_fact unit (event_with_meta TYPE_UNIT_ESCALATED (JObj [(''id'', JStr unit)]) [])"
    using own by (simp add: escalated_fact_def) (simp add: event_with_meta_def)
  with emit_life [OF e own] su show ?thesis by (cases r) (auto intro: calm_trans life_calm_then)
qed

text \<open>A computation over an answer's value: its lifecycle facts come after the first part's.\<close>

lemma bindc_cases:
  assumes "bindc m f s = (r, t)"
  obtains e where "m s = (Inl e, t)" "r = Inl e" | x u where "m s = (Inr x, u)" "f x u = (r, t)"
  using assms by (auto simp: bindc_def split: prod.splits sum.splits)

lemma seqc_cases:
  assumes "seqc m d s = (r, t)"
  obtains e where "m s = (Inl e, t)" "r = Inl e" | x u where "m s = (Inr x, u)" "d u = (r, t)"
  using assms unfolding seqc_def by (rule bindc_cases) auto

lemma escalation_follows:
  assumes run: "seqc (record_escalation c unit wt (rem_attempts (remediate a mx)) next) (ret False) s = (r, t)"
    and f: "failed_fact unit (rem_attempts (remediate a mx)) cause f" "\<not> is_infra_cause cause"
    and esc: "rem_decision (remediate a mx) = Escalate"
  shows "\<exists>fs. life_between s t fs \<and> stage_life mx unit a (f # fs) r"
  using run
proof (cases rule: seqc_cases)
  case (1 e)
  from record_escalation_life [OF 1(1)] have "life_between s t []" by (simp add: life_calm)
  with halted_escalating [OF f esc, of e] 1(2) show ?thesis by auto
next
  case (2 x u)
  from record_escalation_life [OF 2(1)] obtain g where "escalated_fact unit g" "life_between s u [g]" by auto
  with escalated [OF f esc] 2(2) show ?thesis by (auto simp: ret_def)
qed

text \<open>The failed attempt's two continuations, each from what the rest of the run follows.\<close>

lemma infra_follows:
  assumes run: "bindc (retry_infra_failure c unit attempts infra cause evidence)
      (\<lambda>infra'. seqc (setc (\<lambda>s. s\<lparr>rx_any_parked := False\<rparr>)) (rest infra')) s = (r, t)"
    and follows: "\<And>infra' u v. retry_infra_failure c unit attempts infra cause evidence s = (Inr infra', u) \<Longrightarrow>
      rest infra' v = (r, t) \<Longrightarrow> \<exists>fs. life_between v t fs \<and> stage_life mx unit attempts fs r"
  shows "\<exists>fs. life_between s t fs \<and> stage_life mx unit attempts fs r"
  using run
proof (cases rule: bindc_cases)
  case (1 e)
  have "calm s t" by (rule keepsD [OF still_calm [OF still_retry_infra] 1(1)])
  with 1(2) show ?thesis by (auto simp: life_calm intro: stage_life.halted)
next
  case (2 infra' v)
  have sv: "calm s v" by (rule keepsD [OF still_calm [OF still_retry_infra] 2(1)])
  from 2(2) have rest: "rest infra' (v\<lparr>rx_any_parked := False\<rparr>) = (r, t)" by (simp add: seqc_def bindc_def setc_def)
  have "calm v (v\<lparr>rx_any_parked := False\<rparr>)" by (rule calm_same_log) simp
  with sv have "calm s (v\<lparr>rx_any_parked := False\<rparr>)" by (rule calm_trans)
  with follows [OF 2(1) rest] show ?thesis by (blast intro: life_calm_then)
qed

lemma charged_follows:
  assumes run: "seqc (record_failure c unit wt dir nxt (rem_attempts (remediate attempts mx)) cause)
      (if rem_decision (remediate attempts mx) = Escalate
       then seqc (record_escalation c unit wt (rem_attempts (remediate attempts mx)) nxt) (ret False) else rest) s = (r, t)"
    and cause: "\<not> is_infra_cause cause"
    and follows: "\<And>v. rem_decision (remediate attempts mx) \<noteq> Escalate \<Longrightarrow> rest v = (r, t) \<Longrightarrow>
      \<exists>fs. life_between v t fs \<and> stage_life mx unit (rem_attempts (remediate attempts mx)) fs r"
  shows "\<exists>fs. life_between s t fs \<and> stage_life mx unit attempts fs r"
  using run
proof (cases rule: seqc_cases)
  case (1 e)
  from record_failure_life [OF 1(1)] 1(2) show ?thesis by (auto simp: life_calm intro: stage_life.halted)
next
  case (2 y v)
  from record_failure_life [OF 2(1)] obtain f
    where f: "failed_fact unit (rem_attempts (remediate attempts mx)) cause f" and sv: "life_between s v [f]" by auto
  show ?thesis
  proof (cases "rem_decision (remediate attempts mx) = Escalate")
    case True
    with 2(2) have "seqc (record_escalation c unit wt (rem_attempts (remediate attempts mx)) nxt) (ret False) v = (r, t)"
      by simp
    from escalation_follows [OF this f cause True] obtain fs
      where "life_between v t fs" "stage_life mx unit attempts (f # fs) r" by blast
    with life_trans [OF sv] show ?thesis by fastforce
  next
    case retry: False
    with 2(2) follows obtain fs
      where vt: "life_between v t fs" and life: "stage_life mx unit (rem_attempts (remediate attempts mx)) fs r" by auto
    have "rem_decision (remediate attempts mx) = Retry" using retry by (cases "rem_decision (remediate attempts mx)") simp_all
    from stage_life.charged [OF f cause this life]
    have "stage_life mx unit attempts (f # fs) r" .
    moreover from life_trans [OF sv vt] have "life_between s t (f # fs)" by simp
    ultimately show ?thesis by blast
  qed
qed

lemma attempts_follow_life:
  assumes "run_attempts c L st wt dir events attempts infra prior skip s = (r, t)" and "landing_ok L st"
  shows "\<exists>fs. life_between s t fs \<and> stage_life (unit_max_retries c st) (s_name st) attempts fs r"
  using assms
proof (induction c L st wt dir events attempts infra prior skip arbitrary: s rule: run_attempts.induct)
  case (1 c L st wt dir events attempts infra prior skip)
  let ?attempt = "stage_attempt c L \<lparr>as_stage = st, as_wt = wt, as_dir = dir, as_attempts = attempts, as_infra = infra\<rparr>
                    events prior skip"
  have lands: "lands_only (s_name st) ?attempt" by (rule stage_attempt_lands) (simp_all add: "1.prems"(2))
  note run = "1.prems"(1) [unfolded run_attempts.simps [of c L st wt dir events attempts infra prior skip]]
  from run show ?case
  proof (cases rule: bindc_cases)
    case (1 e)
    with lands have "calm s t" unfolding lands_only_def by force
    with 1 show ?thesis by (auto simp: life_calm intro: stage_life.halted)
  next
    case (2 x u)
    show ?thesis
    proof (cases x)
      case (Finished answer)
      with 2 have "r = Inr answer" "u = t" by (auto simp: ret_def)
      with lands 2(1) Finished show ?thesis
        unfolding lands_only_def by (cases answer) (force simp: life_calm intro: stage_life.landed stage_life.stopped)+
    next
      case (Failing cause nxt serr terr)
      with lands 2(1) have su: "calm s u" unfolding lands_only_def by force
      have "\<exists>fs. life_between u t fs \<and> stage_life (unit_max_retries c st) (s_name st) attempts fs r"
      proof (cases "is_infra_cause cause")
        case True
        show ?thesis
          by (rule infra_follows [OF 2(2) [unfolded Failing attempt_end.case if_P [OF True]]])
            (rule "1.IH"(1) [OF 2(1) Failing True _ _ "1.prems"(2)])
      next
        case False
        show ?thesis
          by (rule charged_follows [OF 2(2) [unfolded Failing attempt_end.case if_not_P [OF False] Let_def] False])
            (rule "1.IH"(2) [OF 2(1) Failing False refl _ _ "1.prems"(2)])
      qed
      with su show ?thesis by (blast intro: life_calm_then)
    qed
  qed
qed

end
