(* ===== verification/Gate_Runs.thy ===== *)
theory Gate_Runs
  imports Unit_Gates Demo
begin

text \<open>
  What a gate pass of the conductor guarantees (\<open>run_gates_at\<close>, \<open>run_deferred_gates\<close>): its outcome is
  read off the verdicts it leaves, a repeated pass replays, the content cache is fed by greens of runs
  only, and the phase boundary's gates are recorded once the run has converged.
\<close>

section \<open>The outcome of a pass\<close>

text \<open>The reds a state's verdicts show for a stage's inline gates, in the order of its gates.\<close>

definition reds :: "'w run_cfg \<Rightarrow> stage \<Rightarrow> u32 \<Rightarrow> u32 \<Rightarrow> gate_selection \<Rightarrow> 'w rctx \<Rightarrow> string list \<Rightarrow> (string \<times> string) list" where
  "reds c st attempt ordinal selection s gs =
     List.map_filter (\<lambda>gid. case recorded_verdict st attempt ordinal selection gid s of
          Some (False, evidence) \<Rightarrow> if is_inline c gid then Some (gid, evidence) else None
        | _ \<Rightarrow> None) gs"

lemma answers_read_reds:
  "foldl (gate_answer c st attempt ordinal selection s) out gs =
     (let rs = reds c st attempt ordinal selection s gs in
      \<lparr>go_pass = (go_pass out \<and> rs = []), go_evidence = go_evidence out @ map (\<lambda>(gid, ev). gid @ '': '' @ ev) rs,
       go_infra = (if rs = [] then go_infra out
                   else (go_pass out \<or> go_infra out) \<and> (\<forall>(gid, ev) \<in> set rs. evidence_class c ev = Infra))\<rparr>)"
proof (induction gs arbitrary: out)
  case Nil
  then show ?case by (simp add: reds_def map_filter_simps)
next
  case (Cons gid gs)
  then show ?case
    by (cases "recorded_verdict st attempt ordinal selection gid s")
      (auto simp: reds_def map_filter_simps gate_answer_def red_of_def gate_fail_def Let_def split: prod.splits bool.splits)
qed

lemma build_env_Inr: "gate_build_env c s = (Inr env, t) \<Longrightarrow> \<exists>w. t = s\<lparr>rx_world := w\<rparr>"
  by (auto simp: gate_build_env_def build_env_def run_base_env_def read_run_def resultc_def portc_def bindc_Inr ret_def
      split: prod.splits)

lemma verdicted_world [simp]: "verdicted u (s\<lparr>rx_world := w\<rparr>) = verdicted u s"
  by (simp add: verdicted_def)

lemma run_gates_fold:
  assumes run: "run_gates_at c st dir attempt ordinal selection s = (Inr out, t)" and ok: "verdicted (s_name st) s"
  shows "ctx_le (s_name st) s t \<and> (\<forall>gid \<in> set (s_gates st). gate_settled c st attempt ordinal selection t gid) \<and>
         out = foldl (gate_answer c st attempt ordinal selection t) gate_green (s_gates st)"
proof -
  from run obtain env u sha where env: "gate_build_env c s = (Inr env, u)"
    and fold: "foldc (run_inline_gate c st attempt ordinal selection (gate_env_of c st dir selection env) sha)
                 gate_green (s_gates st) u = (Inr out, t)"
    unfolding run_gates_at_def bindc_Inr lookc_def getc_def by auto
  from build_env_Inr [OF env] obtain w where u: "u = s\<lparr>rx_world := w\<rparr>" by blast
  have "ctx_le (s_name st) s u" unfolding u by (rule ctx_le_world) simp_all
  with gates_settle [OF fold] ok u ctx_le_trans show ?thesis by auto
qed

text \<open>
  C20. A gate pass answers what the verdicts it leaves say: its evidence is the reds of the stage's inline
  gates in order, it passes exactly when there is none, and it is infra exactly when there is one and
  every one of them is of the infra class.
\<close>

theorem gate_outcome_exact:
  assumes "run_gates_at c st dir attempt ordinal selection s = (Inr out, t)" and "verdicted (s_name st) s"
  shows "let rs = reds c st attempt ordinal selection t (s_gates st) in
           go_evidence out = map (\<lambda>(gid, ev). gid @ '': '' @ ev) rs \<and> (go_pass out \<longleftrightarrow> rs = []) \<and>
           (go_infra out \<longleftrightarrow> rs \<noteq> [] \<and> (\<forall>(gid, ev) \<in> set rs. evidence_class c ev = Infra))"
  using run_gates_fold [OF assms] by (simp add: answers_read_reds gate_green_def Let_def)

lemma exhaustive_green:
  assumes "run_gates_at c st dir attempt ordinal selection s = (Inr out, t)" and "verdicted (s_name st) s"
    and "selection = Exhaustive \<or> selection = PostMerge" and "go_pass out" and "gid \<in> set (inline_gates c st)"
  shows "\<exists>evidence. recorded_verdict st attempt ordinal selection gid t = Some (True, evidence)"
proof -
  note pass = run_gates_fold [OF assms(1,2)]
  have inline: "is_inline c gid" and gid: "gid \<in> set (s_gates st)"
    using assms(5) by (auto simp: inline_gates_def is_inline_def)
  have "narrowed_out c selection (gate_conf_of c gid) = None"
    using assms(3) by (auto simp: narrowed_out_def)
  then obtain p ev where rec: "recorded_verdict st attempt ordinal selection gid t = Some (p, ev)"
    using pass gid inline by (auto simp: gate_settled_def)
  have "reds c st attempt ordinal selection t (s_gates st) = []"
    using pass assms(4) by (simp add: answers_read_reds gate_green_def Let_def)
  then have "\<forall>x \<in> set (s_gates st). \<forall>ev. is_inline c x \<longrightarrow>
      recorded_verdict st attempt ordinal selection x t \<noteq> Some (False, ev)"
    by (fastforce simp: reds_def map_filter_def filter_empty_conv)
  with gid inline rec have p by (cases p) auto
  with rec show ?thesis by simp
qed

text \<open>
  A passing run of the full gate library, before a landing or over the merged tree, leaves a recorded
  green verdict for every inline gate of the stage at the unit's attempt and retry ordinal.
\<close>

theorem exhaustive_pass_is_green:
  assumes "run_gates_at c st dir attempt ordinal selection s = (Inr out, t)" and "verdicted (s_name st) s"
    and "selection = Exhaustive \<or> selection = PostMerge" and "go_pass out" and "gid \<in> set (inline_gates c st)"
  shows "\<exists>evidence. recorded_verdict st attempt ordinal selection gid t = Some (True, evidence)"
  using assms by (rule exhaustive_green)

text \<open>
  C21. A gate pass repeated from the state it left answers the same and changes nothing of that state beyond
  what reading the build environment does: no command runs, nothing is written, no ratchet moves.
\<close>

theorem gate_pass_replays:
  assumes "run_gates_at c st dir attempt ordinal selection s = (Inr out, t)" and "verdicted (s_name st) s"
    and "gate_build_env c t = (Inr env, t')"
  shows "run_gates_at c st dir' attempt ordinal selection t = (Inr out, t') \<and> t' = t\<lparr>rx_world := rx_world t'\<rparr>"
proof -
  note pass = run_gates_fold [OF assms(1,2)]
  from build_env_Inr [OF assms(3)] obtain w where t': "t' = t\<lparr>rx_world := w\<rparr>" by blast
  then have same: "recorded_verdict st attempt ordinal selection gid t' = recorded_verdict st attempt ordinal selection gid t"
    "rx_keys t' = rx_keys t" for gid by (simp_all add: recorded_verdict_def)
  have settled: "\<forall>gid \<in> set (s_gates st). gate_settled c st attempt ordinal selection t' gid"
    using pass unfolding gate_settled_def same by blast
  have "gate_answer c st attempt ordinal selection t' = gate_answer c st attempt ordinal selection t"
    by (intro ext) (simp add: gate_answer_def same)
  with pass settled_gates_replay [OF settled] assms(3) t' show ?thesis
    by (simp add: run_gates_at_def bindc_def lookc_def getc_def)
qed

section \<open>A run to evaluate them on\<close>

text \<open>The ports of a world that counts its events: the log takes every event, a command passes when its
  text is \<open>true\<close>, and everything else answers empty.\<close>

definition demo_ports :: "nat ports" where
  "demo_ports =
     \<lparr>pt_append = (\<lambda>_ w. (Inr w, Suc w)), pt_read_run = (\<lambda>w. (Inr [], w)), pt_new_id = (\<lambda>w. (Inr ''0123456789'', w)),
      pt_ensure_present = (\<lambda>_ w. (Inr (), w)), pt_commit_checkpoint = (\<lambda>_ _ w. (Inr ''c1'', w)),
      pt_merge_in_progress = (\<lambda>_ _. False), pt_head_sha = (\<lambda>_ _. ''c1''), pt_changed_files = (\<lambda>_ w. (Inr [], w)),
      pt_changed_since_base = (\<lambda>_ w. (Inr [], w)), pt_diff_names = (\<lambda>_ _ w. (Inr [], w)), pt_is_ancestor = (\<lambda>_ _ _. True),
      pt_restore_reviewed = (\<lambda>_ _ w. (Inr (), w)), pt_branch_has_work = (\<lambda>_ _. False),
      pt_spawn_is_halted = (\<lambda>_ _ _ w. (Inr False, w)), pt_build_env = (\<lambda>w. (Inr [], w)),
      pt_run_gate = (\<lambda>g _ w. (\<lambda>_. \<lparr>res_pass = (g_run g = ''true''), res_evidence = ''out''\<rparr>, w)), pt_seed = (\<lambda>_ _. []),
      pt_radius = (\<lambda>_ _. ([], [])), pt_index_stamp = (\<lambda>_. []), pt_prompt = (\<lambda>_ w. (Inr [], w)),
      pt_spawn = (\<lambda>_ _ w. ((Inr \<lparr>ar_output = ''done'', ar_resolved_model = [], ar_session_id = [], ar_resumed_from = []\<rparr>, []), w)),
      pt_say = (\<lambda>_ w. w)\<rparr>"

definition demo_land_ports :: "nat land_ports" where
  "demo_land_ports =
     \<lparr>lp_merge = (\<lambda>_ _ w. (Inr (MergeReady ''c2''), w)), lp_land = (\<lambda>_ w. (Inr LandDone, w)), lp_reset_branch = (\<lambda>_ _ w. (Inr (), w)),
      lp_reset_repo = (\<lambda>_ w. (Inr (), w)), lp_accept_incoming = (\<lambda>_ _ w. (Inr (), w)), lp_discard = (\<lambda>_ _ w. (Inr (), w)),
      lp_create_branch_at = (\<lambda>_ _ w. (Inr (), w)), lp_create = (\<lambda>dir _ w. (Inr dir, w)), lp_remove = (\<lambda>_ w. (Inr (), w)),
      lp_delete_branch = (\<lambda>_ w. (Inr (), w)), lp_diff_merge_base = (\<lambda>_ _ w. (Inr [''f''], w)), lp_branch_with_same = (\<lambda>_ _. None),
      lp_reindex = (\<lambda>_ w. w), lp_ingest = (\<lambda>_ w. ((Inr (), []), w)), lp_reclaim = (\<lambda>_ w. w),
      lp_commits_since_base = (\<lambda>_ w. (Inr [], w)), lp_files_of_commit = (\<lambda>_ _ w. (Inr [], w)),
      lp_find_landed = (\<lambda>_ _ _ w. (Inr None, w)), lp_cherry_pick = (\<lambda>_ shas w. (Inr (Picked shas), w))\<rparr>"

definition demo_defaults :: defaults where
  "demo_defaults =
     \<lparr>d_autonomy = [], d_grounder = [], d_review = panel_default, d_budget = 0, d_max_retries = 3, d_speculation_width = 0,
      d_max_parallel_units = 0, d_max_wall_clock = 0, d_partition = [], d_workdir = [], d_failure_rules = []\<rparr>"

definition demo_run :: "nat run_cfg" where
  "demo_run =
     \<lparr>rc_ports = demo_ports, rc_landing = demo_land_ports, rc_regenerate = [],
      rc_probes = \<lparr>pr_codec = demo_codec, pr_started = (\<lambda>_. Inl (JsonError [])), pr_integrated = (\<lambda>_. Inl (JsonError []))\<rparr>,
      rc_json_text = (\<lambda>_. []), rc_re_match = (=), rc_debug = id, rc_debug_list = concat, rc_prior_block = (\<lambda>_ _ _. []),
      rc_notes_block = (\<lambda>_. []), rc_json_error = (\<lambda>_. []), rc_repo = [],
      rc_scratch = ''/s'', rc_shared_cache = ([], []), rc_same_path = (=), rc_unit_worktree_dir = (@),
      rc_workflow = \<lparr>w_dash = [], w_defaults = demo_defaults, w_stages = []\<rparr>,
      rc_gates = [(''build'', \<lparr>gc_run = ''true'', gc_kind = [], gc_inputs = []\<rparr>),
                  (''e2e'', \<lparr>gc_run = ''false'', gc_kind = ''deferred'', gc_inputs = []\<rparr>),
                  (''lint'', \<lparr>gc_run = ''false'', gc_kind = [], gc_inputs = []\<rparr>)],
      rc_agents = [], rc_taxonomy = [], rc_prior_status = [], rc_prior_attempts = [], rc_prior_failure = [],
      rc_prior_resume_bound = [], rc_compensation_attempts = [], rc_compensation_feedback = [],
      rc_integrate_attempted = {}, rc_recorded_spawns = {}\<rparr>"

definition demo_ctx :: "nat rctx" where
  "demo_ctx =
     \<lparr>rx_world = 0, rx_log = [], rx_keys = {}, rx_verdicts = [], rx_greens = [], rx_tracker = [], rx_compensations = [],
      rx_spawns = 0, rx_budget_broke = False, rx_any_parked = False,
      rx_pending_landing = [], rx_landed = [], rx_regenerate_pending = []\<rparr>"

definition demo_gated :: "string list \<Rightarrow> stage" where
  "demo_gated gs = stage_default\<lparr>s_name := ''u1'', s_gates := gs\<rparr>"

lemma demo_verdicted: "verdicted u demo_ctx"
  by (simp add: verdicted_def demo_ctx_def bt_get_def)

lemma demo_gate_conf:
  "gate_conf_of demo_run ''build'' = \<lparr>gc_run = ''true'', gc_kind = [], gc_inputs = []\<rparr>"
  "gate_conf_of demo_run ''lint'' = \<lparr>gc_run = ''false'', gc_kind = [], gc_inputs = []\<rparr>"
  "gate_conf_of demo_run ''e2e'' = \<lparr>gc_run = ''false'', gc_kind = ''deferred'', gc_inputs = []\<rparr>"
  by (simp_all add: gate_conf_of_def demo_run_def bt_get_def)

lemma demo_build_env: "gate_build_env demo_run s = (Inr [], s)"
  by (simp add: gate_build_env_def build_env_def run_base_env_def read_run_def resultc_def bindc_def portc_def demo_run_def
      demo_ports_def ret_def with_var_def current_run_base_tip_def latest_def)

definition answered :: "(string + 'a) \<times> 'w rctx \<Rightarrow> ('a \<Rightarrow> 'w rctx \<Rightarrow> bool) \<Rightarrow> bool" where
  "answered r P \<longleftrightarrow> (case r of (Inl _, _) \<Rightarrow> False | (Inr x, t) \<Rightarrow> P x t)"

lemma answeredE: "answered r P \<Longrightarrow> (\<And>x t. r = (Inr x, t) \<Longrightarrow> P x t \<Longrightarrow> thesis) \<Longrightarrow> thesis"
  by (auto simp: answered_def split: prod.splits sum.splits)

lemma demo_pass:
  "answered (run_gates_at demo_run (demo_gated [''build'']) [] 0 0 Exhaustive demo_ctx) (\<lambda>out t. go_pass out)"
  by code_simp

lemma demo_red:
  "answered (run_gates_at demo_run (demo_gated [''build'', ''lint'']) [] 0 0 Exhaustive demo_ctx)
     (\<lambda>out t. go_evidence out = [''lint: out''])"
  by code_simp

lemma demo_gated_name [simp]: "s_name (demo_gated gs) = ''u1''" "s_gates (demo_gated gs) = gs"
  by (simp_all add: demo_gated_def)

theorem gate_outcome_exact_witness:
  "\<exists>out t. run_gates_at demo_run (demo_gated [''build'', ''lint'']) [] 0 0 Exhaustive demo_ctx = (Inr out, t) \<and>
     \<not> go_pass out \<and> reds demo_run (demo_gated [''build'', ''lint'']) 0 0 Exhaustive t [''build'', ''lint''] \<noteq> []"
proof -
  from demo_red obtain out t
    where run: "run_gates_at demo_run (demo_gated [''build'', ''lint'']) [] 0 0 Exhaustive demo_ctx = (Inr out, t)"
      and ev: "go_evidence out = [''lint: out'']" by (rule answeredE)
  from gate_outcome_exact [OF run demo_verdicted] ev run show ?thesis by (auto simp: Let_def)
qed

theorem exhaustive_pass_is_green_witness:
  "\<exists>out t. run_gates_at demo_run (demo_gated [''build'']) [] 0 0 Exhaustive demo_ctx = (Inr out, t) \<and>
     (\<exists>evidence. recorded_verdict (demo_gated [''build'']) 0 0 Exhaustive ''build'' t = Some (True, evidence))"
proof -
  from demo_pass obtain out t
    where run: "run_gates_at demo_run (demo_gated [''build'']) [] 0 0 Exhaustive demo_ctx = (Inr out, t)" and ok: "go_pass out"
    by (rule answeredE)
  have "''build'' \<in> set (inline_gates demo_run (demo_gated [''build'']))"
    by (simp add: inline_gates_def demo_gate_conf parse_gate_kind_def parse_keyword_def)
  from exhaustive_pass_is_green [OF run demo_verdicted _ ok this] run show ?thesis by blast
qed

theorem gate_pass_replays_witness:
  "\<exists>out t. run_gates_at demo_run (demo_gated [''build'']) [] 0 0 Exhaustive demo_ctx = (Inr out, t) \<and>
     run_gates_at demo_run (demo_gated [''build'']) [] 0 0 Exhaustive t = (Inr out, t)"
proof -
  from demo_pass obtain out t
    where run: "run_gates_at demo_run (demo_gated [''build'']) [] 0 0 Exhaustive demo_ctx = (Inr out, t)"
    by (rule answeredE)
  from gate_pass_replays [OF run demo_verdicted demo_build_env] run show ?thesis by blast
qed

section \<open>The content cache\<close>

text \<open>A recorded green of a run: a passing verdict for the digest that cites no other verdict.\<close>

definition green_fact :: "string \<Rightarrow> fact \<Rightarrow> bool" where
  "green_fact digest f \<longleftrightarrow>
     fa_type f = TYPE_GATE_VERDICT \<and> value_get (fa_body f) ''pass'' = Some (JBool True) \<and>
     (META_INPUT_DIGEST, digest) \<in> set (fa_meta f) \<and> META_CACHE_HIT \<notin> fst ` set (fa_meta f)"

definition greens_fed :: "'w rctx \<Rightarrow> 'w rctx \<Rightarrow> bool" where
  "greens_fed s t \<longleftrightarrow>
     (\<exists>new. rx_log t = rx_log s @ new \<and>
        (\<forall>digest v. bt_get (rx_greens t) digest = Some v \<longrightarrow>
           bt_get (rx_greens s) digest = Some v \<or>
           bt_get (rx_greens s) digest = None \<and> (\<exists>f \<in> set new. green_fact digest f))) \<and>
     (\<forall>digest v. bt_get (rx_greens s) digest = Some v \<longrightarrow> bt_get (rx_greens t) digest = Some v)"

lemma greens_fed_refl: "greens_fed s s"
  by (simp add: greens_fed_def)

lemma greens_fed_trans: "greens_fed s t \<Longrightarrow> greens_fed t u \<Longrightarrow> greens_fed s u"
proof -
  assume a: "greens_fed s t" and b: "greens_fed t u"
  from a obtain n where n: "rx_log t = rx_log s @ n" "\<And>d v. bt_get (rx_greens t) d = Some v \<Longrightarrow>
      bt_get (rx_greens s) d = Some v \<or> bt_get (rx_greens s) d = None \<and> (\<exists>f \<in> set n. green_fact d f)"
    "\<And>d v. bt_get (rx_greens s) d = Some v \<Longrightarrow> bt_get (rx_greens t) d = Some v"
    unfolding greens_fed_def by blast
  from b obtain m where m: "rx_log u = rx_log t @ m" "\<And>d v. bt_get (rx_greens u) d = Some v \<Longrightarrow>
      bt_get (rx_greens t) d = Some v \<or> bt_get (rx_greens t) d = None \<and> (\<exists>f \<in> set m. green_fact d f)"
    "\<And>d v. bt_get (rx_greens t) d = Some v \<Longrightarrow> bt_get (rx_greens u) d = Some v"
    unfolding greens_fed_def by blast
  have "bt_get (rx_greens s) d = Some v \<or> bt_get (rx_greens s) d = None \<and> (\<exists>f \<in> set (n @ m). green_fact d f)"
    if v: "bt_get (rx_greens u) d = Some v" for d v
  proof (cases "bt_get (rx_greens t) d")
    case None
    with n(3) have "bt_get (rx_greens s) d = None" by (cases "bt_get (rx_greens s) d") auto
    with m(2) [OF v] None show ?thesis by auto
  next
    case (Some w)
    with m(3) v have "w = v" by fastforce
    with n(2) [OF Some] show ?thesis by auto
  qed
  with n(1,3) m(1,3) show ?thesis unfolding greens_fed_def by auto
qed

interpretation fed: state_order greens_fed
  by unfold_locales (rule greens_fed_refl, erule (1) greens_fed_trans)

named_theorems fed_intros "the computations that feed the content cache with greens only"

lemmas [fed_intros] = fed.yields_intros

lemma quiet_fed: "quiet K T s t \<Longrightarrow> greens_fed s t"
  by (auto simp: quiet_def greens_fed_def)

lemma fed_quiet: "keeps (quiet K T) c \<Longrightarrow> yields greens_fed c"
  by (rule keeps_yields) (erule keeps_mono, erule quiet_fed)

lemma value_get_pass: "value_get (fa_body (gate_verdict_fact key gid p fl ev d h)) ''pass'' = Some (JBool p)"
  by (simp add: gate_verdict_fact_def)

lemma fed_verdict:
  assumes "emit_gate_verdict c key unit gid pass flaky evidence digest hit s = (Inr x, t)"
    and "hit = None \<or> bt_get (rx_greens s) digest \<noteq> None"
  shows "greens_fed s t"
  using assms(1)
proof (cases rule: emit_gate_verdict_cases)
  case 1
  then show ?thesis by (simp add: greens_fed_refl)
next
  case (2 pos w)
  let ?f = "gate_verdict_fact key gid pass flaky evidence digest hit"
  have f: "green_fact digest ?f" if "pass" "digest \<noteq> []" "hit = None"
    using that by (simp add: green_fact_def value_get_pass) (simp add: gate_verdict_fact_def)
  show ?thesis
  proof (cases "pass \<and> digest \<noteq> [] \<and> bt_get (rx_greens s) digest = None")
    case True
    then have "green_fact digest ?f" using assms(2) by (intro f) auto
    with True show ?thesis unfolding 2(3) greens_fed_def by (auto simp: bt_get_insert)
  next
    case False
    then show ?thesis unfolding 2(3) greens_fed_def by auto
  qed
qed

lemma fed_verdict_fresh [fed_intros]: "yields greens_fed (emit_gate_verdict c key unit gid pass flaky evidence digest None)"
  by (rule yieldsI) (erule fed_verdict, simp)

lemma fed_fresh [fed_intros]: "yields greens_fed (run_fresh_gate c st key ge digest out gid)"
  unfolding run_fresh_gate_def Let_def
  by (auto intro!: fed_intros fed_quiet [OF quiet_run_command [of "{}" "{}"]] fed_quiet [OF quiet_ratchet [OF subset_UNIV, of "{}"]]
      split: prod.split)

lemma fed_inline: "yields greens_fed (run_inline_gate c st attempt ordinal selection ge commit_sha out gid)"
proof (rule yieldsI)
  fix s x t assume run: "run_inline_gate c st attempt ordinal selection ge commit_sha out gid s = (Inr x, t)"
  let ?key = "gate_run_key selection (s_name st) attempt ordinal gid"
  let ?digest = "input_digest (gc_run (gate_conf_of c gid)) commit_sha"
  consider (same) "t = s"
    | (skip) radius where "emit_gate_skip c (s_name st) gid attempt (gc_inputs (gate_conf_of c gid)) radius s = (Inr (), t)"
    | (hit) pos cached where "bt_get (rx_greens s) ?digest = Some (pos, cached)"
        "emit_gate_verdict c ?key (s_name st) gid True False (cache_hit_evidence c gid pos cached ?digest) ?digest (Some pos) s
           = (Inr (), t)"
    | (fresh) "run_fresh_gate c st ?key ge ?digest out gid s = (Inr x, t)"
    using run unfolding run_inline_gate_def Let_def bindc_Inr
    by (auto simp: getc_def seqc_def bindc_Inr ret_def split: option.splits if_splits)
  then show "greens_fed s t"
  proof cases
    case same
    then show ?thesis by (simp add: greens_fed_refl)
  next
    case skip
    then show ?thesis by (rule yieldsD [OF fed_quiet [OF quiet_skip [OF UNIV_I UNIV_I]]])
  next
    case hit
    from hit(2) show ?thesis by (rule fed_verdict) (simp add: hit(1))
  next
    case fresh
    then show ?thesis by (rule yieldsD [OF fed_fresh])
  qed
qed

text \<open>
  C22. The content cache that answers a gate without running it is fed only by a gate pass's own green
  runs: an entry a pass added stands on a passing verdict the pass wrote for that very digest, which is
  no cache answer itself, and an entry that was there keeps its source.
\<close>

theorem content_cache_fed_by_greens:
  assumes "run_gates_at c st dir attempt ordinal selection s = (Inr out, t)"
  shows "greens_fed s t"
proof -
  have "yields greens_fed (run_gates_at c st dir attempt ordinal selection)"
    unfolding run_gates_at_def lookc_def by (intro fed_intros fed_inline fed_quiet [OF quiet_build_env [of "{}" "{}"]])
  then show ?thesis using assms by (rule yieldsD)
qed

theorem content_cache_fed_by_greens_witness:
  "\<exists>out t. run_gates_at demo_run (demo_gated [''build'']) [] 0 0 Exhaustive demo_ctx = (Inr out, t) \<and>
     greens_fed demo_ctx t"
  using demo_pass content_cache_fed_by_greens [of demo_run "demo_gated [''build'']" "[]" 0 0 Exhaustive demo_ctx]
  by (blast elim: answeredE)

section \<open>The phase boundary\<close>

lemma deferred_gates_set:
  "set (deferred_gates c stages) = {gid. \<not> is_inline c gid \<and> (\<exists>st \<in> set (bt_values stages). gid \<in> set (s_gates st))}"
proof -
  have "set (foldl (\<lambda>seen gid. if gid \<in> set seen \<or> runs_inline (parse_gate_kind (gc_kind (gate_conf_of c gid)))
            then seen else gid # seen) acc gs) = set acc \<union> {gid \<in> set gs. \<not> is_inline c gid}" for acc gs
    by (induction gs arbitrary: acc) (auto simp: is_inline_def)
  then show ?thesis by (auto simp: deferred_gates_def)
qed

lemma deferred_keys [simp]:
  "deferred_gate_verdict_key gid \<in> gate_run_keys ''deferred''" "deferred_gate_failed_key gid \<notin> gate_run_keys ''deferred''"
  by (simp_all add: deferred_gate_verdict_key_def deferred_gate_failed_key_def gate_run_keys_def starts_with_def)

text \<open>Before the run has converged the phase boundary runs no gate: it records no verdict, and all it writes
  is the \<open>DeferredGateFailed\<close> of a red already recorded.\<close>

theorem deferred_gates_wait:
  assumes "run_deferred_gates c stages False s = (r, t)"
  shows "quiet UNIV {TYPE_DEFERRED_GATE_FAILED} s t"
proof -
  have "keeps (quiet UNIV {TYPE_DEFERRED_GATE_FAILED}) (run_deferred_gate c False gid)" for gid
  proof (rule keepsI)
    fix s r t assume run: "run_deferred_gate c False gid s = (r, t)"
    show "quiet UNIV {TYPE_DEFERRED_GATE_FAILED} s t"
    proof (cases "bt_get (rx_verdicts s) (deferred_gate_verdict_key gid)")
      case None
      with run show ?thesis by (simp add: run_deferred_gate_def bindc_def getc_def ret_def quiet_refl)
    next
      case (Some v)
      have "keeps (quiet UNIV {TYPE_DEFERRED_GATE_FAILED}) (whenc (\<not> p) (emit_keyed c (deferred_gate_failed_key gid)
              TYPE_DEFERRED_GATE_FAILED body))" for p body
        by (intro quiet_intros) simp_all
      with run Some show ?thesis
        by (auto simp: run_deferred_gate_def bindc_def getc_def ret_def split: prod.splits dest: keepsD)
    qed
  qed
  then have "keeps (quiet UNIV {TYPE_DEFERRED_GATE_FAILED}) (run_deferred_gates c stages False)"
    unfolding run_deferred_gates_def by (rule quiet.keeps_foreachc)
  then show ?thesis using assms by (rule keepsD)
qed

lemma fresh_deferred_yields: "yields (ctx_le ''deferred'') (run_fresh_deferred c gid)"
  unfolding run_fresh_deferred_def run_deferred_answer_def Let_def
  by (auto intro!: ctx_intros keeps_yields [OF ctx_build_env] keeps_yields [OF ctx_run_command]
      keeps_yields [OF feed_ratchet_keeps] keeps_yields [OF ctx_emit_lesson])

lemma fresh_deferred_records:
  assumes run: "run_fresh_deferred c gid s = (Inr v, t)" and ok: "verdicted ''deferred'' s"
    and key: "deferred_gate_verdict_key gid \<notin> rx_keys s"
  shows "bt_get (rx_verdicts t) (deferred_gate_verdict_key gid) = Some v"
proof -
  let ?key = "deferred_gate_verdict_key gid"
  from run obtain env s1 where env: "gate_build_env c s = (Inr env, s1)"
    and rest: "bindc (run_command c (fresh_gate gid (gate_conf_of c gid)) (deferred_env c env)) (\<lambda>runs. run_deferred_answer c gid (runs 0)) s1 = (Inr v, t)"
    unfolding run_fresh_deferred_def Let_def bindc_Inr by blast
  from rest obtain w and runs :: "nat \<Rightarrow> gate_result" where cmd: "run_deferred_answer c gid (runs 0) (s1\<lparr>rx_world := w\<rparr>) = (Inr v, t)"
    by (auto simp: bindc_Inr run_command_Inr)
  define res where "res = runs (0 :: nat)"
  from cmd obtain t1 t2 where
      verdict: "emit_gate_verdict c ?key [] gid (res_pass res) False (res_evidence res) [] None (s1\<lparr>rx_world := w\<rparr>) = (Inr (), t1)"
      and ratchet: "feed_ratchet c gid (g_kind (fresh_gate gid (gate_conf_of c gid))) (deferred_ratchet c res) [] t1 = (Inr (), t2)"
      and lesson: "whenc (\<not> res_pass res) (bindc (resultc (emit_lesson c None gid (deferred_lesson c gid (res_evidence res))))
                     (\<lambda>_. ret ())) t2 = (Inr (), t)"
      and v: "v = (res_pass res, res_evidence res)"
    unfolding run_deferred_answer_def res_def [symmetric] seqc_Inr ret_Inr by force
  from build_env_Inr [OF env] key have key: "?key \<notin> rx_keys (s1\<lparr>rx_world := w\<rparr>)" by auto
  have "bt_get (rx_verdicts t1) ?key = Some v"
    unfolding v by (rule gate_verdict_recorded [OF verdict key])
  moreover have "quiet UNIV UNIV t1 t2" using quiet_ratchet [OF subset_UNIV] ratchet by (rule keepsD)
  moreover have "keeps (quiet UNIV UNIV) (whenc (\<not> res_pass res)
      (bindc (resultc (emit_lesson c None gid (deferred_lesson c gid (res_evidence res)))) (\<lambda>_. ret ())))"
    by (intro quiet_intros) simp_all
  then have "quiet UNIV UNIV t2 t" using lesson by (rule keepsD)
  ultimately show ?thesis by (simp add: quiet_def)
qed

definition deferred_claimed :: "string \<Rightarrow> 'w rctx \<Rightarrow> bool" where
  "deferred_claimed gid s \<longleftrightarrow>
     (\<exists>pass evidence. bt_get (rx_verdicts s) (deferred_gate_verdict_key gid) = Some (pass, evidence) \<and>
        (pass \<or> deferred_gate_failed_key gid \<in> rx_keys s))"

lemma deferred_claimed_mono:
  "deferred_claimed gid s \<Longrightarrow> verdicted ''deferred'' s \<Longrightarrow> ctx_le ''deferred'' s t \<Longrightarrow> deferred_claimed gid t"
  unfolding deferred_claimed_def ctx_le_def by blast

lemma emit_keyed_claims: "emit_keyed c k ty body s = (Inr u, t) \<Longrightarrow> k \<in> rx_keys t"
  by (auto simp: emit_keyed_def emit_keyed_meta_def keyed_event_def bindc_def seqc_def getc_def setc_def ret_def
      append_and_fold_run split: if_splits prod.splits sum.splits)

lemma deferred_gate_yields: "yields (ctx_le ''deferred'') (run_deferred_gate c converged gid)"
  unfolding run_deferred_gate_def
  by (auto intro!: ctx_intros fresh_deferred_yields keeps_yields [OF ctx_emit_keyed] split: option.split prod.split)

lemma deferred_gate_claims:
  assumes run: "run_deferred_gate c True gid s = (Inr u, t)" and ok: "verdicted ''deferred'' s"
  shows "deferred_claimed gid t"
proof -
  let ?key = "deferred_gate_verdict_key gid"
  from run obtain v t1
    where v: "(case bt_get (rx_verdicts s) ?key of Some v \<Rightarrow> ret v | None \<Rightarrow> run_fresh_deferred c gid) s = (Inr v, t1)"
      and failed: "whenc (\<not> fst v) (emit_keyed c (deferred_gate_failed_key gid) TYPE_DEFERRED_GATE_FAILED
                      (JObj [(''gate'', JStr gid), (''evidence'', JStr (snd v))])) t1 = (Inr u, t)"
    unfolding run_deferred_gate_def by (force simp: bindc_Inr getc_Inr)
  have le: "ctx_le ''deferred'' s t1 \<and> bt_get (rx_verdicts t1) ?key = Some v"
  proof (cases "bt_get (rx_verdicts s) ?key")
    case None
    then have "?key \<notin> rx_keys s" using ok deferred_keys(1) unfolding verdicted_def by blast
    with v None fresh_deferred_records [OF _ ok] yieldsD [OF fresh_deferred_yields] show ?thesis by simp
  next
    case (Some x)
    with v show ?thesis by (simp add: ret_def ctx_le_refl)
  qed
  have "keeps (quiet UNIV UNIV) (whenc (\<not> fst v) (emit_keyed c (deferred_gate_failed_key gid) TYPE_DEFERRED_GATE_FAILED
          (JObj [(''gate'', JStr gid), (''evidence'', JStr (snd v))])))"
    by (intro quiet_intros) simp_all
  then have "quiet UNIV UNIV t1 t" using failed by (rule keepsD)
  moreover have "fst v \<or> deferred_gate_failed_key gid \<in> rx_keys t"
    using failed emit_keyed_claims by (auto simp: whenc_def split: if_splits)
  ultimately show ?thesis using le unfolding deferred_claimed_def quiet_def by (cases v) auto
qed

text \<open>The fact a red deferred gate leaves, and the computations that claim its key only by writing it.\<close>

definition deferred_fact :: "string \<Rightarrow> fact \<Rightarrow> bool" where
  "deferred_fact gid f \<longleftrightarrow> fa_type f = TYPE_DEFERRED_GATE_FAILED \<and> value_get (fa_body f) ''gate'' = Some (JStr gid) \<and>
     (META_REPLAY_KEY, deferred_gate_failed_key gid) \<in> set (fa_meta f)"

definition deferred_told :: "'w rctx \<Rightarrow> 'w rctx \<Rightarrow> bool" where
  "deferred_told s t \<longleftrightarrow>
     (\<exists>new. rx_log t = rx_log s @ new \<and>
        (\<forall>gid. deferred_gate_failed_key gid \<in> rx_keys t \<longrightarrow>
           deferred_gate_failed_key gid \<in> rx_keys s \<or> (\<exists>f \<in> set new. deferred_fact gid f)))"

lemma deferred_told_refl: "deferred_told s s"
  by (simp add: deferred_told_def)

lemma deferred_told_trans: "deferred_told s t \<Longrightarrow> deferred_told t u \<Longrightarrow> deferred_told s u"
  unfolding deferred_told_def by (elim exE conjE) (rule exI, rule conjI, simp, auto)

interpretation told: state_order deferred_told
  by unfold_locales (rule deferred_told_refl, erule (1) deferred_told_trans)

lemma quiet_told: "quiet {} UNIV s t \<Longrightarrow> deferred_told s t"
  by (auto simp: quiet_def deferred_told_def)

lemma told_quiet: "keeps (quiet {} UNIV) c \<Longrightarrow> yields deferred_told c"
  by (rule keeps_yields) (erule keeps_mono, erule quiet_told)

lemma deferred_keys_differ [simp]: "deferred_gate_failed_key gid \<noteq> deferred_gate_verdict_key g"
  by (simp add: deferred_gate_failed_key_def deferred_gate_verdict_key_def)

lemma deferred_failed_key_inj [simp]: "deferred_gate_failed_key gid = deferred_gate_failed_key g \<longleftrightarrow> gid = g"
  by (simp add: deferred_gate_failed_key_def)

lemma told_verdict: "yields deferred_told (emit_gate_verdict c (deferred_gate_verdict_key g) u gid pass flaky ev digest hit)"
proof (rule yieldsI)
  fix s x t assume "emit_gate_verdict c (deferred_gate_verdict_key g) u gid pass flaky ev digest hit s = (Inr x, t)"
  then show "deferred_told s t"
  proof (cases rule: emit_gate_verdict_cases)
    case (2 pos w)
    show ?thesis unfolding 2(3) deferred_told_def by (intro exI [of _ "[gate_verdict_fact (deferred_gate_verdict_key g) gid pass flaky ev digest hit]"]) auto
  qed (simp add: deferred_told_refl)
qed

lemma told_fresh: "yields deferred_told (run_fresh_deferred c gid)"
proof -
  have lesson: "keeps (quiet {} UNIV) (whenc b (bindc (resultc (emit_lesson c None gid l)) (\<lambda>_. ret ())))" for b l
    by (intro quiet_intros) simp_all
  show ?thesis unfolding run_fresh_deferred_def run_deferred_answer_def
    by (intro told.yields_bindc told.yields_seqc told.yields_ret told_verdict told_quiet [OF lesson] told_quiet [OF quiet_build_env]
        told_quiet [OF quiet_run_command] told_quiet [OF quiet_ratchet [OF subset_UNIV]])
qed

lemma told_failed:
  "yields deferred_told (emit_keyed c (deferred_gate_failed_key gid) TYPE_DEFERRED_GATE_FAILED
     (JObj [(''gate'', JStr gid), (''evidence'', JStr ev)]))"
proof (rule yieldsI)
  fix s x t assume run: "emit_keyed c (deferred_gate_failed_key gid) TYPE_DEFERRED_GATE_FAILED
     (JObj [(''gate'', JStr gid), (''evidence'', JStr ev)]) s = (Inr x, t)"
  let ?f = "event_with_meta TYPE_DEFERRED_GATE_FAILED (JObj [(''gate'', JStr gid), (''evidence'', JStr ev)]) []
    \<lparr>fa_meta := fa_meta (event_with_meta TYPE_DEFERRED_GATE_FAILED (JObj [(''gate'', JStr gid), (''evidence'', JStr ev)]) [])
      @ [(META_REPLAY_KEY, deferred_gate_failed_key gid)]\<rparr>"
  have fact: "deferred_fact gid ?f" by (simp add: deferred_fact_def event_with_meta_def)
  from run consider "t = s" | "rx_keys t = insert (deferred_gate_failed_key gid) (rx_keys s)" "rx_log t = rx_log s @ [?f]"
    by (auto simp: emit_keyed_def emit_keyed_meta_def keyed_event_def bindc_def seqc_def getc_def setc_def ret_def
        append_and_fold_run split: if_splits prod.splits sum.splits)
  then show "deferred_told s t"
  proof cases
    case 2
    with fact show ?thesis unfolding deferred_told_def by (intro exI [of _ "[?f]"]) auto
  qed (simp add: deferred_told_refl)
qed

lemma deferred_gates_told: "yields deferred_told (run_deferred_gates c stages converged)"
proof -
  have "yields deferred_told (run_deferred_gate c converged gid)" for gid
    unfolding run_deferred_gate_def whenc_def
    by (auto intro!: told.yields_intros told_fresh told_failed split: option.split prod.split)
  then show ?thesis unfolding run_deferred_gates_def by (rule told.yields_foreachc)
qed

lemma deferred_gates_claim:
  assumes "run_deferred_gates c stages True s = (Inr u, t)" and "verdicted ''deferred'' s"
    and "st \<in> set (bt_values stages)" "gid \<in> set (s_gates st)" "\<not> is_inline c gid"
  shows "deferred_claimed gid t"
proof -
  have "verdicted ''deferred'' s \<Longrightarrow> foreachc (run_deferred_gate c True) gs s = (Inr u, t) \<Longrightarrow>
          \<forall>g \<in> set gs. deferred_claimed g t" for gs s u
  proof (induction gs arbitrary: s u)
    case (Cons g gs)
    then obtain u1 t1 where one: "run_deferred_gate c True g s = (Inr u1, t1)"
      and rest: "foreachc (run_deferred_gate c True) gs t1 = (Inr u, t)"
      by (auto simp: seqc_def bindc_Inr)
    have ok: "verdicted ''deferred'' t1"
      using yieldsD [OF deferred_gate_yields one] Cons.prems(1) by (simp add: ctx_le_def)
    have "yields (ctx_le ''deferred'') (foreachc (run_deferred_gate c True) gs)"
      by (rule ctx.yields_foreachc) (rule deferred_gate_yields)
    then have le: "ctx_le ''deferred'' t1 t" using rest by (rule yieldsD)
    from deferred_claimed_mono [OF deferred_gate_claims [OF one Cons.prems(1)] ok le] Cons.IH [OF ok rest]
    show ?case by simp
  qed simp
  moreover have "gid \<in> set (deferred_gates c stages)"
    using assms(3-5) by (auto simp: deferred_gates_set)
  ultimately show ?thesis using assms(1,2) by (auto simp: run_deferred_gates_def)
qed

text \<open>A deferred gate settled across a phase boundary: it has a recorded verdict, and if that is red its
  failure is in the log, written now or claimed before.\<close>

definition deferred_settled :: "string \<Rightarrow> 'w rctx \<Rightarrow> 'w rctx \<Rightarrow> bool" where
  "deferred_settled gid s t \<longleftrightarrow>
     (\<exists>pass evidence. bt_get (rx_verdicts t) (deferred_gate_verdict_key gid) = Some (pass, evidence) \<and>
        (pass \<or> deferred_gate_failed_key gid \<in> rx_keys s \<or>
           list_ex (deferred_fact gid) (drop (length (rx_log s)) (rx_log t))))"

text \<open>
  C23. At the phase boundary of a converged run every deferred gate a stage declares is settled: it has a
  recorded verdict, and when that verdict is red, either the gate's \<open>DeferredGateFailed\<close> was claimed
  before, or the events this boundary wrote hold a \<open>DeferredGateFailed\<close> that names the gate under its
  replay key. So a failed whole-tree check is never reported as a finished run.
\<close>

theorem deferred_gates_settle:
  assumes "run_deferred_gates c stages True s = (Inr u, t)" and "verdicted ''deferred'' s"
    and "st \<in> set (bt_values stages)" "gid \<in> set (s_gates st)" "\<not> is_inline c gid"
  shows "deferred_settled gid s t"
proof -
  from yieldsD [OF deferred_gates_told assms(1)] obtain new where "rx_log t = rx_log s @ new"
      "deferred_gate_failed_key gid \<in> rx_keys t \<longrightarrow> deferred_gate_failed_key gid \<in> rx_keys s \<or> (\<exists>f \<in> set new. deferred_fact gid f)"
    unfolding deferred_told_def by blast
  then show ?thesis using deferred_gates_claim [OF assms]
    by (auto simp: deferred_claimed_def deferred_settled_def list_ex_iff)
qed

lemma demo_deferred:
  "answered (run_deferred_gates demo_run [(''u1'', demo_gated [''build'', ''e2e''])] True demo_ctx)
     (\<lambda>_ t. map_option fst (bt_get (rx_verdicts t) (deferred_gate_verdict_key ''e2e'')) = Some False)"
  by code_simp

theorem deferred_gates_settle_witness:
  "\<exists>t evidence. run_deferred_gates demo_run [(''u1'', demo_gated [''build'', ''e2e''])] True demo_ctx = (Inr (), t) \<and>
     bt_get (rx_verdicts t) (deferred_gate_verdict_key ''e2e'') = Some (False, evidence) \<and>
     list_ex (deferred_fact ''e2e'') (rx_log t)"
proof -
  let ?stages = "[(''u1'', demo_gated [''build'', ''e2e''])]"
  from demo_deferred obtain u t where ans: "run_deferred_gates demo_run ?stages True demo_ctx = (Inr u, t)"
    and red: "map_option fst (bt_get (rx_verdicts t) (deferred_gate_verdict_key ''e2e'')) = Some False"
    by (rule answeredE)
  from ans have run: "run_deferred_gates demo_run ?stages True demo_ctx = (Inr (), t)" by simp
  have "\<not> is_inline demo_run ''e2e''"
    by (simp add: is_inline_def demo_gate_conf parse_gate_kind_def parse_keyword_def)
  from deferred_gates_settle [OF run demo_verdicted _ _ this] have "deferred_settled ''e2e'' demo_ctx t" by (simp add: bt_values_def)
  moreover have "deferred_gate_failed_key ''e2e'' \<notin> rx_keys demo_ctx" "rx_log demo_ctx = []" by (simp_all add: demo_ctx_def)
  ultimately show ?thesis using run red by (auto simp: deferred_settled_def)
qed

theorem deferred_gates_wait_witness:
  "\<exists>r t. run_deferred_gates demo_run [(''u1'', demo_gated [''e2e''])] False demo_ctx = (r, t) \<and>
     quiet UNIV {TYPE_DEFERRED_GATE_FAILED} demo_ctx t"
proof -
  obtain r t where run: "run_deferred_gates demo_run [(''u1'', demo_gated [''e2e''])] False demo_ctx = (r, t)" by fastforce
  from deferred_gates_wait [OF run] run show ?thesis by blast
qed

end
