(* ===== verification/Unit_Landing.thy ===== *)
theory Unit_Landing
  imports Unit_Trace Gate_Runs
begin

text \<open>
  What a landing stands on: the full gate library green at the attempt that landed, and the review of
  that attempt adjudicated. Both are recorded before \<open>UnitIntegrated\<close> is, and every step after them moves
  the state only forward (\<open>ctx_le\<close>).
\<close>

section \<open>Moving forward\<close>

named_theorems onward_intros "the computations whose success moves a unit's state only forward"

lemmas [onward_intros] = ctx.yields_intros

lemma gates_yield [onward_intros]: "yields (ctx_le (s_name st)) (run_gates_at c st dir attempt ordinal selection)"
  unfolding run_gates_at_def
  by (intro ctx_intros still_yields [OF still_lookc] keeps_yields [OF ctx_build_env] inline_gate_yields)

lemma landing_yields:
  assumes "landing_ok L st"
  shows "yields (ctx_le (s_name st)) (integrate_under_infra_retry c L wt st attempts infra)"
  using assms
proof (induction c L wt st attempts infra rule: integrate_under_infra_retry.induct)
  case (1 c L wt st attempts infra)
  have "yields (ctx_le (s_name st)) (infra_crash (ld_integrate L st wt attempts))"
    using "1.prems" by (simp add: landing_ok_def)
  moreover have "yields (ctx_le (s_name st)) (bindc (retry_infra_failure c (s_name st) attempts infra CAUSE_INFRA_SPAWN crash)
      (\<lambda>infra'. integrate_under_infra_retry c L wt st attempts infra'))"
    if "infra_crash (ld_integrate L st wt attempts) s = (Inr (Inl crash), t)" for crash s t
    by (rule ctx.yields_bindc_at [OF still_yields [OF still_retry_infra]]) (rule "1.IH" [OF that refl _ "1.prems"])
  ultimately show ?case
    by (subst integrate_under_infra_retry.simps)
      (rule ctx.yields_bindc_at, auto intro: ctx.yields_ret split: sum.split)
qed

lemma gates_retry_yields: "yields (ctx_le (s_name st)) (gates_under_infra_retry c st dir attempts infra)"
proof (induction c st dir attempts infra rule: gates_under_infra_retry.induct)
  case (1 c st dir attempts infra)
  have "yields (ctx_le (s_name st)) (bindc (retry_infra_failure c (s_name st) attempts infra cause evidence)
      (\<lambda>infra'. gates_under_infra_retry c st dir attempts infra'))"
    if "run_gates_at c st dir attempts (ir_ordinal infra) Exhaustive s = (Inr full, t)"
       "\<not> (go_pass full \<or> \<not> go_infra full)"
       "cause = gate_cause full" "evidence = join '' | '' (go_evidence full)" for full s t cause evidence
    unfolding that(3,4)
    by (rule ctx.yields_bindc_at [OF still_yields [OF still_retry_infra]]) (rule "1.IH" [OF that(1,2)])
  then show ?case
    by (subst gates_under_infra_retry.simps)
      (rule ctx.yields_bindc_at [OF gates_yield], auto intro: ctx.yields_ret)
qed

lemma record_integrated_yields [onward_intros]: "yields (ctx_le u) (record_integrated c st rest)"
  unfolding record_integrated_def by (rule keeps_yields) (rule ctx_emit)

lemma record_failure_yields [onward_intros]: "yields (ctx_le u) (record_failure c unit wt dir failure attempts cause)"
  unfolding record_failure_def
  by (intro onward_intros still_yields [OF still_ensure_present] still_yields [OF still_lookc] keeps_yields [OF ctx_emit_meta])

lemmas part_yields [onward_intros] =
  landing_yields still_yields [OF still_lookc] still_yields [OF still_blast_radius] still_yields [OF still_implement]
  still_yields [OF still_author_tests] still_yields [OF still_checkpoint] still_yields [OF still_verified]
  still_yields [OF still_infra_crash [OF still_review_unit]] still_yields [OF still_queue]

lemma land_plan_yields [onward_intros]: "landing_ok L (as_stage a) \<Longrightarrow> yields (ctx_le (s_name (as_stage a))) (land_plan c L a next)"
  unfolding land_plan_def
  by (auto intro!: onward_intros simp: landing_ok_def split: plan_commit_outcome.split)

lemma land_unit_yields [onward_intros]: "landing_ok L (as_stage a) \<Longrightarrow> yields (ctx_le (s_name (as_stage a))) (land_unit c L a next)"
  unfolding land_unit_def Let_def by (auto intro!: onward_intros split: option.split)

lemma verify_yields [onward_intros]:
  "landing_ok L (as_stage a) \<Longrightarrow> yields (ctx_le (s_name (as_stage a))) (verify_unit c L a prior next resolved seed safe)"
  unfolding verify_unit_def judge_unit_def Let_def by (auto intro!: onward_intros split: sum.split)

lemma stage_attempt_yields:
  "landing_ok L (as_stage a) \<Longrightarrow> yields (ctx_le (s_name (as_stage a))) (stage_attempt c L a events prior skip)"
  unfolding stage_attempt_def Let_def
  by (auto intro!: onward_intros split: impl_end.split sum.split prod.split)

section \<open>The gates of a landing\<close>

definition green_at :: "'w run_cfg \<Rightarrow> stage \<Rightarrow> u32 \<Rightarrow> u32 \<Rightarrow> 'w rctx \<Rightarrow> bool" where
  "green_at c st attempt ordinal t \<longleftrightarrow>
     list_all (\<lambda>gid. map_option fst (recorded_verdict st attempt ordinal Exhaustive gid t) = Some True) (inline_gates c st)"

lemma green_at_mono: "green_at c st a i s \<Longrightarrow> verdicted (s_name st) s \<Longrightarrow> ctx_le (s_name st) s t \<Longrightarrow> green_at c st a i t"
  unfolding green_at_def list_all_iff recorded_verdict_def ctx_le_def by fastforce

lemma full_gates_green:
  assumes "run_gates_at c st dir a i Exhaustive s = (Inr out, t)" "go_pass out" "verdicted (s_name st) s"
  shows "green_at c st a i t"
  using exhaustive_green [OF assms(1) assms(3) _ assms(2)] by (fastforce simp: green_at_def list_all_iff)

lemma landed_gates:
  assumes "land_unit c L a next s = (Inr (Finished True), t)" "verdicted (s_name (as_stage a)) s" "landing_ok L (as_stage a)"
  shows "green_at c (as_stage a) (as_attempts a) (ir_ordinal (as_infra a)) t"
proof -
  let ?st = "as_stage a"
  from assms(1) obtain full u integration v
    where gates: "run_gates_at c ?st (as_dir a) (as_attempts a) (ir_ordinal (as_infra a)) Exhaustive s = (Inr full, u)"
      and pass: "go_pass full"
      and merged: "integrate_under_infra_retry c L (as_wt a) ?st (as_attempts a) (as_infra a) u = (Inr integration, v)"
      and rec: "\<exists>rest x. record_integrated c ?st rest v = (Inr x, t)"
    unfolding land_unit_def Let_def
    by (auto simp: run_Inr fail_def split: if_splits option.splits)
  have green: "green_at c ?st (as_attempts a) (ir_ordinal (as_infra a)) u" by (rule full_gates_green [OF gates pass assms(2)])
  have ok: "verdicted (s_name ?st) u" using yieldsD [OF gates_yield gates] assms(2) by (simp add: ctx_le_def)
  have "ctx_le (s_name ?st) u v" by (rule yieldsD [OF landing_yields [OF assms(3)] merged])
  moreover have "ctx_le (s_name ?st) v t" using rec yieldsD [OF record_integrated_yields] by blast
  ultimately have "ctx_le (s_name ?st) u t" by (rule ctx_le_trans)
  with green_at_mono [OF green ok] show ?thesis .
qed

section \<open>The review of a landing\<close>

lemma emit_keyed_meta_claims: "emit_keyed_meta c k ty body extra s = (Inr u, t) \<Longrightarrow> k \<in> rx_keys t"
  by (auto simp: emit_keyed_meta_def keyed_event_def bindc_def seqc_def getc_def setc_def ret_def
      append_and_fold_run split: if_splits prod.splits sum.splits)

lemma approve_claims:
  "approve_review c v False sha adjudicator resolved reason compensate s = (Inr r, t) \<Longrightarrow>
     reviewed_key (s_name (rs_stage v)) (rs_attempt v) \<in> rx_keys t"
  by (auto simp: approve_review_def run_Inr dest: emit_keyed_meta_claims)

lemma judge_claims:
  "judge_review c v False sha ruling s = (Inr r, t) \<Longrightarrow> vo_approved r \<Longrightarrow>
     reviewed_key (s_name (rs_stage v)) (rs_attempt v) \<in> rx_keys t"
  by (auto simp: judge_review_def run_Inr Let_def review_verdict_def dest: approve_claims split: prod.splits if_splits)

text \<open>A round that has run its adjudicator has a ruling.\<close>

lemma foldc_reaches:
  assumes "foldc f b xs s = (Inr v, t)"
    and "\<And>b x s b' t. f b x s = (Inr b', t) \<Longrightarrow> P b \<or> Q x \<Longrightarrow> P b'"
    and "P b \<or> (\<exists>x \<in> set xs. Q x)"
  shows "P v"
  using assms(1,3)
proof (induction xs arbitrary: b s)
  case (Cons x xs)
  then obtain b' u where "f b x s = (Inr b', u)" "foldc f b' xs u = (Inr v, t)" by (auto simp: bindc_Inr)
  with Cons assms(2) [of b x s b' u] show ?case by auto
qed (auto simp: ret_def)

lemma adjudicator_positions_empty: "adjudicator_positions i steps = [] \<longleftrightarrow> (\<forall>x \<in> set steps. adjudicator_of x = None)"
  by (induction steps arbitrary: i) auto

lemma steps_rule:
  assumes run: "run_review_steps c v steps sha s = (Inr verdict, t)" and adj: "adjudicator_positions 0 steps \<noteq> []"
  shows "verdict \<noteq> None"
proof (rule foldc_reaches [OF run [unfolded run_review_steps_def]])
  fix b index s b' t
  assume "map_errc (\<lambda>e. bindc (guard_review_round_tree_on_tier_err c (rs_wt v) (rs_dir v) (s_name (rs_stage v)) sha e) fail)
      (run_review_step c v steps b index) s = (Inr b', t)"
  then have "run_review_step c v steps b index s = (Inr b', t)"
    by (auto simp: map_errc_def bindc_def fail_def split: prod.splits sum.splits)
  then show "b \<noteq> None \<or> adjudicator_of (steps ! index) \<noteq> None \<Longrightarrow> b' \<noteq> None"
    by (auto simp: run_review_step_def Let_def run_Inr split: review_step.splits)
next
  from adj obtain x where "x \<in> set steps" "adjudicator_of x \<noteq> None"
    unfolding adjudicator_positions_empty by blast
  then show "None \<noteq> None \<or> (\<exists>index \<in> set [0..<length steps]. adjudicator_of (steps ! index) \<noteq> None)"
    by (auto simp: in_set_conv_nth)
qed

text \<open>The stage's panel rules on every round, whichever tier a radius routes to.\<close>

definition always_judged :: "'w run_cfg \<Rightarrow> stage \<Rightarrow> bool" where
  "always_judged c st \<longleftrightarrow>
     (let panel = effective_review_panel (rc_workflow c) st in has_adjudicator_step panel \<and> validate_depth panel = None)"

lemma routed_judge: "always_judged c st \<Longrightarrow>
    adjudicator_positions 0 (panel_steps (tr_panel (route_review_tier rm (effective_review_panel (rc_workflow c) st) radius flapped))) \<noteq> []"
  by (auto simp: always_judged_def route_review_tier_def validate_depth_def has_adjudicator_step_def Let_def
      split: option.splits if_splits)

lemma review_claims:
  assumes run: "review_unit c st dir attempt ordinal flapped False radius wt req s = (Inr r, t)"
    and "vo_approved r" and judged: "always_judged c st"
  shows "reviewed_key (s_name st) attempt \<in> rx_keys t"
proof -
  let ?panel = "tr_panel (route_review_tier (rc_re_match c) (effective_review_panel (rc_workflow c) st) radius flapped)"
  note adj = routed_judge [OF judged, of "rc_re_match c" radius flapped]
  then have "\<not> panel_is_empty ?panel" by (auto simp: panel_is_empty_def)
  define v where "v = (\<lambda>delta. \<lparr>rs_stage = st, rs_dir = dir, rs_attempt = attempt, rs_ordinal = ordinal, rs_wt = wt,
      rs_round = map_option (\<lambda>(base, paths). \<lparr>rw_base = base, rw_delta = paths, rw_required = req,
                                              rw_audit = audit_id (s_name st) attempt\<rparr>) delta\<rparr>)"
  have v: "rs_stage (v delta) = st" "rs_attempt (v delta) = attempt" for delta by (simp_all add: v_def)
  from run \<open>\<not> panel_is_empty ?panel\<close> obtain delta sha verdict u w x
    where steps: "run_review_steps c (v delta) (panel_steps ?panel) sha u = (Inr verdict, w)"
      and rest: "(case verdict of None \<Rightarrow> ret (review_verdict True []) | Some ruling \<Rightarrow> judge_review c (v delta) False sha ruling) x
                   = (Inr r, t)"
    unfolding review_unit_def Let_def v_def by (auto simp: run_Inr)
  from steps_rule [OF steps adj] obtain ruling where "verdict = Some ruling" by blast
  with rest judge_claims [of c "v delta" sha ruling x r t] assms(2) v show ?thesis by simp
qed

section \<open>The attempt that landed\<close>

lemma infra_crash_Inr: "infra_crash m s = (Inr (Inr x), t) \<longleftrightarrow> m s = (Inr x, t)"
  by (auto simp: infra_crash_def bindc_def resultc_def ret_def fail_def split: prod.splits sum.splits)

lemma case_Inr:
  "(case r of Inl e \<Rightarrow> f e | Inr x \<Rightarrow> g x) s = (Inr y, t) \<longleftrightarrow>
     (\<exists>e. r = Inl e \<and> f e s = (Inr y, t)) \<or> (\<exists>x. r = Inr x \<and> g x s = (Inr y, t))"
  "(case i of ImplRefused \<Rightarrow> h | ImplFailed cause reason err \<Rightarrow> k cause reason err | ImplDone resolved \<Rightarrow> l resolved) s
     = (Inr y, t) \<longleftrightarrow>
     (i = ImplRefused \<and> h s = (Inr y, t)) \<or> (\<exists>cause reason err. i = ImplFailed cause reason err \<and> k cause reason err s = (Inr y, t)) \<or>
     (\<exists>resolved. i = ImplDone resolved \<and> l resolved s = (Inr y, t))"
  by (cases r; simp) (cases i; simp)

text \<open>What an attempt that landed leaves: its gates green, and its review recorded where the panel always rules.\<close>

definition landing_stands :: "'w run_cfg \<Rightarrow> stage \<Rightarrow> u32 \<Rightarrow> u32 \<Rightarrow> 'w rctx \<Rightarrow> bool" where
  "landing_stands c st attempt ordinal t \<longleftrightarrow>
     green_at c st attempt ordinal t \<and> (always_judged c st \<longrightarrow> reviewed_key (s_name st) attempt \<in> rx_keys t)"

lemma judged_landing:
  assumes run: "judge_unit c L a next r s = (Inr (Finished True), t)" and ok: "verdicted (s_name (as_stage a)) s"
    and L: "landing_ok L (as_stage a)"
    and judged: "vo_approved r \<Longrightarrow> always_judged c (as_stage a) \<Longrightarrow> reviewed_key (s_name (as_stage a)) (as_attempts a) \<in> rx_keys s"
  shows "landing_stands c (as_stage a) (as_attempts a) (ir_ordinal (as_infra a)) t"
proof -
  from run obtain next' u x where q: "queue_compensation c a r s = (Inr x, u)" and approved: "vo_approved r"
    and land: "land_unit c L a next' u = (Inr (Finished True), t)"
    unfolding judge_unit_def Let_def by (auto simp: run_Inr split: if_splits)
  have su: "ctx_le (s_name (as_stage a)) s u" by (rule yieldsD [OF still_yields [OF still_queue] q])
  then have ok': "verdicted (s_name (as_stage a)) u" using ok by (simp add: ctx_le_def)
  have "ctx_le (s_name (as_stage a)) u t" by (rule yieldsD [OF land_unit_yields [OF L] land])
  with su have "rx_keys s \<subseteq> rx_keys t" by (auto simp: ctx_le_def)
  with judged [OF approved] landed_gates [OF land ok' L] show ?thesis by (auto simp: landing_stands_def)
qed

lemma verified_landing:
  assumes run: "verify_unit c L a prior next resolved seed safe s = (Inr (Finished True), t)"
    and ok: "verdicted (s_name (as_stage a)) s" and L: "landing_ok L (as_stage a)"
  shows "landing_stands c (as_stage a) (as_attempts a) (ir_ordinal (as_infra a)) t"
proof -
  let ?st = "as_stage a"
  let ?review = "review_unit c ?st (as_dir a) (as_attempts a) (ir_ordinal (as_infra a)) (as_attempts a > 0) False safe
                   (as_wt a) (pf_required prior)"
  from run obtain x u out v y w r z
    where 1: "checkpoint_attempt c (as_wt a) (s_name ?st) (as_attempts a) s = (Inr x, u)"
      and 2: "run_gates_at c ?st (as_dir a) (as_attempts a) (ir_ordinal (as_infra a)) (Narrowed seed) u = (Inr out, v)"
      and 3: "record_verified c a resolved v = (Inr y, w)"
      and 4: "?review w = (Inr r, z)" and land: "judge_unit c L a next r z = (Inr (Finished True), t)"
    unfolding verify_unit_def Let_def by (auto simp: run_Inr infra_crash_Inr case_Inr split: if_splits)
  have "ctx_le (s_name ?st) s z"
    using yieldsD [OF still_yields [OF still_checkpoint] 1] yieldsD [OF gates_yield 2]
      yieldsD [OF still_yields [OF still_verified] 3] yieldsD [OF still_yields [OF still_review_unit] 4]
    by (blast intro: ctx_le_trans)
  then have "verdicted (s_name ?st) z" using ok by (simp add: ctx_le_def)
  from judged_landing [OF land this L] review_claims [OF 4] show ?thesis by blast
qed

lemma attempt_landed:
  assumes run: "stage_attempt c L a events prior skip s = (Inr (Finished True), t)"
    and st: "\<not> is_producer (as_stage a)" and ok: "verdicted (s_name (as_stage a)) s" and L: "landing_ok L (as_stage a)"
  shows "landing_stands c (as_stage a) (as_attempts a) (ir_ordinal (as_infra a)) t"
proof -
  let ?st = "as_stage a" and ?next = "no_failure\<lparr>pf_required := pf_required prior\<rparr>"
  from run st obtain seed safe x u impl v authored w resolved
    where 1: "record_blast_radius c ?st (as_attempts a) seed safe s = (Inr x, u)"
      and 2: "implement c ?st (as_wt a) (as_dir a) events (as_attempts a) (as_infra a) prior seed skip u = (Inr impl, v)"
      and 3: "author_tests c a prior v = (Inr authored, w)"
      and land: "verify_unit c L a prior ?next resolved seed safe w = (Inr (Finished True), t)"
    unfolding stage_attempt_def Let_def
    by (auto simp: run_Inr lookc_def case_Inr split: if_splits prod.splits)
  have "ctx_le (s_name ?st) s w"
    using yieldsD [OF still_yields [OF still_blast_radius] 1] yieldsD [OF still_yields [OF still_implement] 2]
      yieldsD [OF still_yields [OF still_author_tests] 3]
    by (blast intro: ctx_le_trans)
  then have "verdicted (s_name ?st) w" using ok by (simp add: ctx_le_def)
  from verified_landing [OF land this L] show ?thesis .
qed

section \<open>The stage that landed\<close>

lemma attempts_landed:
  assumes "run_attempts c L st wt dir events attempts infra prior skip s = (Inr True, t)"
    and "\<not> is_producer st" "landing_ok L st" "verdicted (s_name st) s"
  shows "\<exists>attempt ordinal. landing_stands c st attempt ordinal t"
  using assms
proof (induction c L st wt dir events attempts infra prior skip arbitrary: s rule: run_attempts.induct)
  case (1 c L st wt dir events attempts infra prior skip)
  let ?a = "\<lparr>as_stage = st, as_wt = wt, as_dir = dir, as_attempts = attempts, as_infra = infra\<rparr>"
  note run = "1.prems"(1) [unfolded run_attempts.simps [of c L st wt dir events attempts infra prior skip]]
  from run show ?case
  proof (cases rule: bindc_cases)
    case (2 x u)
    have "yields (ctx_le (s_name st)) (stage_attempt c L ?a events prior skip)"
      using stage_attempt_yields [of L ?a c events prior skip] "1.prems"(3) by simp
    then have su: "ctx_le (s_name st) s u" using 2(1) by (rule yieldsD)
    then have ok: "verdicted (s_name st) u" using "1.prems"(4) by (simp add: ctx_le_def)
    show ?thesis
    proof (cases x)
      case (Finished answer)
      with 2 have "stage_attempt c L ?a events prior skip s = (Inr (Finished True), t)" by (auto simp: ret_def)
      from attempt_landed [OF this] "1.prems"(2-4) show ?thesis by auto
    next
      case (Failing cause nxt serr terr)
      note next_run = 2(2) [unfolded Failing attempt_end.case]
      show ?thesis
      proof (cases "is_infra_cause cause")
        case True
        from next_run [unfolded if_P [OF True]] obtain infra' v
          where retry: "retry_infra_failure c (s_name st) attempts infra cause (failure_evidence nxt serr terr) u = (Inr infra', v)"
            and rest: "run_attempts c L st wt dir events attempts infra' prior (serr = None) (v\<lparr>rx_any_parked := False\<rparr>) = (Inr True, t)"
          by (auto simp: run_Inr setc_def)
        have "ctx_le (s_name st) u v" by (rule yieldsD [OF still_yields [OF still_retry_infra] retry])
        then have "verdicted (s_name st) (v\<lparr>rx_any_parked := False\<rparr>)" using ok by (simp add: ctx_le_def verdicted_def)
        from "1.IH"(1) [OF 2(1) Failing True retry rest "1.prems"(2,3) this] show ?thesis .
      next
        case False
        let ?rem = "remediate attempts (unit_max_retries c st)"
        from next_run [unfolded if_not_P [OF False] Let_def] obtain y v
          where failed: "record_failure c (s_name st) wt dir nxt (rem_attempts ?rem) cause u = (Inr y, v)"
            and rest: "(if rem_decision ?rem = Escalate then seqc (record_escalation c (s_name st) wt (rem_attempts ?rem) nxt) (ret False)
                        else run_attempts c L st wt dir events (rem_attempts ?rem)
                               (infra_recorded (rc_probes c) events (s_name st) (rem_attempts ?rem)) nxt False) v = (Inr True, t)"
          by (auto simp: run_Inr)
        have "ctx_le (s_name st) u v" by (rule yieldsD [OF record_failure_yields failed])
        then have ok': "verdicted (s_name st) v" using ok by (simp add: ctx_le_def)
        show ?thesis
        proof (cases "rem_decision ?rem = Escalate")
          case True
          with rest show ?thesis by (simp add: run_Inr)
        next
          case retry: False
          with rest have "run_attempts c L st wt dir events (rem_attempts ?rem)
              (infra_recorded (rc_probes c) events (s_name st) (rem_attempts ?rem)) nxt False v = (Inr True, t)" by simp
          from "1.IH"(2) [OF 2(1) Failing False refl retry this "1.prems"(2,3) ok'] show ?thesis .
        qed
      qed
    qed
  qed simp
qed

end
