(* ===== verification/Landing_Frame.thy ===== *)
theory Landing_Frame
  imports Plan_Landing Unit_Landing
begin

text \<open>
  The conductor's landing keeps what a stage asks of it (\<open>landing_ok\<close>): it writes no lifecycle event of the
  conductor's own, and where it answers or crashes on a spawn the unit's gate verdicts only grew.
\<close>

section \<open>The merge leaves a unit's verdicts\<close>

text \<open>Every agent has a name: what an agent emits is told apart by its actor.\<close>

definition agents_named :: "'w run_cfg \<Rightarrow> bool" where
  "agents_named c \<longleftrightarrow> bt_get (rc_agents c) [] = None"

lemma row_keys [simp]:
  "plain_role row \<Longrightarrow> row_key u row a ep \<notin> gate_run_keys u" "row_key u ''placeholder-staged'' a ep \<notin> gate_run_keys u"
  by (simp add: row_key_def plain_key) (simp add: row_key_def gate_run_keys_def starts_with_def)

lemma still_row [still_intros]:
  "key \<notin> gate_run_keys u \<Longrightarrow> keeps (still u) (record_integrate_row c key status unit attempt evidence)"
  unfolding record_integrate_row_def by (intro still_intros) simp_all

lemma still_run_command [still_intros]: "keeps (still u) (run_command c g ge)"
  by (intro keeps_still calm_intros quiet_intros)

lemma still_maps [still_intros]:
  "keeps (still u) (setc (\<lambda>s. s\<lparr>rx_landed := f1 s\<rparr>))" "keeps (still u) (setc (\<lambda>s. s\<lparr>rx_pending_landing := f1 s\<rparr>))"
  "keeps (still u) (setc (\<lambda>s. s\<lparr>rx_regenerate_pending := f2 s\<rparr>))" "keeps (still u) (setc (\<lambda>s. s\<lparr>rx_world := f3 s\<rparr>))"
  by (intro still.keeps_setc still_same, simp_all)+

lemma still_record_landed [still_intros]: "keeps (still u) (record_landed c u attempt pass sha pre)"
  unfolding record_landed_def by (intro still_intros row_keys) simp

lemma still_clear [still_intros]: "keeps (still u) (clear_pending_landing unit attempt)"
  unfolding clear_pending_landing_def by (intro still_intros)

lemma still_regenerate_pending [still_intros]: "keeps (still u) (record_regenerate_pending c u attempt episode paths)"
  unfolding record_regenerate_pending_def by (auto intro!: still_intros row_keys)

lemma still_regenerate [still_intros]: "keeps (still u) (regenerate_and_record c dir u attempt paths tag)"
  unfolding regenerate_and_record_def regenerate_conflicted_paths_def run_regenerate_command_def record_regenerate_commit_def
  by (auto intro!: still_intros row_keys)

lemma still_catch_up [still_intros]: "keeps (still u) (catch_up_owed_regeneration c dir u attempt)"
  unfolding catch_up_owed_regeneration_def by (auto intro!: still_intros)

lemma still_resolver_answer [still_intros]: "keeps (still u) (resolver_answer c st answer)"
  unfolding resolver_answer_def by (auto intro!: still_intros split: sum.split)

lemma still_named:
  assumes "agents_named c" "s_agent st \<noteq> [] \<Longrightarrow> keeps (still u) m"
  shows "keeps (still u) (bindc (agent_of c st label (s_agent st)) (\<lambda>_. m))"
proof (rule still.keeps_bindc_at [OF still_agent_of])
  fix s x t assume "agent_of c st label (s_agent st) s = (Inr x, t)"
  then have "s_agent st \<noteq> []" using assms(1)
    by (auto simp: agent_of_def agents_named_def fail_def split: option.splits)
  then show "keeps (still u) m" by (rule assms(2))
qed

lemma still_resolver [still_intros]:
  "agents_named c \<Longrightarrow> keeps (still u) (spawn_conflict_resolution_implementer c st dir attempt retry source refused)"
  unfolding spawn_conflict_resolution_implementer_def Let_def
  by (auto intro!: still_intros still_named still_spawn_agent [of "s_agent st"])

lemma still_land_refused [still_intros]: "keeps (still u) (land_refused c unit dir paths)"
  unfolding land_refused_def by (intro still_intros)

lemma still_ready_pass [still_intros]: "keeps (still (s_name st)) (ready_pass c st dir attempt turn pass pre commit)"
  unfolding ready_pass_def land_answer_def record_merge_outcome_def record_landing_intent_def record_tip_moved_def Let_def
  by (auto intro!: still_intros row_keys split: land_outcome.split)

lemma still_confined_pass [still_intros]: "keeps (still (s_name st)) (confined_pass c st dir attempt turn pass regenerable)"
  unfolding confined_pass_def Let_def by (intro still_intros)

lemma still_mixed_pass [still_intros]:
  "agents_named c \<Longrightarrow> keeps (still (s_name st)) (mixed_pass c st dir attempt head turn conflicting regenerable source)"
  unfolding mixed_pass_def record_placeholder_staged_def Let_def by (auto intro!: still_intros row_keys)

lemma still_merge_pass [still_intros]:
  "agents_named c \<Longrightarrow> keeps (still (s_name st)) (merge_pass c st dir attempt head turn pass)"
  unfolding merge_pass_def merge_answer_def record_merge_attempt_def record_merge_outcome_def Let_def
  by (auto intro!: still_intros row_keys split: merge_outcome.split)

lemma still_merge_passes [still_intros]:
  "agents_named c \<Longrightarrow> keeps (still (s_name st)) (merge_passes c st dir attempt head turn pass)"
proof (induction c st dir attempt head turn pass rule: merge_passes.induct)
  case (1 c st dir attempt head turn pass)
  have "keeps (still (s_name st)) (case r of PassDone e \<Rightarrow> ret e | PassAgain turn' \<Rightarrow> merge_passes c st dir attempt head turn' (pass + 1))"
    if "merge_pass c st dir attempt head turn (pass + 1) s = (Inr r, t)" "pass \<noteq> - 1" for r s t
    using "1.IH" [OF that(2,1) _ "1.prems"] by (cases r) (auto intro: still.keeps_ret)
  then show ?case
    by (subst merge_passes.simps) (auto intro!: still.keeps_fail still.keeps_bindc_at still_merge_pass "1.prems")
qed

lemma still_entry [still_intros]: "keeps (still (s_name st)) (entry_of c st dir attempt files)"
  unfolding entry_of_def Let_def by (auto intro!: still_intros split: option.split)

lemma still_ingest [still_intros]: "keeps (still u) (ingest_files c files)"
proof (rule keeps_still)
  show "keeps calm (ingest_files c files)"
    by (rule keepsI) (auto simp: ingest_files_def calm_def own_life_def event_with_meta_def split: prod.splits)
  show "keeps (quiet (- gate_run_keys u) UNIV) (ingest_files c files)"
    by (rule keepsI) (auto simp: ingest_files_def quiet_def split: prod.splits)
qed

lemma still_index [still_intros]: "keeps (still u) (index_landed c st dir commit since)"
  unfolding index_landed_def by (auto intro!: still_intros)

section \<open>Where a landing answers or crashes\<close>

text \<open>
  \<open>onward u m\<close>: \<open>m\<close> moves the unit's state only forward, unless it ends in an error no spawn crashed with. A
  verdict whose append failed leaves its key claimed, and the store's errors carry no crash marker.
\<close>

definition onward :: "string \<Rightarrow> ('w, 'a) run \<Rightarrow> bool" where
  "onward u m \<longleftrightarrow> (\<forall>s r t. m s = (r, t) \<longrightarrow> (\<forall>e. r = Inl e \<longrightarrow> carries_marker e SPAWN_CRASH_MARKER) \<longrightarrow> ctx_le u s t)"

definition store_unmarked :: "'w run_cfg \<Rightarrow> bool" where
  "store_unmarked c \<longleftrightarrow> (\<forall>f w e w'. pt_append (rc_ports c) f w = (Inl e, w') \<longrightarrow> \<not> carries_marker e SPAWN_CRASH_MARKER)"

named_theorems forth_intros "the computations that move a unit's state forward where they answer or crash"

lemma onward_keeps: "keeps (ctx_le u) m \<Longrightarrow> onward u m"
  by (auto simp: onward_def dest: keepsD)

lemma onward_bindc [forth_intros]:
  assumes "onward u m" "\<And>x. onward u (f x)"
  shows "onward u (bindc m f)"
  unfolding onward_def
proof (intro allI impI)
  fix s r t assume run: "bindc m f s = (r, t)" and e: "\<forall>e. r = Inl e \<longrightarrow> carries_marker e SPAWN_CRASH_MARKER"
  from run show "ctx_le u s t"
  proof (cases rule: bindc_cases)
    case (1 e)
    with assms(1) e show ?thesis unfolding onward_def by blast
  next
    case (2 x v)
    have "ctx_le u s v" using assms(1) 2(1) unfolding onward_def by blast
    moreover have "ctx_le u v t" using assms(2) 2(2) e unfolding onward_def by blast
    ultimately show ?thesis by (rule ctx_le_trans)
  qed
qed

lemma onward_seqc [forth_intros]: "onward u m \<Longrightarrow> onward u d \<Longrightarrow> onward u (seqc m d)"
  unfolding seqc_def by (rule onward_bindc)

lemma onward_ret [forth_intros]: "onward u (ret x)"
  by (rule onward_keeps) (rule ctx.keeps_ret)

lemma onward_foldc [forth_intros]: "(\<And>b x. onward u (f b x)) \<Longrightarrow> onward u (foldc f b xs)"
  by (induction xs arbitrary: b) (auto intro: forth_intros)

lemma onward_yields: "onward u m \<Longrightarrow> yields (ctx_le u) (infra_crash m)"
  unfolding onward_def
  by (auto intro!: yieldsI simp: infra_crash_def run_Inr resultc_def fail_def split: prod.splits sum.splits if_splits)

text \<open>A gate pass that is cleaned up after whatever it answers.\<close>

lemma onward_tried:
  assumes m: "onward u m" and A: "keeps (ctx_le u) A" and B: "keeps (ctx_le u) B" and f: "\<And>x. onward u (f x)"
  shows "onward u (bindc (resultc m) (\<lambda>g. seqc (resultc A) (seqc (resultc B) (bindc (liftc g) f))))"
  unfolding onward_def
proof (intro allI impI)
  fix s r t assume run: "bindc (resultc m) (\<lambda>g. seqc (resultc A) (seqc (resultc B) (bindc (liftc g) f))) s = (r, t)"
    and e: "\<forall>e. r = Inl e \<longrightarrow> carries_marker e SPAWN_CRASH_MARKER"
  obtain g v where g: "m s = (g, v)" by fastforce
  obtain a v1 where a: "A v = (a, v1)" by fastforce
  obtain b v2 where b: "B v1 = (b, v2)" by fastforce
  have mid: "ctx_le u v v2" using keepsD [OF A a] keepsD [OF B b] by (rule ctx_le_trans)
  show "ctx_le u s t"
  proof (cases g)
    case (Inl x)
    then have "r = Inl x" "t = v2"
      using run by (auto simp: bindc_def resultc_def seqc_def liftc_def fail_def g a b)
    then have "ctx_le u s v" using m g e Inl unfolding onward_def by blast
    with mid \<open>t = v2\<close> show ?thesis by (blast intro: ctx_le_trans)
  next
    case (Inr x)
    then have "f x v2 = (r, t)" using run by (auto simp: bindc_def resultc_def seqc_def liftc_def ret_def g a b)
    then have "ctx_le u v2 t" using f e unfolding onward_def by blast
    moreover have "ctx_le u s v" using m g Inr unfolding onward_def by blast
    ultimately show ?thesis using mid by (blast intro: ctx_le_trans)
  qed
qed

section \<open>The gates of a landing\<close>

lemma onward_verdict:
  assumes "store_unmarked c"
  shows "onward u (emit_gate_verdict c key unit gid pass flaky evidence digest hit)"
  unfolding onward_def
proof (intro allI impI)
  fix s r t
  assume run: "emit_gate_verdict c key unit gid pass flaky evidence digest hit s = (r, t)"
    and e: "\<forall>e. r = Inl e \<longrightarrow> carries_marker e SPAWN_CRASH_MARKER"
  show "ctx_le u s t"
  proof (cases r)
    case (Inr x)
    with run show ?thesis by (auto intro: yieldsD [OF gate_verdict_yields])
  next
    case (Inl err)
    with run have "fst (pt_append (rc_ports c) (gate_verdict_fact key gid pass flaky evidence digest hit) (rx_world s)) = Inl err"
      by (auto simp: emit_gate_verdict_def bindc_def claim_key_run append_and_fold_run setc_def ret_def
          split: prod.splits sum.splits if_splits)
    then show ?thesis using assms e Inl unfolding store_unmarked_def by (metis prod.collapse)
  qed
qed

lemmas onward_part [forth_intros] =
  onward_keeps [OF ctx_run_command] onward_keeps [OF feed_ratchet_keeps] onward_keeps [OF gate_skip_keeps]
  onward_keeps [OF ctx_build_env] onward_keeps [OF still_ctx [OF still_lookc]] onward_keeps [OF ctx.keeps_getc]
  onward_keeps [OF ctx.keeps_fail] onward_keeps [OF ctx_portc] onward_keeps [OF ctx.keeps_resultc [OF ctx_portc]]

lemma onward_inline_gate:
  "store_unmarked c \<Longrightarrow> onward (s_name st) (run_inline_gate c st attempt ordinal selection ge commit_sha out gid)"
  unfolding run_inline_gate_def run_fresh_gate_def Let_def
  by (auto intro!: forth_intros onward_verdict split: option.split prod.split)

lemma onward_gates [forth_intros]:
  "store_unmarked c \<Longrightarrow> onward (s_name st) (run_gates_at c st dir attempt ordinal selection)"
  unfolding run_gates_at_def by (intro forth_intros onward_inline_gate)

lemmas onward_still [forth_intros] =
  onward_keeps [OF still_ctx [OF still_ensure_present]] onward_keeps [OF still_ctx [OF still_index]]
  onward_keeps [OF still_ctx [OF still_entry]] onward_keeps [OF still_ctx [OF still_merge_passes]]
  onward_keeps [OF still_ctx [OF still_record_landed]] onward_keeps [OF still_ctx [OF still_clear]]

lemma onward_regate: "store_unmarked c \<Longrightarrow> onward (s_name st) (regate c st dir attempt head commit pre)"
proof -
  assume "store_unmarked c"
  then have "onward (s_name st) (gate_merged c st dir attempt head pre pm_wt pm_branch)" for pm_wt pm_branch
    unfolding gate_merged_def Let_def by (intro onward_tried onward_gates ctx_portc) (auto intro!: forth_intros)
  then show ?thesis unfolding regate_def Let_def by (auto intro!: forth_intros split: prod.split sum.split)
qed

lemma onward_reclaim [forth_intros]: "onward u (whenc b (setc (\<lambda>s. s\<lparr>rx_world := f s\<rparr>)))"
  by (intro onward_keeps still_ctx still.keeps_whenc still_maps)

lemma onward_finish [forth_intros]:
  "store_unmarked c \<Longrightarrow> onward (s_name st) (finish_landing c st dir attempt head merged merged_from since)"
  unfolding finish_landing_def close_landing_def
  by (auto intro!: forth_intros onward_regate split: option.split prod.split)

lemma onward_integrate:
  "store_unmarked c \<Longrightarrow> agents_named c \<Longrightarrow> onward (s_name st) (integrate_and_emit c wt st attempt)"
  unfolding integrate_and_emit_def integrate_worktree_def
  by (auto intro!: forth_intros split: option.split entry.split merge_end.split)

section \<open>The conductor's landing\<close>

lemma calm_regate: "keeps calm (regate c st dir attempt head commit pre)"
  unfolding regate_def gate_merged_def Let_def
  by (auto intro!: calm_intros still_calm [OF still_ensure_present] split: prod.split sum.split)

lemma calm_finish: "keeps calm (finish_landing c st dir attempt head merged merged_from since)"
  unfolding finish_landing_def close_landing_def
  by (auto intro!: calm_intros calm_regate still_calm [OF still_index] calm.keeps_setc calm_same_log
      split: option.split prod.split)

lemma calm_integrate: "agents_named c \<Longrightarrow> keeps calm (integrate_and_emit c wt st attempt)"
  unfolding integrate_and_emit_def integrate_worktree_def
  by (auto intro!: calm_intros calm_finish still_calm [OF still_ensure_present] still_calm [OF still_entry]
      still_calm [OF still_merge_passes] still_calm [OF still_record_landed] still_calm [OF still_clear]
      split: option.split entry.split merge_end.split)

lemma still_plan_commits: "keeps (still u) (integrate_plan_commits c unit wt)"
  unfolding integrate_plan_commits_def integrate_plan_commits_inner_def offending_paths_def record_plan_intent_def
    read_plan_landed_def confirm_landed_def land_pending_def pick_landed_def record_plan_landed_def Let_def
  by (auto intro!: still_intros split: option.split sum.split prod.split cherry_pick_outcome.split)

theorem conductor_landing_ok:
  assumes "agents_named c" "store_unmarked c"
  shows "landing_ok (conductor_landing c) st"
  using calm_integrate [OF assms(1)] onward_yields [OF onward_integrate [OF assms(2,1)]]
    still_calm [OF still_plan_commits [of _ c]] still_yields [OF still_plan_commits [of _ c]]
  by (simp add: landing_ok_def conductor_landing_def)

end
