(* ===== verification/Stage_Runs.thy ===== *)
theory Stage_Runs
  imports Landing_Frame
begin

text \<open>
  What a unit's stage guarantees (\<open>run_single_stage\<close>): the lifecycle events it writes are a course of its
  abstract specification, infrastructure failures are never charged, the charged attempts are the
  remediation bound's, and a landing stands on green gates and an adjudicated review.
\<close>

section \<open>A unit resumed at its landing\<close>

lemma gates_retry_calm: "keeps calm (gates_under_infra_retry c st dir attempts infra)"
proof (induction c st dir attempts infra rule: gates_under_infra_retry.induct)
  case (1 c st dir attempts infra)
  have "keeps calm (bindc (retry_infra_failure c (s_name st) attempts infra cause evidence)
      (\<lambda>infra'. gates_under_infra_retry c st dir attempts infra'))"
    if "run_gates_at c st dir attempts (ir_ordinal infra) Exhaustive s = (Inr full, t)"
       "\<not> (go_pass full \<or> \<not> go_infra full)"
       "cause = gate_cause full" "evidence = join '' | '' (go_evidence full)" for full s t cause evidence
    unfolding that(3,4)
    by (rule calm.keeps_bindc_at [OF still_calm [OF still_retry_infra]]) (rule "1.IH" [OF that(1,2)])
  then show ?case
    by (subst gates_under_infra_retry.simps) (rule calm.keeps_bindc_at [OF calm_gates], auto intro: calm.keeps_ret)
qed

lemma gates_retry_result:
  assumes "gates_under_infra_retry c st dir attempts infra s = (Inr (full, infra'), t)"
  shows "(go_pass full \<or> \<not> go_infra full) \<and> (go_pass full \<and> verdicted (s_name st) s \<longrightarrow> green_at c st attempts (ir_ordinal infra') t)"
  using assms
proof (induction c st dir attempts infra arbitrary: s rule: gates_under_infra_retry.induct)
  case (1 c st dir attempts infra)
  note run = "1.prems" [unfolded gates_under_infra_retry.simps [of c st dir attempts infra]]
  from run show ?case
  proof (cases rule: bindc_cases)
    case (2 out u)
    have ok: "verdicted (s_name st) u" if "verdicted (s_name st) s"
      using yieldsD [OF gates_yield 2(1)] that by (simp add: ctx_le_def)
    show ?thesis
    proof (cases "go_pass out \<or> \<not> go_infra out")
      case True
      with 2(2) have "out = full" "infra = infra'" "u = t" by (auto simp: ret_def)
      with True full_gates_green [OF 2(1)] show ?thesis by auto
    next
      case False
      with 2(2) obtain infra1 v
        where retry: "retry_infra_failure c (s_name st) attempts infra (gate_cause out) (join '' | '' (go_evidence out)) u = (Inr infra1, v)"
          and rest: "gates_under_infra_retry c st dir attempts infra1 v = (Inr (full, infra'), t)"
        by (auto simp: run_Inr)
      have "verdicted (s_name st) v" if "verdicted (s_name st) s"
        using yieldsD [OF still_yields [OF still_retry_infra] retry] ok [OF that] by (simp add: ctx_le_def)
      with "1.IH" [OF 2(1) False retry rest] show ?thesis by blast
    qed
  qed simp
qed

text \<open>The course of a unit resumed at its landing: it lands, is charged one more attempt, or stops.\<close>

definition resumed_life :: "string \<Rightarrow> u32 \<Rightarrow> fact list \<Rightarrow> string + bool \<Rightarrow> bool" where
  "resumed_life unit a fs r \<longleftrightarrow>
     fs = [] \<and> r \<noteq> Inr True \<or>
     (\<exists>f. fs = [f] \<and> integrated_fact unit f \<and> r = Inr True) \<or>
     (\<exists>f cause. fs = [f] \<and> failed_fact unit (a + 1) cause f \<and> \<not> is_infra_cause cause \<and> r = Inr False)"

lemma charge_follows:
  assumes "seqc (record_failure c unit wt dir failure (a + 1) cause) (ret False) s = (r, t)" "\<not> is_infra_cause cause"
  shows "\<exists>fs. life_between s t fs \<and> resumed_life unit a fs r"
  using assms(1)
proof (cases rule: seqc_cases)
  case (1 e)
  from record_failure_life [OF 1(1)] 1(2) show ?thesis by (auto simp: life_calm resumed_life_def)
next
  case (2 x u)
  from record_failure_life [OF 2(1)] 2(2) assms(2) show ?thesis by (auto simp: ret_def resumed_life_def)
qed

lemma integrated_follows:
  assumes "seqc (record_integrated c st rest) (ret True) s = (r, t)"
  shows "\<exists>fs. life_between s t fs \<and> resumed_life (s_name st) a fs r"
proof -
  from assms have "seqc (record_integrated c st rest) (ret (Finished True)) s = (map_sum id Finished r, t)"
    by (auto simp: seqc_def bindc_def ret_def split: prod.splits sum.splits)
  with lands_integrated [OF refl, of st c rest, unfolded lands_only_def]
  have "if map_sum id Finished r = Inr (Finished True) then \<exists>f. integrated_fact (s_name st) f \<and> life_between s t [f] else calm s t"
    by blast
  moreover have "r \<noteq> Inr True \<longrightarrow> map_sum id Finished r \<noteq> Inr (Finished True)" by (cases r) auto
  ultimately show ?thesis by (auto simp: resumed_life_def life_calm split: if_splits)
qed

lemma gate_cause_charged: "\<not> go_infra out \<Longrightarrow> \<not> is_infra_cause (gate_cause out)"
  by (simp add: gate_cause_def gate_failure_cause_def is_infra_cause_def)

lemma resumed_follows_calm:
  assumes "calm s u" "\<exists>fs. life_between u t fs \<and> resumed_life unit a fs r"
  shows "\<exists>fs. life_between s t fs \<and> resumed_life unit a fs r"
  using assms by (blast intro: life_calm_then)

lemma resumed_follows:
  assumes run: "resume_reviewed c L st wt dir events s = (r, t)" and L: "landing_ok L st"
    and a: "a = unwrap_or 0 (bt_get (rc_prior_attempts c) (s_name st))"
  shows "\<exists>fs. life_between s t fs \<and> resumed_life (s_name st) a fs r"
proof (cases "integrates st")
  case False
  with run have "s = t" "r = Inr False" by (auto simp: resume_reviewed_def ret_def)
  then have "life_between s t [] \<and> resumed_life (s_name st) a [] r"
    using calm_refl life_calm by (auto simp: resumed_life_def)
  then show ?thesis by blast
next
  case True
  let ?infra = "infra_recorded (rc_probes c) events (s_name st) a"
  from run [unfolded resume_reviewed_def Let_def] True
  have "bindc (gates_under_infra_retry c st dir a ?infra) (\<lambda>(full, infra).
            if \<not> go_pass full
            then seqc (record_failure c (s_name st) wt dir (no_failure\<lparr>pf_gate_evidence := go_evidence full\<rparr>) (a + 1) (gate_cause full))
                   (ret False)
            else
              bindc (integrate_under_infra_retry c L wt st a infra) (\<lambda>integration.
                case in_blocked integration of
                  Some evidence \<Rightarrow>
                    seqc (record_failure c (s_name st) wt dir (no_failure\<lparr>pf_gate_evidence := evidence\<rparr>) (a + 1)
                            CAUSE_INTEGRATE_CONFLICT)
                      (ret False)
                | None \<Rightarrow> seqc (record_integrated c st [(''commit'', JStr (in_commit integration))]) (ret True))) s = (r, t)"
    unfolding a by simp
  then show ?thesis
  proof (cases rule: bindc_cases)
    case (1 e)
    have "calm s t" by (rule keepsD [OF gates_retry_calm 1(1)])
    with 1(2) show ?thesis by (auto simp: life_calm resumed_life_def)
  next
    case (2 full_infra u)
    obtain full infra where full: "full_infra = (full, infra)" by fastforce
    note gates = 2(1) [unfolded full]
    have su: "calm s u" by (rule keepsD [OF gates_retry_calm gates])
    note rest = 2(2) [unfolded full split]
    show ?thesis
    proof (cases "go_pass full")
      case False
      with gates_retry_result [OF gates] have "\<not> go_infra full" by blast
      then have "\<not> is_infra_cause (gate_cause full)" by (rule gate_cause_charged)
      with rest False charge_follows resumed_follows_calm [OF su] show ?thesis by fastforce
    next
      case True
      from rest True have "bindc (integrate_under_infra_retry c L wt st a infra) (\<lambda>integration.
                case in_blocked integration of
                  Some evidence \<Rightarrow>
                    seqc (record_failure c (s_name st) wt dir (no_failure\<lparr>pf_gate_evidence := evidence\<rparr>) (a + 1)
                            CAUSE_INTEGRATE_CONFLICT)
                      (ret False)
                | None \<Rightarrow> seqc (record_integrated c st [(''commit'', JStr (in_commit integration))]) (ret True)) u = (r, t)"
        by simp
      then show ?thesis
      proof (cases rule: bindc_cases)
        case (1 e)
        from calm_trans [OF su keepsD [OF landing_calm [OF L] 1(1)]] 1(2) show ?thesis
          by (auto simp: life_calm resumed_life_def)
      next
        case (2 integration v)
        have sv: "calm s v" by (rule calm_trans [OF su keepsD [OF landing_calm [OF L] 2(1)]])
        have "\<not> is_infra_cause CAUSE_INTEGRATE_CONFLICT" by (simp add: is_infra_cause_def)
        note conflict = charge_follows [OF _ this]
        show ?thesis
          using 2(2) conflict integrated_follows
          by (intro resumed_follows_calm [OF sv]) (cases "in_blocked integration"; auto)
      qed
    qed
  qed
qed

lemma resumed_landed:
  assumes "resume_reviewed c L st wt dir events s = (Inr True, t)" "landing_ok L st" "verdicted (s_name st) s"
  shows "\<exists>attempt ordinal. green_at c st attempt ordinal t"
proof -
  let ?a = "unwrap_or 0 (bt_get (rc_prior_attempts c) (s_name st))"
  from assms(1) obtain full infra u integration v
    where gates: "gates_under_infra_retry c st dir ?a (infra_recorded (rc_probes c) events (s_name st) ?a) s = (Inr (full, infra), u)"
      and pass: "go_pass full"
      and merged: "integrate_under_infra_retry c L wt st ?a infra u = (Inr integration, v)"
      and rec: "\<exists>rest x. record_integrated c st rest v = (Inr x, t)"
    unfolding resume_reviewed_def Let_def
    by (auto simp: run_Inr split: if_splits option.splits prod.splits)
  have green: "green_at c st ?a (ir_ordinal infra) u" using gates_retry_result [OF gates] pass assms(3) by blast
  have ok: "verdicted (s_name st) u" using yieldsD [OF gates_retry_yields gates] assms(3) by (simp add: ctx_le_def)
  have "ctx_le (s_name st) u v" by (rule yieldsD [OF landing_yields [OF assms(2)] merged])
  moreover have "ctx_le (s_name st) v t" using rec yieldsD [OF record_integrated_yields] by blast
  ultimately have "ctx_le (s_name st) u t" by (rule ctx_le_trans)
  with green_at_mono [OF green ok] show ?thesis by blast
qed

section \<open>The course of a stage\<close>

definition stage_course :: "'w run_cfg \<Rightarrow> stage \<Rightarrow> resume_phase \<Rightarrow> 'w rctx \<Rightarrow> fact list \<Rightarrow> string + bool \<Rightarrow> bool" where
  "stage_course c st phase s fs r \<longleftrightarrow>
     (if phase = PhaseReviewed then resumed_life (s_name st) (unwrap_or 0 (bt_get (rc_prior_attempts c) (s_name st))) fs r
      else stage_life (unit_max_retries c st) (s_name st) (effective_attempts c (s_name st) s) fs r)"

lemma read_run_keeps: "read_run c s = (Inr es, t) \<Longrightarrow> calm s t \<and> (\<forall>u. effective_attempts c u t = effective_attempts c u s) \<and>
    ctx_le u s t"
  by (auto simp: read_run_def portc_Inr effective_attempts_def intro: calm_same_log ctx_le_world)

lemma still_recover: "keeps (still u) (recover_halted_spawn c st wt events attempts infra)"
  unfolding recover_halted_spawn_def commit_checkpoint_def halted_spawn_checkpoint_permitted_def Let_def
  by (auto intro!: still_intros split: option.split)

lemma getc_bind: "bindc (getc f) g s = g (f s) s"
  by (simp add: bindc_def getc_def)

lemma stage_run_cases:
  assumes "run_single_stage c L st wt dir phase s = (r, t)"
  obtains e where "r = Inl e" "calm s t"
  | events infra prior u where "calm s u" "ctx_le (s_name st) s u" "phase \<noteq> PhaseReviewed"
      "run_attempts c L st wt dir events (effective_attempts c (s_name st) s) infra prior (phase = PhaseImplemented) u = (r, t)"
  | events u where "calm s u" "ctx_le (s_name st) s u" "phase = PhaseReviewed" "resume_reviewed c L st wt dir events u = (r, t)"
  using assms unfolding run_single_stage_def
proof (cases rule: bindc_cases)
  case (1 e)
  have "calm s t" by (rule keepsD [OF still_calm [OF still_read_run] 1(1)])
  with 1 that(1) show thesis by blast
next
  case (2 events s1)
  note read = read_run_keeps [OF 2(1)]
  let ?n = "effective_attempts c (s_name st) s"
  have same: "effective_attempts c (s_name st) s1 = ?n" using read by blast
  from 2(2) have rest: "bindc (recover_halted_spawn c st wt events ?n (infra_recorded (rc_probes c) events (s_name st) ?n)) (\<lambda>halted.
      if phase = PhaseReviewed then resume_reviewed c L st wt dir events
      else run_attempts c L st wt dir events ?n (infra_recorded (rc_probes c) events (s_name st) ?n)
             (first_failure c st ?n halted) (phase = PhaseImplemented)) s1 = (r, t)"
    unfolding getc_bind Let_def same by simp
  then show thesis
  proof (cases rule: bindc_cases)
    case (1 e)
    have "calm s1 t" by (rule keepsD [OF still_calm [OF still_recover] 1(1)])
    with read 1 that(1) show thesis by (blast intro: calm_trans)
  next
    case (2 halted u)
    have "calm s1 u" "ctx_le (s_name st) s1 u"
      using keepsD [OF still_calm [OF still_recover] 2(1)] yieldsD [OF still_yields [OF still_recover] 2(1)] by auto
    with read have "calm s u" "ctx_le (s_name st) s u" by (blast intro: calm_trans ctx_le_trans)+
    with 2(2) that(2,3) show thesis by (cases "phase = PhaseReviewed") auto
  qed
qed

lemma stage_course_of:
  assumes "run_single_stage c L st wt dir phase s = (r, t)" and L: "landing_ok L st"
  shows "\<exists>fs. life_between s t fs \<and> stage_course c st phase s fs r"
  using assms(1)
proof (cases rule: stage_run_cases)
  case (1 e)
  then show ?thesis by (auto simp: stage_course_def resumed_life_def life_calm intro: stage_life.halted)
next
  case (2 events infra prior u)
  from attempts_follow_life [OF 2(4) L] 2(1,3) show ?thesis by (auto simp: stage_course_def intro: life_calm_then)
next
  case (3 events u)
  from resumed_follows [OF 3(4) L refl] 3(1,3) show ?thesis by (auto simp: stage_course_def intro: life_calm_then)
qed

section \<open>What a course says\<close>

lemma course_causes:
  assumes "stage_life mx unit a fs r"
  shows "\<forall>f \<in> set fs. fa_type f = TYPE_UNIT_FAILED \<longrightarrow> (\<exists>n cause. failed_fact unit n cause f \<and> \<not> is_infra_cause cause)"
  using assms by induction (auto simp: integrated_fact_def escalated_fact_def)

lemma failed_fact_type: "failed_fact unit n cause f \<Longrightarrow> fa_type f = TYPE_UNIT_FAILED"
  by (auto simp: failed_fact_def)

lemma failed_fact_attempts: "failed_fact unit n cause f \<Longrightarrow> value_get (fa_body f) ''attempts'' = Some (j_num n)"
  by (auto simp: failed_fact_def failed_body_def)

definition charged_attempts :: "fact list \<Rightarrow> json option list" where
  "charged_attempts fs = map (\<lambda>f. value_get (fa_body f) ''attempts'') (filter (\<lambda>f. fa_type f = TYPE_UNIT_FAILED) fs)"

text \<open>The counts a stage may charge, in order: those of the remediation bound, or the one of a unit
  resumed at its landing.\<close>

definition charge_schedule :: "'w run_cfg \<Rightarrow> stage \<Rightarrow> resume_phase \<Rightarrow> 'w rctx \<Rightarrow> u32 list" where
  "charge_schedule c st phase s =
     (if phase = PhaseReviewed then [unwrap_or 0 (bt_get (rc_prior_attempts c) (s_name st)) + 1]
      else failing_attempts (effective_attempts c (s_name st) s) (unit_max_retries c st))"

lemma failing_attempts_nonempty: "0 < length (failing_attempts a mx)"
  by (simp add: failing_attempts.simps [of a mx] Let_def)

lemma course_charges:
  assumes "stage_life mx unit a fs r"
  shows "\<exists>n. charged_attempts fs = map (\<lambda>k. Some (j_num k)) (take n (failing_attempts a mx)) \<and> n \<le> length (failing_attempts a mx) \<and>
     (TYPE_UNIT_ESCALATED \<in> fa_type ` set fs \<longleftrightarrow> n = length (failing_attempts a mx) \<and> (\<exists>b. r = Inr b)) \<and>
     (r = Inr True \<longrightarrow> n < length (failing_attempts a mx))"
  using assms
proof induction
  case (charged a cause f fs r)
  from charged.IH obtain n where IH: "charged_attempts fs = map (\<lambda>k. Some (j_num k)) (take n (failing_attempts (rem_attempts (remediate a mx)) mx))"
    "n \<le> length (failing_attempts (rem_attempts (remediate a mx)) mx)"
    "TYPE_UNIT_ESCALATED \<in> fa_type ` set fs \<longleftrightarrow> n = length (failing_attempts (rem_attempts (remediate a mx)) mx) \<and> (\<exists>b. r = Inr b)"
    "r = Inr True \<longrightarrow> n < length (failing_attempts (rem_attempts (remediate a mx)) mx)" by (elim exE conjE)
  have "failing_attempts a mx = rem_attempts (remediate a mx) # failing_attempts (rem_attempts (remediate a mx)) mx"
    using charged(3) by (simp add: failing_attempts.simps [of a mx] Let_def)
  then have len: "length (failing_attempts a mx) = Suc (length (failing_attempts (rem_attempts (remediate a mx)) mx))"
    and take: "take (Suc n) (failing_attempts a mx) =
      rem_attempts (remediate a mx) # take n (failing_attempts (rem_attempts (remediate a mx)) mx)" by simp_all
  have f: "charged_attempts (f # fs) = Some (j_num (rem_attempts (remediate a mx))) # charged_attempts fs"
    "TYPE_UNIT_ESCALATED \<in> fa_type ` set (f # fs) \<longleftrightarrow> TYPE_UNIT_ESCALATED \<in> fa_type ` set fs"
    using failed_fact_type [OF charged(1)] failed_fact_attempts [OF charged(1)] by (simp_all add: charged_attempts_def)
  show ?case unfolding f len by (intro exI [of _ "Suc n"]) (simp only: take list.map IH(1-3) Suc_le_mono nat.inject Suc_less_eq simp_thms, rule IH(4))
next
  case (escalated a cause f g)
  have "failing_attempts a mx = [rem_attempts (remediate a mx)]"
    using escalated(3) by (simp add: failing_attempts.simps [of a mx] Let_def)
  with failed_fact_type [OF escalated(1)] failed_fact_attempts [OF escalated(1)] escalated(4) show ?case
    by (intro exI [of _ 1]) (auto simp: charged_attempts_def escalated_fact_def)
next
  case (halted_escalating a cause f e)
  have "failing_attempts a mx = [rem_attempts (remediate a mx)]"
    using halted_escalating(3) by (simp add: failing_attempts.simps [of a mx] Let_def)
  with failed_fact_type [OF halted_escalating(1)] failed_fact_attempts [OF halted_escalating(1)] show ?case
    by (intro exI [of _ 1]) (simp add: charged_attempts_def)
next
  case (landed f a)
  with failing_attempts_nonempty [of a mx] show ?case
    by (intro exI [of _ 0]) (auto simp: charged_attempts_def integrated_fact_def)
next
  case (stopped a)
  with failing_attempts_nonempty [of a mx] show ?case by (intro exI [of _ 0]) (auto simp: charged_attempts_def)
qed (intro exI [of _ 0], simp add: charged_attempts_def)

lemma resumed_charges:
  assumes "resumed_life unit a fs r"
  shows "\<exists>n \<le> 1. charged_attempts fs = map (\<lambda>k. Some (j_num k)) (take n [a + 1]) \<and>
     TYPE_UNIT_ESCALATED \<notin> fa_type ` set fs \<and> (r = Inr True \<longrightarrow> n = 0)"
proof -
  consider "fs = []" | f where "fs = [f]" "integrated_fact unit f" | f cause where "fs = [f]" "failed_fact unit (a + 1) cause f" "r = Inr False"
    using assms by (auto simp: resumed_life_def)
  then show ?thesis
  proof cases
    case (3 f cause)
    with failed_fact_type [OF 3(2)] failed_fact_attempts [OF 3(2)] show ?thesis
      by (intro exI [of _ 1]) (simp add: charged_attempts_def)
  qed (intro exI [of _ 0], auto simp: charged_attempts_def integrated_fact_def)
qed

section \<open>What a stage guarantees\<close>

text \<open>
  C3. A stage follows the abstract course of its phase: the lifecycle events it writes of its own are, in
  order, charged failures up to the remediation bound and then the landing, the escalation or neither,
  and its answer is the course's; a unit resumed at its landing lands, is charged once or stops.
\<close>

theorem stage_follows_its_course:
  assumes "run_single_stage c L st wt dir phase s = (r, t)" and "landing_ok L st"
  shows "\<exists>fs. life_between s t fs \<and> stage_course c st phase s fs r"
  using assms by (rule stage_course_of)

text \<open>
  C4. An infrastructure failure is never charged to the unit: every \<open>UnitFailed\<close> a stage writes of its own
  carries the cause of a verdict on the work, in every phase and on every way the stage ends.
\<close>

theorem infra_is_never_charged:
  assumes "run_single_stage c L st wt dir phase s = (r, t)" and "landing_ok L st"
  shows "\<exists>new. rx_log t = rx_log s @ new \<and>
     (\<forall>f \<in> set new. own_life f \<and> fa_type f = TYPE_UNIT_FAILED \<longrightarrow>
        (\<exists>cause. value_get (fa_body f) ''cause'' = Some (JStr cause) \<and> \<not> is_infra_cause cause))"
proof -
  have charged: "\<exists>cause. value_get (fa_body f) ''cause'' = Some (JStr cause) \<and> \<not> is_infra_cause cause"
    if "failed_fact unit n cause f" "\<not> is_infra_cause cause" for unit n cause f
    using that by (auto simp: failed_fact_def failed_body_def)
  from stage_course_of [OF assms] obtain fs new
    where new: "rx_log t = rx_log s @ new" and fs: "filter own_life new = fs" and course: "stage_course c st phase s fs r"
    unfolding life_between_def by blast
  have "\<forall>f \<in> set fs. fa_type f = TYPE_UNIT_FAILED \<longrightarrow> (\<exists>unit n cause. failed_fact unit n cause f \<and> \<not> is_infra_cause cause)"
  proof (cases "phase = PhaseReviewed")
    case True
    with course show ?thesis by (auto simp: stage_course_def resumed_life_def integrated_fact_def) blast
  next
    case False
    with course course_causes show ?thesis by (fastforce simp: stage_course_def)
  qed
  with new fs charged show ?thesis by (intro exI [of _ new]) auto
qed

text \<open>
  C5. A stage charges the attempts its bound names, each once and in order: the counts its \<open>UnitFailed\<close>
  events carry are the first of the unit's schedule - \<open>failing_attempts\<close> from what is charged already up
  to the bound, or one more than recorded for a unit resumed at its landing. It writes an escalation
  exactly when the stage answers with the whole schedule of an unresumed landing charged, and it never
  lands with the whole schedule charged.
\<close>

theorem attempts_are_charged_once:
  assumes "run_single_stage c L st wt dir phase s = (r, t)" and "landing_ok L st"
  shows "\<exists>fs n. life_between s t fs \<and>
     (let counts = charge_schedule c st phase s in
        charged_attempts fs = map (\<lambda>k. Some (j_num k)) (take n counts) \<and> n \<le> length counts \<and>
        (TYPE_UNIT_ESCALATED \<in> fa_type ` set fs \<longleftrightarrow> phase \<noteq> PhaseReviewed \<and> n = length counts \<and> (\<exists>b. r = Inr b)) \<and>
        (r = Inr True \<longrightarrow> n < length counts))"
proof -
  from stage_course_of [OF assms] obtain fs where fs: "life_between s t fs" and course: "stage_course c st phase s fs r" by blast
  show ?thesis
  proof (cases "phase = PhaseReviewed")
    case True
    with course have "resumed_life (s_name st) (unwrap_or 0 (bt_get (rc_prior_attempts c) (s_name st))) fs r"
      by (simp add: stage_course_def)
    from resumed_charges [OF this] fs True show ?thesis by (fastforce simp: charge_schedule_def Let_def)
  next
    case False
    with course have life: "stage_life (unit_max_retries c st) (s_name st) (effective_attempts c (s_name st) s) fs r"
      by (simp add: stage_course_def)
    have sched: "failing_attempts (effective_attempts c (s_name st) s) (unit_max_retries c st) = charge_schedule c st phase s"
      using False by (simp add: charge_schedule_def)
    from course_charges [OF life, unfolded sched] obtain n where "charged_attempts fs = map (\<lambda>k. Some (j_num k)) (take n (charge_schedule c st phase s))"
        "n \<le> length (charge_schedule c st phase s)"
        "TYPE_UNIT_ESCALATED \<in> fa_type ` set fs \<longleftrightarrow> n = length (charge_schedule c st phase s) \<and> (\<exists>b. r = Inr b)"
        "r = Inr True \<longrightarrow> n < length (charge_schedule c st phase s)"
      by (elim exE conjE)
    with fs False show ?thesis unfolding Let_def by (intro exI [of _ fs] exI [of _ n]) simp
  qed
qed

text \<open>
  C2. A unit that is no plan lands only on a tree its full gate library passed: some attempt of it has a
  recorded green verdict for every inline gate of the stage, and unless the unit was reviewed before the
  run resumed it, a panel that names its adjudicator has that attempt's review recorded.
\<close>

theorem landed_unit_stands:
  assumes "run_single_stage c L st wt dir phase s = (Inr True, t)" and "landing_ok L st"
    and "\<not> is_producer st" and "verdicted (s_name st) s"
  shows "\<exists>attempt ordinal. green_at c st attempt ordinal t \<and>
     (phase \<noteq> PhaseReviewed \<and> always_judged c st \<longrightarrow> reviewed_key (s_name st) attempt \<in> rx_keys t)"
  using assms(1)
proof (cases rule: stage_run_cases)
  case (2 events infra prior u)
  have "verdicted (s_name st) u" using 2(2) assms(4) by (simp add: ctx_le_def)
  from attempts_landed [OF 2(4) assms(3,2) this] show ?thesis unfolding landing_stands_def by blast
next
  case (3 events u)
  have "verdicted (s_name st) u" using 3(2) assms(4) by (simp add: ctx_le_def)
  from resumed_landed [OF 3(4) assms(2) this] 3(3) show ?thesis by blast
qed simp

section \<open>A stage to evaluate them on\<close>

lemma demo_landing_ok:
  "landing_ok (conductor_landing demo_run) st"
  by (rule conductor_landing_ok) (simp_all add: agents_named_def store_unmarked_def demo_run_def demo_ports_def bt_get_def)

text \<open>A judge whose every answer is its approving verdict line, and a stage it rules on.\<close>

definition demo_judged_run :: "nat run_cfg" where
  "demo_judged_run =
     demo_run\<lparr>rc_probes := (rc_probes demo_run)\<lparr>pr_codec := demo_codec\<lparr>de_value := demo_de (\<lambda>b. JObj [(''verdict'', JStr b)])\<rparr>\<rparr>,
              rc_agents := [(''judge'', \<lparr>ag_id = ''judge'', ag_model = [], ag_model_ladder = [], ag_fallback_model = [],
                                        ag_tools = [], ag_isolation = ''none'', ag_recurse = False, ag_max_wall_clock = None,
                                        ag_prompt = []\<rparr>)],
              rc_ports := demo_ports\<lparr>pt_changed_since_base := (\<lambda>_ w. (Inr [''f''], w)), pt_head_sha := (\<lambda>_ _. []), pt_spawn := (\<lambda>_ _ w. ((Inr \<lparr>ar_output = ''approve'', ar_resolved_model = [],
                                        ar_session_id = [], ar_resumed_from = []\<rparr>, []), w))\<rparr>\<rparr>"

lemma demo_judged_landing_ok: "landing_ok (conductor_landing demo_judged_run) st"
  by (rule conductor_landing_ok)
    (auto simp: agents_named_def store_unmarked_def demo_judged_run_def demo_ports_def bt_get_def split: if_splits)

definition demo_judged :: stage where
  "demo_judged = (demo_gated [''build''])\<lparr>s_review := ReviewPanel [] [] ''judge'' None None\<rparr>"

definition demo_red_stage :: stage where
  "demo_red_stage = (demo_gated [''lint''])\<lparr>s_max_retries := 1\<rparr>"

definition demo_red_end :: "(string + bool) \<times> nat rctx" where
  "demo_red_end = run_single_stage demo_run (conductor_landing demo_run) demo_red_stage None [] PhaseFresh demo_ctx"

definition demo_landing_end :: "(string + bool) \<times> nat rctx" where
  "demo_landing_end = run_single_stage demo_judged_run (conductor_landing demo_judged_run) demo_judged (Some ''/s/rigger-wt-u1'') ''/s/rigger-wt-u1'' PhaseFresh demo_ctx"

definition lands_commit :: "string \<Rightarrow> fact \<Rightarrow> bool" where
  "lands_commit commit f \<longleftrightarrow> fa_type f = TYPE_UNIT_INTEGRATED \<and> value_get (fa_body f) ''commit'' = Some (JStr commit)"

lemma demo_lands: "answered demo_landing_end (\<lambda>b t. b \<and> list_ex (lands_commit ''c2'') (rx_log t))"
  by code_simp

lemma demo_escalates:
  "answered demo_red_end (\<lambda>b t. \<not> b \<and> map fa_type (filter own_life (rx_log t)) = [TYPE_UNIT_FAILED, TYPE_UNIT_ESCALATED])"
  by code_simp

lemma demo_red_answer:
  obtains t where "demo_red_end = (Inr False, t)"
    "map fa_type (filter own_life (rx_log t)) = [TYPE_UNIT_FAILED, TYPE_UNIT_ESCALATED]"
  using demo_escalates by (rule answeredE) auto

theorem stage_follows_its_course_witness:
  "\<exists>t fs. demo_red_end = (Inr False, t) \<and> life_between demo_ctx t fs \<and>
     stage_course demo_run demo_red_stage PhaseFresh demo_ctx fs (Inr False) \<and>
     map fa_type (filter own_life (rx_log t)) = [TYPE_UNIT_FAILED, TYPE_UNIT_ESCALATED]"
proof -
  obtain t where run: "demo_red_end = (Inr False, t)"
    and log: "map fa_type (filter own_life (rx_log t)) = [TYPE_UNIT_FAILED, TYPE_UNIT_ESCALATED]" by (rule demo_red_answer)
  from stage_follows_its_course [OF run [unfolded demo_red_end_def] demo_landing_ok] obtain fs
    where "life_between demo_ctx t fs" "stage_course demo_run demo_red_stage PhaseFresh demo_ctx fs (Inr False)" by (elim exE conjE)
  with run log show ?thesis by (intro exI conjI)
qed

theorem infra_is_never_charged_witness:
  "\<exists>t f cause. demo_red_end = (Inr False, t) \<and> f \<in> set (rx_log t) \<and> fa_type f = TYPE_UNIT_FAILED \<and>
     value_get (fa_body f) ''cause'' = Some (JStr cause) \<and> \<not> is_infra_cause cause"
proof -
  obtain t where run: "demo_red_end = (Inr False, t)"
    and log: "map fa_type (filter own_life (rx_log t)) = [TYPE_UNIT_FAILED, TYPE_UNIT_ESCALATED]" by (rule demo_red_answer)
  from log obtain f fs where fs: "filter own_life (rx_log t) = f # fs" and type: "fa_type f = TYPE_UNIT_FAILED"
    by (cases "filter own_life (rx_log t)") simp_all
  then have f: "f \<in> set (rx_log t)" "own_life f" by (auto simp: filter_eq_Cons_iff)
  from infra_is_never_charged [OF run [unfolded demo_red_end_def] demo_landing_ok] obtain new
    where "rx_log t = rx_log demo_ctx @ new"
      and new: "\<forall>f \<in> set new. own_life f \<and> fa_type f = TYPE_UNIT_FAILED \<longrightarrow>
        (\<exists>cause. value_get (fa_body f) ''cause'' = Some (JStr cause) \<and> \<not> is_infra_cause cause)" by (elim exE conjE)
  then have "f \<in> set new" using f(1) by (simp add: demo_ctx_def)
  with new f(2) type obtain cause where "value_get (fa_body f) ''cause'' = Some (JStr cause)" "\<not> is_infra_cause cause" by blast
  with run f(1) type show ?thesis by (intro exI conjI)
qed

theorem attempts_are_charged_once_witness:
  "\<exists>t fs. demo_red_end = (Inr False, t) \<and> life_between demo_ctx t fs \<and> charged_attempts fs = [Some (j_num 1)]"
proof -
  obtain t where run: "demo_red_end = (Inr False, t)"
    and log: "map fa_type (filter own_life (rx_log t)) = [TYPE_UNIT_FAILED, TYPE_UNIT_ESCALATED]" by (rule demo_red_answer)
  have bounds: "effective_attempts demo_run (s_name demo_red_stage) demo_ctx = 0" "unit_max_retries demo_run demo_red_stage = 1"
    by code_simp+
  have counts: "failing_attempts 0 1 = [1]" by code_simp
  have sched: "charge_schedule demo_run demo_red_stage PhaseFresh demo_ctx = [1]"
    by (simp add: charge_schedule_def bounds counts)
  from attempts_are_charged_once [OF run [unfolded demo_red_end_def] demo_landing_ok, unfolded sched Let_def] obtain fs n
    where fs: "life_between demo_ctx t fs"
      and n: "charged_attempts fs = map (\<lambda>k. Some (j_num k)) (take n [1])"
        "TYPE_UNIT_ESCALATED \<in> fa_type ` set fs \<longleftrightarrow>
           PhaseFresh \<noteq> PhaseReviewed \<and> n = length [1 :: u32] \<and> (\<exists>b. (Inr False :: string + bool) = Inr b)" by (elim exE conjE)
  have "fs = filter own_life (rx_log t)" using fs by (auto simp: life_between_def demo_ctx_def)
  then have "fa_type ` set fs = set [TYPE_UNIT_FAILED, TYPE_UNIT_ESCALATED]" using log by (metis set_map)
  then have "n = 1" using n(2) by simp
  with n(1) have "charged_attempts fs = [Some (j_num 1)]" by simp
  with run fs show ?thesis by (intro exI conjI)
qed

theorem landed_unit_stands_witness:
  "\<exists>t attempt ordinal. demo_landing_end = (Inr True, t) \<and> green_at demo_judged_run demo_judged attempt ordinal t \<and>
     inline_gates demo_judged_run demo_judged = [''build''] \<and> reviewed_key (s_name demo_judged) attempt \<in> rx_keys t \<and>
     list_ex (lands_commit ''c2'') (rx_log t)"
proof -
  from demo_lands obtain t where run: "demo_landing_end = (Inr True, t)" and landed: "list_ex (lands_commit ''c2'') (rx_log t)"
    by (rule answeredE) simp
  have producer: "\<not> is_producer demo_judged" by code_simp
  have judged: "always_judged demo_judged_run demo_judged" by code_simp
  have gates: "inline_gates demo_judged_run demo_judged = [''build'']" by code_simp
  from landed_unit_stands [OF run [unfolded demo_landing_end_def] demo_judged_landing_ok producer demo_verdicted] obtain attempt ordinal
    where "green_at demo_judged_run demo_judged attempt ordinal t"
      "PhaseFresh \<noteq> PhaseReviewed \<and> always_judged demo_judged_run demo_judged \<longrightarrow> reviewed_key (s_name demo_judged) attempt \<in> rx_keys t"
    by (elim exE conjE)
  with judged resume_phase.distinct(3) run gates landed show ?thesis by (intro exI conjI) simp_all
qed

end
