(* ===== verification/Landing_Runs.thy ===== *)
theory Landing_Runs
  imports Landing_Frame
begin

text \<open>
  What a landing guarantees (\<open>integrate_and_emit\<close>): the commit it answers is the attempt's recorded landing
  and passed the post-merge gates, and without regeneration rules its merge loop ends within the landing
  passes and conflict rounds the conductor grants.
\<close>

section \<open>Computations that leave the landing maps\<close>

definition same_maps :: "'w rctx \<Rightarrow> 'w rctx \<Rightarrow> bool" where
  "same_maps s t \<longleftrightarrow>
     rx_landed t = rx_landed s \<and> rx_pending_landing t = rx_pending_landing s \<and> rx_regenerate_pending t = rx_regenerate_pending s"

interpretation maps: state_order same_maps
  by unfold_locales (simp_all add: same_maps_def)

named_theorems maps_intros "the computations that leave the landing maps"

lemmas [maps_intros] = maps.keeps_intros

lemma maps_portc [maps_intros]: "keeps same_maps (portc p)"
  by (auto intro!: keepsI simp: portc_def same_maps_def split: prod.splits)

lemma maps_setc [maps_intros]:
  "keeps same_maps (setc (\<lambda>s. s\<lparr>rx_world := f s\<rparr>))" "keeps same_maps (setc (\<lambda>s. s\<lparr>rx_keys := f1 s\<rparr>))"
  "keeps same_maps (setc (\<lambda>s. s\<lparr>rx_log := f2 s\<rparr>))" "keeps same_maps (setc (\<lambda>s. s\<lparr>rx_spawns := f3 s\<rparr>))"
  "keeps same_maps (setc (\<lambda>s. s\<lparr>rx_budget_broke := b\<rparr>))"
  by (auto intro!: maps.keeps_setc simp: same_maps_def)

lemma maps_reads [maps_intros]: "keeps same_maps (lookc f)" "keeps same_maps (read_run c)" "keeps same_maps (liftc r)"
  unfolding lookc_def read_run_def liftc_def by (auto intro!: maps_intros split: sum.split)

lemma maps_append [maps_intros]: "keeps same_maps (append_and_fold c f)"
  unfolding append_and_fold_def by (intro maps_intros)

lemma maps_emit [maps_intros]: "keeps same_maps (emit c ty body)"
  unfolding emit_def emit_meta_def by (intro maps_intros)

lemma maps_keyed [maps_intros]: "keeps same_maps (emit_keyed c k ty body)"
  unfolding emit_keyed_def emit_keyed_meta_def keyed_event_def by (auto intro!: maps_intros split: option.split)

lemma maps_row [maps_intros]: "keeps same_maps (record_integrate_row c key status unit attempt evidence)"
  unfolding record_integrate_row_def by (intro maps_intros)

lemma maps_lesson [maps_intros]: "keeps same_maps (emit_lesson c wt unit summary)"
  unfolding emit_lesson_def record_lesson_def Let_def by (auto intro!: maps_intros split: option.split)

lemma maps_spawn [maps_intros]: "keeps same_maps (spawn_agent c opts prompt stamps)"
  by (auto intro!: keepsI simp: spawn_agent_def same_maps_def split: prod.splits)

lemma maps_resolver [maps_intros]: "keeps same_maps (spawn_conflict_resolution_implementer c st dir attempt retry source refused)"
  unfolding spawn_conflict_resolution_implementer_def reserve_spawn_def agent_of_def build_env_def resolver_answer_def Let_def
  by (auto intro!: maps_intros split: option.split sum.split)

lemma maps_rerun [maps_intros]: "(\<And>n note. keeps same_maps (spawn n note)) \<Longrightarrow> keeps same_maps (rerun_once_on_refusal n limit spawn)"
  unfolding rerun_once_on_refusal_def by (auto intro!: maps_intros split: sum.split)

lemma maps_run_command [maps_intros]: "keeps same_maps (run_command c g ge)"
  by (auto intro!: keepsI simp: run_command_def same_maps_def split: prod.splits)

lemma maps_regenerate [maps_intros]: "keeps same_maps (regenerate_conflicted_paths c dir unit paths)"
  unfolding regenerate_conflicted_paths_def run_regenerate_command_def build_env_def by (auto intro!: maps_intros)

lemma maps_ensure [maps_intros]: "keeps same_maps (ensure_present c wt)"
  unfolding ensure_present_def by (auto intro!: maps_intros split: option.split)

lemma maps_refused [maps_intros]: "keeps same_maps (land_refused c unit dir paths)"
  unfolding land_refused_def by (intro maps_intros)

lemma maps_gate_verdict [maps_intros]: "keeps same_maps (emit_gate_verdict c key unit gid pass flaky evidence digest hit)"
  unfolding emit_gate_verdict_def claim_key_def
  by (auto intro!: maps_intros maps.keeps_setc simp: same_maps_def)

lemma maps_gates [maps_intros]: "keeps same_maps (run_gates_at c st dir attempt ordinal selection)"
proof -
  have "keeps same_maps (track_gate c gid kind r a)" for gid kind r a
    by (auto intro!: keepsI simp: track_gate_def same_maps_def split: prod.splits)
  then have "keeps same_maps (feed_ratchet c gid kind r a)" for gid kind r a
    unfolding feed_ratchet_def Let_def by (auto intro!: maps_intros split: prod.split)
  moreover have "keeps same_maps (emit_gate_skip c unit gid a inputs radius)" for unit gid a inputs radius
    unfolding emit_gate_skip_def claim_key_def Let_def by (auto intro!: maps_intros)
  ultimately show ?thesis
    unfolding run_gates_at_def gate_build_env_def build_env_def run_base_env_def run_inline_gate_def run_fresh_gate_def Let_def
    by (auto intro!: maps_intros split: option.split prod.split)
qed


lemma maps_index [maps_intros]: "keeps same_maps (index_landed c st dir commit since)"
proof -
  have "keeps same_maps (ingest_files c files)" for files
    by (auto intro!: keepsI simp: ingest_files_def same_maps_def split: prod.splits)
  then show ?thesis unfolding index_landed_def by (auto intro!: maps_intros)
qed

section \<open>The recorded landing\<close>

text \<open>The attempt's recorded landing is this commit.\<close>

definition landing_recorded :: "string \<Rightarrow> u32 \<Rightarrow> string \<Rightarrow> 'w rctx \<Rightarrow> bool" where
  "landing_recorded unit attempt commit t \<longleftrightarrow>
     (\<exists>pass pre. bt_get (rx_landed t) (conflict_regenerate_key unit attempt) = Some (pass, commit, pre))"



lemma refused_fails: "land_refused c unit dir paths s \<noteq> (Inr x, t)"
  by (auto simp: land_refused_def run_Inr fail_def)







section \<open>The post-merge gates\<close>






section \<open>What a landing stands on\<close>






section \<open>The passes of a merge\<close>

text \<open>The passes a merge takes, counted.\<close>

inductive merge_course ::
  "'w run_cfg \<Rightarrow> stage \<Rightarrow> string \<Rightarrow> u32 \<Rightarrow> string \<Rightarrow> merge_turn \<Rightarrow> u32 \<Rightarrow> 'w rctx \<Rightarrow> nat \<Rightarrow> string + merge_end \<Rightarrow> 'w rctx \<Rightarrow> bool"
  for c :: "'w run_cfg" and st :: stage and dir :: string and attempt :: u32 and head :: string where
  refused: "merge_pass c st dir attempt head turn (pass + 1) s = (Inl e, t) \<Longrightarrow>
    merge_course c st dir attempt head turn pass s 1 (Inl e) t"
| ended: "merge_pass c st dir attempt head turn (pass + 1) s = (Inr (PassDone e), t) \<Longrightarrow>
    merge_course c st dir attempt head turn pass s 1 (Inr e) t"
| again: "merge_pass c st dir attempt head turn (pass + 1) s = (Inr (PassAgain turn'), u) \<Longrightarrow>
    merge_course c st dir attempt head turn' (pass + 1) u n r t \<Longrightarrow>
    merge_course c st dir attempt head turn pass s (Suc n) r t"

text \<open>The passes a turn may still ask for: those that may find the tip moved, and the conflict rounds left.\<close>

definition passes_left :: "merge_turn \<Rightarrow> u32 \<Rightarrow> nat" where
  "passes_left turn pass = (7 - unat pass) + (3 - unat (tn_retry turn))"

text \<open>A conflict git reports names a path.\<close>

definition conflicts_named :: "'w run_cfg \<Rightarrow> bool" where
  "conflicts_named c \<longleftrightarrow> (\<forall>dir msg w ps w'. lp_merge (rc_landing c) dir msg w = (Inr (MergeConflict ps), w') \<longrightarrow> ps \<noteq> [])"

lemma no_rule: "rc_regenerate c = [] \<Longrightarrow> regenerate_rule_for c p = None"
  by (simp add: regenerate_rule_for_def)

lemma same_pending: "same_maps s t \<Longrightarrow> regenerate_pending_for unit attempt t = regenerate_pending_for unit attempt s"
  by (simp add: same_maps_def regenerate_pending_for_def)

lemma landed_pending:
  "record_landed c unit attempt pass sha pre s = (Inr x, t) \<Longrightarrow> regenerate_pending_for unit attempt t = regenerate_pending_for unit attempt s"
  by (auto simp: record_landed_def run_Inr setc_def regenerate_pending_for_def dest!: keepsD [OF maps_row])
    (simp_all add: same_maps_def)

lemma rerun_round:
  "rerun_once_on_refusal n limit (\<lambda>round refused. seqc (m round refused) (ret round)) s = (Inr r, t) \<Longrightarrow>
   r = n \<or> r = n + 1 \<and> n < limit"
  by (auto simp: rerun_once_on_refusal_def run_Inr resultc_def seqc_def bindc_def ret_def fail_def
      split: prod.splits sum.splits if_splits)

lemma land_progress:
  assumes "land_answer c st dir attempt turn pass pre commit out s = (Inr (PassAgain turn'), t)"
    and "regenerate_pending_for (s_name st) attempt s = []"
  shows "turn' = turn \<and> pass < TIP_MOVED_PASS_BOUND \<and> regenerate_pending_for (s_name st) attempt t = []"
proof (cases out)
  case LandTipMoved
  with assms show ?thesis
    by (auto simp: land_answer_def record_tip_moved_def run_Inr fail_def not_le split: if_splits
        dest!: keepsD [OF maps_row] same_pending [of _ _ "s_name st" attempt])
next
  case LandDone
  with assms show ?thesis by (auto simp: land_answer_def Let_def run_Inr dest!: landed_pending split: if_splits)
next
  case (LandBlocked paths)
  with assms show ?thesis by (simp add: land_answer_def refused_fails)
qed

lemma ready_progress:
  assumes "ready_pass c st dir attempt turn pass pre commit s = (Inr (PassAgain turn'), t)"
    and owed: "regenerate_pending_for (s_name st) attempt s = []"
  shows "turn' = turn \<and> pass < TIP_MOVED_PASS_BOUND \<and> regenerate_pending_for (s_name st) attempt t = []"
proof -
  from assms(1) have "commit \<noteq> []" by (auto simp: ready_pass_def run_Inr split: if_splits)
  with assms(1) obtain x u y v out w where su: "record_merge_outcome c (s_name st) attempt pass [] s = (Inr x, u)"
    and uv: "record_landing_intent c (s_name st) attempt pass commit pre u = (Inr y, v)"
    and vw: "portc (lp_land (rc_landing c) dir) v = (Inr out, w)"
    and rest: "land_answer c st dir attempt turn pass pre commit out w = (Inr (PassAgain turn'), t)"
    by (auto simp: ready_pass_def bindc_Inr seqc_Inr)
  have "same_maps s w"
    using keepsD [OF maps_row su [unfolded record_merge_outcome_def]] keepsD [OF maps_row uv [unfolded record_landing_intent_def]]
      keepsD [OF maps_portc vw] by (blast intro: maps.trans)
  with owed have "regenerate_pending_for (s_name st) attempt w = []" by (simp add: same_pending)
  with rest show ?thesis by (rule land_progress)
qed

lemma mixed_progress:
  assumes run: "mixed_pass c st dir attempt head turn conflicting [] source s = (Inr (PassAgain turn'), t)"
    and retry: "unat (tn_retry turn) \<le> 3"
  shows "unat (tn_retry turn) < unat (tn_retry turn') \<and> unat (tn_retry turn') \<le> 3 \<and> same_maps s t"
proof -
  let ?retry = "tn_retry turn + 1"
  from retry have "tn_retry turn < 4" by (simp add: word_less_nat_alt)
  then have "tn_retry turn \<noteq> - 1" by (rule word_less_max)
  then have bump: "unat ?retry = Suc (unat (tn_retry turn))" by (rule unat_plus_one)
  from run have le: "\<not> CONFLICT_RESOLVE_BOUND < ?retry" by (auto simp: mixed_pass_def Let_def run_Inr split: if_splits)
  with run obtain x u round v y where su: "record_placeholder_staged c (s_name st) attempt ?retry [] s = (Inr x, u)"
    and uv: "rerun_once_on_refusal ?retry CONFLICT_RESOLVE_BOUND (\<lambda>round refused.
        seqc (spawn_conflict_resolution_implementer c st dir attempt round source refused) (ret round)) u = (Inr round, v)"
    and vt: "ensure_present c (Some dir) v = (Inr y, t)"
    and turn': "turn' = turn\<lparr>tn_retry := round, tn_staged := ?retry\<rparr>"
    by (auto simp: mixed_pass_def Let_def run_Inr record_regenerate_pending_def)
  have "keeps same_maps (rerun_once_on_refusal ?retry CONFLICT_RESOLVE_BOUND (\<lambda>round refused.
        seqc (spawn_conflict_resolution_implementer c st dir attempt round source refused) (ret round)))"
    by (intro maps_intros)
  with su uv vt have maps: "same_maps s t"
    unfolding record_placeholder_staged_def by (blast intro: maps.trans dest: keepsD keepsD [OF maps_row] keepsD [OF maps_ensure])
  from rerun_round [OF uv] show ?thesis
  proof
    assume "round = ?retry"
    with bump le maps show ?thesis by (simp add: turn' word_less_nat_alt)
  next
    assume r: "round = ?retry + 1 \<and> ?retry < CONFLICT_RESOLVE_BOUND"
    then have "?retry \<noteq> - 1" by (auto dest: word_less_max)
    then have "unat (?retry + 1) = Suc (unat ?retry)" by (rule unat_plus_one)
    with r bump maps show ?thesis by (simp add: turn' word_less_nat_alt)
  qed
qed

text \<open>A pass that asks for another spends a landing pass or a conflict round.\<close>

lemma pass_progress:
  assumes rules: "rc_regenerate c = []" and named: "conflicts_named c"
    and run: "merge_pass c st dir attempt head turn pass s = (Inr (PassAgain turn'), t)"
    and owed: "regenerate_pending_for (s_name st) attempt s = []" and retry: "unat (tn_retry turn) \<le> 3"
  shows "regenerate_pending_for (s_name st) attempt t = [] \<and> unat (tn_retry turn') \<le> 3 \<and>
     (turn' = turn \<and> pass < TIP_MOVED_PASS_BOUND \<or> unat (tn_retry turn) < unat (tn_retry turn'))"
proof -
  from run obtain x pre u out v where su: "record_merge_attempt c (s_name st) attempt pass pre s = (Inr x, u)"
    and uv: "portc (lp_merge (rc_landing c) dir (''rigger: integrate '' @ s_name st)) u = (Inr out, v)"
    and rest: "merge_answer c st dir attempt head turn pass pre out v = (Inr (PassAgain turn'), t)"
    by (auto simp: merge_pass_def bindc_Inr seqc_Inr lookc_def getc_Inr)
  have "same_maps s v"
    using keepsD [OF maps_row su [unfolded record_merge_attempt_def]] keepsD [OF maps_portc uv] by (rule maps.trans)
  with owed have owed_v: "regenerate_pending_for (s_name st) attempt v = []" by (simp add: same_pending)
  show ?thesis
  proof (cases out)
    case (MergeReady commit)
    with rest ready_progress [of c st dir attempt turn pass pre commit v turn' t] owed_v retry show ?thesis
      by (simp add: merge_answer_def)
  next
    case (MergeConflict conflicting)
    with uv obtain w where "lp_merge (rc_landing c) dir (''rigger: integrate '' @ s_name st) (rx_world u) = (Inr (MergeConflict conflicting), w)"
      by (auto simp: portc_Inr)
    with named have ps: "conflicting \<noteq> []" unfolding conflicts_named_def by blast
    from rest MergeConflict ps obtain y w where vw: "record_merge_outcome c (s_name st) attempt pass conflicting v = (Inr y, w)"
      and mixed: "mixed_pass c st dir attempt head turn conflicting [] conflicting w = (Inr (PassAgain turn'), t)"
      by (auto simp: merge_answer_def seqc_Inr no_rule [OF rules] Let_def)
    have "same_maps v w" by (rule keepsD [OF maps_row vw [unfolded record_merge_outcome_def]])
    with mixed_progress [OF mixed retry] have "same_maps v t" by (blast intro: maps.trans)
    with mixed_progress [OF mixed retry] owed_v show ?thesis by (simp add: same_pending)
  qed
qed

lemma passes_shrink:
  assumes "turn' = turn \<and> pass + 1 < TIP_MOVED_PASS_BOUND \<or> unat (tn_retry turn) < unat (tn_retry turn')"
    and "unat (tn_retry turn') \<le> 3" and "pass \<noteq> - 1"
  shows "passes_left turn' (pass + 1) < passes_left turn pass"
proof -
  from assms(3) have "unat (pass + 1) = Suc (unat pass)" by (rule unat_plus_one)
  with assms(1,2) show ?thesis by (auto simp: passes_left_def word_less_nat_alt)
qed

text \<open>Few passes never reach the counter's end.\<close>

lemma merge_follows_course:
  assumes "rc_regenerate c = []" "conflicts_named c" "merge_passes c st dir attempt head turn pass s = (r, t)"
    and "regenerate_pending_for (s_name st) attempt s = []" "unat (tn_retry turn) \<le> 3" "unat pass + passes_left turn pass < 2 ^ 32 - 1"
  shows "\<exists>n \<le> Suc (passes_left turn pass). merge_course c st dir attempt head turn pass s n r t"
  using assms(3-)
proof (induction "passes_left turn pass" arbitrary: turn pass s rule: less_induct)
  case less
  have "pass < 4294967295" using less.prems(4) by (simp add: word_less_nat_alt)
  then have top: "pass \<noteq> - 1" by (rule word_less_max)
  then have step: "bindc (merge_pass c st dir attempt head turn (pass + 1)) (\<lambda>r. case r of PassDone e \<Rightarrow> ret e
      | PassAgain turn' \<Rightarrow> merge_passes c st dir attempt head turn' (pass + 1)) s = (r, t)"
    using less.prems(1) by (subst (asm) merge_passes.simps) simp
  from step show ?case
  proof (cases rule: bindc_cases)
    case (1 e)
    then have "merge_course c st dir attempt head turn pass s 1 r t" using merge_course.refused [OF 1(1)] by simp
    then show ?thesis by (intro exI [of _ 1]) simp
  next
    case (2 p u)
    show ?thesis
    proof (cases p)
      case (PassDone e)
      with 2 have "r = Inr e" "t = u" by (simp_all add: ret_def)
      then have "merge_course c st dir attempt head turn pass s 1 r t"
        using merge_course.ended [OF 2(1) [unfolded PassDone]] by simp
      then show ?thesis by (intro exI [of _ 1]) simp
    next
      case (PassAgain turn')
      note progress = pass_progress [OF assms(1,2) 2(1) [unfolded PassAgain] less.prems(2,3)]
      then have less_left: "passes_left turn' (pass + 1) < passes_left turn pass" using passes_shrink [OF _ _ top] by blast
      have "unat (pass + 1) = Suc (unat pass)" using top by (rule unat_plus_one)
      with less_left less.prems(4) have small: "unat (pass + 1) + passes_left turn' (pass + 1) < 2 ^ 32 - 1" by linarith
      from 2(2) PassAgain have "merge_passes c st dir attempt head turn' (pass + 1) u = (r, t)" by simp
      from less.hyps [OF less_left this _ _ small] progress obtain n
        where n: "n \<le> Suc (passes_left turn' (pass + 1))" and rest: "merge_course c st dir attempt head turn' (pass + 1) u n r t"
        by blast
      from n less_left have "Suc n \<le> Suc (passes_left turn pass)" by linarith
      with merge_course.again [OF 2(1) [unfolded PassAgain] rest] show ?thesis by blast
    qed
  qed
qed

section \<open>The properties\<close>


text \<open>
  C7. Where the workflow has no regeneration rule and none is owed, a merge takes at most eleven passes: seven may
  find the run branch moved and three may spend a conflict round before one answers or fails.
\<close>

theorem merge_passes_bounded:
  assumes "rc_regenerate c = []" and "conflicts_named c" and "regenerate_pending_for (s_name st) attempt s = []"
    and "merge_passes c st dir attempt head \<lparr>tn_retry = 0, tn_staged = 0, tn_from = None\<rparr> 0 s = (r, t)"
  shows "\<exists>n \<le> 11. merge_course c st dir attempt head \<lparr>tn_retry = 0, tn_staged = 0, tn_from = None\<rparr> 0 s n r t"
  using merge_follows_course [OF assms(1,2,4,3)] by (simp add: passes_left_def)

text \<open>
  The rows of a pass are keyed by a counter every call starts anew: a landing whose pass an earlier call of
  the attempt already recorded is written to the process's map only, and the log keeps the earlier commit.
\<close>

lemma resumed_landing_unrecorded:
  assumes "row_key unit ''landed'' attempt (show_u32 pass) \<in> rx_keys s"
  shows "\<exists>t. record_landed c unit attempt pass sha pre s = (Inr (), t) \<and> rx_log t = rx_log s \<and>
     landing_recorded unit attempt sha t"
  using assms
  by (simp add: record_landed_def record_integrate_row_def emit_keyed_def emit_keyed_meta_def keyed_event_def seqc_def
      bindc_def getc_def setc_def ret_def landing_recorded_def bt_get_insert)

section \<open>A landing to evaluate them on\<close>

definition demo_land_dir :: string where
  "demo_land_dir = ''/s/rigger-wt-u1''"

definition demo_lander :: "nat run_cfg" where
  "demo_lander = demo_run\<lparr>rc_ports := demo_ports\<lparr>pt_changed_since_base := (\<lambda>_ w. (Inr [''f''], w)), pt_head_sha := (\<lambda>_ _. [])\<rparr>\<rparr>"





definition demo_merge :: "(string + merge_end) \<times> nat rctx" where
  "demo_merge = merge_passes demo_lander (demo_gated [''build'']) demo_land_dir 0 []
     \<lparr>tn_retry = 0, tn_staged = 0, tn_from = None\<rparr> 0 demo_ctx"

theorem merge_passes_bounded_witness:
  "\<exists>n \<le> 11. merge_course demo_lander (demo_gated [''build'']) demo_land_dir 0 [] \<lparr>tn_retry = 0, tn_staged = 0, tn_from = None\<rparr> 0
     demo_ctx n (fst demo_merge) (snd demo_merge)"
proof (rule merge_passes_bounded)
  show "rc_regenerate demo_lander = []" by (simp add: demo_lander_def demo_run_def)
  show "conflicts_named demo_lander"
    by (simp add: conflicts_named_def demo_lander_def demo_run_def demo_land_ports_def)
  show "regenerate_pending_for (s_name (demo_gated [''build''])) 0 demo_ctx = []"
    by (simp add: regenerate_pending_for_def demo_ctx_def bt_get_def)
qed (simp add: demo_merge_def)

end
