(* ===== verification/Spec2Isabelle.thy ===== *)
theory Spec2Isabelle
  imports Spawn Harvest Log_Reads Run_Read Stage_Peel Graph_Demo Progress Watch Stage_Runs Landing_Runs
begin

text \<open>
  Rigger: the event-sourced core of a multi-agent development loop. A run is a log of events in a store
  with optimistic concurrency. A conductor grows a graph of stages from a plan, schedules them in waves,
  drives each stage's unit through implementation, gates and review, lands it on the run branch and
  records every step as an event; every reader - the next process included - folds the log. This
  development models that core and proves what its parts promise. A property's text opens with its number.

  \<^bold>\<open>Shared ground.\<close> \<open>Prelude\<close> (types, \<open>Result\<close> as a sum, list lemmas), \<open>Rust_String\<close> (UTF-8 strings:
  splitting, trimming, printing of integers), \<open>BTree\<close> (\<open>BTreeMap\<close> as a strictly sorted association list),
  \<open>Wire\<close> (the events of \<open>eventstore.rs\<close>, their JSON bodies and the codec, a parameter: what it relies
  on is \<open>serde\<close>'s documented behaviour), \<open>Demo\<close> (a concrete codec for the witnesses).

  \<^bold>\<open>The log.\<close> \<open>Event_Store\<close> is the \<open>EventStore\<close> trait (\<open>event_port\<close>, with the batched reads and the
  subscriptions \<open>event_source\<close>) and its SQLite adapter: the rows of the table, appends with their checks
  and 64-bit revisions, the reads, the polls. \<open>Namespaced\<close> is the per-project decorator of
  \<open>namespace.rs\<close>, \<open>Log_Reads\<close> the pages, batches and subscriptions that race the writers, \<open>Run_Read\<close>
  the reads of a current run that takes several calls (\<open>run/read.rs\<close>), \<open>Retention\<close> the classes of event
  types and the keys of the derived index (\<open>retention.rs\<close>, \<open>ingest.rs\<close>). The lemmas: an append on each
  branch, order and uniqueness, what a read resumed or interleaved with appends delivers.

  \<^bold>\<open>The folds.\<close> \<open>Ledger\<close> (\<open>ledger.rs\<close>: the run's state, holds, the inbox), \<open>RunScope\<close> (\<open>run.rs\<close>: run
  boundaries, attribution, adoption), \<open>Spawn_Id\<close> and \<open>Spawn\<close> (\<open>spawn.rs\<close>: ids, requests and results, the
  step's frontier), \<open>Review\<close> (\<open>review.rs\<close>), \<open>Gate\<close> (\<open>gate.rs\<close>, \<open>failure.rs\<close>, \<open>safety.rs\<close>: the autonomy
  ratchet, the failure taxonomy, the remediation bound), \<open>Blocker\<close>, \<open>Playbooks\<close>, \<open>Agent\<close>, \<open>Adoption\<close>
  (\<open>conductor.rs\<close>: what earlier runs left of a criterion), \<open>Progress\<close> (\<open>progress.rs\<close>, \<open>hold_probe.rs\<close>)
  and \<open>Watch\<close> (\<open>watch.rs\<close>). Their properties compare a fold with what the log says, position by position.

  \<^bold>\<open>The context graph.\<close> \<open>Graph_Tables\<close>, \<open>Graph_Write\<close>, \<open>Graph_Fold\<close> and \<open>Graph_Entry\<close> model the tables and
  the transactions of \<open>contextgraph/sqlite.rs\<close>; \<open>Graph_Frame\<close>, \<open>Graph_Growth\<close>, \<open>Graph_Frames\<close> and
  \<open>Graph_Promises\<close> prove the invariant of its rows, the frame of every fold and its idempotence;
  \<open>Graph_Demo\<close> holds the witnesses.

  \<^bold>\<open>Stages and waves.\<close> \<open>Config\<close> (\<open>config.rs\<close>), \<open>Stage_Graph\<close> and \<open>Stage_Peel\<close> (the two cycle checks), \<open>Wave\<close>
  (\<open>wave.rs\<close>: decomposition, readiness, blast radii and their partition), \<open>Scheduler\<close> (the conductor's
  wave loop as turns over reports in any order) and \<open>Harvest\<close> (how proposals grow the stages).

  \<^bold>\<open>A unit's stage.\<close> \<open>Effects\<close> is a computation with an error over a state. \<open>Run_Ctx\<close> is \<open>RunCtx\<close>: what the
  process keeps, the ports it calls (git, agents, gate commands, the log) and its one way to append.
  \<open>Unit_Gates\<close>, \<open>Unit_Review\<close>, \<open>Unit_Life\<close>, \<open>Unit_Merge\<close> and \<open>Plan_Landing\<close> are \<open>run_single_stage\<close> with
  everything it calls: gates with replay and content cache, the reviewers and the adjudicator, charged and
  uncharged failures, the merge loop with its rows, conflict rounds and regenerations, the post-merge
  gates and their rollback, and a plan's commits. \<open>Unit_Life\<close> takes the landing as an argument
  (\<open>landing\<close>, with the contract \<open>landing_ok\<close>); \<open>conductor_landing\<close> of \<open>Plan_Landing\<close> is the source's, and
  \<open>Landing_Frame\<close> proves the contract of it. \<open>Unit_Frame\<close>, \<open>Unit_Landing\<close> and \<open>Unit_Trace\<close> carry the
  proofs; \<open>Gate_Runs\<close>, \<open>Stage_Runs\<close> and \<open>Landing_Runs\<close> state what a gate pass, a stage and a landing
  promise. A stage refines its abstract course: charged failures up to the bound, then the landing, the
  escalation or neither.

  \<^bold>\<open>Interfaces.\<close> \<open>ordered_map\<close> (interpreted on the B-tree map, \<open>btm\<close>); \<open>conflict_rule\<close> (on \<open>radii_conflict\<close>,
  \<open>blast\<close>); \<open>event_store\<close>, the contract of the port (on the SQLite adapter, \<open>sq\<close>, and on every namespace
  of it, \<open>ns\<close>); \<open>catch_up\<close>, a subscription's poll (\<open>all_sub\<close>, \<open>stream_sub\<close>); \<open>state_order\<close>, an order every
  step of a computation moves along, interpreted on the orders the proofs need (\<open>ctx\<close>, \<open>quiet\<close>, \<open>vd\<close>,
  \<open>fed\<close>, \<open>told\<close>, \<open>calm\<close>, \<open>still\<close>, \<open>maps\<close>).

  \<^bold>\<open>Loops and fuel.\<close> Every loop is total. The cycle search has the only fuel that can show: its recursion is
  bounded by the names it can still colour, so \<open>length (stage_names stages)\<close> is enough, exhaustion is an
  answer of its own, and \<open>Stage_Graph\<close> shows that it does not happen; the peel of \<open>validate_acyclic\<close> takes one
  round per stage. A unit's attempts end by the charges left to the bound, and its uncharged reruns by the
  infrastructure retries left. The merge loop counts its passes in 32 bits, as the source does, and a
  count past the range is the panic of a checked build. A wave is a relation over any number of turns.

  \<^bold>\<open>Integers.\<close> Attempts, retries, passes and counts that the source keeps in \<open>u32\<close> or \<open>u64\<close> are words. A
  revision of the log is an integer whose increment wraps at the end of the 64-bit range (\<open>i64_next\<close>).

  \<^bold>\<open>Left out.\<close> Git, the agents, the gates' commands, extraction of source code, prompt text, clocks and
  randomness are ports or parameters. The processes and threads behind them, database faults and schema
  migrations, the KurrentDB adapter, the command line, the rendered graph queries, and of the conductor
  the speculation lanes, the execution of compensations, the fan-out review and the critique loop are not
  modelled. Two processes on one run meet only at the log: the theories of the log prove their reads under
  every interleaving with appends; a stage is one process, its siblings part of the ports' answers.
\<close>

end
